(* ===== verification/Prelude.thy ===== *)
theory Prelude
  imports Complex_Main "HOL-Library.Word"
begin

text \<open>
  What every other theory of the development shares: the errors of the simulated program, the
  chaining of fallible operations, the simulation clock, and the theorem collections that the
  component theories extend and their proofs use.

  A thrown \<open>cRuntimeError\<close> (which ends the simulation) is a value \<open>Inl (RuntimeError _)\<close>.
  Reading a local variable that was never written, dereferencing a past-the-end iterator or
  indexing a vector out of range is undefined behaviour in C++; the model gives
  \<open>Inl (UndefinedBehaviour _)\<close>, so that no branch of the source is silently total.
  Simulation times and C++ doubles are real numbers; rounding is not modelled.
\<close>

datatype sim_error =
    RuntimeError string
  | UndefinedBehaviour string

type_synonym 'a result = "sim_error + 'a"
type_synonym simtime = real

named_theorems model_simps \<open>unfolding rules of the model's definitions\<close>
named_theorems frame_simps \<open>fields an operation leaves unchanged\<close>

subsection \<open>Chaining fallible operations\<close>

definition andThen :: "'e + 'a \<Rightarrow> ('a \<Rightarrow> 'e + 'b) \<Rightarrow> 'e + 'b" where
  "andThen m f = (case m of Inl e \<Rightarrow> Inl e | Inr a \<Rightarrow> f a)"

lemma andThen_simps [simp]:
  "andThen (Inl e) f = Inl e"
  "andThen (Inr a) f = f a"
  by (simp_all add: andThen_def)

lemma andThen_Inr_iff: "andThen m f = Inr b \<longleftrightarrow> (\<exists>a. m = Inr a \<and> f a = Inr b)"
  by (cases m) auto

lemma andThen_Inl_iff: "andThen m f = Inl e \<longleftrightarrow> m = Inl e \<or> (\<exists>a. m = Inr a \<and> f a = Inl e)"
  by (cases m) auto

lemma andThen_assoc: "andThen (andThen m f) g = andThen m (\<lambda>a. andThen (f a) g)"
  by (cases m) auto

lemma andThen_return [simp]: "andThen m Inr = m"
  by (cases m) auto

lemma andThen_cong [fundef_cong]:
  "m = m' \<Longrightarrow> (\<And>a. m' = Inr a \<Longrightarrow> f a = f' a) \<Longrightarrow> andThen m f = andThen m' f'"
  by (cases m') auto

lemma andThen_InrE:
  assumes "andThen m f = Inr b"
  obtains a where "m = Inr a" "f a = Inr b"
  using assms by (auto simp: andThen_Inr_iff)

text \<open>
  \<open>ensures Q r\<close>: when the operation returns, its result satisfies \<open>Q\<close>. The introduction rules
  push a predicate that every step preserves through the structure of an operation.
\<close>

definition ensures :: "('a \<Rightarrow> bool) \<Rightarrow> 'e + 'a \<Rightarrow> bool" where
  "ensures Q r \<longleftrightarrow> (\<forall>a. r = Inr a \<longrightarrow> Q a)"

lemma ensures_simps [simp]:
  "ensures Q (Inl e)"
  "ensures Q (Inr a) \<longleftrightarrow> Q a"
  by (simp_all add: ensures_def)

lemma ensuresI: "(\<And>a. r = Inr a \<Longrightarrow> Q a) \<Longrightarrow> ensures Q r"
  by (simp add: ensures_def)

lemma ensuresD: "ensures Q r \<Longrightarrow> r = Inr a \<Longrightarrow> Q a"
  by (simp add: ensures_def)

lemma ensures_seqI: "ensures Q m \<Longrightarrow> (\<And>a. Q a \<Longrightarrow> ensures Q (f a)) \<Longrightarrow> ensures Q (andThen m f)"
  by (auto simp: ensures_def andThen_Inr_iff)

lemma ensures_ifI: "(b \<Longrightarrow> ensures Q r) \<Longrightarrow> (\<not> b \<Longrightarrow> ensures Q s) \<Longrightarrow> ensures Q (if b then r else s)"
  by simp

lemma ensures_optionI:
  "(z = None \<Longrightarrow> ensures Q r) \<Longrightarrow> (\<And>x. z = Some x \<Longrightarrow> ensures Q (f x)) \<Longrightarrow>
   ensures Q (case z of None \<Rightarrow> r | Some x \<Rightarrow> f x)"
  by (cases z) simp_all

lemmas ensures_intros = ensures_seqI ensures_ifI ensures_optionI

text \<open>An operation applied to every element of a list, left to right, stopping at an error.\<close>

fun foldR :: "('a \<Rightarrow> 's \<Rightarrow> 'e + 's) \<Rightarrow> 'a list \<Rightarrow> 's \<Rightarrow> 'e + 's" where
  "foldR f [] s = Inr s"
| "foldR f (x # xs) s = andThen (f x s) (foldR f xs)"

lemma foldR_append: "foldR f (xs @ ys) s = andThen (foldR f xs s) (foldR f ys)"
proof (induction xs arbitrary: s)
  case Nil
  show ?case by simp
next
  case (Cons x xs)
  show ?case by (cases "f x s") (simp_all add: Cons.IH)
qed

lemma foldR_invariant:
  assumes step: "\<And>x s s'. x \<in> set xs \<Longrightarrow> P s \<Longrightarrow> f x s = Inr s' \<Longrightarrow> P s'"
    and run: "foldR f xs s = Inr s'" and init: "P s"
  shows "P s'"
  using assms
proof (induction xs arbitrary: s)
  case Nil
  then show ?case by simp
next
  case (Cons x xs)
  from Cons.prems(2) obtain t where t: "f x s = Inr t" "foldR f xs t = Inr s'"
    by (auto elim: andThen_InrE)
  from t(1) have "P t" using Cons.prems(1,3) by auto
  with t(2) show ?case using Cons.IH Cons.prems(1) by auto
qed

subsection \<open>Lists updated by index, in-order search\<close>

text \<open>
  The first index whose element satisfies a predicate, as a C++ loop with a \<open>break\<close> finds it.
\<close>

fun find_index :: "('a \<Rightarrow> bool) \<Rightarrow> 'a list \<Rightarrow> nat option" where
  "find_index P [] = None"
| "find_index P (x # xs) = (if P x then Some 0 else map_option Suc (find_index P xs))"

lemma find_index_None_iff: "find_index P xs = None \<longleftrightarrow> (\<forall>x\<in>set xs. \<not> P x)"
  by (induction xs) auto

lemma find_index_SomeD: "find_index P xs = Some i \<Longrightarrow> i < length xs \<and> P (xs ! i)"
  by (induction xs arbitrary: i) (auto split: if_splits)

lemma find_index_first: "find_index P xs = Some i \<Longrightarrow> j < i \<Longrightarrow> \<not> P (xs ! j)"
proof (induction xs arbitrary: i j)
  case Nil
  then show ?case by simp
next
  case (Cons x xs)
  then show ?case by (cases j) (auto split: if_splits)
qed

text \<open>The last index whose element satisfies a predicate: a C++ loop without a \<open>break\<close>.\<close>

fun find_last_index :: "('a \<Rightarrow> bool) \<Rightarrow> 'a list \<Rightarrow> nat option" where
  "find_last_index P [] = None"
| "find_last_index P (x # xs) =
     (case find_last_index P xs of
        Some i \<Rightarrow> Some (Suc i)
      | None \<Rightarrow> if P x then Some 0 else None)"

lemma find_last_index_None_iff: "find_last_index P xs = None \<longleftrightarrow> (\<forall>x\<in>set xs. \<not> P x)"
  by (induction xs) (auto split: option.splits)

lemma find_last_index_SomeD: "find_last_index P xs = Some i \<Longrightarrow> i < length xs \<and> P (xs ! i)"
  by (induction xs arbitrary: i) (auto split: option.splits if_splits)

definition remove_nth :: "nat \<Rightarrow> 'a list \<Rightarrow> 'a list" where
  "remove_nth n xs = take n xs @ drop (Suc n) xs"

lemma length_remove_nth: "n < length xs \<Longrightarrow> length (remove_nth n xs) = length xs - 1"
  by (simp add: remove_nth_def)

lemma set_remove_nth: "set (remove_nth n xs) \<subseteq> set xs"
  by (auto simp: remove_nth_def dest: in_set_takeD in_set_dropD)

subsection \<open>Decibels\<close>

text \<open>The conversions of \<open>common/INETMath.h\<close>.\<close>

definition dB2fraction :: "real \<Rightarrow> real" where
  "dB2fraction dB = 10 powr (dB / 10)"

definition fraction2dB :: "real \<Rightarrow> real" where
  "fraction2dB fraction = 10 * log 10 fraction"

definition dBm2mW :: "real \<Rightarrow> real" where
  "dBm2mW dBm = 10 powr (dBm / 10)"

definition mW2dBm :: "real \<Rightarrow> real" where
  "mW2dBm mW = 10 * log 10 mW"

lemma dBm2mW_pos [simp]: "0 < dBm2mW x"
  by (simp add: dBm2mW_def)

lemma dBm2mW_less_iff [simp]: "dBm2mW x < dBm2mW y \<longleftrightarrow> x < y"
  by (simp add: dBm2mW_def)

lemma dBm2mW_le_iff [simp]: "dBm2mW x \<le> dBm2mW y \<longleftrightarrow> x \<le> y"
  by (simp add: dBm2mW_def)

lemma mW2dBm_dBm2mW [simp]: "mW2dBm (dBm2mW x) = x"
  by (simp add: mW2dBm_def dBm2mW_def log_powr)

lemma dBm2mW_mW2dBm: "0 < x \<Longrightarrow> dBm2mW (mW2dBm x) = x"
  by (simp add: mW2dBm_def dBm2mW_def powr_log_cancel)

end
