(* ===== verification/FSMA.thy ===== *)
theory FSMA
  imports Prelude
begin

text \<open>
  \<open>common/FSMA.h\<close>: the finite state machine macros that the link layers of the program are
  written with. A machine is the list of its \<open>FSMA_State\<close> blocks in the order of the source, a
  block the list of the macro calls of its body. The interpreter below runs what the macros
  expand to: the blocks are tested one after the other against the current state, a transition
  that fires restarts the scan (\<open>continue\<close>), the entry action of a block runs when the event has
  been consumed, and the scan is repeated at most \<open>FSM_MAXT\<close> times.

  The world \<open>'w\<close> holds the state of the machine. An action may change it (also through a
  callback that runs the same machine again), which the later blocks of the same scan see.
\<close>

datatype ('s, 'w) fsma_item =
    FSMA_Enter "'w \<Rightarrow> 'w result"
  | FSMA_Event_Transition "'w \<Rightarrow> bool" 's "'w \<Rightarrow> 'w result"
  | FSMA_No_Event_Transition "'w \<Rightarrow> bool" 's "'w \<Rightarrow> 'w result"
  | FSMA_Ignore_Event "'w \<Rightarrow> bool"
  | FSMA_Fail_On_Unhandled_Event

type_synonym ('s, 'w) fsma_machine = "('s \<times> ('s, 'w) fsma_item list) list"

text \<open>
  How a scan ends: a transition fired (and the loop continues with \<open>___is_event\<close> false), or
  control fell through every block, with the value of \<open>___is_event\<close>.
\<close>

datatype 'w fsma_outcome = Fired 'w | FellThrough bool 'w

text \<open>The body of one block: \<open>___is_event\<close> and \<open>___transition_seen\<close> are the two flags.\<close>

fun exec_items :: "('s \<Rightarrow> 'w \<Rightarrow> 'w) \<Rightarrow> ('s, 'w) fsma_item list \<Rightarrow> bool \<Rightarrow> bool \<Rightarrow> 'w \<Rightarrow> 'w fsma_outcome result" where
  "exec_items setState [] is_event seen w = Inr (FellThrough is_event w)"
| "exec_items setState (FSMA_Enter action # r) is_event seen w =
     (if \<not> is_event
      then if seen then Inl (RuntimeError ''FSMA_Enter() must precede all FSMA_*_Transition()'')
           else andThen (action w) (exec_items setState r is_event seen)
      else exec_items setState r is_event seen w)"
| "exec_items setState (FSMA_Event_Transition condition target action # r) is_event seen w =
     (if condition w \<and> is_event
      then andThen (action w) (\<lambda>w'. Inr (Fired (setState target w')))
      else exec_items setState r is_event True w)"
| "exec_items setState (FSMA_No_Event_Transition condition target action # r) is_event seen w =
     (if condition w \<and> \<not> is_event
      then andThen (action w) (\<lambda>w'. Inr (Fired (setState target w')))
      else exec_items setState r is_event True w)"
| "exec_items setState (FSMA_Ignore_Event condition # r) is_event seen w =
     exec_items setState r (if condition w \<and> is_event then False else is_event) True w"
| "exec_items setState (FSMA_Fail_On_Unhandled_Event # r) is_event seen w =
     (if is_event then Inl (RuntimeError ''Unhandled event'')
      else exec_items setState r is_event True w)"

fun exec_blocks ::
  "('w \<Rightarrow> 's) \<Rightarrow> ('s \<Rightarrow> 'w \<Rightarrow> 'w) \<Rightarrow> ('s, 'w) fsma_machine \<Rightarrow> bool \<Rightarrow> 'w \<Rightarrow> 'w fsma_outcome result" where
  "exec_blocks getState setState [] is_event w = Inr (FellThrough is_event w)"
| "exec_blocks getState setState ((s, items) # bs) is_event w =
     (if getState w = s
      then andThen (exec_items setState items is_event False w)
             (\<lambda>r. case r of Fired w' \<Rightarrow> Inr (Fired w')
                | FellThrough ie w' \<Rightarrow> exec_blocks getState setState bs ie w')
      else exec_blocks getState setState bs is_event w)"

text \<open>
  The \<open>while\<close> loop of \<open>FSMA_Switch\<close>; the first argument is the number of iterations left
  before \<open>E_INFLOOP\<close> is thrown.
\<close>

fun fsma_loop ::
  "nat \<Rightarrow> ('w \<Rightarrow> 's) \<Rightarrow> ('s \<Rightarrow> 'w \<Rightarrow> 'w) \<Rightarrow> ('s, 'w) fsma_machine \<Rightarrow> bool \<Rightarrow> 'w \<Rightarrow> 'w result" where
  "fsma_loop 0 getState setState bs is_event w = Inl (RuntimeError ''E_INFLOOP'')"
| "fsma_loop (Suc n) getState setState bs is_event w =
     andThen (exec_blocks getState setState bs is_event w)
       (\<lambda>r. case r of Fired w' \<Rightarrow> fsma_loop n getState setState bs False w'
          | FellThrough _ w' \<Rightarrow> Inr w')"

definition fsma_switch ::
  "nat \<Rightarrow> ('w \<Rightarrow> 's) \<Rightarrow> ('s \<Rightarrow> 'w \<Rightarrow> 'w) \<Rightarrow> ('s, 'w) fsma_machine \<Rightarrow> 'w \<Rightarrow> 'w result" where
  "fsma_switch FSM_MAXT getState setState bs w = fsma_loop FSM_MAXT getState setState bs True w"

subsection \<open>Machines without \<open>FSMA_No_Event_Transition\<close> scan their blocks at most twice\<close>

fun is_no_event :: "('s, 'w) fsma_item \<Rightarrow> bool" where
  "is_no_event (FSMA_No_Event_Transition _ _ _) = True"
| "is_no_event _ = False"

definition event_driven :: "('s, 'w) fsma_machine \<Rightarrow> bool" where
  "event_driven bs \<longleftrightarrow> (\<forall>(s, items)\<in>set bs. \<forall>i\<in>set items. \<not> is_no_event i)"

lemma exec_items_no_fire:
  "\<forall>i\<in>set items. \<not> is_no_event i \<Longrightarrow> exec_items setState items False seen w = Inr r \<Longrightarrow>
   \<exists>w'. r = FellThrough False w'"
proof (induction items arbitrary: seen w r)
  case Nil
  then show ?case by auto
next
  case (Cons i items)
  then show ?case by (cases i) (fastforce split: if_splits simp: andThen_Inr_iff)+
qed

lemma exec_blocks_no_fire:
  "event_driven bs \<Longrightarrow> exec_blocks getState setState bs False w = Inr r \<Longrightarrow>
   \<exists>w'. r = FellThrough False w'"
proof (induction bs arbitrary: w r)
  case Nil
  then show ?case by auto
next
  case (Cons b bs)
  obtain s items where b: "b = (s, items)" by force
  from Cons.prems(1) have ed: "event_driven bs" and ni: "\<forall>i\<in>set items. \<not> is_no_event i"
    by (auto simp: event_driven_def b)
  show ?case
  proof (cases "getState w = s")
    case True
    with Cons.prems(2) obtain q where q: "exec_items setState items False False w = Inr q"
      "(case q of Fired w' \<Rightarrow> Inr (Fired w') | FellThrough ie w' \<Rightarrow> exec_blocks getState setState bs ie w') = Inr r"
      by (auto simp: b andThen_Inr_iff)
    from exec_items_no_fire [OF ni q(1)] q(2) show ?thesis by (auto intro: Cons.IH [OF ed])
  next
    case False
    with Cons.prems(2) show ?thesis by (auto simp: b intro: Cons.IH [OF ed])
  qed
qed

lemma fsma_loop_consumed:
  assumes "event_driven bs"
  shows "fsma_loop (Suc n) getState setState bs False w = fsma_loop 1 getState setState bs False w"
proof (cases "exec_blocks getState setState bs False w")
  case (Inl e)
  then show ?thesis by simp
next
  case (Inr r)
  with exec_blocks_no_fire [OF assms Inr] show ?thesis by auto
qed

text \<open>
  C27: Two scans are always enough for a machine whose transitions all consume the event: every
  bound \<open>FSM_MAXT\<close> of at least two gives the result of bound two, so the \<open>E_INFLOOP\<close> exception of
  \<open>FSMA_Switch\<close> cannot come from the loop bound.
\<close>

theorem fsma_switch_two_scans:
  assumes "event_driven bs"
  shows "fsma_switch (n + 2) getState setState bs w = fsma_switch 2 getState setState bs w"
proof (cases "exec_blocks getState setState bs True w")
  case (Inl e)
  then show ?thesis by (simp add: fsma_switch_def numeral_2_eq_2)
next
  case (Inr r)
  then show ?thesis
  proof (cases r)
    case (Fired w')
    have "fsma_loop (Suc n) getState setState bs False w' = fsma_loop (Suc 0) getState setState bs False w'"
      using fsma_loop_consumed [OF assms, of n] by simp
    with Inr Fired show ?thesis by (simp add: fsma_switch_def numeral_2_eq_2)
  next
    case (FellThrough ie w')
    with Inr show ?thesis by (simp add: fsma_switch_def numeral_2_eq_2)
  qed
qed

text \<open>A machine of two states whose second state counts its entries.\<close>

lemma fsma_switch_two_scans_witness:
  "fsma_switch 5 fst (\<lambda>s w. (s, snd w))
      [(0::nat, [FSMA_Event_Transition (\<lambda>_. True) 1 Inr]), (1, [FSMA_Enter (\<lambda>(s, n). Inr (s, n + 1))])] (0, 3::nat)
     = Inr (1, 4)"
proof -
  let ?m = "[(0::nat, [FSMA_Event_Transition (\<lambda>_. True) 1 Inr]), (1, [FSMA_Enter (\<lambda>(s, n). Inr (s, n + 1::nat))])]"
  have "event_driven ?m" by (simp add: event_driven_def)
  from fsma_switch_two_scans [OF this, of 3 fst "\<lambda>s w. (s, snd w)" "(0, 3)"] show ?thesis
    by (simp add: fsma_switch_def numeral_2_eq_2)
qed

text \<open>One scan of a machine that an event does not move, and one that it moves.\<close>

lemma fsma_switch_idle:
  "exec_blocks getState setState bs True w = Inr (FellThrough ie w') \<Longrightarrow>
   fsma_switch (Suc n) getState setState bs w = Inr w'"
  by (simp add: fsma_switch_def)

lemma fsma_switch_fired:
  "exec_blocks getState setState bs True w = Inr (Fired w') \<Longrightarrow>
   exec_blocks getState setState bs False w' = Inr (FellThrough ie w'') \<Longrightarrow>
   fsma_switch (Suc (Suc n)) getState setState bs w = Inr w''"
  by (simp add: fsma_switch_def)

subsection \<open>Invariants of an event-driven machine\<close>

text \<open>
  The rule the link layers use. \<open>P\<close> is the invariant and \<open>P0\<close> what is known besides while the event
  is not consumed yet. If every entry action keeps \<open>P\<close>, and every transition that is taken in its
  own state with its condition true leads from \<open>P0\<close> to \<open>P\<close>, the whole macro leads from \<open>P0\<close> and
  \<open>P\<close> to \<open>P\<close>.
\<close>

definition keeps_enter :: "('w \<Rightarrow> bool) \<Rightarrow> ('s, 'w) fsma_item \<Rightarrow> bool" where
  "keeps_enter P i \<longleftrightarrow> (case i of FSMA_Enter action \<Rightarrow> \<forall>w w'. P w \<longrightarrow> action w = Inr w' \<longrightarrow> P w' | _ \<Rightarrow> True)"

definition keeps_transition ::
  "('w \<Rightarrow> 's) \<Rightarrow> ('s \<Rightarrow> 'w \<Rightarrow> 'w) \<Rightarrow> ('w \<Rightarrow> bool) \<Rightarrow> ('w \<Rightarrow> bool) \<Rightarrow> 's \<Rightarrow> ('s, 'w) fsma_item \<Rightarrow> bool" where
  "keeps_transition getState setState P0 P s i \<longleftrightarrow>
     (case i of FSMA_Event_Transition condition target action \<Rightarrow>
        \<forall>w w'. P0 w \<longrightarrow> getState w = s \<longrightarrow> condition w \<longrightarrow> action w = Inr w' \<longrightarrow> P (setState target w')
      | _ \<Rightarrow> True)"

lemmas keeps_defs = keeps_enter_def keeps_transition_def

fun outcome_world :: "'w fsma_outcome \<Rightarrow> 'w" where
  "outcome_world (Fired w) = w"
| "outcome_world (FellThrough _ w) = w"

lemma exec_items_invariant:
  assumes "\<forall>i\<in>set items. \<not> is_no_event i \<and> keeps_enter P i \<and> (is_event \<longrightarrow> keeps_transition getState setState P0 P s i)"
    and "exec_items setState items is_event seen w = Inr r" and "P w" and "is_event \<longrightarrow> P0 w \<and> getState w = s"
  shows "P (outcome_world r)"
  using assms
proof (induction items arbitrary: is_event seen w)
  case Nil
  then show ?case by auto
next
  case (Cons i items)
  note IH = Cons.IH
  have tail: "\<forall>i\<in>set items. \<not> is_no_event i \<and> keeps_enter P i \<and> (e \<longrightarrow> keeps_transition getState setState P0 P s i)"
    if "e \<longrightarrow> is_event" for e
    using Cons.prems(1) that by auto
  show ?case
  proof (cases i)
    case (FSMA_Enter action)
    show ?thesis
    proof (cases is_event)
      case True
      then show ?thesis using Cons.prems IH [OF tail] FSMA_Enter by simp
    next
      case False
      with Cons.prems(2) FSMA_Enter obtain w1 where w1: "action w = Inr w1"
        "exec_items setState items False seen w1 = Inr r"
        by (auto simp: andThen_Inr_iff split: if_splits)
      from w1(1) Cons.prems(1,3) FSMA_Enter have "P w1" by (auto simp: keeps_enter_def)
      then show ?thesis using IH [OF tail w1(2)] by simp
    qed
  next
    case (FSMA_Event_Transition c t a)
    show ?thesis
    proof (cases "c w \<and> is_event")
      case True
      with Cons.prems FSMA_Event_Transition show ?thesis by (auto simp: andThen_Inr_iff keeps_transition_def)
    next
      case False
      with Cons.prems(2) FSMA_Event_Transition have "exec_items setState items is_event True w = Inr r"
        by (auto split: if_splits)
      from IH [OF tail [OF impI] this Cons.prems(3,4)] show ?thesis by simp
    qed
  next
    case (FSMA_No_Event_Transition c t a)
    with Cons.prems(1) show ?thesis by simp
  next
    case (FSMA_Ignore_Event c)
    then show ?thesis using Cons.prems IH [OF tail] by (auto split: if_splits)
  next
    case FSMA_Fail_On_Unhandled_Event
    then show ?thesis using Cons.prems IH [OF tail] by (auto split: if_splits)
  qed
qed

lemma exec_items_still_event:
  "exec_items setState items is_event seen w = Inr (FellThrough True w') \<Longrightarrow> is_event \<and> w' = w"
  if "\<forall>i\<in>set items. \<not> is_no_event i"
proof -
  have consumed: "exec_items setState is False sn v \<noteq> Inr (FellThrough True v')"
    if "\<forall>i\<in>set is. \<not> is_no_event i" for "is" :: "('a, 'b) fsma_item list" and sn v v'
    using exec_items_no_fire [OF that] by fastforce
  show "is_event \<and> w' = w" if "exec_items setState items is_event seen w = Inr (FellThrough True w')"
    using \<open>\<forall>i\<in>set items. \<not> is_no_event i\<close> that
  proof (induction items arbitrary: seen)
    case Nil
    then show ?case by auto
  next
    case (Cons i items)
    then show ?case using consumed [of items] consumed [of "i # items"]
      by (cases is_event; cases i) (auto split: if_splits simp: andThen_Inr_iff)
  qed
qed

definition machine_keeps ::
  "('w \<Rightarrow> 's) \<Rightarrow> ('s \<Rightarrow> 'w \<Rightarrow> 'w) \<Rightarrow> ('w \<Rightarrow> bool) \<Rightarrow> ('w \<Rightarrow> bool) \<Rightarrow> ('s, 'w) fsma_machine \<Rightarrow> bool" where
  "machine_keeps getState setState P0 P bs \<longleftrightarrow>
     (\<forall>(s, items)\<in>set bs. \<forall>i\<in>set items.
        \<not> is_no_event i \<and> keeps_enter P i \<and> keeps_transition getState setState P0 P s i)"

lemma machine_keeps_simps:
  "machine_keeps getState setState P0 P [] \<longleftrightarrow> True"
  "machine_keeps getState setState P0 P ((s, []) # bs) \<longleftrightarrow> machine_keeps getState setState P0 P bs"
  "machine_keeps getState setState P0 P ((s, FSMA_Enter e # items) # bs) \<longleftrightarrow>
     (\<forall>w w'. P w \<longrightarrow> e w = Inr w' \<longrightarrow> P w') \<and> machine_keeps getState setState P0 P ((s, items) # bs)"
  "machine_keeps getState setState P0 P ((s, FSMA_Event_Transition c t a # items) # bs) \<longleftrightarrow>
     (\<forall>w w'. P0 w \<longrightarrow> getState w = s \<longrightarrow> c w \<longrightarrow> a w = Inr w' \<longrightarrow> P (setState t w'))
     \<and> machine_keeps getState setState P0 P ((s, items) # bs)"
  by (auto simp: machine_keeps_def keeps_defs)

lemma exec_blocks_invariant:
  "machine_keeps getState setState P0 P bs \<Longrightarrow> exec_blocks getState setState bs is_event w = Inr r \<Longrightarrow>
   P w \<Longrightarrow> (is_event \<longrightarrow> P0 w) \<Longrightarrow> P (outcome_world r)"
proof (induction bs arbitrary: is_event w)
  case Nil
  then show ?case by auto
next
  case (Cons b bs)
  obtain s items where b: "b = (s, items)" by force
  from Cons.prems(1) have mk: "machine_keeps getState setState P0 P bs"
    and ki: "\<forall>i\<in>set items. \<not> is_no_event i \<and> keeps_enter P i \<and> (is_event \<longrightarrow> keeps_transition getState setState P0 P s i)"
    by (auto simp: machine_keeps_def b)
  show ?case
  proof (cases "getState w = s")
    case True
    with Cons.prems(2) obtain q where q: "exec_items setState items is_event False w = Inr q"
      "(case q of Fired w' \<Rightarrow> Inr (Fired w') | FellThrough ie w' \<Rightarrow> exec_blocks getState setState bs ie w') = Inr r"
      by (auto simp: b andThen_Inr_iff)
    from exec_items_invariant [OF ki q(1) Cons.prems(3)] True Cons.prems(4)
    have "P (outcome_world q)" by simp
    moreover have "ie \<longrightarrow> P0 w'" if "q = FellThrough ie w'" for ie w'
      using exec_items_still_event [of items setState is_event False w w'] ki q(1) Cons.prems(4) that by auto
    ultimately show ?thesis using q(2) by (cases q) (auto intro: Cons.IH [OF mk])
  next
    case False
    with Cons.prems show ?thesis by (auto simp: b intro: Cons.IH [OF mk])
  qed
qed

lemma fsma_loop_invariant:
  "machine_keeps getState setState P0 P bs \<Longrightarrow> fsma_loop n getState setState bs is_event w = Inr w' \<Longrightarrow>
   P w \<Longrightarrow> (is_event \<longrightarrow> P0 w) \<Longrightarrow> P w'"
proof (induction n arbitrary: is_event w)
  case 0
  then show ?case by simp
next
  case (Suc n)
  from Suc.prems(2) obtain r where r: "exec_blocks getState setState bs is_event w = Inr r"
    "(case r of Fired w' \<Rightarrow> fsma_loop n getState setState bs False w' | FellThrough _ w' \<Rightarrow> Inr w') = Inr w'"
    by (auto simp: andThen_Inr_iff)
  from exec_blocks_invariant [OF Suc.prems(1) r(1) Suc.prems(3,4)] have "P (outcome_world r)" .
  with r(2) show ?case by (cases r) (auto intro: Suc.IH [OF Suc.prems(1)])
qed

lemma fsma_switch_invariant:
  "machine_keeps getState setState P0 P bs \<Longrightarrow> fsma_switch n getState setState bs w = Inr w' \<Longrightarrow> P0 w \<Longrightarrow> P w \<Longrightarrow> P w'"
  unfolding fsma_switch_def by (rule fsma_loop_invariant [of getState setState P0 P bs n True w w']) simp_all

end
