(* ===== verification/DevAddr.thy ===== *)
theory DevAddr
  imports Prelude
begin

unbundle bit_operations_syntax

text \<open>
  \<open>misc/DevAddr.h\<close> and \<open>misc/DevAddr.cc\<close>: the four-byte device address of a LoRa node, its
  byte accessors, the parser and printer of its textual form, its order and the automatic
  numbering of addresses. The address is the \<open>uint32\<close> the class holds.
\<close>

type_synonym devaddr = "32 word"

definition DEVADDR_ADDRESS_SIZE :: nat where
  "DEVADDR_ADDRESS_SIZE = 4"

definition UNSPECIFIED_ADDRESS :: devaddr where
  "UNSPECIFIED_ADDRESS = 0"

definition isBroadcastAddr :: "devaddr \<Rightarrow> bool" where
  "isBroadcastAddr a \<longleftrightarrow> a = 0xffffffff"

definition isUnspecified :: "devaddr \<Rightarrow> bool" where
  "isUnspecified a \<longleftrightarrow> a = 0"

definition getAddressByte :: "devaddr \<Rightarrow> nat \<Rightarrow> 8 word result" where
  "getAddressByte a k =
     (if k \<ge> DEVADDR_ADDRESS_SIZE then Inl (RuntimeError ''Array of size 4 indexed'')
      else Inr (ucast (0xff AND drop_bit ((DEVADDR_ADDRESS_SIZE - k - 1) * 8) a)))"

definition setAddressByte :: "devaddr \<Rightarrow> nat \<Rightarrow> 8 word \<Rightarrow> devaddr result" where
  "setAddressByte a k b =
     (if k \<ge> DEVADDR_ADDRESS_SIZE then Inl (RuntimeError ''Array of size 4 indexed'')
      else let offset = (DEVADDR_ADDRESS_SIZE - k - 1) * 8
           in Inr ((a AND NOT (push_bit offset 0xff)) OR push_bit offset (ucast b)))"

subsection \<open>Character classes of the C library, in the C locale\<close>

definition isdigit :: "char \<Rightarrow> bool" where
  "isdigit c \<longleftrightarrow> 48 \<le> (of_char c :: nat) \<and> (of_char c :: nat) \<le> 57"

definition islower :: "char \<Rightarrow> bool" where
  "islower c \<longleftrightarrow> 97 \<le> (of_char c :: nat) \<and> (of_char c :: nat) \<le> 122"

definition isxdigit :: "char \<Rightarrow> bool" where
  "isxdigit c \<longleftrightarrow> isdigit c \<or> (65 \<le> (of_char c :: nat) \<and> (of_char c :: nat) \<le> 70)
     \<or> (97 \<le> (of_char c :: nat) \<and> (of_char c :: nat) \<le> 102)"

text \<open>The digit value as the parser computes it, in an \<open>unsigned char\<close>.\<close>

definition xdigit_value :: "char \<Rightarrow> 8 word" where
  "xdigit_value c =
     (if isdigit c then of_nat (of_char c - 48)
      else if islower c then of_nat (of_char c - 97 + 10)
      else of_nat (of_char c - 65 + 10))"

subsection \<open>Parsing\<close>

definition addr_syntax_ok :: "string \<Rightarrow> bool" where
  "addr_syntax_ok s \<longleftrightarrow>
     (\<forall>c\<in>set s. isxdigit c \<or> c = CHR '' '' \<or> c = CHR '':'' \<or> c = CHR ''-'')
     \<and> length (filter isxdigit s) = 2 * DEVADDR_ADDRESS_SIZE"

text \<open>
  The conversion loop over the byte positions. The pointer \<open>s\<close> of the source is the rest of
  the string; a string that ends early leaves the byte 0.
\<close>

fun parse_bytes :: "nat list \<Rightarrow> string \<Rightarrow> devaddr \<Rightarrow> devaddr result" where
  "parse_bytes [] s a = Inr a"
| "parse_bytes (pos # ps) s a =
     (case dropWhile (\<lambda>c. \<not> isxdigit c) s of
        [] \<Rightarrow> andThen (setAddressByte a pos 0) (parse_bytes ps [])
      | c1 # s1 \<Rightarrow>
          (case dropWhile (\<lambda>c. \<not> isxdigit c) s1 of
             [] \<Rightarrow> andThen (setAddressByte a pos 0) (parse_bytes ps [])
           | c2 # s2 \<Rightarrow>
               andThen (setAddressByte a pos (push_bit 4 (xdigit_value c1) + xdigit_value c2))
                 (parse_bytes ps s2)))"

definition tryParse :: "string option \<Rightarrow> devaddr option result" where
  "tryParse hexstr =
     (case hexstr of
        None \<Rightarrow> Inr None
      | Some s \<Rightarrow>
          if addr_syntax_ok s
          then andThen (parse_bytes [0..<DEVADDR_ADDRESS_SIZE] s 0) (\<lambda>a. Inr (Some a))
          else Inr None)"

definition setAddress :: "string option \<Rightarrow> devaddr result" where
  "setAddress hexstr = andThen (tryParse hexstr)
     (\<lambda>r. case r of None \<Rightarrow> Inl (RuntimeError ''DevAddr: wrong address syntax'') | Some a \<Rightarrow> Inr a)"

definition BROADCAST_ADDRESS :: devaddr where
  "BROADCAST_ADDRESS =
     (case setAddress (Some ''ff:ff:ff:ff'') of Inr a \<Rightarrow> a | Inl _ \<Rightarrow> UNSPECIFIED_ADDRESS)"

subsection \<open>Printing, order, automatic addresses\<close>

definition hex_digit :: "nat \<Rightarrow> char" where
  "hex_digit n = (if n < 10 then char_of (48 + n) else char_of (65 + n - 10))"

text \<open>\<open>sprintf\<close> with format \<open>%2.2X\<close> of one byte.\<close>

definition byte_str :: "8 word \<Rightarrow> string" where
  "byte_str b = [hex_digit (unat b div 16), hex_digit (unat b mod 16)]"

fun join_dash :: "string list \<Rightarrow> string" where
  "join_dash [] = []"
| "join_dash [x] = x"
| "join_dash (x # y # xs) = x @ CHR ''-'' # join_dash (y # xs)"

definition addr_str :: "devaddr \<Rightarrow> string" where
  "addr_str a = join_dash
     (map (\<lambda>k. case getAddressByte a k of Inr b \<Rightarrow> byte_str b | Inl _ \<Rightarrow> []) [0..<DEVADDR_ADDRESS_SIZE])"

definition addr_compareTo :: "devaddr \<Rightarrow> devaddr \<Rightarrow> int" where
  "addr_compareTo a b = (if a < b then -1 else if a = b then 0 else 1)"

text \<open>
  The static counter \<open>autoAddressCtr\<close> is an \<open>unsigned int\<close>: it wraps at \<open>2 ^ 32\<close>.
\<close>

definition generateAutoAddress :: "32 word \<Rightarrow> devaddr \<times> 32 word" where
  "generateAutoAddress ctr = (let ctr' = ctr + 1 in (0 + (ctr' AND 0xffffffff), ctr'))"

subsection \<open>Facts about bytes\<close>

lemma byte_mask: "(255 :: 32 word) = mask 8"
  by (simp add: mask_eq_exp_minus_1)

definition byte_at :: "devaddr \<Rightarrow> nat \<Rightarrow> 8 word" where
  "byte_at a k = ucast (drop_bit ((3 - k) * 8) a)"

lemma getAddressByte_eq: "k < 4 \<Longrightarrow> getAddressByte a k = Inr (byte_at a k)"
  unfolding getAddressByte_def byte_at_def DEVADDR_ADDRESS_SIZE_def byte_mask
  by (auto intro!: bit_word_eqI simp: bit_simps)

lemma getAddressByte_error: "4 \<le> k \<Longrightarrow> \<exists>e. getAddressByte a k = Inl e"
  by (simp add: getAddressByte_def DEVADDR_ADDRESS_SIZE_def)

definition with_byte :: "devaddr \<Rightarrow> nat \<Rightarrow> 8 word \<Rightarrow> devaddr" where
  "with_byte a k b = (a AND NOT (push_bit ((3 - k) * 8) (mask 8))) OR push_bit ((3 - k) * 8) (ucast b)"

lemma setAddressByte_eq: "k < 4 \<Longrightarrow> setAddressByte a k b = Inr (with_byte a k b)"
  by (simp add: setAddressByte_def with_byte_def DEVADDR_ADDRESS_SIZE_def byte_mask Let_def)

lemma bit_byte_at: "bit (byte_at a k) n \<longleftrightarrow> n < 8 \<and> bit a ((3 - k) * 8 + n)"
  by (auto simp: byte_at_def bit_simps)

lemma bit_with_byte:
  "k < 4 \<Longrightarrow> bit (with_byte a k b) n \<longleftrightarrow>
     (if (3 - k) * 8 \<le> n \<and> n < (3 - k) * 8 + 8 then bit b (n - (3 - k) * 8) else bit a n)"
  by (auto simp: with_byte_def bit_simps  dest: bit_imp_le_length)

lemma byte_at_with_byte:
  "j < 4 \<Longrightarrow> k < 4 \<Longrightarrow> byte_at (with_byte a k b) j = (if j = k then b else byte_at a j)"
  by (rule bit_word_eqI) (auto simp: bit_byte_at bit_with_byte)

lemma byte_at_ext: 
  assumes "\<forall>k<4. byte_at a k = byte_at b k" shows "a = b"
proof (rule bit_word_eqI)
  fix n assume "n < LENGTH(32)"
  then have n: "3 - n div 8 < 4" "(3 - (3 - n div 8)) * 8 + n mod 8 = n" by auto
  have "bit (byte_at a (3 - n div 8)) (n mod 8) = bit (byte_at b (3 - n div 8)) (n mod 8)"
    using assms n(1) by simp
  then show "bit a n = bit b n" unfolding bit_byte_at n(2) by simp
qed
lemma less4: "k < (4::nat) \<longleftrightarrow> k = 0 \<or> k = 1 \<or> k = 2 \<or> k = 3" by auto

lemma hex_digit_xdigit: "n < 16 \<Longrightarrow> isxdigit (hex_digit n)"
  by (auto simp: isxdigit_def hex_digit_def isdigit_def of_char_of)

lemma hex_digit_value: "n < 16 \<Longrightarrow> xdigit_value (hex_digit n) = of_nat n"
  by (auto simp: xdigit_value_def hex_digit_def isdigit_def islower_def)

lemma unat_byte: "unat (b :: 8 word) < 256"
proof -
  have "unat b < 2 ^ LENGTH(8)" by (rule unsigned_less)
  then show ?thesis by simp
qed

lemma byte_digits: "push_bit 4 (of_nat (unat b div 16)) + of_nat (unat b mod 16) = (b :: 8 word)"
proof -
  have "push_bit 4 (of_nat (unat b div 16)) + of_nat (unat b mod 16) = (of_nat (unat b div 16 * 16 + unat b mod 16) :: 8 word)"
    by (simp only: of_nat_add of_nat_mult push_bit_eq_mult) simp
  then show ?thesis by (simp only: div_mult_mod_eq) simp
qed
lemma dash_not: "\<not> isxdigit CHR ''-''" by code_simp
lemma parse_bytes_byte_str:
  "k < 4 \<Longrightarrow> parse_bytes (k # ks) (byte_str b @ s) a = parse_bytes ks s (with_byte a k b)"
  using hex_digit_xdigit[of "unat b div 16"] hex_digit_xdigit[of "unat b mod 16"] unat_byte[of b]
  by (simp add: byte_str_def hex_digit_value setAddressByte_eq byte_digits)
lemma parse_bytes_dash: "parse_bytes (k # ks) (CHR ''-'' # s) a = parse_bytes (k # ks) s a"
  by (simp add: dash_not)
lemma addr_str_eq: "addr_str a = byte_str (byte_at a 0) @ CHR ''-'' # byte_str (byte_at a 1) @ CHR ''-'' #
    byte_str (byte_at a 2) @ CHR ''-'' # byte_str (byte_at a 3)"
  by (simp add: addr_str_def DEVADDR_ADDRESS_SIZE_def upt_rec numeral_2_eq_2 numeral_3_eq_3 getAddressByte_eq)
lemma byte_str_syntax: "\<forall>c\<in>set (byte_str b). isxdigit c" "filter isxdigit (byte_str b) = byte_str b" 
  using unat_byte[of b] by (auto simp: byte_str_def hex_digit_xdigit)
lemma addr_str_ok: "addr_syntax_ok (addr_str a)"
  unfolding addr_syntax_ok_def addr_str_eq DEVADDR_ADDRESS_SIZE_def
  using byte_str_syntax(1) by (auto simp: byte_str_syntax(2) dash_not) (simp_all add: byte_str_def)
text \<open>
  C39: Printing an address and parsing the text gives the address back: \<open>setAddress\<close> accepts
  every string that \<open>str()\<close> produces and restores all four bytes.
\<close>

theorem setAddress_addr_str: "setAddress (Some (addr_str a)) = Inr a"
proof -
  let ?b = "with_byte (with_byte (with_byte (with_byte 0 0 (byte_at a 0)) 1 (byte_at a 1)) 2 (byte_at a 2)) 3 (byte_at a 3)"
  note parse_last = parse_bytes_byte_str [where s = "[]", unfolded append_Nil2]
  have "byte_at ?b k = byte_at a k" if "k < 4" for k
    using that by (auto simp: byte_at_with_byte less4)
  then have "?b = a" by (intro byte_at_ext) simp
  moreover have "parse_bytes [0, 1, 2, 3] (addr_str a) 0 = Inr ?b"
    unfolding addr_str_eq by (simp add: parse_bytes_byte_str parse_bytes_dash parse_last del: parse_bytes.simps(2))
  ultimately show ?thesis using addr_str_ok[of a]
    by (simp add: setAddress_def tryParse_def DEVADDR_ADDRESS_SIZE_def upt_rec numeral_2_eq_2 numeral_3_eq_3)
qed

lemma filter_dropWhile:
  "filter P s = (case dropWhile (\<lambda>c. \<not> P c) s of [] \<Rightarrow> [] | c # r \<Rightarrow> c # filter P r)"
  by (induction s) auto

lemma dropWhile_hd: "dropWhile (\<lambda>c. \<not> P c) s = c # r \<Longrightarrow> P c"
  by (induction s) (auto split: if_splits)

lemma parse_bytes_filter: "parse_bytes ps (filter isxdigit s) a = parse_bytes ps s a"
proof (induction ps s a rule: parse_bytes.induct)
  case (1 s a)
  show ?case by simp
next
  case (2 pos ps s a)
  show ?case
  proof (cases "dropWhile (\<lambda>c. \<not> isxdigit c) s")
    case Nil
    then have "filter isxdigit s = []" by (simp add: filter_empty_conv)
    with Nil show ?thesis by (simp only: parse_bytes.simps dropWhile.simps list.case)
  next
    case c1: (Cons c1 s1)
    then have x1: "isxdigit c1" by (rule dropWhile_hd)
    have f1: "filter isxdigit s = c1 # filter isxdigit s1"
      using c1 filter_dropWhile [of isxdigit s] by simp
    show ?thesis
    proof (cases "dropWhile (\<lambda>c. \<not> isxdigit c) s1")
      case Nil
      then have "filter isxdigit s1 = []" by (simp add: filter_empty_conv)
      with Nil c1 x1 f1 show ?thesis
        by (simp only: parse_bytes.simps dropWhile.simps list.case not_True_eq_False if_False)
    next
      case c2: (Cons c2 s2)
      then have x2: "isxdigit c2" by (rule dropWhile_hd)
      have "filter isxdigit s1 = c2 # filter isxdigit s2"
        using c2 filter_dropWhile [of isxdigit s1] by simp
      with c1 c2 x1 x2 f1 2(3) [OF c1 c2] show ?thesis
        by (simp only: parse_bytes.simps dropWhile.simps list.case not_True_eq_False if_False
            cong: andThen_cong)
    qed
  qed
qed

text \<open>
  The separators of a well-formed address text carry no information: parsing it gives the
  address of its hexadecimal digits alone.
\<close>

theorem tryParse_separators:
  assumes "addr_syntax_ok s"
  shows "setAddress (Some s) = setAddress (Some (filter isxdigit s))"
proof -
  have "addr_syntax_ok (filter isxdigit s)" using assms by (simp add: addr_syntax_ok_def)
  with assms show ?thesis by (simp add: setAddress_def tryParse_def parse_bytes_filter)
qed

fun auto_addresses :: "nat \<Rightarrow> 32 word \<Rightarrow> devaddr list" where
  "auto_addresses 0 ctr = []"
| "auto_addresses (Suc n) ctr =
     (let (a, ctr') = generateAutoAddress ctr in a # auto_addresses n ctr')"

lemma generateAutoAddress_eq: "generateAutoAddress ctr = (ctr + 1, ctr + 1)"
proof -
  have "(0xffffffff :: 32 word) = - 1" by simp
  then show ?thesis by (simp only: generateAutoAddress_def Let_def and.right_neutral) simp
qed

lemma auto_addresses_eq: "auto_addresses n ctr = map (\<lambda>i. ctr + of_nat (Suc i)) [0..<n]"
proof (induction n arbitrary: ctr)
  case 0
  show ?case by simp
next
  case (Suc n)
  show ?case
    by (simp add: Suc generateAutoAddress_eq map_upt_Suc del: upt_Suc) 
qed

text \<open>
  Fewer than \<open>2 ^ 32\<close> automatically generated addresses, from the start of a simulation, are
  pairwise different and none is the unspecified address.
\<close>

theorem auto_addresses_distinct:
  assumes "n < 2 ^ 32"
  shows "distinct (auto_addresses n 0) \<and> UNSPECIFIED_ADDRESS \<notin> set (auto_addresses n 0)"
proof -
  have inj: "inj_on (\<lambda>i. of_nat (Suc i) :: 32 word) {0..<n}"
    by (rule inj_onI) (use assms in \<open>auto dest!: arg_cong [where f = unat] simp: unat_of_nat simp del: of_nat_Suc\<close>)
  have nz: "(of_nat (Suc i) :: 32 word) \<noteq> 0" if "i < n" for i
    using assms that by (auto dest!: arg_cong [where f = unat] simp: unat_of_nat simp del: of_nat_Suc)
  show ?thesis
    using inj nz by (auto simp: auto_addresses_eq distinct_map UNSPECIFIED_ADDRESS_def simp del: of_nat_Suc)
qed

lemma tryParse_separators_witness:
  "setAddress (Some ''0a:1B-ff 07'') = setAddress (Some ''0a1Bff07'')
   \<and> setAddress (Some ''0a1Bff07'') = Inr 0x0a1bff07"
proof -
  have ok: "addr_syntax_ok ''0a:1B-ff 07''" by code_simp
  have digits: "filter isxdigit ''0a:1B-ff 07'' = ''0a1Bff07''" by code_simp
  have val: "setAddress (Some ''0a1Bff07'') = Inr 0x0a1bff07" by code_simp
  show ?thesis using tryParse_separators [OF ok] val by (simp only: digits)
qed

lemma auto_addresses_distinct_witness:
  "auto_addresses 3 0 = [1, 2, 3] \<and> distinct (auto_addresses 3 0)
   \<and> UNSPECIFIED_ADDRESS \<notin> set (auto_addresses 3 0)"
proof -
  have "(3::nat) < 2 ^ 32" by simp
  from auto_addresses_distinct [OF this] show ?thesis
    by (simp add: auto_addresses_eq upt_rec numeral_3_eq_3)
qed

end
