(* ===== verification/LoRaTypes.thy ===== *)
theory LoRaTypes
  imports DevAddr
begin

text \<open>
  The data that the LoRa components exchange: the application packet and its options
  (\<open>LoRaApp/LoRaAppPacket.msg\<close>), the MAC frame and the MAC control information
  (\<open>LoRa/LoRaMacFrame.msg\<close>, \<open>LoRa/LoRaMacControlInfo.msg\<close>), the enumerations of the radio
  interface (\<open>IRadio.h\<close>, \<open>IRadioSignal.h\<close>) and the signals a radio emits.
\<close>

record sim =
  simTime :: simtime

datatype app_packet_type = JOIN_REQUEST | JOIN_REPLY | DATA | TXCONFIG | MSGTYPE_UNSET

record lora_options =
  opt_LoRaTP :: real
  opt_LoRaCF :: real
  opt_LoRaSF :: int
  opt_LoRaBW :: real
  opt_LoRaCR :: int
  opt_UseHeader :: bool
  opt_ADRACKReq :: bool

definition default_options :: lora_options where
  "default_options = \<lparr>opt_LoRaTP = -1, opt_LoRaCF = -1, opt_LoRaSF = -1, opt_LoRaBW = -1,
     opt_LoRaCR = -1, opt_UseHeader = True, opt_ADRACKReq = False\<rparr>"

record lora_app_packet =
  msgType :: app_packet_type
  sampleMeasurement :: int
  options :: lora_options

record lora_mac_control_info =
  ci_src :: devaddr
  ci_dest :: devaddr
  ci_LoRaTP :: real
  ci_LoRaCF :: real
  ci_LoRaSF :: int
  ci_LoRaBW :: real
  ci_LoRaCR :: int
  ci_LoRaUseHeader :: bool

record lora_mac_frame =
  transmitterAddress :: devaddr
  receiverAddress :: devaddr
  frameSequenceNumber :: int
  frameLoRaTP :: real
  frameLoRaCF :: real
  frameLoRaSF :: int
  frameLoRaBW :: real
  frameLoRaCR :: int
  frameLoRaUseHeader :: bool
  frameRSSI :: real
  frameSNIR :: real
  encapsulated :: "lora_app_packet option"

text \<open>A frame as its constructor leaves it.\<close>

definition new_mac_frame :: lora_mac_frame where
  "new_mac_frame = \<lparr>transmitterAddress = UNSPECIFIED_ADDRESS, receiverAddress = UNSPECIFIED_ADDRESS,
     frameSequenceNumber = 0, frameLoRaTP = 0, frameLoRaCF = 0, frameLoRaSF = 0, frameLoRaBW = 0,
     frameLoRaCR = 0, frameLoRaUseHeader = False, frameRSSI = 0, frameSNIR = 0, encapsulated = None\<rparr>"

subsection \<open>The radio interface\<close>

datatype radio_mode =
    RADIO_MODE_OFF | RADIO_MODE_SLEEP | RADIO_MODE_RECEIVER | RADIO_MODE_TRANSMITTER
  | RADIO_MODE_TRANSCEIVER | RADIO_MODE_SWITCHING

datatype reception_state =
    RECEPTION_STATE_UNDEFINED | RECEPTION_STATE_IDLE | RECEPTION_STATE_BUSY | RECEPTION_STATE_RECEIVING

datatype transmission_state =
    TRANSMISSION_STATE_UNDEFINED | TRANSMISSION_STATE_IDLE | TRANSMISSION_STATE_TRANSMITTING

datatype signal_part =
    SIGNAL_PART_NONE | SIGNAL_PART_WHOLE | SIGNAL_PART_PREAMBLE | SIGNAL_PART_HEADER | SIGNAL_PART_DATA

text \<open>The enumerator that follows, as the cast of \<open>previousPart + 1\<close> gives it.\<close>

fun next_part :: "signal_part \<Rightarrow> signal_part option" where
  "next_part SIGNAL_PART_NONE = Some SIGNAL_PART_WHOLE"
| "next_part SIGNAL_PART_WHOLE = Some SIGNAL_PART_PREAMBLE"
| "next_part SIGNAL_PART_PREAMBLE = Some SIGNAL_PART_HEADER"
| "next_part SIGNAL_PART_HEADER = Some SIGNAL_PART_DATA"
| "next_part SIGNAL_PART_DATA = None"

datatype radio_signal =
    RadioModeChanged radio_mode
  | ReceptionStateChanged reception_state
  | TransmissionStateChanged transmission_state
  | ReceivedSignalPartChanged signal_part
  | TransmittedSignalPartChanged signal_part
  | DroppedPacket
  | PacketSentToUpper lora_mac_frame
  | PacketReceivedFromUpper lora_mac_frame

end
