(* ===== verification/LoRaRadio.thy ===== *)
theory LoRaRadio
  imports LoRaTypes
begin

text \<open>
  \<open>LoRa/LoRaRadio.h\<close> and \<open>LoRa/LoRaRadio.cc\<close>: the transceiver of a LoRa end device. Its state is
  the radio mode (with the mode being left and the mode being entered while a switch is in
  progress), the reception and transmission states derived from it, the signal parts, and three
  kinds of timer messages: the one transmission timer, the one switch timer, and a reception
  timer for every frame on the air, of which at most one is the attempted reception.

  The radio emits its signals synchronously: a listener runs inside \<open>emit\<close> and may call the radio
  again. Every operation therefore takes the listener \<open>emit\<close> as an argument, a fallible state
  transformer, and the state is a record that the listener's own state extends.

  The medium, the receiver and the transmitter answer the radio's questions; they are the
  fields of a \<open>radio_env\<close>.
\<close>

record radio_frame =
  rf_macFrame :: lora_mac_frame
  rf_startTime :: "signal_part \<Rightarrow> simtime"
  rf_endTime :: "signal_part \<Rightarrow> simtime"

record reception_timer =
  rt_frame :: radio_frame
  rt_kind :: signal_part
  rt_scheduled :: "simtime option"

record radio = sim +
  switchingTimes :: "radio_mode \<Rightarrow> radio_mode \<Rightarrow> simtime"
  separateTransmissionParts :: bool
  separateReceptionParts :: bool
  radioMode :: radio_mode
  nextRadioMode :: radio_mode
  previousRadioMode :: radio_mode
  receptionState :: reception_state
  transmissionState :: transmission_state
  receivedSignalPart :: signal_part
  transmittedSignalPart :: signal_part
  transmissionTimer :: "simtime option"
  transmissionTimerKind :: signal_part
  transmissionFrame :: "radio_frame option"
  receptionTimers :: "nat \<rightharpoonup> reception_timer"
  nextTimer :: nat
  receptionTimer :: "nat option"
  switchTimer :: "simtime option"
  currentTxPower :: real
  radioSentUp :: "lora_mac_frame list"

record 'w radio_env =
  env_isListeningPossible :: "'w \<Rightarrow> bool"
  env_isReceptionAttempted :: "radio_frame \<Rightarrow> signal_part \<Rightarrow> 'w \<Rightarrow> bool"
  env_isReceptionSuccessful :: "radio_frame \<Rightarrow> signal_part \<Rightarrow> 'w \<Rightarrow> bool"
  env_receptionDecision :: "radio_frame \<Rightarrow> signal_part \<Rightarrow> 'w \<Rightarrow> bool"
  env_receivePacket :: "radio_frame \<Rightarrow> 'w \<Rightarrow> lora_mac_frame"
  env_transmitPacket :: "lora_mac_frame \<Rightarrow> 'w \<Rightarrow> radio_frame"

definition isReceiverMode :: "radio_mode \<Rightarrow> bool" where
  "isReceiverMode m \<longleftrightarrow> m = RADIO_MODE_RECEIVER \<or> m = RADIO_MODE_TRANSCEIVER"

definition isTransmitterMode :: "radio_mode \<Rightarrow> bool" where
  "isTransmitterMode m \<longleftrightarrow> m = RADIO_MODE_TRANSMITTER \<or> m = RADIO_MODE_TRANSCEIVER"

text \<open>
  The fields as the class declares them and \<open>initialize\<close> leaves them; the timer messages exist and
  are not scheduled. The switching times are the matrix of the \<open>switchingTimes\<close> parameter.
\<close>

definition initialize_radio ::
  "(radio_mode \<Rightarrow> radio_mode \<Rightarrow> simtime) \<Rightarrow> bool \<Rightarrow> bool \<Rightarrow> 'z radio_scheme \<Rightarrow> 'z radio_scheme" where
  "initialize_radio switching sepTransmission sepReception w =
     w\<lparr>switchingTimes := switching, separateTransmissionParts := sepTransmission,
       separateReceptionParts := sepReception,
       radioMode := RADIO_MODE_OFF, nextRadioMode := RADIO_MODE_OFF, previousRadioMode := RADIO_MODE_OFF,
       receptionState := RECEPTION_STATE_UNDEFINED, transmissionState := TRANSMISSION_STATE_UNDEFINED,
       receivedSignalPart := SIGNAL_PART_NONE, transmittedSignalPart := SIGNAL_PART_NONE,
       transmissionTimer := None, transmissionTimerKind := SIGNAL_PART_NONE, transmissionFrame := None,
       receptionTimers := (\<lambda>_. None), nextTimer := 0, receptionTimer := None, switchTimer := None,
       radioSentUp := []\<rparr>"

subsection \<open>Derived states\<close>

definition receptionTimerScheduled :: "'z radio_scheme \<Rightarrow> bool" where
  "receptionTimerScheduled w = (case receptionTimer w of None \<Rightarrow> False
     | Some t \<Rightarrow> (case receptionTimers w t of None \<Rightarrow> False | Some rt \<Rightarrow> rt_scheduled rt \<noteq> None))"

definition newReceptionState :: "'z radio_scheme radio_env \<Rightarrow> 'z radio_scheme \<Rightarrow> reception_state" where
  "newReceptionState env w =
     (if radioMode w = RADIO_MODE_OFF \<or> radioMode w = RADIO_MODE_SLEEP \<or> radioMode w = RADIO_MODE_TRANSMITTER
      then RECEPTION_STATE_UNDEFINED
      else if receptionTimerScheduled w then RECEPTION_STATE_RECEIVING
      else if env_isListeningPossible env w then RECEPTION_STATE_BUSY
      else RECEPTION_STATE_IDLE)"

definition newTransmissionState :: "'z radio_scheme \<Rightarrow> transmission_state" where
  "newTransmissionState w =
     (if radioMode w = RADIO_MODE_OFF \<or> radioMode w = RADIO_MODE_SLEEP \<or> radioMode w = RADIO_MODE_RECEIVER
      then TRANSMISSION_STATE_UNDEFINED
      else if transmissionTimer w \<noteq> None then TRANSMISSION_STATE_TRANSMITTING
      else TRANSMISSION_STATE_IDLE)"

definition updateTransceiverState ::
  "'z radio_scheme radio_env \<Rightarrow> (radio_signal \<Rightarrow> 'z radio_scheme \<Rightarrow> 'z radio_scheme result) \<Rightarrow>
   'z radio_scheme \<Rightarrow> 'z radio_scheme result" where
  "updateTransceiverState env emit w =
     andThen
       (let newRx = newReceptionState env w
        in if receptionState w \<noteq> newRx
           then emit (ReceptionStateChanged newRx) (w\<lparr>receptionState := newRx\<rparr>)
           else Inr w)
       (\<lambda>w. let newTx = newTransmissionState w
            in if transmissionState w \<noteq> newTx
               then emit (TransmissionStateChanged newTx) (w\<lparr>transmissionState := newTx\<rparr>)
               else Inr w)"

definition newReceivedPart :: "'z radio_scheme \<Rightarrow> signal_part" where
  "newReceivedPart w = (case receptionTimer w of None \<Rightarrow> SIGNAL_PART_NONE
     | Some t \<Rightarrow> (case receptionTimers w t of None \<Rightarrow> SIGNAL_PART_NONE | Some rt \<Rightarrow> rt_kind rt))"

definition newTransmittedPart :: "'z radio_scheme \<Rightarrow> signal_part" where
  "newTransmittedPart w =
     (if transmissionTimer w = None then SIGNAL_PART_NONE else transmissionTimerKind w)"

definition updateTransceiverPart ::
  "(radio_signal \<Rightarrow> 'z radio_scheme \<Rightarrow> 'z radio_scheme result) \<Rightarrow>
   'z radio_scheme \<Rightarrow> 'z radio_scheme result" where
  "updateTransceiverPart emit w =
     andThen
       (let newPart = newReceivedPart w
        in if receivedSignalPart w \<noteq> newPart
           then emit (ReceivedSignalPartChanged newPart) (w\<lparr>receivedSignalPart := newPart\<rparr>)
           else Inr w)
       (\<lambda>w. let newPart = newTransmittedPart w
            in if transmittedSignalPart w \<noteq> newPart
               then emit (TransmittedSignalPartChanged newPart) (w\<lparr>transmittedSignalPart := newPart\<rparr>)
               else Inr w)"

definition updateTransceiver ::
  "'z radio_scheme radio_env \<Rightarrow> (radio_signal \<Rightarrow> 'z radio_scheme \<Rightarrow> 'z radio_scheme result) \<Rightarrow>
   'z radio_scheme \<Rightarrow> 'z radio_scheme result" where
  "updateTransceiver env emit w =
     andThen (updateTransceiverState env emit w) (updateTransceiverPart emit)"

subsection \<open>Switching the mode\<close>

definition abortReception ::
  "'z radio_scheme radio_env \<Rightarrow> (radio_signal \<Rightarrow> 'z radio_scheme \<Rightarrow> 'z radio_scheme result) \<Rightarrow>
   nat \<Rightarrow> 'z radio_scheme \<Rightarrow> 'z radio_scheme result" where
  "abortReception env emit timer w =
     updateTransceiver env emit
       (if receptionTimer w = Some timer then w\<lparr>receptionTimer := None\<rparr> else w)"

definition abortTransmission ::
  "'z radio_scheme radio_env \<Rightarrow> (radio_signal \<Rightarrow> 'z radio_scheme \<Rightarrow> 'z radio_scheme result) \<Rightarrow>
   'z radio_scheme \<Rightarrow> 'z radio_scheme result" where
  "abortTransmission env emit w =
     updateTransceiver env emit (w\<lparr>transmissionFrame := None, transmissionTimer := None\<rparr>)"

definition completeRadioModeSwitch ::
  "'z radio_scheme radio_env \<Rightarrow> (radio_signal \<Rightarrow> 'z radio_scheme \<Rightarrow> 'z radio_scheme result) \<Rightarrow>
   radio_mode \<Rightarrow> 'z radio_scheme \<Rightarrow> 'z radio_scheme result" where
  "completeRadioModeSwitch env emit newRadioMode w =
     andThen
       (case receptionTimer w of
          Some timer \<Rightarrow> if \<not> isReceiverMode newRadioMode then abortReception env emit timer w else Inr w
        | None \<Rightarrow> Inr w)
     (\<lambda>w. andThen
       (if \<not> isTransmitterMode newRadioMode \<and> transmissionTimer w \<noteq> None
        then abortTransmission env emit w else Inr w)
     (\<lambda>w. andThen
       (emit (RadioModeChanged newRadioMode)
          (w\<lparr>radioMode := newRadioMode, previousRadioMode := newRadioMode, nextRadioMode := newRadioMode\<rparr>))
       (updateTransceiver env emit)))"

definition startRadioModeSwitch ::
  "(radio_signal \<Rightarrow> 'z radio_scheme \<Rightarrow> 'z radio_scheme result) \<Rightarrow>
   radio_mode \<Rightarrow> simtime \<Rightarrow> 'z radio_scheme \<Rightarrow> 'z radio_scheme result" where
  "startRadioModeSwitch emit newRadioMode switchingTime w =
     andThen
       (emit (RadioModeChanged RADIO_MODE_SWITCHING)
          (w\<lparr>previousRadioMode := radioMode w, radioMode := RADIO_MODE_SWITCHING, nextRadioMode := newRadioMode\<rparr>))
       (\<lambda>w. Inr (w\<lparr>switchTimer := Some (simTime w + switchingTime)\<rparr>))"

definition setRadioMode ::
  "'z radio_scheme radio_env \<Rightarrow> (radio_signal \<Rightarrow> 'z radio_scheme \<Rightarrow> 'z radio_scheme result) \<Rightarrow>
   radio_mode \<Rightarrow> 'z radio_scheme \<Rightarrow> 'z radio_scheme result" where
  "setRadioMode env emit newRadioMode w =
     (if newRadioMode = RADIO_MODE_SWITCHING
      then Inl (RuntimeError ''Cannot switch manually to RADIO_MODE_SWITCHING'')
      else if radioMode w = RADIO_MODE_SWITCHING \<or> switchTimer w \<noteq> None
      then Inl (RuntimeError ''Cannot switch to a new radio mode while another switch is in progress'')
      else if newRadioMode \<noteq> radioMode w \<and> newRadioMode \<noteq> nextRadioMode w
      then let switchingTime = switchingTimes w (radioMode w) newRadioMode
           in if switchingTime \<noteq> 0
              then startRadioModeSwitch emit newRadioMode switchingTime w
              else completeRadioModeSwitch env emit newRadioMode w
      else Inr w)"

text \<open>The switch timer fires: the kernel has removed it from the event list before the handler runs.\<close>

definition handleSwitchTimer ::
  "'z radio_scheme radio_env \<Rightarrow> (radio_signal \<Rightarrow> 'z radio_scheme \<Rightarrow> 'z radio_scheme result) \<Rightarrow>
   'z radio_scheme \<Rightarrow> 'z radio_scheme result" where
  "handleSwitchTimer env emit w = completeRadioModeSwitch env emit (nextRadioMode w) (w\<lparr>switchTimer := None\<rparr>)"

subsection \<open>Transmitting\<close>

definition startTransmission ::
  "'z radio_scheme radio_env \<Rightarrow> (radio_signal \<Rightarrow> 'z radio_scheme \<Rightarrow> 'z radio_scheme result) \<Rightarrow>
   lora_mac_frame \<Rightarrow> signal_part \<Rightarrow> 'z radio_scheme \<Rightarrow> 'z radio_scheme result" where
  "startTransmission env emit macFrame part w =
     (let radioFrame = env_transmitPacket env macFrame w
      in updateTransceiver env emit
           (w\<lparr>currentTxPower := frameLoRaTP macFrame,
              transmissionTimerKind := part, transmissionFrame := Some radioFrame,
              transmissionTimer := Some (rf_endTime radioFrame part)\<rparr>))"

definition continueTransmission ::
  "'z radio_scheme radio_env \<Rightarrow> (radio_signal \<Rightarrow> 'z radio_scheme \<Rightarrow> 'z radio_scheme result) \<Rightarrow>
   'z radio_scheme \<Rightarrow> 'z radio_scheme result" where
  "continueTransmission env emit w =
     (case (next_part (transmissionTimerKind w), transmissionFrame w) of
        (Some nextPart, Some radioFrame) \<Rightarrow>
          updateTransceiver env emit
            (w\<lparr>transmissionTimerKind := nextPart, transmissionTimer := Some (rf_endTime radioFrame nextPart)\<rparr>)
      | _ \<Rightarrow> Inl (UndefinedBehaviour ''continueTransmission: no frame in transmission''))"

definition endTransmission ::
  "'z radio_scheme radio_env \<Rightarrow> (radio_signal \<Rightarrow> 'z radio_scheme \<Rightarrow> 'z radio_scheme result) \<Rightarrow>
   'z radio_scheme \<Rightarrow> 'z radio_scheme result" where
  "endTransmission env emit w =
     (case transmissionFrame w of
        None \<Rightarrow> Inl (UndefinedBehaviour ''endTransmission: no frame in transmission'')
      | Some _ \<Rightarrow> updateTransceiver env emit (w\<lparr>transmissionFrame := None\<rparr>))"

definition handleTransmissionTimer ::
  "'z radio_scheme radio_env \<Rightarrow> (radio_signal \<Rightarrow> 'z radio_scheme \<Rightarrow> 'z radio_scheme result) \<Rightarrow>
   'z radio_scheme \<Rightarrow> 'z radio_scheme result" where
  "handleTransmissionTimer env emit w0 =
     (let w = w0\<lparr>transmissionTimer := None\<rparr>
      in case transmissionTimerKind w of
           SIGNAL_PART_WHOLE \<Rightarrow> endTransmission env emit w
         | SIGNAL_PART_PREAMBLE \<Rightarrow> continueTransmission env emit w
         | SIGNAL_PART_HEADER \<Rightarrow> continueTransmission env emit w
         | SIGNAL_PART_DATA \<Rightarrow> endTransmission env emit w
         | SIGNAL_PART_NONE \<Rightarrow> Inl (RuntimeError ''Unknown self message''))"

definition radio_handleUpperPacket ::
  "'z radio_scheme radio_env \<Rightarrow> (radio_signal \<Rightarrow> 'z radio_scheme \<Rightarrow> 'z radio_scheme result) \<Rightarrow>
   lora_mac_frame \<Rightarrow> 'z radio_scheme \<Rightarrow> 'z radio_scheme result" where
  "radio_handleUpperPacket env emit packet w =
     andThen (emit (PacketReceivedFromUpper packet) w)
       (\<lambda>w. if isTransmitterMode (radioMode w)
            then if transmissionTimer w \<noteq> None
                 then Inl (RuntimeError ''Received frame from upper layer while already transmitting.'')
                 else if separateTransmissionParts w
                 then startTransmission env emit packet SIGNAL_PART_PREAMBLE w
                 else startTransmission env emit packet SIGNAL_PART_WHOLE w
            else Inr w)"

subsection \<open>Receiving\<close>

definition update_timer :: "nat \<Rightarrow> signal_part \<Rightarrow> simtime \<Rightarrow> 'z radio_scheme \<Rightarrow> 'z radio_scheme" where
  "update_timer t part endTime w =
     (case receptionTimers w t of None \<Rightarrow> w
      | Some rt \<Rightarrow> w\<lparr>receptionTimers := (receptionTimers w)(t \<mapsto> rt\<lparr>rt_kind := part, rt_scheduled := Some endTime\<rparr>)\<rparr>)"

definition startReception ::
  "'z radio_scheme radio_env \<Rightarrow> (radio_signal \<Rightarrow> 'z radio_scheme \<Rightarrow> 'z radio_scheme result) \<Rightarrow>
   nat \<Rightarrow> radio_frame \<Rightarrow> signal_part \<Rightarrow> 'z radio_scheme \<Rightarrow> 'z radio_scheme result" where
  "startReception env emit timer radioFrame part w =
     (let w1 = (if isReceiverMode (radioMode w) \<and> rf_startTime radioFrame part = simTime w
                then if env_isReceptionAttempted env radioFrame part w
                     then w\<lparr>receptionTimer := Some timer\<rparr> else w
                else w)
      in updateTransceiver env emit (update_timer timer part (rf_endTime radioFrame part) w1))"

text \<open>\<open>handleLowerPacket\<close> allocates the reception timer of the arriving frame.\<close>

definition radio_handleLowerPacket ::
  "'z radio_scheme radio_env \<Rightarrow> (radio_signal \<Rightarrow> 'z radio_scheme \<Rightarrow> 'z radio_scheme result) \<Rightarrow>
   radio_frame \<Rightarrow> 'z radio_scheme \<Rightarrow> 'z radio_scheme result" where
  "radio_handleLowerPacket env emit radioFrame w =
     (let t = nextTimer w;
          w1 = w\<lparr>nextTimer := Suc t,
                 receptionTimers := (receptionTimers w)
                   (t \<mapsto> \<lparr>rt_frame = radioFrame, rt_kind = SIGNAL_PART_WHOLE, rt_scheduled = None\<rparr>)\<rparr>
      in if separateReceptionParts w1
         then startReception env emit t radioFrame SIGNAL_PART_PREAMBLE w1
         else startReception env emit t radioFrame SIGNAL_PART_WHOLE w1)"

definition continueReception ::
  "'z radio_scheme radio_env \<Rightarrow> (radio_signal \<Rightarrow> 'z radio_scheme \<Rightarrow> 'z radio_scheme result) \<Rightarrow>
   nat \<Rightarrow> reception_timer \<Rightarrow> 'z radio_scheme \<Rightarrow> 'z radio_scheme result" where
  "continueReception env emit timer rt w =
     (case next_part (rt_kind rt) of
        None \<Rightarrow> Inl (UndefinedBehaviour ''continueReception: no next part'')
      | Some nextPart \<Rightarrow>
          let radioFrame = rt_frame rt;
              w1 = (if receptionTimer w = Some timer \<and> isReceiverMode (radioMode w)
                       \<and> rf_endTime radioFrame (rt_kind rt) = simTime w
                    then let w2 = (if env_isReceptionSuccessful env radioFrame (rt_kind rt) w then w
                                   else w\<lparr>receptionTimer := None\<rparr>)
                         in if env_isReceptionAttempted env radioFrame nextPart w2 then w2
                            else w2\<lparr>receptionTimer := None\<rparr>
                    else w)
          in updateTransceiver env emit (update_timer timer nextPart (rf_endTime radioFrame nextPart) w1))"

definition endReception ::
  "'z radio_scheme radio_env \<Rightarrow> (radio_signal \<Rightarrow> 'z radio_scheme \<Rightarrow> 'z radio_scheme result) \<Rightarrow>
   nat \<Rightarrow> reception_timer \<Rightarrow> 'z radio_scheme \<Rightarrow> 'z radio_scheme result" where
  "endReception env emit timer rt w =
     (let radioFrame = rt_frame rt
      in andThen
           (andThen
             (if receptionTimer w = Some timer \<and> isReceiverMode (radioMode w)
                 \<and> rf_endTime radioFrame SIGNAL_PART_WHOLE = simTime w
              then let isReceptionSuccessful = env_receptionDecision env radioFrame (rt_kind rt) w;
                       macFrame = env_receivePacket env radioFrame w
                   in andThen
                        (if isReceptionSuccessful
                         then andThen (emit (PacketSentToUpper macFrame) w)
                                (\<lambda>w. Inr (w\<lparr>radioSentUp := radioSentUp w @ [macFrame]\<rparr>))
                         else emit DroppedPacket w)
                        (\<lambda>w. Inr (w\<lparr>receptionTimer := None\<rparr>))
              else Inr w)
             (updateTransceiver env emit))
           (\<lambda>w. Inr (w\<lparr>receptionTimers := (receptionTimers w)(timer := None)\<rparr>)))"

text \<open>A reception timer fires.\<close>

definition handleReceptionTimer ::
  "'z radio_scheme radio_env \<Rightarrow> (radio_signal \<Rightarrow> 'z radio_scheme \<Rightarrow> 'z radio_scheme result) \<Rightarrow>
   nat \<Rightarrow> 'z radio_scheme \<Rightarrow> 'z radio_scheme result" where
  "handleReceptionTimer env emit timer w0 =
     (case receptionTimers w0 timer of
        None \<Rightarrow> Inl (RuntimeError ''Unknown self message'')
      | Some rt0 \<Rightarrow>
          let rt = rt0\<lparr>rt_scheduled := None\<rparr>;
              w = w0\<lparr>receptionTimers := (receptionTimers w0)(timer \<mapsto> rt)\<rparr>
          in case rt_kind rt of
               SIGNAL_PART_WHOLE \<Rightarrow> endReception env emit timer rt w
             | SIGNAL_PART_PREAMBLE \<Rightarrow> continueReception env emit timer rt w
             | SIGNAL_PART_HEADER \<Rightarrow> continueReception env emit timer rt w
             | SIGNAL_PART_DATA \<Rightarrow> endReception env emit timer rt w
             | SIGNAL_PART_NONE \<Rightarrow> Inl (RuntimeError ''Unknown self message''))"

subsection \<open>Life cycle\<close>

definition radio_handleNodeStart ::
  "'z radio_scheme radio_env \<Rightarrow> (radio_signal \<Rightarrow> 'z radio_scheme \<Rightarrow> 'z radio_scheme result) \<Rightarrow>
   'z radio_scheme \<Rightarrow> 'z radio_scheme result" where
  "radio_handleNodeStart env emit w = completeRadioModeSwitch env emit RADIO_MODE_OFF w"

definition radio_handleNodeCrash ::
  "'z radio_scheme radio_env \<Rightarrow> (radio_signal \<Rightarrow> 'z radio_scheme \<Rightarrow> 'z radio_scheme result) \<Rightarrow>
   'z radio_scheme \<Rightarrow> 'z radio_scheme result" where
  "radio_handleNodeCrash env emit w0 =
     (let w = w0\<lparr>switchTimer := None\<rparr>
      in andThen (if transmissionTimer w \<noteq> None then abortTransmission env emit w else Inr w)
           (completeRadioModeSwitch env emit RADIO_MODE_OFF))"

definition radio_handleNodeShutdown ::
  "'z radio_scheme radio_env \<Rightarrow> (radio_signal \<Rightarrow> 'z radio_scheme \<Rightarrow> 'z radio_scheme result) \<Rightarrow>
   'z radio_scheme \<Rightarrow> 'z radio_scheme result" where
  "radio_handleNodeShutdown env emit w = radio_handleNodeCrash env emit w"

subsection \<open>The events that reach the radio\<close>

datatype radio_event =
    RadioUpperPacket lora_mac_frame
  | RadioLowerPacket radio_frame
  | RadioTransmissionTimer
  | RadioReceptionTimer nat
  | RadioSwitchTimer
  | RadioCrash

definition radio_step ::
  "'z radio_scheme radio_env \<Rightarrow> (radio_signal \<Rightarrow> 'z radio_scheme \<Rightarrow> 'z radio_scheme result) \<Rightarrow>
   radio_event \<Rightarrow> 'z radio_scheme \<Rightarrow> 'z radio_scheme result" where
  "radio_step env emit ev w =
     (case ev of
        RadioUpperPacket f \<Rightarrow> radio_handleUpperPacket env emit f w
      | RadioLowerPacket rf \<Rightarrow> radio_handleLowerPacket env emit rf w
      | RadioTransmissionTimer \<Rightarrow> handleTransmissionTimer env emit w
      | RadioReceptionTimer t \<Rightarrow> handleReceptionTimer env emit t w
      | RadioSwitchTimer \<Rightarrow> handleSwitchTimer env emit w
      | RadioCrash \<Rightarrow> radio_handleNodeCrash env emit w)"

subsection \<open>The invariant of the transceiver\<close>

text \<open>
  With switching times of zero (the default of \<open>Radio.ned\<close>, and what the LoRa simulations use)
  a mode switch is never left half done. The attempted reception exists in a receiving mode
  only, the transmission timer runs in a transmitting mode only and has its frame, and every
  reception timer is scheduled for the end of the part it stands for. The last part of a frame
  ends with the frame, which the medium guarantees for every arrival.
\<close>

definition timer_ok :: "reception_timer \<Rightarrow> bool" where
  "timer_ok rt \<longleftrightarrow> rf_endTime (rt_frame rt) SIGNAL_PART_DATA = rf_endTime (rt_frame rt) SIGNAL_PART_WHOLE
     \<and> (rt_scheduled rt = None \<or> rt_scheduled rt = Some (rf_endTime (rt_frame rt) (rt_kind rt)))"

definition frame_ok :: "radio_frame \<Rightarrow> bool" where
  "frame_ok f \<longleftrightarrow> rf_endTime f SIGNAL_PART_DATA = rf_endTime f SIGNAL_PART_WHOLE"

definition radio_core :: "'z radio_scheme \<Rightarrow> bool" where
  "radio_core w \<longleftrightarrow>
     switchingTimes w = (\<lambda>_ _. 0) \<and> switchTimer w = None \<and> radioMode w \<noteq> RADIO_MODE_SWITCHING
     \<and> previousRadioMode w = radioMode w \<and> nextRadioMode w = radioMode w
     \<and> (\<forall>t. receptionTimer w = Some t \<longrightarrow> isReceiverMode (radioMode w) \<and> receptionTimers w t \<noteq> None)
     \<and> (transmissionTimer w \<noteq> None \<longrightarrow> isTransmitterMode (radioMode w) \<and> transmissionFrame w \<noteq> None
           \<and> transmissionTimerKind w \<noteq> SIGNAL_PART_NONE)
     \<and> (\<forall>t rt. receptionTimers w t = Some rt \<longrightarrow> timer_ok rt)"

text \<open>
  What a listener may do to the radio while a signal is delivered: drop the reception or the
  transmission in progress, and nothing else to the timers.
\<close>

definition radio_shrinks :: "'z radio_scheme \<Rightarrow> 'z radio_scheme \<Rightarrow> bool" where
  "radio_shrinks w w' \<longleftrightarrow>
     (receptionTimer w' = receptionTimer w \<or> receptionTimer w' = None)
     \<and> (transmissionTimer w' = transmissionTimer w \<or> transmissionTimer w' = None)
     \<and> receptionTimers w' = receptionTimers w \<and> nextTimer w' = nextTimer w
     \<and> radioSentUp w' = radioSentUp w \<and> simTime w' = simTime w"

lemma radio_shrinks_refl [simp]: "radio_shrinks w w"
  by (simp add: radio_shrinks_def)

lemma radio_shrinks_trans: "radio_shrinks a b \<Longrightarrow> radio_shrinks b c \<Longrightarrow> radio_shrinks a c"
  by (auto simp: radio_shrinks_def)

lemma radio_core_state_updates [frame_simps]:
  "radio_core (w\<lparr>receptionState := rs\<rparr>) = radio_core w"
  "radio_core (w\<lparr>transmissionState := ts\<rparr>) = radio_core w"
  "radio_core (w\<lparr>receivedSignalPart := p\<rparr>) = radio_core w"
  "radio_core (w\<lparr>transmittedSignalPart := p\<rparr>) = radio_core w"
  "radio_core (w\<lparr>radioSentUp := u\<rparr>) = radio_core w"
  by (simp_all add: radio_core_def)

lemma radio_shrinks_state_updates [frame_simps]:
  "radio_shrinks (w\<lparr>receptionState := rs\<rparr>) w' = radio_shrinks w w'"
  "radio_shrinks (w\<lparr>transmissionState := ts\<rparr>) w' = radio_shrinks w w'"
  "radio_shrinks (w\<lparr>receivedSignalPart := p\<rparr>) w' = radio_shrinks w w'"
  "radio_shrinks (w\<lparr>transmittedSignalPart := p\<rparr>) w' = radio_shrinks w w'"
  by (simp_all add: radio_shrinks_def)

text \<open>
  The contract between the radio and whoever listens to its signals: a listener that is called in
  a consistent state returns in one.
\<close>

locale radio_listener =
  fixes env :: "'z radio_scheme radio_env"
    and emit :: "radio_signal \<Rightarrow> 'z radio_scheme \<Rightarrow> 'z radio_scheme result"
  assumes emit_core: "radio_core w \<Longrightarrow> emit s w = Inr w' \<Longrightarrow> radio_core w' \<and> radio_shrinks w w'"
begin

lemma emit_if_core:
  assumes "radio_core w" and "(if b then emit s v else Inr w) = Inr w'"
    and "radio_core v = radio_core w" and "radio_shrinks v w' = radio_shrinks w w'"
  shows "radio_core w' \<and> radio_shrinks w w'"
  using assms emit_core [of v s w'] by (cases b) auto

lemma updateTransceiverState_core:
  assumes "radio_core w" and "updateTransceiverState env emit w = Inr w'"
  shows "radio_core w' \<and> radio_shrinks w w'"
proof -
  from assms(2) obtain w1 where
    s1: "(if receptionState w \<noteq> newReceptionState env w
          then emit (ReceptionStateChanged (newReceptionState env w)) (w\<lparr>receptionState := newReceptionState env w\<rparr>)
          else Inr w) = Inr w1" and
    s2: "(if transmissionState w1 \<noteq> newTransmissionState w1
          then emit (TransmissionStateChanged (newTransmissionState w1)) (w1\<lparr>transmissionState := newTransmissionState w1\<rparr>)
          else Inr w1) = Inr w'"
    unfolding updateTransceiverState_def Let_def by (auto elim: andThen_InrE)
  have 1: "radio_core w1 \<and> radio_shrinks w w1"
    by (rule emit_if_core [OF assms(1) s1]) (simp_all add: frame_simps)
  have "radio_core w' \<and> radio_shrinks w1 w'"
    by (rule emit_if_core [OF conjunct1 [OF 1] s2]) (simp_all add: frame_simps)
  with 1 show ?thesis by (blast intro: radio_shrinks_trans)
qed

lemma updateTransceiverPart_core:
  assumes "radio_core w" and "updateTransceiverPart emit w = Inr w'"
  shows "radio_core w' \<and> radio_shrinks w w'"
proof -
  from assms(2) obtain w1 where
    s1: "(if receivedSignalPart w \<noteq> newReceivedPart w
          then emit (ReceivedSignalPartChanged (newReceivedPart w)) (w\<lparr>receivedSignalPart := newReceivedPart w\<rparr>)
          else Inr w) = Inr w1" and
    s2: "(if transmittedSignalPart w1 \<noteq> newTransmittedPart w1
          then emit (TransmittedSignalPartChanged (newTransmittedPart w1)) (w1\<lparr>transmittedSignalPart := newTransmittedPart w1\<rparr>)
          else Inr w1) = Inr w'"
    unfolding updateTransceiverPart_def Let_def by (auto elim: andThen_InrE)
  have 1: "radio_core w1 \<and> radio_shrinks w w1"
    by (rule emit_if_core [OF assms(1) s1]) (simp_all add: frame_simps)
  have "radio_core w' \<and> radio_shrinks w1 w'"
    by (rule emit_if_core [OF conjunct1 [OF 1] s2]) (simp_all add: frame_simps)
  with 1 show ?thesis by (blast intro: radio_shrinks_trans)
qed

lemma updateTransceiver_core:
  assumes "radio_core w" and "updateTransceiver env emit w = Inr w'"
  shows "radio_core w' \<and> radio_shrinks w w'"
proof -
  from assms(2) obtain w1 where "updateTransceiverState env emit w = Inr w1" "updateTransceiverPart emit w1 = Inr w'"
    unfolding updateTransceiver_def by (elim andThen_InrE)
  with assms(1) show ?thesis
    by (blast dest: updateTransceiverState_core updateTransceiverPart_core intro: radio_shrinks_trans)
qed

lemma completeRadioModeSwitch_core:
  assumes core: "radio_core w" and m: "m \<noteq> RADIO_MODE_SWITCHING"
    and run: "completeRadioModeSwitch env emit m w = Inr w'"
  shows "radio_core w' \<and> radio_shrinks w w'"
proof -
  from run obtain w1 w2 w3 where
    s1: "(case receptionTimer w of
            Some timer \<Rightarrow> if \<not> isReceiverMode m then abortReception env emit timer w else Inr w
          | None \<Rightarrow> Inr w) = Inr w1" and
    s2: "(if \<not> isTransmitterMode m \<and> transmissionTimer w1 \<noteq> None
          then abortTransmission env emit w1 else Inr w1) = Inr w2" and
    s3: "emit (RadioModeChanged m) (w2\<lparr>radioMode := m, previousRadioMode := m, nextRadioMode := m\<rparr>) = Inr w3" and
    s4: "updateTransceiver env emit w3 = Inr w'"
    unfolding completeRadioModeSwitch_def by (elim andThen_InrE)
  have 1: "radio_core w1 \<and> radio_shrinks w w1 \<and> (isReceiverMode m \<or> receptionTimer w1 = None)"
  proof (cases "receptionTimer w")
    case None
    with s1 core show ?thesis by simp
  next
    case (Some timer)
    show ?thesis
    proof (cases "isReceiverMode m")
      case True
      with s1 Some core show ?thesis by simp
    next
      case False
      have c: "radio_core (w\<lparr>receptionTimer := None\<rparr>)" using core by (simp add: radio_core_def)
      have "updateTransceiver env emit (w\<lparr>receptionTimer := None\<rparr>) = Inr w1"
        using s1 Some False by (simp add: abortReception_def)
      from updateTransceiver_core [OF c this] show ?thesis by (auto simp: radio_shrinks_def)
    qed
  qed
  have 2: "radio_core w2 \<and> radio_shrinks w1 w2 \<and> (isTransmitterMode m \<or> transmissionTimer w2 = None)"
  proof (cases "\<not> isTransmitterMode m \<and> transmissionTimer w1 \<noteq> None")
    case True
    have c: "radio_core (w1\<lparr>transmissionFrame := None, transmissionTimer := None\<rparr>)"
      using 1 by (simp add: radio_core_def)
    have "updateTransceiver env emit (w1\<lparr>transmissionFrame := None, transmissionTimer := None\<rparr>) = Inr w2"
      using s2 True by (simp add: abortTransmission_def)
    from updateTransceiver_core [OF c this] show ?thesis by (auto simp: radio_shrinks_def)
  next
    case False
    with s2 1 show ?thesis by auto
  qed
  let ?w = "w2\<lparr>radioMode := m, previousRadioMode := m, nextRadioMode := m\<rparr>"
  have rx: "isReceiverMode m \<or> receptionTimer w2 = None"
    using 1 2 by (auto simp: radio_shrinks_def)
  have c: "radio_core ?w" using 2 m rx by (auto simp: radio_core_def)
  from emit_core [OF c s3] have 3: "radio_core w3 \<and> radio_shrinks w2 w3"
    by (simp add: radio_shrinks_def)
  from updateTransceiver_core [OF _ s4] 3 have "radio_core w' \<and> radio_shrinks w3 w'" by simp
  with 1 2 3 show ?thesis by (blast intro: radio_shrinks_trans)
qed

lemma setRadioMode_core:
  assumes "radio_core w" and "setRadioMode env emit m w = Inr w'"
  shows "radio_core w' \<and> radio_shrinks w w'"
proof -
  have zero: "switchingTimes w (radioMode w) m = 0" using assms(1) by (simp add: radio_core_def)
  from assms(2) zero have m: "m \<noteq> RADIO_MODE_SWITCHING"
    and "w' = w \<or> completeRadioModeSwitch env emit m w = Inr w'"
    by (auto simp: setRadioMode_def Let_def split: if_splits)
  then show ?thesis using completeRadioModeSwitch_core [OF assms(1) m] assms(1) by auto
qed

lemma startTransmission_core:
  assumes "radio_core w" and "isTransmitterMode (radioMode w)" and "part \<noteq> SIGNAL_PART_NONE"
    and "startTransmission env emit f part w = Inr w'"
  shows "radio_core w'"
proof -
  let ?w = "w\<lparr>currentTxPower := frameLoRaTP f, transmissionTimerKind := part,
              transmissionFrame := Some (env_transmitPacket env f w),
              transmissionTimer := Some (rf_endTime (env_transmitPacket env f w) part)\<rparr>"
  have "radio_core ?w" using assms(1-3) by (simp add: radio_core_def)
  moreover have "updateTransceiver env emit ?w = Inr w'"
    using assms(4) by (simp add: startTransmission_def Let_def)
  ultimately show ?thesis by (blast dest: updateTransceiver_core)
qed

lemma handleUpperPacket_core:
  assumes "radio_core w" and "radio_handleUpperPacket env emit f w = Inr w'"
  shows "radio_core w'"
proof -
  from assms(2) obtain w1 where w1: "emit (PacketReceivedFromUpper f) w = Inr w1" and
    "w' = w1 \<or> (isTransmitterMode (radioMode w1) \<and>
      (startTransmission env emit f SIGNAL_PART_PREAMBLE w1 = Inr w' \<or>
       startTransmission env emit f SIGNAL_PART_WHOLE w1 = Inr w'))"
    unfolding radio_handleUpperPacket_def by (auto elim!: andThen_InrE split: if_splits)
  with emit_core [OF assms(1) w1] show ?thesis by (auto intro: startTransmission_core)
qed

lemma handleTransmissionTimer_core:
  assumes core: "radio_core w" and sched: "transmissionTimer w \<noteq> None"
    and run: "handleTransmissionTimer env emit w = Inr w'"
  shows "radio_core w'"
proof -
  from core sched obtain f where f: "transmissionFrame w = Some f" and tm: "isTransmitterMode (radioMode w)"
    by (auto simp: radio_core_def)
  let ?w = "w\<lparr>transmissionTimer := None\<rparr>"
  have ending: "radio_core w'" if "endTransmission env emit ?w = Inr w'"
  proof -
    have "radio_core (?w\<lparr>transmissionFrame := None\<rparr>)" using core by (simp add: radio_core_def)
    moreover have "updateTransceiver env emit (?w\<lparr>transmissionFrame := None\<rparr>) = Inr w'"
      using that f by (simp add: endTransmission_def)
    ultimately show ?thesis by (blast dest: updateTransceiver_core)
  qed
  have continuing: "radio_core w'" if c: "continueTransmission env emit ?w = Inr w'"
    "next_part (transmissionTimerKind w) = Some p" "p \<noteq> SIGNAL_PART_NONE" for p
  proof -
    let ?v = "?w\<lparr>transmissionTimerKind := p, transmissionTimer := Some (rf_endTime f p)\<rparr>"
    have "radio_core ?v" using core f tm c(3) by (simp add: radio_core_def)
    moreover have "updateTransceiver env emit ?v = Inr w'"
      using c f by (simp add: continueTransmission_def)
    ultimately show ?thesis by (blast dest: updateTransceiver_core)
  qed
  show ?thesis
    using run ending continuing
    by (cases "transmissionTimerKind w") (simp_all add: handleTransmissionTimer_def Let_def)
qed

lemma update_timer_core:
  assumes "radio_core w" and "\<And>rt. receptionTimers w t = Some rt \<Longrightarrow> endTime = rf_endTime (rt_frame rt) p"
  shows "radio_core (update_timer t p endTime w)"
proof (cases "receptionTimers w t")
  case None
  with assms(1) show ?thesis by (simp add: update_timer_def)
next
  case (Some rt)
  with assms(1) have "timer_ok rt" by (auto simp: radio_core_def)
  with assms(2) [OF Some] have "timer_ok (rt\<lparr>rt_kind := p, rt_scheduled := Some endTime\<rparr>)"
    by (simp add: timer_ok_def)
  with assms(1) Some show ?thesis by (auto simp: radio_core_def update_timer_def)
qed

lemma startReception_core:
  assumes core: "radio_core w" and t: "receptionTimers w t = Some rt" and f: "rt_frame rt = f"
    and run: "startReception env emit t f part w = Inr w'"
  shows "radio_core w'"
proof -
  let ?w1 = "if isReceiverMode (radioMode w) \<and> rf_startTime f part = simTime w
             then if env_isReceptionAttempted env f part w then w\<lparr>receptionTimer := Some t\<rparr> else w else w"
  have c1: "radio_core ?w1" using core t by (auto simp: radio_core_def)
  have "radio_core (update_timer t part (rf_endTime f part) ?w1)"
    by (rule update_timer_core [OF c1]) (use t f in \<open>auto split: if_splits\<close>)
  moreover have "updateTransceiver env emit (update_timer t part (rf_endTime f part) ?w1) = Inr w'"
    using run by (simp add: startReception_def Let_def)
  ultimately show ?thesis by (blast dest: updateTransceiver_core)
qed

lemma handleLowerPacket_core:
  assumes core: "radio_core w" and "frame_ok f" and run: "radio_handleLowerPacket env emit f w = Inr w'"
  shows "radio_core w'"
proof -
  let ?rt = "\<lparr>rt_frame = f, rt_kind = SIGNAL_PART_WHOLE, rt_scheduled = None\<rparr>"
  let ?w = "w\<lparr>nextTimer := Suc (nextTimer w), receptionTimers := (receptionTimers w)(nextTimer w \<mapsto> ?rt)\<rparr>"
  have "radio_core ?w" using core assms(2) by (auto simp: radio_core_def timer_ok_def frame_ok_def)
  moreover have "\<exists>part. startReception env emit (nextTimer w) f part ?w = Inr w'"
    using run by (auto simp: radio_handleLowerPacket_def Let_def split: if_splits)
  ultimately show ?thesis using startReception_core [of ?w "nextTimer w" ?rt f _ w'] by auto
qed

lemma continueReception_core:
  assumes core: "radio_core w" and t: "receptionTimers w t = Some rt"
    and run: "continueReception env emit t rt w = Inr w'"
  shows "radio_core w'"
proof -
  from run obtain p where p: "next_part (rt_kind rt) = Some p"
    by (cases "next_part (rt_kind rt)") (auto simp: continueReception_def)
  let ?f = "rt_frame rt"
  let ?w2 = "if env_isReceptionSuccessful env ?f (rt_kind rt) w then w else w\<lparr>receptionTimer := None\<rparr>"
  let ?w1 = "if receptionTimer w = Some t \<and> isReceiverMode (radioMode w) \<and> rf_endTime ?f (rt_kind rt) = simTime w
             then if env_isReceptionAttempted env ?f p ?w2 then ?w2 else ?w2\<lparr>receptionTimer := None\<rparr> else w"
  have drop: "radio_core (v\<lparr>receptionTimer := None\<rparr>)" if "radio_core v" for v :: "'z radio_scheme"
    using that by (simp add: radio_core_def)
  have c1: "radio_core ?w1" using core by (auto intro: drop)
  have "radio_core (update_timer t p (rf_endTime ?f p) ?w1)"
    by (rule update_timer_core [OF c1]) (use t in \<open>auto split: if_splits\<close>)
  moreover have "updateTransceiver env emit (update_timer t p (rf_endTime ?f p) ?w1) = Inr w'"
    using run unfolding continueReception_def p Let_def option.case .
  ultimately show ?thesis by (blast dest: updateTransceiver_core)
qed

text \<open>What the end of a reception does, step by step.\<close>

lemma endReception_core:
  assumes core: "radio_core w" and t: "receptionTimers w t = Some rt"
    and now: "rf_endTime (rt_frame rt) SIGNAL_PART_WHOLE = simTime w"
    and run: "endReception env emit t rt w = Inr w'"
  shows "radio_core w'"
proof -
  let ?att = "receptionTimer w = Some t \<and> isReceiverMode (radioMode w)
    \<and> rf_endTime (rt_frame rt) SIGNAL_PART_WHOLE = simTime w"
  let ?mac = "env_receivePacket env (rt_frame rt) w"
  from run obtain w1 w2 where
    s1: "(if ?att
          then andThen
                 (if env_receptionDecision env (rt_frame rt) (rt_kind rt) w
                  then andThen (emit (PacketSentToUpper ?mac) w) (\<lambda>w. Inr (w\<lparr>radioSentUp := radioSentUp w @ [?mac]\<rparr>))
                  else emit DroppedPacket w)
                 (\<lambda>w. Inr (w\<lparr>receptionTimer := None\<rparr>))
          else Inr w) = Inr w1" and
    s2: "updateTransceiver env emit w1 = Inr w2" and
    s3: "w' = w2\<lparr>receptionTimers := (receptionTimers w2)(t := None)\<rparr>"
    unfolding endReception_def Let_def by (auto elim!: andThen_InrE)
  have 1: "radio_core w1 \<and> receptionTimer w1 \<noteq> Some t"
  proof (cases ?att)
    case False
    with s1 core now have "w1 = w" "receptionTimer w \<noteq> Some t" by (auto simp: radio_core_def)
    with core show ?thesis by simp
  next
    case True
    with s1 obtain w0 where w0: "(if env_receptionDecision env (rt_frame rt) (rt_kind rt) w
        then andThen (emit (PacketSentToUpper ?mac) w) (\<lambda>w. Inr (w\<lparr>radioSentUp := radioSentUp w @ [?mac]\<rparr>))
        else emit DroppedPacket w) = Inr w0" "w1 = w0\<lparr>receptionTimer := None\<rparr>"
      by (auto elim!: andThen_InrE)
    have "radio_core w0"
    proof (cases "env_receptionDecision env (rt_frame rt) (rt_kind rt) w")
      case True
      with w0(1) obtain v where "emit (PacketSentToUpper ?mac) w = Inr v"
        "w0 = v\<lparr>radioSentUp := radioSentUp v @ [?mac]\<rparr>"
        by (auto elim!: andThen_InrE)
      with emit_core [OF core] show ?thesis by (simp add: frame_simps)
    next
      case False
      with w0(1) emit_core [OF core] show ?thesis by simp
    qed
    with w0(2) show ?thesis by (simp add: radio_core_def)
  qed
  with updateTransceiver_core [OF _ s2] have "radio_core w2" "receptionTimer w2 \<noteq> Some t"
    by (auto simp: radio_shrinks_def)
  with s3 show ?thesis by (auto simp: radio_core_def)
qed

lemma handleReceptionTimer_core:
  assumes core: "radio_core w" and t: "receptionTimers w t = Some rt" and now: "rt_scheduled rt = Some (simTime w)"
    and run: "handleReceptionTimer env emit t w = Inr w'"
  shows "radio_core w'"
proof -
  let ?rt = "rt\<lparr>rt_scheduled := None\<rparr>"
  let ?w = "w\<lparr>receptionTimers := (receptionTimers w)(t \<mapsto> ?rt)\<rparr>"
  have ok: "timer_ok rt" using core t by (auto simp: radio_core_def)
  have c: "radio_core ?w" using core ok by (auto simp: radio_core_def timer_ok_def)
  have tw: "receptionTimers ?w t = Some ?rt" by simp
  show ?thesis
  proof (cases "rt_kind rt")
    case SIGNAL_PART_NONE
    with run t show ?thesis by (simp add: handleReceptionTimer_def Let_def)
  next
    case SIGNAL_PART_PREAMBLE
    with run t have "continueReception env emit t ?rt ?w = Inr w'" by (simp add: handleReceptionTimer_def Let_def)
    then show ?thesis by (rule continueReception_core [OF c tw])
  next
    case SIGNAL_PART_HEADER
    with run t have "continueReception env emit t ?rt ?w = Inr w'" by (simp add: handleReceptionTimer_def Let_def)
    then show ?thesis by (rule continueReception_core [OF c tw])
  next
    case SIGNAL_PART_WHOLE
    with run t have "endReception env emit t ?rt ?w = Inr w'" by (simp add: handleReceptionTimer_def Let_def)
    then show ?thesis
      using endReception_core [OF c tw] ok now SIGNAL_PART_WHOLE by (simp add: timer_ok_def)
  next
    case SIGNAL_PART_DATA
    with run t have "endReception env emit t ?rt ?w = Inr w'" by (simp add: handleReceptionTimer_def Let_def)
    then show ?thesis
      using endReception_core [OF c tw] ok now SIGNAL_PART_DATA by (simp add: timer_ok_def)
  qed
qed

lemma handleNodeCrash_core:
  assumes "radio_core w" and "radio_handleNodeCrash env emit w = Inr w'"
  shows "radio_core w'"
proof -
  from assms(1) have w: "w\<lparr>switchTimer := None\<rparr> = w" by (simp add: radio_core_def)
  with assms(2) obtain w1 where s1: "(if transmissionTimer w \<noteq> None then abortTransmission env emit w else Inr w) = Inr w1"
    and s2: "completeRadioModeSwitch env emit RADIO_MODE_OFF w1 = Inr w'"
    by (auto simp: radio_handleNodeCrash_def Let_def elim!: andThen_InrE)
  have "radio_core (w\<lparr>transmissionFrame := None, transmissionTimer := None\<rparr>)"
    using assms(1) by (simp add: radio_core_def)
  with s1 assms(1) have "radio_core w1"
    by (auto simp: abortTransmission_def split: if_splits dest: updateTransceiver_core)
  then show ?thesis using completeRadioModeSwitch_core [OF _ _ s2] by simp
qed

end

text \<open>
  An event is possible when the kernel can deliver it: a timer fires at the time it is scheduled
  for; the parts of an arriving frame are consistent.
\<close>

definition radio_event_possible :: "radio_event \<Rightarrow> 'z radio_scheme \<Rightarrow> bool" where
  "radio_event_possible ev w \<longleftrightarrow>
     (case ev of
        RadioUpperPacket _ \<Rightarrow> True
      | RadioLowerPacket rf \<Rightarrow> frame_ok rf
      | RadioTransmissionTimer \<Rightarrow> transmissionTimer w = Some (simTime w)
      | RadioReceptionTimer t \<Rightarrow>
          (case receptionTimers w t of None \<Rightarrow> False | Some rt \<Rightarrow> rt_scheduled rt = Some (simTime w))
      | RadioSwitchTimer \<Rightarrow> switchTimer w = Some (simTime w)
      | RadioCrash \<Rightarrow> True)"

context radio_listener
begin

lemma radio_step_core:
  assumes "radio_core w" and "radio_event_possible ev w" and "radio_step env emit ev w = Inr w'"
  shows "radio_core w'"
proof (cases ev)
  case (RadioUpperPacket f)
  with assms show ?thesis by (auto simp: radio_step_def intro: handleUpperPacket_core)
next
  case (RadioLowerPacket rf)
  with assms show ?thesis
    by (auto simp: radio_step_def radio_event_possible_def intro: handleLowerPacket_core)
next
  case RadioTransmissionTimer
  with assms show ?thesis
    by (auto simp: radio_step_def radio_event_possible_def intro: handleTransmissionTimer_core)
next
  case (RadioReceptionTimer t)
  with assms show ?thesis
    by (auto simp: radio_step_def radio_event_possible_def split: option.splits intro: handleReceptionTimer_core)
next
  case RadioSwitchTimer
  with assms show ?thesis by (simp add: radio_event_possible_def radio_core_def)
next
  case RadioCrash
  with assms show ?thesis by (auto simp: radio_step_def intro: handleNodeCrash_core)
qed

end


subsection \<open>Predicates that do not look at the radio\<close>

text \<open>
  A predicate \<open>J\<close> on the rest of the node that the listener preserves is preserved by every
  operation of the radio: the radio touches its own fields only.
\<close>

locale radio_framed =
  fixes env :: "'z radio_scheme radio_env"
    and emit :: "radio_signal \<Rightarrow> 'z radio_scheme \<Rightarrow> 'z radio_scheme result"
    and J :: "'z radio_scheme \<Rightarrow> bool"
  assumes emit_J: "J w \<Longrightarrow> ensures J (emit s w)"
    and J_frame: "\<And>w a. J (w\<lparr>receptionState := a\<rparr>) = J w"
      "\<And>w b. J (w\<lparr>transmissionState := b\<rparr>) = J w"
      "\<And>w p. J (w\<lparr>receivedSignalPart := p\<rparr>) = J w"
      "\<And>w p. J (w\<lparr>transmittedSignalPart := p\<rparr>) = J w"
      "\<And>w t. J (w\<lparr>receptionTimer := t\<rparr>) = J w"
      "\<And>w ts. J (w\<lparr>receptionTimers := ts\<rparr>) = J w"
      "\<And>w n. J (w\<lparr>nextTimer := n\<rparr>) = J w"
      "\<And>w tt. J (w\<lparr>transmissionTimer := tt\<rparr>) = J w"
      "\<And>w p. J (w\<lparr>transmissionTimerKind := p\<rparr>) = J w"
      "\<And>w f. J (w\<lparr>transmissionFrame := f\<rparr>) = J w"
      "\<And>w m. J (w\<lparr>radioMode := m\<rparr>) = J w"
      "\<And>w m. J (w\<lparr>nextRadioMode := m\<rparr>) = J w"
      "\<And>w m. J (w\<lparr>previousRadioMode := m\<rparr>) = J w"
      "\<And>w st. J (w\<lparr>switchTimer := st\<rparr>) = J w"
      "\<And>w x. J (w\<lparr>currentTxPower := x\<rparr>) = J w"
      "\<And>w u. J (w\<lparr>radioSentUp := u\<rparr>) = J w"
begin

lemma updateTransceiver_J: "J w \<Longrightarrow> ensures J (updateTransceiver env emit w)"
  unfolding updateTransceiver_def updateTransceiverState_def updateTransceiverPart_def Let_def
  by (intro ensures_intros emit_J) (simp_all add: J_frame)

lemma completeRadioModeSwitch_J: "J w \<Longrightarrow> ensures J (completeRadioModeSwitch env emit m w)"
  unfolding completeRadioModeSwitch_def abortReception_def abortTransmission_def
  by (intro ensures_intros emit_J updateTransceiver_J) (simp_all add: J_frame)

lemma setRadioMode_J: "J w \<Longrightarrow> ensures J (setRadioMode env emit m w)"
  unfolding setRadioMode_def startRadioModeSwitch_def Let_def
  by (intro ensures_intros emit_J completeRadioModeSwitch_J) (simp_all add: J_frame)

lemma update_timer_J: "J (update_timer t p e w) = J w"
  by (simp add: update_timer_def J_frame split: option.splits)

lemma startReception_J: "J w \<Longrightarrow> ensures J (startReception env emit t f p w)"
  unfolding startReception_def Let_def
  by (intro updateTransceiver_J) (simp add: J_frame update_timer_J)

lemma continueReception_J: "J w \<Longrightarrow> ensures J (continueReception env emit t rt w)"
  unfolding continueReception_def Let_def
  by (intro ensures_intros updateTransceiver_J) (simp_all add: J_frame update_timer_J)

lemma endReception_J: "J w \<Longrightarrow> ensures J (endReception env emit t rt w)"
  unfolding endReception_def Let_def
  by (intro ensures_intros emit_J updateTransceiver_J) (simp_all add: J_frame)

lemma handleReceptionTimer_J: "J w \<Longrightarrow> ensures J (handleReceptionTimer env emit t w)"
  unfolding handleReceptionTimer_def Let_def
  by (intro ensures_intros)
    (simp_all add: J_frame continueReception_J endReception_J split: signal_part.splits)

lemma handleTransmissionTimer_J: "J w \<Longrightarrow> ensures J (handleTransmissionTimer env emit w)"
  unfolding handleTransmissionTimer_def endTransmission_def continueTransmission_def Let_def
  by (simp add: J_frame updateTransceiver_J split: signal_part.splits option.splits)

lemma radio_handleUpperPacket_J: "J w \<Longrightarrow> ensures J (radio_handleUpperPacket env emit f w)"
  unfolding radio_handleUpperPacket_def startTransmission_def Let_def
  by (intro ensures_intros emit_J updateTransceiver_J) (simp_all add: J_frame)

lemma radio_handleLowerPacket_J: "J w \<Longrightarrow> ensures J (radio_handleLowerPacket env emit f w)"
  unfolding radio_handleLowerPacket_def Let_def
  by (intro ensures_intros startReception_J) (simp_all add: J_frame)

lemma radio_handleNodeCrash_J: "J w \<Longrightarrow> ensures J (radio_handleNodeCrash env emit w)"
  unfolding radio_handleNodeCrash_def abortTransmission_def Let_def
  by (intro ensures_intros completeRadioModeSwitch_J updateTransceiver_J) (simp_all add: J_frame)

lemma radio_step_J: "J w \<Longrightarrow> ensures J (radio_step env emit ev w)"
  unfolding radio_step_def handleSwitchTimer_def
  by (simp add: J_frame completeRadioModeSwitch_J radio_handleUpperPacket_J radio_handleLowerPacket_J
      handleTransmissionTimer_J handleReceptionTimer_J radio_handleNodeCrash_J split: radio_event.split)

end

end
