(* ===== verification/LoRaMac.thy ===== *)
theory LoRaMac
  imports FSMA LoRaRadio
begin

text \<open>
  \<open>LoRa/LoRaMac.h\<close> and \<open>LoRa/LoRaMac.cc\<close>: the class A MAC of an end device. One frame at a time
  is transmitted; one second after the end of the transmission the receiver is opened for a
  second, and, when nothing was received, once more two seconds later.

  The MAC holds a pointer to its radio, so its state extends the radio's. The calls of
  \<open>radio->setRadioMode\<close> go through the argument \<open>setMode\<close>: the radio's signals come back into
  \<open>receiveSignal\<close> from inside that call, which the theory \<open>LoRaNic\<close> ties together.
  Self messages are the fields \<open>endDelay_1\<close> and so on: the time they are scheduled for, or \<open>None\<close>.
\<close>

datatype mac_state =
    IDLE | TRANSMIT | WAIT_DELAY_1 | LISTENING_1 | RECEIVING_1 | WAIT_DELAY_2 | LISTENING_2 | RECEIVING_2

datatype mac_msg =
    Msg_endTransmission | Msg_endReception | Msg_droppedPacket
  | Msg_endDelay_1 | Msg_endListening_1 | Msg_endDelay_2 | Msg_endListening_2
  | Msg_mediumStateChange
  | Msg_upper lora_mac_frame
  | Msg_lower lora_mac_frame

record mac = radio +
  fsm :: mac_state
  address :: devaddr
  waitDelay1Time :: simtime
  listening1Time :: simtime
  waitDelay2Time :: simtime
  listening2Time :: simtime
  mac_transmissionState :: transmission_state
  mac_receptionState :: reception_state
  transmissionQueue :: "lora_mac_frame list"
  sequenceNumber :: int
  endDelay_1 :: "simtime option"
  endListening_1 :: "simtime option"
  endDelay_2 :: "simtime option"
  endListening_2 :: "simtime option"
  numSent :: int
  numReceived :: int
  macSentDown :: "(lora_mac_frame \<times> lora_mac_control_info) list"
  macSentUp :: "lora_app_packet option list"

definition isUpperMessage :: "mac_msg \<Rightarrow> bool" where
  "isUpperMessage m \<longleftrightarrow> (case m of Msg_upper _ \<Rightarrow> True | _ \<Rightarrow> False)"

definition isLowerMessage :: "mac_msg \<Rightarrow> bool" where
  "isLowerMessage m \<longleftrightarrow> (case m of Msg_lower _ \<Rightarrow> True | _ \<Rightarrow> False)"

text \<open>\<open>dynamic_cast<LoRaMacFrame*>(msg)\<close>.\<close>

definition msg_frame :: "mac_msg \<Rightarrow> lora_mac_frame option" where
  "msg_frame m = (case m of Msg_upper f \<Rightarrow> Some f | Msg_lower f \<Rightarrow> Some f | _ \<Rightarrow> None)"

definition isReceiving :: "'z mac_scheme \<Rightarrow> bool" where
  "isReceiving w \<longleftrightarrow> receptionState w = RECEPTION_STATE_RECEIVING"

definition isBroadcast :: "lora_mac_frame \<Rightarrow> bool" where
  "isBroadcast frame \<longleftrightarrow> isBroadcastAddr (receiverAddress frame)"

definition isForUs :: "'z mac_scheme \<Rightarrow> lora_mac_frame \<Rightarrow> bool" where
  "isForUs w frame \<longleftrightarrow> receiverAddress frame = address w"

definition msgForUs :: "mac_msg \<Rightarrow> 'z mac_scheme \<Rightarrow> bool" where
  "msgForUs msg w = (case msg_frame msg of Some frame \<Rightarrow> isForUs w frame | None \<Rightarrow> False)"

subsection \<open>Frame operations\<close>

definition encapsulate :: "'z mac_scheme \<Rightarrow> lora_app_packet \<Rightarrow> lora_mac_frame" where
  "encapsulate w msg = new_mac_frame\<lparr>transmitterAddress := address w, encapsulated := Some msg\<rparr>"

definition decapsulate :: "lora_mac_frame \<Rightarrow> lora_app_packet option" where
  "decapsulate frame = encapsulated frame"

definition getCurrentTransmission :: "'z mac_scheme \<Rightarrow> lora_mac_frame result" where
  "getCurrentTransmission w =
     (case transmissionQueue w of [] \<Rightarrow> Inl (UndefinedBehaviour ''front of an empty queue'') | f # _ \<Rightarrow> Inr f)"

definition popTransmissionQueue :: "'z mac_scheme \<Rightarrow> 'z mac_scheme result" where
  "popTransmissionQueue w =
     (case transmissionQueue w of
        [] \<Rightarrow> Inl (RuntimeError ''cPacketQueue: pop from an empty queue'')
      | _ # fs \<Rightarrow> Inr (w\<lparr>transmissionQueue := fs\<rparr>))"

text \<open>The control information of a data frame; the fields not set keep the message's defaults.\<close>

definition data_ctrl :: "lora_mac_frame \<Rightarrow> lora_mac_control_info" where
  "data_ctrl frame =
     \<lparr>ci_src = transmitterAddress frame, ci_dest = receiverAddress frame,
      ci_LoRaTP = 0, ci_LoRaCF = 0, ci_LoRaSF = 0, ci_LoRaBW = 0, ci_LoRaCR = 0, ci_LoRaUseHeader = False\<rparr>"

definition sendDataFrame ::
  "(radio_mode \<Rightarrow> 'z mac_scheme \<Rightarrow> 'z mac_scheme result) \<Rightarrow> lora_mac_frame \<Rightarrow> 'z mac_scheme \<Rightarrow> 'z mac_scheme result" where
  "sendDataFrame setMode frameToSend w =
     andThen (setMode RADIO_MODE_TRANSMITTER w)
       (\<lambda>w. Inr (w\<lparr>macSentDown := macSentDown w @ [(frameToSend, data_ctrl frameToSend)]\<rparr>))"

definition turnOnReceiver ::
  "(radio_mode \<Rightarrow> 'z mac_scheme \<Rightarrow> 'z mac_scheme result) \<Rightarrow> 'z mac_scheme \<Rightarrow> 'z mac_scheme result" where
  "turnOnReceiver setMode w = setMode RADIO_MODE_RECEIVER w"

definition turnOffReceiver ::
  "(radio_mode \<Rightarrow> 'z mac_scheme \<Rightarrow> 'z mac_scheme result) \<Rightarrow> 'z mac_scheme \<Rightarrow> 'z mac_scheme result" where
  "turnOffReceiver setMode w = setMode RADIO_MODE_SLEEP w"

text \<open>\<open>scheduleAt\<close> throws for a message that is scheduled already.\<close>

definition finishCurrentTransmission :: "'z mac_scheme \<Rightarrow> 'z mac_scheme result" where
  "finishCurrentTransmission w =
     (if endDelay_1 w \<noteq> None \<or> endListening_1 w \<noteq> None \<or> endDelay_2 w \<noteq> None \<or> endListening_2 w \<noteq> None
      then Inl (RuntimeError ''scheduleAt: message is already scheduled'')
      else popTransmissionQueue
             (w\<lparr>endDelay_1 := Some (simTime w + waitDelay1Time w),
                endListening_1 := Some (simTime w + waitDelay1Time w + listening1Time w),
                endDelay_2 := Some (simTime w + waitDelay1Time w + listening1Time w + waitDelay2Time w),
                endListening_2 := Some (simTime w + waitDelay1Time w + listening1Time w + waitDelay2Time w
                                          + listening2Time w)\<rparr>))"

definition receiveForUs :: "mac_msg \<Rightarrow> 'z mac_scheme \<Rightarrow> 'z mac_scheme" where
  "receiveForUs msg w =
     (case msg_frame msg of
        None \<Rightarrow> w
      | Some frame \<Rightarrow> w\<lparr>macSentUp := macSentUp w @ [decapsulate frame], numReceived := numReceived w + 1\<rparr>)"

subsection \<open>The state machine\<close>

definition mac_machine ::
  "(radio_mode \<Rightarrow> 'z mac_scheme \<Rightarrow> 'z mac_scheme result) \<Rightarrow> mac_msg \<Rightarrow> (mac_state, 'z mac_scheme) fsma_machine" where
  "mac_machine setMode msg =
    [(IDLE,
       [FSMA_Enter (turnOffReceiver setMode),
        FSMA_Event_Transition (\<lambda>_. isUpperMessage msg) TRANSMIT Inr]),
     (TRANSMIT,
       [FSMA_Enter (\<lambda>w. andThen (getCurrentTransmission w) (\<lambda>f. sendDataFrame setMode f w)),
        FSMA_Event_Transition (\<lambda>_. msg = Msg_endTransmission) WAIT_DELAY_1
          (\<lambda>w. andThen (finishCurrentTransmission w) (\<lambda>w. Inr (w\<lparr>numSent := numSent w + 1\<rparr>)))]),
     (WAIT_DELAY_1,
       [FSMA_Enter (turnOffReceiver setMode),
        FSMA_Event_Transition (\<lambda>w. msg = Msg_endDelay_1 \<or> endDelay_1 w = None) LISTENING_1 Inr]),
     (LISTENING_1,
       [FSMA_Enter (turnOnReceiver setMode),
        FSMA_Event_Transition (\<lambda>w. msg = Msg_endListening_1 \<or> endListening_1 w = None) WAIT_DELAY_2 Inr,
        FSMA_Event_Transition (\<lambda>w. msg = Msg_mediumStateChange \<and> isReceiving w) RECEIVING_1 Inr]),
     (RECEIVING_1,
       [FSMA_Event_Transition (\<lambda>w. isLowerMessage msg \<and> \<not> msgForUs msg w) LISTENING_1 Inr,
        FSMA_Event_Transition (\<lambda>w. isLowerMessage msg \<and> msgForUs msg w) IDLE
          (\<lambda>w. Inr ((receiveForUs msg w)\<lparr>endListening_1 := None, endDelay_2 := None, endListening_2 := None\<rparr>)),
        FSMA_Event_Transition (\<lambda>_. msg = Msg_droppedPacket) LISTENING_1 Inr]),
     (WAIT_DELAY_2,
       [FSMA_Enter (turnOffReceiver setMode),
        FSMA_Event_Transition (\<lambda>w. msg = Msg_endDelay_2 \<or> endDelay_2 w = None) LISTENING_2 Inr]),
     (LISTENING_2,
       [FSMA_Enter (turnOnReceiver setMode),
        FSMA_Event_Transition (\<lambda>w. msg = Msg_endListening_2 \<or> endListening_2 w = None) IDLE Inr,
        FSMA_Event_Transition (\<lambda>w. msg = Msg_mediumStateChange \<and> isReceiving w) RECEIVING_2 Inr]),
     (RECEIVING_2,
       [FSMA_Event_Transition (\<lambda>w. isLowerMessage msg \<and> \<not> msgForUs msg w) LISTENING_2 Inr,
        FSMA_Event_Transition (\<lambda>w. isLowerMessage msg \<and> msgForUs msg w) IDLE
          (\<lambda>w. Inr ((receiveForUs msg w)\<lparr>endListening_2 := None\<rparr>)),
        FSMA_Event_Transition (\<lambda>_. msg = Msg_droppedPacket) LISTENING_2 Inr])]"

definition setFsm :: "mac_state \<Rightarrow> 'z mac_scheme \<Rightarrow> 'z mac_scheme" where
  "setFsm s w = w\<lparr>fsm := s\<rparr>"

text \<open>
  \<open>FSM_MAXT\<close> is a constant of the simulation kernel; two scans are enough (theory \<open>FSMA\<close>).
\<close>

definition handleWithFsm ::
  "nat \<Rightarrow> (radio_mode \<Rightarrow> 'z mac_scheme \<Rightarrow> 'z mac_scheme result) \<Rightarrow> mac_msg \<Rightarrow> 'z mac_scheme \<Rightarrow> 'z mac_scheme result" where
  "handleWithFsm FSM_MAXT setMode msg w = fsma_switch FSM_MAXT fsm setFsm (mac_machine setMode msg) w"

subsection \<open>Entry points\<close>

text \<open>The frame that \<open>handleUpperPacket\<close> builds from a packet and its control information.\<close>

definition upper_frame :: "'z mac_scheme \<Rightarrow> lora_app_packet \<Rightarrow> lora_mac_control_info \<Rightarrow> lora_mac_frame" where
  "upper_frame w msg cInfo =
     (encapsulate w msg)
       \<lparr>frameLoRaTP := ci_LoRaTP cInfo, frameLoRaCF := ci_LoRaCF cInfo, frameLoRaSF := ci_LoRaSF cInfo,
        frameLoRaBW := ci_LoRaBW cInfo, frameLoRaCR := ci_LoRaCR cInfo,
        frameSequenceNumber := sequenceNumber w, receiverAddress := BROADCAST_ADDRESS,
        frameLoRaUseHeader := ci_LoRaUseHeader cInfo\<rparr>"

text \<open>
  \<open>error(fsm.getStateName())\<close> throws, so the second \<open>error\<close> call of the function is never reached.
  The name of a state is the name that the macro \<open>FSMA_Transition\<close> gives to \<open>setState\<close>.
\<close>

fun mac_stateName :: "mac_state \<Rightarrow> string" where
  "mac_stateName IDLE = ''IDLE''"
| "mac_stateName TRANSMIT = ''TRANSMIT''"
| "mac_stateName WAIT_DELAY_1 = ''WAIT_DELAY_1''"
| "mac_stateName LISTENING_1 = ''LISTENING_1''"
| "mac_stateName RECEIVING_1 = ''RECEIVING_1''"
| "mac_stateName WAIT_DELAY_2 = ''WAIT_DELAY_2''"
| "mac_stateName LISTENING_2 = ''LISTENING_2''"
| "mac_stateName RECEIVING_2 = ''RECEIVING_2''"

definition mac_handleUpperPacket ::
  "nat \<Rightarrow> (radio_mode \<Rightarrow> 'z mac_scheme \<Rightarrow> 'z mac_scheme result) \<Rightarrow>
   lora_app_packet \<Rightarrow> lora_mac_control_info \<Rightarrow> 'z mac_scheme \<Rightarrow> 'z mac_scheme result" where
  "mac_handleUpperPacket FSM_MAXT setMode msg cInfo w =
     (if fsm w \<noteq> IDLE then Inl (RuntimeError (mac_stateName (fsm w)))
      else let frame = upper_frame w msg cInfo
           in handleWithFsm FSM_MAXT setMode (Msg_upper frame)
                (w\<lparr>sequenceNumber := sequenceNumber w + 1, transmissionQueue := transmissionQueue w @ [frame]\<rparr>))"

definition mac_handleLowerPacket ::
  "nat \<Rightarrow> (radio_mode \<Rightarrow> 'z mac_scheme \<Rightarrow> 'z mac_scheme result) \<Rightarrow>
   lora_mac_frame \<Rightarrow> 'z mac_scheme \<Rightarrow> 'z mac_scheme result" where
  "mac_handleLowerPacket FSM_MAXT setMode frame w =
     (if fsm w = RECEIVING_1 \<or> fsm w = RECEIVING_2 then handleWithFsm FSM_MAXT setMode (Msg_lower frame) w
      else Inr w)"

text \<open>A self message arrives: the kernel has taken it off the event list.\<close>

fun unschedule :: "mac_msg \<Rightarrow> 'z mac_scheme \<Rightarrow> 'z mac_scheme" where
  "unschedule Msg_endDelay_1 w = w\<lparr>endDelay_1 := None\<rparr>"
| "unschedule Msg_endListening_1 w = w\<lparr>endListening_1 := None\<rparr>"
| "unschedule Msg_endDelay_2 w = w\<lparr>endDelay_2 := None\<rparr>"
| "unschedule Msg_endListening_2 w = w\<lparr>endListening_2 := None\<rparr>"
| "unschedule _ w = w"

definition mac_handleSelfMessage ::
  "nat \<Rightarrow> (radio_mode \<Rightarrow> 'z mac_scheme \<Rightarrow> 'z mac_scheme result) \<Rightarrow>
   mac_msg \<Rightarrow> 'z mac_scheme \<Rightarrow> 'z mac_scheme result" where
  "mac_handleSelfMessage FSM_MAXT setMode msg w = handleWithFsm FSM_MAXT setMode msg (unschedule msg w)"

text \<open>
  \<open>receiveSignal\<close>. The MAC is subscribed to three of the radio's signals; it never sees the others.
\<close>

definition mac_receiveSignal ::
  "nat \<Rightarrow> (radio_mode \<Rightarrow> 'z mac_scheme \<Rightarrow> 'z mac_scheme result) \<Rightarrow>
   radio_signal \<Rightarrow> 'z mac_scheme \<Rightarrow> 'z mac_scheme result" where
  "mac_receiveSignal FSM_MAXT setMode signal w =
     (case signal of
        ReceptionStateChanged newRadioReceptionState \<Rightarrow>
          andThen
            (if mac_receptionState w = RECEPTION_STATE_RECEIVING then setMode RADIO_MODE_SLEEP w else Inr w)
            (\<lambda>w. handleWithFsm FSM_MAXT setMode Msg_mediumStateChange
                   (w\<lparr>mac_receptionState := newRadioReceptionState\<rparr>))
      | DroppedPacket \<Rightarrow>
          andThen (setMode RADIO_MODE_SLEEP w) (handleWithFsm FSM_MAXT setMode Msg_droppedPacket)
      | TransmissionStateChanged newRadioTransmissionState \<Rightarrow>
          andThen
            (if mac_transmissionState w = TRANSMISSION_STATE_TRANSMITTING
                \<and> newRadioTransmissionState = TRANSMISSION_STATE_IDLE
             then andThen (handleWithFsm FSM_MAXT setMode Msg_endTransmission w) (setMode RADIO_MODE_SLEEP)
             else Inr w)
            (\<lambda>w. Inr (w\<lparr>mac_transmissionState := newRadioTransmissionState\<rparr>))
      | _ \<Rightarrow> Inr w)"

text \<open>The state that \<open>initialize(INITSTAGE_LOCAL)\<close> leaves, over an initialised radio.\<close>

definition initialize_mac :: "devaddr \<Rightarrow> 'z mac_scheme \<Rightarrow> 'z mac_scheme" where
  "initialize_mac addr w =
     w\<lparr>fsm := IDLE, address := addr,
       waitDelay1Time := 1, listening1Time := 1, waitDelay2Time := 1, listening2Time := 1,
       mac_transmissionState := TRANSMISSION_STATE_UNDEFINED,
       mac_receptionState := RECEPTION_STATE_UNDEFINED,
       transmissionQueue := [], sequenceNumber := 0,
       endDelay_1 := None, endListening_1 := None, endDelay_2 := None, endListening_2 := None,
       numSent := 0, numReceived := 0\<rparr>"

subsection \<open>The invariant of the MAC\<close>

text \<open>
  The queue holds the frame in transmission and nothing else; every frame that got a sequence
  number is sent or in transmission; a timer of an earlier phase is never left scheduled, in
  particular none is when the MAC is idle or transmitting, so that \<open>finishCurrentTransmission\<close>
  never schedules a message twice.
\<close>

definition mac_timers_ok :: "mac_state \<Rightarrow> 'z mac_scheme \<Rightarrow> bool" where
  "mac_timers_ok s w \<longleftrightarrow>
     (s \<noteq> WAIT_DELAY_1 \<longrightarrow> endDelay_1 w = None)
     \<and> (s \<notin> {WAIT_DELAY_1, LISTENING_1, RECEIVING_1} \<longrightarrow> endListening_1 w = None)
     \<and> (s \<notin> {WAIT_DELAY_1, LISTENING_1, RECEIVING_1, WAIT_DELAY_2} \<longrightarrow> endDelay_2 w = None)
     \<and> (s \<in> {IDLE, TRANSMIT} \<longrightarrow> endListening_2 w = None)"

definition mac_inv :: "'z mac_scheme \<Rightarrow> bool" where
  "mac_inv w \<longleftrightarrow>
     mac_timers_ok (fsm w) w
     \<and> length (transmissionQueue w) = (if fsm w = TRANSMIT then 1 else 0)
     \<and> numSent w + int (length (transmissionQueue w)) = sequenceNumber w
     \<and> numReceived w = int (length (macSentUp w))"

lemma mac_inv_radio_updates [frame_simps]:
  "mac_inv (w\<lparr>receptionState := a\<rparr>) = mac_inv w"
  "mac_inv (w\<lparr>transmissionState := b\<rparr>) = mac_inv w"
  "mac_inv (w\<lparr>receivedSignalPart := p\<rparr>) = mac_inv w"
  "mac_inv (w\<lparr>transmittedSignalPart := p\<rparr>) = mac_inv w"
  "mac_inv (w\<lparr>receptionTimer := t\<rparr>) = mac_inv w"
  "mac_inv (w\<lparr>receptionTimers := ts\<rparr>) = mac_inv w"
  "mac_inv (w\<lparr>nextTimer := n\<rparr>) = mac_inv w"
  "mac_inv (w\<lparr>transmissionTimer := tt\<rparr>) = mac_inv w"
  "mac_inv (w\<lparr>transmissionTimerKind := p\<rparr>) = mac_inv w"
  "mac_inv (w\<lparr>transmissionFrame := f\<rparr>) = mac_inv w"
  "mac_inv (w\<lparr>radioMode := m\<rparr>) = mac_inv w"
  "mac_inv (w\<lparr>nextRadioMode := m\<rparr>) = mac_inv w"
  "mac_inv (w\<lparr>previousRadioMode := m\<rparr>) = mac_inv w"
  "mac_inv (w\<lparr>switchTimer := st\<rparr>) = mac_inv w"
  "mac_inv (w\<lparr>currentTxPower := x\<rparr>) = mac_inv w"
  "mac_inv (w\<lparr>radioSentUp := u\<rparr>) = mac_inv w"
  "mac_inv (w\<lparr>simTime := now\<rparr>) = mac_inv w"
  "mac_inv (w\<lparr>mac_transmissionState := b\<rparr>) = mac_inv w"
  "mac_inv (w\<lparr>mac_receptionState := a\<rparr>) = mac_inv w"
  "mac_inv (w\<lparr>macSentDown := d\<rparr>) = mac_inv w"
  by (simp_all add: mac_inv_def mac_timers_ok_def)

text \<open>The event is a self message that is scheduled no more, or a frame from below.\<close>

definition msg_delivered :: "mac_msg \<Rightarrow> 'z mac_scheme \<Rightarrow> bool" where
  "msg_delivered msg w \<longleftrightarrow>
     (msg = Msg_endDelay_1 \<longrightarrow> endDelay_1 w = None) \<and> (msg = Msg_endListening_1 \<longrightarrow> endListening_1 w = None)
     \<and> (msg = Msg_endDelay_2 \<longrightarrow> endDelay_2 w = None) \<and> (msg = Msg_endListening_2 \<longrightarrow> endListening_2 w = None)
     \<and> \<not> isUpperMessage msg"

text \<open>
  The contract between the MAC and its radio: a call of \<open>setRadioMode\<close>, with every signal that is
  delivered inside it, leads from a consistent MAC state to a consistent one.
\<close>

locale mac_radio =
  fixes FSM_MAXT :: nat
    and setMode :: "radio_mode \<Rightarrow> 'z mac_scheme \<Rightarrow> 'z mac_scheme result"
  assumes setMode_inv: "mac_inv w \<Longrightarrow> setMode m w = Inr w' \<Longrightarrow> mac_inv w'"
begin

lemma sendDataFrame_inv: "mac_inv w \<Longrightarrow> sendDataFrame setMode f w = Inr w' \<Longrightarrow> mac_inv w'"
  by (auto simp: sendDataFrame_def Let_def frame_simps elim!: andThen_InrE dest: setMode_inv)

lemma transmit_enter_inv:
  "mac_inv w \<Longrightarrow> andThen (getCurrentTransmission w) (\<lambda>f. sendDataFrame setMode f w) = Inr w' \<Longrightarrow> mac_inv w'"
  by (auto elim!: andThen_InrE dest: sendDataFrame_inv)

lemma finishCurrentTransmission_inv:
  assumes "mac_inv w" and "fsm w = TRANSMIT"
    and "andThen (finishCurrentTransmission w) (\<lambda>w. Inr (w\<lparr>numSent := numSent w + 1\<rparr>)) = Inr w'"
  shows "mac_inv (setFsm WAIT_DELAY_1 w')"
proof -
  from assms(1,2) obtain f where q: "transmissionQueue w = [f]"
    by (auto simp: mac_inv_def length_Suc_conv)
  with assms show ?thesis
    by (auto simp: finishCurrentTransmission_def popTransmissionQueue_def mac_inv_def mac_timers_ok_def
        setFsm_def split: if_splits)
qed

lemma receiveForUs_inv:
  assumes "mac_inv w" and "msgForUs msg w" and "isLowerMessage msg"
  shows "fsm w = RECEIVING_1 \<Longrightarrow>
      mac_inv (setFsm IDLE ((receiveForUs msg w)\<lparr>endListening_1 := None, endDelay_2 := None, endListening_2 := None\<rparr>))"
    and "fsm w = RECEIVING_2 \<Longrightarrow> mac_inv (setFsm IDLE ((receiveForUs msg w)\<lparr>endListening_2 := None\<rparr>))"
  using assms
  by (auto simp: receiveForUs_def msgForUs_def mac_inv_def mac_timers_ok_def setFsm_def split: option.splits)

text \<open>A transition without an action.\<close>

lemma mac_move_inv:
  assumes "mac_inv w" and "fsm w \<noteq> TRANSMIT" and "t \<noteq> TRANSMIT" and "mac_timers_ok t w"
  shows "mac_inv (setFsm t w)"
  using assms by (clarsimp simp: mac_inv_def setFsm_def mac_timers_ok_def)

lemma mac_moves:
  assumes "mac_inv w"
  shows "fsm w = WAIT_DELAY_1 \<Longrightarrow> endDelay_1 w = None \<Longrightarrow> mac_inv (setFsm LISTENING_1 w)"
    and "fsm w = LISTENING_1 \<Longrightarrow> endListening_1 w = None \<Longrightarrow> mac_inv (setFsm WAIT_DELAY_2 w)"
    and "fsm w = LISTENING_1 \<Longrightarrow> mac_inv (setFsm RECEIVING_1 w)"
    and "fsm w = RECEIVING_1 \<Longrightarrow> mac_inv (setFsm LISTENING_1 w)"
    and "fsm w = WAIT_DELAY_2 \<Longrightarrow> endDelay_2 w = None \<Longrightarrow> mac_inv (setFsm LISTENING_2 w)"
    and "fsm w = LISTENING_2 \<Longrightarrow> endListening_2 w = None \<Longrightarrow> mac_inv (setFsm IDLE w)"
    and "fsm w = LISTENING_2 \<Longrightarrow> mac_inv (setFsm RECEIVING_2 w)"
    and "fsm w = RECEIVING_2 \<Longrightarrow> mac_inv (setFsm LISTENING_2 w)"
proof -
  have t: "mac_timers_ok (fsm w) w" using assms by (simp add: mac_inv_def)
  show "fsm w = WAIT_DELAY_1 \<Longrightarrow> endDelay_1 w = None \<Longrightarrow> mac_inv (setFsm LISTENING_1 w)"
    and "fsm w = LISTENING_1 \<Longrightarrow> endListening_1 w = None \<Longrightarrow> mac_inv (setFsm WAIT_DELAY_2 w)"
    and "fsm w = LISTENING_1 \<Longrightarrow> mac_inv (setFsm RECEIVING_1 w)"
    and "fsm w = RECEIVING_1 \<Longrightarrow> mac_inv (setFsm LISTENING_1 w)"
    and "fsm w = WAIT_DELAY_2 \<Longrightarrow> endDelay_2 w = None \<Longrightarrow> mac_inv (setFsm LISTENING_2 w)"
    and "fsm w = LISTENING_2 \<Longrightarrow> endListening_2 w = None \<Longrightarrow> mac_inv (setFsm IDLE w)"
    and "fsm w = LISTENING_2 \<Longrightarrow> mac_inv (setFsm RECEIVING_2 w)"
    and "fsm w = RECEIVING_2 \<Longrightarrow> mac_inv (setFsm LISTENING_2 w)"
    by (rule mac_move_inv [OF assms]; use t in \<open>simp add: mac_timers_ok_def\<close>)+
qed

lemma mac_machine_keeps:
  "machine_keeps fsm setFsm (\<lambda>w. mac_inv w \<and> msg_delivered msg w) mac_inv (mac_machine setMode msg)"
proof -
  have enters: "\<forall>w w'. mac_inv w \<longrightarrow> turnOffReceiver setMode w = Inr w' \<longrightarrow> mac_inv w'"
    "\<forall>w w'. mac_inv w \<longrightarrow> turnOnReceiver setMode w = Inr w' \<longrightarrow> mac_inv w'"
    "\<forall>w w'. mac_inv w \<longrightarrow> andThen (getCurrentTransmission w) (\<lambda>f. sendDataFrame setMode f w) = Inr w'
       \<longrightarrow> mac_inv w'"
    using setMode_inv transmit_enter_inv unfolding turnOffReceiver_def turnOnReceiver_def by blast+
  show ?thesis
    unfolding mac_machine_def machine_keeps_simps
    by (intro conjI TrueI enters)
      (use mac_moves receiveForUs_inv finishCurrentTransmission_inv in \<open>fastforce simp: msg_delivered_def\<close>)+
qed

lemma handleWithFsm_inv:
  assumes "mac_inv w" and "msg_delivered msg w"
  shows "ensures mac_inv (handleWithFsm FSM_MAXT setMode msg w)"
  using assms fsma_switch_invariant [OF mac_machine_keeps] unfolding handleWithFsm_def
  by (blast intro: ensuresI)

lemma setMode_ensures: "mac_inv w \<Longrightarrow> ensures mac_inv (setMode m w)"
  by (blast intro: ensuresI setMode_inv)

lemma mac_receiveSignal_inv: "mac_inv w \<Longrightarrow> ensures mac_inv (mac_receiveSignal FSM_MAXT setMode s w)"
  unfolding mac_receiveSignal_def
  by (cases s) (auto intro!: ensures_seqI setMode_ensures handleWithFsm_inv
      simp: frame_simps msg_delivered_def isUpperMessage_def)

lemma unschedule_inv: "mac_inv w \<Longrightarrow> mac_inv (unschedule msg w)"
  by (cases msg) (simp_all add: mac_inv_def mac_timers_ok_def)

lemma mac_handleSelfMessage_inv:
  assumes "mac_inv w" and "\<not> isUpperMessage msg"
  shows "ensures mac_inv (mac_handleSelfMessage FSM_MAXT setMode msg w)"
  unfolding mac_handleSelfMessage_def
  by (rule handleWithFsm_inv [OF unschedule_inv [OF assms(1)]])
    (use assms(2) in \<open>cases msg; simp add: msg_delivered_def\<close>)

lemma mac_handleLowerPacket_inv:
  "mac_inv w \<Longrightarrow> ensures mac_inv (mac_handleLowerPacket FSM_MAXT setMode f w)"
  unfolding mac_handleLowerPacket_def
  by (intro ensures_intros handleWithFsm_inv) (simp_all add: msg_delivered_def isUpperMessage_def)

text \<open>
  A packet from above fires the transition to \<open>TRANSMIT\<close>; the second scan sends the frame.
\<close>

lemma mac_handleUpperPacket_inv:
  assumes "mac_inv w"
  shows "ensures mac_inv (mac_handleUpperPacket FSM_MAXT setMode p c w)"
proof (cases "fsm w = IDLE")
  case False
  then show ?thesis by (simp add: mac_handleUpperPacket_def)
next
  case True
  obtain f where f: "mac_handleUpperPacket FSM_MAXT setMode p c w = handleWithFsm FSM_MAXT setMode (Msg_upper f)
      (w\<lparr>sequenceNumber := sequenceNumber w + 1, transmissionQueue := transmissionQueue w @ [f]\<rparr>)"
    using True by (simp add: mac_handleUpperPacket_def Let_def)
  let ?w = "w\<lparr>sequenceNumber := sequenceNumber w + 1, transmissionQueue := transmissionQueue w @ [f]\<rparr>"
  have inv: "mac_inv (setFsm TRANSMIT ?w)"
    using assms True by (auto simp: mac_inv_def mac_timers_ok_def setFsm_def)
  show ?thesis
  proof (cases FSM_MAXT)
    case 0
    with f show ?thesis by (simp add: handleWithFsm_def fsma_switch_def)
  next
    case (Suc n)
    have "handleWithFsm FSM_MAXT setMode (Msg_upper f) ?w
        = fsma_loop n fsm setFsm (mac_machine setMode (Msg_upper f)) False (setFsm TRANSMIT ?w)"
      using True unfolding handleWithFsm_def fsma_switch_def Suc
      by (simp add: mac_machine_def isUpperMessage_def)
    then show ?thesis using fsma_loop_invariant [OF mac_machine_keeps, of n "Msg_upper f" False "setFsm TRANSMIT ?w"] f inv
      by (auto intro: ensuresI)
  qed
qed

end

subsection \<open>Predicates that do not look at the MAC\<close>

text \<open>
  A predicate \<open>I\<close> on the rest of the node that \<open>setRadioMode\<close> preserves is preserved by every
  operation of the MAC: the MAC writes its own fields and calls \<open>setRadioMode\<close>, nothing else.
\<close>

locale mac_framed =
  fixes FSM_MAXT :: nat
    and setMode :: "radio_mode \<Rightarrow> 'z mac_scheme \<Rightarrow> 'z mac_scheme result"
    and I :: "'z mac_scheme \<Rightarrow> bool"
  assumes setMode_I: "I w \<Longrightarrow> ensures I (setMode m w)"
    and I_frame: "\<And>w a. I (w\<lparr>fsm := a\<rparr>) = I w"
      "\<And>w b. I (w\<lparr>mac_transmissionState := b\<rparr>) = I w"
      "\<And>w r. I (w\<lparr>mac_receptionState := r\<rparr>) = I w"
      "\<And>w q. I (w\<lparr>transmissionQueue := q\<rparr>) = I w"
      "\<And>w n. I (w\<lparr>sequenceNumber := n\<rparr>) = I w"
      "\<And>w t. I (w\<lparr>endDelay_1 := t\<rparr>) = I w"
      "\<And>w t. I (w\<lparr>endListening_1 := t\<rparr>) = I w"
      "\<And>w t. I (w\<lparr>endDelay_2 := t\<rparr>) = I w"
      "\<And>w t. I (w\<lparr>endListening_2 := t\<rparr>) = I w"
      "\<And>w n. I (w\<lparr>numSent := n\<rparr>) = I w"
      "\<And>w n. I (w\<lparr>numReceived := n\<rparr>) = I w"
      "\<And>w d. I (w\<lparr>macSentDown := d\<rparr>) = I w"
      "\<And>w u. I (w\<lparr>macSentUp := u\<rparr>) = I w"
begin

lemma mac_machine_I: "machine_keeps fsm setFsm I I (mac_machine setMode msg)"
proof -
  have enters: "\<forall>w w'. I w \<longrightarrow> turnOffReceiver setMode w = Inr w' \<longrightarrow> I w'"
    "\<forall>w w'. I w \<longrightarrow> turnOnReceiver setMode w = Inr w' \<longrightarrow> I w'"
    using setMode_I unfolding turnOffReceiver_def turnOnReceiver_def by (blast dest: ensuresD)+
  have send: "ensures I (andThen (getCurrentTransmission w) (\<lambda>f. sendDataFrame setMode f w))" if "I w" for w
    unfolding getCurrentTransmission_def sendDataFrame_def Let_def
    by (cases "transmissionQueue w") (auto intro!: ensures_seqI setMode_I [OF that] simp: I_frame)
  have finish: "ensures I (andThen (finishCurrentTransmission w) (\<lambda>w. Inr (w\<lparr>numSent := numSent w + 1\<rparr>)))"
    if "I w" for w
    using that unfolding finishCurrentTransmission_def popTransmissionQueue_def
    by (intro ensures_intros) (simp_all add: I_frame split: list.split)
  have frm: "I (receiveForUs msg w) = I w" for w
    by (simp add: receiveForUs_def I_frame split: option.split)
  show ?thesis
    unfolding mac_machine_def machine_keeps_simps
    by (intro conjI TrueI enters)
      (use send finish in \<open>force simp: setFsm_def I_frame frm dest: ensuresD\<close>)+
qed

lemma handleWithFsm_I: "I w \<Longrightarrow> ensures I (handleWithFsm FSM_MAXT setMode msg w)"
  using fsma_switch_invariant [OF mac_machine_I] unfolding handleWithFsm_def by (blast intro: ensuresI)

lemma mac_receiveSignal_I: "I w \<Longrightarrow> ensures I (mac_receiveSignal FSM_MAXT setMode s w)"
  unfolding mac_receiveSignal_def
  by (cases s) (auto intro!: ensures_seqI setMode_I handleWithFsm_I simp: I_frame)

lemma mac_handleSelfMessage_I: "I w \<Longrightarrow> ensures I (mac_handleSelfMessage FSM_MAXT setMode msg w)"
  unfolding mac_handleSelfMessage_def
  by (rule handleWithFsm_I) (cases msg; simp add: I_frame)

lemma mac_handleLowerPacket_I: "I w \<Longrightarrow> ensures I (mac_handleLowerPacket FSM_MAXT setMode f w)"
  unfolding mac_handleLowerPacket_def by (intro ensures_intros handleWithFsm_I) simp_all

lemma mac_handleUpperPacket_I: "I w \<Longrightarrow> ensures I (mac_handleUpperPacket FSM_MAXT setMode p c w)"
  unfolding mac_handleUpperPacket_def Let_def
  by (intro ensures_intros handleWithFsm_I) (simp_all add: I_frame)

end

end
