(* ===== verification/LoRaNic.thy ===== *)
theory LoRaNic
  imports LoRaMac
begin

text \<open>
  The end device's network interface: \<open>LoRaMac\<close> on top of \<open>LoRaRadio\<close>. The two call each other
  synchronously: the MAC calls \<open>setRadioMode\<close>, the radio emits a signal inside it, the MAC's
  \<open>receiveSignal\<close> runs its state machine and may call \<open>setRadioMode\<close> again. The recursion is
  unrolled to a nesting depth; beyond it the result is an error, so that a theorem that a call
  returns is also one that the nesting stays within the bound.
\<close>

fun nic_setMode ::
  "'z mac_scheme radio_env \<Rightarrow> nat \<Rightarrow> nat \<Rightarrow> radio_mode \<Rightarrow> 'z mac_scheme \<Rightarrow> 'z mac_scheme result" where
  "nic_setMode env FSM_MAXT 0 m w = Inl (RuntimeError ''nesting bound'')"
| "nic_setMode env FSM_MAXT (Suc n) m w =
     setRadioMode env (mac_receiveSignal FSM_MAXT (nic_setMode env FSM_MAXT n)) m w"

definition nic_emit ::
  "'z mac_scheme radio_env \<Rightarrow> nat \<Rightarrow> nat \<Rightarrow> radio_signal \<Rightarrow> 'z mac_scheme \<Rightarrow> 'z mac_scheme result" where
  "nic_emit env FSM_MAXT n = mac_receiveSignal FSM_MAXT (nic_setMode env FSM_MAXT n)"

lemma nic_setMode_Suc: "nic_setMode env FSM_MAXT (Suc n) m w = setRadioMode env (nic_emit env FSM_MAXT n) m w"
  by (simp add: nic_emit_def)

text \<open>The events that reach the interface from outside.\<close>

datatype nic_event =
    NicUpperPacket lora_app_packet lora_mac_control_info
  | NicSelfMessage mac_msg
  | NicFrameToMac lora_mac_frame
  | NicRadio radio_event
  | NicTime simtime

definition nic_step ::
  "'z mac_scheme radio_env \<Rightarrow> nat \<Rightarrow> nat \<Rightarrow> nic_event \<Rightarrow> 'z mac_scheme \<Rightarrow> 'z mac_scheme result" where
  "nic_step env FSM_MAXT n ev w =
     (case ev of
        NicUpperPacket p c \<Rightarrow> mac_handleUpperPacket FSM_MAXT (nic_setMode env FSM_MAXT n) p c w
      | NicSelfMessage msg \<Rightarrow> mac_handleSelfMessage FSM_MAXT (nic_setMode env FSM_MAXT n) msg w
      | NicFrameToMac f \<Rightarrow> mac_handleLowerPacket FSM_MAXT (nic_setMode env FSM_MAXT n) f w
      | NicRadio ev \<Rightarrow> radio_step env (nic_emit env FSM_MAXT n) ev w
      | NicTime t \<Rightarrow> Inr (w\<lparr>simTime := t\<rparr>))"

text \<open>
  What the kernel delivers: a self message at the time it is scheduled for, a radio timer at its
  time; the clock runs forward and never past a timer of the MAC or the end of the transmission.
  (Reception timers of frames that the radio does not attempt do not hold the clock here; their
  expiry has no effect on the interface.)
\<close>

definition pending_timers :: "'z mac_scheme \<Rightarrow> simtime option list" where
  "pending_timers w = [endDelay_1 w, endListening_1 w, endDelay_2 w, endListening_2 w, transmissionTimer w]"

definition msg_due :: "mac_msg \<Rightarrow> 'z mac_scheme \<Rightarrow> bool" where
  "msg_due msg w \<longleftrightarrow>
     (case msg of
        Msg_endDelay_1 \<Rightarrow> endDelay_1 w = Some (simTime w)
      | Msg_endListening_1 \<Rightarrow> endListening_1 w = Some (simTime w)
      | Msg_endDelay_2 \<Rightarrow> endDelay_2 w = Some (simTime w)
      | Msg_endListening_2 \<Rightarrow> endListening_2 w = Some (simTime w)
      | _ \<Rightarrow> False)"

definition nic_event_possible :: "nic_event \<Rightarrow> 'z mac_scheme \<Rightarrow> bool" where
  "nic_event_possible ev w \<longleftrightarrow>
     (case ev of
        NicSelfMessage msg \<Rightarrow> msg_due msg w
      | NicRadio ev \<Rightarrow> radio_event_possible ev w
      | NicTime t \<Rightarrow> simTime w \<le> t \<and> list_all (\<lambda>x. case x of None \<Rightarrow> True | Some d \<Rightarrow> t \<le> d) (pending_timers w)
      | _ \<Rightarrow> True)"

text \<open>The interface after initialisation: the radio is off, then \<open>LoRaMac\<close> puts it to sleep.\<close>

definition nic_initialize ::
  "'z mac_scheme radio_env \<Rightarrow> nat \<Rightarrow> nat \<Rightarrow> bool \<Rightarrow> bool \<Rightarrow> devaddr \<Rightarrow> 'z mac_scheme \<Rightarrow> 'z mac_scheme result" where
  "nic_initialize env FSM_MAXT n sepT sepR addr w =
     nic_setMode env FSM_MAXT n RADIO_MODE_SLEEP
       (initialize_mac addr (initialize_radio (\<lambda>_ _. 0) sepT sepR w))"

inductive nic_reachable ::
  "'z mac_scheme radio_env \<Rightarrow> nat \<Rightarrow> nat \<Rightarrow> 'z mac_scheme \<Rightarrow> bool" for env FSM_MAXT n where
  nic_start: "macSentUp w0 = [] \<Longrightarrow> macSentDown w0 = [] \<Longrightarrow>
    nic_initialize env FSM_MAXT n sepT sepR addr w0 = Inr w \<Longrightarrow> nic_reachable env FSM_MAXT n w"
| nic_event: "nic_reachable env FSM_MAXT n w \<Longrightarrow> nic_event_possible ev w \<Longrightarrow>
    nic_step env FSM_MAXT n ev w = Inr w' \<Longrightarrow> nic_reachable env FSM_MAXT n w'"

inductive_cases nic_reachableE: "nic_reachable env FSM_MAXT n w"

subsection \<open>The contracts between the two layers\<close>

lemma nic_radio_framed:
  assumes "\<And>w s. mac_inv w \<Longrightarrow> ensures mac_inv (emit s w)"
  shows "radio_framed emit mac_inv"
  by unfold_locales (simp_all add: assms frame_simps)

lemma nic_setMode_inv: "mac_inv w \<Longrightarrow> ensures mac_inv (nic_setMode env FSM_MAXT n m w)"
proof (induction n arbitrary: m w)
  case 0
  then show ?case by simp
next
  case (Suc n)
  have "mac_radio (nic_setMode env FSM_MAXT n)"
    by unfold_locales (rule ensuresD [OF Suc.IH])
  then have "mac_inv w \<Longrightarrow> ensures mac_inv (mac_receiveSignal FSM_MAXT (nic_setMode env FSM_MAXT n) s w)" for s w
    by (rule mac_radio.mac_receiveSignal_inv)
  from radio_framed.setRadioMode_J [OF nic_radio_framed [OF this] Suc.prems] show ?case by simp
qed

interpretation nic_mac: mac_radio FSM_MAXT "nic_setMode env FSM_MAXT n" for env FSM_MAXT n
  by unfold_locales (rule ensuresD [OF nic_setMode_inv])

interpretation nic_below: radio_framed env "nic_emit env FSM_MAXT n" mac_inv for env FSM_MAXT n
  by (rule nic_radio_framed) (simp add: nic_emit_def nic_mac.mac_receiveSignal_inv)

text \<open>
  The other direction. The relational predicate below fixes the state \<open>v\<close> in which the signal is
  emitted; the MAC's own fields do not matter to it.
\<close>

definition radio_within :: "'z mac_scheme \<Rightarrow> 'z mac_scheme \<Rightarrow> bool" where
  "radio_within v w \<longleftrightarrow> radio_core w \<and> radio_shrinks v w"

lemma nic_mac_framed:
  assumes "\<And>w m. radio_core w \<Longrightarrow> ensures (radio_within w) (setMode m w)"
  shows "mac_framed setMode (radio_within v)"
proof
  fix w :: "'a mac_scheme" and m
  assume w: "radio_within v w"
  with assms [of w m] show "ensures (radio_within v) (setMode m w)"
    by (auto simp: ensures_def radio_within_def intro: radio_shrinks_trans)
qed (simp_all add: radio_within_def radio_core_def radio_shrinks_def)

lemma nic_setMode_core: "radio_core w \<Longrightarrow> ensures (radio_within w) (nic_setMode env FSM_MAXT n m w)"
proof (induction n arbitrary: m w)
  case 0
  then show ?case by simp
next
  case (Suc n)
  have "radio_listener (mac_receiveSignal FSM_MAXT (nic_setMode env FSM_MAXT n))"
  proof
    fix w w' :: "'a mac_scheme" and s
    assume "radio_core w" and run: "mac_receiveSignal FSM_MAXT (nic_setMode env FSM_MAXT n) s w = Inr w'"
    then have "radio_within w w" by (simp add: radio_within_def)
    moreover have "mac_framed (nic_setMode env FSM_MAXT n) (radio_within w)"
      by (rule nic_mac_framed) (rule Suc.IH)
    ultimately have "radio_within w w'"
      using ensuresD [OF mac_framed.mac_receiveSignal_I run] by blast
    then show "radio_core w' \<and> radio_shrinks w w'" by (simp add: radio_within_def)
  qed
  from radio_listener.setRadioMode_core [OF this Suc.prems]
  show ?case by (auto intro: ensuresI simp: radio_within_def)
qed

interpretation nic_frame: mac_framed FSM_MAXT "nic_setMode env FSM_MAXT n" "radio_within v"
  for env FSM_MAXT n v
  by (rule nic_mac_framed) (rule nic_setMode_core)

interpretation nic_listener: radio_listener env "nic_emit env FSM_MAXT n" for env FSM_MAXT n
proof
  fix w w' :: "'a mac_scheme" and s
  assume "radio_core w" and "nic_emit env FSM_MAXT n s w = Inr w'"
  moreover from this have "ensures (radio_within w) (nic_emit env FSM_MAXT n s w)"
    unfolding nic_emit_def by (intro nic_frame.mac_receiveSignal_I) (simp add: radio_within_def)
  ultimately show "radio_core w' \<and> radio_shrinks w w'"
    by (auto simp: radio_within_def dest: ensuresD)
qed

subsection \<open>The invariant of the interface\<close>

lemma nic_step_inv:
  assumes "mac_inv w" and "nic_event_possible ev w"
  shows "ensures mac_inv (nic_step env FSM_MAXT n ev w)"
proof (cases ev)
  case (NicSelfMessage msg)
  with assms have "\<not> isUpperMessage msg"
    by (cases msg) (auto simp: nic_event_possible_def msg_due_def isUpperMessage_def)
  with assms NicSelfMessage show ?thesis by (simp add: nic_step_def nic_mac.mac_handleSelfMessage_inv)
qed (simp_all add: nic_step_def assms frame_simps nic_mac.mac_handleUpperPacket_inv
      nic_mac.mac_handleLowerPacket_inv nic_below.radio_step_J)

lemma nic_step_core:
  assumes "radio_core w" and "nic_event_possible ev w"
  shows "ensures radio_core (nic_step env FSM_MAXT n ev w)"
proof -
  have within: "ensures (radio_within w) r \<Longrightarrow> ensures radio_core r" for r :: "'a mac_scheme result"
    by (simp add: ensures_def radio_within_def)
  have w: "radio_within w w" using assms(1) by (simp add: radio_within_def)
  show ?thesis
  proof (cases ev)
    case (NicUpperPacket p c)
    then show ?thesis by (simp add: nic_step_def within [OF nic_frame.mac_handleUpperPacket_I [OF w]])
  next
    case (NicSelfMessage msg)
    then show ?thesis by (simp add: nic_step_def within [OF nic_frame.mac_handleSelfMessage_I [OF w]])
  next
    case (NicFrameToMac f)
    then show ?thesis by (simp add: nic_step_def within [OF nic_frame.mac_handleLowerPacket_I [OF w]])
  next
    case (NicRadio rev)
    with assms(2) have "radio_event_possible rev w" by (simp add: nic_event_possible_def)
    with NicRadio show ?thesis
      using nic_listener.radio_step_core [OF assms(1)] by (simp add: nic_step_def ensures_def)
  next
    case (NicTime t)
    with assms(1) show ?thesis by (simp add: nic_step_def radio_core_def)
  qed
qed

text \<open>
  C2: Whatever the order of packets, timers and radio signals, the MAC and the radio of an end
  device stay consistent: the queue holds exactly the frame in transmission, every numbered frame is
  sent or in transmission, no receive-window timer survives its phase (so none is ever
  scheduled twice), the radio mode switch is never left half done, and an attempted reception or a
  running transmission exists in the matching radio mode only.
\<close>

theorem nic_reachable_consistent:
  assumes "nic_reachable env FSM_MAXT n w"
  shows "mac_inv w \<and> radio_core w"
  using assms
proof (induction rule: nic_reachable.induct)
  case (nic_start w0 sepT sepR addr w)
  let ?w = "initialize_mac addr (initialize_radio (\<lambda>_ _. 0) sepT sepR w0)"
  have "mac_inv ?w" "radio_core ?w"
    using nic_start.hyps(1) by (simp_all add: mac_inv_def mac_timers_ok_def radio_core_def initialize_mac_def
        initialize_radio_def)
  then show ?case
    using ensuresD [OF nic_setMode_inv nic_start.hyps(3) [unfolded nic_initialize_def]]
      ensuresD [OF nic_setMode_core nic_start.hyps(3) [unfolded nic_initialize_def]]
    by (simp add: radio_within_def)
next
  case (nic_event w ev w')
  then show ?case
    using ensuresD [OF nic_step_inv nic_event.hyps(3)] ensuresD [OF nic_step_core nic_event.hyps(3)] by blast
qed

subsection \<open>A concrete interface\<close>

text \<open>
  A device under a medium that delivers every frame, with an airtime of one second: the instance
  on which the properties of this theory and of the next ones are run.
\<close>

definition sample_env :: "mac radio_env" where
  "sample_env =
     \<lparr>env_isListeningPossible = (\<lambda>_. False), env_isReceptionAttempted = (\<lambda>_ _ _. True),
      env_isReceptionSuccessful = (\<lambda>_ _ _. True), env_receptionDecision = (\<lambda>_ _ _. True),
      env_receivePacket = (\<lambda>rf _. rf_macFrame rf),
      env_transmitPacket = (\<lambda>f w. \<lparr>rf_macFrame = f, rf_startTime = (\<lambda>_. simTime w), rf_endTime = (\<lambda>_. simTime w + 1)\<rparr>)\<rparr>"

definition sample_device :: mac where
  "sample_device =
     \<lparr>simTime = 0,
      switchingTimes = (\<lambda>_ _. 0), separateTransmissionParts = False, separateReceptionParts = False,
      radioMode = RADIO_MODE_OFF, nextRadioMode = RADIO_MODE_OFF, previousRadioMode = RADIO_MODE_OFF,
      receptionState = RECEPTION_STATE_UNDEFINED, transmissionState = TRANSMISSION_STATE_UNDEFINED,
      receivedSignalPart = SIGNAL_PART_NONE, transmittedSignalPart = SIGNAL_PART_NONE,
      transmissionTimer = None, transmissionTimerKind = SIGNAL_PART_NONE, transmissionFrame = None,
      receptionTimers = (\<lambda>_. None), nextTimer = 0, receptionTimer = None, switchTimer = None,
      currentTxPower = 0, radioSentUp = [],
      fsm = IDLE, address = 1, waitDelay1Time = 1, listening1Time = 1, waitDelay2Time = 1, listening2Time = 1,
      mac_transmissionState = TRANSMISSION_STATE_UNDEFINED, mac_receptionState = RECEPTION_STATE_UNDEFINED,
      transmissionQueue = [], sequenceNumber = 0,
      endDelay_1 = None, endListening_1 = None, endDelay_2 = None, endListening_2 = None,
      numSent = 0, numReceived = 0, macSentDown = [], macSentUp = []\<rparr>"

text \<open>The device once it is initialised, as the calls between the layers leave it.\<close>

lemma sample_initialize:
  "nic_initialize sample_env 2 1 False False 1 sample_device
     = Inr (sample_device\<lparr>radioMode := RADIO_MODE_SLEEP, nextRadioMode := RADIO_MODE_SLEEP,
              previousRadioMode := RADIO_MODE_SLEEP\<rparr>)"
  by (simp add: nic_initialize_def initialize_mac_def initialize_radio_def sample_device_def sample_env_def setRadioMode_def
      Let_def completeRadioModeSwitch_def mac_receiveSignal_def updateTransceiver_def updateTransceiverState_def
      updateTransceiverPart_def newReceptionState_def newTransmissionState_def newReceivedPart_def newTransmittedPart_def)

lemma nic_reachable_consistent_witness:
  "\<exists>w. nic_reachable sample_env 2 1 w \<and> radioMode w = RADIO_MODE_SLEEP \<and> mac_inv w \<and> radio_core w"
proof -
  let ?w = "sample_device\<lparr>radioMode := RADIO_MODE_SLEEP, nextRadioMode := RADIO_MODE_SLEEP,
              previousRadioMode := RADIO_MODE_SLEEP\<rparr>"
  have "nic_reachable sample_env 2 1 ?w"
    by (rule nic_start [OF _ _ sample_initialize]) (simp_all add: sample_device_def)
  with nic_reachable_consistent [OF this] show ?thesis by (intro exI [of _ ?w]) simp
qed

end
