(* ===== verification/LoRaClassA.thy ===== *)
theory LoRaClassA
  imports LoRaNic
begin

text \<open>
  The class A cycle of an end device, on the composition of \<open>LoRaMac\<close> and \<open>LoRaRadio\<close>: what each
  phase does to the state machine, to the timers and to the radio mode, and the cycle as a whole.
  A state is \<open>ready\<close> when no frame is on its way in or out and no timer of the current phase
  is overdue; from a ready state a call of \<open>setRadioMode\<close> needs no nesting at all.
\<close>

definition mac_settled :: "'z mac_scheme \<Rightarrow> bool" where
  "mac_settled w \<longleftrightarrow>
     (fsm w = WAIT_DELAY_1 \<longrightarrow> endDelay_1 w \<noteq> None) \<and> (fsm w = LISTENING_1 \<longrightarrow> endListening_1 w \<noteq> None)
     \<and> (fsm w = WAIT_DELAY_2 \<longrightarrow> endDelay_2 w \<noteq> None) \<and> (fsm w = LISTENING_2 \<longrightarrow> endListening_2 w \<noteq> None)"

definition nic_ready :: "'z mac_scheme \<Rightarrow> bool" where
  "nic_ready w \<longleftrightarrow>
     radio_core w \<and> receptionTimer w = None \<and> transmissionTimer w = None
     \<and> mac_receptionState w \<noteq> RECEPTION_STATE_RECEIVING \<and> receptionState w \<noteq> RECEPTION_STATE_RECEIVING
     \<and> transmissionState w = newTransmissionState w \<and> mac_settled w"

text \<open>Two states with the same MAC data: everything but the radio and the copies of its states.\<close>

definition same_mac :: "'z mac_scheme \<Rightarrow> 'z mac_scheme \<Rightarrow> bool" where
  "same_mac w w' \<longleftrightarrow>
     fsm w' = fsm w \<and> address w' = address w
     \<and> waitDelay1Time w' = waitDelay1Time w \<and> listening1Time w' = listening1Time w
     \<and> waitDelay2Time w' = waitDelay2Time w \<and> listening2Time w' = listening2Time w
     \<and> transmissionQueue w' = transmissionQueue w \<and> sequenceNumber w' = sequenceNumber w
     \<and> endDelay_1 w' = endDelay_1 w \<and> endListening_1 w' = endListening_1 w
     \<and> endDelay_2 w' = endDelay_2 w \<and> endListening_2 w' = endListening_2 w
     \<and> numSent w' = numSent w \<and> numReceived w' = numReceived w
     \<and> macSentDown w' = macSentDown w \<and> macSentUp w' = macSentUp w \<and> simTime w' = simTime w"

lemma same_mac_settled: "same_mac w w' \<Longrightarrow> mac_settled w' = mac_settled w"
  by (simp add: same_mac_def mac_settled_def)

lemma handleWithFsm_settled:
  assumes "mac_settled w" and "receptionState w \<noteq> RECEPTION_STATE_RECEIVING"
  shows "handleWithFsm (Suc k) setMode Msg_mediumStateChange w = Inr w"
  unfolding handleWithFsm_def
  by (rule fsma_switch_idle [of _ _ _ _ True])
    (use assms in \<open>cases "fsm w"; simp add: mac_machine_def mac_settled_def isReceiving_def isUpperMessage_def
        isLowerMessage_def msgForUs_def msg_frame_def\<close>)

lemma mac_receiveSignal_quiet:
  "mac_receptionState w \<noteq> RECEPTION_STATE_RECEIVING \<Longrightarrow> mac_settled w \<Longrightarrow> receptionState w \<noteq> RECEPTION_STATE_RECEIVING \<Longrightarrow>
     mac_receiveSignal (Suc k) setMode (ReceptionStateChanged rs) w = Inr (w\<lparr>mac_receptionState := rs\<rparr>)"
  "mac_transmissionState w \<noteq> TRANSMISSION_STATE_TRANSMITTING \<or> ts \<noteq> TRANSMISSION_STATE_IDLE \<Longrightarrow>
     mac_receiveSignal (Suc k) setMode (TransmissionStateChanged ts) w = Inr (w\<lparr>mac_transmissionState := ts\<rparr>)"
  "mac_receiveSignal (Suc k) setMode (RadioModeChanged m) w = Inr w"
  "mac_receiveSignal (Suc k) setMode (ReceivedSignalPartChanged p) w = Inr w"
  "mac_receiveSignal (Suc k) setMode (TransmittedSignalPartChanged p) w = Inr w"
  "mac_receiveSignal (Suc k) setMode (PacketReceivedFromUpper f) w = Inr w"
  "mac_receiveSignal (Suc k) setMode (PacketSentToUpper f) w = Inr w"
  using handleWithFsm_settled [of "w\<lparr>mac_receptionState := rs\<rparr>" k setMode]
  by (auto simp: mac_receiveSignal_def mac_settled_def)

text \<open>Two states with the same radio data: everything but the states that are derived from it.\<close>

definition same_radio :: "'z mac_scheme \<Rightarrow> 'z mac_scheme \<Rightarrow> bool" where
  "same_radio w w' \<longleftrightarrow>
     radioMode w' = radioMode w \<and> nextRadioMode w' = nextRadioMode w \<and> previousRadioMode w' = previousRadioMode w
     \<and> switchingTimes w' = switchingTimes w \<and> switchTimer w' = switchTimer w
     \<and> separateTransmissionParts w' = separateTransmissionParts w
     \<and> separateReceptionParts w' = separateReceptionParts w
     \<and> receptionTimer w' = receptionTimer w \<and> receptionTimers w' = receptionTimers w \<and> nextTimer w' = nextTimer w
     \<and> transmissionTimer w' = transmissionTimer w \<and> transmissionTimerKind w' = transmissionTimerKind w
     \<and> transmissionFrame w' = transmissionFrame w \<and> currentTxPower w' = currentTxPower w
     \<and> radioSentUp w' = radioSentUp w"

lemma same_radio_core: "same_radio w w' \<Longrightarrow> radio_core w' = radio_core w"
  by (simp add: same_radio_def radio_core_def)

text \<open>The derived states, refreshed while nothing is received: the MAC only records the news.\<close>

definition refreshed :: "'z mac_scheme \<Rightarrow> 'z mac_scheme \<Rightarrow> bool" where
  "refreshed w w' \<longleftrightarrow>
     same_mac w w' \<and> same_radio w w' \<and> mac_receptionState w' \<noteq> RECEPTION_STATE_RECEIVING
     \<and> receptionState w' \<noteq> RECEPTION_STATE_RECEIVING
     \<and> transmissionState w' = newTransmissionState w
     \<and> mac_transmissionState w' = (if transmissionState w = newTransmissionState w then mac_transmissionState w
                                   else newTransmissionState w)"

lemma updateTransceiver_quiet:
  assumes rt: "receptionTimer w = None" and mrs: "mac_receptionState w \<noteq> RECEPTION_STATE_RECEIVING"
    and settled: "mac_settled w"
    and ts: "mac_transmissionState w \<noteq> TRANSMISSION_STATE_TRANSMITTING \<or> newTransmissionState w \<noteq> TRANSMISSION_STATE_IDLE"
  shows "\<exists>w'. updateTransceiver env (mac_receiveSignal (Suc k) setMode) w = Inr w' \<and> refreshed w w'"
proof -
  let ?emit = "mac_receiveSignal (Suc k) setMode"
  let ?rs = "newReceptionState env w"
  have rs: "?rs \<noteq> RECEPTION_STATE_RECEIVING"
    using rt by (simp add: newReceptionState_def receptionTimerScheduled_def)
  let ?w1 = "if receptionState w \<noteq> ?rs then w\<lparr>receptionState := ?rs, mac_receptionState := ?rs\<rparr> else w"
  have 1: "(if receptionState w \<noteq> ?rs then ?emit (ReceptionStateChanged ?rs) (w\<lparr>receptionState := ?rs\<rparr>) else Inr w) = Inr ?w1"
    using mrs settled rs by (simp add: mac_receiveSignal_quiet mac_settled_def)
  let ?ts = "newTransmissionState ?w1"
  have ts1: "?ts = newTransmissionState w" by (simp add: newTransmissionState_def)
  let ?w2 = "if transmissionState ?w1 \<noteq> ?ts then ?w1\<lparr>transmissionState := ?ts, mac_transmissionState := ?ts\<rparr> else ?w1"
  have 2: "(if transmissionState ?w1 \<noteq> ?ts then ?emit (TransmissionStateChanged ?ts) (?w1\<lparr>transmissionState := ?ts\<rparr>) else Inr ?w1) = Inr ?w2"
    using ts ts1 by (simp add: mac_receiveSignal_quiet)
  let ?p = "newReceivedPart ?w2"
  let ?w3 = "if receivedSignalPart ?w2 \<noteq> ?p then ?w2\<lparr>receivedSignalPart := ?p\<rparr> else ?w2"
  let ?q = "newTransmittedPart ?w3"
  let ?w4 = "if transmittedSignalPart ?w3 \<noteq> ?q then ?w3\<lparr>transmittedSignalPart := ?q\<rparr> else ?w3"
  have 3: "updateTransceiverPart ?emit ?w2 = Inr ?w4"
    unfolding updateTransceiverPart_def Let_def mac_receiveSignal_quiet if_distrib [of Inr, symmetric] andThen_simps ..
  have "updateTransceiver env ?emit w = Inr ?w4"
    unfolding updateTransceiver_def updateTransceiverState_def Let_def 1 andThen_simps 2 3 ..
  moreover have "refreshed w ?w4"
    using rs mrs ts1 by (simp add: refreshed_def same_mac_def same_radio_def)
  ultimately show ?thesis by blast
qed

text \<open>What a caller of \<open>setRadioMode\<close> sees of the switch.\<close>

definition mode_switched :: "radio_mode \<Rightarrow> 'z mac_scheme \<Rightarrow> 'z mac_scheme \<Rightarrow> bool" where
  "mode_switched m w w' \<longleftrightarrow>
     nic_ready w' \<and> same_mac w w' \<and> radioMode w' = m
     \<and> receptionTimers w' = receptionTimers w \<and> nextTimer w' = nextTimer w
     \<and> separateTransmissionParts w' = separateTransmissionParts w
     \<and> separateReceptionParts w' = separateReceptionParts w \<and> radioSentUp w' = radioSentUp w
     \<and> (mac_transmissionState w \<noteq> TRANSMISSION_STATE_TRANSMITTING \<longrightarrow>
          mac_transmissionState w' \<noteq> TRANSMISSION_STATE_TRANSMITTING)"

text \<open>What sending a frame leaves alone.\<close>

definition mac_phase_kept :: "'z mac_scheme \<Rightarrow> 'z mac_scheme \<Rightarrow> bool" where
  "mac_phase_kept w w' \<longleftrightarrow>
     address w' = address w
     \<and> waitDelay1Time w' = waitDelay1Time w \<and> listening1Time w' = listening1Time w
     \<and> waitDelay2Time w' = waitDelay2Time w \<and> listening2Time w' = listening2Time w
     \<and> endDelay_1 w' = endDelay_1 w \<and> endListening_1 w' = endListening_1 w
     \<and> endDelay_2 w' = endDelay_2 w \<and> endListening_2 w' = endListening_2 w
     \<and> numSent w' = numSent w \<and> numReceived w' = numReceived w \<and> macSentUp w' = macSentUp w
     \<and> receptionTimers w' = receptionTimers w \<and> simTime w' = simTime w
     \<and> separateTransmissionParts w' = separateTransmissionParts w"

definition class_a_mode :: "radio_mode \<Rightarrow> bool" where
  "class_a_mode m \<longleftrightarrow> m = RADIO_MODE_SLEEP \<or> m = RADIO_MODE_RECEIVER \<or> m = RADIO_MODE_TRANSMITTER"

lemma nic_setMode_ready:
  assumes ready: "nic_ready w" and m: "class_a_mode m"
    and ts: "m = RADIO_MODE_TRANSMITTER \<longrightarrow> mac_transmissionState w \<noteq> TRANSMISSION_STATE_TRANSMITTING"
  shows "\<exists>w'. nic_setMode env (Suc k) (Suc n) m w = Inr w' \<and> mode_switched m w w'"
proof (cases "m = radioMode w")
  case True
  have "nic_setMode env (Suc k) (Suc n) m w = Inr w"
    using ready m True by (auto simp: setRadioMode_def nic_ready_def radio_core_def class_a_mode_def)
  moreover have "mode_switched m w w" using ready True by (simp add: mode_switched_def same_mac_def)
  ultimately show ?thesis by blast
next
  case False
  let ?emit = "mac_receiveSignal (Suc k) (nic_setMode env (Suc k) n)"
  let ?w = "w\<lparr>radioMode := m, previousRadioMode := m, nextRadioMode := m\<rparr>"
  have core: "radio_core w" and none: "receptionTimer w = None" "transmissionTimer w = None"
    using ready by (simp_all add: nic_ready_def)
  have "nic_setMode env (Suc k) (Suc n) m w = completeRadioModeSwitch env ?emit m w"
    using core m False by (auto simp: setRadioMode_def Let_def radio_core_def class_a_mode_def)
  also have "\<dots> = updateTransceiver env ?emit ?w"
    by (simp add: completeRadioModeSwitch_def none mac_receiveSignal_quiet)
  finally have run: "nic_setMode env (Suc k) (Suc n) m w = updateTransceiver env ?emit ?w" .
  have nt: "newTransmissionState ?w = (if m = RADIO_MODE_TRANSMITTER then TRANSMISSION_STATE_IDLE else TRANSMISSION_STATE_UNDEFINED)"
    using m none by (auto simp: newTransmissionState_def class_a_mode_def)
  have "\<exists>w'. updateTransceiver env ?emit ?w = Inr w' \<and> refreshed ?w w'"
    by (rule updateTransceiver_quiet)
      (use ready ts nt in \<open>auto simp: nic_ready_def mac_settled_def split: if_splits\<close>)
  then obtain w' where w': "updateTransceiver env ?emit ?w = Inr w'" "refreshed ?w w'" by blast
  have core': "radio_core w'"
    using same_radio_core [of ?w w'] w'(2) core none m
    by (auto simp: refreshed_def radio_core_def class_a_mode_def)
  have nt': "newTransmissionState w' = newTransmissionState ?w"
    using w'(2) by (simp add: refreshed_def same_radio_def newTransmissionState_def)
  have sm: "same_mac w w'" using w'(2) by (simp add: refreshed_def same_mac_def)
  have "mode_switched m w w'"
    using w'(2) core' nt nt' sm same_mac_settled [OF sm] ready none
    by (auto simp: mode_switched_def nic_ready_def refreshed_def same_radio_def)
  with run w'(1) show ?thesis by auto
qed

subsection \<open>The service that the state machine of the MAC relies on\<close>

lemmas ready_defs = setFsm_def nic_ready_def radio_core_def newTransmissionState_def mac_settled_def class_a_mode_def
lemmas phase_defs = ready_defs mac_machine_def turnOnReceiver_def turnOffReceiver_def isUpperMessage_def

text \<open>
  From a ready state the radio can be put to sleep, opened for reception, or (unless a
  transmission is ending) made ready to transmit: the call returns and touches no MAC data.
\<close>

locale radio_service =
  fixes setMode :: "radio_mode \<Rightarrow> 'z mac_scheme \<Rightarrow> 'z mac_scheme result"
  assumes setMode_ready: "nic_ready w \<Longrightarrow> class_a_mode m \<Longrightarrow>
      (m = RADIO_MODE_TRANSMITTER \<longrightarrow> mac_transmissionState w \<noteq> TRANSMISSION_STATE_TRANSMITTING) \<Longrightarrow>
      \<exists>w'. setMode m w = Inr w' \<and> mode_switched m w w'"
begin

text \<open>A transition whose target's entry action switches the radio mode.\<close>

lemma enter_mode:
  assumes "nic_ready w" and "class_a_mode m" and "m \<noteq> RADIO_MODE_TRANSMITTER"
  obtains w' where "setMode m w = Inr w'" "mode_switched m w w'"
  using setMode_ready [OF assms(1,2)] assms(3) by blast

text \<open>A packet from above in \<open>IDLE\<close>.\<close>

lemma upper_packet:
  assumes ready: "nic_ready w" and idle: "fsm w = IDLE" and q: "transmissionQueue w = []"
    and ts: "mac_transmissionState w \<noteq> TRANSMISSION_STATE_TRANSMITTING"
  shows "\<exists>w'. mac_handleUpperPacket (Suc (Suc k)) setMode p c w = Inr w' \<and> nic_ready w'
    \<and> fsm w' = TRANSMIT \<and> radioMode w' = RADIO_MODE_TRANSMITTER
    \<and> transmissionQueue w' = [upper_frame w p c] \<and> sequenceNumber w' = sequenceNumber w + 1
    \<and> macSentDown w' = macSentDown w @ [(upper_frame w p c, data_ctrl (upper_frame w p c))]
    \<and> mac_transmissionState w' \<noteq> TRANSMISSION_STATE_TRANSMITTING
    \<and> mac_phase_kept w w'"
proof -
  let ?f = "upper_frame w p c"
  let ?w = "w\<lparr>sequenceNumber := sequenceNumber w + 1, transmissionQueue := [?f]\<rparr>"
  let ?v = "w\<lparr>sequenceNumber := sequenceNumber w + 1, transmissionQueue := [?f], fsm := TRANSMIT\<rparr>"
  have start: "mac_handleUpperPacket (Suc (Suc k)) setMode p c w = handleWithFsm (Suc (Suc k)) setMode (Msg_upper ?f) ?w"
    using idle q by (simp add: mac_handleUpperPacket_def Let_def)
  have rv: "nic_ready ?v"
    using ready by (simp add: nic_ready_def radio_core_def newTransmissionState_def mac_settled_def)
  from setMode_ready [OF rv, of RADIO_MODE_TRANSMITTER] ts
  obtain w1 where w1: "setMode RADIO_MODE_TRANSMITTER ?v = Inr w1" "mode_switched RADIO_MODE_TRANSMITTER ?v w1"
    by (auto simp: class_a_mode_def)
  let ?w' = "w1\<lparr>macSentDown := macSentDown w1 @ [(?f, data_ctrl ?f)]\<rparr>"
  have sd: "fsm w1 = TRANSMIT"
    using w1(2) by (simp add: mode_switched_def same_mac_def)
  have "handleWithFsm (Suc (Suc k)) setMode (Msg_upper ?f) ?w = Inr ?w'"
    unfolding handleWithFsm_def
    by (rule fsma_switch_fired [of _ _ _ _ ?v False])
      (simp_all add: mac_machine_def idle setFsm_def isUpperMessage_def getCurrentTransmission_def sendDataFrame_def w1(1) sd)
  moreover have "nic_ready ?w'"
    using w1(2) by (simp add: mode_switched_def nic_ready_def radio_core_def newTransmissionState_def mac_settled_def)
  ultimately show ?thesis
    using start w1(2) ts by (auto simp: mode_switched_def same_mac_def mac_phase_kept_def)
qed

text \<open>An event whose transition's target switches the radio mode on entry.\<close>

lemma fsm_phase:
  assumes fire: "exec_blocks fsm setFsm (mac_machine setMode msg) True w = Inr (Fired v)"
    and ready: "nic_ready v" and m: "class_a_mode m" "m \<noteq> RADIO_MODE_TRANSMITTER"
    and enter: "\<And>w'. setMode m v = Inr w' \<Longrightarrow> fsm w' = fsm v \<Longrightarrow>
       exec_blocks fsm setFsm (mac_machine setMode msg) False v = Inr (FellThrough False w')"
  shows "\<exists>w'. handleWithFsm (Suc (Suc k)) setMode msg w = Inr w' \<and> mode_switched m v w'"
proof -
  obtain w' where w': "setMode m v = Inr w'" "mode_switched m v w'"
    using enter_mode [OF ready m] .
  then have "fsm w' = fsm v" by (simp add: mode_switched_def same_mac_def)
  with fsma_switch_fired [OF fire enter [OF w'(1)]] w' show ?thesis by (auto simp: handleWithFsm_def)
qed

lemma window_1_opens:
  assumes "nic_ready w" and "fsm w = WAIT_DELAY_1" and "endListening_1 w \<noteq> None"
  shows "\<exists>w'. mac_handleSelfMessage (Suc (Suc k)) setMode Msg_endDelay_1 w = Inr w'
    \<and> mode_switched RADIO_MODE_RECEIVER (setFsm LISTENING_1 (w\<lparr>endDelay_1 := None\<rparr>)) w'"
  unfolding mac_handleSelfMessage_def
  by (rule fsm_phase) (use assms in \<open>auto simp: phase_defs\<close>)

lemma window_1_closes:
  assumes "nic_ready w" and "fsm w = LISTENING_1" and "endDelay_2 w \<noteq> None"
  shows "\<exists>w'. mac_handleSelfMessage (Suc (Suc k)) setMode Msg_endListening_1 w = Inr w'
    \<and> mode_switched RADIO_MODE_SLEEP (setFsm WAIT_DELAY_2 (w\<lparr>endListening_1 := None\<rparr>)) w'"
  unfolding mac_handleSelfMessage_def
  by (rule fsm_phase) (use assms in \<open>auto simp: phase_defs\<close>)

lemma window_2_opens:
  assumes "nic_ready w" and "fsm w = WAIT_DELAY_2" and "endListening_2 w \<noteq> None"
  shows "\<exists>w'. mac_handleSelfMessage (Suc (Suc k)) setMode Msg_endDelay_2 w = Inr w'
    \<and> mode_switched RADIO_MODE_RECEIVER (setFsm LISTENING_2 (w\<lparr>endDelay_2 := None\<rparr>)) w'"
  unfolding mac_handleSelfMessage_def
  by (rule fsm_phase) (use assms in \<open>auto simp: phase_defs\<close>)

lemma window_2_closes:
  assumes "nic_ready w" and "fsm w = LISTENING_2"
  shows "\<exists>w'. mac_handleSelfMessage (Suc (Suc k)) setMode Msg_endListening_2 w = Inr w'
    \<and> mode_switched RADIO_MODE_SLEEP (setFsm IDLE (w\<lparr>endListening_2 := None\<rparr>)) w'"
proof -
  have "\<exists>w'. handleWithFsm (Suc (Suc k)) setMode Msg_endListening_2 (w\<lparr>endListening_2 := None\<rparr>) = Inr w'
    \<and> mode_switched RADIO_MODE_SLEEP (setFsm IDLE (w\<lparr>endListening_2 := None\<rparr>)) w'"
    by (rule fsm_phase) (use assms in \<open>auto simp: phase_defs\<close>)
  then show ?thesis by (simp add: mac_handleSelfMessage_def)
qed

end

text \<open>The state that the end of the transmission enters, with the four timers of the windows.\<close>

definition windows_scheduled :: "'z mac_scheme \<Rightarrow> 'z mac_scheme" where
  "windows_scheduled w =
     w\<lparr>fsm := WAIT_DELAY_1,
       endDelay_1 := Some (simTime w + waitDelay1Time w),
       endListening_1 := Some (simTime w + waitDelay1Time w + listening1Time w),
       endDelay_2 := Some (simTime w + waitDelay1Time w + listening1Time w + waitDelay2Time w),
       endListening_2 := Some (simTime w + waitDelay1Time w + listening1Time w + waitDelay2Time w + listening2Time w),
       transmissionQueue := tl (transmissionQueue w), numSent := numSent w + 1\<rparr>"

context radio_service
begin

lemma transmission_ends:
  assumes ready: "nic_ready w" and fsm: "fsm w = TRANSMIT" and inv: "mac_inv w"
  shows "\<exists>w'. handleWithFsm (Suc (Suc k)) setMode Msg_endTransmission w = Inr w'
    \<and> mode_switched RADIO_MODE_SLEEP (windows_scheduled w) w'"
proof -
  from inv fsm obtain f where q: "transmissionQueue w = [f]" by (auto simp: mac_inv_def length_Suc_conv)
  from inv fsm have t: "endDelay_1 w = None" "endListening_1 w = None" "endDelay_2 w = None" "endListening_2 w = None"
    by (auto simp: mac_inv_def mac_timers_ok_def)
  show ?thesis
  proof (rule fsm_phase)
    show "exec_blocks fsm setFsm (mac_machine setMode Msg_endTransmission) True w = Inr (Fired (windows_scheduled w))"
      using fsm q t by (simp add: mac_machine_def finishCurrentTransmission_def popTransmissionQueue_def setFsm_def
          windows_scheduled_def)
  qed (use ready in \<open>auto simp: phase_defs windows_scheduled_def\<close>)
qed

end

interpretation nic_service: radio_service "nic_setMode env (Suc c_maxt) (Suc n)" for env c_maxt n
  by unfold_locales (rule nic_setMode_ready)

subsection \<open>The phases on the whole interface\<close>

text \<open>A radio that sends: the state between the start and the end of a transmission.\<close>

definition nic_transmitting :: "radio_frame \<Rightarrow> 'z mac_scheme \<Rightarrow> bool" where
  "nic_transmitting rf w \<longleftrightarrow>
     radio_core w \<and> mac_inv w \<and> fsm w = TRANSMIT \<and> radioMode w = RADIO_MODE_TRANSMITTER
     \<and> receptionTimer w = None \<and> mac_receptionState w \<noteq> RECEPTION_STATE_RECEIVING
     \<and> receptionState w \<noteq> RECEPTION_STATE_RECEIVING
     \<and> transmissionTimerKind w = SIGNAL_PART_WHOLE \<and> transmissionFrame w = Some rf
     \<and> transmissionTimer w = Some (rf_endTime rf SIGNAL_PART_WHOLE)
     \<and> transmissionState w = TRANSMISSION_STATE_TRANSMITTING
     \<and> mac_transmissionState w = TRANSMISSION_STATE_TRANSMITTING"

lemma nic_transmission_start:
  assumes ready: "nic_ready w" and inv: "mac_inv w" and mode: "radioMode w = RADIO_MODE_TRANSMITTER"
    and fsm: "fsm w = TRANSMIT" and whole: "\<not> separateTransmissionParts w"
    and ts: "mac_transmissionState w \<noteq> TRANSMISSION_STATE_TRANSMITTING"
  shows "\<exists>w'. nic_step env (Suc k) n (NicRadio (RadioUpperPacket f)) w = Inr w' \<and> same_mac w w'
    \<and> nic_transmitting (env_transmitPacket env f w) w' \<and> currentTxPower w' = frameLoRaTP f
    \<and> separateTransmissionParts w' = separateTransmissionParts w"
proof -
  let ?rf = "env_transmitPacket env f w"
  let ?w = "w\<lparr>currentTxPower := frameLoRaTP f, transmissionTimerKind := SIGNAL_PART_WHOLE,
              transmissionFrame := Some ?rf, transmissionTimer := Some (rf_endTime ?rf SIGNAL_PART_WHOLE)\<rparr>"
  have none: "transmissionTimer w = None" "receptionTimer w = None" using ready by (simp_all add: nic_ready_def)
  have run: "nic_step env (Suc k) n (NicRadio (RadioUpperPacket f)) w
      = updateTransceiver env (mac_receiveSignal (Suc k) (nic_setMode env (Suc k) n)) ?w"
    using mode whole none
    by (simp add: nic_step_def radio_step_def radio_handleUpperPacket_def nic_emit_def mac_receiveSignal_quiet
        isTransmitterMode_def startTransmission_def Let_def)
  have nt: "newTransmissionState ?w = TRANSMISSION_STATE_TRANSMITTING" "newTransmissionState w = TRANSMISSION_STATE_IDLE"
    using mode none by (simp_all add: newTransmissionState_def)
  have "\<exists>w'. updateTransceiver env (mac_receiveSignal (Suc k) (nic_setMode env (Suc k) n)) ?w = Inr w' \<and> refreshed ?w w'"
    by (rule updateTransceiver_quiet) (use ready ts nt in \<open>auto simp: nic_ready_def mac_settled_def\<close>)
  then obtain w' where w': "updateTransceiver env (mac_receiveSignal (Suc k) (nic_setMode env (Suc k) n)) ?w = Inr w'"
    "refreshed ?w w'" by blast
  have sm: "same_mac w w'" using w'(2) by (simp add: refreshed_def same_mac_def)
  have "radio_core ?w" using ready mode by (simp add: nic_ready_def radio_core_def isTransmitterMode_def)
  then have core: "radio_core w'" using w'(2) same_radio_core [of ?w w'] by (simp add: refreshed_def)
  have inv': "mac_inv w'" using inv sm by (simp add: mac_inv_def mac_timers_ok_def same_mac_def)
  have "nic_transmitting ?rf w'"
    using w'(2) core inv' nt ready mode fsm
    by (auto simp: nic_transmitting_def refreshed_def same_radio_def same_mac_def nic_ready_def)
  moreover have "separateTransmissionParts w' = separateTransmissionParts w"
    using w'(2) by (simp add: refreshed_def same_radio_def)
  moreover have "currentTxPower w' = frameLoRaTP f"
    using w'(2) by (simp add: refreshed_def same_radio_def)
  ultimately show ?thesis using run w'(1) sm by auto
qed

lemma mac_receiveSignal_txEnd:
  assumes "mac_transmissionState w = TRANSMISSION_STATE_TRANSMITTING"
    and "handleWithFsm FSM_MAXT setMode Msg_endTransmission w = Inr w1" and "setMode RADIO_MODE_SLEEP w1 = Inr w2"
  shows "mac_receiveSignal FSM_MAXT setMode (TransmissionStateChanged TRANSMISSION_STATE_IDLE) w
    = Inr (w2\<lparr>mac_transmissionState := TRANSMISSION_STATE_IDLE\<rparr>)"
  using assms by (simp add: mac_receiveSignal_def)

text \<open>
  The transmission timer fires: the radio reports the end to the MAC from inside
  \<open>updateTransceiverState\<close>, and the MAC puts the radio to sleep before that call returns.
\<close>

lemma nic_transmission_end:
  assumes tx: "nic_transmitting rf w" and now: "simTime w = rf_endTime rf SIGNAL_PART_WHOLE"
  shows "\<exists>w'. nic_step env (Suc (Suc k)) (Suc n) (NicRadio RadioTransmissionTimer) w = Inr w' \<and> nic_ready w'
    \<and> radioMode w' = RADIO_MODE_SLEEP \<and> same_mac (windows_scheduled w) w'
    \<and> mac_transmissionState w' = TRANSMISSION_STATE_IDLE
    \<and> separateTransmissionParts w' = separateTransmissionParts w"
proof -
  let ?emit = "mac_receiveSignal (Suc (Suc k)) (nic_setMode env (Suc (Suc k)) (Suc n))"
  let ?w = "w\<lparr>transmissionTimer := None, transmissionFrame := None\<rparr>"
  let ?w1 = "if receptionState ?w \<noteq> RECEPTION_STATE_UNDEFINED
             then ?w\<lparr>receptionState := RECEPTION_STATE_UNDEFINED, mac_receptionState := RECEPTION_STATE_UNDEFINED\<rparr> else ?w"
  let ?w2 = "?w1\<lparr>transmissionState := TRANSMISSION_STATE_IDLE\<rparr>"
  note tx_defs = nic_transmitting_def newReceptionState_def newTransmissionState_def
  have run: "nic_step env (Suc (Suc k)) (Suc n) (NicRadio RadioTransmissionTimer) w = updateTransceiver env ?emit ?w"
    using tx by (simp add: nic_step_def radio_step_def handleTransmissionTimer_def endTransmission_def nic_emit_def
        nic_transmitting_def Let_def)
  have rs: "newReceptionState env ?w = RECEPTION_STATE_UNDEFINED" using tx by (simp add: tx_defs)
  have 1: "(if receptionState ?w \<noteq> newReceptionState env ?w
            then ?emit (ReceptionStateChanged (newReceptionState env ?w)) (?w\<lparr>receptionState := newReceptionState env ?w\<rparr>)
            else Inr ?w) = Inr ?w1"
    unfolding rs using tx by (simp add: mac_receiveSignal_quiet mac_settled_def nic_transmitting_def)
  have nt: "newTransmissionState ?w1 = TRANSMISSION_STATE_IDLE" using tx by (simp add: tx_defs)
  have r2: "nic_ready ?w2" "mac_inv ?w2" "fsm ?w2 = TRANSMIT"
    using tx by (simp_all add: nic_ready_def radio_core_def mac_settled_def tx_defs frame_simps)
  from nic_service.transmission_ends [OF r2(1,3,2), where k = k and env = env and c_maxt = "Suc k" and n = n] obtain w3 where
    w3: "handleWithFsm (Suc (Suc k)) (nic_setMode env (Suc (Suc k)) (Suc n)) Msg_endTransmission ?w2 = Inr w3"
    "mode_switched RADIO_MODE_SLEEP (windows_scheduled ?w2) w3" by auto
  have again: "nic_setMode env (Suc (Suc k)) (Suc n) RADIO_MODE_SLEEP w3 = Inr w3"
    using w3(2) by (auto simp: mode_switched_def setRadioMode_def nic_ready_def radio_core_def)
  let ?w4 = "w3\<lparr>mac_transmissionState := TRANSMISSION_STATE_IDLE\<rparr>"
  have 2: "(if transmissionState ?w1 \<noteq> newTransmissionState ?w1
            then ?emit (TransmissionStateChanged (newTransmissionState ?w1)) (?w1\<lparr>transmissionState := newTransmissionState ?w1\<rparr>)
            else Inr ?w1) = Inr ?w4"
  proof -
    have c: "transmissionState ?w1 \<noteq> TRANSMISSION_STATE_IDLE" "mac_transmissionState ?w2 = TRANSMISSION_STATE_TRANSMITTING"
      using tx by (simp_all add: nic_transmitting_def)
    show ?thesis unfolding nt by (subst if_P [OF c(1)]) (rule mac_receiveSignal_txEnd [OF c(2) w3(1) again])
  qed
  let ?p = "newReceivedPart ?w4"
  let ?w5 = "if receivedSignalPart ?w4 \<noteq> ?p then ?w4\<lparr>receivedSignalPart := ?p\<rparr> else ?w4"
  let ?q = "newTransmittedPart ?w5"
  let ?w6 = "if transmittedSignalPart ?w5 \<noteq> ?q then ?w5\<lparr>transmittedSignalPart := ?q\<rparr> else ?w5"
  have 3: "updateTransceiverPart ?emit ?w4 = Inr ?w6"
    unfolding updateTransceiverPart_def Let_def mac_receiveSignal_quiet if_distrib [of Inr, symmetric] andThen_simps ..
  have "updateTransceiver env ?emit ?w = Inr ?w6"
    unfolding updateTransceiver_def updateTransceiverState_def Let_def 1 andThen_simps 2 3 ..
  moreover have "nic_ready ?w6"
    using w3(2) by (simp add: mode_switched_def nic_ready_def radio_core_def newTransmissionState_def mac_settled_def)
  moreover have "same_mac (windows_scheduled w) ?w6"
    using w3(2) by (simp add: mode_switched_def same_mac_def windows_scheduled_def)
  ultimately show ?thesis
    using run w3(2) by (auto simp: mode_switched_def windows_scheduled_def)
qed

subsection \<open>The cycle\<close>

text \<open>The end device at rest between two cycles, with the receive windows of class A.\<close>

definition class_a_idle :: "'z mac_scheme \<Rightarrow> bool" where
  "class_a_idle w \<longleftrightarrow>
     nic_ready w \<and> mac_inv w \<and> fsm w = IDLE \<and> radioMode w = RADIO_MODE_SLEEP
     \<and> mac_transmissionState w \<noteq> TRANSMISSION_STATE_TRANSMITTING \<and> \<not> separateTransmissionParts w
     \<and> waitDelay1Time w = 1 \<and> listening1Time w = 1 \<and> waitDelay2Time w = 1 \<and> listening2Time w = 1"

text \<open>An event runs when the kernel can deliver it in the state reached.\<close>

definition nic_exec ::
  "'z mac_scheme radio_env \<Rightarrow> nat \<Rightarrow> nat \<Rightarrow> nic_event \<Rightarrow> 'z mac_scheme \<Rightarrow> 'z mac_scheme result" where
  "nic_exec env FSM_MAXT n ev w =
     (if nic_event_possible ev w then nic_step env FSM_MAXT n ev w
      else Inl (RuntimeError ''the kernel does not deliver this event''))"

lemma nic_exec_inv: "mac_inv w \<Longrightarrow> nic_exec env FSM_MAXT n ev w = Inr w' \<Longrightarrow> mac_inv w'"
  by (auto simp: nic_exec_def split: if_splits dest: ensuresD [OF nic_step_inv])

text \<open>A state of the cycle between two phases: the phase, the mode of the radio, and the time.\<close>

definition class_a_phase :: "mac_state \<Rightarrow> radio_mode \<Rightarrow> simtime \<Rightarrow> 'z mac_scheme \<Rightarrow> bool" where
  "class_a_phase s m t w \<longleftrightarrow> nic_ready w \<and> mac_inv w \<and> fsm w = s \<and> radioMode w = m \<and> simTime w = t"

lemma nic_run_inv: "foldR (nic_exec env K N) evs v = Inr v' \<Longrightarrow> mac_inv v \<Longrightarrow> mac_inv v'"
  by (rule foldR_invariant [where P = mac_inv]) (rule nic_exec_inv)

lemma nic_exec_run: "nic_exec env K N ev v = Inr v' \<Longrightarrow> foldR (nic_exec env K N) [ev] v = Inr v'"
  by simp

lemma nic_time_core: "radio_core (w\<lparr>simTime := t\<rparr>) = radio_core w"
  by (simp add: radio_core_def)

lemma uplink_runs:
  assumes idle: "class_a_idle w" and later: "simTime w \<le> e"
    and airtime: "\<forall>v. simTime v = simTime w \<longrightarrow>
       rf_endTime (env_transmitPacket env (upper_frame w p c) v) SIGNAL_PART_WHOLE = e"
  shows "\<exists>w1 w2 w3. nic_exec env (Suc (Suc k)) (Suc n) (NicUpperPacket p c) w = Inr w1
    \<and> class_a_phase TRANSMIT RADIO_MODE_TRANSMITTER (simTime w) w1
    \<and> macSentDown w1 = macSentDown w @ [(upper_frame w p c, data_ctrl (upper_frame w p c))]
    \<and> nic_exec env (Suc (Suc k)) (Suc n) (NicRadio (RadioUpperPacket (upper_frame w p c))) w1 = Inr w2
    \<and> nic_transmitting (env_transmitPacket env (upper_frame w p c) w1) w2 \<and> transmissionTimer w2 = Some e
    \<and> foldR (nic_exec env (Suc (Suc k)) (Suc n)) [NicTime e, NicRadio RadioTransmissionTimer] w2 = Inr w3
    \<and> class_a_phase WAIT_DELAY_1 RADIO_MODE_SLEEP e w3
    \<and> mac_transmissionState w3 \<noteq> TRANSMISSION_STATE_TRANSMITTING \<and> \<not> separateTransmissionParts w3
    \<and> waitDelay1Time w3 = 1 \<and> listening1Time w3 = 1 \<and> waitDelay2Time w3 = 1 \<and> listening2Time w3 = 1
    \<and> endDelay_1 w3 = Some (e + 1) \<and> endListening_1 w3 = Some (e + 2)
    \<and> endDelay_2 w3 = Some (e + 3) \<and> endListening_2 w3 = Some (e + 4)
    \<and> sequenceNumber w3 = sequenceNumber w + 1 \<and> address w3 = address w \<and> macSentUp w3 = macSentUp w
    \<and> macSentDown w3 = macSentDown w @ [(upper_frame w p c, data_ctrl (upper_frame w p c))]"
proof -
  let ?f = "upper_frame w p c"
  let ?K = "Suc (Suc k)"
  have q: "transmissionQueue w = []" using idle by (clarsimp simp: class_a_idle_def mac_inv_def)
  from nic_service.upper_packet [where w = w and p = p and c = c and k = k and env = env and c_maxt = "Suc k" and n = n] idle q obtain w1 where
    w1: "mac_handleUpperPacket ?K (nic_setMode env ?K (Suc n)) p c w = Inr w1" "nic_ready w1"
    "fsm w1 = TRANSMIT" "radioMode w1 = RADIO_MODE_TRANSMITTER" "sequenceNumber w1 = sequenceNumber w + 1"
    "macSentDown w1 = macSentDown w @ [(?f, data_ctrl ?f)]"
    "mac_transmissionState w1 \<noteq> TRANSMISSION_STATE_TRANSMITTING" "mac_phase_kept w w1"
    by (auto simp: class_a_idle_def)
  have e1: "nic_exec env ?K (Suc n) (NicUpperPacket p c) w = Inr w1"
    using w1(1) by (simp add: nic_exec_def nic_event_possible_def nic_step_def)
  have i1: "mac_inv w1" using nic_exec_inv [OF _ e1] idle by (simp add: class_a_idle_def)
  have s1: "\<not> separateTransmissionParts w1" using w1(8) idle by (simp add: mac_phase_kept_def class_a_idle_def)
  let ?rf = "env_transmitPacket env ?f w1"
  from nic_transmission_start [OF w1(2) i1 w1(4,3) s1 w1(7), of env "Suc k" "Suc n" ?f] obtain w2 where
    w2: "nic_step env ?K (Suc n) (NicRadio (RadioUpperPacket ?f)) w1 = Inr w2" "same_mac w1 w2" "nic_transmitting ?rf w2"
    "separateTransmissionParts w2 = separateTransmissionParts w1" by blast
  have e2: "nic_exec env ?K (Suc n) (NicRadio (RadioUpperPacket ?f)) w1 = Inr w2"
    using w2(1) by (simp add: nic_exec_def nic_event_possible_def radio_event_possible_def)
  let ?w3 = "w2\<lparr>simTime := e\<rparr>"
  have t: "simTime w1 = simTime w" "simTime w2 = simTime w"
    using w1(8) w2(2) by (simp_all add: mac_phase_kept_def same_mac_def)
  have fin: "rf_endTime ?rf SIGNAL_PART_WHOLE = e" using airtime t by simp
  have e3: "nic_exec env ?K (Suc n) (NicTime e) w2 = Inr ?w3"
    using later t fin w2(2,3) i1 w1(3)
    by (simp add: nic_exec_def nic_event_possible_def nic_step_def pending_timers_def nic_transmitting_def
        same_mac_def mac_inv_def mac_timers_ok_def)
  have tx: "nic_transmitting ?rf ?w3"
    using w2(3) by (simp add: nic_transmitting_def nic_time_core frame_simps)
  from nic_transmission_end [OF tx, of env k n] fin obtain w4 where
    w4: "nic_step env ?K (Suc n) (NicRadio RadioTransmissionTimer) ?w3 = Inr w4" "nic_ready w4"
    "radioMode w4 = RADIO_MODE_SLEEP" "same_mac (windows_scheduled ?w3) w4"
    "mac_transmissionState w4 = TRANSMISSION_STATE_IDLE" "separateTransmissionParts w4 = separateTransmissionParts ?w3"
    by auto
  have e4: "nic_exec env ?K (Suc n) (NicRadio RadioTransmissionTimer) ?w3 = Inr w4"
    using w4(1) tx fin by (simp add: nic_exec_def nic_event_possible_def radio_event_possible_def nic_transmitting_def)
  have i4: "mac_inv w4" using nic_exec_inv [OF _ e4] tx by (simp add: nic_transmitting_def)
  have run: "foldR (nic_exec env ?K (Suc n)) [NicTime e, NicRadio RadioTransmissionTimer] w2 = Inr w4"
    by (simp add: e3 e4)
  have p1: "class_a_phase TRANSMIT RADIO_MODE_TRANSMITTER (simTime w) w1"
    using w1(2-4) i1 t(1) by (simp add: class_a_phase_def)
  have p4: "class_a_phase WAIT_DELAY_1 RADIO_MODE_SLEEP e w4"
    using w4(2-4) i4 by (simp add: class_a_phase_def same_mac_def windows_scheduled_def)
  have timer: "transmissionTimer w2 = Some e" using w2(3) fin by (simp add: nic_transmitting_def)
  have "waitDelay1Time w = 1" "listening1Time w = 1" "waitDelay2Time w = 1" "listening2Time w = 1"
    using idle by (simp_all add: class_a_idle_def)
  then show ?thesis
    using e1 p1 w1(6) e2 w2(3) timer run p4 w4 w2(2,4) w1(5,8) s1
    by (intro exI [of _ w1] exI [of _ w2] exI [of _ w4]) (simp add: same_mac_def windows_scheduled_def mac_phase_kept_def)
qed

lemma nic_ready_time: "nic_ready (v\<lparr>simTime := t\<rparr>) = nic_ready v"
  by (simp add: nic_ready_def radio_core_def newTransmissionState_def mac_settled_def)

lemma mac_inv_idle: "mac_inv w \<Longrightarrow> fsm w = IDLE \<Longrightarrow> numSent w = sequenceNumber w"
  by (auto simp: mac_inv_def)

text \<open>The clock moves to the next timer of the MAC, and the timer fires.\<close>

lemma nic_wait_timer:
  assumes "nic_event_possible (NicTime t) v" and "msg_due msg (v\<lparr>simTime := t\<rparr>)"
    and "mac_handleSelfMessage K (nic_setMode env K N) msg (v\<lparr>simTime := t\<rparr>) = Inr v'"
  shows "foldR (nic_exec env K N) [NicTime t, NicSelfMessage msg] v = Inr v'"
proof -
  have "nic_exec env K N (NicTime t) v = Inr (v\<lparr>simTime := t\<rparr>)"
    using assms(1) by (simp add: nic_exec_def nic_step_def)
  moreover have "nic_exec env K N (NicSelfMessage msg) (v\<lparr>simTime := t\<rparr>) = Inr v'"
    using assms(2,3) by (simp add: nic_exec_def nic_event_possible_def nic_step_def)
  ultimately show ?thesis by simp
qed

lemma windows_run:
  assumes "nic_ready w" "mac_inv w" "fsm w = WAIT_DELAY_1" "simTime w = e"
    and t: "endDelay_1 w = Some (e + 1)" "endListening_1 w = Some (e + 2)"
      "endDelay_2 w = Some (e + 3)" "endListening_2 w = Some (e + 4)"
  shows "\<exists>w1 w2 w3 w4. let run = foldR (nic_exec env (Suc (Suc k)) (Suc n)) in
      run [NicTime (e + 1), NicSelfMessage Msg_endDelay_1] w = Inr w1 \<and> class_a_phase LISTENING_1 RADIO_MODE_RECEIVER (e + 1) w1
    \<and> run [NicTime (e + 2), NicSelfMessage Msg_endListening_1] w1 = Inr w2 \<and> class_a_phase WAIT_DELAY_2 RADIO_MODE_SLEEP (e + 2) w2
    \<and> run [NicTime (e + 3), NicSelfMessage Msg_endDelay_2] w2 = Inr w3 \<and> class_a_phase LISTENING_2 RADIO_MODE_RECEIVER (e + 3) w3
    \<and> run [NicTime (e + 4), NicSelfMessage Msg_endListening_2] w3 = Inr w4
    \<and> mode_switched RADIO_MODE_SLEEP (w\<lparr>fsm := IDLE, simTime := e + 4, endDelay_1 := None, endListening_1 := None,
        endDelay_2 := None, endListening_2 := None\<rparr>) w4 \<and> mac_inv w4"
proof -
  let ?K = "Suc (Suc k)"
  let ?S = "nic_setMode env ?K (Suc n)"
  note defs = mode_switched_def same_mac_def setFsm_def msg_due_def
  obtain w1 where w1: "mac_handleSelfMessage ?K ?S Msg_endDelay_1 (w\<lparr>simTime := e + 1\<rparr>) = Inr w1"
    "mode_switched RADIO_MODE_RECEIVER (setFsm LISTENING_1 ((w\<lparr>simTime := e + 1\<rparr>)\<lparr>endDelay_1 := None\<rparr>)) w1"
    using nic_service.window_1_opens [where w = "w\<lparr>simTime := e + 1\<rparr>" and k = k and env = env and c_maxt = "Suc k" and n = n] assms by (auto simp: nic_ready_time)
  obtain w2 where w2: "mac_handleSelfMessage ?K ?S Msg_endListening_1 (w1\<lparr>simTime := e + 2\<rparr>) = Inr w2"
    "mode_switched RADIO_MODE_SLEEP (setFsm WAIT_DELAY_2 ((w1\<lparr>simTime := e + 2\<rparr>)\<lparr>endListening_1 := None\<rparr>)) w2"
    using nic_service.window_1_closes [where w = "w1\<lparr>simTime := e + 2\<rparr>" and k = k and env = env and c_maxt = "Suc k" and n = n] w1(2) t
    by (auto simp: nic_ready_time defs)
  obtain w3 where w3: "mac_handleSelfMessage ?K ?S Msg_endDelay_2 (w2\<lparr>simTime := e + 3\<rparr>) = Inr w3"
    "mode_switched RADIO_MODE_RECEIVER (setFsm LISTENING_2 ((w2\<lparr>simTime := e + 3\<rparr>)\<lparr>endDelay_2 := None\<rparr>)) w3"
    using nic_service.window_2_opens [where w = "w2\<lparr>simTime := e + 3\<rparr>" and k = k and env = env and c_maxt = "Suc k" and n = n] w1(2) w2(2) t
    by (auto simp: nic_ready_time defs)
  obtain w4 where w4: "mac_handleSelfMessage ?K ?S Msg_endListening_2 (w3\<lparr>simTime := e + 4\<rparr>) = Inr w4"
    "mode_switched RADIO_MODE_SLEEP (setFsm IDLE ((w3\<lparr>simTime := e + 4\<rparr>)\<lparr>endListening_2 := None\<rparr>)) w4"
    using nic_service.window_2_closes [where w = "w3\<lparr>simTime := e + 4\<rparr>" and k = k and env = env and c_maxt = "Suc k" and n = n] w3(2)
    by (auto simp: nic_ready_time defs)
  let ?run = "foldR (nic_exec env ?K (Suc n))"
  have t1: "simTime w1 = e + 1" "endDelay_1 w1 = None" "endListening_1 w1 = Some (e + 2)" "endDelay_2 w1 = Some (e + 3)"
    "endListening_2 w1 = Some (e + 4)" "transmissionTimer w1 = None"
    using w1(2) t by (simp_all add: defs nic_ready_def)
  have t2: "simTime w2 = e + 2" "endDelay_1 w2 = None" "endListening_1 w2 = None" "endDelay_2 w2 = Some (e + 3)"
    "endListening_2 w2 = Some (e + 4)" "transmissionTimer w2 = None"
    using w2(2) t1 by (simp_all add: defs nic_ready_def)
  have t3: "simTime w3 = e + 3" "endDelay_1 w3 = None" "endListening_1 w3 = None" "endDelay_2 w3 = None"
    "endListening_2 w3 = Some (e + 4)" "transmissionTimer w3 = None"
    using w3(2) t2 by (simp_all add: defs nic_ready_def)
  note due = nic_event_possible_def pending_timers_def msg_due_def
  have r1: "?run [NicTime (e + 1), NicSelfMessage Msg_endDelay_1] w = Inr w1"
    by (rule nic_wait_timer [OF _ _ w1(1)]) (use t assms(1,4) in \<open>simp_all add: due nic_ready_def\<close>)
  have r2: "?run [NicTime (e + 2), NicSelfMessage Msg_endListening_1] w1 = Inr w2"
    by (rule nic_wait_timer [OF _ _ w2(1)]) (use t1 in \<open>simp_all add: due\<close>)
  have r3: "?run [NicTime (e + 3), NicSelfMessage Msg_endDelay_2] w2 = Inr w3"
    by (rule nic_wait_timer [OF _ _ w3(1)]) (use t2 in \<open>simp_all add: due\<close>)
  have r4: "?run [NicTime (e + 4), NicSelfMessage Msg_endListening_2] w3 = Inr w4"
    by (rule nic_wait_timer [OF _ _ w4(1)]) (use t3 in \<open>simp_all add: due\<close>)
  note i1 = nic_run_inv [OF r1 assms(2)]
  note i2 = nic_run_inv [OF r2 i1]
  note i3 = nic_run_inv [OF r3 i2]
  note i4 = nic_run_inv [OF r4 i3]
  have p: "class_a_phase LISTENING_1 RADIO_MODE_RECEIVER (e + 1) w1" "class_a_phase WAIT_DELAY_2 RADIO_MODE_SLEEP (e + 2) w2"
    "class_a_phase LISTENING_2 RADIO_MODE_RECEIVER (e + 3) w3"
    using i1 i2 i3 w1(2) w2(2) w3(2) by (simp_all add: class_a_phase_def defs)
  have "mode_switched RADIO_MODE_SLEEP (w\<lparr>fsm := IDLE, simTime := e + 4, endDelay_1 := None, endListening_1 := None,
        endDelay_2 := None, endListening_2 := None\<rparr>) w4"
    using w1(2) w2(2) w3(2) w4(2) by (auto simp: defs)
  with r1 r2 r3 r4 p i4 show ?thesis
    unfolding Let_def by (intro exI [of _ w1] exI [of _ w2] exI [of _ w3] exI [of _ w4] conjI)
qed

text \<open>
  C1: An uplink without an answer, step by step. A packet that the application hands to an end
  device at rest makes the MAC enter \<open>TRANSMIT\<close>, number the frame, pass it down and switch the radio
  to the transmitter mode; the radio, given the frame that the MAC passed down, transmits it until
  \<open>e\<close>. At \<open>e\<close> the radio is asleep; at \<open>e + 1\<close> the first receive window opens and the radio is in the
  receiver mode, at \<open>e + 2\<close> the window closes and the radio sleeps; the same at \<open>e + 3\<close> and \<open>e + 4\<close> for
  the second window. The run of the kernel's events never fails (in particular no nested call of
  \<open>setRadioMode\<close> is rejected), each state between two phases is ready and satisfies the MAC's
  invariant, and at \<open>e + 4\<close> the device is at rest again, one uplink further.
\<close>

theorem class_a_cycle:
  assumes "class_a_idle w" and "simTime w \<le> e"
    and "\<And>v. simTime v = simTime w \<Longrightarrow>
       rf_endTime (env_transmitPacket env (upper_frame w p c) v) SIGNAL_PART_WHOLE = e"
  shows "\<exists>w1 w2 w3 w4 w5 w6 w7. let run = foldR (nic_exec env (Suc (Suc k)) (Suc n)) in
      run [NicUpperPacket p c] w = Inr w1
    \<and> class_a_phase TRANSMIT RADIO_MODE_TRANSMITTER (simTime w) w1
    \<and> macSentDown w1 = macSentDown w @ [(upper_frame w p c, data_ctrl (upper_frame w p c))]
    \<and> run [NicRadio (RadioUpperPacket (fst (last (macSentDown w1))))] w1 = Inr w2
    \<and> fsm w2 = TRANSMIT \<and> radioMode w2 = RADIO_MODE_TRANSMITTER \<and> transmissionState w2 = TRANSMISSION_STATE_TRANSMITTING
    \<and> transmissionFrame w2 = Some (env_transmitPacket env (upper_frame w p c) w1) \<and> transmissionTimer w2 = Some e
    \<and> run [NicTime e, NicRadio RadioTransmissionTimer] w2 = Inr w3
    \<and> class_a_phase WAIT_DELAY_1 RADIO_MODE_SLEEP e w3
    \<and> run [NicTime (e + 1), NicSelfMessage Msg_endDelay_1] w3 = Inr w4
    \<and> class_a_phase LISTENING_1 RADIO_MODE_RECEIVER (e + 1) w4
    \<and> run [NicTime (e + 2), NicSelfMessage Msg_endListening_1] w4 = Inr w5
    \<and> class_a_phase WAIT_DELAY_2 RADIO_MODE_SLEEP (e + 2) w5
    \<and> run [NicTime (e + 3), NicSelfMessage Msg_endDelay_2] w5 = Inr w6
    \<and> class_a_phase LISTENING_2 RADIO_MODE_RECEIVER (e + 3) w6
    \<and> run [NicTime (e + 4), NicSelfMessage Msg_endListening_2] w6 = Inr w7
    \<and> class_a_phase IDLE RADIO_MODE_SLEEP (e + 4) w7 \<and> class_a_idle w7 \<and> address w7 = address w
    \<and> sequenceNumber w7 = sequenceNumber w + 1 \<and> numSent w7 = numSent w + 1 \<and> macSentUp w7 = macSentUp w
    \<and> macSentDown w7 = macSentDown w1"
proof -
  have air: "\<forall>v. simTime v = simTime w \<longrightarrow> rf_endTime (env_transmitPacket env (upper_frame w p c) v) SIGNAL_PART_WHOLE = e"
    using assms(3) by blast
  from uplink_runs [OF assms(1,2) air, of k n] obtain w1 w2 w3 where
    a: "nic_exec env (Suc (Suc k)) (Suc n) (NicUpperPacket p c) w = Inr w1"
      "class_a_phase TRANSMIT RADIO_MODE_TRANSMITTER (simTime w) w1"
    and down1: "macSentDown w1 = macSentDown w @ [(upper_frame w p c, data_ctrl (upper_frame w p c))]"
    and b: "nic_exec env (Suc (Suc k)) (Suc n) (NicRadio (RadioUpperPacket (upper_frame w p c))) w1 = Inr w2"
      "nic_transmitting (env_transmitPacket env (upper_frame w p c) w1) w2" "transmissionTimer w2 = Some e"
    and c: "foldR (nic_exec env (Suc (Suc k)) (Suc n)) [NicTime e, NicRadio RadioTransmissionTimer] w2 = Inr w3"
      "class_a_phase WAIT_DELAY_1 RADIO_MODE_SLEEP e w3"
    and d: "mac_transmissionState w3 \<noteq> TRANSMISSION_STATE_TRANSMITTING" "\<not> separateTransmissionParts w3"
      "waitDelay1Time w3 = 1" "listening1Time w3 = 1" "waitDelay2Time w3 = 1" "listening2Time w3 = 1"
    and t: "endDelay_1 w3 = Some (e + 1)" "endListening_1 w3 = Some (e + 2)"
      "endDelay_2 w3 = Some (e + 3)" "endListening_2 w3 = Some (e + 4)"
    and data: "sequenceNumber w3 = sequenceNumber w + 1" "address w3 = address w" "macSentUp w3 = macSentUp w"
      "macSentDown w3 = macSentDown w1" by (elim exE conjE) (simp del: foldR.simps)
  have c': "nic_ready w3" "mac_inv w3" "fsm w3 = WAIT_DELAY_1" "simTime w3 = e"
    using c(2) by (simp_all add: class_a_phase_def)
  from windows_run [OF c' t, of env k n] obtain w4 w5 w6 w7 where
    w: "foldR (nic_exec env (Suc (Suc k)) (Suc n)) [NicTime (e + 1), NicSelfMessage Msg_endDelay_1] w3 = Inr w4"
      "class_a_phase LISTENING_1 RADIO_MODE_RECEIVER (e + 1) w4"
      "foldR (nic_exec env (Suc (Suc k)) (Suc n)) [NicTime (e + 2), NicSelfMessage Msg_endListening_1] w4 = Inr w5"
      "class_a_phase WAIT_DELAY_2 RADIO_MODE_SLEEP (e + 2) w5"
      "foldR (nic_exec env (Suc (Suc k)) (Suc n)) [NicTime (e + 3), NicSelfMessage Msg_endDelay_2] w5 = Inr w6"
      "class_a_phase LISTENING_2 RADIO_MODE_RECEIVER (e + 3) w6"
      "foldR (nic_exec env (Suc (Suc k)) (Suc n)) [NicTime (e + 4), NicSelfMessage Msg_endListening_2] w6 = Inr w7"
    and m: "mode_switched RADIO_MODE_SLEEP (w3\<lparr>fsm := IDLE, simTime := e + 4, endDelay_1 := None, endListening_1 := None,
        endDelay_2 := None, endListening_2 := None\<rparr>) w7" and i: "mac_inv w7" unfolding Let_def by (elim exE conjE) blast
  have idle: "class_a_idle w7" "simTime w7 = e + 4"
    using d m i by (auto simp: class_a_idle_def mode_switched_def same_mac_def)
  have sent: "numSent w7 = numSent w + 1"
    using mac_inv_idle [OF i] mac_inv_idle [of w] assms(1) m data
    by (auto simp: class_a_idle_def mode_switched_def same_mac_def)
  have end_data: "address w7 = address w" "sequenceNumber w7 = sequenceNumber w + 1" "macSentUp w7 = macSentUp w"
    "macSentDown w7 = macSentDown w1"
    using m data by (simp_all add: mode_switched_def same_mac_def)
  have tx: "fsm w2 = TRANSMIT" "radioMode w2 = RADIO_MODE_TRANSMITTER" "transmissionState w2 = TRANSMISSION_STATE_TRANSMITTING"
    "transmissionFrame w2 = Some (env_transmitPacket env (upper_frame w p c) w1)"
    using b(2) by (simp_all add: nic_transmitting_def)
  have f: "fst (last (macSentDown w1)) = upper_frame w p c" using down1 by simp
  have b': "foldR (nic_exec env (Suc (Suc k)) (Suc n)) [NicRadio (RadioUpperPacket (fst (last (macSentDown w1))))] w1 = Inr w2"
    unfolding f by (rule nic_exec_run) (rule b(1))
  have p7: "class_a_phase IDLE RADIO_MODE_SLEEP (e + 4) w7" using idle by (simp add: class_a_phase_def class_a_idle_def)
  from nic_exec_run [OF a(1)] a(2) down1 b' tx b(3) c w p7 idle(1) end_data sent show ?thesis
    unfolding Let_def by (intro exI [of _ w1] exI [of _ w2] exI [of _ w3] exI [of _ w4] exI [of _ w5] exI [of _ w6]
      exI [of _ w7] conjI)
qed

text \<open>A device at rest, sending its first packet over the concrete medium.\<close>

definition sample_idle :: mac where
  "sample_idle = sample_device\<lparr>radioMode := RADIO_MODE_SLEEP, nextRadioMode := RADIO_MODE_SLEEP,
     previousRadioMode := RADIO_MODE_SLEEP\<rparr>"

definition sample_packet :: lora_app_packet where
  "sample_packet = \<lparr>msgType = DATA, sampleMeasurement = 7, options = default_options\<rparr>"

lemma sample_class_a_idle: "class_a_idle sample_idle"
  by (simp add: class_a_idle_def sample_idle_def sample_device_def nic_ready_def radio_core_def newTransmissionState_def
      mac_settled_def mac_inv_def mac_timers_ok_def)

lemma class_a_cycle_witness:
  "\<exists>w1 w2 w3 w4 w5 w6 w7. let run = foldR (nic_exec sample_env 2 1) in
      run [NicUpperPacket sample_packet (data_ctrl new_mac_frame)] sample_idle = Inr w1
    \<and> run [NicRadio (RadioUpperPacket (fst (last (macSentDown w1))))] w1 = Inr w2
    \<and> transmissionState w2 = TRANSMISSION_STATE_TRANSMITTING \<and> transmissionTimer w2 = Some 1
    \<and> run [NicTime 1, NicRadio RadioTransmissionTimer] w2 = Inr w3 \<and> class_a_phase WAIT_DELAY_1 RADIO_MODE_SLEEP 1 w3
    \<and> run [NicTime (1 + 1), NicSelfMessage Msg_endDelay_1] w3 = Inr w4 \<and> class_a_phase LISTENING_1 RADIO_MODE_RECEIVER (1 + 1) w4
    \<and> run [NicTime (1 + 2), NicSelfMessage Msg_endListening_1] w4 = Inr w5 \<and> class_a_phase WAIT_DELAY_2 RADIO_MODE_SLEEP (1 + 2) w5
    \<and> run [NicTime (1 + 3), NicSelfMessage Msg_endDelay_2] w5 = Inr w6 \<and> class_a_phase LISTENING_2 RADIO_MODE_RECEIVER (1 + 3) w6
    \<and> run [NicTime (1 + 4), NicSelfMessage Msg_endListening_2] w6 = Inr w7
    \<and> class_a_idle w7 \<and> sequenceNumber w7 = 1 \<and> length (macSentDown w7) = 1"
proof -
  have s: "simTime sample_idle = 0" "sequenceNumber sample_idle = 0" "macSentDown sample_idle = []"
    by (simp_all add: sample_idle_def sample_device_def)
  have "\<And>v. simTime v = simTime sample_idle \<Longrightarrow>
      rf_endTime (env_transmitPacket sample_env (upper_frame sample_idle sample_packet (data_ctrl new_mac_frame)) v)
        SIGNAL_PART_WHOLE = 1"
    by (simp add: sample_env_def s)
  from class_a_cycle [OF sample_class_a_idle _ this, of 0 0] obtain w1 w2 w3 w4 w5 w6 w7 where
    c: "let run = foldR (nic_exec sample_env (Suc (Suc 0)) (Suc 0)) in
      run [NicUpperPacket sample_packet (data_ctrl new_mac_frame)] sample_idle = Inr w1
    \<and> run [NicRadio (RadioUpperPacket (fst (last (macSentDown w1))))] w1 = Inr w2
    \<and> transmissionState w2 = TRANSMISSION_STATE_TRANSMITTING \<and> transmissionTimer w2 = Some 1
    \<and> run [NicTime 1, NicRadio RadioTransmissionTimer] w2 = Inr w3 \<and> class_a_phase WAIT_DELAY_1 RADIO_MODE_SLEEP 1 w3
    \<and> run [NicTime (1 + 1), NicSelfMessage Msg_endDelay_1] w3 = Inr w4 \<and> class_a_phase LISTENING_1 RADIO_MODE_RECEIVER (1 + 1) w4
    \<and> run [NicTime (1 + 2), NicSelfMessage Msg_endListening_1] w4 = Inr w5 \<and> class_a_phase WAIT_DELAY_2 RADIO_MODE_SLEEP (1 + 2) w5
    \<and> run [NicTime (1 + 3), NicSelfMessage Msg_endDelay_2] w5 = Inr w6 \<and> class_a_phase LISTENING_2 RADIO_MODE_RECEIVER (1 + 3) w6
    \<and> run [NicTime (1 + 4), NicSelfMessage Msg_endListening_2] w6 = Inr w7
    \<and> class_a_idle w7 \<and> sequenceNumber w7 = sequenceNumber sample_idle + 1"
    and l: "macSentDown w7 = macSentDown w1" "macSentDown w1 = macSentDown sample_idle
      @ [(upper_frame sample_idle sample_packet (data_ctrl new_mac_frame),
          data_ctrl (upper_frame sample_idle sample_packet (data_ctrl new_mac_frame)))]"
    unfolding Let_def by (metis s(1) zero_le_one)
  show ?thesis
    by (rule exI [of _ w1], rule exI [of _ w2], rule exI [of _ w3], rule exI [of _ w4], rule exI [of _ w5],
        rule exI [of _ w6], rule exI [of _ w7])
      (use c l in \<open>simp add: Let_def s numeral_2_eq_2 del: foldR.simps\<close>)
qed

end
