(* ===== verification/LoRaDownlink.thy ===== *)
theory LoRaDownlink
  imports LoRaClassA
begin

text \<open>
  A downlink in the receive windows of an end device: the start of an attempted reception, its end,
  and the delivery of the frame to the MAC. The end of a reception is the point where the calls
  between the layers nest: the radio reports the new reception state, the MAC answers by putting
  the radio to sleep, and the radio reports again from inside that call.
\<close>

definition listening_state :: "mac_state \<Rightarrow> mac_state \<Rightarrow> bool" where
  "listening_state l r \<longleftrightarrow> l = LISTENING_1 \<and> r = RECEIVING_1 \<or> l = LISTENING_2 \<and> r = RECEIVING_2"

text \<open>The states between the start and the end of the reception of a frame.\<close>

definition nic_receiving :: "nat \<Rightarrow> radio_frame \<Rightarrow> 'z mac_scheme \<Rightarrow> bool" where
  "nic_receiving t rf w \<longleftrightarrow>
     radio_core w \<and> (fsm w = RECEIVING_1 \<or> fsm w = RECEIVING_2) \<and> radioMode w = RADIO_MODE_RECEIVER
     \<and> receptionTimer w = Some t \<and> transmissionTimer w = None
     \<and> receptionTimers w t = Some \<lparr>rt_frame = rf, rt_kind = SIGNAL_PART_WHOLE,
          rt_scheduled = Some (rf_endTime rf SIGNAL_PART_WHOLE)\<rparr>
     \<and> receptionState w = RECEPTION_STATE_RECEIVING \<and> mac_receptionState w = RECEPTION_STATE_RECEIVING
     \<and> transmissionState w = TRANSMISSION_STATE_UNDEFINED"

lemma updateTransceiverPart_mac:
  "\<exists>p q. updateTransceiverPart (mac_receiveSignal (Suc k) setMode) w
     = Inr (w\<lparr>receivedSignalPart := p, transmittedSignalPart := q\<rparr>)"
proof -
  let ?p = "newReceivedPart w"
  let ?w = "if receivedSignalPart w \<noteq> ?p then w\<lparr>receivedSignalPart := ?p\<rparr> else w"
  let ?q = "newTransmittedPart ?w"
  let ?v = "if transmittedSignalPart ?w \<noteq> ?q then ?w\<lparr>transmittedSignalPart := ?q\<rparr> else ?w"
  have v: "?v = w\<lparr>receivedSignalPart := ?p, transmittedSignalPart := ?q\<rparr>" by simp
  have "updateTransceiverPart (mac_receiveSignal (Suc k) setMode) w = Inr ?v"
    unfolding updateTransceiverPart_def Let_def mac_receiveSignal_quiet if_distrib [of Inr, symmetric] andThen_simps ..
  then show ?thesis unfolding v by blast
qed

lemma mediumStateChange_receiving:
  assumes "mac_settled w" and "listening_state (fsm w) r" and "receptionState w = RECEPTION_STATE_RECEIVING"
  shows "handleWithFsm (Suc (Suc k)) setMode Msg_mediumStateChange w = Inr (setFsm r w)"
proof -
  have "exec_blocks fsm setFsm (mac_machine setMode Msg_mediumStateChange) True w = Inr (Fired (setFsm r w))"
    using assms(2) unfolding listening_state_def
    by (elim disjE conjE) (use assms(1,3) in \<open>auto simp: mac_machine_def mac_settled_def isReceiving_def\<close>)
  moreover have "exec_blocks fsm setFsm (mac_machine setMode Msg_mediumStateChange) False (setFsm r w)
      = Inr (FellThrough False (setFsm r w))"
    using assms(2) unfolding listening_state_def
    by (elim disjE conjE) (simp_all add: mac_machine_def setFsm_def)
  ultimately show ?thesis unfolding handleWithFsm_def by (rule fsma_switch_fired)
qed

lemma nic_reception_start:
  assumes ready: "nic_ready w" and ls: "listening_state (fsm w) r" and mode: "radioMode w = RADIO_MODE_RECEIVER"
    and whole: "\<not> separateReceptionParts w" and ok: "frame_ok rf"
    and now: "rf_startTime rf SIGNAL_PART_WHOLE = simTime w"
    and att: "\<And>v. simTime v = simTime w \<Longrightarrow> env_isReceptionAttempted env rf SIGNAL_PART_WHOLE v"
  shows "\<exists>w'. nic_step env (Suc (Suc k)) n (NicRadio (RadioLowerPacket rf)) w = Inr w'
    \<and> same_mac (setFsm r w) w' \<and> nic_receiving (nextTimer w) rf w' \<and> radioSentUp w' = radioSentUp w"
proof -
  let ?emit = "mac_receiveSignal (Suc (Suc k)) (nic_setMode env (Suc (Suc k)) n)"
  let ?t = "nextTimer w"
  let ?rt = "\<lparr>rt_frame = rf, rt_kind = SIGNAL_PART_WHOLE, rt_scheduled = Some (rf_endTime rf SIGNAL_PART_WHOLE)\<rparr>"
  let ?w = "w\<lparr>nextTimer := Suc ?t, receptionTimer := Some ?t, receptionTimers := (receptionTimers w)(?t \<mapsto> ?rt)\<rparr>"
  have step: "nic_step env (Suc (Suc k)) n (NicRadio (RadioLowerPacket rf)) w = updateTransceiver env ?emit ?w"
    using mode whole now att
    by (simp add: nic_step_def radio_step_def radio_handleLowerPacket_def Let_def startReception_def nic_emit_def
        isReceiverMode_def update_timer_def)
  have rs: "newReceptionState env ?w = RECEPTION_STATE_RECEIVING"
    using mode by (simp add: newReceptionState_def receptionTimerScheduled_def)
  let ?v = "?w\<lparr>receptionState := RECEPTION_STATE_RECEIVING, mac_receptionState := RECEPTION_STATE_RECEIVING\<rparr>"
  have fsmw: "handleWithFsm (Suc (Suc k)) (nic_setMode env (Suc (Suc k)) n) Msg_mediumStateChange ?v = Inr (setFsm r ?v)"
    by (rule mediumStateChange_receiving) (use ready ls in \<open>auto simp: nic_ready_def mac_settled_def\<close>)
  have rx: "(if receptionState ?w \<noteq> newReceptionState env ?w
       then ?emit (ReceptionStateChanged (newReceptionState env ?w)) (?w\<lparr>receptionState := newReceptionState env ?w\<rparr>)
       else Inr ?w) = Inr (setFsm r ?v)"
    unfolding rs using fsmw ready by (simp add: nic_ready_def mac_receiveSignal_def)
  have tx: "transmissionState (setFsm r ?v) = newTransmissionState (setFsm r ?v)"
    using ready mode by (simp add: nic_ready_def newTransmissionState_def setFsm_def)
  obtain p q where "updateTransceiverPart ?emit (setFsm r ?v)
      = Inr ((setFsm r ?v)\<lparr>receivedSignalPart := p, transmittedSignalPart := q\<rparr>)"
    using updateTransceiverPart_mac by blast
  then have run: "updateTransceiver env ?emit ?w
      = Inr ((setFsm r ?v)\<lparr>receivedSignalPart := p, transmittedSignalPart := q\<rparr>)"
    unfolding updateTransceiver_def updateTransceiverState_def Let_def rx andThen_simps using tx by simp
  have "radio_core ?w"
    using ready mode ok by (auto simp: nic_ready_def radio_core_def isReceiverMode_def timer_ok_def frame_ok_def)
  then have "nic_receiving ?t rf ((setFsm r ?v)\<lparr>receivedSignalPart := p, transmittedSignalPart := q\<rparr>)"
    using ls mode ready by (auto simp: nic_receiving_def radio_core_def setFsm_def listening_state_def nic_ready_def
        newTransmissionState_def)
  moreover have "same_mac (setFsm r w) ((setFsm r ?v)\<lparr>receivedSignalPart := p, transmittedSignalPart := q\<rparr>)"
    by (simp add: same_mac_def setFsm_def)
  moreover have "radioSentUp ((setFsm r ?v)\<lparr>receivedSignalPart := p, transmittedSignalPart := q\<rparr>) = radioSentUp w"
    by (simp add: setFsm_def)
  ultimately show ?thesis using step run by auto
qed

text \<open>The state that a reception leaves: the attempt is over, the MAC has not yet been told.\<close>

definition reception_over :: "'z mac_scheme \<Rightarrow> bool" where
  "reception_over w \<longleftrightarrow>
     radio_core w \<and> (fsm w = RECEIVING_1 \<or> fsm w = RECEIVING_2) \<and> radioMode w = RADIO_MODE_RECEIVER
     \<and> receptionTimer w = None \<and> transmissionTimer w = None
     \<and> receptionState w \<noteq> RECEPTION_STATE_RECEIVING \<and> receptionState w \<noteq> RECEPTION_STATE_UNDEFINED
     \<and> mac_receptionState w = RECEPTION_STATE_RECEIVING
     \<and> transmissionState w = TRANSMISSION_STATE_UNDEFINED"

text \<open>The nested call: the MAC puts the radio to sleep while it still believes to be receiving.\<close>

lemma sleep_after_reception:
  assumes over: "reception_over w"
  shows "\<exists>w'. nic_setMode env (Suc k) (Suc (Suc n)) RADIO_MODE_SLEEP w = Inr w' \<and> nic_ready w' \<and> same_mac w w'
    \<and> radioMode w' = RADIO_MODE_SLEEP \<and> receptionTimers w' = receptionTimers w \<and> nextTimer w' = nextTimer w
    \<and> radioSentUp w' = radioSentUp w \<and> mac_transmissionState w' = mac_transmissionState w"
proof -
  let ?emit = "mac_receiveSignal (Suc k) (nic_setMode env (Suc k) (Suc n))"
  let ?w = "w\<lparr>radioMode := RADIO_MODE_SLEEP, previousRadioMode := RADIO_MODE_SLEEP, nextRadioMode := RADIO_MODE_SLEEP\<rparr>"
  let ?v = "?w\<lparr>receptionState := RECEPTION_STATE_UNDEFINED, mac_receptionState := RECEPTION_STATE_UNDEFINED\<rparr>"
  have start: "nic_setMode env (Suc k) (Suc (Suc n)) RADIO_MODE_SLEEP w = updateTransceiver env ?emit ?w"
    using over by (simp add: setRadioMode_def Let_def reception_over_def radio_core_def completeRadioModeSwitch_def
        mac_receiveSignal_quiet)
  have rs: "newReceptionState env ?w = RECEPTION_STATE_UNDEFINED" by (simp add: newReceptionState_def)
  have stay: "nic_setMode env (Suc k) (Suc n) RADIO_MODE_SLEEP (?w\<lparr>receptionState := RECEPTION_STATE_UNDEFINED\<rparr>)
      = Inr (?w\<lparr>receptionState := RECEPTION_STATE_UNDEFINED\<rparr>)"
    using over by (simp add: setRadioMode_def reception_over_def radio_core_def)
  have "handleWithFsm (Suc k) (nic_setMode env (Suc k) (Suc n)) Msg_mediumStateChange ?v = Inr ?v"
    by (rule handleWithFsm_settled) (use over in \<open>auto simp: reception_over_def mac_settled_def\<close>)
  then have "?emit (ReceptionStateChanged RECEPTION_STATE_UNDEFINED) (?w\<lparr>receptionState := RECEPTION_STATE_UNDEFINED\<rparr>) = Inr ?v"
    using over stay by (simp add: mac_receiveSignal_def reception_over_def del: nic_setMode.simps)
  then have rx: "(if receptionState ?w \<noteq> newReceptionState env ?w
       then ?emit (ReceptionStateChanged (newReceptionState env ?w)) (?w\<lparr>receptionState := newReceptionState env ?w\<rparr>)
       else Inr ?w) = Inr ?v"
    unfolding rs using over by (simp add: reception_over_def del: nic_setMode.simps)
  have tx: "transmissionState ?v = newTransmissionState ?v"
    using over by (simp add: newTransmissionState_def reception_over_def)
  obtain p q where "updateTransceiverPart ?emit ?v = Inr (?v\<lparr>receivedSignalPart := p, transmittedSignalPart := q\<rparr>)"
    using updateTransceiverPart_mac by blast
  then have run: "updateTransceiver env ?emit ?w = Inr (?v\<lparr>receivedSignalPart := p, transmittedSignalPart := q\<rparr>)"
    unfolding updateTransceiver_def updateTransceiverState_def Let_def rx andThen_simps using tx by simp
  have "nic_ready (?v\<lparr>receivedSignalPart := p, transmittedSignalPart := q\<rparr>)"
    using over by (auto simp: nic_ready_def reception_over_def radio_core_def newTransmissionState_def mac_settled_def)
  then show ?thesis using start run by (simp add: same_mac_def)
qed

text \<open>The reception timer fires and the receiver's decision is positive.\<close>

lemma nic_reception_end:
  assumes rx: "nic_receiving t rf w" and now: "simTime w = rf_endTime rf SIGNAL_PART_WHOLE"
    and ok: "\<And>v. env_receptionDecision env rf SIGNAL_PART_WHOLE v"
    and packet: "\<And>v. env_receivePacket env rf v = f"
  shows "\<exists>w'. nic_step env (Suc k) (Suc (Suc n)) (NicRadio (RadioReceptionTimer t)) w = Inr w'
    \<and> nic_ready w' \<and> same_mac w w' \<and> radioMode w' = RADIO_MODE_SLEEP
    \<and> radioSentUp w' = radioSentUp w @ [f] \<and> receptionTimers w' t = None"
proof -
  let ?S = "nic_setMode env (Suc k) (Suc (Suc n))"
  let ?emit = "mac_receiveSignal (Suc k) ?S"
  let ?rt = "\<lparr>rt_frame = rf, rt_kind = SIGNAL_PART_WHOLE, rt_scheduled = None\<rparr>"
  let ?w0 = "w\<lparr>receptionTimers := (receptionTimers w)(t \<mapsto> ?rt)\<rparr>"
  let ?w = "?w0\<lparr>radioSentUp := radioSentUp w @ [f], receptionTimer := None\<rparr>"
  have start: "nic_step env (Suc k) (Suc (Suc n)) (NicRadio (RadioReceptionTimer t)) w
      = andThen (updateTransceiver env ?emit ?w) (\<lambda>w. Inr (w\<lparr>receptionTimers := (receptionTimers w)(t := None)\<rparr>))"
    using rx now ok packet
    by (simp add: nic_step_def radio_step_def handleReceptionTimer_def endReception_def nic_receiving_def Let_def
        nic_emit_def mac_receiveSignal_quiet isReceiverMode_def del: nic_setMode.simps)
  let ?rs = "newReceptionState env ?w"
  have rs: "?rs \<noteq> RECEPTION_STATE_RECEIVING" "?rs \<noteq> RECEPTION_STATE_UNDEFINED"
    using rx by (simp_all add: newReceptionState_def receptionTimerScheduled_def nic_receiving_def)
  let ?v = "?w\<lparr>receptionState := ?rs\<rparr>"
  have "timer_ok \<lparr>rt_frame = rf, rt_kind = SIGNAL_PART_WHOLE, rt_scheduled = Some (rf_endTime rf SIGNAL_PART_WHOLE)\<rparr>"
    using rx unfolding nic_receiving_def radio_core_def by blast
  then have "timer_ok ?rt" by (simp add: timer_ok_def)
  then have "radio_core ?v"
    using rx by (auto simp: nic_receiving_def radio_core_def)
  then have "reception_over ?v"
    using rx rs by (simp add: reception_over_def nic_receiving_def)
  from sleep_after_reception [OF this, of env k n] obtain v1 where
    v1: "?S RADIO_MODE_SLEEP ?v = Inr v1" "nic_ready v1" "same_mac ?v v1" "radioMode v1 = RADIO_MODE_SLEEP"
    "receptionTimers v1 = receptionTimers ?v" "radioSentUp v1 = radioSentUp ?v" by blast
  let ?v2 = "v1\<lparr>mac_receptionState := ?rs\<rparr>"
  have ready2: "nic_ready ?v2"
    using v1(2) rs(1) by (simp add: nic_ready_def radio_core_def newTransmissionState_def mac_settled_def)
  have "handleWithFsm (Suc k) ?S Msg_mediumStateChange ?v2 = Inr ?v2"
    by (rule handleWithFsm_settled) (use ready2 in \<open>simp_all add: nic_ready_def\<close>)
  then have "?emit (ReceptionStateChanged ?rs) ?v = Inr ?v2"
    using rx v1(1) by (simp add: mac_receiveSignal_def nic_receiving_def del: nic_setMode.simps)
  then have rxs: "(if receptionState ?w \<noteq> ?rs then ?emit (ReceptionStateChanged ?rs) ?v else Inr ?w) = Inr ?v2"
    using rx rs(1) by (simp add: nic_receiving_def del: nic_setMode.simps)
  obtain p q where "updateTransceiverPart ?emit ?v2 = Inr (?v2\<lparr>receivedSignalPart := p, transmittedSignalPart := q\<rparr>)"
    using updateTransceiverPart_mac by blast
  moreover have "transmissionState ?v2 = newTransmissionState ?v2"
    using ready2 by (simp add: nic_ready_def)
  ultimately have run: "updateTransceiver env ?emit ?w = Inr (?v2\<lparr>receivedSignalPart := p, transmittedSignalPart := q\<rparr>)"
    unfolding updateTransceiver_def updateTransceiverState_def Let_def rxs andThen_simps by simp
  let ?w' = "?v2\<lparr>receivedSignalPart := p, transmittedSignalPart := q, receptionTimers := (receptionTimers v1)(t := None)\<rparr>"
  have "nic_ready ?w'"
    using ready2 by (auto simp: nic_ready_def radio_core_def newTransmissionState_def mac_settled_def)
  moreover have "same_mac w ?w'" using v1(3) by (simp add: same_mac_def)
  ultimately show ?thesis using start run v1(4,6) by (auto simp del: nic_setMode.simps)
qed

text \<open>The received frame arrives at the MAC.\<close>

lemma nic_frame_for_us:
  assumes ready: "nic_ready w" and mode: "radioMode w = RADIO_MODE_SLEEP" and us: "isForUs w f"
  shows "fsm w = RECEIVING_1 \<Longrightarrow> \<exists>w'. nic_step env (Suc (Suc k)) (Suc n) (NicFrameToMac f) w = Inr w'
      \<and> mode_switched RADIO_MODE_SLEEP
          (w\<lparr>fsm := IDLE, macSentUp := macSentUp w @ [decapsulate f], numReceived := numReceived w + 1,
             endListening_1 := None, endDelay_2 := None, endListening_2 := None\<rparr>) w'"
    and "fsm w = RECEIVING_2 \<Longrightarrow> \<exists>w'. nic_step env (Suc (Suc k)) (Suc n) (NicFrameToMac f) w = Inr w'
      \<and> mode_switched RADIO_MODE_SLEEP
          (w\<lparr>fsm := IDLE, macSentUp := macSentUp w @ [decapsulate f], numReceived := numReceived w + 1,
             endListening_2 := None\<rparr>) w'"
proof -
  let ?K = "Suc (Suc k)"
  let ?S = "nic_setMode env ?K (Suc n)"
  let ?v1 = "w\<lparr>fsm := IDLE, macSentUp := macSentUp w @ [decapsulate f], numReceived := numReceived w + 1,
             endListening_1 := None, endDelay_2 := None, endListening_2 := None\<rparr>"
  let ?v2 = "w\<lparr>fsm := IDLE, macSentUp := macSentUp w @ [decapsulate f], numReceived := numReceived w + 1,
             endListening_2 := None\<rparr>"
  note d = mac_machine_def isLowerMessage_def msgForUs_def msg_frame_def isForUs_def receiveForUs_def setFsm_def
    turnOffReceiver_def
  show "\<exists>w'. nic_step env ?K (Suc n) (NicFrameToMac f) w = Inr w' \<and> mode_switched RADIO_MODE_SLEEP ?v1 w'"
    if r: "fsm w = RECEIVING_1"
  proof -
    have "\<exists>w'. handleWithFsm ?K ?S (Msg_lower f) w = Inr w' \<and> mode_switched RADIO_MODE_SLEEP ?v1 w'"
      by (rule nic_service.fsm_phase)
        (use ready us r in \<open>simp_all add: d ready_defs del: nic_setMode.simps\<close>)
    then show ?thesis using r by (simp add: nic_step_def mac_handleLowerPacket_def del: nic_setMode.simps)
  qed
  show "\<exists>w'. nic_step env ?K (Suc n) (NicFrameToMac f) w = Inr w' \<and> mode_switched RADIO_MODE_SLEEP ?v2 w'"
    if r: "fsm w = RECEIVING_2"
  proof -
    have "\<exists>w'. handleWithFsm ?K ?S (Msg_lower f) w = Inr w' \<and> mode_switched RADIO_MODE_SLEEP ?v2 w'"
      by (rule nic_service.fsm_phase)
        (use ready us r in \<open>simp_all add: d ready_defs del: nic_setMode.simps\<close>)
    then show ?thesis using r by (simp add: nic_step_def mac_handleLowerPacket_def del: nic_setMode.simps)
  qed
qed

text \<open>The phase in which a window receives.\<close>

definition receiving_state :: "mac_state \<Rightarrow> mac_state" where
  "receiving_state s = (if s = LISTENING_1 then RECEIVING_1 else RECEIVING_2)"

lemma same_mac_trans: "same_mac a b \<Longrightarrow> same_mac b c \<Longrightarrow> same_mac a c"
  by (simp add: same_mac_def)

lemma nic_receiving_time: "nic_receiving t rf (w\<lparr>simTime := x\<rparr>) = nic_receiving t rf w"
  by (simp add: nic_receiving_def radio_core_def)

text \<open>
  C3: A downlink received in an open window, step by step. When the receiver attempts a frame that
  starts in the first or the second window, the MAC is told and enters the window's receiving
  phase, and the radio's timer runs to the end of the frame. When that timer fires and the receiver
  decides for the frame, the radio passes the received frame up, exactly once, and by the nested
  calls between radio and MAC it is asleep before its handler returns. The frame that the radio
  passed up, addressed to the device, makes the MAC pass the packet up to the application exactly
  once, cancel every timer of the remaining windows and come to rest with the radio asleep. No call
  fails.
\<close>

theorem class_a_downlink:
  assumes open_window: "nic_ready w" "mac_inv w" "fsm w = LISTENING_1 \<or> fsm w = LISTENING_2"
      "radioMode w = RADIO_MODE_RECEIVER" "\<not> separateReceptionParts w"
    and frame: "frame_ok rf" "rf_startTime rf SIGNAL_PART_WHOLE = simTime w"
      "simTime w \<le> rf_endTime rf SIGNAL_PART_WHOLE"
    and inside: "list_all (\<lambda>x. case x of None \<Rightarrow> True | Some d \<Rightarrow> rf_endTime rf SIGNAL_PART_WHOLE \<le> d) (pending_timers w)"
    and receiver: "\<And>v. env_isReceptionAttempted env rf SIGNAL_PART_WHOLE v"
      "\<And>v. env_receptionDecision env rf SIGNAL_PART_WHOLE v" "\<And>v. env_receivePacket env rf v = f"
    and us: "receiverAddress f = address w"
  shows "\<exists>w1 w2 w'. let run = foldR (nic_exec env (Suc (Suc k)) (Suc (Suc n))) in
      run [NicRadio (RadioLowerPacket rf)] w = Inr w1
    \<and> fsm w1 = receiving_state (fsm w) \<and> radioMode w1 = RADIO_MODE_RECEIVER
    \<and> receptionState w1 = RECEPTION_STATE_RECEIVING \<and> receptionTimer w1 = Some (nextTimer w)
    \<and> radioSentUp w1 = radioSentUp w \<and> macSentUp w1 = macSentUp w
    \<and> run [NicTime (rf_endTime rf SIGNAL_PART_WHOLE), NicRadio (RadioReceptionTimer (nextTimer w))] w1 = Inr w2
    \<and> nic_ready w2 \<and> fsm w2 = receiving_state (fsm w) \<and> radioMode w2 = RADIO_MODE_SLEEP
    \<and> radioSentUp w2 = radioSentUp w @ [f] \<and> macSentUp w2 = macSentUp w
    \<and> run [NicFrameToMac (last (radioSentUp w2))] w2 = Inr w'
    \<and> nic_ready w' \<and> mac_inv w' \<and> fsm w' = IDLE \<and> radioMode w' = RADIO_MODE_SLEEP \<and> radioSentUp w' = radioSentUp w @ [f]
    \<and> macSentUp w' = macSentUp w @ [encapsulated f] \<and> numReceived w' = numReceived w + 1
    \<and> endDelay_1 w' = None \<and> endListening_1 w' = None \<and> endDelay_2 w' = None \<and> endListening_2 w' = None
    \<and> sequenceNumber w' = sequenceNumber w \<and> simTime w' = rf_endTime rf SIGNAL_PART_WHOLE"
proof -
  let ?K = "Suc (Suc k)" and ?N = "Suc (Suc n)"
  let ?e = "rf_endTime rf SIGNAL_PART_WHOLE"
  let ?r = "receiving_state (fsm w)"
  have r: "listening_state (fsm w) ?r" "?r = RECEIVING_1 \<or> ?r = RECEIVING_2"
    using open_window(3) by (auto simp: listening_state_def receiving_state_def)
  from nic_reception_start [OF open_window(1) r(1) open_window(4,5) frame(1,2) receiver(1), of k ?N] obtain w1 where
    w1: "nic_step env ?K ?N (NicRadio (RadioLowerPacket rf)) w = Inr w1" "same_mac (setFsm ?r w) w1"
    "nic_receiving (nextTimer w) rf w1" "radioSentUp w1 = radioSentUp w" by blast
  have e1: "nic_exec env ?K ?N (NicRadio (RadioLowerPacket rf)) w = Inr w1"
    using w1(1) frame(1) by (simp add: nic_exec_def nic_event_possible_def radio_event_possible_def)
  let ?w2 = "w1\<lparr>simTime := ?e\<rparr>"
  have "nic_event_possible (NicTime ?e) w1"
    using inside w1(2,3) frame(3)
    by (simp add: nic_event_possible_def pending_timers_def same_mac_def setFsm_def nic_receiving_def)
  then have e2: "nic_exec env ?K ?N (NicTime ?e) w1 = Inr ?w2" by (simp add: nic_exec_def nic_step_def)
  have rx2: "nic_receiving (nextTimer w) rf ?w2" using w1(3) by (simp add: nic_receiving_time)
  from nic_reception_end [OF rx2 _ receiver(2,3), of "Suc k" n] obtain w3 where
    w3: "nic_step env ?K ?N (NicRadio (RadioReceptionTimer (nextTimer w))) ?w2 = Inr w3" "nic_ready w3"
    "same_mac ?w2 w3" "radioMode w3 = RADIO_MODE_SLEEP" "radioSentUp w3 = radioSentUp w @ [f]" using w1(4) by auto
  have e3: "nic_exec env ?K ?N (NicRadio (RadioReceptionTimer (nextTimer w))) ?w2 = Inr w3"
    using w3(1) rx2 by (simp add: nic_exec_def nic_event_possible_def radio_event_possible_def nic_receiving_def)
  have m3: "fsm w3 = ?r" "isForUs w3 f" "macSentUp w3 = macSentUp w" "numReceived w3 = numReceived w"
    "sequenceNumber w3 = sequenceNumber w" "simTime w3 = ?e"
    using w1(2) w3(3) us by (simp_all add: same_mac_def setFsm_def isForUs_def)
  obtain w4 where w4: "nic_step env ?K ?N (NicFrameToMac f) w3 = Inr w4" "nic_ready w4" "fsm w4 = IDLE"
    "radioMode w4 = RADIO_MODE_SLEEP" "macSentUp w4 = macSentUp w @ [encapsulated f]" "numReceived w4 = numReceived w + 1"
    "sequenceNumber w4 = sequenceNumber w" "simTime w4 = ?e" "radioSentUp w4 = radioSentUp w3"
    using r(2) nic_frame_for_us [OF w3(2,4) m3(2), of env k "Suc n"] m3
    by (elim disjE) (auto simp: mode_switched_def same_mac_def decapsulate_def)
  have e4: "nic_exec env ?K ?N (NicFrameToMac f) w3 = Inr w4"
    using w4(1) by (simp add: nic_exec_def nic_event_possible_def)
  let ?run = "foldR (nic_exec env ?K ?N)"
  have r1: "?run [NicRadio (RadioLowerPacket rf)] w = Inr w1" by (rule nic_exec_run) (rule e1)
  have r2: "?run [NicTime ?e, NicRadio (RadioReceptionTimer (nextTimer w))] w1 = Inr w3"
    by (simp add: e2 e3 del: nic_setMode.simps)
  have last: "last (radioSentUp w3) = f" using w3(5) by simp
  have r3: "?run [NicFrameToMac (last (radioSentUp w3))] w3 = Inr w4" unfolding last by (rule nic_exec_run) (rule e4)
  have i4: "mac_inv w4" by (rule nic_run_inv [OF r3 nic_run_inv [OF r2 nic_run_inv [OF r1 open_window(2)]]])
  then have t4: "endDelay_1 w4 = None" "endListening_1 w4 = None" "endDelay_2 w4 = None" "endListening_2 w4 = None"
    using w4(3) by (simp_all add: mac_inv_def mac_timers_ok_def)
  have m1: "fsm w1 = ?r" "radioMode w1 = RADIO_MODE_RECEIVER" "receptionState w1 = RECEPTION_STATE_RECEIVING"
    "receptionTimer w1 = Some (nextTimer w)" "macSentUp w1 = macSentUp w"
    using w1(2,3) by (simp_all add: same_mac_def setFsm_def nic_receiving_def)
  have s4: "radioSentUp w4 = radioSentUp w @ [f]" using w3(5) w4(9) by simp
  from r1 m1(1-4) w1(4) m1(5) r2 w3(2) m3(1) w3(4,5) m3(3) r3 w4(2) i4 w4(3,4) s4 w4(5,6) t4 w4(7,8) show ?thesis
    unfolding Let_def by (intro exI [of _ w1] exI [of _ w3] exI [of _ w4] conjI)
qed

text \<open>An open first window and a downlink of half a second for the concrete device.\<close>

definition sample_listening :: mac where
  "sample_listening = sample_idle\<lparr>fsm := LISTENING_1, radioMode := RADIO_MODE_RECEIVER, nextRadioMode := RADIO_MODE_RECEIVER,
     previousRadioMode := RADIO_MODE_RECEIVER, receptionState := RECEPTION_STATE_IDLE,
     mac_receptionState := RECEPTION_STATE_IDLE, endListening_1 := Some 2, endDelay_2 := Some 3, endListening_2 := Some 4\<rparr>"

definition sample_downlink :: radio_frame where
  "sample_downlink = \<lparr>rf_macFrame = new_mac_frame\<lparr>receiverAddress := 1, encapsulated := Some sample_packet\<rparr>,
     rf_startTime = (\<lambda>_. 0), rf_endTime = (\<lambda>_. 1 / 2)\<rparr>"

lemma class_a_downlink_witness:
  "\<exists>w1 w2 w'. foldR (nic_exec sample_env 2 2) [NicRadio (RadioLowerPacket sample_downlink)] sample_listening = Inr w1
    \<and> fsm w1 = RECEIVING_1
    \<and> foldR (nic_exec sample_env 2 2) [NicTime (1 / 2), NicRadio (RadioReceptionTimer 0)] w1 = Inr w2
    \<and> radioSentUp w2 = [rf_macFrame sample_downlink]
    \<and> foldR (nic_exec sample_env 2 2) [NicFrameToMac (last (radioSentUp w2))] w2 = Inr w'
    \<and> fsm w' = IDLE \<and> radioMode w' = RADIO_MODE_SLEEP \<and> macSentUp w' = [Some sample_packet]
    \<and> endListening_1 w' = None \<and> endDelay_2 w' = None \<and> endListening_2 w' = None"
proof -
  note d = sample_listening_def sample_idle_def sample_device_def
  have a: "nic_ready sample_listening" "mac_inv sample_listening"
    by (simp_all add: d nic_ready_def radio_core_def newTransmissionState_def mac_settled_def mac_inv_def mac_timers_ok_def)
  have b: "fsm sample_listening = LISTENING_1 \<or> fsm sample_listening = LISTENING_2"
    "radioMode sample_listening = RADIO_MODE_RECEIVER" "\<not> separateReceptionParts sample_listening"
    by (simp_all add: d)
  have c: "frame_ok sample_downlink" "rf_startTime sample_downlink SIGNAL_PART_WHOLE = simTime sample_listening"
    "simTime sample_listening \<le> rf_endTime sample_downlink SIGNAL_PART_WHOLE"
    "list_all (\<lambda>x. case x of None \<Rightarrow> True | Some t \<Rightarrow> rf_endTime sample_downlink SIGNAL_PART_WHOLE \<le> t)
       (pending_timers sample_listening)"
    "receiverAddress (rf_macFrame sample_downlink) = address sample_listening"
    by (simp_all add: d sample_downlink_def frame_ok_def pending_timers_def)
  have e: "nextTimer sample_listening = 0" "macSentUp sample_listening = []" "radioSentUp sample_listening = []"
    "fsm sample_listening = LISTENING_1" "rf_endTime sample_downlink SIGNAL_PART_WHOLE = 1 / 2"
    "encapsulated (rf_macFrame sample_downlink) = Some sample_packet"
    by (simp_all add: d sample_downlink_def)
  have r: "env_isReceptionAttempted sample_env sample_downlink SIGNAL_PART_WHOLE v"
    "env_receptionDecision sample_env sample_downlink SIGNAL_PART_WHOLE v"
    "env_receivePacket sample_env sample_downlink v = rf_macFrame sample_downlink" for v
    by (simp_all add: sample_env_def)
  from class_a_downlink [OF a b c(1-4) r c(5), of 0 0] show ?thesis
    unfolding Let_def e receiving_state_def numeral_2_eq_2 append_Nil simp_thms if_True by (elim exE conjE) (intro exI conjI; assumption)
qed

end
