(* ===== verification/LoRaEnergyConsumer.thy ===== *)
theory LoRaEnergyConsumer
  imports LoRaRadio
begin

text \<open>
  \<open>LoRaEnergyModules/LoRaEnergyConsumer.cc\<close>: the consumer listens to every state signal of the
  radio and integrates the power of the state that has just ended. Its state extends the radio's,
  whose getters it calls; it never writes the radio. Currents are in mA and the supply voltage in
  V, so that their product is in mW; powers are in W.

  The configuration file is read by the simulation kernel's XML parser: the model starts from its
  four scalar attributes and the list of its \<open>txSupplyCurrent\<close> elements, in document order.
\<close>

record energy = radio +
  receiverReceivingSupplyCurrent :: real
  receiverBusySupplyCurrent :: real
  idleSupplyCurrent :: real
  sleepSupplyCurrent :: real
  standbySupplyCurrent :: real
  supplyVoltage :: real
  transmitterTransmittingSupplyCurrent :: "real \<rightharpoonup> real"
  offPowerConsumption :: real
  switchingPowerConsumption :: real
  sleepPowerConsumption :: real
  receiverIdlePowerConsumption :: real
  transmitterIdlePowerConsumption :: real
  receiverReceivingPowerConsumption :: real
  receiverBusyPowerConsumption :: real
  powerConsumption :: real
  totalEnergyConsumed :: real
  energyBalance :: real
  lastEnergyBalanceUpdate :: simtime
  lastPowerConsumption :: real

definition mW :: "real \<Rightarrow> real" where
  "mW x = x / 1000"

text \<open>The file: an attribute that the file does not have is \<open>None\<close>.\<close>

record energy_config =
  cfg_receiverReceivingSupplyCurrent :: "real option"
  cfg_receiverBusySupplyCurrent :: "real option"
  cfg_idleSupplyCurrent :: "real option"
  cfg_supplyVoltage :: "real option"
  cfg_txSupplyCurrents :: "(real \<times> real) list option"

definition readConfigurationFile :: "energy_config option \<Rightarrow> 'z energy_scheme \<Rightarrow> (bool \<times> 'z energy_scheme) result" where
  "readConfigurationFile xmlConfig w =
     (case xmlConfig of
        None \<Rightarrow> Inr (False, w)
      | Some cfg \<Rightarrow>
          (case cfg_receiverReceivingSupplyCurrent cfg of
             None \<Rightarrow> Inl (RuntimeError ''receiverReceivingSupplyCurrent not defined in the configuration file!'')
           | Some rrc \<Rightarrow>
          (case cfg_receiverBusySupplyCurrent cfg of
             None \<Rightarrow> Inl (RuntimeError ''receiverBusySupplyCurrent not defined in the configuration file!'')
           | Some rbc \<Rightarrow>
          (case cfg_idleSupplyCurrent cfg of
             None \<Rightarrow> Inl (RuntimeError ''idleSupplyCurrent not defined in the configuration file!'')
           | Some ic \<Rightarrow>
          (case cfg_supplyVoltage cfg of
             None \<Rightarrow> Inl (RuntimeError ''supplyVoltage not defined in the configuration file!'')
           | Some sv \<Rightarrow>
          (case cfg_txSupplyCurrents cfg of
             None \<Rightarrow> Inl (RuntimeError ''txSupplyCurrents not defined in the configuration file!'')
           | Some combs \<Rightarrow>
               if combs = [] then Inl (RuntimeError ''No txSupplyCurrent have been defined in txSupplyCurrents!'')
               else Inr (True,
                 w\<lparr>receiverReceivingSupplyCurrent := rrc, receiverBusySupplyCurrent := rbc,
                   idleSupplyCurrent := ic, supplyVoltage := sv,
                   transmitterTransmittingSupplyCurrent :=
                     fold (\<lambda>(txPower, supplyCurrent) m. m(txPower \<mapsto> supplyCurrent)) combs
                       (transmitterTransmittingSupplyCurrent w)\<rparr>)))))))"

definition initialize_energy ::
  "energy_config option \<Rightarrow> real \<Rightarrow> real \<Rightarrow> 'z energy_scheme \<Rightarrow> 'z energy_scheme result" where
  "initialize_energy xmlConfig parOff parSwitching w0 =
     andThen (readConfigurationFile xmlConfig
                (w0\<lparr>transmitterTransmittingSupplyCurrent := Map.empty, lastEnergyBalanceUpdate := -1,
                    lastPowerConsumption := 0\<rparr>))
       (\<lambda>(ok, w).
          if \<not> ok then Inl (RuntimeError ''LoRaEnergyConsumer: error in reading the input configuration file'')
          else Inr (w\<lparr>standbySupplyCurrent := 0, sleepSupplyCurrent := 0,
                      sleepPowerConsumption := mW (supplyVoltage w * 0),
                      receiverIdlePowerConsumption := mW (supplyVoltage w * idleSupplyCurrent w),
                      transmitterIdlePowerConsumption := mW (supplyVoltage w * idleSupplyCurrent w),
                      receiverReceivingPowerConsumption := mW (supplyVoltage w * receiverReceivingSupplyCurrent w),
                      receiverBusyPowerConsumption := mW (supplyVoltage w * receiverBusySupplyCurrent w),
                      offPowerConsumption := parOff, switchingPowerConsumption := parSwitching,
                      totalEnergyConsumed := 0, energyBalance := 0\<rparr>))"

text \<open>
  \<open>find\<close> may return the past-the-end iterator, which the code dereferences: a transmit power that
  the configuration does not list is undefined behaviour.
\<close>

definition txSupplyCurrent :: "'z energy_scheme \<Rightarrow> real result" where
  "txSupplyCurrent w =
     (case transmitterTransmittingSupplyCurrent w (currentTxPower w) of
        None \<Rightarrow> Inl (UndefinedBehaviour ''dereferenced end() of transmitterTransmittingSupplyCurrent'')
      | Some current \<Rightarrow> Inr current)"

definition receiver_power :: "'z energy_scheme \<Rightarrow> real" where
  "receiver_power w =
     (if radioMode w = RADIO_MODE_RECEIVER \<or> radioMode w = RADIO_MODE_TRANSCEIVER
      then case receptionState w of
             RECEPTION_STATE_IDLE \<Rightarrow> receiverIdlePowerConsumption w
           | RECEPTION_STATE_RECEIVING \<Rightarrow>
               (if receivedSignalPart w = SIGNAL_PART_NONE then 0 else receiverReceivingPowerConsumption w)
           | RECEPTION_STATE_BUSY \<Rightarrow> receiverBusyPowerConsumption w
           | RECEPTION_STATE_UNDEFINED \<Rightarrow> 0
      else 0)"

definition transmitter_power :: "'z energy_scheme \<Rightarrow> real result" where
  "transmitter_power w =
     (if radioMode w = RADIO_MODE_TRANSMITTER \<or> radioMode w = RADIO_MODE_TRANSCEIVER
      then case transmissionState w of
             TRANSMISSION_STATE_IDLE \<Rightarrow> Inr (transmitterIdlePowerConsumption w)
           | TRANSMISSION_STATE_TRANSMITTING \<Rightarrow>
               (if transmittedSignalPart w = SIGNAL_PART_NONE then Inr 0
                else andThen (txSupplyCurrent w) (\<lambda>current. Inr (mW (supplyVoltage w * current))))
           | TRANSMISSION_STATE_UNDEFINED \<Rightarrow> Inr 0
      else Inr 0)"

definition getPowerConsumption :: "'z energy_scheme \<Rightarrow> real result" where
  "getPowerConsumption w =
     (if radioMode w = RADIO_MODE_OFF then Inr (offPowerConsumption w)
      else if radioMode w = RADIO_MODE_SLEEP \<or> radioMode w = RADIO_MODE_SWITCHING then Inr 0
      else andThen (transmitter_power w) (\<lambda>tx. Inr (receiver_power w + tx)))"

definition observed_signal :: "radio_signal \<Rightarrow> bool" where
  "observed_signal s \<longleftrightarrow>
     (case s of RadioModeChanged _ \<Rightarrow> True | ReceptionStateChanged _ \<Rightarrow> True | TransmissionStateChanged _ \<Rightarrow> True
      | ReceivedSignalPartChanged _ \<Rightarrow> True | TransmittedSignalPartChanged _ \<Rightarrow> True | _ \<Rightarrow> False)"

text \<open>The consumer is subscribed to the observed signals; it never sees the others.\<close>

definition energy_receiveSignal :: "radio_signal \<Rightarrow> 'z energy_scheme \<Rightarrow> 'z energy_scheme result" where
  "energy_receiveSignal s w =
     (if observed_signal s
      then andThen (getPowerConsumption w)
             (\<lambda>p. let balance = energyBalance w + (simTime w - lastEnergyBalanceUpdate w) * lastPowerConsumption w
                  in Inr (w\<lparr>powerConsumption := p, energyBalance := balance, totalEnergyConsumed := balance,
                            lastEnergyBalanceUpdate := simTime w, lastPowerConsumption := p\<rparr>))
      else Inr w)"

subsection \<open>The consumer as a listener of the radio\<close>

lemma energy_receiveSignal_InrE:
  assumes "energy_receiveSignal s w = Inr w'"
  obtains "w' = w"
  | p b where "w' = w\<lparr>powerConsumption := p, energyBalance := b, totalEnergyConsumed := b,
                lastEnergyBalanceUpdate := simTime w, lastPowerConsumption := p\<rparr>"
proof (cases "observed_signal s")
  case False
  with assms show ?thesis using that(1) by (simp add: energy_receiveSignal_def)
next
  case True
  with assms show ?thesis using that(2) by (auto simp: energy_receiveSignal_def Let_def andThen_Inr_iff)
qed

interpretation energy_listener: radio_listener env energy_receiveSignal for env
  by unfold_locales (auto elim!: energy_receiveSignal_InrE simp: radio_core_def radio_shrinks_def)

text \<open>
  The node around the consumer. The radio's other listeners, the MAC above all, may answer a signal
  by calling \<open>setRadioMode\<close> from inside it; they have subscribed before or after the consumer, so
  their calls come before or after the consumer's turn, and each call emits signals of its own.
  What they call is a parameter; as in \<open>LoRaNic\<close>, the nesting is unrolled to a depth beyond which
  the result is an error.
\<close>

type_synonym 'z answers = "radio_signal \<Rightarrow> 'z energy_scheme \<Rightarrow> radio_mode list"

fun energy_emit :: "'z energy_scheme radio_env \<Rightarrow> 'z answers \<Rightarrow> 'z answers \<Rightarrow> nat \<Rightarrow>
    radio_signal \<Rightarrow> 'z energy_scheme \<Rightarrow> 'z energy_scheme result" where
  "energy_emit env before after 0 s w = Inl (RuntimeError ''nesting bound'')"
| "energy_emit env before after (Suc n) s w =
     andThen (foldR (setRadioMode env (energy_emit env before after n)) (before s w) w)
       (\<lambda>w. andThen (energy_receiveSignal s w)
         (\<lambda>w. foldR (setRadioMode env (energy_emit env before after n)) (after s w) w))"

datatype energy_event = EnergyRadio radio_event | EnergyMode radio_mode | EnergyTime simtime

definition energy_step :: "'z energy_scheme radio_env \<Rightarrow> 'z answers \<Rightarrow> 'z answers \<Rightarrow> nat \<Rightarrow>
    energy_event \<Rightarrow> 'z energy_scheme \<Rightarrow> 'z energy_scheme result" where
  "energy_step env before after n ev w =
     (case ev of
        EnergyRadio e \<Rightarrow> radio_step env (energy_emit env before after n) e w
      | EnergyMode m \<Rightarrow> setRadioMode env (energy_emit env before after n) m w
      | EnergyTime t \<Rightarrow> Inr (w\<lparr>simTime := t\<rparr>))"

subsection \<open>The reference: the power of a radio state, and its integral\<close>

text \<open>
  The current that the configuration gives for the state of the radio, times the supply voltage.
  The definition reads the radio and the configured currents only, nothing that the consumer writes.
\<close>

definition receiver_current :: "'z energy_scheme \<Rightarrow> real" where
  "receiver_current w =
     (case receptionState w of
        RECEPTION_STATE_UNDEFINED \<Rightarrow> 0
      | RECEPTION_STATE_IDLE \<Rightarrow> idleSupplyCurrent w
      | RECEPTION_STATE_BUSY \<Rightarrow> receiverBusySupplyCurrent w
      | RECEPTION_STATE_RECEIVING \<Rightarrow>
          (if receivedSignalPart w = SIGNAL_PART_NONE then 0 else receiverReceivingSupplyCurrent w))"

definition transmitter_current :: "'z energy_scheme \<Rightarrow> real" where
  "transmitter_current w =
     (case transmissionState w of
        TRANSMISSION_STATE_UNDEFINED \<Rightarrow> 0
      | TRANSMISSION_STATE_IDLE \<Rightarrow> idleSupplyCurrent w
      | TRANSMISSION_STATE_TRANSMITTING \<Rightarrow>
          (if transmittedSignalPart w = SIGNAL_PART_NONE then 0
           else the (transmitterTransmittingSupplyCurrent w (currentTxPower w))))"

definition state_power :: "'z energy_scheme \<Rightarrow> real" where
  "state_power w = mW (supplyVoltage w *
     (case radioMode w of
        RADIO_MODE_RECEIVER \<Rightarrow> receiver_current w
      | RADIO_MODE_TRANSMITTER \<Rightarrow> transmitter_current w
      | RADIO_MODE_TRANSCEIVER \<Rightarrow> receiver_current w + transmitter_current w
      | _ \<Rightarrow> 0))"

text \<open>A step function of time: each value holds from its time to the next.\<close>

fun integral :: "simtime \<Rightarrow> real \<Rightarrow> (simtime \<times> real) list \<Rightarrow> real" where
  "integral t0 p0 [] = 0"
| "integral t0 p0 ((t, p) # r) = (t - t0) * p0 + integral t p r"

text \<open>The states after each event of a run.\<close>

fun run_states :: "('a \<Rightarrow> 's \<Rightarrow> 's result) \<Rightarrow> 'a list \<Rightarrow> 's \<Rightarrow> 's list" where
  "run_states step [] w = []"
| "run_states step (ev # evs) w =
     (case step ev w of Inl _ \<Rightarrow> [] | Inr w' \<Rightarrow> w' # run_states step evs w')"

definition energy_integral :: "('a \<Rightarrow> 'z energy_scheme \<Rightarrow> 'z energy_scheme result) \<Rightarrow> 'a list \<Rightarrow> 'z energy_scheme \<Rightarrow> real" where
  "energy_integral step evs w =
     integral (simTime w) (state_power w) (map (\<lambda>v. (simTime v, state_power v)) (run_states step evs w))"

lemma energy_integral_Cons:
  "step ev w = Inr w' \<Longrightarrow> energy_integral step (ev # evs) w = (simTime w' - simTime w) * state_power w + energy_integral step evs w'"
  by (simp add: energy_integral_def)

subsection \<open>What no operation of the radio touches\<close>

text \<open>
  The configuration, the clock, and the energy up to now: what has been counted, plus the power
  last sampled over the time since. A signal moves energy from the second term to the first.
\<close>

definition energy_until_now :: "'z energy_scheme \<Rightarrow> real" where
  "energy_until_now w = energyBalance w + (simTime w - lastEnergyBalanceUpdate w) * lastPowerConsumption w"

definition energy_frame :: "'z energy_scheme \<Rightarrow> 'z energy_scheme \<Rightarrow> bool" where
  "energy_frame v w \<longleftrightarrow>
     simTime w = simTime v \<and> energy_until_now w = energy_until_now v
     \<and> (totalEnergyConsumed v = energyBalance v \<longrightarrow> totalEnergyConsumed w = energyBalance w)
     \<and> supplyVoltage w = supplyVoltage v
     \<and> transmitterTransmittingSupplyCurrent w = transmitterTransmittingSupplyCurrent v
     \<and> idleSupplyCurrent w = idleSupplyCurrent v \<and> receiverBusySupplyCurrent w = receiverBusySupplyCurrent v
     \<and> receiverReceivingSupplyCurrent w = receiverReceivingSupplyCurrent v
     \<and> receiverIdlePowerConsumption w = receiverIdlePowerConsumption v
     \<and> transmitterIdlePowerConsumption w = transmitterIdlePowerConsumption v
     \<and> receiverReceivingPowerConsumption w = receiverReceivingPowerConsumption v
     \<and> receiverBusyPowerConsumption w = receiverBusyPowerConsumption v
     \<and> offPowerConsumption w = offPowerConsumption v"

lemma energy_frame_refl [simp]: "energy_frame v v"
  by (simp add: energy_frame_def)

lemma energy_receiveSignal_frame: "energy_frame v w \<Longrightarrow> ensures (energy_frame v) (energy_receiveSignal s w)"
  by (auto intro!: ensuresI
      simp: energy_receiveSignal_def energy_frame_def energy_until_now_def Let_def andThen_Inr_iff split: if_splits)

lemma energy_framed:
  assumes "\<And>w s. energy_frame v w \<Longrightarrow> ensures (energy_frame v) (emit s w)"
  shows "radio_framed emit (energy_frame v)"
  by unfold_locales (rule assms, assumption, simp_all add: energy_frame_def energy_until_now_def)

lemma energy_emit_frame: "energy_frame v w \<Longrightarrow> ensures (energy_frame v) (energy_emit env before after n s w)"
proof (induction n arbitrary: s w)
  case 0
  show ?case by simp
next
  case (Suc n)
  have calls: "ensures (energy_frame v) (foldR (setRadioMode env (energy_emit env before after n)) ms w)"
    if "energy_frame v w" for ms w
    using that by (induction ms arbitrary: w)
      (auto intro!: ensures_seqI radio_framed.setRadioMode_J [OF energy_framed] Suc.IH)
  show ?case
    by (simp, intro ensures_seqI calls energy_receiveSignal_frame Suc.prems)
qed

interpretation energy_node: radio_framed env "energy_emit env before after n" "energy_frame v" for env before after n v
  by (rule energy_framed) (rule energy_emit_frame)

subsection \<open>Every change of the power is signalled\<close>

text \<open>
  The consumer's last sample is the power of the radio's present state; and the radio is in the
  transmitting state only while its timer runs, so that the transmit power, which is the one
  datum that the radio changes without a signal, is written only while it does not matter.
\<close>

definition power_known :: "'z energy_scheme \<Rightarrow> bool" where
  "power_known w \<longleftrightarrow> getPowerConsumption w = Inr (lastPowerConsumption w)"

definition tx_timed :: "'z energy_scheme \<Rightarrow> bool" where
  "tx_timed w \<longleftrightarrow> (transmissionState w = TRANSMISSION_STATE_TRANSMITTING \<longrightarrow> transmissionTimer w \<noteq> None)"

definition metered :: "'z energy_scheme \<Rightarrow> bool" where
  "metered w \<longleftrightarrow> power_known w \<and> tx_timed w"

lemmas power_defs = getPowerConsumption_def receiver_power_def transmitter_power_def txSupplyCurrent_def

lemma getPowerConsumption_cong:
  assumes "radioMode w' = radioMode w" "receptionState w' = receptionState w" "transmissionState w' = transmissionState w"
    "receivedSignalPart w' = receivedSignalPart w" "transmittedSignalPart w' = transmittedSignalPart w"
    "offPowerConsumption w' = offPowerConsumption w" "receiverIdlePowerConsumption w' = receiverIdlePowerConsumption w"
    "receiverReceivingPowerConsumption w' = receiverReceivingPowerConsumption w"
    "receiverBusyPowerConsumption w' = receiverBusyPowerConsumption w"
    "transmitterIdlePowerConsumption w' = transmitterIdlePowerConsumption w"
    "supplyVoltage w' = supplyVoltage w"
    "transmitterTransmittingSupplyCurrent w' = transmitterTransmittingSupplyCurrent w"
    "currentTxPower w' = currentTxPower w \<or> transmissionState w \<noteq> TRANSMISSION_STATE_TRANSMITTING"
  shows "getPowerConsumption w' = getPowerConsumption w"
proof -
  have "receiver_power w' = receiver_power w" unfolding receiver_power_def assms(1-12) ..
  moreover have "transmitter_power w' = transmitter_power w"
    unfolding transmitter_power_def txSupplyCurrent_def assms(1-12)
    using assms(13) by (cases "transmissionState w") auto
  ultimately show ?thesis unfolding getPowerConsumption_def assms(1,6) by simp
qed

lemma power_known_frame:
  "power_known (w\<lparr>receptionTimer := a\<rparr>) = power_known w"
  "power_known (w\<lparr>receptionTimers := b\<rparr>) = power_known w"
  "power_known (w\<lparr>nextTimer := n\<rparr>) = power_known w"
  "power_known (w\<lparr>transmissionTimer := t\<rparr>) = power_known w"
  "power_known (w\<lparr>transmissionTimerKind := k\<rparr>) = power_known w"
  "power_known (w\<lparr>transmissionFrame := f\<rparr>) = power_known w"
  "power_known (w\<lparr>nextRadioMode := m\<rparr>) = power_known w"
  "power_known (w\<lparr>previousRadioMode := m\<rparr>) = power_known w"
  "power_known (w\<lparr>switchTimer := st\<rparr>) = power_known w"
  "power_known (w\<lparr>radioSentUp := u\<rparr>) = power_known w"
  "power_known (w\<lparr>simTime := now\<rparr>) = power_known w"
  "transmissionState w \<noteq> TRANSMISSION_STATE_TRANSMITTING \<Longrightarrow> power_known (w\<lparr>currentTxPower := x\<rparr>) = power_known w"
  unfolding power_known_def by (subst getPowerConsumption_cong [of _ w]; simp)+

lemma power_known_update_timer: "power_known (update_timer i p e w) = power_known w"
  by (simp add: update_timer_def power_known_frame split: option.split)

lemma metered_frame:
  "metered w \<Longrightarrow> power_known w"
  "metered w \<Longrightarrow> tx_timed w"
  "tx_timed (w\<lparr>receptionTimer := a\<rparr>) = tx_timed w"
  "tx_timed (w\<lparr>receptionTimers := b\<rparr>) = tx_timed w"
  "tx_timed (w\<lparr>nextTimer := n\<rparr>) = tx_timed w"
  "tx_timed (w\<lparr>radioMode := m\<rparr>) = tx_timed w"
  "tx_timed (w\<lparr>nextRadioMode := m\<rparr>) = tx_timed w"
  "tx_timed (w\<lparr>previousRadioMode := m\<rparr>) = tx_timed w"
  "tx_timed (w\<lparr>switchTimer := st\<rparr>) = tx_timed w"
  "tx_timed (w\<lparr>radioSentUp := u\<rparr>) = tx_timed w"
  "tx_timed (w\<lparr>simTime := now\<rparr>) = tx_timed w"
  "metered (w\<lparr>receptionTimer := a\<rparr>) = metered w"
  "metered (w\<lparr>receptionTimers := b\<rparr>) = metered w"
  "metered (w\<lparr>nextTimer := n\<rparr>) = metered w"
  "metered (w\<lparr>switchTimer := st\<rparr>) = metered w"
  "metered (w\<lparr>radioSentUp := u\<rparr>) = metered w"
  "metered (w\<lparr>simTime := now\<rparr>) = metered w"
  by (simp_all add: metered_def tx_timed_def power_known_frame)

lemma energy_receiveSignal_known:
  assumes "power_known w \<or> observed_signal s"
  shows "ensures power_known (energy_receiveSignal s w)"
proof (cases "observed_signal s")
  case True
  have "getPowerConsumption (w\<lparr>powerConsumption := p, energyBalance := b, totalEnergyConsumed := b,
      lastEnergyBalanceUpdate := t, lastPowerConsumption := p\<rparr>) = getPowerConsumption w" for p b t
    by (rule getPowerConsumption_cong) simp_all
  with True show ?thesis
    by (auto intro!: ensuresI simp: energy_receiveSignal_def Let_def andThen_Inr_iff power_known_def)
next
  case False
  with assms show ?thesis by (simp add: energy_receiveSignal_def)
qed

lemma energy_receiveSignal_timed: "tx_timed w \<Longrightarrow> ensures tx_timed (energy_receiveSignal s w)"
  by (auto intro!: ensuresI elim!: energy_receiveSignal_InrE simp: tx_timed_def)

text \<open>
  What the operations of the radio need of the one who receives their signals, and what they then
  promise: after an observed signal the consumer knows the power, and no other call loses it.
\<close>

locale metered_radio =
  fixes env :: "'z energy_scheme radio_env"
    and emit :: "radio_signal \<Rightarrow> 'z energy_scheme \<Rightarrow> 'z energy_scheme result"
  assumes emit_known: "power_known w \<or> observed_signal s \<Longrightarrow> ensures power_known (emit s w)"
    and emit_timed: "tx_timed w \<Longrightarrow> ensures tx_timed (emit s w)"
begin

lemma updateTransceiver_known: "power_known w \<Longrightarrow> ensures power_known (updateTransceiver env emit w)"
  unfolding updateTransceiver_def updateTransceiverState_def updateTransceiverPart_def Let_def
  by (intro ensures_intros emit_known) (simp_all add: observed_signal_def)

lemma updateTransceiver_timed: "ensures tx_timed (updateTransceiver env emit w)"
proof -
  have "ensures tx_timed (let newTx = newTransmissionState v
      in if transmissionState v \<noteq> newTx then emit (TransmissionStateChanged newTx) (v\<lparr>transmissionState := newTx\<rparr>) else Inr v)" for v
    unfolding Let_def by (intro ensures_ifI emit_timed)
      (auto simp: tx_timed_def newTransmissionState_def split: if_splits)
  then have state: "ensures tx_timed (updateTransceiverState env emit w)"
    unfolding updateTransceiverState_def by (auto simp: ensures_def andThen_Inr_iff)
  have part: "ensures tx_timed (updateTransceiverPart emit v)" if "tx_timed v" for v
    unfolding updateTransceiverPart_def Let_def
    by (intro ensures_intros emit_timed) (use that in \<open>simp_all add: tx_timed_def\<close>)
  show ?thesis unfolding updateTransceiver_def by (rule ensures_seqI [OF state part])
qed

lemma updateTransceiver_metered: "power_known w \<Longrightarrow> ensures metered (updateTransceiver env emit w)"
  using updateTransceiver_known [of w] updateTransceiver_timed [of w] by (simp add: ensures_def metered_def)

lemma emit_metered: "power_known w \<or> observed_signal s \<Longrightarrow> tx_timed w \<Longrightarrow> ensures metered (emit s w)"
  using emit_known [of w s] emit_timed [of w s] by (simp add: ensures_def metered_def)

lemma completeRadioModeSwitch_known: "power_known w \<Longrightarrow> ensures power_known (completeRadioModeSwitch env emit m w)"
  unfolding completeRadioModeSwitch_def abortReception_def abortTransmission_def
  by (intro ensures_intros emit_known updateTransceiver_known) (simp_all add: power_known_frame observed_signal_def)

lemma completeRadioModeSwitch_timed: "tx_timed w \<Longrightarrow> ensures tx_timed (completeRadioModeSwitch env emit m w)"
  unfolding completeRadioModeSwitch_def abortReception_def abortTransmission_def
  by (intro ensures_intros emit_timed updateTransceiver_timed) (simp_all add: metered_frame)

lemma setRadioMode_known: "power_known w \<Longrightarrow> ensures power_known (setRadioMode env emit m w)"
  unfolding setRadioMode_def startRadioModeSwitch_def Let_def
  by (intro ensures_intros emit_known completeRadioModeSwitch_known) (simp_all add: power_known_frame observed_signal_def)

lemma setRadioMode_timed: "tx_timed w \<Longrightarrow> ensures tx_timed (setRadioMode env emit m w)"
  unfolding setRadioMode_def startRadioModeSwitch_def Let_def
  by (intro ensures_intros emit_timed completeRadioModeSwitch_timed) (simp_all add: metered_frame)

lemma completeRadioModeSwitch_metered: "metered w \<Longrightarrow> ensures metered (completeRadioModeSwitch env emit m w)"
  using completeRadioModeSwitch_known [of w m] completeRadioModeSwitch_timed [of w m]
  by (simp add: ensures_def metered_def)

lemma setRadioMode_metered: "metered w \<Longrightarrow> ensures metered (setRadioMode env emit m w)"
  using setRadioMode_known [of w m] setRadioMode_timed [of w m] by (simp add: ensures_def metered_def)

lemma startReception_metered: "metered w \<Longrightarrow> ensures metered (startReception env emit t f p w)"
  unfolding startReception_def Let_def by (intro updateTransceiver_metered) (simp add: metered_frame power_known_frame power_known_update_timer)

lemma endReception_metered: "metered w \<Longrightarrow> ensures metered (endReception env emit t rt w)"
  unfolding endReception_def Let_def
  by (intro ensures_intros emit_metered updateTransceiver_metered) (simp_all add: metered_frame power_known_frame power_known_update_timer)

lemma handleReceptionTimer_metered: "metered w \<Longrightarrow> ensures metered (handleReceptionTimer env emit t w)"
proof -
  have "ensures metered (continueReception env emit t rt v)" if "metered v" for rt v
    unfolding continueReception_def Let_def
    by (intro ensures_intros updateTransceiver_metered) (use that in \<open>simp_all add: metered_frame power_known_frame power_known_update_timer\<close>)
  then show "metered w \<Longrightarrow> ?thesis"
    unfolding handleReceptionTimer_def Let_def
    by (intro ensures_intros) (simp_all add: metered_frame power_known_frame power_known_update_timer endReception_metered split: signal_part.splits)
qed

lemma handleTransmissionTimer_metered: "metered w \<Longrightarrow> ensures metered (handleTransmissionTimer env emit w)"
  unfolding handleTransmissionTimer_def endTransmission_def continueTransmission_def Let_def
  by (simp add: metered_frame power_known_frame power_known_update_timer updateTransceiver_metered split: signal_part.splits option.splits)

text \<open>The transmit power of the new frame is written while no transmission is in progress.\<close>

lemma radio_handleUpperPacket_metered: "metered w \<Longrightarrow> ensures metered (radio_handleUpperPacket env emit f w)"
  unfolding radio_handleUpperPacket_def startTransmission_def Let_def
  by (intro ensures_intros emit_metered updateTransceiver_metered)
    (auto simp: metered_frame power_known_frame metered_def tx_timed_def)

lemma radio_handleNodeCrash_metered: "metered w \<Longrightarrow> ensures metered (radio_handleNodeCrash env emit w)"
  unfolding radio_handleNodeCrash_def abortTransmission_def Let_def
  by (intro ensures_intros completeRadioModeSwitch_metered updateTransceiver_metered) (simp_all add: metered_frame power_known_frame power_known_update_timer)

lemma radio_step_metered: "metered w \<Longrightarrow> ensures metered (radio_step env emit ev w)"
  unfolding radio_step_def handleSwitchTimer_def radio_handleLowerPacket_def Let_def
  by (simp add: metered_frame power_known_frame power_known_update_timer completeRadioModeSwitch_metered radio_handleUpperPacket_metered startReception_metered
      handleTransmissionTimer_metered handleReceptionTimer_metered radio_handleNodeCrash_metered split: radio_event.split)

end

text \<open>The consumer among the other listeners keeps the contract, at any nesting depth.\<close>

lemma energy_emit_metered: "metered_radio (energy_emit env before after n)"
proof (induction n)
  case 0
  show ?case by unfold_locales simp_all
next
  case (Suc n)
  note below = metered_radio.setRadioMode_known [OF Suc.IH] metered_radio.setRadioMode_timed [OF Suc.IH]
  have calls: "power_known w \<Longrightarrow> ensures power_known (foldR (setRadioMode env (energy_emit env before after n)) ms w)"
    "tx_timed w \<Longrightarrow> ensures tx_timed (foldR (setRadioMode env (energy_emit env before after n)) ms w)" for ms w
    by (induction ms arbitrary: w) (auto intro!: ensures_seqI below)
  show ?case
  proof
    fix w :: "'a energy_scheme" and s
    show "ensures tx_timed (energy_emit env before after (Suc n) s w)" if "tx_timed w"
      by (simp, intro ensures_seqI calls(2) energy_receiveSignal_timed that)
    assume w: "power_known w \<or> observed_signal s"
    show "ensures power_known (energy_emit env before after (Suc n) s w)"
      using w energy_receiveSignal_known calls(1)
      unfolding energy_emit.simps ensures_def andThen_Inr_iff by blast
  qed
qed

interpretation energy_meter: metered_radio env "energy_emit env before after n" for env before after n
  by (rule energy_emit_metered)

subsection \<open>The energy is the integral of the power\<close>

definition energy_configured :: "'z energy_scheme \<Rightarrow> bool" where
  "energy_configured w \<longleftrightarrow>
     offPowerConsumption w = 0
     \<and> receiverIdlePowerConsumption w = mW (supplyVoltage w * idleSupplyCurrent w)
     \<and> transmitterIdlePowerConsumption w = mW (supplyVoltage w * idleSupplyCurrent w)
     \<and> receiverReceivingPowerConsumption w = mW (supplyVoltage w * receiverReceivingSupplyCurrent w)
     \<and> receiverBusyPowerConsumption w = mW (supplyVoltage w * receiverBusySupplyCurrent w)"

lemma mW_linear: "mW 0 = 0" "mW (x + y) = mW x + mW y" "mW (v * (2 * x)) = 2 * mW (v * x)"
  by (simp_all add: mW_def add_divide_distrib)

lemma getPowerConsumption_state_power:
  assumes "energy_configured w" and "getPowerConsumption w = Inr p"
  shows "p = state_power w"
  using assms
  by (cases "radioMode w"; cases "receptionState w"; cases "transmissionState w")
    (auto simp: energy_configured_def power_defs state_power_def receiver_current_def transmitter_current_def mW_linear
      distrib_left andThen_Inr_iff split: if_splits option.splits)

definition energy_inv :: "'z energy_scheme \<Rightarrow> bool" where
  "energy_inv w \<longleftrightarrow> metered w \<and> energy_configured w \<and> totalEnergyConsumed w = energyBalance w"

lemma energy_inv_power: "energy_inv w \<Longrightarrow> lastPowerConsumption w = state_power w"
  using getPowerConsumption_state_power [of w] by (simp add: energy_inv_def metered_def power_known_def)

lemma energy_frame_inv: "energy_frame w w' \<Longrightarrow> energy_inv w \<Longrightarrow> metered w' \<Longrightarrow> energy_inv w'"
  by (simp add: energy_frame_def energy_inv_def energy_configured_def)

lemma energy_step_inv:
  assumes inv: "energy_inv w" and step: "energy_step env before after n ev w = Inr w'"
  shows "energy_inv w' \<and> energy_until_now w' = energy_until_now w + (simTime w' - simTime w) * state_power w"
proof -
  have m: "metered w" using inv by (simp add: energy_inv_def)
  have radio: ?thesis if "energy_frame w w'" "metered w'"
    using energy_frame_inv [OF that(1) inv that(2)] that(1) by (simp add: energy_frame_def)
  show ?thesis
  proof (cases ev)
    case (EnergyRadio e)
    with step have "radio_step env (energy_emit env before after n) e w = Inr w'" by (simp add: energy_step_def)
    then show ?thesis
      using radio ensuresD [OF energy_node.radio_step_J [OF energy_frame_refl]]
        ensuresD [OF energy_meter.radio_step_metered [OF m]] by blast
  next
    case (EnergyMode mode)
    with step have "setRadioMode env (energy_emit env before after n) mode w = Inr w'" by (simp add: energy_step_def)
    then show ?thesis
      using radio ensuresD [OF energy_node.setRadioMode_J [OF energy_frame_refl]]
        ensuresD [OF energy_meter.setRadioMode_metered [OF m]] by blast
  next
    case (EnergyTime t)
    with step have w': "w' = w\<lparr>simTime := t\<rparr>" by (simp add: energy_step_def)
    have "energy_inv w'" using inv by (simp add: w' energy_inv_def metered_frame energy_configured_def)
    moreover have "energy_until_now w' = energy_until_now w + (t - simTime w) * lastPowerConsumption w"
      by (simp add: w' energy_until_now_def algebra_simps)
    ultimately show ?thesis using energy_inv_power [OF inv] by (simp add: w')
  qed
qed

lemma energy_run_integral:
  assumes "energy_inv w" and "foldR (energy_step env before after n) evs w = Inr w'"
  shows "energy_inv w' \<and> energy_until_now w' = energy_until_now w + energy_integral (energy_step env before after n) evs w"
  using assms
proof (induction evs arbitrary: w)
  case Nil
  then show ?case by (simp add: energy_integral_def)
next
  case (Cons ev evs)
  from Cons.prems(2) obtain v where v: "energy_step env before after n ev w = Inr v"
    "foldR (energy_step env before after n) evs v = Inr w'" by (auto elim: andThen_InrE)
  from energy_step_inv [OF Cons.prems(1) v(1)] have "energy_inv v"
    "energy_until_now v = energy_until_now w + (simTime v - simTime w) * state_power w" by simp_all
  with Cons.IH [OF _ v(2)] energy_integral_Cons [where step = "energy_step env before after n", OF v(1)] show ?case by simp
qed

lemma initialize_energy_inv:
  assumes "initialize_energy (Some cfg) 0 parSwitching (initialize_radio sw sepT sepR w0) = Inr w"
  shows "energy_inv w \<and> energy_until_now w = 0"
  using assms
  by (auto simp: initialize_energy_def readConfigurationFile_def initialize_radio_def energy_inv_def metered_def
      power_known_def tx_timed_def getPowerConsumption_def energy_configured_def energy_until_now_def
      elim!: andThen_InrE split: option.splits if_splits)

text \<open>
  C23: The consumer's energy is the integral of the power over time, in every run of a radio with
  its consumer from their initialisation: frames from above and below, timers, crashes, calls of
  \<open>setRadioMode\<close>, and whatever mode changes the other listeners answer the signals with. The power
  integrated is that of the radio's state: the current that the configuration gives for the mode,
  the reception or transmission state and the transmit power, times the supply voltage. In
  particular no change of that power escapes the consumer's sampling. The reported total lacks
  only the time since the last signal. (The power of a radio that is off is the default, zero.)
\<close>

theorem energy_is_integral:
  assumes "initialize_energy (Some cfg) 0 parSwitching (initialize_radio sw sepT sepR w0) = Inr w"
    and "foldR (energy_step env before after n) evs w = Inr w'"
  shows "totalEnergyConsumed w' + (simTime w' - lastEnergyBalanceUpdate w') * state_power w'
       = energy_integral (energy_step env before after n) evs w"
proof -
  from initialize_energy_inv [OF assms(1)] energy_run_integral [OF _ assms(2)]
  have inv: "energy_inv w'" and u: "energy_until_now w' = energy_integral (energy_step env before after n) evs w"
    by simp_all
  from inv have "totalEnergyConsumed w' = energyBalance w'" by (simp add: energy_inv_def)
  with u energy_inv_power [OF inv] show ?thesis by (simp add: energy_until_now_def)
qed

text \<open>
  A radio that transmits for two seconds at 14 dBm, and then sleeps: another listener answers the
  end of the transmission by putting the radio to sleep.
\<close>

definition sample_consumer :: energy where
  "sample_consumer =
     \<lparr>simTime = 0,
      switchingTimes = (\<lambda>_ _. 0), separateTransmissionParts = False, separateReceptionParts = False,
      radioMode = RADIO_MODE_OFF, nextRadioMode = RADIO_MODE_OFF, previousRadioMode = RADIO_MODE_OFF,
      receptionState = RECEPTION_STATE_UNDEFINED, transmissionState = TRANSMISSION_STATE_UNDEFINED,
      receivedSignalPart = SIGNAL_PART_NONE, transmittedSignalPart = SIGNAL_PART_NONE,
      transmissionTimer = None, transmissionTimerKind = SIGNAL_PART_NONE, transmissionFrame = None,
      receptionTimers = (\<lambda>_. None), nextTimer = 0, receptionTimer = None, switchTimer = None,
      currentTxPower = 0, radioSentUp = [],
      receiverReceivingSupplyCurrent = 9, receiverBusySupplyCurrent = 9, idleSupplyCurrent = 1,
      sleepSupplyCurrent = 0, standbySupplyCurrent = 0, supplyVoltage = 3,
      transmitterTransmittingSupplyCurrent = [14 \<mapsto> 44], offPowerConsumption = 0, switchingPowerConsumption = 0,
      sleepPowerConsumption = mW 0, receiverIdlePowerConsumption = mW 3, transmitterIdlePowerConsumption = mW 3,
      receiverReceivingPowerConsumption = mW 27, receiverBusyPowerConsumption = mW 27,
      powerConsumption = 0, totalEnergyConsumed = 0, energyBalance = 0, lastEnergyBalanceUpdate = -1,
      lastPowerConsumption = 0\<rparr>"

definition sample_energy_config :: energy_config where
  "sample_energy_config = \<lparr>cfg_receiverReceivingSupplyCurrent = Some 9, cfg_receiverBusySupplyCurrent = Some 9,
     cfg_idleSupplyCurrent = Some 1, cfg_supplyVoltage = Some 3, cfg_txSupplyCurrents = Some [(14, 44)]\<rparr>"

definition sample_energy_env :: "energy radio_env" where
  "sample_energy_env =
     \<lparr>env_isListeningPossible = (\<lambda>_. False), env_isReceptionAttempted = (\<lambda>_ _ _. True),
      env_isReceptionSuccessful = (\<lambda>_ _ _. True), env_receptionDecision = (\<lambda>_ _ _. True),
      env_receivePacket = (\<lambda>rf _. rf_macFrame rf),
      env_transmitPacket = (\<lambda>f w. \<lparr>rf_macFrame = f, rf_startTime = (\<lambda>_. simTime w), rf_endTime = (\<lambda>_. simTime w + 2)\<rparr>)\<rparr>"

definition sample_answers :: "radio_signal \<Rightarrow> energy \<Rightarrow> radio_mode list" where
  "sample_answers s w = (case s of TransmissionStateChanged TRANSMISSION_STATE_IDLE \<Rightarrow>
     if transmissionTimer w = None \<and> 0 < simTime w then [RADIO_MODE_SLEEP] else [] | _ \<Rightarrow> [])"

definition sample_energy_events :: "energy_event list" where
  "sample_energy_events = [EnergyMode RADIO_MODE_TRANSMITTER,
     EnergyRadio (RadioUpperPacket (new_mac_frame\<lparr>frameLoRaTP := 14\<rparr>)), EnergyTime 2, EnergyRadio RadioTransmissionTimer]"

lemma sample_energy_initialized:
  "initialize_energy (Some sample_energy_config) 0 0 (initialize_radio (\<lambda>_ _. 0) False False sample_consumer) = Inr sample_consumer"
  by (simp add: initialize_energy_def readConfigurationFile_def sample_energy_config_def initialize_radio_def sample_consumer_def)

lemma energy_is_integral_witness:
  "\<exists>w'. foldR (energy_step sample_energy_env (\<lambda>_ _. []) sample_answers 3) sample_energy_events sample_consumer = Inr w'
    \<and> radioMode w' = RADIO_MODE_SLEEP \<and> lastEnergyBalanceUpdate w' = 2 \<and> totalEnergyConsumed w' = 264 / 1000"
proof -
  note d = sample_energy_events_def sample_consumer_def sample_energy_env_def sample_answers_def observed_signal_def
    energy_receiveSignal_def energy_step_def power_defs Let_def numeral_3_eq_3 setRadioMode_def completeRadioModeSwitch_def
    updateTransceiver_def updateTransceiverState_def updateTransceiverPart_def newReceptionState_def newTransmissionState_def
    newReceivedPart_def newTransmittedPart_def isReceiverMode_def isTransmitterMode_def radio_step_def
    radio_handleUpperPacket_def startTransmission_def handleTransmissionTimer_def endTransmission_def new_mac_frame_def
  obtain w' where w': "foldR (energy_step sample_energy_env (\<lambda>_ _. []) sample_answers 3) sample_energy_events sample_consumer = Inr w'"
    "radioMode w' = RADIO_MODE_SLEEP" "simTime w' = 2" "lastEnergyBalanceUpdate w' = 2"
    by (simp add: d)
  have "energy_integral (energy_step sample_energy_env (\<lambda>_ _. []) sample_answers 3) sample_energy_events sample_consumer = 264 / 1000"
    by (simp add: energy_integral_def state_power_def receiver_current_def transmitter_current_def mW_def d)
  with energy_is_integral [OF sample_energy_initialized w'(1)] w' show ?thesis by simp
qed

subsection \<open>When a power is defined\<close>

lemma power_table_lookup:
  "fold (\<lambda>(k, v) m. m(k \<mapsto> v)) xs m0 k = (case map_of (rev xs) k of Some v \<Rightarrow> Some v | None \<Rightarrow> m0 k)"
proof (induction xs rule: rev_induct)
  case Nil
  show ?case by simp
next
  case (snoc x xs)
  then show ?case by (cases x) simp
qed

text \<open>
  The power of a state is defined exactly when the device is not transmitting, or transmits
  with a power that the configuration lists; the only other outcome is the undefined behaviour of
  dereferencing the map's end iterator.
\<close>

theorem getPowerConsumption_defined_iff:
  "(\<exists>p. getPowerConsumption w = Inr p) \<longleftrightarrow>
     \<not> (isTransmitterMode (radioMode w) \<and> transmissionState w = TRANSMISSION_STATE_TRANSMITTING
        \<and> transmittedSignalPart w \<noteq> SIGNAL_PART_NONE
        \<and> currentTxPower w \<notin> dom (transmitterTransmittingSupplyCurrent w))"
  by (cases "radioMode w"; cases "transmissionState w")
    (auto simp: getPowerConsumption_def transmitter_power_def txSupplyCurrent_def isTransmitterMode_def
      split: option.splits)

end
