(* ===== verification/LoRaGateway.thy ===== *)
theory LoRaGateway
  imports LoRaRadio
begin

text \<open>
  The gateway above its radio: \<open>LoRa/LoRaGWMac.cc\<close>, which sends at most one downlink frame per
  duty cycle, and \<open>LoRa/PacketForwarder.cc\<close>, which carries frames between the MAC and the network
  server. Messages sent out of a gate are appended to a list of the state.
\<close>

subsection \<open>LoRaGWMac\<close>

record gw_mac = sim +
  waitingForDC :: bool
  dutyCycleTimer :: "simtime option"
  gw_address :: devaddr
  GW_forwardedDown :: int
  GW_droppedDC :: int
  gw_transmissionState :: transmission_state
  gwSentDown :: "(simtime \<times> lora_mac_frame \<times> lora_mac_control_info) list"
  gwSentUp :: "lora_mac_frame list"
  gwSetRadioMode :: "radio_mode list"

definition initialize_gw_mac :: "devaddr \<Rightarrow> simtime \<Rightarrow> gw_mac" where
  "initialize_gw_mac addr now =
     \<lparr>simTime = now, waitingForDC = False, dutyCycleTimer = None, gw_address = addr,
      GW_forwardedDown = 0, GW_droppedDC = 0, gw_transmissionState = TRANSMISSION_STATE_UNDEFINED,
      gwSentDown = [], gwSentUp = [], gwSetRadioMode = [RADIO_MODE_TRANSCEIVER]\<rparr>"

definition gw_handleSelfMessage :: "gw_mac \<Rightarrow> gw_mac" where
  "gw_handleSelfMessage g = g\<lparr>dutyCycleTimer := None, waitingForDC := False\<rparr>"

text \<open>The chain of \<open>if\<close>s that sets the local variable \<open>delta\<close>, which has no initial value.\<close>

definition dc_delta :: "int \<Rightarrow> simtime option" where
  "dc_delta sf =
     (if sf = 7 then Some 0.61696
      else if sf = 8 then Some 1.23392
      else if sf = 9 then Some 2.14016
      else if sf = 10 then Some 4.28032
      else if sf = 11 then Some 7.24992
      else if sf = 12 then Some 14.49984
      else None)"

definition gw_handleUpperPacket :: "lora_mac_frame \<Rightarrow> gw_mac \<Rightarrow> gw_mac result" where
  "gw_handleUpperPacket frame g =
     (if \<not> waitingForDC g
      then let ctrl = \<lparr>ci_src = gw_address g, ci_dest = receiverAddress frame, ci_LoRaTP = 0, ci_LoRaCF = 0,
                       ci_LoRaSF = 0, ci_LoRaBW = 0, ci_LoRaCR = 0, ci_LoRaUseHeader = False\<rparr>;
               g1 = g\<lparr>gwSentDown := gwSentDown g @ [(simTime g, frame, ctrl)], waitingForDC := True\<rparr>
           in case dc_delta (frameLoRaSF frame) of
                None \<Rightarrow> Inl (UndefinedBehaviour ''delta is not initialised'')
              | Some delta \<Rightarrow>
                  if dutyCycleTimer g1 \<noteq> None then Inl (RuntimeError ''scheduleAt: message is already scheduled'')
                  else Inr (g1\<lparr>dutyCycleTimer := Some (simTime g + delta), GW_forwardedDown := GW_forwardedDown g + 1\<rparr>)
      else Inr (g\<lparr>GW_droppedDC := GW_droppedDC g + 1\<rparr>))"

definition gw_handleLowerPacket :: "lora_mac_frame \<Rightarrow> gw_mac \<Rightarrow> gw_mac" where
  "gw_handleLowerPacket frame g =
     (if receiverAddress frame = BROADCAST_ADDRESS then g\<lparr>gwSentUp := gwSentUp g @ [frame]\<rparr> else g)"

definition gw_sendPacketBack :: "lora_mac_frame \<Rightarrow> gw_mac \<Rightarrow> gw_mac" where
  "gw_sendPacketBack receivedFrame g =
     g\<lparr>gwSentDown := gwSentDown g @
        [(simTime g, new_mac_frame\<lparr>receiverAddress := transmitterAddress receivedFrame\<rparr>,
          \<lparr>ci_src = UNSPECIFIED_ADDRESS, ci_dest = UNSPECIFIED_ADDRESS, ci_LoRaTP = 0, ci_LoRaCF = 0,
           ci_LoRaSF = 0, ci_LoRaBW = 0, ci_LoRaCR = 0, ci_LoRaUseHeader = False\<rparr>)]\<rparr>"

definition gw_receiveSignal :: "radio_signal \<Rightarrow> gw_mac \<Rightarrow> gw_mac" where
  "gw_receiveSignal s g =
     (case s of
        TransmissionStateChanged newRadioTransmissionState \<Rightarrow>
          (if gw_transmissionState g = TRANSMISSION_STATE_TRANSMITTING
              \<and> newRadioTransmissionState = TRANSMISSION_STATE_IDLE
           then g\<lparr>gwSetRadioMode := gwSetRadioMode g @ [RADIO_MODE_RECEIVER]\<rparr> else g)
            \<lparr>gw_transmissionState := newRadioTransmissionState\<rparr>
      | _ \<Rightarrow> g)"

text \<open>The events of the gateway's MAC; the clock does not run past the duty cycle timer.\<close>

datatype gw_event =
    GwUpperPacket lora_mac_frame
  | GwLowerPacket lora_mac_frame
  | GwDutyCycleTimer
  | GwSignal radio_signal
  | GwTime simtime

definition gw_step :: "gw_event \<Rightarrow> gw_mac \<Rightarrow> gw_mac result" where
  "gw_step ev g =
     (case ev of
        GwUpperPacket f \<Rightarrow> gw_handleUpperPacket f g
      | GwLowerPacket f \<Rightarrow> Inr (gw_handleLowerPacket f g)
      | GwDutyCycleTimer \<Rightarrow>
          if dutyCycleTimer g = Some (simTime g) then Inr (gw_handleSelfMessage g)
          else Inl (RuntimeError ''the kernel does not deliver this event'')
      | GwSignal s \<Rightarrow> Inr (gw_receiveSignal s g)
      | GwTime t \<Rightarrow>
          if simTime g \<le> t \<and> (case dutyCycleTimer g of None \<Rightarrow> True | Some d \<Rightarrow> t \<le> d) then Inr (g\<lparr>simTime := t\<rparr>)
          else Inl (RuntimeError ''the kernel does not deliver this event''))"

text \<open>
  The invariant: the flag says whether the timer is scheduled, and the timer is scheduled for the end of
  the silence that the last frame imposes; the frames before it obeyed theirs.
\<close>

fun silence_kept :: "(simtime \<times> lora_mac_frame \<times> lora_mac_control_info) list \<Rightarrow> bool" where
  "silence_kept ((t1, f1, c1) # (t2, f2, c2) # r) \<longleftrightarrow>
     (case dc_delta (frameLoRaSF f1) of None \<Rightarrow> False | Some d \<Rightarrow> t1 + d \<le> t2) \<and> silence_kept ((t2, f2, c2) # r)"
| "silence_kept _ \<longleftrightarrow> True"

definition gw_inv :: "gw_mac \<Rightarrow> bool" where
  "gw_inv g \<longleftrightarrow>
     silence_kept (gwSentDown g)
     \<and> (waitingForDC g \<longleftrightarrow> dutyCycleTimer g \<noteq> None)
     \<and> (gwSentDown g \<noteq> [] \<longrightarrow>
          (case last (gwSentDown g) of (t, f, _) \<Rightarrow>
             (case dc_delta (frameLoRaSF f) of None \<Rightarrow> False
              | Some d \<Rightarrow> if waitingForDC g then dutyCycleTimer g = Some (t + d) else t + d \<le> simTime g)))
     \<and> GW_forwardedDown g = int (length (gwSentDown g))
     \<and> (case dutyCycleTimer g of None \<Rightarrow> True | Some d \<Rightarrow> simTime g \<le> d)"

lemma silence_kept_snoc:
  "silence_kept (xs @ [(t, f, c)]) \<longleftrightarrow> silence_kept xs \<and>
     (xs \<noteq> [] \<longrightarrow> (case last xs of (t1, f1, _) \<Rightarrow>
        (case dc_delta (frameLoRaSF f1) of None \<Rightarrow> False | Some d \<Rightarrow> t1 + d \<le> t)))"
  by (induction xs rule: silence_kept.induct) auto

lemma dc_delta_pos: "dc_delta sf = Some d \<Longrightarrow> 0 < d"
  by (auto simp: dc_delta_def split: if_splits)

lemma gw_handleUpperPacket_inv: "gw_inv g \<Longrightarrow> ensures gw_inv (gw_handleUpperPacket f g)"
  unfolding gw_handleUpperPacket_def Let_def
  by (intro ensures_ifI ensures_optionI)
    (auto simp: gw_inv_def silence_kept_snoc dc_delta_pos less_imp_le split: prod.splits option.splits)

lemma gw_step_inv: "gw_inv g \<Longrightarrow> ensures gw_inv (gw_step ev g)"
proof (cases ev)
  case (GwUpperPacket f)
  assume "gw_inv g"
  with GwUpperPacket show ?thesis by (simp add: gw_step_def gw_handleUpperPacket_inv)
next
  case (GwLowerPacket f)
  assume "gw_inv g"
  with GwLowerPacket show ?thesis
    by (auto simp: gw_step_def gw_handleLowerPacket_def gw_inv_def split: prod.splits option.splits)
next
  case GwDutyCycleTimer
  assume "gw_inv g"
  with GwDutyCycleTimer show ?thesis
    by (auto simp: gw_step_def gw_handleSelfMessage_def gw_inv_def split: prod.splits option.splits)
next
  case (GwSignal s)
  assume "gw_inv g"
  with GwSignal show ?thesis by (cases s)
      (auto simp: gw_step_def gw_receiveSignal_def gw_inv_def split: prod.splits option.splits)
next
  case (GwTime t)
  assume "gw_inv g"
  with GwTime show ?thesis
    by (auto simp: gw_step_def gw_inv_def split: prod.splits option.splits)
qed

lemma gw_initial_inv: "gw_inv (initialize_gw_mac addr now)"
  by (simp add: gw_inv_def initialize_gw_mac_def)

text \<open>
  C4: The duty cycle of the gateway. Whatever packets, timers and signals reach it, two
  consecutive downlink frames are at least the silence period of the first one's spreading factor
  apart, and every frame sent down is counted.
\<close>

theorem gw_duty_cycle:
  assumes "foldR gw_step evs (initialize_gw_mac addr now) = Inr g"
  shows "silence_kept (gwSentDown g) \<and> GW_forwardedDown g = int (length (gwSentDown g))
    \<and> (waitingForDC g \<longleftrightarrow> dutyCycleTimer g \<noteq> None)"
proof -
  have "gw_inv g"
    by (rule foldR_invariant [of evs gw_inv gw_step _ g, OF _ assms gw_initial_inv]) (rule ensuresD [OF gw_step_inv])
  then show ?thesis by (simp add: gw_inv_def)
qed

text \<open>Three downlink frames of spreading factor 7: the second comes too early and is dropped.\<close>

definition sample_gw_events :: "gw_event list" where
  "sample_gw_events =
     (let f = new_mac_frame\<lparr>frameLoRaSF := 7\<rparr>
      in [GwUpperPacket f, GwTime (1/2), GwUpperPacket f, GwTime 0.61696, GwDutyCycleTimer, GwUpperPacket f])"

lemma gw_duty_cycle_witness:
  "\<exists>g. foldR gw_step sample_gw_events (initialize_gw_mac 5 0) = Inr g \<and> length (gwSentDown g) = 2 \<and> GW_droppedDC g = 1
     \<and> silence_kept (gwSentDown g) \<and> GW_forwardedDown g = 2"
proof -
  obtain g where g: "foldR gw_step sample_gw_events (initialize_gw_mac 5 0) = Inr g"
    "length (gwSentDown g) = 2" "GW_droppedDC g = 1"
    by (simp add: sample_gw_events_def initialize_gw_mac_def gw_step_def gw_handleUpperPacket_def gw_handleSelfMessage_def
        Let_def dc_delta_def)
  with gw_duty_cycle [OF g(1)] show ?thesis by simp
qed

text \<open>
  What a downlink frame meets at the gateway: while the duty cycle timer runs it is dropped and
  counted; otherwise it is sent and the timer is started for a spreading factor from 7 to 12, and for any
  other one the silence period is an uninitialised variable.
\<close>

theorem gw_handleUpperPacket_cases:
  assumes "gw_inv g"
  shows "gw_handleUpperPacket f g =
    (if waitingForDC g then Inr (g\<lparr>GW_droppedDC := GW_droppedDC g + 1\<rparr>)
     else if 7 \<le> frameLoRaSF f \<and> frameLoRaSF f \<le> 12
     then Inr (g\<lparr>gwSentDown := gwSentDown g @ [(simTime g, f,
                   \<lparr>ci_src = gw_address g, ci_dest = receiverAddress f, ci_LoRaTP = 0, ci_LoRaCF = 0,
                    ci_LoRaSF = 0, ci_LoRaBW = 0, ci_LoRaCR = 0, ci_LoRaUseHeader = False\<rparr>)],
                 waitingForDC := True, dutyCycleTimer := Some (simTime g + the (dc_delta (frameLoRaSF f))),
                 GW_forwardedDown := GW_forwardedDown g + 1\<rparr>)
     else Inl (UndefinedBehaviour ''delta is not initialised''))"
proof -
  have sf: "(7 \<le> sf \<and> sf \<le> 12) = (dc_delta sf \<noteq> None)" for sf
  proof -
    have "(7 \<le> sf \<and> sf \<le> 12) = (sf = 7 \<or> sf = 8 \<or> sf = 9 \<or> sf = 10 \<or> sf = 11 \<or> sf = 12)" by presburger
    then show ?thesis by (simp add: dc_delta_def del: not_None_eq)
  qed
  show ?thesis
    using assms unfolding sf by (auto simp: gw_handleUpperPacket_def gw_inv_def Let_def)
qed

lemma gw_handleUpperPacket_cases_witness:
  "gw_inv (initialize_gw_mac 5 0)
   \<and> gw_handleUpperPacket (new_mac_frame\<lparr>frameLoRaSF := 6\<rparr>) (initialize_gw_mac 5 0)
       = Inl (UndefinedBehaviour ''delta is not initialised'')"
  using gw_handleUpperPacket_cases [OF gw_initial_inv, of "new_mac_frame\<lparr>frameLoRaSF := 6\<rparr>" 5 0]
  by (simp add: gw_initial_inv) (simp add: initialize_gw_mac_def)

subsection \<open>PacketForwarder\<close>

record packet_forwarder = sim +
  warmupPeriod :: simtime
  destAddresses :: "nat list"
  destPort :: int
  counterOfReceivedPackets :: int
  pf_counterOfSentPacketsFromNodes :: int
  pfSentToServer :: "(lora_mac_frame \<times> nat \<times> int) list"
  pfSentDown :: "lora_mac_frame list"

text \<open>The reception indication that the radio attaches to a frame it sends up: powers in W.\<close>

record reception_indication =
  minRSSI :: real
  minSNIR :: real

definition processLoraMACPacket :: "lora_mac_frame \<Rightarrow> reception_indication \<Rightarrow> packet_forwarder \<Rightarrow> packet_forwarder result" where
  "processLoraMACPacket frame0 cInfo p =
     (let p1 = (if warmupPeriod p \<le> simTime p then p\<lparr>counterOfReceivedPackets := counterOfReceivedPackets p + 1\<rparr> else p);
          rssi = minRSSI cInfo * 1000;
          frame = frame0\<lparr>frameRSSI := mW2dBm rssi, frameSNIR := minSNIR cInfo\<rparr>
      in case destAddresses p1 of
           [] \<Rightarrow> Inl (UndefinedBehaviour ''destAddresses[0] of an empty vector'')
         | destAddr # _ \<Rightarrow> Inr (p1\<lparr>pfSentToServer := pfSentToServer p1 @ [(frame, destAddr, destPort p1)]\<rparr>))"

datatype pf_event =
    PfFromMac lora_mac_frame reception_indication
  | PfFromServer lora_mac_frame
  | PfOtherGate

definition pf_handleMessage :: "pf_event \<Rightarrow> packet_forwarder \<Rightarrow> packet_forwarder result" where
  "pf_handleMessage msg p =
     (case msg of
        PfFromMac frame cInfo \<Rightarrow>
          if receiverAddress frame = BROADCAST_ADDRESS then processLoraMACPacket frame cInfo p else Inr p
      | PfFromServer frame \<Rightarrow> Inr (p\<lparr>pfSentDown := pfSentDown p @ [frame]\<rparr>)
      | PfOtherGate \<Rightarrow> Inr p)"

definition pf_receiveSignal :: "packet_forwarder \<Rightarrow> packet_forwarder" where
  "pf_receiveSignal p =
     (if warmupPeriod p \<le> simTime p
      then p\<lparr>pf_counterOfSentPacketsFromNodes := pf_counterOfSentPacketsFromNodes p + 1\<rparr> else p)"

text \<open>
  A frame that a gateway's radio received and that is addressed to the network is forwarded to the
  first configured server unchanged but for the signal strength and the SNIR of this reception, and
  counted once the warm-up period is over; every other frame from below is ignored.
\<close>

theorem pf_forwards:
  assumes "destAddresses p = d # ds"
  shows "pf_handleMessage (PfFromMac f ri) p =
    (if receiverAddress f = BROADCAST_ADDRESS
     then Inr (p\<lparr>counterOfReceivedPackets := counterOfReceivedPackets p + (if warmupPeriod p \<le> simTime p then 1 else 0),
                 pfSentToServer := pfSentToServer p @
                   [(f\<lparr>frameRSSI := 10 * log 10 (minRSSI ri * 1000), frameSNIR := minSNIR ri\<rparr>, d, destPort p)]\<rparr>)
     else Inr p)"
  using assms by (simp add: pf_handleMessage_def processLoraMACPacket_def Let_def mW2dBm_def)

definition sample_forwarder :: packet_forwarder where
  "sample_forwarder = \<lparr>simTime = 10, warmupPeriod = 1, destAddresses = [42], destPort = 1000, counterOfReceivedPackets = 0,
     pf_counterOfSentPacketsFromNodes = 0, pfSentToServer = [], pfSentDown = []\<rparr>"

lemma pf_forwards_witness:
  "pf_handleMessage (PfFromMac (new_mac_frame\<lparr>receiverAddress := BROADCAST_ADDRESS\<rparr>) \<lparr>minRSSI = 1 / 1000, minSNIR = 5\<rparr>)
      sample_forwarder
   = Inr (sample_forwarder\<lparr>counterOfReceivedPackets := 1,
        pfSentToServer := [(new_mac_frame\<lparr>receiverAddress := BROADCAST_ADDRESS, frameRSSI := 0, frameSNIR := 5\<rparr>, 42, 1000)]\<rparr>)"
proof -
  have "destAddresses sample_forwarder = 42 # []" by (simp add: sample_forwarder_def)
  from pf_forwards [OF this] show ?thesis by (simp add: sample_forwarder_def)
qed

end
