(* ===== verification/LoRaGWRadio.thy ===== *)
theory LoRaGWRadio
  imports LoRaRadio
begin

text \<open>
  \<open>LoRa/LoRaGWRadio.cc\<close>: the radio of a gateway. It receives any number of frames at the same time
  (the list \<open>concurrentReceptions\<close>) and transmits at most one, during which nothing is received. Its
  mode is the transceiver mode throughout; unlike the end device's radio it never updates the reception
  and transmission states, so it emits no state signal.

  Timer messages are created and deleted dynamically; a timer is a number that is never used twice.
  The medium and the receiver are an environment, as for the end device's radio.
\<close>

record gw_radio = sim +
  gwr_warmupPeriod :: simtime
  gwr_separateTransmissionParts :: bool
  gwr_separateReceptionParts :: bool
  gwr_radioMode :: radio_mode
  iAmGateway :: bool
  iAmTransmiting :: bool
  gwr_txTimers :: "nat \<rightharpoonup> reception_timer"
  gwr_rxTimers :: "nat \<rightharpoonup> reception_timer"
  gwr_nextTimer :: nat
  gwr_receptionTimer :: "nat option"
  concurrentReceptions :: "nat list"
  ReceptionStarted_counter :: int
  ReceptionFinishedCorrect_counter :: int
  gwr_sentUp :: "lora_mac_frame list"

text \<open>\<open>INITSTAGE_LAST\<close>, after which the radio is in the transceiver mode.\<close>

definition initialize_gw_radio :: "bool \<Rightarrow> bool \<Rightarrow> bool \<Rightarrow> simtime \<Rightarrow> gw_radio" where
  "initialize_gw_radio parGateway sepT sepR warmup =
     \<lparr>simTime = 0, gwr_warmupPeriod = warmup, gwr_separateTransmissionParts = sepT, gwr_separateReceptionParts = sepR,
      gwr_radioMode = RADIO_MODE_TRANSCEIVER, iAmGateway = parGateway, iAmTransmiting = False,
      gwr_txTimers = Map.empty, gwr_rxTimers = Map.empty, gwr_nextTimer = 0, gwr_receptionTimer = None,
      concurrentReceptions = [], ReceptionStarted_counter = 0, ReceptionFinishedCorrect_counter = 0,
      gwr_sentUp = []\<rparr>"

subsection \<open>Transmission\<close>

definition gwr_startTransmission :: "gw_radio radio_env \<Rightarrow> lora_mac_frame \<Rightarrow> signal_part \<Rightarrow> gw_radio \<Rightarrow> gw_radio" where
  "gwr_startTransmission env macFrame part w =
     (if \<not> iAmTransmiting w
      then let radioFrame = env_transmitPacket env macFrame w; t = gwr_nextTimer w
           in w\<lparr>iAmTransmiting := True, gwr_nextTimer := Suc t,
                gwr_txTimers := (gwr_txTimers w)
                  (t \<mapsto> \<lparr>rt_frame = radioFrame, rt_kind = part, rt_scheduled = Some (rf_endTime radioFrame part)\<rparr>)\<rparr>
      else w)"

definition gwr_handleUpperPacket :: "gw_radio radio_env \<Rightarrow> lora_mac_frame \<Rightarrow> gw_radio \<Rightarrow> gw_radio" where
  "gwr_handleUpperPacket env packet w =
     (if gwr_separateTransmissionParts w then gwr_startTransmission env packet SIGNAL_PART_PREAMBLE w
      else gwr_startTransmission env packet SIGNAL_PART_WHOLE w)"

definition gwr_continueTransmission :: "nat \<Rightarrow> reception_timer \<Rightarrow> gw_radio \<Rightarrow> gw_radio result" where
  "gwr_continueTransmission t rt w =
     (case next_part (rt_kind rt) of
        None \<Rightarrow> Inl (UndefinedBehaviour ''continueTransmission: no next part'')
      | Some nextPart \<Rightarrow>
          Inr (w\<lparr>gwr_txTimers := (gwr_txTimers w)
            (t \<mapsto> rt\<lparr>rt_kind := nextPart, rt_scheduled := Some (rf_endTime (rt_frame rt) nextPart)\<rparr>)\<rparr>))"

definition gwr_endTransmission :: "nat \<Rightarrow> gw_radio \<Rightarrow> gw_radio" where
  "gwr_endTransmission t w = w\<lparr>iAmTransmiting := False, gwr_txTimers := (gwr_txTimers w)(t := None)\<rparr>"

definition gwr_handleTransmissionTimer :: "nat \<Rightarrow> gw_radio \<Rightarrow> gw_radio result" where
  "gwr_handleTransmissionTimer t w =
     (case gwr_txTimers w t of
        None \<Rightarrow> Inl (RuntimeError ''Unknown self message'')
      | Some rt0 \<Rightarrow>
          let rt = rt0\<lparr>rt_scheduled := None\<rparr>
          in case rt_kind rt of
               SIGNAL_PART_WHOLE \<Rightarrow> Inr (gwr_endTransmission t w)
             | SIGNAL_PART_PREAMBLE \<Rightarrow> gwr_continueTransmission t rt w
             | SIGNAL_PART_HEADER \<Rightarrow> gwr_continueTransmission t rt w
             | SIGNAL_PART_DATA \<Rightarrow> Inr (gwr_endTransmission t w)
             | SIGNAL_PART_NONE \<Rightarrow> Inl (RuntimeError ''Unknown self message''))"

subsection \<open>Reception\<close>

definition gwr_startReception :: "gw_radio radio_env \<Rightarrow> nat \<Rightarrow> radio_frame \<Rightarrow> signal_part \<Rightarrow> gw_radio \<Rightarrow> gw_radio" where
  "gwr_startReception env timer radioFrame part w =
     (let w1 = (if gwr_warmupPeriod w \<le> simTime w
                then w\<lparr>ReceptionStarted_counter := ReceptionStarted_counter w + 1\<rparr> else w);
          w2 = (if isReceiverMode (gwr_radioMode w1) \<and> rf_startTime radioFrame part = simTime w1 \<and> \<not> iAmTransmiting w1
                then if env_isReceptionAttempted env radioFrame part w1
                     then (if iAmGateway w1 then w1\<lparr>concurrentReceptions := concurrentReceptions w1 @ [timer]\<rparr> else w1)
                            \<lparr>gwr_receptionTimer := Some timer\<rparr>
                     else w1
                else w1)
      in w2\<lparr>gwr_rxTimers := (gwr_rxTimers w2)
              (timer \<mapsto> \<lparr>rt_frame = radioFrame, rt_kind = part, rt_scheduled = Some (rf_endTime radioFrame part)\<rparr>),
            gwr_radioMode := RADIO_MODE_TRANSCEIVER\<rparr>)"

definition gwr_handleLowerPacket :: "gw_radio radio_env \<Rightarrow> radio_frame \<Rightarrow> gw_radio \<Rightarrow> gw_radio" where
  "gwr_handleLowerPacket env radioFrame w =
     (let t = gwr_nextTimer w; w1 = w\<lparr>gwr_nextTimer := Suc t\<rparr>
      in if gwr_separateReceptionParts w1 then gwr_startReception env t radioFrame SIGNAL_PART_PREAMBLE w1
         else gwr_startReception env t radioFrame SIGNAL_PART_WHOLE w1)"

text \<open>The loop over the concurrent receptions makes the timer the current one when it is in the list.\<close>

definition gwr_select :: "nat \<Rightarrow> gw_radio \<Rightarrow> gw_radio" where
  "gwr_select timer w =
     (if iAmGateway w
      then fold (\<lambda>c w. if c = timer then w\<lparr>gwr_receptionTimer := Some timer\<rparr> else w) (concurrentReceptions w) w
      else w)"

definition gwr_drop :: "nat \<Rightarrow> gw_radio \<Rightarrow> gw_radio" where
  "gwr_drop timer w =
     (let w1 = w\<lparr>gwr_receptionTimer := None\<rparr>
      in if iAmGateway w1 then w1\<lparr>concurrentReceptions := removeAll timer (concurrentReceptions w1)\<rparr> else w1)"

definition gwr_continueReception :: "gw_radio radio_env \<Rightarrow> nat \<Rightarrow> reception_timer \<Rightarrow> gw_radio \<Rightarrow> gw_radio result" where
  "gwr_continueReception env timer rt w0 =
     (case next_part (rt_kind rt) of
        None \<Rightarrow> Inl (UndefinedBehaviour ''continueReception: no next part'')
      | Some nextPart \<Rightarrow>
          let radioFrame = rt_frame rt;
              w = gwr_select timer w0;
              w1 = (if gwr_receptionTimer w = Some timer \<and> isReceiverMode (gwr_radioMode w)
                       \<and> rf_endTime radioFrame (rt_kind rt) = simTime w \<and> \<not> iAmTransmiting w
                    then let w2 = (if env_isReceptionSuccessful env radioFrame (rt_kind rt) w then w else gwr_drop timer w)
                         in if env_isReceptionAttempted env radioFrame nextPart w2 then w2 else gwr_drop timer w2
                    else w)
          in Inr (w1\<lparr>gwr_rxTimers := (gwr_rxTimers w1)
                      (timer \<mapsto> rt\<lparr>rt_kind := nextPart, rt_scheduled := Some (rf_endTime radioFrame nextPart)\<rparr>),
                    gwr_radioMode := RADIO_MODE_TRANSCEIVER\<rparr>))"

definition gwr_endReception :: "gw_radio radio_env \<Rightarrow> nat \<Rightarrow> reception_timer \<Rightarrow> gw_radio \<Rightarrow> gw_radio" where
  "gwr_endReception env timer rt w0 =
     (let radioFrame = rt_frame rt;
          w = gwr_select timer w0;
          w1 = (if gwr_receptionTimer w = Some timer \<and> isReceiverMode (gwr_radioMode w)
                   \<and> rf_endTime radioFrame SIGNAL_PART_WHOLE = simTime w \<and> \<not> iAmTransmiting w
                then let w2 = (if env_receptionDecision env radioFrame (rt_kind rt) w
                               then (if gwr_warmupPeriod w \<le> simTime w
                                     then w\<lparr>ReceptionFinishedCorrect_counter := ReceptionFinishedCorrect_counter w + 1\<rparr> else w)
                                      \<lparr>gwr_sentUp := gwr_sentUp w @ [env_receivePacket env radioFrame w]\<rparr>
                               else w)
                     in gwr_drop timer w2
                else w)
      in w1\<lparr>gwr_radioMode := RADIO_MODE_TRANSCEIVER, gwr_rxTimers := (gwr_rxTimers w1)(timer := None)\<rparr>)"

text \<open>\<open>Radio::handleReceptionTimer\<close>, which the gateway's radio inherits.\<close>

definition gwr_handleReceptionTimer :: "gw_radio radio_env \<Rightarrow> nat \<Rightarrow> gw_radio \<Rightarrow> gw_radio result" where
  "gwr_handleReceptionTimer env timer w =
     (case gwr_rxTimers w timer of
        None \<Rightarrow> Inl (RuntimeError ''Unknown self message'')
      | Some rt0 \<Rightarrow>
          let rt = rt0\<lparr>rt_scheduled := None\<rparr>
          in case rt_kind rt of
               SIGNAL_PART_WHOLE \<Rightarrow> Inr (gwr_endReception env timer rt w)
             | SIGNAL_PART_PREAMBLE \<Rightarrow> gwr_continueReception env timer rt w
             | SIGNAL_PART_HEADER \<Rightarrow> gwr_continueReception env timer rt w
             | SIGNAL_PART_DATA \<Rightarrow> Inr (gwr_endReception env timer rt w)
             | SIGNAL_PART_NONE \<Rightarrow> Inl (RuntimeError ''Unknown self message''))"

datatype gwr_event =
    GwrUpperPacket lora_mac_frame
  | GwrLowerPacket radio_frame
  | GwrTransmissionTimer nat
  | GwrReceptionTimer nat
  | GwrTime simtime

definition gwr_step :: "gw_radio radio_env \<Rightarrow> gwr_event \<Rightarrow> gw_radio \<Rightarrow> gw_radio result" where
  "gwr_step env ev w =
     (case ev of
        GwrUpperPacket f \<Rightarrow> Inr (gwr_handleUpperPacket env f w)
      | GwrLowerPacket rf \<Rightarrow> Inr (gwr_handleLowerPacket env rf w)
      | GwrTransmissionTimer t \<Rightarrow> gwr_handleTransmissionTimer t w
      | GwrReceptionTimer t \<Rightarrow> gwr_handleReceptionTimer env t w
      | GwrTime t \<Rightarrow> Inr (w\<lparr>simTime := t\<rparr>))"

subsection \<open>Half duplex\<close>

text \<open>
  At most one transmission timer exists, and exactly when the flag is set; timers are allocated below
  the counter; the counters count.
\<close>

definition gwr_inv :: "gw_radio \<Rightarrow> bool" where
  "gwr_inv w \<longleftrightarrow>
     gwr_radioMode w = RADIO_MODE_TRANSCEIVER
     \<and> (iAmTransmiting w \<longleftrightarrow> (\<exists>t. dom (gwr_txTimers w) = {t}))
     \<and> (\<not> iAmTransmiting w \<longleftrightarrow> gwr_txTimers w = Map.empty)
     \<and> ReceptionFinishedCorrect_counter w \<le> int (length (gwr_sentUp w))"

lemma gwr_select_frame [simp]:
  "gwr_radioMode (gwr_select t w) = gwr_radioMode w" "iAmTransmiting (gwr_select t w) = iAmTransmiting w"
  "gwr_txTimers (gwr_select t w) = gwr_txTimers w" "gwr_sentUp (gwr_select t w) = gwr_sentUp w"
  "ReceptionFinishedCorrect_counter (gwr_select t w) = ReceptionFinishedCorrect_counter w"
  "ReceptionStarted_counter (gwr_select t w) = ReceptionStarted_counter w"
  "concurrentReceptions (gwr_select t w) = concurrentReceptions w" "simTime (gwr_select t w) = simTime w"
  "iAmGateway (gwr_select t w) = iAmGateway w" "gwr_rxTimers (gwr_select t w) = gwr_rxTimers w"
proof -
  have f: "\<exists>r. fold (\<lambda>c w. if c = t then w\<lparr>gwr_receptionTimer := Some t\<rparr> else w) cs w = w\<lparr>gwr_receptionTimer := r\<rparr>" for cs
  proof (induction cs arbitrary: w)
    case Nil
    show ?case by (rule exI [of _ "gwr_receptionTimer w"]) simp
  next
    case (Cons c cs)
    show ?case
    proof (cases "c = t")
      case True
      with Cons [of "w\<lparr>gwr_receptionTimer := Some t\<rparr>"] show ?thesis by auto
    next
      case False
      with Cons [of w] show ?thesis by auto
    qed
  qed
  obtain r where "gwr_select t w = w\<lparr>gwr_receptionTimer := r\<rparr>"
  proof (cases "iAmGateway w")
    case True
    with f that show ?thesis unfolding gwr_select_def by metis
  next
    case False
    then have "gwr_select t w = w\<lparr>gwr_receptionTimer := gwr_receptionTimer w\<rparr>" by (simp add: gwr_select_def)
    then show ?thesis by (rule that)
  qed
  then show "gwr_radioMode (gwr_select t w) = gwr_radioMode w" "iAmTransmiting (gwr_select t w) = iAmTransmiting w"
    "gwr_txTimers (gwr_select t w) = gwr_txTimers w" "gwr_sentUp (gwr_select t w) = gwr_sentUp w"
    "ReceptionFinishedCorrect_counter (gwr_select t w) = ReceptionFinishedCorrect_counter w"
    "ReceptionStarted_counter (gwr_select t w) = ReceptionStarted_counter w"
    "concurrentReceptions (gwr_select t w) = concurrentReceptions w" "simTime (gwr_select t w) = simTime w"
    "iAmGateway (gwr_select t w) = iAmGateway w" "gwr_rxTimers (gwr_select t w) = gwr_rxTimers w"
    by simp_all
qed

lemma gwr_drop_frame [simp]:
  "gwr_radioMode (gwr_drop t w) = gwr_radioMode w" "iAmTransmiting (gwr_drop t w) = iAmTransmiting w"
  "gwr_txTimers (gwr_drop t w) = gwr_txTimers w" "gwr_sentUp (gwr_drop t w) = gwr_sentUp w"
  "ReceptionFinishedCorrect_counter (gwr_drop t w) = ReceptionFinishedCorrect_counter w"
  by (simp_all add: gwr_drop_def Let_def)

lemma gwr_inv_cong:
  "gwr_inv w \<Longrightarrow> gwr_radioMode v = RADIO_MODE_TRANSCEIVER \<Longrightarrow> iAmTransmiting v = iAmTransmiting w \<Longrightarrow>
   gwr_txTimers v = gwr_txTimers w \<Longrightarrow> ReceptionFinishedCorrect_counter v \<le> int (length (gwr_sentUp v)) \<Longrightarrow> gwr_inv v"
  unfolding gwr_inv_def by metis

lemma gwr_inv_counts: "gwr_inv w \<Longrightarrow> ReceptionFinishedCorrect_counter w \<le> int (length (gwr_sentUp w))"
  unfolding gwr_inv_def by blast

lemma gwr_inv_mode: "gwr_inv w \<Longrightarrow> gwr_radioMode w = RADIO_MODE_TRANSCEIVER"
  unfolding gwr_inv_def by blast

lemma gwr_step_inv:
  assumes inv: "gwr_inv w"
  shows "ensures gwr_inv (gwr_step env ev w)"
proof (cases ev)
  case (GwrUpperPacket f)
  with inv show ?thesis
    by (auto simp: gwr_step_def gwr_handleUpperPacket_def gwr_startTransmission_def Let_def gwr_inv_def)
next
  case (GwrLowerPacket rf)
  with inv show ?thesis
    by (auto simp: gwr_step_def gwr_handleLowerPacket_def gwr_startReception_def Let_def gwr_inv_def)
next
  case (GwrTransmissionTimer t)
  show ?thesis
  proof (cases "gwr_txTimers w t")
    case None
    with GwrTransmissionTimer show ?thesis by (simp add: gwr_step_def gwr_handleTransmissionTimer_def)
  next
    case (Some rt)
    then have m: "t \<in> dom (gwr_txTimers w)" "gwr_txTimers w \<noteq> Map.empty" by auto
    with inv have tx: "iAmTransmiting w" unfolding gwr_inv_def by blast
    with inv obtain u where "dom (gwr_txTimers w) = {u}" unfolding gwr_inv_def by blast
    with m tx have d: "dom (gwr_txTimers w) = {t}" "iAmTransmiting w" by simp_all
    have "(gwr_txTimers w)(t := None) = Map.empty" using d(1) by (auto simp: fun_eq_iff dom_def)
    moreover have "dom ((gwr_txTimers w)(t \<mapsto> r)) = {t}" for r using d by auto
    ultimately show ?thesis
      using GwrTransmissionTimer inv Some d
      by (cases "rt_kind rt") (auto simp: gwr_step_def gwr_handleTransmissionTimer_def gwr_endTransmission_def
          gwr_continueTransmission_def Let_def gwr_inv_def)
  qed
next
  case (GwrReceptionTimer t)
  show ?thesis
  proof (cases "gwr_rxTimers w t")
    case None
    with GwrReceptionTimer show ?thesis by (simp add: gwr_step_def gwr_handleReceptionTimer_def)
  next
    case (Some rt)
    have "gwr_inv (gwr_endReception env t r w)" for r
      by (rule gwr_inv_cong [OF inv]) (use gwr_inv_counts [OF inv] in \<open>simp_all add: gwr_endReception_def Let_def\<close>)
    moreover have "ensures gwr_inv (gwr_continueReception env t r w)" for r
      unfolding gwr_continueReception_def Let_def
      by (cases "next_part (rt_kind r)"; simp only: option.case ensures_simps)
        (rule gwr_inv_cong [OF inv]; use gwr_inv_counts [OF inv] in simp)
    ultimately show ?thesis
      using GwrReceptionTimer Some
      by (cases "rt_kind rt") (simp_all add: gwr_step_def gwr_handleReceptionTimer_def Let_def)
  qed
next
  case (GwrTime t)
  have "gwr_inv (w\<lparr>simTime := t\<rparr>)"
    by (rule gwr_inv_cong [OF inv]) (use gwr_inv_counts [OF inv] gwr_inv_mode [OF inv] in simp_all)
  with GwrTime show ?thesis by (simp add: gwr_step_def)
qed

lemma gwr_initial_inv: "gwr_inv (initialize_gw_radio g sepT sepR warmup)"
  by (simp add: gwr_inv_def initialize_gw_radio_def)

lemma gwr_transmitting_deaf:
  assumes "iAmTransmiting w" and "gwr_step env ev w = Inr w'"
  shows "gwr_sentUp w' = gwr_sentUp w \<and> concurrentReceptions w' = concurrentReceptions w
    \<and> dom (gwr_txTimers w') \<subseteq> dom (gwr_txTimers w)"
  using assms
  by (cases ev)
    (auto simp: gwr_step_def gwr_handleUpperPacket_def gwr_startTransmission_def gwr_handleLowerPacket_def gwr_startReception_def
      gwr_handleTransmissionTimer_def gwr_endTransmission_def gwr_continueTransmission_def
      gwr_handleReceptionTimer_def gwr_endReception_def gwr_continueReception_def Let_def
      split: option.splits signal_part.splits if_splits)

text \<open>
  C28: The gateway's radio is half duplex in every run: at most one frame is in transmission and
  the flag tells exactly whether one is, the radio stays in its transceiver mode, and no more correct
  receptions are counted than frames are passed up. Whatever happens while it transmits, no frame is passed
  up, no reception is attempted or given up, and no second transmission begins.
\<close>

theorem gwr_half_duplex:
  assumes "foldR (gwr_step env) evs (initialize_gw_radio g sepT sepR warmup) = Inr w"
  shows "(iAmTransmiting w \<longleftrightarrow> (\<exists>t. dom (gwr_txTimers w) = {t})) \<and> (\<not> iAmTransmiting w \<longleftrightarrow> gwr_txTimers w = Map.empty)
    \<and> gwr_radioMode w = RADIO_MODE_TRANSCEIVER \<and> ReceptionFinishedCorrect_counter w \<le> int (length (gwr_sentUp w))
    \<and> (iAmTransmiting w \<longrightarrow> gwr_step env ev w = Inr w' \<longrightarrow> gwr_sentUp w' = gwr_sentUp w
        \<and> concurrentReceptions w' = concurrentReceptions w \<and> dom (gwr_txTimers w') \<subseteq> dom (gwr_txTimers w))"
proof -
  have "gwr_inv w"
    by (rule foldR_invariant [of evs gwr_inv "gwr_step env" _ w, OF _ assms gwr_initial_inv]) (rule ensuresD [OF gwr_step_inv])
  moreover have "iAmTransmiting w \<longrightarrow> gwr_step env ev w = Inr w' \<longrightarrow> gwr_sentUp w' = gwr_sentUp w
      \<and> concurrentReceptions w' = concurrentReceptions w \<and> dom (gwr_txTimers w') \<subseteq> dom (gwr_txTimers w)"
    using gwr_transmitting_deaf by blast
  ultimately show ?thesis unfolding gwr_inv_def by blast
qed

definition sample_gwr_env :: "gw_radio radio_env" where
  "sample_gwr_env =
     \<lparr>env_isListeningPossible = (\<lambda>_. False), env_isReceptionAttempted = (\<lambda>_ _ _. True),
      env_isReceptionSuccessful = (\<lambda>_ _ _. True), env_receptionDecision = (\<lambda>_ _ _. True),
      env_receivePacket = (\<lambda>rf _. rf_macFrame rf),
      env_transmitPacket = (\<lambda>f w. \<lparr>rf_macFrame = f, rf_startTime = (\<lambda>_. simTime w), rf_endTime = (\<lambda>_. simTime w + 1)\<rparr>)\<rparr>"

definition sample_uplink :: "simtime \<Rightarrow> simtime \<Rightarrow> radio_frame" where
  "sample_uplink t0 t1 = \<lparr>rf_macFrame = new_mac_frame, rf_startTime = (\<lambda>_. t0), rf_endTime = (\<lambda>_. t1)\<rparr>"

lemma gwr_half_duplex_witness:
  "\<exists>w w'. foldR (gwr_step sample_gwr_env) [GwrLowerPacket (sample_uplink 0 2), GwrUpperPacket new_mac_frame]
       (initialize_gw_radio True False False 0) = Inr w \<and> iAmTransmiting w
     \<and> gwr_step sample_gwr_env (GwrLowerPacket (sample_uplink 0 3)) w = Inr w'
     \<and> concurrentReceptions w = [0] \<and> concurrentReceptions w' = [0] \<and> (\<exists>t. dom (gwr_txTimers w) = {t})"
proof -
  obtain w where w: "foldR (gwr_step sample_gwr_env) [GwrLowerPacket (sample_uplink 0 2), GwrUpperPacket new_mac_frame]
       (initialize_gw_radio True False False 0) = Inr w" "iAmTransmiting w" "concurrentReceptions w = [0]"
    by (simp add: gwr_step_def gwr_handleLowerPacket_def gwr_startReception_def gwr_handleUpperPacket_def
        gwr_startTransmission_def initialize_gw_radio_def sample_gwr_env_def sample_uplink_def isReceiverMode_def Let_def)
  obtain w' where w': "gwr_step sample_gwr_env (GwrLowerPacket (sample_uplink 0 3)) w = Inr w'"
    by (simp add: gwr_step_def)
  show ?thesis using gwr_half_duplex [OF w(1), of "GwrLowerPacket (sample_uplink 0 3)" w'] w w' by auto
qed

subsection \<open>Concurrent receptions\<close>

lemma gwr_select_selects:
  "iAmGateway w \<Longrightarrow> timer \<in> set (concurrentReceptions w) \<Longrightarrow> gwr_receptionTimer (gwr_select timer w) = Some timer"
proof -
  assume g: "iAmGateway w" and m: "timer \<in> set (concurrentReceptions w)"
  have keep: "gwr_receptionTimer v = Some timer \<Longrightarrow>
      gwr_receptionTimer (fold (\<lambda>c w. if c = timer then w\<lparr>gwr_receptionTimer := Some timer\<rparr> else w) cs v) = Some timer"
    for cs v by (induction cs arbitrary: v) simp_all
  have "timer \<in> set cs \<Longrightarrow>
      gwr_receptionTimer (fold (\<lambda>c w. if c = timer then w\<lparr>gwr_receptionTimer := Some timer\<rparr> else w) cs v) = Some timer"
    for cs v by (induction cs arbitrary: v) (auto simp: keep)
  with g m show ?thesis by (simp add: gwr_select_def)
qed

text \<open>
  Concurrent receptions do not disturb each other: when a frame whose reception the gateway
  attempted ends while the gateway is silent, it is decided and passed up whatever other receptions are
  going on (also one that became the current one later), it leaves the list, and the others stay in it.
\<close>

theorem gwr_concurrent_reception:
  assumes "iAmGateway w" and "timer \<in> set (concurrentReceptions w)" and "gwr_radioMode w = RADIO_MODE_TRANSCEIVER"
    and "\<not> iAmTransmiting w" and "rf_endTime (rt_frame rt) SIGNAL_PART_WHOLE = simTime w"
    and "\<And>v. env_receptionDecision env (rt_frame rt) (rt_kind rt) v = ok"
    and "\<And>v. env_receivePacket env (rt_frame rt) v = f"
  shows "gwr_sentUp (gwr_endReception env timer rt w) = gwr_sentUp w @ (if ok then [f] else [])
    \<and> concurrentReceptions (gwr_endReception env timer rt w) = removeAll timer (concurrentReceptions w)
    \<and> gwr_rxTimers (gwr_endReception env timer rt w) = (gwr_rxTimers w)(timer := None)"
  using assms gwr_select_selects [OF assms(1,2)]
  by (simp add: gwr_endReception_def Let_def isReceiverMode_def gwr_drop_def)

lemma gwr_concurrent_reception_witness:
  "gwr_sentUp (gwr_endReception sample_gwr_env 3 \<lparr>rt_frame = sample_uplink 0 2, rt_kind = SIGNAL_PART_WHOLE, rt_scheduled = None\<rparr>
     ((initialize_gw_radio True False False 0)\<lparr>simTime := 2, concurrentReceptions := [3, 4], gwr_receptionTimer := Some 4\<rparr>))
   = [new_mac_frame]"
  using gwr_concurrent_reception
    [of "(initialize_gw_radio True False False 0)\<lparr>simTime := 2, concurrentReceptions := [3, 4], gwr_receptionTimer := Some 4\<rparr>" 3
      "\<lparr>rt_frame = sample_uplink 0 2, rt_kind = SIGNAL_PART_WHOLE, rt_scheduled = None\<rparr>" sample_gwr_env True new_mac_frame]
  by (simp add: initialize_gw_radio_def sample_gwr_env_def sample_uplink_def)

text \<open>
  C30: A reception that ends while the gateway transmits is never passed up, and its deleted timer
  stays in the list of concurrent receptions and remains the current reception timer: a dangling pointer.
\<close>

theorem gwr_transmitting_dangling:
  assumes "iAmGateway w" and "timer \<in> set (concurrentReceptions w)" and "iAmTransmiting w"
  shows "gwr_sentUp (gwr_endReception env timer rt w) = gwr_sentUp w
    \<and> gwr_rxTimers (gwr_endReception env timer rt w) timer = None
    \<and> timer \<in> set (concurrentReceptions (gwr_endReception env timer rt w))
    \<and> gwr_receptionTimer (gwr_endReception env timer rt w) = Some timer"
  using assms gwr_select_selects [OF assms(1,2)] by (simp add: gwr_endReception_def Let_def)

lemma gwr_transmitting_dangling_witness:
  "concurrentReceptions (gwr_endReception sample_gwr_env 3
     \<lparr>rt_frame = sample_uplink 0 2, rt_kind = SIGNAL_PART_WHOLE, rt_scheduled = None\<rparr>
     ((initialize_gw_radio True False False 0)\<lparr>simTime := 2, concurrentReceptions := [3], iAmTransmiting := True\<rparr>)) \<noteq> []"
  using gwr_transmitting_dangling
    [of "(initialize_gw_radio True False False 0)\<lparr>simTime := 2, concurrentReceptions := [3], iAmTransmiting := True\<rparr>" 3
      sample_gwr_env "\<lparr>rt_frame = sample_uplink 0 2, rt_kind = SIGNAL_PART_WHOLE, rt_scheduled = None\<rparr>"]
  by (auto simp: initialize_gw_radio_def)

end
