(* ===== verification/LoRaReceiver.thy ===== *)
theory LoRaReceiver
  imports LoRaTypes "HOL-Library.Signed_Division"
begin

text \<open>
  The decisions of the physical layer: \<open>LoRaPhy/LoRaTransmitter.cc\<close> (how long a frame is on the
  air), \<open>LoRaPhy/LoRaReceiver.cc\<close> (which frame is received), \<open>LoRaPhy/LoRaReception.cc\<close> and
  \<open>LoRaPhy/LoRaBandListening.cc\<close>. Powers are in W, frequencies in Hz, times in seconds. A loop that
  returns from its body is a recursion over the list.
\<close>

subsection \<open>Time on air\<close>

text \<open>
  \<open>createTransmission\<close>. The number of payload symbols is computed with C++ integer division, which
  truncates towards zero before \<open>ceil\<close> sees the quotient; a spreading factor of zero divides by zero.
\<close>

definition payloadBytes :: "bool \<Rightarrow> int" where
  "payloadBytes iAmGateway = (if iAmGateway then 15 else 20)"

definition payloadSymbNb :: "bool \<Rightarrow> int \<Rightarrow> int \<Rightarrow> int result" where
  "payloadSymbNb iAmGateway sf cr =
     (if 4 * (sf - 2 * 0) = 0 then Inl (UndefinedBehaviour ''division by zero'')
      else Inr (8 + max (((8 * payloadBytes iAmGateway - 4 * sf + 28 + 16 - 20 * 0) sdiv (4 * (sf - 2 * 0))) * (cr + 4)) 0))"

record transmission_times =
  Tpreamble :: simtime
  Theader :: simtime
  Tpayload :: simtime

definition symbol_ms :: "int \<Rightarrow> real \<Rightarrow> real" where
  "symbol_ms sf bw = (2 powr sf) / (bw / 1000)"

definition transmission_parts :: "bool \<Rightarrow> lora_mac_frame \<Rightarrow> transmission_times result" where
  "transmission_parts iAmGateway frame =
     (let nPreamble = 8;
          Tsym = symbol_ms (frameLoRaSF frame) (frameLoRaBW frame)
      in andThen (payloadSymbNb iAmGateway (frameLoRaSF frame) (frameLoRaCR frame))
           (\<lambda>n. Inr \<lparr>Tpreamble = (nPreamble + 4.25) * Tsym / 1000,
                     Theader = 0.5 * (8 + real_of_int n) * Tsym / 1000,
                     Tpayload = 0.5 * (8 + real_of_int n) * Tsym / 1000\<rparr>))"

text \<open>What \<open>LoRaTransmission\<close> carries, besides positions and orientations.\<close>

record lora_transmission =
  tr_macFrame :: lora_mac_frame
  tr_startTime :: simtime
  tr_endTime :: simtime
  tr_parts :: transmission_times
  tr_power :: real
  tr_LoRaCF :: real
  tr_LoRaSF :: int
  tr_LoRaBW :: real
  tr_LoRaCR :: int

definition createTransmission :: "bool \<Rightarrow> lora_mac_frame \<Rightarrow> simtime \<Rightarrow> lora_transmission result" where
  "createTransmission iAmGateway frame startTime =
     andThen (transmission_parts iAmGateway frame)
       (\<lambda>p. Inr \<lparr>tr_macFrame = frame, tr_startTime = startTime,
                 tr_endTime = startTime + (Tpreamble p + Theader p + Tpayload p), tr_parts = p,
                 tr_power = dBm2mW (frameLoRaTP frame) / 1000, tr_LoRaCF = frameLoRaCF frame,
                 tr_LoRaSF = frameLoRaSF frame, tr_LoRaBW = frameLoRaBW frame, tr_LoRaCR = frameLoRaCR frame\<rparr>)"

text \<open>The formula of the LoRa modem's data sheet, which rounds the quotient up.\<close>

definition datasheet_payload_symbols :: "int \<Rightarrow> int \<Rightarrow> int \<Rightarrow> int" where
  "datasheet_payload_symbols bytes sf cr =
     8 + max (\<lceil>real_of_int (8 * bytes - 4 * sf + 28 + 16) / real_of_int (4 * sf)\<rceil> * (cr + 4)) 0"

lemma sdiv_nonneg: "0 \<le> a \<Longrightarrow> 0 < b \<Longrightarrow> (a::int) sdiv b = a div b"
  by (cases "a = 0") (simp_all add: signed_divide_int_def)

lemma ceiling_quotient: "0 < b \<Longrightarrow> \<lceil>real_of_int a / real_of_int b\<rceil> = (if b dvd a then a div b else a div b + 1)"
  for a b :: int
  by (simp add: ceiling_divide_eq_div zdiv_zminus1_eq_if dvd_eq_mod_eq_0)

text \<open>
  C32: The number of payload symbols that the transmitter uses for the LoRa spreading factors: the data sheet's
  formula with the quotient rounded down instead of up. It agrees with the data sheet exactly when the
  quotient is integral, and otherwise misses the symbols of one code word.
\<close>

theorem payloadSymbNb_datasheet:
  assumes "6 \<le> sf" and "sf \<le> 12" and "0 \<le> cr"
  shows "payloadSymbNb gw sf cr
    = Inr (datasheet_payload_symbols (payloadBytes gw) sf cr
           - (if 4 * sf dvd 8 * payloadBytes gw - 4 * sf + 44 then 0 else cr + 4))"
proof -
  let ?a = "8 * payloadBytes gw - 4 * sf + 44"
  have a: "0 \<le> ?a" using assms(2) by (simp add: payloadBytes_def)
  have q: "0 \<le> ?a div (4 * sf)" using a assms(1) by (simp add: pos_imp_zdiv_nonneg_iff)
  let ?q = "?a div (4 * sf)"
  have pos: "0 \<le> ?q * (cr + 4)" "0 \<le> (?q + 1) * (cr + 4)" using q assms(3) by simp_all
  have ab: "8 * payloadBytes gw - 4 * sf + 28 + 16 = ?a" by simp
  have "0 < 4 * sf" using assms(1) by simp
  then have "datasheet_payload_symbols (payloadBytes gw) sf cr
      = 8 + (if 4 * sf dvd ?a then ?q else ?q + 1) * (cr + 4)"
    unfolding datasheet_payload_symbols_def ab by (subst ceiling_quotient) (use pos in auto)
  moreover have "payloadSymbNb gw sf cr = Inr (8 + ?q * (cr + 4))"
  proof -
    have "8 * payloadBytes gw - 4 * sf + 28 + 16 - 20 * 0 = ?a" "4 * (sf - 2 * 0) = 4 * sf" by simp_all
    then show ?thesis
      using assms(1) a pos(1) unfolding payloadSymbNb_def by (simp only: sdiv_nonneg) simp
  qed
  ultimately show ?thesis by (simp add: algebra_simps)
qed

lemma payloadSymbNb_datasheet_witness:
  "payloadSymbNb False 7 4 = Inr 56 \<and> datasheet_payload_symbols 20 7 4 = 64"
  using payloadSymbNb_datasheet [of 7 4 False]
  by (simp add: payloadSymbNb_def signed_divide_int_def payloadBytes_def)

text \<open>
  A frame that the transmitter accepts is on the air for its preamble of 12.25 symbols, the data
  sheet's eight header symbols and its payload symbols, at two to the spreading factor chips per symbol.
\<close>

theorem createTransmission_duration:
  assumes "createTransmission gw frame t0 = Inr tr" and "payloadSymbNb gw (frameLoRaSF frame) (frameLoRaCR frame) = Inr n"
    and "frameLoRaBW frame \<noteq> 0"
  shows "tr_endTime tr - tr_startTime tr = (20.25 + real_of_int n) * (2 powr frameLoRaSF frame) / frameLoRaBW frame"
  using assms
  by (auto simp: createTransmission_def transmission_parts_def Let_def symbol_ms_def field_simps)

lemma createTransmission_duration_witness:
  "\<exists>tr. createTransmission False (new_mac_frame\<lparr>frameLoRaSF := 7, frameLoRaBW := 125000, frameLoRaCR := 4\<rparr>) 3 = Inr tr
     \<and> tr_endTime tr - tr_startTime tr = 76.25 * 128 / 125000"
proof -
  let ?f = "new_mac_frame\<lparr>frameLoRaSF := 7, frameLoRaBW := 125000, frameLoRaCR := 4\<rparr>"
  have n: "payloadSymbNb False (frameLoRaSF ?f) (frameLoRaCR ?f) = Inr 56"
    by (simp add: payloadSymbNb_def signed_divide_int_def payloadBytes_def)
  then obtain tr where tr: "createTransmission False ?f 3 = Inr tr"
    by (simp add: createTransmission_def transmission_parts_def Let_def)
  from createTransmission_duration [OF this n] have "tr_endTime tr - tr_startTime tr = 76.25 * 128 / 125000"
    by (simp add: powr_realpow [symmetric])
  with tr show ?thesis by blast
qed

subsection \<open>Sensitivity\<close>

record lora_reception =
  rx_macFrame :: lora_mac_frame
  rx_startTime :: simtime
  rx_endTime :: simtime
  rx_preambleStartTime :: simtime
  rx_power :: real
  rx_LoRaCF :: real
  rx_LoRaSF :: int
  rx_LoRaBW :: real
  rx_LoRaCR :: int

definition rx_computeMinPower :: "lora_reception \<Rightarrow> real" where
  "rx_computeMinPower r = rx_power r"

text \<open>The table of the code, in dBm: the later assignments overwrite the initial value.\<close>

definition sensitivity_dBm :: "int \<Rightarrow> real \<Rightarrow> real" where
  "sensitivity_dBm sf bw =
     (let row = (\<lambda>b125 b250 b500. if bw = 125000 then b125 else if bw = 250000 then b250
                   else if bw = 500000 then b500 else -126.5)
      in if sf = 6 then row (-121) (-118) (-111)
         else if sf = 7 then row (-124) (-122) (-116)
         else if sf = 8 then row (-127) (-125) (-119)
         else if sf = 9 then row (-130) (-128) (-122)
         else if sf = 10 then row (-133) (-130) (-125)
         else if sf = 11 then row (-135) (-132) (-128)
         else if sf = 12 then row (-137) (-135) (-129)
         else -126.5)"

definition getSensitivity :: "lora_reception \<Rightarrow> real" where
  "getSensitivity r = dBm2mW (sensitivity_dBm (rx_LoRaSF r) (rx_LoRaBW r)) / 1000"

lemma sf_cases: "7 \<le> sf \<Longrightarrow> sf \<le> 12 \<Longrightarrow> sf = 7 \<or> sf = 8 \<or> sf = 9 \<or> sf = 10 \<or> sf = 11 \<or> sf = (12::int)"
  by presburger

text \<open>
  A larger spreading factor or a smaller bandwidth makes the receiver strictly more sensitive, over
  the whole table of LoRa settings.
\<close>

theorem sensitivity_monotone:
  assumes "6 \<le> sf1" and "sf1 \<le> sf2" and "sf2 \<le> 12"
    and "bw1 \<in> {125000, 250000, 500000}" and "bw2 \<in> {125000, 250000, 500000}" and "bw2 \<le> bw1"
    and "sf1 < sf2 \<or> bw2 < bw1"
  shows "getSensitivity \<lparr>rx_macFrame = f, rx_startTime = t1, rx_endTime = t2, rx_preambleStartTime = t3, rx_power = p,
            rx_LoRaCF = cf, rx_LoRaSF = sf2, rx_LoRaBW = bw2, rx_LoRaCR = cr\<rparr>
       < getSensitivity \<lparr>rx_macFrame = f, rx_startTime = t1, rx_endTime = t2, rx_preambleStartTime = t3, rx_power = p,
            rx_LoRaCF = cf, rx_LoRaSF = sf1, rx_LoRaBW = bw1, rx_LoRaCR = cr\<rparr>"
proof -
  have s1: "sf1 = 6 \<or> sf1 = 7 \<or> sf1 = 8 \<or> sf1 = 9 \<or> sf1 = 10 \<or> sf1 = 11 \<or> sf1 = 12" using assms(1-3) by presburger
  have s2: "sf2 = 6 \<or> sf2 = 7 \<or> sf2 = 8 \<or> sf2 = 9 \<or> sf2 = 10 \<or> sf2 = 11 \<or> sf2 = 12" using assms(1-3) by presburger
  have "sensitivity_dBm sf2 bw2 < sensitivity_dBm sf1 bw1"
    using s1 s2 assms(2,4-7) by (elim disjE) (simp_all add: sensitivity_dBm_def, auto)
  then show ?thesis by (simp add: getSensitivity_def)
qed

lemma sensitivity_monotone_witness:
  "getSensitivity \<lparr>rx_macFrame = new_mac_frame, rx_startTime = 0, rx_endTime = 1, rx_preambleStartTime = 0, rx_power = 1,
      rx_LoRaCF = 868, rx_LoRaSF = 12, rx_LoRaBW = 125000, rx_LoRaCR = 4\<rparr>
   < getSensitivity \<lparr>rx_macFrame = new_mac_frame, rx_startTime = 0, rx_endTime = 1, rx_preambleStartTime = 0, rx_power = 1,
      rx_LoRaCF = 868, rx_LoRaSF = 7, rx_LoRaBW = 125000, rx_LoRaCR = 4\<rparr>"
  by (rule sensitivity_monotone) simp_all

subsection \<open>Collisions\<close>

text \<open>
  \<open>nonOrthDelta[receptionSF-7][interferenceSF-7]\<close>: how much stronger (in dB) a frame must be than an
  interfering one to survive it. Outside the six spreading factors the array is indexed out of bounds.
\<close>

definition nonOrthDelta_table :: "int list list" where
  "nonOrthDelta_table =
     [[1, -8, -9, -9, -9, -9],
      [-11, 1, -11, -12, -13, -13],
      [-15, -13, 1, -13, -14, -15],
      [-19, -18, -17, 1, -17, -18],
      [-22, -22, -21, -20, 1, -20],
      [-25, -25, -25, -24, -23, 1]]"

definition nonOrthDelta :: "int \<Rightarrow> int \<Rightarrow> int result" where
  "nonOrthDelta receptionSF interferenceSF =
     (if 7 \<le> receptionSF \<and> receptionSF \<le> 12 \<and> 7 \<le> interferenceSF \<and> interferenceSF \<le> 12
      then Inr (nonOrthDelta_table ! nat (receptionSF - 7) ! nat (interferenceSF - 7))
      else Inl (UndefinedBehaviour ''nonOrthDelta indexed out of bounds''))"

definition rssi_dBm :: "lora_reception \<Rightarrow> real" where
  "rssi_dBm r = mW2dBm (rx_power r * 1000)"

definition rx_overlap :: "lora_reception \<Rightarrow> lora_reception \<Rightarrow> bool" where
  "rx_overlap x y \<longleftrightarrow>
     (let m_x = (rx_startTime x + rx_endTime x) / 2; d_x = (rx_endTime x - rx_startTime x) / 2;
          m_y = (rx_startTime y + rx_endTime y) / 2; d_y = (rx_endTime y - rx_startTime y) / 2
      in \<bar>m_x - m_y\<bar> < d_x + d_y)"

text \<open>The first of the last six preamble symbols begins before the interfering frame ends.\<close>

definition rx_timingCollision :: "lora_reception \<Rightarrow> lora_reception \<Rightarrow> bool" where
  "rx_timingCollision x y \<longleftrightarrow>
     (let nPreamble = 8;
          Tsym = (2 powr rx_LoRaSF x) / (rx_LoRaBW x / 1000) / 1000;
          csBegin = rx_preambleStartTime x + Tsym * (nPreamble - 6)
      in csBegin < rx_endTime y)"

record receiver =
  rcv_iAmGateway :: bool
  alohaChannelModel :: bool
  energyDetection :: real
  rcv_LoRaCF :: real
  rcv_LoRaSF :: int
  rcv_LoRaBW :: real
  numCollisions :: int
  rcvBelowSensitivity :: int

fun isPacketCollided :: "receiver \<Rightarrow> lora_reception \<Rightarrow> lora_reception list \<Rightarrow> bool result" where
  "isPacketCollided rcv x [] = Inr False"
| "isPacketCollided rcv x (y # ys) =
     andThen (nonOrthDelta (rx_LoRaSF x) (rx_LoRaSF y))
       (\<lambda>delta.
          let overlap = rx_overlap x y;
              frequencyCollision = (rx_LoRaCF x = rx_LoRaCF y);
              captureEffect = (real_of_int delta \<le> rssi_dBm x - rssi_dBm y);
              timingCollision = rx_timingCollision x y
          in if overlap \<and> frequencyCollision
             then if alohaChannelModel rcv then Inr True
                  else if \<not> captureEffect \<and> timingCollision then Inr True
                  else isPacketCollided rcv x ys
             else isPacketCollided rcv x ys)"

text \<open>The reference: what it means for one frame to destroy another.\<close>

definition collides_with :: "receiver \<Rightarrow> lora_reception \<Rightarrow> lora_reception \<Rightarrow> bool" where
  "collides_with rcv x y \<longleftrightarrow>
     rx_startTime x < rx_endTime y \<and> rx_startTime y < rx_endTime x \<and> rx_LoRaCF x = rx_LoRaCF y
     \<and> (alohaChannelModel rcv
        \<or> rssi_dBm x - rssi_dBm y < nonOrthDelta_table ! nat (rx_LoRaSF x - 7) ! nat (rx_LoRaSF y - 7)
          \<and> rx_timingCollision x y)"

lemma rx_overlap_iff:
  "rx_startTime x < rx_endTime x \<Longrightarrow> rx_startTime y < rx_endTime y \<Longrightarrow>
   rx_overlap x y \<longleftrightarrow> rx_startTime x < rx_endTime y \<and> rx_startTime y < rx_endTime x"
  by (simp add: rx_overlap_def Let_def abs_less_iff field_simps)

definition sf_ok :: "lora_reception \<Rightarrow> bool" where
  "sf_ok r \<longleftrightarrow> 7 \<le> rx_LoRaSF r \<and> rx_LoRaSF r \<le> 12 \<and> rx_startTime r < rx_endTime r"

text \<open>
  C6: The collision rule. With proper spreading factors the receiver's loop always decides, and it
  declares a frame collided exactly when some interfering frame is on the air at a common instant, on the
  same carrier frequency, and (unless the channel is pure ALOHA) is not weaker by the capture threshold of
  the two spreading factors while it still lasts in the last six preamble symbols.
\<close>

theorem isPacketCollided_iff:
  assumes "sf_ok x" and "list_all sf_ok ys"
  shows "isPacketCollided rcv x ys = Inr (list_ex (collides_with rcv x) ys)"
  using assms(2)
proof (induction ys)
  case Nil
  show ?case by simp
next
  case (Cons y ys)
  have "nonOrthDelta (rx_LoRaSF x) (rx_LoRaSF y) = Inr (nonOrthDelta_table ! nat (rx_LoRaSF x - 7) ! nat (rx_LoRaSF y - 7))"
    using assms(1) Cons.prems by (simp add: nonOrthDelta_def sf_ok_def)
  moreover have "rx_overlap x y \<longleftrightarrow> rx_startTime x < rx_endTime y \<and> rx_startTime y < rx_endTime x"
    using assms(1) Cons.prems by (simp add: rx_overlap_iff sf_ok_def)
  ultimately show ?case using Cons by (auto simp: Let_def collides_with_def not_le)
qed

definition sample_reception :: "simtime \<Rightarrow> int \<Rightarrow> real \<Rightarrow> lora_reception" where
  "sample_reception t sf p = \<lparr>rx_macFrame = new_mac_frame, rx_startTime = t, rx_endTime = t + 1, rx_preambleStartTime = t,
     rx_power = p, rx_LoRaCF = 868, rx_LoRaSF = sf, rx_LoRaBW = 125000, rx_LoRaCR = 4\<rparr>"

definition sample_receiver :: receiver where
  "sample_receiver = \<lparr>rcv_iAmGateway = True, alohaChannelModel = False, energyDetection = 0, rcv_LoRaCF = 868, rcv_LoRaSF = 7,
     rcv_LoRaBW = 125000, numCollisions = 0, rcvBelowSensitivity = 0\<rparr>"

lemma isPacketCollided_iff_witness:
  "isPacketCollided sample_receiver (sample_reception 0 7 1) [sample_reception 5 7 1, sample_reception (1/2) 7 1] = Inr True"
proof -
  have a: "sf_ok (sample_reception 0 7 1)" "list_all sf_ok [sample_reception 5 7 1, sample_reception (1/2) 7 1]"
    by (simp_all add: sf_ok_def sample_reception_def)
  have "collides_with sample_receiver (sample_reception 0 7 1) (sample_reception (1/2) 7 1)"
    by (simp add: collides_with_def sample_receiver_def sample_reception_def rssi_dBm_def nonOrthDelta_table_def
        rx_timingCollision_def)
  with isPacketCollided_iff [OF a, of sample_receiver] show ?thesis by simp
qed

text \<open>
  Two frames of the same spreading factor never capture each other: when they overlap on the same
  frequency with both in each other's sensitive part of the preamble, at least one of them collides.
\<close>

theorem same_sf_never_both_survive:
  assumes "sf_ok x" and "sf_ok y" and "rx_LoRaSF x = rx_LoRaSF y" and "rx_LoRaCF x = rx_LoRaCF y"
    and "rx_startTime x < rx_endTime y" and "rx_startTime y < rx_endTime x"
    and "rx_timingCollision x y" and "rx_timingCollision y x"
  shows "isPacketCollided rcv x [y] = Inr True \<or> isPacketCollided rcv y [x] = Inr True"
proof -
  have diag: "nonOrthDelta_table ! nat (rx_LoRaSF x - 7) ! nat (rx_LoRaSF x - 7) = 1"
    using assms(1) sf_cases [of "rx_LoRaSF x"] by (auto simp: sf_ok_def nonOrthDelta_table_def)
  have "collides_with rcv x y \<or> collides_with rcv y x"
    using assms diag by (simp add: collides_with_def) argo
  then show ?thesis using assms(1,2) isPacketCollided_iff [of x "[y]" rcv] isPacketCollided_iff [of y "[x]" rcv] by simp
qed

lemma same_sf_never_both_survive_witness:
  "isPacketCollided sample_receiver (sample_reception 0 7 1) [sample_reception (1/2) 7 1] = Inr True
   \<or> isPacketCollided sample_receiver (sample_reception (1/2) 7 1) [sample_reception 0 7 1] = Inr True"
  by (rule same_sf_never_both_survive) (simp_all add: sf_ok_def sample_reception_def rx_timingCollision_def)

subsection \<open>The reception decision\<close>

text \<open>What the receiver listens to: the settings of the end device's application, or its own for a gateway.\<close>

record lora_settings =
  set_LoRaCF :: real
  set_LoRaSF :: int
  set_LoRaBW :: real

record lora_listening =
  ls_startTime :: simtime
  ls_endTime :: simtime
  ls_LoRaCF :: real
  ls_LoRaSF :: int
  ls_LoRaBW :: real

definition computeIsTransmissionPossible :: "receiver \<Rightarrow> lora_settings \<Rightarrow> lora_transmission \<Rightarrow> bool" where
  "computeIsTransmissionPossible rcv app tr \<longleftrightarrow>
     rcv_iAmGateway rcv
     \<or> tr_LoRaCF tr = set_LoRaCF app \<and> tr_LoRaBW tr = set_LoRaBW app \<and> tr_LoRaSF tr = set_LoRaSF app"

definition createListening :: "receiver \<Rightarrow> lora_settings \<Rightarrow> simtime \<Rightarrow> simtime \<Rightarrow> lora_listening" where
  "createListening rcv app startTime endTime =
     (if \<not> rcv_iAmGateway rcv
      then \<lparr>ls_startTime = startTime, ls_endTime = endTime, ls_LoRaCF = set_LoRaCF app, ls_LoRaSF = set_LoRaSF app,
            ls_LoRaBW = set_LoRaBW app\<rparr>
      else \<lparr>ls_startTime = startTime, ls_endTime = endTime, ls_LoRaCF = rcv_LoRaCF rcv, ls_LoRaSF = rcv_LoRaSF rcv,
            ls_LoRaBW = rcv_LoRaBW rcv\<rparr>)"

definition computeIsReceptionPossible :: "lora_listening \<Rightarrow> lora_reception \<Rightarrow> receiver \<Rightarrow> bool \<times> receiver" where
  "computeIsReceptionPossible listening r rcv =
     (if \<not> rcv_iAmGateway rcv
         \<and> (ls_LoRaCF listening \<noteq> rx_LoRaCF r \<or> ls_LoRaBW listening \<noteq> rx_LoRaBW r \<or> ls_LoRaSF listening \<noteq> rx_LoRaSF r)
      then (False, rcv)
      else let isReceptionPossible = getSensitivity r \<le> rx_computeMinPower r
           in (isReceptionPossible,
               if \<not> isReceptionPossible then rcv\<lparr>rcvBelowSensitivity := rcvBelowSensitivity rcv + 1\<rparr> else rcv))"

text \<open>The second argument is the MAC address of the receiving node, which the code asks its MAC for.\<close>

definition computeIsReceptionAttempted ::
  "devaddr \<Rightarrow> lora_reception \<Rightarrow> lora_reception list \<Rightarrow> receiver \<Rightarrow> (bool \<times> receiver) result" where
  "computeIsReceptionAttempted macAddress r interference rcv =
     andThen (isPacketCollided rcv r interference)
       (\<lambda>collided.
          if collided
          then let ours = (if \<not> rcv_iAmGateway rcv then receiverAddress (rx_macFrame r) = macAddress
                           else receiverAddress (rx_macFrame r) = BROADCAST_ADDRESS)
               in Inr (False, if ours then rcv\<lparr>numCollisions := numCollisions rcv + 1\<rparr> else rcv)
          else Inr (True, rcv))"

definition computeIsReceptionSuccessful :: "lora_reception \<Rightarrow> bool" where
  "computeIsReceptionSuccessful r \<longleftrightarrow> True"

record reception_decision =
  rd_isReceptionPossible :: bool
  rd_isReceptionAttempted :: bool
  rd_isReceptionSuccessful :: bool

definition computeReceptionDecision ::
  "devaddr \<Rightarrow> lora_listening \<Rightarrow> lora_reception \<Rightarrow> lora_reception list \<Rightarrow> receiver \<Rightarrow> (reception_decision \<times> receiver) result" where
  "computeReceptionDecision macAddress listening r interference rcv0 =
     (let (isReceptionPossible, rcv1) = computeIsReceptionPossible listening r rcv0
      in andThen (if isReceptionPossible then computeIsReceptionAttempted macAddress r interference rcv1 else Inr (False, rcv1))
           (\<lambda>(isReceptionAttempted, rcv2).
              Inr (\<lparr>rd_isReceptionPossible = isReceptionPossible, rd_isReceptionAttempted = isReceptionAttempted,
                    rd_isReceptionSuccessful = isReceptionAttempted \<and> computeIsReceptionSuccessful r\<rparr>, rcv2)))"

text \<open>
  C5: When a gateway receives: exactly the frames whose power reaches the sensitivity of their spreading
  factor and bandwidth and that no interfering frame destroys; of the others it counts those below the
  sensitivity, and those that collided and were addressed to the network. It never counts a frame twice.
\<close>

theorem gateway_reception_decision:
  assumes "rcv_iAmGateway rcv" and "sf_ok r" and "list_all sf_ok interference"
  shows "computeReceptionDecision addr listening r interference rcv =
    (let heard = getSensitivity r \<le> rx_power r; destroyed = list_ex (collides_with rcv r) interference
     in Inr (\<lparr>rd_isReceptionPossible = heard, rd_isReceptionAttempted = heard \<and> \<not> destroyed,
              rd_isReceptionSuccessful = heard \<and> \<not> destroyed\<rparr>,
             rcv\<lparr>numCollisions := numCollisions rcv
                    + (if heard \<and> destroyed \<and> receiverAddress (rx_macFrame r) = BROADCAST_ADDRESS then 1 else 0),
                 rcvBelowSensitivity := rcvBelowSensitivity rcv + (if heard then 0 else 1)\<rparr>))"
  using assms isPacketCollided_iff [OF assms(2,3), of rcv]
  by (simp add: computeReceptionDecision_def computeIsReceptionPossible_def computeIsReceptionAttempted_def
      computeIsReceptionSuccessful_def rx_computeMinPower_def Let_def)

lemma gateway_reception_decision_witness:
  "\<exists>d rcv'. computeReceptionDecision 0 \<lparr>ls_startTime = 0, ls_endTime = 1, ls_LoRaCF = 1, ls_LoRaSF = 7, ls_LoRaBW = 1\<rparr>
      (sample_reception 0 7 1) [sample_reception (1/2) 7 1] sample_receiver = Inr (d, rcv')
    \<and> \<not> rd_isReceptionSuccessful d \<and> rcvBelowSensitivity rcv' = 0"
proof -
  have a: "rcv_iAmGateway sample_receiver" "sf_ok (sample_reception 0 7 1)" "list_all sf_ok [sample_reception (1/2) 7 1]"
    by (simp_all add: sf_ok_def sample_reception_def sample_receiver_def)
  have c: "collides_with sample_receiver (sample_reception 0 7 1) (sample_reception (1/2) 7 1)"
    by (simp add: collides_with_def sample_receiver_def sample_reception_def rssi_dBm_def nonOrthDelta_table_def
        rx_timingCollision_def)
  have "dBm2mW 0 = 1" by (simp add: dBm2mW_def)
  moreover have "dBm2mW (-124) \<le> dBm2mW 0" by simp
  ultimately have "dBm2mW (-124) \<le> 1" by (simp only:)
  then have h: "getSensitivity (sample_reception 0 7 1) \<le> rx_power (sample_reception 0 7 1)"
    by (simp add: getSensitivity_def sample_reception_def sensitivity_dBm_def)
  show ?thesis
    using gateway_reception_decision [OF a, of 0 "\<lparr>ls_startTime = 0, ls_endTime = 1, ls_LoRaCF = 1, ls_LoRaSF = 7, ls_LoRaBW = 1\<rparr>"]
      c h by (simp add: Let_def sample_receiver_def)
qed

text \<open>
  An end device receives no frame whose carrier frequency, bandwidth or spreading factor differs from
  what it listens to, whatever its power, and counts nothing for it.
\<close>

theorem device_ignores_other_settings:
  assumes "\<not> rcv_iAmGateway rcv"
    and "rx_LoRaCF r \<noteq> ls_LoRaCF l \<or> rx_LoRaBW r \<noteq> ls_LoRaBW l \<or> rx_LoRaSF r \<noteq> ls_LoRaSF l"
  shows "computeReceptionDecision addr l r interference rcv =
    Inr (\<lparr>rd_isReceptionPossible = False, rd_isReceptionAttempted = False, rd_isReceptionSuccessful = False\<rparr>, rcv)"
proof -
  have "ls_LoRaCF l \<noteq> rx_LoRaCF r \<or> ls_LoRaBW l \<noteq> rx_LoRaBW r \<or> ls_LoRaSF l \<noteq> rx_LoRaSF r" using assms(2) by auto
  with assms(1) show ?thesis by (simp add: computeReceptionDecision_def computeIsReceptionPossible_def)
qed

lemma device_ignores_other_settings_witness:
  "computeReceptionDecision 0 \<lparr>ls_startTime = 0, ls_endTime = 1, ls_LoRaCF = 868, ls_LoRaSF = 12, ls_LoRaBW = 125000\<rparr>
      (sample_reception 0 7 1) [] (sample_receiver\<lparr>rcv_iAmGateway := False\<rparr>)
   = Inr (\<lparr>rd_isReceptionPossible = False, rd_isReceptionAttempted = False, rd_isReceptionSuccessful = False\<rparr>,
          sample_receiver\<lparr>rcv_iAmGateway := False\<rparr>)"
  by (rule device_ignores_other_settings) (simp_all add: sample_reception_def)

end
