(* ===== verification/LoRaChannel.thy ===== *)
theory LoRaChannel
  imports LoRaReceiver
begin

text \<open>
  The radio channel: \<open>LoRaPhy/LoRaAnalogModel.cc\<close> with \<open>ScalarNoise.cc\<close> and \<open>ScalarSNIR.cc\<close>: the received
  power, the noise over time and the signal to noise ratio. The path loss is an argument here (theory
  \<open>LoRaPathLoss\<close>). The maps from times to power changes are lists sorted by time, as \<open>std::map\<close> iterates them.
\<close>

subsection \<open>Received power\<close>

definition computeReceptionPower :: "real \<Rightarrow> real \<Rightarrow> real \<Rightarrow> real \<Rightarrow> real option \<Rightarrow> real" where
  "computeReceptionPower transmissionPower transmitterAntennaGain receiverAntennaGain pathLoss obstacleLossModel =
     (let obstacleLoss = (case obstacleLossModel of Some loss \<Rightarrow> loss | None \<Rightarrow> 1)
      in transmissionPower * min 1 (transmitterAntennaGain * receiverAntennaGain * pathLoss * obstacleLoss))"

definition computeReception :: "lora_transmission \<Rightarrow> simtime \<Rightarrow> simtime \<Rightarrow> simtime \<Rightarrow> real \<Rightarrow> lora_reception" where
  "computeReception tr arrivalStart arrivalEnd arrivalPreambleStart receivedPower =
     \<lparr>rx_macFrame = tr_macFrame tr, rx_startTime = arrivalStart, rx_endTime = arrivalEnd,
      rx_preambleStartTime = arrivalPreambleStart, rx_power = receivedPower, rx_LoRaCF = tr_LoRaCF tr,
      rx_LoRaSF = tr_LoRaSF tr, rx_LoRaBW = tr_LoRaBW tr, rx_LoRaCR = tr_LoRaCR tr\<rparr>"

subsection \<open>Noise\<close>

text \<open>The table of \<open>getBackgroundNoisePower\<close>, written out as the code has it.\<close>

definition noise_dBm :: "int \<Rightarrow> real \<Rightarrow> real" where
  "noise_dBm sf bw =
     (let row = (\<lambda>b125 b250 b500. if bw = 125000 then b125 else if bw = 250000 then b250
                   else if bw = 500000 then b500 else -126.5)
      in if sf = 6 then row (-121) (-118) (-111)
         else if sf = 7 then row (-124) (-122) (-116)
         else if sf = 8 then row (-127) (-125) (-119)
         else if sf = 9 then row (-130) (-128) (-122)
         else if sf = 10 then row (-133) (-130) (-125)
         else if sf = 11 then row (-135) (-132) (-128)
         else if sf = 12 then row (-137) (-135) (-129)
         else -126.5)"

definition getBackgroundNoisePower :: "lora_listening \<Rightarrow> real" where
  "getBackgroundNoisePower listening = dBm2mW (noise_dBm (ls_LoRaSF listening) (ls_LoRaBW listening)) / 1000"

fun pc_add :: "simtime \<Rightarrow> real \<Rightarrow> (simtime \<times> real) list \<Rightarrow> (simtime \<times> real) list" where
  "pc_add t p [] = [(t, p)]"
| "pc_add t p ((s, q) # r) =
     (if t < s then (t, p) # (s, q) # r else if t = s then (s, q + p) # r else (s, q) # pc_add t p r)"

definition areOverlappingBands :: "real \<Rightarrow> real \<Rightarrow> real \<Rightarrow> real \<Rightarrow> bool" where
  "areOverlappingBands cf1 bw1 cf2 bw2 \<longleftrightarrow>
     cf2 - bw2 / 2 \<le> cf1 + bw1 / 2 \<and> cf1 - bw1 / 2 \<le> cf2 + bw2 / 2"

record scalar_noise =
  noiseStartTime :: simtime
  noiseEndTime :: simtime
  powerChanges :: "(simtime \<times> real) list"

text \<open>One turn of the loop over the interfering receptions.\<close>

definition noise_add :: "lora_listening \<Rightarrow> lora_reception \<Rightarrow> scalar_noise \<Rightarrow> scalar_noise result" where
  "noise_add l r n =
     (if ls_LoRaCF l = rx_LoRaCF r \<and> ls_LoRaBW l = rx_LoRaBW r
      then Inr \<lparr>noiseStartTime = (if rx_startTime r < noiseStartTime n then rx_startTime r else noiseStartTime n),
                noiseEndTime = (if noiseEndTime n < rx_endTime r then rx_endTime r else noiseEndTime n),
                powerChanges = pc_add (rx_endTime r) (- rx_power r) (pc_add (rx_startTime r) (rx_power r) (powerChanges n))\<rparr>
      else if areOverlappingBands (ls_LoRaCF l) (ls_LoRaBW l) (rx_LoRaCF r) (rx_LoRaBW r)
      then Inl (RuntimeError ''Overlapping bands are not supported'')
      else Inr n)"

text \<open>
  The background noise is inserted at the listening's start and end; a second insertion under the same
  key would have no effect.
\<close>

definition background_changes :: "lora_listening \<Rightarrow> (simtime \<times> real) list" where
  "background_changes l =
     (if ls_startTime l = ls_endTime l then [(ls_startTime l, getBackgroundNoisePower l)]
      else pc_add (ls_endTime l) (- getBackgroundNoisePower l) [(ls_startTime l, getBackgroundNoisePower l)])"

definition computeNoise :: "simtime \<Rightarrow> lora_listening \<Rightarrow> lora_reception list \<Rightarrow> scalar_noise result" where
  "computeNoise maxTime l interference =
     andThen (foldR (noise_add l) interference \<lparr>noiseStartTime = maxTime, noiseEndTime = 0, powerChanges = []\<rparr>)
       (\<lambda>n. Inr (n\<lparr>powerChanges := fold (\<lambda>(t, p). pc_add t p) (background_changes l) (powerChanges n)\<rparr>))"

text \<open>\<open>ScalarNoise::computeMaxPower\<close>: the loop's two accumulators are the last two arguments.\<close>

fun maxPower_loop :: "simtime \<Rightarrow> simtime \<Rightarrow> (simtime \<times> real) list \<Rightarrow> real \<Rightarrow> real \<Rightarrow> real" where
  "maxPower_loop startTime endTime [] noisePower maxNoisePower = maxNoisePower"
| "maxPower_loop startTime endTime ((t, p) # r) noisePower maxNoisePower =
     (let noisePower' = noisePower + p
      in maxPower_loop startTime endTime r noisePower'
           (if maxNoisePower < noisePower' \<and> startTime \<le> t \<and> t \<le> endTime then noisePower' else maxNoisePower))"

definition computeMaxPower :: "simtime \<Rightarrow> simtime \<Rightarrow> scalar_noise \<Rightarrow> real" where
  "computeMaxPower startTime endTime n = maxPower_loop startTime endTime (powerChanges n) 0 0"

definition computeMin :: "lora_reception \<Rightarrow> scalar_noise \<Rightarrow> real" where
  "computeMin r n = rx_power r / computeMaxPower (rx_startTime r) (rx_endTime r) n"

definition computeListeningDecision :: "receiver \<Rightarrow> simtime \<Rightarrow> lora_listening \<Rightarrow> lora_reception list \<Rightarrow> bool result" where
  "computeListeningDecision rcv maxTime l interference =
     andThen (computeNoise maxTime l interference)
       (\<lambda>n. Inr (energyDetection rcv \<le> computeMaxPower (ls_startTime l) (ls_endTime l) n))"

text \<open>The reference: the noise power at an instant.\<close>

definition level :: "simtime \<Rightarrow> (simtime \<times> real) list \<Rightarrow> real" where
  "level u xs = (\<Sum>(t, p)\<leftarrow>xs. if t \<le> u then p else 0)"

definition signal_at :: "simtime \<Rightarrow> lora_reception \<Rightarrow> real" where
  "signal_at u r = (if rx_startTime r \<le> u \<and> u < rx_endTime r then rx_power r else 0)"

definition same_band :: "lora_listening \<Rightarrow> lora_reception \<Rightarrow> bool" where
  "same_band l r \<longleftrightarrow> ls_LoRaCF l = rx_LoRaCF r \<and> ls_LoRaBW l = rx_LoRaBW r"

lemma level_pc_add: "level u (pc_add t p xs) = level u xs + (if t \<le> u then p else 0)"
  by (induction t p xs rule: pc_add.induct) (auto simp: level_def)

lemma noise_add_level:
  assumes "noise_add l r n = Inr n'" and "rx_startTime r \<le> rx_endTime r"
  shows "level u (powerChanges n') = level u (powerChanges n) + (if same_band l r then signal_at u r else 0)"
  using assms by (auto simp: noise_add_def same_band_def signal_at_def level_pc_add split: if_splits)

lemma noise_fold_level:
  assumes "foldR (noise_add l) rs n = Inr n'" and "list_all (\<lambda>r. rx_startTime r \<le> rx_endTime r) rs"
  shows "level u (powerChanges n') = level u (powerChanges n) + (\<Sum>r\<leftarrow>filter (same_band l) rs. signal_at u r)"
  using assms
proof (induction rs arbitrary: n)
  case Nil
  then show ?case by simp
next
  case (Cons r rs)
  from Cons.prems(1) obtain n1 where n1: "noise_add l r n = Inr n1" "foldR (noise_add l) rs n1 = Inr n'"
    by (auto elim: andThen_InrE)
  with Cons.IH [OF n1(2)] noise_add_level [OF n1(1), of u] Cons.prems(2) show ?case by simp
qed

definition noise_at :: "lora_listening \<Rightarrow> lora_reception list \<Rightarrow> simtime \<Rightarrow> real" where
  "noise_at l rs u = (\<Sum>r\<leftarrow>filter (same_band l) rs. signal_at u r)
     + (if ls_startTime l \<le> u \<and> u < ls_endTime l then getBackgroundNoisePower l else 0)"

lemma computeNoise_level_at:
  assumes "computeNoise maxTime l rs = Inr n" and "list_all (\<lambda>r. rx_startTime r \<le> rx_endTime r) rs"
    and "ls_startTime l < ls_endTime l"
  shows "level u (powerChanges n) = noise_at l rs u"
proof -
  let ?n0 = "\<lparr>noiseStartTime = maxTime, noiseEndTime = 0, powerChanges = []\<rparr>"
  from assms(1) obtain n1 where n1: "foldR (noise_add l) rs ?n0 = Inr n1"
    "n = n1\<lparr>powerChanges := fold (\<lambda>(t, p). pc_add t p) (background_changes l) (powerChanges n1)\<rparr>"
    by (auto simp: computeNoise_def elim: andThen_InrE)
  have "level u (powerChanges n) = level u (powerChanges n1)
      + (if ls_startTime l \<le> u \<and> u < ls_endTime l then getBackgroundNoisePower l else 0)"
    using n1(2) assms(3) by (auto simp: background_changes_def level_pc_add)
  with noise_fold_level [OF n1(1) assms(2), of u] show ?thesis by (simp add: level_def noise_at_def)
qed

text \<open>
  The noise that the analog model reports for a listening is, at every instant, the sum of the powers
  of the interfering receptions of the same band that are on the air then, plus the background noise while
  the listening lasts.
\<close>

theorem computeNoise_level:
  assumes "computeNoise maxTime l rs = Inr n" and "list_all (\<lambda>r. rx_startTime r \<le> rx_endTime r) rs"
    and "ls_startTime l < ls_endTime l"
  shows "level u (powerChanges n) = noise_at l rs u"
  using assms by (rule computeNoise_level_at)

definition sample_channel_listening :: lora_listening where
  "sample_channel_listening = \<lparr>ls_startTime = 0, ls_endTime = 2, ls_LoRaCF = 868, ls_LoRaSF = 7, ls_LoRaBW = 125000\<rparr>"

definition sample_noise :: scalar_noise where
  "sample_noise = (case computeNoise 100 sample_channel_listening [sample_reception 0 7 3, sample_reception (1/2) 7 5] of
     Inr n \<Rightarrow> n | Inl _ \<Rightarrow> \<lparr>noiseStartTime = 0, noiseEndTime = 0, powerChanges = []\<rparr>)"

lemma sample_noise_computed:
  "computeNoise 100 sample_channel_listening [sample_reception 0 7 3, sample_reception (1/2) 7 5] = Inr sample_noise"
  unfolding sample_noise_def
  by (simp add: computeNoise_def noise_add_def sample_channel_listening_def sample_reception_def)

lemma computeNoise_level_witness:
  "level (3/4) (powerChanges sample_noise) = 8 + getBackgroundNoisePower sample_channel_listening"
proof -
  have "level (3/4) (powerChanges sample_noise)
      = noise_at sample_channel_listening [sample_reception 0 7 3, sample_reception (1/2) 7 5] (3/4)"
    by (rule computeNoise_level [OF sample_noise_computed]) (simp_all add: sample_reception_def sample_channel_listening_def)
  then show ?thesis by (simp add: noise_at_def same_band_def signal_at_def sample_reception_def sample_channel_listening_def)
qed

text \<open>The prefix sums of a list sorted by time are its levels.\<close>

lemma maxPower_loop_max:
  assumes "sorted_wrt (<) (map fst xs)" and "\<forall>(t, p)\<in>set ys. \<forall>(t', p')\<in>set xs. t < t'"
  shows "maxPower_loop s e xs (\<Sum>(t, p)\<leftarrow>ys. p) m
    = fold max (map (\<lambda>(t, p). level t (ys @ xs)) (filter (\<lambda>(t, p). s \<le> t \<and> t \<le> e) xs)) m"
  using assms
proof (induction xs arbitrary: ys m)
  case Nil
  show ?case by simp
next
  case (Cons x xs)
  obtain t p where x: "x = (t, p)" by force
  have ys: "level t ys = (\<Sum>(t, p)\<leftarrow>ys. p)"
    unfolding level_def using Cons.prems(2) by (intro arg_cong [of _ _ sum_list] map_cong) (auto simp: x less_imp_le)
  have xs: "level t xs = 0"
  proof -
    have "(\<Sum>(t', p')\<leftarrow>xs. if t' \<le> t then p' else 0) = (\<Sum>x\<leftarrow>xs. 0)"
      using Cons.prems(1) by (intro arg_cong [of _ _ sum_list] map_cong) (auto simp: x)
    then show ?thesis by (simp add: level_def)
  qed
  have lt: "level t (ys @ x # xs) = (\<Sum>(t, p)\<leftarrow>ys. p) + p"
    using ys xs by (simp add: level_def x)
  have sn: "(\<Sum>(t, p)\<leftarrow>ys. p) + p = (\<Sum>(t, p)\<leftarrow>ys @ [x]. p)" by (simp add: x)
  have app: "ys @ x # xs = (ys @ [x]) @ xs" by simp
  have IH: "maxPower_loop s e xs (\<Sum>(t, p)\<leftarrow>ys @ [x]. p) m'
      = fold max (map (\<lambda>(t, p). level t ((ys @ [x]) @ xs)) (filter (\<lambda>(t, p). s \<le> t \<and> t \<le> e) xs)) m'" for m'
    by (rule Cons.IH) (use Cons.prems in \<open>auto simp: x\<close>)
  have upd: "(if m < a \<and> b then a else m) = (if b then max a m else m)" for a b and m :: real
    by (auto simp: max_def)
  show ?case
    using lt by (simp add: x sn [unfolded x] upd IH [unfolded x] Let_def del: sum_list_append map_append)
qed

lemma pc_add_keys: "set (map fst (pc_add t p xs)) = insert t (set (map fst xs))"
  by (induction t p xs rule: pc_add.induct) auto

lemma pc_add_sorted: "sorted_wrt (<) (map fst xs) \<Longrightarrow> sorted_wrt (<) (map fst (pc_add t p xs))"
proof (induction t p xs rule: pc_add.induct)
  case (1 t p)
  show ?case by simp
next
  case (2 t p s q r)
  then show ?case using pc_add_keys [of t p r] by (auto simp: image_iff)
qed

lemma computeNoise_changes:
  assumes "computeNoise maxTime l rs = Inr n"
  shows "sorted_wrt (<) (map fst (powerChanges n))" and "ls_startTime l \<in> set (map fst (powerChanges n))"
proof -
  let ?n0 = "\<lparr>noiseStartTime = maxTime, noiseEndTime = 0, powerChanges = []\<rparr>"
  from assms obtain n1 where n1: "foldR (noise_add l) rs ?n0 = Inr n1"
    "n = n1\<lparr>powerChanges := fold (\<lambda>(t, p). pc_add t p) (background_changes l) (powerChanges n1)\<rparr>"
    by (auto simp: computeNoise_def elim: andThen_InrE)
  have s1: "sorted_wrt (<) (map fst (powerChanges n1))"
    by (rule foldR_invariant [where P = "\<lambda>n. sorted_wrt (<) (map fst (powerChanges n))", OF _ n1(1)])
      (auto simp: noise_add_def pc_add_sorted split: if_splits)
  have sf: "sorted_wrt (<) (map fst (fold (\<lambda>(t, p). pc_add t p) ys xs))" if "sorted_wrt (<) (map fst xs)" for xs ys
    using that by (induction ys arbitrary: xs) (auto simp: pc_add_sorted)
  show "sorted_wrt (<) (map fst (powerChanges n))" using n1(2) sf [OF s1] by simp
  have fk: "set (map fst (fold (\<lambda>(t, p). pc_add t p) ys xs)) = set (map fst ys) \<union> set (map fst xs)" for xs ys
    by (induction ys arbitrary: xs) (auto simp: pc_add_keys simp del: set_map)
  have "ls_startTime l \<in> set (map fst (background_changes l))"
    by (simp add: background_changes_def pc_add_keys del: set_map)
  then show "ls_startTime l \<in> set (map fst (powerChanges n))" using n1(2) fk by (simp del: set_map)
qed

text \<open>Between two changes the level is constant.\<close>

lemma level_at_change:
  assumes "s \<in> set (map fst xs)" and "s \<le> u"
  obtains t where "t \<in> set (map fst xs)" "s \<le> t" "t \<le> u" "level t xs = level u xs"
proof -
  let ?K = "{t \<in> set (map fst xs). t \<le> u}"
  have K: "finite ?K" "s \<in> ?K" using assms by simp_all
  let ?t = "Max ?K"
  have "?t \<in> ?K" using K by (intro Max_in) blast+
  then have t: "?t \<in> set (map fst xs)" "?t \<le> u" "s \<le> ?t" using Max_ge [OF K] by blast+
  have "(k \<le> ?t) = (k \<le> u)" if "k \<in> set (map fst xs)" for k
    using that t(2) Max_ge [OF K(1), of k] by (auto simp del: set_map)
  then have "level ?t xs = level u xs"
    unfolding level_def by (intro arg_cong [of _ _ sum_list] map_cong) force+
  with t that show thesis by blast
qed

lemma computeMaxPower_peak:
  assumes "sorted_wrt (<) (map fst (powerChanges n))" and "s \<in> set (map fst (powerChanges n))"
  shows "s \<le> u \<Longrightarrow> u \<le> e \<Longrightarrow> level u (powerChanges n) \<le> computeMaxPower s e n"
    and "computeMaxPower s e n = 0 \<or> (\<exists>t. s \<le> t \<and> t \<le> e \<and> level t (powerChanges n) = computeMaxPower s e n)"
proof -
  let ?xs = "powerChanges n"
  let ?P = "map (\<lambda>(t, p). level t ?xs) (filter (\<lambda>(t, p). s \<le> t \<and> t \<le> e) ?xs)"
  have M: "computeMaxPower s e n = Max (set (0 # ?P))"
    unfolding Max.set_eq_fold using maxPower_loop_max [OF assms(1), of "[]" s e 0]
    by (simp add: computeMaxPower_def)
  have P: "set ?P = (\<lambda>t. level t ?xs) ` {t \<in> set (map fst ?xs). s \<le> t \<and> t \<le> e}" by force
  show "level u ?xs \<le> computeMaxPower s e n" if u: "s \<le> u" "u \<le> e"
  proof -
    obtain t where "t \<in> set (map fst ?xs)" "s \<le> t" "t \<le> u" "level t ?xs = level u ?xs"
      using level_at_change [OF assms(2) u(1)] .
    then have "level u ?xs \<in> set ?P" using P u(2) by (metis (mono_tags, lifting) imageI mem_Collect_eq order_trans)
    then show ?thesis unfolding M by (intro Max_ge) simp_all
  qed
  have "Max (set (0 # ?P)) \<in> set (0 # ?P)" by (rule Max_in) simp_all
  then show "computeMaxPower s e n = 0 \<or> (\<exists>t. s \<le> t \<and> t \<le> e \<and> level t ?xs = computeMaxPower s e n)"
    unfolding M using P by (auto simp del: set_map)
qed

text \<open>
  C31: The noise a reception is compared with is the peak noise of its listening: no instant of the
  listening is noisier, and some instant is exactly that noisy.
\<close>

theorem computeNoise_peak:
  assumes "computeNoise maxTime l rs = Inr n" and "list_all (\<lambda>r. rx_startTime r \<le> rx_endTime r \<and> 0 \<le> rx_power r) rs"
    and "ls_startTime l < ls_endTime l"
  shows "(\<forall>u. ls_startTime l \<le> u \<and> u \<le> ls_endTime l \<longrightarrow>
             noise_at l rs u \<le> computeMaxPower (ls_startTime l) (ls_endTime l) n)
       \<and> (\<exists>u. ls_startTime l \<le> u \<and> u \<le> ls_endTime l
             \<and> noise_at l rs u = computeMaxPower (ls_startTime l) (ls_endTime l) n)"
proof -
  have ok: "list_all (\<lambda>r. rx_startTime r \<le> rx_endTime r) rs" using assms(2) by (auto simp: list_all_iff)
  have lv: "level u (powerChanges n) = noise_at l rs u" for u
    using computeNoise_level_at [OF assms(1) ok assms(3)] .
  have nonneg: "0 \<le> noise_at l rs u" for u
  proof -
    have "0 \<le> (\<Sum>r\<leftarrow>filter (same_band l) rs. signal_at u r)"
      using assms(2) by (intro sum_list_nonneg) (auto simp: list_all_iff signal_at_def)
    moreover have "0 \<le> getBackgroundNoisePower l" by (simp add: getBackgroundNoisePower_def less_imp_le)
    ultimately show ?thesis by (simp add: noise_at_def)
  qed
  note peak = computeMaxPower_peak [OF computeNoise_changes [OF assms(1)], where e = "ls_endTime l", unfolded lv]
  have "\<exists>u. ls_startTime l \<le> u \<and> u \<le> ls_endTime l
             \<and> noise_at l rs u = computeMaxPower (ls_startTime l) (ls_endTime l) n"
  proof (cases "computeMaxPower (ls_startTime l) (ls_endTime l) n = 0")
    case True
    then have "noise_at l rs (ls_startTime l) = 0"
      using peak(1) [of "ls_startTime l"] nonneg [of "ls_startTime l"] assms(3) by simp
    with True assms(3) show ?thesis by (intro exI [of _ "ls_startTime l"]) simp
  next
    case False
    then show ?thesis using peak(2) by simp
  qed
  then show ?thesis using peak(1) by blast
qed

lemma computeNoise_peak_witness:
  "noise_at sample_channel_listening [sample_reception 0 7 3, sample_reception (1/2) 7 5] (3/4) \<le> computeMaxPower 0 2 sample_noise"
proof -
  have "list_all (\<lambda>r. rx_startTime r \<le> rx_endTime r \<and> 0 \<le> rx_power r) [sample_reception 0 7 3, sample_reception (1/2) 7 5]"
    and "ls_startTime sample_channel_listening < ls_endTime sample_channel_listening"
    by (simp_all add: sample_reception_def sample_channel_listening_def)
  from computeNoise_peak [OF sample_noise_computed this] show ?thesis by (simp add: sample_channel_listening_def)
qed

end
