(* ===== verification/LoRaNeighborCache.thy ===== *)
theory LoRaNeighborCache
  imports Prelude
begin

text \<open>
  The neighbor cache of the radio medium, \<open>LoRaPhy/LoRaNeighborCache.cc\<close>: for every radio a vector of the
  radios near it, refilled periodically, to which the medium sends the frames. Radios are natural numbers
  (their ids). The \<open>RadioEntry\<close> objects live in a store, since the vector \<open>radios\<close> and the map
  \<open>radioToEntry\<close> share them; \<open>ref\<close> is an entry's address. Where a radio is, and the largest speed the
  limit cache reports (\<open>None\<close> for a NaN), are arguments.
\<close>

type_synonym coord = "real \<times> real \<times> real"

fun sqrdist :: "coord \<Rightarrow> coord \<Rightarrow> real" where
  "sqrdist (x, y, z) (x', y', z') = (x - x')\<^sup>2 + (y - y')\<^sup>2 + (z - z')\<^sup>2"

record radio_entry =
  re_radio :: nat
  neighborVector :: "nat list"

record neighbor_cache =
  nc_store :: "nat \<Rightarrow> radio_entry"
  nc_next :: nat
  nc_radios :: "nat list"
  radioToEntry :: "nat \<rightharpoonup> nat"
  refillPeriod :: real
  nc_range :: real
  nc_maxSpeed :: "real option"
  updateNeighborListsTimer :: "simtime option"

definition updateNeighborList :: "(nat \<Rightarrow> coord) \<Rightarrow> nat \<Rightarrow> neighbor_cache \<Rightarrow> neighbor_cache" where
  "updateNeighborList pos ref nc =
     (let e = nc_store nc ref;
          near = (\<lambda>other. case nc_maxSpeed nc of
                    None \<Rightarrow> False
                  | Some v \<Rightarrow> (let radius = v * refillPeriod nc + nc_range nc
                               in sqrdist (pos other) (pos (re_radio e)) \<le> radius * radius));
          others = map (\<lambda>r. re_radio (nc_store nc r)) (nc_radios nc)
      in nc\<lparr>nc_store := (nc_store nc)(ref := e\<lparr>neighborVector := filter (\<lambda>o'. o' \<noteq> re_radio e \<and> near o') others\<rparr>)\<rparr>)"

definition updateNeighborLists :: "(nat \<Rightarrow> coord) \<Rightarrow> neighbor_cache \<Rightarrow> neighbor_cache" where
  "updateNeighborLists pos nc = fold (updateNeighborList pos) (nc_radios nc) nc"

text \<open>\<open>initialize\<close>, stage \<open>INITSTAGE_LINK_LAYER_2\<close>. A NaN differs from 0.\<close>

definition nc_initialize :: "(nat \<Rightarrow> coord) \<Rightarrow> real option \<Rightarrow> simtime \<Rightarrow> neighbor_cache \<Rightarrow> neighbor_cache" where
  "nc_initialize pos maxSpeed now nc =
     (let nc = updateNeighborLists pos (nc\<lparr>nc_maxSpeed := maxSpeed\<rparr>)
      in if maxSpeed \<noteq> Some 0 then nc\<lparr>updateNeighborListsTimer := Some (now + refillPeriod nc)\<rparr> else nc)"

definition nc_handleMessage :: "(nat \<Rightarrow> coord) \<Rightarrow> simtime \<Rightarrow> neighbor_cache \<Rightarrow> neighbor_cache" where
  "nc_handleMessage pos now nc =
     (let nc = updateNeighborLists pos (nc\<lparr>updateNeighborListsTimer := None\<rparr>)
      in nc\<lparr>updateNeighborListsTimer := Some (now + refillPeriod nc)\<rparr>)"

definition nc_addRadio ::
  "(nat \<Rightarrow> coord) \<Rightarrow> real option \<Rightarrow> bool \<Rightarrow> simtime \<Rightarrow> nat \<Rightarrow> neighbor_cache \<Rightarrow> neighbor_cache" where
  "nc_addRadio pos maxSpeed initialized now radio nc =
     (let newEntry = nc_next nc;
          nc = nc\<lparr>nc_store := (nc_store nc)(newEntry := \<lparr>re_radio = radio, neighborVector = []\<rparr>), nc_next := newEntry + 1,
                  nc_radios := nc_radios nc @ [newEntry], radioToEntry := (radioToEntry nc)(radio \<mapsto> newEntry)\<rparr>;
          nc = updateNeighborLists pos nc;
          nc = nc\<lparr>nc_maxSpeed := maxSpeed\<rparr>
      in if maxSpeed \<noteq> Some 0 \<and> updateNeighborListsTimer nc = None \<and> initialized
         then nc\<lparr>updateNeighborListsTimer := Some (now + refillPeriod nc)\<rparr> else nc)"

text \<open>The loop erases the radio from \<open>neighborVector\<close>, a local copy of the entry's vector.\<close>

definition removeRadioFromNeighborLists :: "nat \<Rightarrow> neighbor_cache \<Rightarrow> neighbor_cache" where
  "removeRadioFromNeighborLists radio nc =
     fst (fold (\<lambda>ref (nc, localCopy). (nc, remove1 radio (neighborVector (nc_store nc ref)))) (nc_radios nc) (nc, []))"

text \<open>
  \<open>radioToEntry[radio]\<close> inserts a null pointer for an unknown radio, which no element of \<open>radios\<close> equals.
  The entry stays in the map.
\<close>

definition nc_removeRadio :: "real option \<Rightarrow> bool \<Rightarrow> nat \<Rightarrow> neighbor_cache \<Rightarrow> neighbor_cache result" where
  "nc_removeRadio maxSpeed initialized radio nc =
     (case radioToEntry nc radio of
        None \<Rightarrow> Inl (RuntimeError ''You can't remove radio'')
      | Some ref \<Rightarrow>
          if ref \<in> set (nc_radios nc)
          then let nc = removeRadioFromNeighborLists radio nc;
                   nc = nc\<lparr>nc_radios := remove1 ref (nc_radios nc), nc_maxSpeed := maxSpeed\<rparr>
               in Inr (if maxSpeed = Some 0 \<and> initialized then nc\<lparr>updateNeighborListsTimer := None\<rparr> else nc)
          else Inl (RuntimeError ''You can't remove radio''))"

text \<open>The calls \<open>sendToRadio(transmitter, receiver, frame)\<close>, in order.\<close>

definition sendToNeighbors :: "nat \<Rightarrow> real \<Rightarrow> neighbor_cache \<Rightarrow> (nat \<times> nat) list result" where
  "sendToNeighbors transmitter txRange nc =
     (if nc_range nc < txRange then Inl (RuntimeError ''The transmitter's range is bigger then the cache range'')
      else case radioToEntry nc transmitter of
             None \<Rightarrow> Inl (RuntimeError ''Transmitter is not found'')
           | Some ref \<Rightarrow> Inr (map (\<lambda>r. (transmitter, r)) (neighborVector (nc_store nc ref))))"

subsection \<open>The invariant\<close>

text \<open>Every entry of the vector is allocated, of a radio of its own, and the one the map finds for it.\<close>

definition nc_consistent :: "neighbor_cache \<Rightarrow> bool" where
  "nc_consistent nc \<longleftrightarrow> distinct (nc_radios nc)
     \<and> (\<forall>ref\<in>set (nc_radios nc). ref < nc_next nc \<and> radioToEntry nc (re_radio (nc_store nc ref)) = Some ref)
     \<and> (\<forall>r ref. radioToEntry nc r = Some ref \<longrightarrow> ref < nc_next nc \<and> re_radio (nc_store nc ref) = r)"

lemma nc_consistentD:
  assumes "nc_consistent nc"
  shows "distinct (nc_radios nc)"
    and "ref \<in> set (nc_radios nc) \<Longrightarrow> ref < nc_next nc"
    and "ref \<in> set (nc_radios nc) \<Longrightarrow> radioToEntry nc (re_radio (nc_store nc ref)) = Some ref"
    and "radioToEntry nc r = Some ref \<Longrightarrow> ref < nc_next nc"
    and "radioToEntry nc r = Some ref \<Longrightarrow> re_radio (nc_store nc ref) = r"
  using assms unfolding nc_consistent_def by blast+

definition known_radios :: "neighbor_cache \<Rightarrow> nat list" where
  "known_radios nc = map (\<lambda>ref. re_radio (nc_store nc ref)) (nc_radios nc)"

definition in_reach :: "(nat \<Rightarrow> coord) \<Rightarrow> real \<Rightarrow> nat \<Rightarrow> nat \<Rightarrow> bool" where
  "in_reach pos d r r' \<longleftrightarrow> sqrdist (pos r') (pos r) \<le> d * d"

lemma updateNeighborList_keeps [simp]:
  "nc_radios (updateNeighborList pos ref nc) = nc_radios nc"
  "radioToEntry (updateNeighborList pos ref nc) = radioToEntry nc"
  "nc_next (updateNeighborList pos ref nc) = nc_next nc"
  "nc_maxSpeed (updateNeighborList pos ref nc) = nc_maxSpeed nc"
  "refillPeriod (updateNeighborList pos ref nc) = refillPeriod nc"
  "nc_range (updateNeighborList pos ref nc) = nc_range nc"
  "updateNeighborListsTimer (updateNeighborList pos ref nc) = updateNeighborListsTimer nc"
  "re_radio (nc_store (updateNeighborList pos ref nc) ref') = re_radio (nc_store nc ref')"
  by (simp_all add: updateNeighborList_def Let_def)

lemma update_fold_keeps:
  "nc_radios (fold (updateNeighborList pos) refs nc) = nc_radios nc"
  "radioToEntry (fold (updateNeighborList pos) refs nc) = radioToEntry nc"
  "nc_next (fold (updateNeighborList pos) refs nc) = nc_next nc"
  "nc_maxSpeed (fold (updateNeighborList pos) refs nc) = nc_maxSpeed nc"
  "refillPeriod (fold (updateNeighborList pos) refs nc) = refillPeriod nc"
  "nc_range (fold (updateNeighborList pos) refs nc) = nc_range nc"
  "updateNeighborListsTimer (fold (updateNeighborList pos) refs nc) = updateNeighborListsTimer nc"
  "re_radio (nc_store (fold (updateNeighborList pos) refs nc) ref') = re_radio (nc_store nc ref')"
  by (induction refs arbitrary: nc) simp_all

lemmas updateNeighborLists_keeps [simp] = update_fold_keeps [of pos "nc_radios nc" nc for pos nc, folded updateNeighborLists_def]

definition neighbors_of :: "(nat \<Rightarrow> coord) \<Rightarrow> neighbor_cache \<Rightarrow> nat \<Rightarrow> nat list" where
  "neighbors_of pos nc radio =
     (case nc_maxSpeed nc of
        None \<Rightarrow> []
      | Some v \<Rightarrow> filter (\<lambda>r. r \<noteq> radio \<and> in_reach pos (v * refillPeriod nc + nc_range nc) radio r) (known_radios nc))"

lemma updateNeighborList_store:
  "nc_store (updateNeighborList pos ref nc) ref' =
     (if ref' = ref then (nc_store nc ref)\<lparr>neighborVector := neighbors_of pos nc (re_radio (nc_store nc ref))\<rparr>
      else nc_store nc ref')"
  by (auto simp: updateNeighborList_def neighbors_of_def known_radios_def in_reach_def Let_def split: option.splits)

lemma neighbors_of_cong:
  assumes "nc_radios nc = nc_radios nc'" and "\<And>ref. re_radio (nc_store nc ref) = re_radio (nc_store nc' ref)"
    and "nc_maxSpeed nc = nc_maxSpeed nc'" and "refillPeriod nc = refillPeriod nc'" and "nc_range nc = nc_range nc'"
  shows "neighbors_of pos nc r = neighbors_of pos nc' r"
  using assms by (cases "nc_maxSpeed nc'") (simp_all add: neighbors_of_def known_radios_def)

lemma update_fold_store:
  "neighborVector (nc_store (fold (updateNeighborList pos) refs nc) ref) =
     (if ref \<in> set refs then neighbors_of pos nc (re_radio (nc_store nc ref)) else neighborVector (nc_store nc ref))"
proof (induction refs arbitrary: nc)
  case Nil
  show ?case by simp
next
  case (Cons r refs)
  have "neighbors_of pos (updateNeighborList pos r nc) x = neighbors_of pos nc x" for x
    by (rule neighbors_of_cong) simp_all
  then show ?case by (simp add: Cons.IH updateNeighborList_store)
qed

lemma updateNeighborLists_store:
  "ref \<in> set (nc_radios nc) \<Longrightarrow>
   neighborVector (nc_store (updateNeighborLists pos nc) ref) = neighbors_of pos nc (re_radio (nc_store nc ref))"
  by (simp add: updateNeighborLists_def update_fold_store)

lemma updateNeighborLists_consistent: "nc_consistent nc \<Longrightarrow> nc_consistent (updateNeighborLists pos nc)"
  by (simp add: nc_consistent_def)

lemma removeRadioFromNeighborLists_id: "removeRadioFromNeighborLists radio nc = nc"
proof -
  have "fst (fold (\<lambda>ref (nc, localCopy). (nc, remove1 radio (neighborVector (nc_store nc ref)))) refs (nc, c)) = nc" for refs c
    by (induction refs arbitrary: c) auto
  then show ?thesis by (simp add: removeRadioFromNeighborLists_def)
qed

subsection \<open>Operations that the simulation performs\<close>

datatype nc_event = AddRadio nat | RemoveRadio nat | Refill

definition nc_step ::
  "(nat \<Rightarrow> coord) \<Rightarrow> real option \<Rightarrow> bool \<Rightarrow> simtime \<Rightarrow> nc_event \<Rightarrow> neighbor_cache \<Rightarrow> neighbor_cache result" where
  "nc_step pos maxSpeed initialized now ev nc =
     (case ev of
        AddRadio r \<Rightarrow> Inr (nc_addRadio pos maxSpeed initialized now r nc)
      | RemoveRadio r \<Rightarrow> nc_removeRadio maxSpeed initialized r nc
      | Refill \<Rightarrow> Inr (nc_handleMessage pos now nc))"

lemma addRadio_consistent:
  assumes "nc_consistent nc" and "radioToEntry nc r = None"
  shows "nc_consistent (nc_addRadio pos v b now r nc)"
proof -
  let ?nc = "nc\<lparr>nc_store := (nc_store nc)(nc_next nc := \<lparr>re_radio = r, neighborVector = []\<rparr>), nc_next := nc_next nc + 1,
     nc_radios := nc_radios nc @ [nc_next nc], radioToEntry := (radioToEntry nc)(r \<mapsto> nc_next nc)\<rparr>"
  have "nc_consistent ?nc"
    unfolding nc_consistent_def
  proof (intro conjI)
    note D = nc_consistentD [OF assms(1)]
    have old: "ref < nc_next nc" "ref \<noteq> nc_next nc" "radioToEntry nc (re_radio (nc_store nc ref)) = Some ref"
      "re_radio (nc_store nc ref) \<noteq> r" if "ref \<in> set (nc_radios nc)" for ref
      using D(2,3) [OF that] assms(2) by auto
    note mp = D(4,5)
    show "distinct (nc_radios ?nc)" using D(1) old(2) by auto
    show "\<forall>ref\<in>set (nc_radios ?nc). ref < nc_next ?nc \<and> radioToEntry ?nc (re_radio (nc_store ?nc ref)) = Some ref"
      using old by (simp add: less_Suc_eq)
    show "\<forall>r' ref. radioToEntry ?nc r' = Some ref \<longrightarrow> ref < nc_next ?nc \<and> re_radio (nc_store ?nc ref) = r'"
    proof (intro allI impI)
      fix r' ref assume "radioToEntry ?nc r' = Some ref"
      then show "ref < nc_next ?nc \<and> re_radio (nc_store ?nc ref) = r'"
        using mp [of r' ref] by (cases "r' = r") auto
    qed
  qed
  then have "nc_consistent (updateNeighborLists pos ?nc)" by (rule updateNeighborLists_consistent)
  then show ?thesis by (simp add: nc_addRadio_def Let_def nc_consistent_def)
qed

lemma removeRadio_consistent:
  assumes "nc_consistent nc" and "nc_removeRadio v b r nc = Inr nc'"
  shows "nc_consistent nc'"
  using assms
  by (auto simp: nc_removeRadio_def Let_def removeRadioFromNeighborLists_id nc_consistent_def
      dest: notin_set_remove1 split: option.splits if_splits)

lemma refilled:
  assumes "nc_consistent nc" and "radioToEntry nc r = Some ref" and "ref \<in> set (nc_radios nc)"
  shows "re_radio (nc_store nc ref) = r" and "distinct (known_radios nc)" and "nc_consistent (nc_handleMessage pos now nc)"
proof -
  show "re_radio (nc_store nc ref) = r" using nc_consistentD(5) [OF assms(1,2)] .
  show "distinct (known_radios nc)"
    unfolding known_radios_def distinct_map
  proof
    show "distinct (nc_radios nc)" using assms(1) by (simp add: nc_consistent_def)
    show "inj_on (\<lambda>ref. re_radio (nc_store nc ref)) (set (nc_radios nc))"
    proof (rule inj_onI)
      fix x y assume x: "x \<in> set (nc_radios nc)" and y: "y \<in> set (nc_radios nc)"
        and e: "re_radio (nc_store nc x) = re_radio (nc_store nc y)"
      have "Some x = Some y"
        unfolding nc_consistentD(3) [OF assms(1) x, symmetric] nc_consistentD(3) [OF assms(1) y, symmetric] e ..
      then show "x = y" by (rule option.inject [THEN iffD1])
    qed
  qed
  show "nc_consistent (nc_handleMessage pos now nc)"
    using updateNeighborLists_consistent [of "nc\<lparr>updateNeighborListsTimer := None\<rparr>" pos] assms(1)
    by (simp add: nc_handleMessage_def Let_def nc_consistent_def)
qed

lemma sent_after_refill:
  assumes "nc_consistent nc" and "radioToEntry nc r = Some ref" and "ref \<in> set (nc_radios nc)"
    and "nc_maxSpeed nc = Some v" and "rng \<le> nc_range nc"
  shows "sendToNeighbors r rng (nc_handleMessage pos now nc) =
     Inr (map (\<lambda>r'. (r, r')) (filter (\<lambda>r'. r' \<noteq> r \<and> in_reach pos (v * refillPeriod nc + nc_range nc) r r') (known_radios nc)))"
proof -
  let ?nc = "nc\<lparr>updateNeighborListsTimer := None\<rparr>"
  have "neighbors_of pos ?nc r = neighbors_of pos nc r" by (rule neighbors_of_cong) simp_all
  then have "neighborVector (nc_store (updateNeighborLists pos ?nc) ref) = neighbors_of pos nc r"
    using updateNeighborLists_store [of ref ?nc pos] assms(3) refilled(1) [OF assms(1-3)] by simp
  then show ?thesis
    using assms(2,4,5) by (simp add: sendToNeighbors_def nc_handleMessage_def Let_def neighbors_of_def not_less)
qed

text \<open>
  After every refill of the cache, a frame goes exactly to the other known radios within the cache's
  range plus the distance covered at the largest speed in one refill period, each once and in the order the
  radios were added.
\<close>

theorem refill_neighbors_exact:
  assumes "nc_consistent nc" and "radioToEntry nc r = Some ref" and "ref \<in> set (nc_radios nc)"
    and "nc_maxSpeed nc = Some v" and "rng \<le> nc_range nc"
  shows "sendToNeighbors r rng (nc_handleMessage pos now nc) =
     Inr (map (\<lambda>r'. (r, r')) (filter (\<lambda>r'. r' \<noteq> r \<and> in_reach pos (v * refillPeriod nc + nc_range nc) r r') (known_radios nc)))
   \<and> distinct (known_radios nc) \<and> nc_consistent (nc_handleMessage pos now nc)"
  using sent_after_refill [OF assms] refilled(2,3) [OF assms(1-3)] by simp

definition sample_cache :: neighbor_cache where
  "sample_cache = nc_addRadio (\<lambda>_. (0, 0, 0)) (Some 2) False 0 8 (nc_addRadio (\<lambda>_. (0, 0, 0)) (Some 2) False 0 7
     \<lparr>nc_store = (\<lambda>_. \<lparr>re_radio = 0, neighborVector = []\<rparr>), nc_next = 0, nc_radios = [], radioToEntry = Map.empty,
      refillPeriod = 5, nc_range = 100, nc_maxSpeed = None, updateNeighborListsTimer = None\<rparr>)"

lemma sample_cache_facts:
  "nc_consistent sample_cache" "radioToEntry sample_cache = [7 \<mapsto> 0, 8 \<mapsto> 1]" "nc_radios sample_cache = [0, 1]"
  "nc_maxSpeed sample_cache = Some 2" "nc_range sample_cache = 100" "refillPeriod sample_cache = 5"
  "known_radios sample_cache = [7, 8]"
proof -
  show c: "radioToEntry sample_cache = [7 \<mapsto> 0, 8 \<mapsto> 1]" "nc_radios sample_cache = [0, 1]"
    "nc_maxSpeed sample_cache = Some 2" "nc_range sample_cache = 100" "refillPeriod sample_cache = 5"
    by (simp_all add: sample_cache_def nc_addRadio_def Let_def)
  show "known_radios sample_cache = [7, 8]"
    by (simp add: sample_cache_def nc_addRadio_def Let_def known_radios_def)
  show "nc_consistent sample_cache"
    unfolding sample_cache_def
    by (rule addRadio_consistent, rule addRadio_consistent) (simp_all add: nc_consistent_def nc_addRadio_def Let_def)
qed

lemma refill_neighbors_exact_witness:
  "sendToNeighbors 7 90 (nc_handleMessage (\<lambda>r. (real r, 0, 0)) 3 sample_cache) = Inr [(7, 8)]"
  using refill_neighbors_exact [OF sample_cache_facts(1), of 7 0 2 90 "\<lambda>r. (real r, 0, 0)" 3]
  by (simp add: sample_cache_facts in_reach_def power2_eq_square)

text \<open>
  C37: Between two refills the lists stay complete, as long as the distance between two radios has not shrunk
  by more than what the largest speed covers in a refill period: every radio then within the range is in the
  list.
\<close>

theorem neighbors_complete_between_refills:
  assumes "nc_consistent nc" and "radioToEntry nc r = Some ref" and "ref \<in> set (nc_radios nc)"
    and "nc_maxSpeed nc = Some v" and "0 \<le> v" and "0 \<le> refillPeriod nc" and "0 \<le> nc_range nc" and "rng \<le> nc_range nc"
    and "r' \<in> set (known_radios nc)" and "r' \<noteq> r"
    and moved: "sqrt (sqrdist (pos r') (pos r)) \<le> sqrt (sqrdist (pos' r') (pos' r)) + v * refillPeriod nc"
    and range: "in_reach pos' (nc_range nc) r r'"
  shows "\<exists>sent. sendToNeighbors r rng (nc_handleMessage pos now nc) = Inr sent \<and> (r, r') \<in> set sent"
proof -
  have "sqrt (sqrdist (pos' r') (pos' r)) \<le> nc_range nc"
    using range assms(7) by (simp add: in_reach_def real_le_lsqrt real_sqrt_le_iff power2_eq_square)
  then have "sqrt (sqrdist (pos r') (pos r)) \<le> v * refillPeriod nc + nc_range nc" using moved by linarith
  then have "in_reach pos (v * refillPeriod nc + nc_range nc) r r'"
    by (simp add: in_reach_def sqrt_le_D power2_eq_square [symmetric])
  then show ?thesis using sent_after_refill [OF assms(1-4,8), of pos now] assms(9,10) by auto
qed

lemma neighbors_complete_between_refills_witness:
  "\<exists>sent. sendToNeighbors 7 100 (nc_handleMessage (\<lambda>r. (15 * real r, 0, 0)) 3 sample_cache) = Inr sent \<and> (7, 8) \<in> set sent"
  by (rule neighbors_complete_between_refills [OF sample_cache_facts(1), where ref = 0 and v = 2 and pos' = "\<lambda>r. (10 * real r, 0, 0)"])
    (simp_all add: sample_cache_facts in_reach_def power2_eq_square real_sqrt_mult_self)

text \<open>
  That bound allows for the motion of one radio only: two radios that approach each other, each within
  the largest speed, can come within the range without being in each other's list.
\<close>

theorem approaching_radios_missed:
  "\<exists>nc pos pos'. nc_consistent nc \<and> nc_maxSpeed nc = Some 2 \<and> known_radios nc = [7, 8]
     \<and> (\<forall>r. sqrdist (pos' r) (pos r) \<le> (2 * refillPeriod nc)\<^sup>2)
     \<and> in_reach pos' (nc_range nc) 7 8
     \<and> sendToNeighbors 7 (nc_range nc) (nc_handleMessage pos 0 nc) = Inr []"
proof -
  let ?pos = "\<lambda>r::nat. if r = 7 then (0, 0, 0) else (115, 0, 0) :: coord"
  let ?pos' = "\<lambda>r::nat. if r = 7 then (9, 0, 0) else (106, 0, 0) :: coord"
  have "sendToNeighbors 7 100 (nc_handleMessage ?pos 0 sample_cache) = Inr []"
    using sent_after_refill [OF sample_cache_facts(1), of 7 0 2 100 ?pos 0]
    by (simp add: sample_cache_facts in_reach_def power2_eq_square)
  then show ?thesis
    by (intro exI [of _ sample_cache] exI [of _ ?pos] exI [of _ ?pos'])
      (simp add: sample_cache_facts in_reach_def power2_eq_square)
qed

text \<open>
  C38: Removing a radio takes it out of the vector of radios but, since the erasing works on copies, out of no
  neighbor list: until the next refill every other radio still sends to it exactly what it sent before.
\<close>

theorem removed_radio_still_served:
  assumes "nc_removeRadio v b r nc = Inr nc'"
  shows "known_radios nc' = map (\<lambda>ref. re_radio (nc_store nc ref)) (remove1 (the (radioToEntry nc r)) (nc_radios nc))
       \<and> (\<forall>t rng. sendToNeighbors t rng nc' = sendToNeighbors t rng nc)"
  using assms
  by (auto simp: nc_removeRadio_def Let_def removeRadioFromNeighborLists_id known_radios_def sendToNeighbors_def
      split: option.splits if_splits)

lemma removed_radio_still_served_witness:
  "\<exists>nc'. nc_removeRadio (Some 0) True 8 (nc_handleMessage (\<lambda>r. (real r, 0, 0)) 3 sample_cache) = Inr nc'
     \<and> sendToNeighbors 7 90 nc' = Inr [(7, 8)]"
proof -
  let ?nc = "nc_handleMessage (\<lambda>r. (real r, 0, 0)) 3 sample_cache"
  obtain nc' where nc': "nc_removeRadio (Some 0) True 8 ?nc = Inr nc'"
    by (simp add: nc_removeRadio_def nc_handleMessage_def Let_def removeRadioFromNeighborLists_id sample_cache_facts)
  have "sendToNeighbors 7 90 ?nc = Inr [(7, 8)]"
    using sent_after_refill [OF sample_cache_facts(1), of 7 0 2 90 "\<lambda>r. (real r, 0, 0)" 3]
    by (simp add: sample_cache_facts in_reach_def power2_eq_square)
  with nc' removed_radio_still_served [OF nc'] show ?thesis by auto
qed

end
