(* ===== verification/CommunicationCache.thy ===== *)
theory CommunicationCache
  imports LoRaChannel LoRaNeighborCache "HOL-Library.AList" "HOL-Library.More_List"
begin

text \<open>
  The cache of the radio medium: \<open>CommunicationCacheBase.cc\<close>, which stores for every radio the intervals of the
  signals on their way to it, for every transmission the end of its interference, and for every pair of a
  radio and a transmission the intermediate results of the reception; and its two data structures,
  \<open>VectorCommunicationCache.cc\<close> (the default) and \<open>MapCommunicationCache.cc\<close>. Radios and transmissions are
  their ids.

  The base class reaches the data structure through three virtual functions that return a pointer to an
  entry, or null. A pointer is modelled by two operations on the cache: \<open>get\<close> makes the entry exist, as the
  code does, and returns its content; \<open>poke\<close> writes through the pointer. The record \<open>cache_ops\<close> is the table of
  the virtual functions. The interval tree of a radio is represented by the list of its intervals.
\<close>

subsection \<open>What the medium computes and caches\<close>

record med_transmission =
  mt_id :: nat
  mt_transmitter :: nat
  mt_startPosition :: coord
  mt_endPosition :: coord
  mt_signal :: lora_transmission

record arrival =
  ar_startPropagationTime :: simtime
  ar_startTime :: simtime
  ar_endTime :: simtime
  ar_startPosition :: coord
  ar_endPosition :: coord

record med_listening =
  ml_receiver :: nat
  ml_startPosition :: coord
  ml_endPosition :: coord
  ml_band :: lora_listening

record med_reception =
  mr_receiver :: nat
  mr_transmission :: med_transmission
  mr_startPosition :: coord
  mr_endPosition :: coord
  mr_signal :: lora_reception

record interference =
  if_backgroundNoise :: "scalar_noise option"
  if_receptions :: "med_reception list"

record snir =
  sn_reception :: med_reception
  sn_noise :: scalar_noise

record reception_result =
  rr_decisions :: "reception_decision list"
  rr_minSNIR :: real
  rr_minRSSI :: real

subsection \<open>Intervals\<close>

record interval =
  low :: simtime
  high :: simtime
  iv_value :: med_transmission

definition interval_overlap :: "simtime \<Rightarrow> simtime \<Rightarrow> simtime \<Rightarrow> simtime \<Rightarrow> bool" where
  "interval_overlap a1 a2 b1 b2 = (if a1 \<le> b1 then b1 \<le> a2 else a1 \<le> b2)"

definition query :: "simtime \<Rightarrow> simtime \<Rightarrow> interval list \<Rightarrow> interval list" where
  "query lo hi ivs = filter (\<lambda>iv. interval_overlap lo hi (low iv) (high iv)) ivs"

subsection \<open>The entries\<close>

record radio_cache_entry =
  receptionIntervals :: "interval list option"
  stale :: bool

record transmission_cache_entry =
  interferenceEndTime :: "simtime option"
  tce_frame :: "nat option"

record reception_cache_entry =
  rce_frame :: "nat option"
  rce_arrival :: "arrival option"
  rce_interval :: "interval option"
  rce_listening :: "med_listening option"
  rce_reception :: "med_reception option"
  rce_interference :: "interference option"
  rce_noise :: "scalar_noise option"
  rce_snir :: "snir option"
  rce_decisions :: "reception_decision option list"
  rce_result :: "reception_result option"

definition new_radio_cache_entry :: radio_cache_entry where
  "new_radio_cache_entry = \<lparr>receptionIntervals = None, stale = False\<rparr>"

definition new_transmission_cache_entry :: transmission_cache_entry where
  "new_transmission_cache_entry = \<lparr>interferenceEndTime = None, tce_frame = None\<rparr>"

definition new_reception_cache_entry :: reception_cache_entry where
  "new_reception_cache_entry = \<lparr>rce_frame = None, rce_arrival = None, rce_interval = None, rce_listening = None,
     rce_reception = None, rce_interference = None, rce_noise = None, rce_snir = None, rce_decisions = [],
     rce_result = None\<rparr>"

record 'c cache_ops =
  getRadioCacheEntry :: "nat \<Rightarrow> 'c \<Rightarrow> radio_cache_entry option \<times> 'c"
  pokeRadio :: "nat \<Rightarrow> radio_cache_entry \<Rightarrow> 'c \<Rightarrow> 'c"
  getTransmissionCacheEntry :: "nat \<Rightarrow> 'c \<Rightarrow> transmission_cache_entry option \<times> 'c"
  pokeTransmission :: "nat \<Rightarrow> transmission_cache_entry \<Rightarrow> 'c \<Rightarrow> 'c"
  getReceptionCacheEntry :: "nat \<Rightarrow> nat \<Rightarrow> 'c \<Rightarrow> reception_cache_entry option \<times> 'c"
  pokeReception :: "nat \<Rightarrow> nat \<Rightarrow> reception_cache_entry \<Rightarrow> 'c \<Rightarrow> 'c"
  cc_addRadio :: "nat \<Rightarrow> 'c \<Rightarrow> 'c result"
  cc_removeRadio :: "nat \<Rightarrow> 'c \<Rightarrow> 'c result"
  cc_addTransmission :: "nat \<Rightarrow> 'c \<Rightarrow> 'c result"
  cc_removeTransmission :: "nat \<Rightarrow> 'c \<Rightarrow> 'c result"
  cc_removeNonInterfering :: "simtime \<Rightarrow> 'c \<Rightarrow> 'c result"

subsection \<open>CommunicationCacheBase\<close>

definition computeInterferingTransmissions ::
  "'c cache_ops \<Rightarrow> nat \<Rightarrow> simtime \<Rightarrow> simtime \<Rightarrow> 'c \<Rightarrow> (med_transmission list \<times> 'c) result" where
  "computeInterferingTransmissions ops radio startTime endTime c =
     (case getRadioCacheEntry ops radio c of
        (None, c) \<Rightarrow> Inl (UndefinedBehaviour ''null pointer: radio cache entry'')
      | (Some e, c) \<Rightarrow>
          Inr (case receptionIntervals e of
                 None \<Rightarrow> []
               | Some ivs \<Rightarrow> map iv_value (query startTime endTime ivs), c))"

text \<open>The transmission entry is dereferenced without a test.\<close>

definition with_transmission ::
  "'c cache_ops \<Rightarrow> nat \<Rightarrow> (transmission_cache_entry \<Rightarrow> 'a \<times> transmission_cache_entry) \<Rightarrow> 'c \<Rightarrow> ('a \<times> 'c) result" where
  "with_transmission ops t f c =
     (case getTransmissionCacheEntry ops t c of
        (None, c) \<Rightarrow> Inl (UndefinedBehaviour ''null pointer: transmission cache entry'')
      | (Some e, c) \<Rightarrow> (case f e of (a, e') \<Rightarrow> Inr (a, pokeTransmission ops t e' c)))"

definition getCachedInterferenceEndTime :: "'c cache_ops \<Rightarrow> nat \<Rightarrow> 'c \<Rightarrow> (simtime option \<times> 'c) result" where
  "getCachedInterferenceEndTime ops t = with_transmission ops t (\<lambda>e. (interferenceEndTime e, e))"

definition setCachedInterferenceEndTime :: "'c cache_ops \<Rightarrow> nat \<Rightarrow> simtime \<Rightarrow> 'c \<Rightarrow> (unit \<times> 'c) result" where
  "setCachedInterferenceEndTime ops t x = with_transmission ops t (\<lambda>e. ((), e\<lparr>interferenceEndTime := Some x\<rparr>))"

definition removeCachedInterferenceEndTime :: "'c cache_ops \<Rightarrow> nat \<Rightarrow> 'c \<Rightarrow> (unit \<times> 'c) result" where
  "removeCachedInterferenceEndTime ops t = with_transmission ops t (\<lambda>e. ((), e\<lparr>interferenceEndTime := Some (-1)\<rparr>))"

definition getCachedFrame :: "'c cache_ops \<Rightarrow> nat \<Rightarrow> 'c \<Rightarrow> (nat option \<times> 'c) result" where
  "getCachedFrame ops t = with_transmission ops t (\<lambda>e. (tce_frame e, e))"

definition setCachedFrame :: "'c cache_ops \<Rightarrow> nat \<Rightarrow> nat \<Rightarrow> 'c \<Rightarrow> (unit \<times> 'c) result" where
  "setCachedFrame ops t f = with_transmission ops t (\<lambda>e. ((), e\<lparr>tce_frame := Some f\<rparr>))"

definition removeCachedFrame :: "'c cache_ops \<Rightarrow> nat \<Rightarrow> 'c \<Rightarrow> (unit \<times> 'c) result" where
  "removeCachedFrame ops t = with_transmission ops t (\<lambda>e. ((), e\<lparr>tce_frame := None\<rparr>))"

text \<open>The three shapes of the accessors of a reception entry: read, write (an error without entry), clear.\<close>

definition read_entry ::
  "'c cache_ops \<Rightarrow> (reception_cache_entry \<Rightarrow> 'a option) \<Rightarrow> nat \<Rightarrow> nat \<Rightarrow> 'c \<Rightarrow> 'a option \<times> 'c" where
  "read_entry ops field r t c =
     (case getReceptionCacheEntry ops r t c of
        (None, c) \<Rightarrow> (None, c)
      | (Some e, c) \<Rightarrow> (field e, c))"

definition write_entry ::
  "'c cache_ops \<Rightarrow> (reception_cache_entry \<Rightarrow> reception_cache_entry) \<Rightarrow> nat \<Rightarrow> nat \<Rightarrow> 'c \<Rightarrow> 'c result" where
  "write_entry ops upd r t c =
     (case getReceptionCacheEntry ops r t c of
        (None, c) \<Rightarrow> Inl (RuntimeError ''Cache entry not found'')
      | (Some e, c) \<Rightarrow> Inr (pokeReception ops r t (upd e) c))"

definition clear_entry ::
  "'c cache_ops \<Rightarrow> (reception_cache_entry \<Rightarrow> reception_cache_entry) \<Rightarrow> nat \<Rightarrow> nat \<Rightarrow> 'c \<Rightarrow> 'c" where
  "clear_entry ops upd r t c =
     (case getReceptionCacheEntry ops r t c of
        (None, c) \<Rightarrow> c
      | (Some e, c) \<Rightarrow> pokeReception ops r t (upd e) c)"

definition getCachedArrival :: "'c cache_ops \<Rightarrow> nat \<Rightarrow> nat \<Rightarrow> 'c \<Rightarrow> arrival option \<times> 'c" where
  "getCachedArrival ops = read_entry ops rce_arrival"

definition setCachedArrival :: "'c cache_ops \<Rightarrow> nat \<Rightarrow> nat \<Rightarrow> arrival \<Rightarrow> 'c \<Rightarrow> 'c result" where
  "setCachedArrival ops r t x = write_entry ops (\<lambda>e. e\<lparr>rce_arrival := Some x\<rparr>) r t"

definition removeCachedArrival :: "'c cache_ops \<Rightarrow> nat \<Rightarrow> nat \<Rightarrow> 'c \<Rightarrow> 'c" where
  "removeCachedArrival ops = clear_entry ops (\<lambda>e. e\<lparr>rce_arrival := None\<rparr>)"

definition getCachedInterval :: "'c cache_ops \<Rightarrow> nat \<Rightarrow> nat \<Rightarrow> 'c \<Rightarrow> interval option \<times> 'c" where
  "getCachedInterval ops = read_entry ops rce_interval"

definition setCachedInterval :: "'c cache_ops \<Rightarrow> nat \<Rightarrow> nat \<Rightarrow> interval \<Rightarrow> 'c \<Rightarrow> 'c result" where
  "setCachedInterval ops r t x c =
     andThen (write_entry ops (\<lambda>e. e\<lparr>rce_interval := Some x\<rparr>) r t c)
       (\<lambda>c. case getRadioCacheEntry ops r c of
              (None, c) \<Rightarrow> Inl (UndefinedBehaviour ''null pointer: radio cache entry'')
            | (Some e, c) \<Rightarrow>
                let ivs = (case receptionIntervals e of None \<Rightarrow> [] | Some ivs \<Rightarrow> ivs)
                in Inr (pokeRadio ops r (e\<lparr>receptionIntervals := Some (ivs @ [x])\<rparr>) c))"

definition removeCachedInterval :: "'c cache_ops \<Rightarrow> nat \<Rightarrow> nat \<Rightarrow> 'c \<Rightarrow> 'c" where
  "removeCachedInterval ops = clear_entry ops (\<lambda>e. e\<lparr>rce_interval := None\<rparr>)"

definition getCachedListening :: "'c cache_ops \<Rightarrow> nat \<Rightarrow> nat \<Rightarrow> 'c \<Rightarrow> med_listening option \<times> 'c" where
  "getCachedListening ops = read_entry ops rce_listening"

definition setCachedListening :: "'c cache_ops \<Rightarrow> nat \<Rightarrow> nat \<Rightarrow> med_listening \<Rightarrow> 'c \<Rightarrow> 'c result" where
  "setCachedListening ops r t x = write_entry ops (\<lambda>e. e\<lparr>rce_listening := Some x\<rparr>) r t"

definition removeCachedListening :: "'c cache_ops \<Rightarrow> nat \<Rightarrow> nat \<Rightarrow> 'c \<Rightarrow> 'c" where
  "removeCachedListening ops = clear_entry ops (\<lambda>e. e\<lparr>rce_listening := None\<rparr>)"

definition getCachedReception :: "'c cache_ops \<Rightarrow> nat \<Rightarrow> nat \<Rightarrow> 'c \<Rightarrow> med_reception option \<times> 'c" where
  "getCachedReception ops = read_entry ops rce_reception"

definition setCachedReception :: "'c cache_ops \<Rightarrow> nat \<Rightarrow> nat \<Rightarrow> med_reception \<Rightarrow> 'c \<Rightarrow> 'c result" where
  "setCachedReception ops r t x = write_entry ops (\<lambda>e. e\<lparr>rce_reception := Some x\<rparr>) r t"

definition removeCachedReception :: "'c cache_ops \<Rightarrow> nat \<Rightarrow> nat \<Rightarrow> 'c \<Rightarrow> 'c" where
  "removeCachedReception ops = clear_entry ops (\<lambda>e. e\<lparr>rce_reception := None\<rparr>)"

definition getCachedInterference :: "'c cache_ops \<Rightarrow> nat \<Rightarrow> nat \<Rightarrow> 'c \<Rightarrow> interference option \<times> 'c" where
  "getCachedInterference ops = read_entry ops rce_interference"

definition setCachedInterference :: "'c cache_ops \<Rightarrow> nat \<Rightarrow> nat \<Rightarrow> interference \<Rightarrow> 'c \<Rightarrow> 'c result" where
  "setCachedInterference ops r t x = write_entry ops (\<lambda>e. e\<lparr>rce_interference := Some x\<rparr>) r t"

definition removeCachedInterference :: "'c cache_ops \<Rightarrow> nat \<Rightarrow> nat \<Rightarrow> 'c \<Rightarrow> 'c" where
  "removeCachedInterference ops = clear_entry ops (\<lambda>e. e\<lparr>rce_interference := None\<rparr>)"

definition getCachedNoise :: "'c cache_ops \<Rightarrow> nat \<Rightarrow> nat \<Rightarrow> 'c \<Rightarrow> scalar_noise option \<times> 'c" where
  "getCachedNoise ops = read_entry ops rce_noise"

definition setCachedNoise :: "'c cache_ops \<Rightarrow> nat \<Rightarrow> nat \<Rightarrow> scalar_noise \<Rightarrow> 'c \<Rightarrow> 'c result" where
  "setCachedNoise ops r t x = write_entry ops (\<lambda>e. e\<lparr>rce_noise := Some x\<rparr>) r t"

definition removeCachedNoise :: "'c cache_ops \<Rightarrow> nat \<Rightarrow> nat \<Rightarrow> 'c \<Rightarrow> 'c" where
  "removeCachedNoise ops = clear_entry ops (\<lambda>e. e\<lparr>rce_noise := None\<rparr>)"

definition getCachedSNIR :: "'c cache_ops \<Rightarrow> nat \<Rightarrow> nat \<Rightarrow> 'c \<Rightarrow> snir option \<times> 'c" where
  "getCachedSNIR ops = read_entry ops rce_snir"

definition setCachedSNIR :: "'c cache_ops \<Rightarrow> nat \<Rightarrow> nat \<Rightarrow> snir \<Rightarrow> 'c \<Rightarrow> 'c result" where
  "setCachedSNIR ops r t x = write_entry ops (\<lambda>e. e\<lparr>rce_snir := Some x\<rparr>) r t"

definition removeCachedSNIR :: "'c cache_ops \<Rightarrow> nat \<Rightarrow> nat \<Rightarrow> 'c \<Rightarrow> 'c" where
  "removeCachedSNIR ops = clear_entry ops (\<lambda>e. e\<lparr>rce_snir := None\<rparr>)"

definition getCachedReceptionResult :: "'c cache_ops \<Rightarrow> nat \<Rightarrow> nat \<Rightarrow> 'c \<Rightarrow> reception_result option \<times> 'c" where
  "getCachedReceptionResult ops = read_entry ops rce_result"

definition setCachedReceptionResult :: "'c cache_ops \<Rightarrow> nat \<Rightarrow> nat \<Rightarrow> reception_result \<Rightarrow> 'c \<Rightarrow> 'c result" where
  "setCachedReceptionResult ops r t x = write_entry ops (\<lambda>e. e\<lparr>rce_result := Some x\<rparr>) r t"

definition removeCachedReceptionResult :: "'c cache_ops \<Rightarrow> nat \<Rightarrow> nat \<Rightarrow> 'c \<Rightarrow> 'c" where
  "removeCachedReceptionResult ops = clear_entry ops (\<lambda>e. e\<lparr>rce_result := None\<rparr>)"

definition getCachedReceptionFrame :: "'c cache_ops \<Rightarrow> nat \<Rightarrow> nat \<Rightarrow> 'c \<Rightarrow> nat option \<times> 'c" where
  "getCachedReceptionFrame ops = read_entry ops rce_frame"

definition setCachedReceptionFrame :: "'c cache_ops \<Rightarrow> nat \<Rightarrow> nat \<Rightarrow> nat \<Rightarrow> 'c \<Rightarrow> 'c result" where
  "setCachedReceptionFrame ops r t x = write_entry ops (\<lambda>e. e\<lparr>rce_frame := Some x\<rparr>) r t"

definition removeCachedReceptionFrame :: "'c cache_ops \<Rightarrow> nat \<Rightarrow> nat \<Rightarrow> 'c \<Rightarrow> 'c" where
  "removeCachedReceptionFrame ops = clear_entry ops (\<lambda>e. e\<lparr>rce_frame := None\<rparr>)"

text \<open>
  The decisions are a vector indexed by the signal part, which every access resizes to \<open>part + 1\<close>: entries
  above are cut off. \<open>SIGNAL_PART_NONE\<close> is -1, an index out of range.
\<close>

definition resize_list :: "nat \<Rightarrow> 'a \<Rightarrow> 'a list \<Rightarrow> 'a list" where
  "resize_list n d xs = take n xs @ replicate (n - length xs) d"

fun part_index :: "signal_part \<Rightarrow> nat option" where
  "part_index SIGNAL_PART_NONE = None"
| "part_index SIGNAL_PART_WHOLE = Some 0"
| "part_index SIGNAL_PART_PREAMBLE = Some 1"
| "part_index SIGNAL_PART_HEADER = Some 2"
| "part_index SIGNAL_PART_DATA = Some 3"

definition getCachedReceptionDecision ::
  "'c cache_ops \<Rightarrow> nat \<Rightarrow> nat \<Rightarrow> signal_part \<Rightarrow> 'c \<Rightarrow> (reception_decision option \<times> 'c) result" where
  "getCachedReceptionDecision ops r t part c =
     (case getReceptionCacheEntry ops r t c of
        (None, c) \<Rightarrow> Inr (None, c)
      | (Some e, c) \<Rightarrow>
          (case part_index part of
             None \<Rightarrow> Inl (UndefinedBehaviour ''receptionDecisions[-1]'')
           | Some i \<Rightarrow>
               let ds = resize_list (Suc i) None (rce_decisions e)
               in Inr (ds ! i, pokeReception ops r t (e\<lparr>rce_decisions := ds\<rparr>) c)))"

definition setCachedReceptionDecision ::
  "'c cache_ops \<Rightarrow> nat \<Rightarrow> nat \<Rightarrow> signal_part \<Rightarrow> reception_decision \<Rightarrow> 'c \<Rightarrow> 'c result" where
  "setCachedReceptionDecision ops r t part d c =
     (case getReceptionCacheEntry ops r t c of
        (None, c) \<Rightarrow> Inl (RuntimeError ''Cache entry not found'')
      | (Some e, c) \<Rightarrow>
          (case part_index part of
             None \<Rightarrow> Inl (UndefinedBehaviour ''receptionDecisions[-1]'')
           | Some i \<Rightarrow>
               let ds = (resize_list (Suc i) None (rce_decisions e))[i := Some d]
               in Inr (pokeReception ops r t (e\<lparr>rce_decisions := ds\<rparr>) c)))"

definition removeCachedReceptionDecision ::
  "'c cache_ops \<Rightarrow> nat \<Rightarrow> nat \<Rightarrow> signal_part \<Rightarrow> 'c \<Rightarrow> 'c result" where
  "removeCachedReceptionDecision ops r t part c =
     (case getReceptionCacheEntry ops r t c of
        (None, c) \<Rightarrow> Inr c
      | (Some e, c) \<Rightarrow>
          (case part_index part of
             None \<Rightarrow> Inl (UndefinedBehaviour ''receptionDecisions[-1]'')
           | Some i \<Rightarrow>
               let ds = (resize_list (Suc i) None (rce_decisions e))[i := None]
               in Inr (pokeReception ops r t (e\<lparr>rce_decisions := ds\<rparr>) c)))"

subsection \<open>VectorCommunicationCache\<close>

record vector_transmission_entry = transmission_cache_entry +
  receptionCacheEntries :: "reception_cache_entry list option"

record vector_cache =
  radioCache :: "radio_cache_entry list"
  baseRadioId :: int
  transmissionCache :: "vector_transmission_entry list"
  baseTransmissionId :: int

definition empty_vector_cache :: vector_cache where
  "empty_vector_cache = \<lparr>radioCache = [], baseRadioId = 0, transmissionCache = [], baseTransmissionId = 0\<rparr>"

definition new_vector_transmission_entry :: vector_transmission_entry where
  "new_vector_transmission_entry =
     transmission_cache_entry.extend new_transmission_cache_entry (vector_transmission_entry.fields None)"

text \<open>The element at an index, in a vector grown to hold it.\<close>

definition grow :: "nat \<Rightarrow> 'a \<Rightarrow> 'a list \<Rightarrow> 'a list" where
  "grow i d xs = (if length xs \<le> i then resize_list (Suc i) d xs else xs)"

definition vec_getRadio :: "nat \<Rightarrow> vector_cache \<Rightarrow> radio_cache_entry option \<times> vector_cache" where
  "vec_getRadio r c =
     (let radioIndex = int r - baseRadioId c
      in if radioIndex < 0 then (None, c)
         else let rs = grow (nat radioIndex) new_radio_cache_entry (radioCache c)
              in (Some (rs ! nat radioIndex), c\<lparr>radioCache := rs\<rparr>))"

definition vec_pokeRadio :: "nat \<Rightarrow> radio_cache_entry \<Rightarrow> vector_cache \<Rightarrow> vector_cache" where
  "vec_pokeRadio r e c = c\<lparr>radioCache := (radioCache c)[nat (int r - baseRadioId c) := e]\<rparr>"

definition vec_touch :: "nat \<Rightarrow> vector_cache \<Rightarrow> vector_transmission_entry option \<times> vector_cache" where
  "vec_touch t c =
     (let transmissionIndex = int t - baseTransmissionId c
      in if transmissionIndex < 0 then (None, c)
         else let i = nat transmissionIndex;
                  ts = grow i new_vector_transmission_entry (transmissionCache c);
                  e = (if receptionCacheEntries (ts ! i) = None
                       then (ts ! i)\<lparr>receptionCacheEntries := Some (replicate (length (radioCache c)) new_reception_cache_entry)\<rparr>
                       else ts ! i)
              in (Some e, c\<lparr>transmissionCache := ts[i := e]\<rparr>))"

definition vec_getTransmission :: "nat \<Rightarrow> vector_cache \<Rightarrow> transmission_cache_entry option \<times> vector_cache" where
  "vec_getTransmission t c = (case vec_touch t c of (e, c) \<Rightarrow> (map_option transmission_cache_entry.truncate e, c))"

definition vec_pokeTransmission :: "nat \<Rightarrow> transmission_cache_entry \<Rightarrow> vector_cache \<Rightarrow> vector_cache" where
  "vec_pokeTransmission t e c =
     (let i = nat (int t - baseTransmissionId c)
      in c\<lparr>transmissionCache := (transmissionCache c)
             [i := (transmissionCache c ! i)\<lparr>interferenceEndTime := interferenceEndTime e, tce_frame := tce_frame e\<rparr>]\<rparr>)"

definition vec_getReception :: "nat \<Rightarrow> nat \<Rightarrow> vector_cache \<Rightarrow> reception_cache_entry option \<times> vector_cache" where
  "vec_getReception r t c =
     (case vec_touch t c of
        (None, c) \<Rightarrow> (None, c)
      | (Some te, c) \<Rightarrow>
          (let radioIndex = int r - baseRadioId c
           in if radioIndex < 0 then (None, c)
              else let es = grow (nat radioIndex) new_reception_cache_entry (the (receptionCacheEntries te));
                       i = nat (int t - baseTransmissionId c)
                   in (Some (es ! nat radioIndex),
                       c\<lparr>transmissionCache := (transmissionCache c)[i := te\<lparr>receptionCacheEntries := Some es\<rparr>]\<rparr>)))"

definition vec_pokeReception :: "nat \<Rightarrow> nat \<Rightarrow> reception_cache_entry \<Rightarrow> vector_cache \<Rightarrow> vector_cache" where
  "vec_pokeReception r t e c =
     (let i = nat (int t - baseTransmissionId c); te = transmissionCache c ! i
      in c\<lparr>transmissionCache := (transmissionCache c)
             [i := te\<lparr>receptionCacheEntries := map_option (\<lambda>es. es[nat (int r - baseRadioId c) := e]) (receptionCacheEntries te)\<rparr>]\<rparr>)"

definition vec_addRadio :: "nat \<Rightarrow> vector_cache \<Rightarrow> vector_cache result" where
  "vec_addRadio r c =
     (let c = (if length (radioCache c) = 0 then c\<lparr>baseRadioId := int r\<rparr> else c)
      in Inr (snd (vec_getRadio r c)))"

text \<open>Erasing a prefix that is longer than the vector is out of range.\<close>

definition erase_prefix :: "nat \<Rightarrow> 'a list \<Rightarrow> 'a list result" where
  "erase_prefix n xs = (if n \<le> length xs then Inr (drop n xs) else Inl (UndefinedBehaviour ''erase past the end''))"

fun erase_receptions :: "nat \<Rightarrow> vector_transmission_entry list \<Rightarrow> vector_transmission_entry list result" where
  "erase_receptions n [] = Inr []"
| "erase_receptions n (te # tes) =
     andThen (case receptionCacheEntries te of
                None \<Rightarrow> Inr te
              | Some es \<Rightarrow> andThen (erase_prefix n es) (\<lambda>es. Inr (te\<lparr>receptionCacheEntries := Some es\<rparr>)))
       (\<lambda>te. andThen (erase_receptions n tes) (\<lambda>tes. Inr (te # tes)))"

definition vec_removeRadio :: "nat \<Rightarrow> vector_cache \<Rightarrow> vector_cache result" where
  "vec_removeRadio r c =
     (case vec_getRadio r c of
        (None, c) \<Rightarrow> Inl (UndefinedBehaviour ''null pointer: radio cache entry'')
      | (Some e, c) \<Rightarrow>
          (let c = vec_pokeRadio r (e\<lparr>stale := True\<rparr>) c;
               radioCount = length (takeWhile stale (radioCache c))
           in if radioCount \<noteq> 0
              then andThen (erase_receptions radioCount (transmissionCache c))
                     (\<lambda>ts. Inr (c\<lparr>baseRadioId := baseRadioId c + int radioCount,
                                 radioCache := drop radioCount (radioCache c), transmissionCache := ts\<rparr>))
              else Inr c))"

definition vec_addTransmission :: "nat \<Rightarrow> vector_cache \<Rightarrow> vector_cache result" where
  "vec_addTransmission t c =
     (let c = (if length (transmissionCache c) = 0 then c\<lparr>baseTransmissionId := int t\<rparr> else c)
      in Inr (snd (vec_getTransmission t c)))"

definition vec_removeTransmission :: "nat \<Rightarrow> vector_cache \<Rightarrow> vector_cache result" where
  "vec_removeTransmission t c = Inr c"

text \<open>
  The number of leading transmissions whose interference has ended. An end that was never set is a
  \<open>simtime_t\<close> made from a NaN, which has no defined value.
\<close>

fun expired_prefix :: "simtime \<Rightarrow> 'z transmission_cache_entry_scheme list \<Rightarrow> nat result" where
  "expired_prefix now [] = Inr 0"
| "expired_prefix now (te # tes) =
     (case interferenceEndTime te of
        None \<Rightarrow> Inl (UndefinedBehaviour ''simtime of NaN'')
      | Some e \<Rightarrow> if e \<le> now then andThen (expired_prefix now tes) (\<lambda>n. Inr (Suc n)) else Inr 0)"

text \<open>Two iterators run over the radios and the receptions of one transmission, to the shorter end.\<close>

fun delete_intervals :: "radio_cache_entry list \<Rightarrow> reception_cache_entry list \<Rightarrow> radio_cache_entry list result" where
  "delete_intervals (re # res) (e # es) =
     andThen (case rce_interval e of
                None \<Rightarrow> Inr re
              | Some iv \<Rightarrow>
                  (case receptionIntervals re of
                     None \<Rightarrow> Inl (UndefinedBehaviour ''null pointer: receptionIntervals'')
                   | Some ivs \<Rightarrow> Inr (re\<lparr>receptionIntervals := Some (remove1 iv ivs)\<rparr>)))
       (\<lambda>re. andThen (delete_intervals res es) (\<lambda>res. Inr (re # res)))"
| "delete_intervals res [] = Inr res"
| "delete_intervals [] es = Inr []"

definition delete_transmission_intervals ::
  "vector_transmission_entry \<Rightarrow> radio_cache_entry list \<Rightarrow> radio_cache_entry list result" where
  "delete_transmission_intervals te res =
     (case receptionCacheEntries te of None \<Rightarrow> Inr res | Some es \<Rightarrow> delete_intervals res es)"

definition vec_removeNonInterfering :: "simtime \<Rightarrow> vector_cache \<Rightarrow> vector_cache result" where
  "vec_removeNonInterfering now c =
     andThen (expired_prefix now (transmissionCache c))
       (\<lambda>n. andThen (foldR delete_transmission_intervals (take n (transmissionCache c)) (radioCache c))
          (\<lambda>res. Inr (c\<lparr>radioCache := res, baseTransmissionId := baseTransmissionId c + int n,
                       transmissionCache := drop n (transmissionCache c)\<rparr>)))"

definition vector_ops :: "vector_cache cache_ops" where
  "vector_ops = \<lparr>getRadioCacheEntry = vec_getRadio, pokeRadio = vec_pokeRadio,
     getTransmissionCacheEntry = vec_getTransmission, pokeTransmission = vec_pokeTransmission,
     getReceptionCacheEntry = vec_getReception, pokeReception = vec_pokeReception,
     cc_addRadio = vec_addRadio, cc_removeRadio = vec_removeRadio, cc_addTransmission = vec_addTransmission,
     cc_removeTransmission = vec_removeTransmission, cc_removeNonInterfering = vec_removeNonInterfering\<rparr>"

subsection \<open>MapCommunicationCache\<close>

text \<open>A \<open>std::map\<close> is an association list; \<open>operator[]\<close> inserts a default value under a key it does not find.\<close>

record map_transmission_entry = transmission_cache_entry +
  receptionCacheMap :: "(nat \<times> reception_cache_entry) list option"

record map_cache =
  mc_radioCache :: "(nat \<times> radio_cache_entry) list"
  mc_transmissionCache :: "(nat \<times> map_transmission_entry) list"

definition empty_map_cache :: map_cache where
  "empty_map_cache = \<lparr>mc_radioCache = [], mc_transmissionCache = []\<rparr>"

definition new_map_transmission_entry :: map_transmission_entry where
  "new_map_transmission_entry = transmission_cache_entry.extend new_transmission_cache_entry (map_transmission_entry.fields None)"

definition lookup_default :: "'v \<Rightarrow> ('k \<times> 'v) list \<Rightarrow> 'k \<Rightarrow> 'v" where
  "lookup_default d al k = (case map_of al k of None \<Rightarrow> d | Some v \<Rightarrow> v)"

definition map_getRadio :: "nat \<Rightarrow> map_cache \<Rightarrow> radio_cache_entry option \<times> map_cache" where
  "map_getRadio r c =
     (let e = lookup_default new_radio_cache_entry (mc_radioCache c) r
      in (Some e, c\<lparr>mc_radioCache := AList.update r e (mc_radioCache c)\<rparr>))"

definition map_pokeRadio :: "nat \<Rightarrow> radio_cache_entry \<Rightarrow> map_cache \<Rightarrow> map_cache" where
  "map_pokeRadio r e c = c\<lparr>mc_radioCache := AList.update r e (mc_radioCache c)\<rparr>"

definition map_touch :: "nat \<Rightarrow> map_cache \<Rightarrow> map_transmission_entry \<times> map_cache" where
  "map_touch t c =
     (let e = lookup_default new_map_transmission_entry (mc_transmissionCache c) t;
          e = (if receptionCacheMap e = None then e\<lparr>receptionCacheMap := Some []\<rparr> else e)
      in (e, c\<lparr>mc_transmissionCache := AList.update t e (mc_transmissionCache c)\<rparr>))"

definition map_getTransmission :: "nat \<Rightarrow> map_cache \<Rightarrow> transmission_cache_entry option \<times> map_cache" where
  "map_getTransmission t c = (case map_touch t c of (e, c) \<Rightarrow> (Some (transmission_cache_entry.truncate e), c))"

definition map_pokeTransmission :: "nat \<Rightarrow> transmission_cache_entry \<Rightarrow> map_cache \<Rightarrow> map_cache" where
  "map_pokeTransmission t e c =
     (let te = lookup_default new_map_transmission_entry (mc_transmissionCache c) t
      in c\<lparr>mc_transmissionCache := AList.update t
             (te\<lparr>interferenceEndTime := interferenceEndTime e, tce_frame := tce_frame e\<rparr>) (mc_transmissionCache c)\<rparr>)"

definition map_getReception :: "nat \<Rightarrow> nat \<Rightarrow> map_cache \<Rightarrow> reception_cache_entry option \<times> map_cache" where
  "map_getReception r t c =
     (case map_touch t c of
        (te, c) \<Rightarrow>
          (let es = the (receptionCacheMap te);
               e = lookup_default new_reception_cache_entry es r
           in (Some e, c\<lparr>mc_transmissionCache := AList.update t (te\<lparr>receptionCacheMap := Some (AList.update r e es)\<rparr>)
                           (mc_transmissionCache c)\<rparr>)))"

definition map_pokeReception :: "nat \<Rightarrow> nat \<Rightarrow> reception_cache_entry \<Rightarrow> map_cache \<Rightarrow> map_cache" where
  "map_pokeReception r t e c =
     (let te = lookup_default new_map_transmission_entry (mc_transmissionCache c) t
      in c\<lparr>mc_transmissionCache := AList.update t
             (te\<lparr>receptionCacheMap := map_option (AList.update r e) (receptionCacheMap te)\<rparr>) (mc_transmissionCache c)\<rparr>)"

definition map_addRadio :: "nat \<Rightarrow> map_cache \<Rightarrow> map_cache result" where
  "map_addRadio r c = Inr c"

definition map_removeRadio :: "nat \<Rightarrow> map_cache \<Rightarrow> map_cache result" where
  "map_removeRadio r c =
     Inr (c\<lparr>mc_radioCache := AList.delete r (mc_radioCache c),
           mc_transmissionCache := map (\<lambda>(t, te). (t, te\<lparr>receptionCacheMap := map_option (AList.delete r) (receptionCacheMap te)\<rparr>))
             (mc_transmissionCache c)\<rparr>)"

definition map_addTransmission :: "nat \<Rightarrow> map_cache \<Rightarrow> map_cache result" where
  "map_addTransmission t c = Inr c"

definition map_delete_interval ::
  "nat \<times> reception_cache_entry \<Rightarrow> (nat \<times> radio_cache_entry) list \<Rightarrow> (nat \<times> radio_cache_entry) list result" where
  "map_delete_interval re rs =
     (case re of (r, e) \<Rightarrow>
        let radio = lookup_default new_radio_cache_entry rs r
        in case rce_interval e of
             None \<Rightarrow> Inr (AList.update r radio rs)
           | Some iv \<Rightarrow>
               (case receptionIntervals radio of
                  None \<Rightarrow> Inl (UndefinedBehaviour ''null pointer: receptionIntervals'')
                | Some ivs \<Rightarrow> Inr (AList.update r (radio\<lparr>receptionIntervals := Some (remove1 iv ivs)\<rparr>) rs)))"

definition map_removeTransmission :: "nat \<Rightarrow> map_cache \<Rightarrow> map_cache result" where
  "map_removeTransmission t c =
     (case map_of (mc_transmissionCache c) t of
        None \<Rightarrow> Inr c
      | Some te \<Rightarrow>
          andThen (case receptionCacheMap te of
                     None \<Rightarrow> Inr (mc_radioCache c)
                   | Some es \<Rightarrow> foldR map_delete_interval es (mc_radioCache c))
            (\<lambda>rs. Inr (c\<lparr>mc_radioCache := rs, mc_transmissionCache := AList.delete t (mc_transmissionCache c)\<rparr>)))"

definition map_removeNonInterfering :: "simtime \<Rightarrow> map_cache \<Rightarrow> map_cache result" where
  "map_removeNonInterfering now c = Inr c"

definition map_ops :: "map_cache cache_ops" where
  "map_ops = \<lparr>getRadioCacheEntry = map_getRadio, pokeRadio = map_pokeRadio,
     getTransmissionCacheEntry = map_getTransmission, pokeTransmission = map_pokeTransmission,
     getReceptionCacheEntry = map_getReception, pokeReception = map_pokeReception,
     cc_addRadio = map_addRadio, cc_removeRadio = map_removeRadio, cc_addTransmission = map_addTransmission,
     cc_removeTransmission = map_removeTransmission, cc_removeNonInterfering = map_removeNonInterfering\<rparr>"

subsection \<open>The contract of the data structures\<close>

text \<open>What a caller sees of a cache: the content of the entry that a pointer leads to, for every key.\<close>

definition radio_view :: "'c cache_ops \<Rightarrow> 'c \<Rightarrow> nat \<Rightarrow> radio_cache_entry option" where
  "radio_view ops c r = fst (getRadioCacheEntry ops r c)"

definition transmission_view :: "'c cache_ops \<Rightarrow> 'c \<Rightarrow> nat \<Rightarrow> transmission_cache_entry option" where
  "transmission_view ops c t = fst (getTransmissionCacheEntry ops t c)"

definition reception_view :: "'c cache_ops \<Rightarrow> 'c \<Rightarrow> nat \<Rightarrow> nat \<Rightarrow> reception_cache_entry option" where
  "reception_view ops c r t = fst (getReceptionCacheEntry ops r t c)"

definition same_views :: "'c cache_ops \<Rightarrow> 'c \<Rightarrow> 'c \<Rightarrow> bool" where
  "same_views ops c c' \<longleftrightarrow> radio_view ops c' = radio_view ops c \<and> transmission_view ops c' = transmission_view ops c
     \<and> reception_view ops c' = reception_view ops c"

text \<open>
  The entries that a pointer access creates hold nothing, so that a caller sees no difference; a write
  through a pointer changes the entry it was obtained for and no other.
\<close>

locale comm_cache =
  fixes ops :: "'c cache_ops"
  assumes get_radio: "same_views ops c (snd (getRadioCacheEntry ops r c))"
    and get_transmission: "same_views ops c (snd (getTransmissionCacheEntry ops t c))"
    and get_reception: "same_views ops c (snd (getReceptionCacheEntry ops r t c))"
    and poke_radio: "getRadioCacheEntry ops r c = (Some e, c1) \<Longrightarrow> c2 = pokeRadio ops r e' c1 \<Longrightarrow>
      radio_view ops c2 = (radio_view ops c)(r := Some e') \<and> transmission_view ops c2 = transmission_view ops c
      \<and> reception_view ops c2 = reception_view ops c"
    and poke_transmission: "getTransmissionCacheEntry ops t c = (Some te, c1) \<Longrightarrow> c2 = pokeTransmission ops t te' c1 \<Longrightarrow>
      radio_view ops c2 = radio_view ops c \<and> transmission_view ops c2 = (transmission_view ops c)(t := Some te')
      \<and> reception_view ops c2 = reception_view ops c"
    and poke_reception: "getReceptionCacheEntry ops r t c = (Some re, c1) \<Longrightarrow> c2 = pokeReception ops r t re' c1 \<Longrightarrow>
      radio_view ops c2 = radio_view ops c \<and> transmission_view ops c2 = transmission_view ops c
      \<and> reception_view ops c2 = (\<lambda>r'. if r' = r then (reception_view ops c r)(t := Some re') else reception_view ops c r')"
begin

lemma read_entry_views:
  assumes "read_entry ops field r t c = (x, c')"
  shows "same_views ops c c'" and "x = Option.bind (reception_view ops c r t) field"
  using assms get_reception [of c r t] by (auto simp: read_entry_def reception_view_def split: prod.splits option.splits)

lemma write_entry_views:
  assumes "write_entry ops upd r t c = Inr c'"
  obtains e where "reception_view ops c r t = Some e"
    and "reception_view ops c' = (\<lambda>r'. if r' = r then (reception_view ops c r)(t := Some (upd e)) else reception_view ops c r')"
    and "radio_view ops c' = radio_view ops c" and "transmission_view ops c' = transmission_view ops c"
proof -
  from assms obtain e c1 where e: "getReceptionCacheEntry ops r t c = (Some e, c1)" "c' = pokeReception ops r t (upd e) c1"
    by (auto simp: write_entry_def split: prod.splits option.splits)
  then show ?thesis using poke_reception [OF e(1) e(2)] by (intro that) (auto simp: reception_view_def)
qed

lemma write_entry_defined: "reception_view ops c r t = Some e \<Longrightarrow> \<exists>c'. write_entry ops upd r t c = Inr c'"
  by (auto simp: write_entry_def reception_view_def split: prod.splits option.splits)

lemma with_transmission_views:
  assumes "with_transmission ops t f c = Inr (a, c')"
  obtains e where "transmission_view ops c t = Some e" and "a = fst (f e)"
    and "transmission_view ops c' = (transmission_view ops c)(t := Some (snd (f e)))"
    and "radio_view ops c' = radio_view ops c" and "reception_view ops c' = reception_view ops c"
proof -
  from assms obtain e c1 where e: "getTransmissionCacheEntry ops t c = (Some e, c1)" "a = fst (f e)"
      "c' = pokeTransmission ops t (snd (f e)) c1"
    by (auto simp: with_transmission_def split: prod.splits option.splits)
  then show ?thesis using poke_transmission [OF e(1) e(3)] by (intro that) (auto simp: transmission_view_def)
qed

end

subsection \<open>Both data structures keep the contract\<close>

lemma nth_default_grow [simp]: "nth_default d (grow i d xs) j = nth_default d xs j"
  by (auto simp: grow_def resize_list_def nth_default_def nth_append)

lemma nth_grow [simp]: "grow i d xs ! i = nth_default d xs i"
  by (auto simp: grow_def resize_list_def nth_default_def nth_append)

lemma length_grow: "i < length (grow i d xs)"
  by (auto simp: grow_def resize_list_def)

lemma nth_default_list_update:
  "nth_default d (xs[i := x]) j = (if j = i \<and> i < length xs then x else nth_default d xs j)"
  by (auto simp: nth_default_def)

definition entries_of :: "vector_transmission_entry \<Rightarrow> reception_cache_entry list" where
  "entries_of te = (case receptionCacheEntries te of None \<Rightarrow> [] | Some es \<Rightarrow> es)"

definition vec_entry :: "vector_cache \<Rightarrow> nat \<Rightarrow> vector_transmission_entry" where
  "vec_entry c i = nth_default new_vector_transmission_entry (transmissionCache c) i"

lemma entries_of_new [simp]: "entries_of new_vector_transmission_entry = []"
  by (simp add: entries_of_def new_vector_transmission_entry_def transmission_cache_entry.defs vector_transmission_entry.defs)

lemma nth_default_replicate [simp]: "nth_default d (replicate n d) i = d"
  by (auto simp: nth_default_def)

lemma vec_touch_entry:
  assumes "vec_touch t c = (x, c1)" and "baseTransmissionId c \<le> int t" and "i = nat (int t - baseTransmissionId c)"
  obtains te where "x = Some te" and "i < length (transmissionCache c1)" and "transmissionCache c1 ! i = te"
    and "receptionCacheEntries te \<noteq> None"
    and "transmission_cache_entry.truncate te = transmission_cache_entry.truncate (vec_entry c i)"
    and "\<And>k. nth_default new_reception_cache_entry (entries_of te) k
      = nth_default new_reception_cache_entry (entries_of (vec_entry c i)) k"
    and "\<And>j. vec_entry c1 j = (if j = i then te else vec_entry c j)"
    and "radioCache c1 = radioCache c" and "baseRadioId c1 = baseRadioId c" and "baseTransmissionId c1 = baseTransmissionId c"
proof -
  let ?ts = "grow i new_vector_transmission_entry (transmissionCache c)"
  let ?e = "if receptionCacheEntries (?ts ! i) = None
            then (?ts ! i)\<lparr>receptionCacheEntries := Some (replicate (length (radioCache c)) new_reception_cache_entry)\<rparr> else ?ts ! i"
  have x: "x = Some ?e" "c1 = c\<lparr>transmissionCache := ?ts[i := ?e]\<rparr>"
    using assms by (auto simp: vec_touch_def Let_def)
  show ?thesis
  proof (rule that)
    show "i < length (transmissionCache c1)" using x(2) length_grow [of i] by simp
    then show "transmissionCache c1 ! i = ?e" using x(2) by simp
    show "transmission_cache_entry.truncate ?e = transmission_cache_entry.truncate (vec_entry c i)"
      by (simp add: vec_entry_def transmission_cache_entry.defs)
    show "nth_default new_reception_cache_entry (entries_of ?e) k
      = nth_default new_reception_cache_entry (entries_of (vec_entry c i)) k" for k
      by (simp add: vec_entry_def entries_of_def)
    show "vec_entry c1 j = (if j = i then ?e else vec_entry c j)" for j
      using length_grow [of i new_vector_transmission_entry "transmissionCache c"]
      by (simp add: x(2) vec_entry_def nth_default_list_update del: nth_grow)
  qed (use x in auto)
qed

lemma vec_touch_below: "int t < baseTransmissionId c \<Longrightarrow> vec_touch t c = (None, c)"
  by (simp add: vec_touch_def)

lemma vec_radio_view:
  "radio_view vector_ops c r = (if int r < baseRadioId c then None
     else Some (nth_default new_radio_cache_entry (radioCache c) (nat (int r - baseRadioId c))))"
  by (simp add: radio_view_def vector_ops_def vec_getRadio_def Let_def)

lemma vec_transmission_view:
  "transmission_view vector_ops c t = (if int t < baseTransmissionId c then None
     else Some (transmission_cache_entry.truncate (vec_entry c (nat (int t - baseTransmissionId c)))))"
proof (cases "int t < baseTransmissionId c")
  case True
  then show ?thesis by (simp add: transmission_view_def vector_ops_def vec_getTransmission_def vec_touch_below)
next
  case False
  obtain x c1 where xc: "vec_touch t c = (x, c1)" by force
  from vec_touch_entry [OF xc, of "nat (int t - baseTransmissionId c)"] False show ?thesis
    by (auto simp: transmission_view_def vector_ops_def vec_getTransmission_def xc)
qed

lemma vec_reception_view:
  "reception_view vector_ops c r t = (if int t < baseTransmissionId c \<or> int r < baseRadioId c then None
     else Some (nth_default new_reception_cache_entry (entries_of (vec_entry c (nat (int t - baseTransmissionId c))))
            (nat (int r - baseRadioId c))))"
proof (cases "int t < baseTransmissionId c")
  case True
  then show ?thesis by (simp add: reception_view_def vector_ops_def vec_getReception_def vec_touch_below)
next
  case False
  obtain x c1 where xc: "vec_touch t c = (x, c1)" by force
  from vec_touch_entry [OF xc, of "nat (int t - baseTransmissionId c)"] False
  obtain te where te: "x = Some te" "receptionCacheEntries te \<noteq> None" "baseRadioId c1 = baseRadioId c"
    "\<And>k. nth_default new_reception_cache_entry (entries_of te) k
      = nth_default new_reception_cache_entry (entries_of (vec_entry c (nat (int t - baseTransmissionId c)))) k"
    by (metis not_le)
  from te(2) have "the (receptionCacheEntries te) = entries_of te" by (auto simp: entries_of_def)
  with False te show ?thesis
    by (auto simp: reception_view_def vector_ops_def vec_getReception_def xc Let_def)
qed

text \<open>Two caches that a caller cannot tell apart.\<close>

lemma vec_same_viewsI:
  assumes "baseRadioId c' = baseRadioId c" and "baseTransmissionId c' = baseTransmissionId c"
    and "\<And>i. nth_default new_radio_cache_entry (radioCache c') i = nth_default new_radio_cache_entry (radioCache c) i"
    and "\<And>i. transmission_cache_entry.truncate (vec_entry c' i) = transmission_cache_entry.truncate (vec_entry c i)"
    and "\<And>i k. nth_default new_reception_cache_entry (entries_of (vec_entry c' i)) k
      = nth_default new_reception_cache_entry (entries_of (vec_entry c i)) k"
  shows "same_views vector_ops c c'"
  using assms by (simp add: same_views_def fun_eq_iff vec_radio_view vec_transmission_view vec_reception_view)

lemma vec_touch_views: "same_views vector_ops c (snd (vec_touch t c))"
proof (cases "int t < baseTransmissionId c")
  case True
  then show ?thesis by (simp add: vec_touch_below same_views_def)
next
  case False
  obtain x c1 where xc: "vec_touch t c = (x, c1)" by force
  from False have le: "baseTransmissionId c \<le> int t" by simp
  show ?thesis
    by (rule vec_touch_entry [OF xc le refl], unfold xc snd_conv, rule vec_same_viewsI) simp_all
qed

lemma vec_getReception_some:
  assumes "vec_getReception r t c = (Some e, c1)"
  obtains te es i k where "i = nat (int t - baseTransmissionId c)" and "k = nat (int r - baseRadioId c)"
    and "baseTransmissionId c \<le> int t" and "baseRadioId c \<le> int r"
    and "i < length (transmissionCache c1)" and "transmissionCache c1 ! i = te" and "receptionCacheEntries te = Some es"
    and "k < length es" and "e = es ! k"
    and "transmission_cache_entry.truncate te = transmission_cache_entry.truncate (vec_entry c i)"
    and "\<And>k. nth_default new_reception_cache_entry es k
      = nth_default new_reception_cache_entry (entries_of (vec_entry c i)) k"
    and "\<And>j. vec_entry c1 j = (if j = i then te else vec_entry c j)"
    and "radioCache c1 = radioCache c" and "baseRadioId c1 = baseRadioId c" and "baseTransmissionId c1 = baseTransmissionId c"
proof -
  let ?i = "nat (int t - baseTransmissionId c)" and ?k = "nat (int r - baseRadioId c)"
  obtain x c0 where xc: "vec_touch t c = (x, c0)" by force
  have t: "baseTransmissionId c \<le> int t"
    using assms by (rule_tac ccontr) (simp add: vec_getReception_def vec_touch_below)
  show ?thesis
  proof (rule vec_touch_entry [OF xc t refl])
    fix te
    assume te: "x = Some te" "?i < length (transmissionCache c0)"
      "transmissionCache c0 ! ?i = te" "receptionCacheEntries te \<noteq> None"
      "transmission_cache_entry.truncate te = transmission_cache_entry.truncate (vec_entry c ?i)"
      "\<And>k. nth_default new_reception_cache_entry (entries_of te) k
        = nth_default new_reception_cache_entry (entries_of (vec_entry c ?i)) k"
      "\<And>j. vec_entry c0 j = (if j = ?i then te else vec_entry c j)"
      "radioCache c0 = radioCache c" "baseRadioId c0 = baseRadioId c" "baseTransmissionId c0 = baseTransmissionId c"
    from te(4) have en: "the (receptionCacheEntries te) = entries_of te" by (auto simp: entries_of_def)
    let ?es = "grow ?k new_reception_cache_entry (entries_of te)"
    let ?te = "te\<lparr>receptionCacheEntries := Some ?es\<rparr>"
    have r: "baseRadioId c \<le> int r" and e: "e = ?es ! ?k" and c1: "c1 = c0\<lparr>transmissionCache := (transmissionCache c0)[?i := ?te]\<rparr>"
      using assms te(1,9,10) en by (simp_all add: vec_getReception_def xc Let_def del: nth_grow split: if_splits)
    show ?thesis
    proof (rule that [OF refl refl t r])
      show "transmissionCache c1 ! ?i = ?te" using te(2) by (simp add: c1)
      show "transmission_cache_entry.truncate ?te = transmission_cache_entry.truncate (vec_entry c ?i)"
        using te(5) by (simp add: transmission_cache_entry.defs)
      show "vec_entry c1 j = (if j = ?i then ?te else vec_entry c j)" for j
        using te(2) te(7) [of j] by (auto simp: c1 vec_entry_def nth_default_list_update)
      show "?i < length (transmissionCache c1)" using te(2) by (simp add: c1)
      show "receptionCacheEntries ?te = Some ?es" by simp
      show "?k < length ?es" by (rule length_grow)
      show "e = ?es ! ?k" by (rule e)
      show "nth_default new_reception_cache_entry ?es k
        = nth_default new_reception_cache_entry (entries_of (vec_entry c ?i)) k" for k
        using te(6) by simp
      show "radioCache c1 = radioCache c" "baseRadioId c1 = baseRadioId c" "baseTransmissionId c1 = baseTransmissionId c"
        using te(8-10) by (simp_all add: c1)
    qed
  qed
qed

lemma vec_poke_reception:
  assumes "vec_getReception r t c = (Some e, c1)" and "c2 = vec_pokeReception r t e' c1"
  shows "radio_view vector_ops c2 = radio_view vector_ops c \<and> transmission_view vector_ops c2 = transmission_view vector_ops c
    \<and> reception_view vector_ops c2
      = (\<lambda>r'. if r' = r then (reception_view vector_ops c r)(t := Some e') else reception_view vector_ops c r')"
proof (rule vec_getReception_some [OF assms(1)])
  fix te es i k
  assume i: "i = nat (int t - baseTransmissionId c)" and k: "k = nat (int r - baseRadioId c)"
    and le: "baseTransmissionId c \<le> int t" "baseRadioId c \<le> int r"
    and te: "i < length (transmissionCache c1)" "transmissionCache c1 ! i = te" "receptionCacheEntries te = Some es" "k < length es"
      "transmission_cache_entry.truncate te = transmission_cache_entry.truncate (vec_entry c i)"
      "\<And>k. nth_default new_reception_cache_entry es k = nth_default new_reception_cache_entry (entries_of (vec_entry c i)) k"
      "\<And>j. vec_entry c1 j = (if j = i then te else vec_entry c j)"
      "radioCache c1 = radioCache c" "baseRadioId c1 = baseRadioId c" "baseTransmissionId c1 = baseTransmissionId c"
  let ?te = "te\<lparr>receptionCacheEntries := Some (es[k := e'])\<rparr>"
  have c2: "c2 = c1\<lparr>transmissionCache := (transmissionCache c1)[i := ?te]\<rparr>"
    using te i k by (simp add: assms(2) vec_pokeReception_def Let_def)
  have entry: "vec_entry c2 j = (if j = i then ?te else vec_entry c j)" for j
    using te(1,7) by (auto simp: c2 vec_entry_def nth_default_list_update)
  have tr: "transmission_cache_entry.truncate (vec_entry c2 j) = transmission_cache_entry.truncate (vec_entry c j)" for j
    using te(5) by (simp add: entry transmission_cache_entry.defs)
  have en: "nth_default new_reception_cache_entry (entries_of (vec_entry c2 j)) l
    = (if j = i \<and> l = k then e' else nth_default new_reception_cache_entry (entries_of (vec_entry c j)) l)" for j l
    using te(4) te(6) [of l] by (auto simp: entry entries_of_def nth_default_list_update)
  have "baseTransmissionId c2 = baseTransmissionId c" "baseRadioId c2 = baseRadioId c" "radioCache c2 = radioCache c"
    using te by (simp_all add: c2)
  then show ?thesis
    using le by (auto simp: fun_eq_iff vec_radio_view vec_transmission_view vec_reception_view tr en i k)
qed

lemma vec_poke_transmission:
  assumes "vec_getTransmission t c = (Some e, c1)" and "c2 = vec_pokeTransmission t e' c1"
  shows "radio_view vector_ops c2 = radio_view vector_ops c
    \<and> transmission_view vector_ops c2 = (transmission_view vector_ops c)(t := Some e')
    \<and> reception_view vector_ops c2 = reception_view vector_ops c"
proof -
  let ?i = "nat (int t - baseTransmissionId c)"
  obtain x c0 where xc: "vec_touch t c = (x, c0)" by force
  have le: "baseTransmissionId c \<le> int t"
    using assms by (rule_tac ccontr) (simp add: vec_getTransmission_def vec_touch_below)
  have c1: "c1 = c0" using assms(1) by (auto simp: vec_getTransmission_def xc)
  from vec_touch_entry [OF xc le refl] obtain te where te: "?i < length (transmissionCache c0)"
    "transmissionCache c0 ! ?i = te"
    "\<And>k. nth_default new_reception_cache_entry (entries_of te) k
      = nth_default new_reception_cache_entry (entries_of (vec_entry c ?i)) k"
    "\<And>j. vec_entry c0 j = (if j = ?i then te else vec_entry c j)"
    "radioCache c0 = radioCache c" "baseRadioId c0 = baseRadioId c" "baseTransmissionId c0 = baseTransmissionId c" by metis
  let ?te = "te\<lparr>interferenceEndTime := interferenceEndTime e', tce_frame := tce_frame e'\<rparr>"
  have c2: "c2 = c0\<lparr>transmissionCache := (transmissionCache c0)[?i := ?te]\<rparr>"
    using te by (simp add: assms(2) vec_pokeTransmission_def c1 Let_def)
  have entry: "vec_entry c2 j = (if j = ?i then ?te else vec_entry c j)" for j
    using te(1,4) by (auto simp: c2 vec_entry_def nth_default_list_update)
  have tr: "transmission_cache_entry.truncate (vec_entry c2 j)
    = (if j = ?i then e' else transmission_cache_entry.truncate (vec_entry c j))" for j
    by (simp add: entry transmission_cache_entry.defs)
  have en: "nth_default new_reception_cache_entry (entries_of (vec_entry c2 j)) l
    = nth_default new_reception_cache_entry (entries_of (vec_entry c j)) l" for j l
    using te(3) [of l] by (simp add: entry entries_of_def)
  have "baseTransmissionId c2 = baseTransmissionId c" "baseRadioId c2 = baseRadioId c" "radioCache c2 = radioCache c"
    using te by (simp_all add: c2)
  then show ?thesis
    using le by (auto simp: fun_eq_iff vec_radio_view vec_transmission_view vec_reception_view en tr)
qed

lemma vec_poke_radio:
  assumes "vec_getRadio r c = (Some e, c1)" and "c2 = vec_pokeRadio r e' c1"
  shows "radio_view vector_ops c2 = (radio_view vector_ops c)(r := Some e')
    \<and> transmission_view vector_ops c2 = transmission_view vector_ops c \<and> reception_view vector_ops c2 = reception_view vector_ops c"
proof -
  let ?k = "nat (int r - baseRadioId c)"
  have le: "baseRadioId c \<le> int r" and c1: "c1 = c\<lparr>radioCache := grow ?k new_radio_cache_entry (radioCache c)\<rparr>"
    using assms(1) by (auto simp: vec_getRadio_def Let_def split: if_splits)
  have "vec_entry c2 j = vec_entry c j" for j by (simp add: assms(2) vec_pokeRadio_def c1 vec_entry_def)
  then show ?thesis
    using le length_grow [of ?k new_radio_cache_entry "radioCache c"]
    by (auto simp: assms(2) vec_pokeRadio_def c1 fun_eq_iff vec_radio_view vec_transmission_view vec_reception_view
        nth_default_list_update)
qed

lemma vector_ops_sel [simp]:
  "getRadioCacheEntry vector_ops = vec_getRadio" "pokeRadio vector_ops = vec_pokeRadio"
  "getTransmissionCacheEntry vector_ops = vec_getTransmission" "pokeTransmission vector_ops = vec_pokeTransmission"
  "getReceptionCacheEntry vector_ops = vec_getReception" "pokeReception vector_ops = vec_pokeReception"
  "cc_addRadio vector_ops = vec_addRadio" "cc_removeRadio vector_ops = vec_removeRadio"
  "cc_addTransmission vector_ops = vec_addTransmission" "cc_removeTransmission vector_ops = vec_removeTransmission"
  "cc_removeNonInterfering vector_ops = vec_removeNonInterfering"
  by (simp_all add: vector_ops_def)

interpretation vector: comm_cache vector_ops
proof
  fix c r t e c1 c2 e' te te' re re'
  show "same_views vector_ops c (snd (getRadioCacheEntry vector_ops r c))"
    by (rule vec_same_viewsI) (simp_all add: vec_getRadio_def Let_def vec_entry_def)
  show "same_views vector_ops c (snd (getTransmissionCacheEntry vector_ops t c))"
    using vec_touch_views [of c t] by (simp add: vec_getTransmission_def split_beta)
  show "same_views vector_ops c (snd (getReceptionCacheEntry vector_ops r t c))"
  proof (cases "vec_getReception r t c")
    case (Pair x c1)
    show ?thesis
    proof (cases x)
      case None
      with Pair vec_touch_views [of c t] show ?thesis
        by (auto simp: vec_getReception_def Let_def split: prod.splits option.splits if_splits)
    next
      case (Some e)
      with Pair have g: "vec_getReception r t c = (Some e, c1)" by simp
      have "same_views vector_ops c c1"
        by (rule vec_getReception_some [OF g], rule vec_same_viewsI) (simp_all add: entries_of_def)
      with g show ?thesis by simp
    qed
  qed
qed (simp_all add: vec_poke_radio vec_poke_transmission vec_poke_reception)

lemma lookup_default_update [simp]: "lookup_default d (AList.update k v al) j = (if j = k then v else lookup_default d al j)"
  by (simp add: lookup_default_def update_conv')

definition map_entry :: "map_cache \<Rightarrow> nat \<Rightarrow> map_transmission_entry" where
  "map_entry c t = lookup_default new_map_transmission_entry (mc_transmissionCache c) t"

definition map_entries_of :: "map_transmission_entry \<Rightarrow> (nat \<times> reception_cache_entry) list" where
  "map_entries_of te = (case receptionCacheMap te of None \<Rightarrow> [] | Some es \<Rightarrow> es)"

lemma map_ops_sel [simp]:
  "getRadioCacheEntry map_ops = map_getRadio" "pokeRadio map_ops = map_pokeRadio"
  "getTransmissionCacheEntry map_ops = map_getTransmission" "pokeTransmission map_ops = map_pokeTransmission"
  "getReceptionCacheEntry map_ops = map_getReception" "pokeReception map_ops = map_pokeReception"
  "cc_addRadio map_ops = map_addRadio" "cc_removeRadio map_ops = map_removeRadio"
  "cc_addTransmission map_ops = map_addTransmission" "cc_removeTransmission map_ops = map_removeTransmission"
  "cc_removeNonInterfering map_ops = map_removeNonInterfering"
  by (simp_all add: map_ops_def)

lemma map_touch_entry:
  assumes "map_touch t c = (te, c1)"
  shows "receptionCacheMap te = Some (map_entries_of (map_entry c t))"
    and "transmission_cache_entry.truncate te = transmission_cache_entry.truncate (map_entry c t)"
    and "map_entry c1 j = (if j = t then te else map_entry c j)"
    and "mc_radioCache c1 = mc_radioCache c"
  using assms
  by (auto simp: map_touch_def map_entry_def map_entries_of_def Let_def transmission_cache_entry.defs split: if_splits)

lemma map_entries_of_some: "receptionCacheMap te = Some es \<Longrightarrow> map_entries_of te = es"
  by (simp add: map_entries_of_def)

lemma map_radio_view: "radio_view map_ops c r = Some (lookup_default new_radio_cache_entry (mc_radioCache c) r)"
  by (simp add: radio_view_def map_getRadio_def Let_def)

lemma map_transmission_view: "transmission_view map_ops c t = Some (transmission_cache_entry.truncate (map_entry c t))"
  using map_touch_entry(2) [of t c] by (auto simp: transmission_view_def map_getTransmission_def split: prod.splits)

lemma map_reception_view:
  "reception_view map_ops c r t = Some (lookup_default new_reception_cache_entry (map_entries_of (map_entry c t)) r)"
  using map_touch_entry(1) [of t c]
  by (auto simp: reception_view_def map_getReception_def Let_def split: prod.splits)

lemmas map_views = map_radio_view map_transmission_view map_reception_view

lemma map_get_reception:
  assumes "map_getReception r t c = (Some e, c1)"
  shows "e = lookup_default new_reception_cache_entry (map_entries_of (map_entry c t)) r"
    and "map_entries_of (map_entry c1 j)
      = (if j = t then AList.update r e (map_entries_of (map_entry c t)) else map_entries_of (map_entry c j))"
    and "receptionCacheMap (map_entry c1 t) = Some (AList.update r e (map_entries_of (map_entry c t)))"
    and "transmission_cache_entry.truncate (map_entry c1 j) = transmission_cache_entry.truncate (map_entry c j)"
    and "mc_radioCache c1 = mc_radioCache c"
proof -
  obtain te c0 where xc: "map_touch t c = (te, c0)" by force
  note te = map_touch_entry [OF xc]
  let ?es = "map_entries_of (map_entry c t)"
  show e: "e = lookup_default new_reception_cache_entry ?es r"
    using assms te(1) by (simp add: map_getReception_def xc Let_def)
  have c1: "c1 = c0\<lparr>mc_transmissionCache := AList.update t (te\<lparr>receptionCacheMap := Some (AList.update r e ?es)\<rparr>)
      (mc_transmissionCache c0)\<rparr>"
    using assms te(1) by (auto simp: map_getReception_def xc Let_def)
  have entry: "map_entry c1 j = (if j = t then te\<lparr>receptionCacheMap := Some (AList.update r e ?es)\<rparr> else map_entry c j)" for j
    using te(3) [of j] by (auto simp: c1 map_entry_def)
  show "map_entries_of (map_entry c1 j) = (if j = t then AList.update r e ?es else map_entries_of (map_entry c j))"
    by (simp add: entry map_entries_of_def)
  show "receptionCacheMap (map_entry c1 t) = Some (AList.update r e ?es)" by (simp add: entry)
  show "transmission_cache_entry.truncate (map_entry c1 j) = transmission_cache_entry.truncate (map_entry c j)"
    using te(2) by (simp add: entry transmission_cache_entry.defs)
  show "mc_radioCache c1 = mc_radioCache c" using te(4) by (simp add: c1)
qed

lemma map_poke_reception:
  assumes "map_getReception r t c = (Some e, c1)" and "c2 = map_pokeReception r t e' c1"
  shows "radio_view map_ops c2 = radio_view map_ops c \<and> transmission_view map_ops c2 = transmission_view map_ops c
    \<and> reception_view map_ops c2 = (\<lambda>r'. if r' = r then (reception_view map_ops c r)(t := Some e') else reception_view map_ops c r')"
proof -
  note g = map_get_reception [OF assms(1)]
  let ?es = "map_entries_of (map_entry c t)"
  have entry: "map_entry c2 j = (if j = t then (map_entry c1 t)\<lparr>receptionCacheMap := Some (AList.update r e' (AList.update r e ?es))\<rparr>
      else map_entry c1 j)" for j
    using g(3) by (simp add: assms(2) map_pokeReception_def map_entry_def Let_def)
  have en: "map_entries_of (map_entry c2 j)
    = (if j = t then AList.update r e' (AList.update r e ?es) else map_entries_of (map_entry c j))" for j
    using g(2) [of j] by (simp add: entry map_entries_of_def)
  have tr: "transmission_cache_entry.truncate (map_entry c2 j) = transmission_cache_entry.truncate (map_entry c j)" for j
    using g(4) [of j] by (auto simp: entry transmission_cache_entry.defs)
  have "mc_radioCache c2 = mc_radioCache c" using g(5) by (simp add: assms(2) map_pokeReception_def Let_def)
  then show ?thesis by (auto simp: fun_eq_iff map_views en tr)
qed

lemma map_poke_transmission:
  assumes "map_getTransmission t c = (Some e, c1)" and "c2 = map_pokeTransmission t e' c1"
  shows "radio_view map_ops c2 = radio_view map_ops c \<and> transmission_view map_ops c2 = (transmission_view map_ops c)(t := Some e')
    \<and> reception_view map_ops c2 = reception_view map_ops c"
proof -
  obtain te c0 where xc: "map_touch t c = (te, c0)" by force
  note te = map_touch_entry [OF xc]
  have c1: "c1 = c0" using assms(1) by (simp add: map_getTransmission_def xc)
  let ?te = "te\<lparr>interferenceEndTime := interferenceEndTime e', tce_frame := tce_frame e'\<rparr>"
  have entry: "map_entry c2 j = (if j = t then ?te else map_entry c j)" for j
    using te(3) [of t] te(3) [of j] by (simp add: assms(2) c1 map_pokeTransmission_def map_entry_def Let_def)
  have en: "map_entries_of (map_entry c2 j) = map_entries_of (map_entry c j)" for j
    using te(1) by (simp add: entry map_entries_of_def)
  have tr: "transmission_cache_entry.truncate (map_entry c2 j)
    = (if j = t then e' else transmission_cache_entry.truncate (map_entry c j))" for j
    by (simp add: entry transmission_cache_entry.defs)
  have "mc_radioCache c2 = mc_radioCache c" using te(4) by (simp add: assms(2) c1 map_pokeTransmission_def Let_def)
  then show ?thesis by (auto simp: fun_eq_iff map_views en tr)
qed

interpretation map_based: comm_cache map_ops
proof
  fix c r t e c1 c2 e' te te' re re'
  show "same_views map_ops c (snd (getRadioCacheEntry map_ops r c))"
    by (simp add: same_views_def fun_eq_iff map_views map_getRadio_def map_entry_def Let_def)
  obtain x c0 where xc: "map_touch t c = (x, c0)" by force
  note x = map_touch_entry [OF xc]
  have "map_entries_of (map_entry c0 j) = map_entries_of (map_entry c j)" for j
    using x(1) x(3) [of j] by (simp add: map_entries_of_def)
  moreover have "transmission_cache_entry.truncate (map_entry c0 j) = transmission_cache_entry.truncate (map_entry c j)" for j
    using x(2) x(3) [of j] by simp
  ultimately show "same_views map_ops c (snd (getTransmissionCacheEntry map_ops t c))"
    using x(4) by (simp add: same_views_def fun_eq_iff map_views map_getTransmission_def xc)
  obtain e0 c3 where g: "map_getReception r t c = (Some e0, c3)" by (force simp: map_getReception_def Let_def split_beta)
  show "same_views map_ops c (snd (getReceptionCacheEntry map_ops r t c))"
    using map_get_reception [OF g] by (simp add: g same_views_def fun_eq_iff map_views)
qed (auto simp: map_poke_transmission map_poke_reception map_pokeRadio_def map_getRadio_def Let_def fun_eq_iff map_views map_entry_def)

subsection \<open>What the calls of the base class do, in terms of the views\<close>

definition interval_added :: "radio_cache_entry \<Rightarrow> interval \<Rightarrow> radio_cache_entry" where
  "interval_added e iv = e\<lparr>receptionIntervals := Some ((case receptionIntervals e of None \<Rightarrow> [] | Some ivs \<Rightarrow> ivs) @ [iv])\<rparr>"

context comm_cache
begin

text \<open>What each call answers, and what it leaves behind, in terms of the views alone.\<close>

lemma setCachedInterval_views:
  assumes e: "reception_view ops c r t = Some e" and re: "radio_view ops c r = Some re"
  obtains c' where "setCachedInterval ops r t iv c = Inr c'"
    and "radio_view ops c' = (radio_view ops c)(r := Some (interval_added re iv))"
    and "transmission_view ops c' = transmission_view ops c"
    and "reception_view ops c'
      = (\<lambda>r'. if r' = r then (reception_view ops c r)(t := Some (e\<lparr>rce_interval := Some iv\<rparr>)) else reception_view ops c r')"
proof -
  obtain c1 where w: "write_entry ops (\<lambda>e. e\<lparr>rce_interval := Some iv\<rparr>) r t c = Inr c1"
    using write_entry_defined [OF e] by blast
  from write_entry_views [OF w] e have v1: "radio_view ops c1 = radio_view ops c"
    "transmission_view ops c1 = transmission_view ops c" "reception_view ops c1
      = (\<lambda>r'. if r' = r then (reception_view ops c r)(t := Some (e\<lparr>rce_interval := Some iv\<rparr>)) else reception_view ops c r')"
    by (metis option.inject)+
  obtain c2 where g: "getRadioCacheEntry ops r c1 = (Some re, c2)"
    using re v1(1) by (metis radio_view_def prod.collapse)
  let ?c3 = "pokeRadio ops r (interval_added re iv) c2"
  from poke_radio [OF g refl, of "interval_added re iv"] v1
  show ?thesis by (intro that [of ?c3]) (simp_all add: setCachedInterval_def w g interval_added_def Let_def)
qed

lemma with_transmission_defined:
  assumes "transmission_view ops c t = Some e"
  obtains c' where "with_transmission ops t f c = Inr (fst (f e), c')"
    and "transmission_view ops c' = (transmission_view ops c)(t := Some (snd (f e)))"
    and "radio_view ops c' = radio_view ops c" and "reception_view ops c' = reception_view ops c"
proof -
  obtain c1 where g: "getTransmissionCacheEntry ops t c = (Some e, c1)"
    using assms by (metis transmission_view_def prod.collapse)
  from poke_transmission [OF g refl, of "snd (f e)"] show ?thesis
    by (intro that [of "pokeTransmission ops t (snd (f e)) c1"]) (simp_all add: with_transmission_def g split_beta)
qed

lemma computeInterfering_views:
  assumes "radio_view ops c r = Some e"
  obtains c' where "computeInterferingTransmissions ops r a b c
      = Inr (case receptionIntervals e of None \<Rightarrow> [] | Some ivs \<Rightarrow> map iv_value (query a b ivs), c')" and "same_views ops c c'"
proof -
  obtain c1 where g: "getRadioCacheEntry ops r c = (Some e, c1)"
    using assms by (metis radio_view_def prod.collapse)
  with get_radio [of c r] show ?thesis by (intro that [of c1]) (simp_all add: computeInterferingTransmissions_def)
qed

end

subsection \<open>Which transmissions a cache holds\<close>

text \<open>
  Accesses to a transmission that the cache holds do not change which ones it holds: \<open>shape\<close> is what the data structure
  needs to know them by.
\<close>

locale shaped_cache = comm_cache ops for ops :: "'c cache_ops" +
  fixes shape :: "'c \<Rightarrow> 's" and known :: "'c \<Rightarrow> nat \<Rightarrow> bool"
  assumes known_shape: "shape c' = shape c \<Longrightarrow> known c' t = known c t"
    and shape_radio: "getRadioCacheEntry ops r c = (x, c1) \<Longrightarrow> shape c1 = shape c"
    and shape_poke_radio: "shape (pokeRadio ops r e c) = shape c"
    and shape_transmission: "known c t \<Longrightarrow> getTransmissionCacheEntry ops t c = (y, c1) \<Longrightarrow> shape c1 = shape c"
    and shape_poke_transmission: "known c t \<Longrightarrow> shape (pokeTransmission ops t te c) = shape c"
    and shape_reception: "known c t \<Longrightarrow> getReceptionCacheEntry ops r t c = (z, c1) \<Longrightarrow> shape c1 = shape c"
    and shape_poke_reception: "known c t \<Longrightarrow> shape (pokeReception ops r t re c) = shape c"
begin

lemma read_entry_shape: "known c t \<Longrightarrow> read_entry ops field r t c = (x, c') \<Longrightarrow> shape c' = shape c"
  by (auto simp: read_entry_def split: prod.splits option.splits dest: shape_reception)

lemma write_entry_shape: "known c t \<Longrightarrow> write_entry ops upd r t c = Inr c' \<Longrightarrow> shape c' = shape c"
proof -
  assume k: "known c t" and w: "write_entry ops upd r t c = Inr c'"
  from w obtain e c1 where g: "getReceptionCacheEntry ops r t c = (Some e, c1)" "c' = pokeReception ops r t (upd e) c1"
    by (auto simp: write_entry_def split: prod.splits option.splits)
  note s = shape_reception [OF k g(1)]
  from k known_shape [OF s] have "known c1 t" by simp
  with s g(2) show ?thesis by (simp add: shape_poke_reception)
qed

lemma with_transmission_shape: "known c t \<Longrightarrow> with_transmission ops t f c = Inr (a, c') \<Longrightarrow> shape c' = shape c"
proof -
  assume k: "known c t" and w: "with_transmission ops t f c = Inr (a, c')"
  from w obtain e c1 where g: "getTransmissionCacheEntry ops t c = (Some e, c1)" "c' = pokeTransmission ops t (snd (f e)) c1"
    by (auto simp: with_transmission_def split: prod.splits option.splits)
  note s = shape_transmission [OF k g(1)]
  from k known_shape [OF s] have "known c1 t" by simp
  with s g(2) show ?thesis by (simp add: shape_poke_transmission)
qed

lemma computeInterfering_shape: "computeInterferingTransmissions ops r a b c = Inr (x, c') \<Longrightarrow> shape c' = shape c"
  by (auto simp: computeInterferingTransmissions_def split: prod.splits option.splits dest: shape_radio)

end

definition vec_shape :: "vector_cache \<Rightarrow> int \<times> int \<times> nat" where
  "vec_shape c = (baseRadioId c, baseTransmissionId c, length (transmissionCache c))"

definition vec_known :: "vector_cache \<Rightarrow> nat \<Rightarrow> bool" where
  "vec_known c t \<longleftrightarrow> baseTransmissionId c \<le> int t \<and> nat (int t - baseTransmissionId c) < length (transmissionCache c)"

lemma vec_touch_shape: "vec_known c t \<Longrightarrow> vec_touch t c = (x, c1) \<Longrightarrow> vec_shape c1 = vec_shape c"
  by (auto simp: vec_known_def vec_touch_def vec_shape_def grow_def Let_def split: if_splits)

interpretation vector_shaped: shaped_cache vector_ops vec_shape vec_known
proof
  fix c c1 :: vector_cache and r t e te re x y z
  show "vec_known c t \<Longrightarrow> getTransmissionCacheEntry vector_ops t c = (y, c1) \<Longrightarrow> vec_shape c1 = vec_shape c"
    by (auto simp: vec_getTransmission_def split: prod.splits dest: vec_touch_shape)
  show "vec_shape c1 = vec_shape c" if k: "vec_known c t" and g: "getReceptionCacheEntry vector_ops r t c = (z, c1)"
  proof -
    obtain x c0 where xc: "vec_touch t c = (x, c0)" by force
    with vec_touch_shape [OF k xc] g show ?thesis
      by (cases x) (auto simp: vec_getReception_def xc Let_def vec_shape_def split: if_splits)
  qed
qed (auto simp: vec_known_def vec_shape_def vec_getRadio_def vec_pokeRadio_def vec_pokeTransmission_def
    vec_pokeReception_def Let_def split: if_splits)

definition map_shape :: "map_cache \<Rightarrow> nat set" where
  "map_shape c = dom (map_of (mc_transmissionCache c))"

definition map_known :: "map_cache \<Rightarrow> nat \<Rightarrow> bool" where
  "map_known c t \<longleftrightarrow> t \<in> map_shape c"

lemma map_shape_update: "t \<in> map_shape c \<Longrightarrow> map_shape (c\<lparr>mc_transmissionCache := AList.update t te (mc_transmissionCache c)\<rparr>) = map_shape c"
  by (auto simp: map_shape_def update_conv')

lemma map_touch_shape: "map_known c t \<Longrightarrow> map_touch t c = (x, c1) \<Longrightarrow> map_shape c1 = map_shape c"
  by (auto simp: map_known_def map_touch_def Let_def map_shape_update split: if_splits)

lemma map_shape_radios: "map_shape (c\<lparr>mc_radioCache := x\<rparr>) = map_shape c"
  by (simp add: map_shape_def)

interpretation map_shaped: shaped_cache map_ops map_shape map_known
proof
  fix c c1 c' :: map_cache and r t e te re x y z
  show "map_shape c' = map_shape c \<Longrightarrow> map_known c' t = map_known c t"
    by (simp only: map_known_def)
  show "getRadioCacheEntry map_ops r c = (x, c1) \<Longrightarrow> map_shape c1 = map_shape c"
    unfolding map_ops_sel map_getRadio_def Let_def by (simp add: map_shape_radios [symmetric]) (metis map_shape_radios)
  show "map_shape (pokeRadio map_ops r e c) = map_shape c"
    unfolding map_ops_sel map_pokeRadio_def by (rule map_shape_radios)
  show "map_known c t \<Longrightarrow> getTransmissionCacheEntry map_ops t c = (y, c1) \<Longrightarrow> map_shape c1 = map_shape c"
    by (auto simp: map_getTransmission_def split: prod.splits dest: map_touch_shape)
  show "map_known c t \<Longrightarrow> map_shape (pokeTransmission map_ops t te c) = map_shape c"
    unfolding map_ops_sel map_pokeTransmission_def map_known_def Let_def by (rule map_shape_update)
  show "map_known c t \<Longrightarrow> map_shape (pokeReception map_ops r t re c) = map_shape c"
    unfolding map_ops_sel map_pokeReception_def map_known_def Let_def by (rule map_shape_update)
  show "map_shape c1 = map_shape c" if k: "map_known c t" and g: "getReceptionCacheEntry map_ops r t c = (z, c1)"
  proof -
    obtain te' c0 where xc: "map_touch t c = (te', c0)" by force
    note s = map_touch_shape [OF k xc]
    from k s have "t \<in> map_shape c0" by (simp add: map_known_def)
    moreover have "c1 = c0\<lparr>mc_transmissionCache := AList.update t (te'\<lparr>receptionCacheMap := Some (AList.update r
        (lookup_default new_reception_cache_entry (the (receptionCacheMap te')) r) (the (receptionCacheMap te')))\<rparr>) (mc_transmissionCache c0)\<rparr>"
      using g unfolding map_ops_sel map_getReception_def xc Let_def prod.case by (rule Pair_inject) (rule sym)
    ultimately show ?thesis unfolding s [symmetric] by (simp only: map_shape_update)
  qed
qed

end
