(* ===== verification/CacheRefinement.thy ===== *)
theory CacheRefinement
  imports CommunicationCache
begin

text \<open>
  \<open>VectorCommunicationCache\<close> in place of \<open>MapCommunicationCache\<close>, for every sequence of calls of the
  medium: the reads, writes and queries of the base class, radios and transmissions that come and go,
  and the purge. The two forget differently. The map erases a radio's entries when the radio is
  removed and a transmission's when the medium removes it, and its purge does nothing; the vector
  marks a removed radio as stale, shifts its arrays when a prefix of radios is stale, ignores the
  removal of a transmission, and its purge drops the prefix of transmissions whose interference has
  ended. What a caller may still ask for is answered alike.
\<close>

subsection \<open>Calls and their answers\<close>

text \<open>The calls of the base class, with what they answer.\<close>

datatype cache_call =
    ReadReception nat nat
  | WriteReception nat nat "reception_cache_entry \<Rightarrow> reception_cache_entry"
  | SetInterval nat nat interval
  | GetInterferenceEnd nat
  | SetInterferenceEnd nat simtime
  | GetFrame nat
  | SetFrame nat nat
  | ComputeInterfering nat simtime simtime

datatype cache_answer =
    Done
  | AnsReception "reception_cache_entry option"
  | AnsTime "simtime option"
  | AnsFrame "nat option"
  | AnsTransmissions "med_transmission list"

definition answer :: "('a \<Rightarrow> cache_answer) \<Rightarrow> ('a \<times> 'c) result \<Rightarrow> (cache_answer \<times> 'c) result" where
  "answer f m = andThen m (\<lambda>(a, c). Inr (f a, c))"

fun do_call :: "'c cache_ops \<Rightarrow> cache_call \<Rightarrow> 'c \<Rightarrow> (cache_answer \<times> 'c) result" where
  "do_call ops (ReadReception r t) c = answer AnsReception (Inr (read_entry ops Some r t c))"
| "do_call ops (WriteReception r t f) c = andThen (write_entry ops f r t c) (\<lambda>c. Inr (Done, c))"
| "do_call ops (SetInterval r t iv) c = andThen (setCachedInterval ops r t iv c) (\<lambda>c. Inr (Done, c))"
| "do_call ops (GetInterferenceEnd t) c = answer AnsTime (getCachedInterferenceEndTime ops t c)"
| "do_call ops (SetInterferenceEnd t x) c = answer (\<lambda>_. Done) (setCachedInterferenceEndTime ops t x c)"
| "do_call ops (GetFrame t) c = answer AnsFrame (getCachedFrame ops t c)"
| "do_call ops (SetFrame t f) c = answer (\<lambda>_. Done) (setCachedFrame ops t f c)"
| "do_call ops (ComputeInterfering r a b) c = answer AnsTransmissions (computeInterferingTransmissions ops r a b c)"

text \<open>
  Agreement on what the first cache still knows, the radios in \<open>X\<close> apart (those that have been removed);
  and the calls that may be asked then. A write through the pointer to a reception entry does not put
  an interval there, which is what \<open>SetInterval\<close> is for.
\<close>

definition cache_agree :: "'c cache_ops \<Rightarrow> 'd cache_ops \<Rightarrow> nat set \<Rightarrow> 'c \<Rightarrow> 'd \<Rightarrow> bool" where
  "cache_agree ops ops' X c d \<longleftrightarrow>
     (\<forall>r. r \<notin> X \<longrightarrow> (\<forall>e. radio_view ops c r = Some e \<longrightarrow> radio_view ops' d r = Some e)
        \<and> reception_view ops c r \<subseteq>\<^sub>m reception_view ops' d r)
     \<and> transmission_view ops c \<subseteq>\<^sub>m transmission_view ops' d"

definition call_known :: "'c cache_ops \<Rightarrow> nat set \<Rightarrow> 'c \<Rightarrow> cache_call \<Rightarrow> bool" where
  "call_known ops X c k \<longleftrightarrow>
     (case k of
        ReadReception r t \<Rightarrow> r \<notin> X \<and> reception_view ops c r t \<noteq> None
      | WriteReception r t f \<Rightarrow> r \<notin> X \<and> reception_view ops c r t \<noteq> None
          \<and> (\<forall>e. rce_interval (f e) = rce_interval e \<or> rce_interval (f e) = None)
      | SetInterval r t iv \<Rightarrow> r \<notin> X \<and> reception_view ops c r t \<noteq> None \<and> radio_view ops c r \<noteq> None
      | GetInterferenceEnd t \<Rightarrow> transmission_view ops c t \<noteq> None
      | SetInterferenceEnd t x \<Rightarrow> transmission_view ops c t \<noteq> None
      | GetFrame t \<Rightarrow> transmission_view ops c t \<noteq> None
      | SetFrame t f \<Rightarrow> transmission_view ops c t \<noteq> None
      | ComputeInterfering r a b \<Rightarrow> r \<notin> X \<and> radio_view ops c r \<noteq> None)"

text \<open>Two caches behind the same interface: as long as the first knows the keys, the second answers alike.\<close>

locale cache_pair = impl: comm_cache ops + ref: comm_cache ops'
  for ops :: "'c cache_ops" and ops' :: "'d cache_ops"
begin

lemma agree_updates:
  assumes "cache_agree ops ops' X c d"
    and "radio_view ops c' = radio_view ops c" and "radio_view ops' d' = radio_view ops' d"
    and "transmission_view ops c' = transmission_view ops c" and "transmission_view ops' d' = transmission_view ops' d"
    and "reception_view ops c' = (\<lambda>r'. if r' = r then (reception_view ops c r)(t := Some e) else reception_view ops c r')"
    and "reception_view ops' d' = (\<lambda>r'. if r' = r then (reception_view ops' d r)(t := Some e) else reception_view ops' d r')"
  shows "cache_agree ops ops' X c' d'"
  using assms by (auto simp: cache_agree_def map_le_def)

lemma agree_entry: "cache_agree ops ops' X c d \<Longrightarrow> r \<notin> X \<Longrightarrow> reception_view ops c r t = Some e \<Longrightarrow> reception_view ops' d r t = Some e"
  by (force simp: cache_agree_def map_le_def)

lemma agree_radio: "cache_agree ops ops' X c d \<Longrightarrow> r \<notin> X \<Longrightarrow> radio_view ops c r = Some e \<Longrightarrow> radio_view ops' d r = Some e"
  by (force simp: cache_agree_def map_le_def)

lemma agree_transmission:
  "cache_agree ops ops' X c d \<Longrightarrow> transmission_view ops c t = Some e \<Longrightarrow> transmission_view ops' d t = Some e"
  by (force simp: cache_agree_def map_le_def)

lemma agree_same: "cache_agree ops ops' X c d \<Longrightarrow> same_views ops c c' \<Longrightarrow> same_views ops' d d' \<Longrightarrow> cache_agree ops ops' X c' d'"
  by (simp add: cache_agree_def same_views_def)

lemma agree_with_transmission:
  assumes "cache_agree ops ops' X c d" and "transmission_view ops c t \<noteq> None"
  obtains a c' d' where "with_transmission ops t f c = Inr (a, c')" and "with_transmission ops' t f d = Inr (a, d')"
    and "cache_agree ops ops' X c' d'"
proof -
  from assms(2) obtain e where e: "transmission_view ops c t = Some e" by blast
  obtain c' where c': "with_transmission ops t f c = Inr (fst (f e), c')"
    "transmission_view ops c' = (transmission_view ops c)(t := Some (snd (f e)))"
    "radio_view ops c' = radio_view ops c" "reception_view ops c' = reception_view ops c"
    using impl.with_transmission_defined [OF e] by blast
  obtain d' where d': "with_transmission ops' t f d = Inr (fst (f e), d')"
    "transmission_view ops' d' = (transmission_view ops' d)(t := Some (snd (f e)))"
    "radio_view ops' d' = radio_view ops' d" "reception_view ops' d' = reception_view ops' d"
    using ref.with_transmission_defined [OF agree_transmission [OF assms(1) e]] by blast
  from assms(1) c' d' e show ?thesis
    by (intro that [OF c'(1) d'(1)]) (auto simp: cache_agree_def map_le_def)
qed

lemma do_call_agree:
  assumes agree: "cache_agree ops ops' X c d" and known: "call_known ops X c k"
  shows "\<exists>a c' d'. do_call ops k c = Inr (a, c') \<and> do_call ops' k d = Inr (a, d') \<and> cache_agree ops ops' X c' d'"
proof (cases k)
  case (ReadReception r t)
  obtain x c1 y d1 where g: "read_entry ops Some r t c = (x, c1)" "read_entry ops' Some r t d = (y, d1)" by force
  note v = impl.read_entry_views [OF g(1)] ref.read_entry_views [OF g(2)]
  from known ReadReception obtain e where e: "r \<notin> X" "reception_view ops c r t = Some e" by (auto simp: call_known_def)
  with v(2,4) agree_entry [OF agree e] e(2) have "x = y" by simp
  with ReadReception g agree_same [OF agree v(1,3)] v(1) show ?thesis by (simp add: answer_def)
next
  case (WriteReception r t f)
  with known obtain e where e: "r \<notin> X" "reception_view ops c r t = Some e" by (auto simp: call_known_def)
  obtain c1 where c1: "write_entry ops f r t c = Inr c1" using impl.write_entry_defined [OF e(2)] by blast
  obtain d1 where d1: "write_entry ops' f r t d = Inr d1" using ref.write_entry_defined [OF agree_entry [OF agree e]] by blast
  from impl.write_entry_views [OF c1] e(2) have v1: "radio_view ops c1 = radio_view ops c"
    "transmission_view ops c1 = transmission_view ops c" "reception_view ops c1
      = (\<lambda>r'. if r' = r then (reception_view ops c r)(t := Some (f e)) else reception_view ops c r')"
    by (metis option.inject)+
  from ref.write_entry_views [OF d1] agree_entry [OF agree e] have v2: "radio_view ops' d1 = radio_view ops' d"
    "transmission_view ops' d1 = transmission_view ops' d" "reception_view ops' d1
      = (\<lambda>r'. if r' = r then (reception_view ops' d r)(t := Some (f e)) else reception_view ops' d r')"
    by (metis option.inject)+
  show ?thesis using agree_updates [OF agree v1(1) v2(1) v1(2) v2(2) v1(3) v2(3)] c1 d1 WriteReception by simp
next
  case (SetInterval r t iv)
  with known obtain e re where e: "r \<notin> X" "reception_view ops c r t = Some e" "radio_view ops c r = Some re" by (auto simp: call_known_def)
  obtain c1 where c1: "setCachedInterval ops r t iv c = Inr c1"
    "radio_view ops c1 = (radio_view ops c)(r := Some (interval_added re iv))" "transmission_view ops c1 = transmission_view ops c"
    "reception_view ops c1 = (\<lambda>r'. if r' = r then (reception_view ops c r)(t := Some (e\<lparr>rce_interval := Some iv\<rparr>))
       else reception_view ops c r')"
    using impl.setCachedInterval_views [OF e(2,3)] by blast
  obtain d1 where d1: "setCachedInterval ops' r t iv d = Inr d1"
    "radio_view ops' d1 = (radio_view ops' d)(r := Some (interval_added re iv))" "transmission_view ops' d1 = transmission_view ops' d"
    "reception_view ops' d1 = (\<lambda>r'. if r' = r then (reception_view ops' d r)(t := Some (e\<lparr>rce_interval := Some iv\<rparr>))
       else reception_view ops' d r')"
    using ref.setCachedInterval_views [OF agree_entry [OF agree e(1,2)] agree_radio [OF agree e(1,3)]] by blast
  have "cache_agree ops ops' X c1 d1" using agree by (auto simp: cache_agree_def map_le_def c1 d1)
  then show ?thesis using c1(1) d1(1) SetInterval by simp
next
  case (ComputeInterfering r a b)
  with known obtain re where re: "r \<notin> X" "radio_view ops c r = Some re" by (auto simp: call_known_def)
  let ?x = "case receptionIntervals re of None \<Rightarrow> [] | Some ivs \<Rightarrow> map iv_value (query a b ivs)"
  obtain c1 where c1: "computeInterferingTransmissions ops r a b c = Inr (?x, c1)" "same_views ops c c1"
    using impl.computeInterfering_views [OF re(2)] by blast
  obtain d1 where d1: "computeInterferingTransmissions ops' r a b d = Inr (?x, d1)" "same_views ops' d d1"
    using ref.computeInterfering_views [OF agree_radio [OF agree re]] by blast
  from agree_same [OF agree c1(2) d1(2)] c1 d1(1) ComputeInterfering show ?thesis
    by (simp add: answer_def)
next
  case (GetInterferenceEnd t)
  with known have "transmission_view ops c t \<noteq> None" by (simp add: call_known_def)
  then show ?thesis
    by (rule agree_with_transmission [OF agree, where f = "\<lambda>e. (interferenceEndTime e, e)"]) (use GetInterferenceEnd in \<open>auto simp: getCachedInterferenceEndTime_def answer_def\<close>)
next
  case (SetInterferenceEnd t x)
  with known have "transmission_view ops c t \<noteq> None" by (simp add: call_known_def)
  then show ?thesis
    by (rule agree_with_transmission [OF agree, where f = "\<lambda>e. ((), e\<lparr>interferenceEndTime := Some x\<rparr>)"]) (use SetInterferenceEnd in \<open>auto simp: setCachedInterferenceEndTime_def answer_def\<close>)
next
  case (GetFrame t)
  with known have "transmission_view ops c t \<noteq> None" by (simp add: call_known_def)
  then show ?thesis
    by (rule agree_with_transmission [OF agree, where f = "\<lambda>e. (tce_frame e, e)"]) (use GetFrame in \<open>auto simp: getCachedFrame_def answer_def\<close>)
next
  case (SetFrame t x)
  with known have "transmission_view ops c t \<noteq> None" by (simp add: call_known_def)
  then show ?thesis
    by (rule agree_with_transmission [OF agree, where f = "\<lambda>e. ((), e\<lparr>tce_frame := Some x\<rparr>)"]) (use SetFrame in \<open>auto simp: setCachedFrame_def answer_def\<close>)
qed

end

interpretation vector_as_map: cache_pair vector_ops map_ops ..

subsection \<open>What a cache keeps through every call of the base class\<close>

text \<open>A predicate that no access to the entries breaks.\<close>

locale cache_kept =
  fixes ops :: "'c cache_ops" and P :: "'c \<Rightarrow> bool"
  assumes kept_get: "P c \<Longrightarrow> P (snd (getRadioCacheEntry ops r c))"
      "P c \<Longrightarrow> P (snd (getTransmissionCacheEntry ops t c))" "P c \<Longrightarrow> P (snd (getReceptionCacheEntry ops r t c))"
    and kept_poke: "P c \<Longrightarrow> P (pokeRadio ops r re c)" "P c \<Longrightarrow> P (pokeTransmission ops t te c)"
      "P c \<Longrightarrow> P (pokeReception ops r t e c)"
begin

lemma kept_got:
  "P c \<Longrightarrow> getRadioCacheEntry ops r c = (x, c1) \<Longrightarrow> P c1"
  "P c \<Longrightarrow> getTransmissionCacheEntry ops t c = (y, c1) \<Longrightarrow> P c1"
  "P c \<Longrightarrow> getReceptionCacheEntry ops r t c = (z, c1) \<Longrightarrow> P c1"
  using kept_get [of c] by (metis snd_conv)+

lemma with_transmission_kept: "P c \<Longrightarrow> with_transmission ops t f c = Inr (a, c') \<Longrightarrow> P c'"
  by (auto simp: with_transmission_def split: prod.splits option.splits intro: kept_poke kept_got)

lemma write_entry_kept: "P c \<Longrightarrow> write_entry ops f r t c = Inr c' \<Longrightarrow> P c'"
  by (auto simp: write_entry_def split: prod.splits option.splits intro: kept_poke kept_got)

lemma do_call_kept: "P c \<Longrightarrow> do_call ops k c = Inr (a, c') \<Longrightarrow> P c'"
proof (cases k)
  case (SetInterval r t iv)
  assume "P c" and "do_call ops k c = Inr (a, c')"
  with SetInterval obtain c1 where "P c1" and
    "(case getRadioCacheEntry ops r c1 of
        (None, c) \<Rightarrow> Inl (UndefinedBehaviour ''null pointer: radio cache entry'')
      | (Some e, c) \<Rightarrow>
          let ivs = (case receptionIntervals e of None \<Rightarrow> [] | Some ivs \<Rightarrow> ivs)
          in Inr (pokeRadio ops r (e\<lparr>receptionIntervals := Some (ivs @ [iv])\<rparr>) c)) = Inr c'"
    by (auto simp: setCachedInterval_def elim!: andThen_InrE dest: write_entry_kept)
  then show ?thesis by (auto simp: Let_def split: prod.splits option.splits intro: kept_poke kept_got)
qed (auto simp: answer_def read_entry_def computeInterferingTransmissions_def getCachedInterferenceEndTime_def
    setCachedInterferenceEndTime_def getCachedFrame_def setCachedFrame_def elim!: andThen_InrE
    split: prod.splits option.splits intro: kept_got with_transmission_kept write_entry_kept)

end

text \<open>The map of a transmission's receptions has each radio once.\<close>

definition map_keys :: "map_cache \<Rightarrow> bool" where
  "map_keys d \<longleftrightarrow> (\<forall>t. distinct (map fst (map_entries_of (map_entry d t))))"

lemma map_keys_touch: "map_keys d \<Longrightarrow> map_touch t d = (te, d1) \<Longrightarrow> map_keys d1 \<and> distinct (map fst (the (receptionCacheMap te)))"
  using map_touch_entry [of t d te d1] by (auto simp: map_keys_def map_entries_of_def)

interpretation map_keyed: cache_kept map_ops map_keys
proof
  fix d r t re te e
  assume d: "map_keys d"
  show "map_keys (snd (getRadioCacheEntry map_ops r d))" "map_keys (pokeRadio map_ops r re d)"
    using d by (simp_all add: map_getRadio_def map_pokeRadio_def map_keys_def map_entry_def Let_def)
  show "map_keys (snd (getTransmissionCacheEntry map_ops t d))"
    using map_keys_touch [OF d] by (auto simp: map_getTransmission_def split: prod.split)
  obtain x d1 where g: "map_getReception r t d = (Some x, d1)" by (force simp: map_getReception_def Let_def split_beta)
  show "map_keys (snd (getReceptionCacheEntry map_ops r t d))"
    using d map_get_reception(2) [OF g] by (auto simp: g map_keys_def intro: distinct_update)
  show "map_keys (pokeTransmission map_ops t te d)"
    using d by (simp add: map_pokeTransmission_def map_keys_def map_entry_def map_entries_of_def Let_def)
  have "distinct (map fst (map_entries_of (te\<lparr>receptionCacheMap := map_option (AList.update r e) (receptionCacheMap te)\<rparr>)))"
    if "distinct (map fst (map_entries_of te))" for te
    using that by (cases "receptionCacheMap te") (simp_all add: map_entries_of_def distinct_update)
  with d show "map_keys (pokeReception map_ops r t e d)"
    by (simp add: map_pokeReception_def map_keys_def map_entry_def Let_def)
qed

text \<open>An interval that a reception holds has been put into the intervals of its radio.\<close>

definition intervals_kept :: "'c cache_ops \<Rightarrow> 'c \<Rightarrow> bool" where
  "intervals_kept ops c \<longleftrightarrow>
     (\<forall>r t e. reception_view ops c r t = Some e \<longrightarrow> rce_interval e \<noteq> None \<longrightarrow>
        (\<exists>re. radio_view ops c r = Some re \<and> receptionIntervals re \<noteq> None))"

lemma intervals_kept_same: "intervals_kept ops c \<Longrightarrow> same_views ops c c' \<Longrightarrow> intervals_kept ops c'"
  by (simp add: intervals_kept_def same_views_def)

context comm_cache
begin

lemma intervals_kept_transmission:
  "intervals_kept ops c \<Longrightarrow> with_transmission ops t f c = Inr (a, c') \<Longrightarrow> intervals_kept ops c'"
  by (erule with_transmission_views) (simp add: intervals_kept_def)

lemma do_call_intervals:
  assumes kept: "intervals_kept ops c" and known: "call_known ops X c k" and run: "do_call ops k c = Inr (a, c')"
  shows "intervals_kept ops c'"
proof (cases k)
  case (ReadReception r t)
  then obtain x where "read_entry ops Some r t c = (x, c')"
    using run by (auto simp: answer_def split: prod.splits)
  then show ?thesis using intervals_kept_same [OF kept] read_entry_views(1) by blast
next
  case (WriteReception r t f)
  with run have w: "write_entry ops f r t c = Inr c'" by (auto elim: andThen_InrE)
  from known WriteReception have f: "rce_interval (f e) = rce_interval e \<or> rce_interval (f e) = None" for e
    by (simp add: call_known_def)
  from w obtain e where v: "reception_view ops c r t = Some e"
    "reception_view ops c' = (\<lambda>r'. if r' = r then (reception_view ops c r)(t := Some (f e)) else reception_view ops c r')"
    "radio_view ops c' = radio_view ops c" by (rule write_entry_views)
  show ?thesis
    unfolding intervals_kept_def v(3)
  proof (intro allI impI)
    fix r' t' e'
    assume e': "reception_view ops c' r' t' = Some e'" "rce_interval e' \<noteq> None"
    have "\<exists>e0. reception_view ops c r' t' = Some e0 \<and> rce_interval e0 \<noteq> None"
    proof (cases "r' = r \<and> t' = t")
      case True
      with e' v(1,2) f [of e] show ?thesis by auto
    next
      case False
      with e' v(2) show ?thesis by (auto split: if_splits)
    qed
    with kept show "\<exists>re. radio_view ops c r' = Some re \<and> receptionIntervals re \<noteq> None"
      unfolding intervals_kept_def by blast
  qed
next
  case (SetInterval r t iv)
  with known obtain e re where e: "reception_view ops c r t = Some e" "radio_view ops c r = Some re" by (auto simp: call_known_def)
  obtain c1 where "setCachedInterval ops r t iv c = Inr c1"
    "radio_view ops c1 = (radio_view ops c)(r := Some (interval_added re iv))"
    "reception_view ops c1 = (\<lambda>r'. if r' = r then (reception_view ops c r)(t := Some (e\<lparr>rce_interval := Some iv\<rparr>))
       else reception_view ops c r')"
    using setCachedInterval_views [OF e] by blast
  moreover from this(1) run SetInterval have "c1 = c'" by simp
  ultimately show ?thesis using kept by (auto simp: intervals_kept_def interval_added_def split: if_splits)
next
  case (ComputeInterfering r x y)
  with known obtain re where re: "radio_view ops c r = Some re" by (auto simp: call_known_def)
  obtain c1 where "computeInterferingTransmissions ops r x y c
      = Inr (case receptionIntervals re of None \<Rightarrow> [] | Some ivs \<Rightarrow> map iv_value (query x y ivs), c1)" "same_views ops c c1"
    using computeInterfering_views [OF re] by blast
  with run ComputeInterfering show ?thesis using intervals_kept_same [OF kept] by (simp add: answer_def)
next
  case (GetInterferenceEnd t)
  with run show ?thesis
    by (auto simp: answer_def getCachedInterferenceEndTime_def elim!: andThen_InrE dest: intervals_kept_transmission [OF kept])
next
  case (SetInterferenceEnd t x)
  with run show ?thesis
    by (auto simp: answer_def setCachedInterferenceEndTime_def elim!: andThen_InrE dest: intervals_kept_transmission [OF kept])
next
  case (GetFrame t)
  with run show ?thesis by (auto simp: answer_def getCachedFrame_def elim!: andThen_InrE dest: intervals_kept_transmission [OF kept])
next
  case (SetFrame t x)
  with run show ?thesis by (auto simp: answer_def setCachedFrame_def elim!: andThen_InrE dest: intervals_kept_transmission [OF kept])
qed

end

subsection \<open>The purge\<close>

text \<open>What forgetting one transmission does to the entry of a radio: its interval leaves the radio's intervals.\<close>

definition drop_interval :: "reception_cache_entry \<Rightarrow> radio_cache_entry \<Rightarrow> radio_cache_entry" where
  "drop_interval e re = (case rce_interval e of None \<Rightarrow> re
     | Some iv \<Rightarrow> re\<lparr>receptionIntervals := map_option (remove1 iv) (receptionIntervals re)\<rparr>)"

lemma drop_interval_simps [simp]:
  "drop_interval new_reception_cache_entry re = re"
  "drop_interval e new_radio_cache_entry = new_radio_cache_entry"
  "receptionIntervals (drop_interval e re) = None \<longleftrightarrow> receptionIntervals re = None"
  by (simp_all add: drop_interval_def new_reception_cache_entry_def new_radio_cache_entry_def split: option.split)

lemma nth_default_drop: "nth_default x (drop n xs) i = nth_default x xs (n + i)"
  by (auto simp: nth_default_def)

lemma delete_intervals_nth:
  "delete_intervals res es = Inr res' \<Longrightarrow> nth_default new_radio_cache_entry res' k
     = drop_interval (nth_default new_reception_cache_entry es k) (nth_default new_radio_cache_entry res k)"
proof (induction res es arbitrary: res' k rule: delete_intervals.induct)
  case (1 re res e es)
  from "1.prems" obtain re' rs' where re': "(case rce_interval e of None \<Rightarrow> Inr re
      | Some iv \<Rightarrow> (case receptionIntervals re of None \<Rightarrow> Inl (UndefinedBehaviour ''null pointer: receptionIntervals'')
          | Some ivs \<Rightarrow> Inr (re\<lparr>receptionIntervals := Some (remove1 iv ivs)\<rparr>))) = Inr re'"
    "delete_intervals res es = Inr rs'" "res' = re' # rs'"
    unfolding delete_intervals.simps by (elim andThen_InrE) simp
  from re'(1) have "re' = drop_interval e re" by (auto simp: drop_interval_def split: option.splits)
  with "1.IH" [OF re'(1,2)] re'(3) show ?case by (cases k) simp_all
qed simp_all

lemma delete_transmissions_nth:
  "foldR delete_transmission_intervals tes res = Inr res' \<Longrightarrow> nth_default new_radio_cache_entry res' k
     = fold (\<lambda>te. drop_interval (nth_default new_reception_cache_entry (entries_of te) k)) tes (nth_default new_radio_cache_entry res k)"
proof (induction tes arbitrary: res)
  case Nil
  then show ?case by simp
next
  case (Cons te tes)
  from Cons.prems obtain res1 where r: "delete_transmission_intervals te res = Inr res1"
    "foldR delete_transmission_intervals tes res1 = Inr res'" by (auto elim: andThen_InrE)
  have "nth_default new_radio_cache_entry res1 k
      = drop_interval (nth_default new_reception_cache_entry (entries_of te) k) (nth_default new_radio_cache_entry res k)"
    using r(1) delete_intervals_nth
    by (cases "receptionCacheEntries te") (auto simp: delete_transmission_intervals_def entries_of_def)
  with Cons.IH [OF r(2)] show ?case by simp
qed

lemma expired_prefix_length: "expired_prefix now tes = Inr n \<Longrightarrow> n \<le> length tes"
proof (induction tes arbitrary: n)
  case (Cons te tes)
  then show ?case by (auto split: option.splits if_splits elim!: andThen_InrE)
qed simp

lemma vec_forget_views:
  assumes n: "expired_prefix now (transmissionCache c) = Inr n"
    and ts: "map int ts = map (\<lambda>i. baseTransmissionId c + int i) [0..<n]"
    and run: "vec_removeNonInterfering now c = Inr c'"
  shows "radio_view vector_ops c' r = (if int r < baseRadioId c then None
      else Some (fold (\<lambda>t. drop_interval (the (reception_view vector_ops c r t))) ts (the (radio_view vector_ops c r))))"
    and "transmission_view vector_ops c' t
      = (if int t < baseTransmissionId c + int n then None else transmission_view vector_ops c t)"
    and "reception_view vector_ops c' r t
      = (if int t < baseTransmissionId c + int n then None else reception_view vector_ops c r t)"
proof -
  from run n obtain res where res: "foldR delete_transmission_intervals (take n (transmissionCache c)) (radioCache c) = Inr res"
    and c': "c' = c\<lparr>radioCache := res, baseTransmissionId := baseTransmissionId c + int n, transmissionCache := drop n (transmissionCache c)\<rparr>"
    by (auto simp: vec_removeNonInterfering_def elim!: andThen_InrE)
  have "map nat (map int ts) = map nat (map (\<lambda>i. baseTransmissionId c + int i) [0..<n])" by (simp only: ts)
  then have ts': "ts = map (\<lambda>i. nat (baseTransmissionId c + int i)) [0..<n]" by (simp add: comp_def)
  have above: "0 \<le> baseTransmissionId c + int i" if "i < n" for i
  proof -
    have "length ts = n" using ts by (metis length_map length_upt minus_nat.diff_0)
    then have "int (ts ! i) = baseTransmissionId c + int i" using that arg_cong [OF ts, of "\<lambda>xs. xs ! i"] by simp
    then show ?thesis by linarith
  qed
  have take: "take n (transmissionCache c) = map (vec_entry c) [0..<n]"
    using expired_prefix_length [OF n] by (intro nth_equalityI) (auto simp: vec_entry_def nth_default_def)
  let ?k = "nat (int r - baseRadioId c)"
  have "nth_default new_radio_cache_entry res ?k
      = fold (\<lambda>t. drop_interval (the (reception_view vector_ops c r t))) ts (the (radio_view vector_ops c r))"
    if "\<not> int r < baseRadioId c"
    unfolding delete_transmissions_nth [OF res] take ts' fold_map
    using that by (intro fold_cong) (auto simp: vec_radio_view vec_reception_view above)
  then show "radio_view vector_ops c' r = (if int r < baseRadioId c then None
      else Some (fold (\<lambda>t. drop_interval (the (reception_view vector_ops c r t))) ts (the (radio_view vector_ops c r))))"
    unfolding vec_radio_view [of c'] by (simp add: c')
  have entry: "vec_entry c' (nat (int t - (baseTransmissionId c + int n))) = vec_entry c (nat (int t - baseTransmissionId c))"
    if "\<not> int t < baseTransmissionId c + int n"
  proof -
    have "n + nat (int t - (baseTransmissionId c + int n)) = nat (int t - baseTransmissionId c)" using that by linarith
    then show ?thesis by (simp add: c' vec_entry_def nth_default_drop)
  qed
  have b: "baseTransmissionId c' = baseTransmissionId c + int n" "baseRadioId c' = baseRadioId c" by (simp_all add: c')
  show "transmission_view vector_ops c' t = (if int t < baseTransmissionId c + int n then None else transmission_view vector_ops c t)"
    "reception_view vector_ops c' r t = (if int t < baseTransmissionId c + int n then None else reception_view vector_ops c r t)"
    using entry by (auto simp: vec_transmission_view vec_reception_view b)
qed

text \<open>The same for the map, where the removal of each transmission does the work.\<close>

definition map_radio :: "map_cache \<Rightarrow> nat \<Rightarrow> radio_cache_entry" where
  "map_radio d r = lookup_default new_radio_cache_entry (mc_radioCache d) r"

definition map_reception :: "map_cache \<Rightarrow> nat \<Rightarrow> nat \<Rightarrow> reception_cache_entry" where
  "map_reception d r t = lookup_default new_reception_cache_entry (map_entries_of (map_entry d t)) r"

definition map_inv :: "map_cache \<Rightarrow> bool" where
  "map_inv d \<longleftrightarrow> map_keys d \<and> intervals_kept map_ops d"

lemma map_intervals_kept:
  "intervals_kept map_ops d \<longleftrightarrow> (\<forall>r t. rce_interval (map_reception d r t) \<noteq> None \<longrightarrow> receptionIntervals (map_radio d r) \<noteq> None)"
  by (simp add: intervals_kept_def map_views map_reception_def map_radio_def)

lemma lookup_default_Nil: "lookup_default x [] j = x"
  by (simp add: lookup_default_def)

lemma lookup_default_Cons: "lookup_default x ((k, v) # al) j = (if j = k then v else lookup_default x al j)"
  by (simp add: lookup_default_def)

lemma map_delete_intervals:
  assumes "distinct (map fst es)"
    and "\<And>r. rce_interval (lookup_default new_reception_cache_entry es r) \<noteq> None \<Longrightarrow>
      receptionIntervals (lookup_default new_radio_cache_entry rs r) \<noteq> None"
  shows "\<exists>rs'. foldR map_delete_interval es rs = Inr rs' \<and> (\<forall>r. lookup_default new_radio_cache_entry rs' r
    = drop_interval (lookup_default new_reception_cache_entry es r) (lookup_default new_radio_cache_entry rs r))"
  using assms
proof (induction es arbitrary: rs)
  case Nil
  show ?case by (simp add: lookup_default_Nil)
next
  case (Cons x es)
  obtain r0 e0 where x: "x = (r0, e0)" by force
  let ?rs = "AList.update r0 (drop_interval e0 (lookup_default new_radio_cache_entry rs r0)) rs"
  have new: "lookup_default new_reception_cache_entry es r0 = new_reception_cache_entry"
    using Cons.prems(1) x map_of_eq_None_iff [of es r0] by (simp add: lookup_default_def)
  have "map_delete_interval x rs = Inr ?rs"
    using Cons.prems(2) [of r0]
    by (cases "rce_interval e0") (auto simp: x map_delete_interval_def drop_interval_def lookup_default_Cons Let_def split: option.split)
  moreover have "\<exists>rs'. foldR map_delete_interval es ?rs = Inr rs' \<and> (\<forall>r. lookup_default new_radio_cache_entry rs' r
      = drop_interval (lookup_default new_reception_cache_entry es r) (lookup_default new_radio_cache_entry ?rs r))"
  proof (rule Cons.IH)
    fix r
    assume r: "rce_interval (lookup_default new_reception_cache_entry es r) \<noteq> None"
    with new have "r \<noteq> r0" by (auto simp: new_reception_cache_entry_def)
    with r Cons.prems(2) [of r] x show "receptionIntervals (lookup_default new_radio_cache_entry ?rs r) \<noteq> None"
      by (simp add: lookup_default_Cons)
  qed (use Cons.prems(1) in simp)
  ultimately show ?case using new by (auto simp: x lookup_default_Cons)
qed

lemma map_removeTransmission_run:
  assumes inv: "map_inv d"
  shows "\<exists>d'. map_removeTransmission t d = Inr d' \<and> map_inv d' \<and> (\<forall>r. map_radio d' r = drop_interval (map_reception d r t) (map_radio d r))
    \<and> (\<forall>t'. map_entry d' t' = (if t' = t then new_map_transmission_entry else map_entry d t'))"
proof -
  have keys: "distinct (map fst (map_entries_of (map_entry d t)))" using inv by (simp add: map_inv_def map_keys_def)
  from inv have ivs: "rce_interval (map_reception d r s) \<noteq> None \<Longrightarrow> receptionIntervals (map_radio d r) \<noteq> None" for r s
    unfolding map_inv_def map_intervals_kept by blast
  obtain rs where rs: "foldR map_delete_interval (map_entries_of (map_entry d t)) (mc_radioCache d) = Inr rs"
    "\<And>r. lookup_default new_radio_cache_entry rs r = drop_interval (map_reception d r t) (map_radio d r)"
    using map_delete_intervals [OF keys, of "mc_radioCache d"] ivs unfolding map_reception_def map_radio_def by blast
  define d' where "d' = d\<lparr>mc_radioCache := rs, mc_transmissionCache := AList.delete t (mc_transmissionCache d)\<rparr>"
  have radio: "map_radio d' r = drop_interval (map_reception d r t) (map_radio d r)" for r
    using rs(2) by (simp add: d'_def map_radio_def)
  have entry: "map_entry d' t' = (if t' = t then new_map_transmission_entry else map_entry d t')" for t'
    by (simp add: d'_def map_entry_def lookup_default_def delete_conv')
  have none: "map_entries_of new_map_transmission_entry = []"
    by (simp add: map_entries_of_def new_map_transmission_entry_def transmission_cache_entry.defs map_transmission_entry.defs)
  have "map_keys d'" using inv by (simp add: map_inv_def map_keys_def entry none)
  moreover have "intervals_kept map_ops d'"
    unfolding map_intervals_kept radio using ivs
    by (auto simp: map_reception_def entry none lookup_default_def new_reception_cache_entry_def)
  ultimately have inv': "map_inv d'" by (simp add: map_inv_def)
  show ?thesis
  proof (cases "map_of (mc_transmissionCache d) t")
    case None
    then have e: "map_entry d t = new_map_transmission_entry" by (simp add: map_entry_def lookup_default_def)
    then have "map_reception d r t = new_reception_cache_entry" for r by (simp add: map_reception_def none lookup_default_def)
    with None e inv show ?thesis by (intro exI [of _ d]) (auto simp: map_removeTransmission_def)
  next
    case (Some te)
    then have te: "map_entry d t = te" by (simp add: map_entry_def lookup_default_def)
    have "map_removeTransmission t d = Inr d'"
      using rs(1) Some te by (cases "receptionCacheMap te") (auto simp: map_removeTransmission_def map_entries_of_def d'_def)
    with inv' radio entry show ?thesis by blast
  qed
qed

lemma map_forget_run:
  assumes "map_inv d" and "distinct ts"
  shows "\<exists>d'. foldR map_removeTransmission ts d = Inr d' \<and> map_inv d'
    \<and> (\<forall>r. map_radio d' r = fold (\<lambda>t. drop_interval (map_reception d r t)) ts (map_radio d r))
    \<and> (\<forall>t. t \<notin> set ts \<longrightarrow> map_entry d' t = map_entry d t)"
  using assms
proof (induction ts arbitrary: d)
  case Nil
  then show ?case by simp
next
  case (Cons t ts)
  obtain d1 where d1: "map_removeTransmission t d = Inr d1" "map_inv d1"
    "\<And>r. map_radio d1 r = drop_interval (map_reception d r t) (map_radio d r)"
    "\<And>t'. map_entry d1 t' = (if t' = t then new_map_transmission_entry else map_entry d t')"
    using map_removeTransmission_run [OF Cons.prems(1)] by blast
  obtain d2 where d2: "foldR map_removeTransmission ts d1 = Inr d2" "map_inv d2"
    "\<And>r. map_radio d2 r = fold (\<lambda>t. drop_interval (map_reception d1 r t)) ts (map_radio d1 r)"
    "\<And>t. t \<notin> set ts \<Longrightarrow> map_entry d2 t = map_entry d1 t"
    using Cons.IH [OF d1(2)] Cons.prems(2) by auto
  have "fold (\<lambda>t. drop_interval (map_reception d1 r t)) ts x = fold (\<lambda>t. drop_interval (map_reception d r t)) ts x" for r x
    using Cons.prems(2) by (intro fold_cong) (auto simp: map_reception_def d1(4))
  with d1 d2 show ?case by (intro exI [of _ d2]) auto
qed

subsection \<open>Radios that come and go\<close>

lemma erase_receptions_nth:
  "erase_receptions n tes = Inr tes' \<Longrightarrow>
     transmission_cache_entry.truncate (nth_default new_vector_transmission_entry tes' i)
       = transmission_cache_entry.truncate (nth_default new_vector_transmission_entry tes i)
     \<and> nth_default new_reception_cache_entry (entries_of (nth_default new_vector_transmission_entry tes' i)) k
       = nth_default new_reception_cache_entry (entries_of (nth_default new_vector_transmission_entry tes i)) (n + k)"
proof (induction tes arbitrary: tes' i)
  case Nil
  then show ?case by simp
next
  case (Cons te tes)
  from Cons.prems obtain te1 tes1 where r: "(case receptionCacheEntries te of None \<Rightarrow> Inr te
      | Some es \<Rightarrow> andThen (erase_prefix n es) (\<lambda>es. Inr (te\<lparr>receptionCacheEntries := Some es\<rparr>))) = Inr te1"
    "erase_receptions n tes = Inr tes1" "tes' = te1 # tes1"
    unfolding erase_receptions.simps by (elim andThen_InrE) simp
  have "transmission_cache_entry.truncate te1 = transmission_cache_entry.truncate te
      \<and> nth_default new_reception_cache_entry (entries_of te1) k = nth_default new_reception_cache_entry (entries_of te) (n + k)"
    using r(1) by (cases "receptionCacheEntries te")
      (auto simp: erase_prefix_def entries_of_def nth_default_drop transmission_cache_entry.defs elim!: andThen_InrE split: if_splits)
  with Cons.IH [OF r(2)] r(3) show ?case by (cases i) simp_all
qed

text \<open>What a cache knows after a call is what it knew before, or nothing.\<close>

definition knows_less :: "'c cache_ops \<Rightarrow> nat set \<Rightarrow> 'c \<Rightarrow> 'c \<Rightarrow> bool" where
  "knows_less ops X c c' \<longleftrightarrow>
     (\<forall>r. r \<notin> X \<longrightarrow> (radio_view ops c' r = None \<or> radio_view ops c' r = radio_view ops c r)
        \<and> (\<forall>t. reception_view ops c' r t = None \<or> reception_view ops c' r t = reception_view ops c r t))
     \<and> (\<forall>t. transmission_view ops c' t = None \<or> transmission_view ops c' t = transmission_view ops c t)"

lemma knows_less_same: "knows_less ops X c c' \<Longrightarrow> same_views ops c' c'' \<Longrightarrow> knows_less ops X c c''"
  by (simp add: knows_less_def same_views_def)

lemma agree_knows_less: "cache_agree ops ops' X c d \<Longrightarrow> knows_less ops X c c' \<Longrightarrow> cache_agree ops ops' X c' d"
  unfolding cache_agree_def knows_less_def map_le_def by (metis domIff option.distinct(1))

lemma vec_removeRadio_knows:
  assumes run: "vec_removeRadio r c = Inr c'"
  shows "knows_less vector_ops {r} c c'"
proof -
  from run obtain e c0 where g: "vec_getRadio r c = (Some e, c0)"
    by (auto simp: vec_removeRadio_def split: prod.splits option.splits)
  define c1 where "c1 = vec_pokeRadio r (e\<lparr>stale := True\<rparr>) c0"
  have v: "radio_view vector_ops c1 = (radio_view vector_ops c)(r := Some (e\<lparr>stale := True\<rparr>))"
    "transmission_view vector_ops c1 = transmission_view vector_ops c" "reception_view vector_ops c1 = reception_view vector_ops c"
    using vector.poke_radio [of r c e c0 c1 "e\<lparr>stale := True\<rparr>"] g by (simp_all add: c1_def)
  have less: "knows_less vector_ops {r} c c1" by (simp add: knows_less_def v)
  let ?n = "length (takeWhile stale (radioCache c1))"
  show ?thesis
  proof (cases "?n = 0")
    case True
    with run g have "c' = c1" by (simp add: vec_removeRadio_def Let_def c1_def)
    with less show ?thesis by simp
  next
    case False
    with run g obtain ts where ts: "erase_receptions ?n (transmissionCache c1) = Inr ts"
      and c': "c' = c1\<lparr>baseRadioId := baseRadioId c1 + int ?n, radioCache := drop ?n (radioCache c1), transmissionCache := ts\<rparr>"
      by (auto simp: vec_removeRadio_def Let_def c1_def elim!: andThen_InrE)
    have k: "?n + nat (int r' - (baseRadioId c1 + int ?n)) = nat (int r' - baseRadioId c1)"
      if "\<not> int r' < baseRadioId c1 + int ?n" for r' using that by linarith
    have b: "baseTransmissionId c' = baseTransmissionId c1" "baseRadioId c' = baseRadioId c1 + int ?n" by (simp_all add: c')
    have entry: "transmission_cache_entry.truncate (vec_entry c' i) = transmission_cache_entry.truncate (vec_entry c1 i)"
      "nth_default new_reception_cache_entry (entries_of (vec_entry c' i)) j
        = nth_default new_reception_cache_entry (entries_of (vec_entry c1 i)) (?n + j)" for i j
      using erase_receptions_nth [OF ts, of i j] by (simp_all add: c' vec_entry_def)
    have "radio_view vector_ops c' r' = None \<or> radio_view vector_ops c' r' = radio_view vector_ops c1 r'" for r'
      using k [of r'] by (auto simp: vec_radio_view c' nth_default_drop)
    moreover have "reception_view vector_ops c' r' t = None \<or> reception_view vector_ops c' r' t = reception_view vector_ops c1 r' t" for r' t
      using k [of r'] by (auto simp: vec_reception_view b entry)
    moreover have "transmission_view vector_ops c' t = transmission_view vector_ops c1 t" for t
      by (simp add: vec_transmission_view b entry)
    ultimately have "knows_less vector_ops {r} c1 c'" by (simp add: knows_less_def)
    with less show ?thesis unfolding knows_less_def by metis
  qed
qed

lemma vec_addRadio_knows:
  assumes "radioCache c = [] \<Longrightarrow> baseRadioId c \<le> int r \<and> list_all (\<lambda>te. entries_of te = []) (transmissionCache c)"
    and run: "vec_addRadio r c = Inr c'"
  shows "knows_less vector_ops X c c'"
proof -
  define c0 where "c0 = (if radioCache c = [] then c\<lparr>baseRadioId := int r\<rparr> else c)"
  have c': "same_views vector_ops c0 c'"
    using run vector.get_radio [of c0 r] by (auto simp: vec_addRadio_def Let_def c0_def)
  have "knows_less vector_ops X c c0"
  proof (cases "radioCache c = []")
    case True
    then have "entries_of (vec_entry c i) = []" for i
      using assms(1) by (auto simp: vec_entry_def nth_default_def list_all_iff)
    moreover have "vec_entry c0 i = vec_entry c i" for i by (simp add: c0_def vec_entry_def)
    ultimately show ?thesis
      using True assms(1) by (auto simp: knows_less_def vec_radio_view vec_transmission_view vec_reception_view c0_def)
  qed (simp add: c0_def knows_less_def)
  then show ?thesis by (rule knows_less_same [OF _ c'])
qed

lemma vec_addTransmission_knows:
  assumes "transmissionCache c = [] \<Longrightarrow> baseTransmissionId c \<le> int t" and run: "vec_addTransmission t c = Inr c'"
  shows "knows_less vector_ops X c c'"
proof -
  define c0 where "c0 = (if transmissionCache c = [] then c\<lparr>baseTransmissionId := int t\<rparr> else c)"
  have c': "same_views vector_ops c0 c'"
    using run vector.get_transmission [of c0 t] by (auto simp: vec_addTransmission_def Let_def c0_def)
  have "knows_less vector_ops X c c0"
  proof (cases "transmissionCache c = []")
    case True
    then have "vec_entry c i = new_vector_transmission_entry" "vec_entry c0 i = new_vector_transmission_entry" for i
      by (simp_all add: vec_entry_def c0_def)
    then show ?thesis
      using True assms(1) by (auto simp: knows_less_def vec_radio_view vec_transmission_view vec_reception_view c0_def)
  qed (simp add: c0_def knows_less_def)
  then show ?thesis by (rule knows_less_same [OF _ c'])
qed

lemma map_removeRadio_run:
  assumes inv: "map_inv d"
  shows "\<exists>d'. map_removeRadio r d = Inr d' \<and> map_inv d' \<and> transmission_view map_ops d' = transmission_view map_ops d
    \<and> (\<forall>r'. r' \<noteq> r \<longrightarrow> radio_view map_ops d' r' = radio_view map_ops d r' \<and> reception_view map_ops d' r' = reception_view map_ops d r')"
proof -
  let ?f = "\<lambda>te. te\<lparr>receptionCacheMap := map_option (AList.delete r) (receptionCacheMap te)\<rparr>"
  obtain d' where d': "map_removeRadio r d = Inr d'" by (simp add: map_removeRadio_def)
  have "?f new_map_transmission_entry = new_map_transmission_entry"
    by (simp add: new_map_transmission_entry_def transmission_cache_entry.defs map_transmission_entry.defs)
  then have entry: "map_entry d' t = ?f (map_entry d t)" for t
    using d' by (auto simp: map_removeRadio_def map_entry_def lookup_default_def map_of_map split: option.split)
  then have es: "map_entries_of (map_entry d' t) = AList.delete r (map_entries_of (map_entry d t))" for t
    by (simp add: map_entries_of_def split: option.split)
  have look: "lookup_default x (AList.delete r al) j = (if j = r then x else lookup_default x al j)" for x :: 'x and al j
    by (simp add: lookup_default_def delete_conv')
  have radio: "map_radio d' j = (if j = r then new_radio_cache_entry else map_radio d j)" for j
    using d' by (auto simp: map_removeRadio_def map_radio_def look)
  have rec: "map_reception d' j t = (if j = r then new_reception_cache_entry else map_reception d j t)" for j t
    by (simp add: map_reception_def es look)
  have "map_inv d'"
    using inv unfolding map_inv_def map_intervals_kept radio rec map_keys_def es
    by (auto simp: distinct_delete new_reception_cache_entry_def)
  moreover have "transmission_cache_entry.truncate (map_entry d' t) = transmission_cache_entry.truncate (map_entry d t)" for t
    by (simp add: entry transmission_cache_entry.defs)
  ultimately show ?thesis
    using d' radio rec by (simp add: fun_eq_iff map_views map_radio_def map_reception_def)
qed

subsection \<open>One cache in place of the other\<close>

text \<open>
  Everything that the medium does with its cache. It forgets transmissions in one go: each is removed,
  then the cache is told to purge (\<open>LoRaMedium::removeNonInterferingTransmissions\<close>).
\<close>

datatype cache_op =
    BaseCall cache_call
  | AddRadio nat
  | RemoveRadio nat
  | AddTransmission nat
  | Forget "nat list" simtime

definition noted :: "'c result \<Rightarrow> (cache_answer \<times> 'c) result" where
  "noted m = andThen m (\<lambda>c. Inr (Done, c))"

fun do_op :: "'c cache_ops \<Rightarrow> cache_op \<Rightarrow> 'c \<Rightarrow> (cache_answer \<times> 'c) result" where
  "do_op ops (BaseCall k) c = do_call ops k c"
| "do_op ops (AddRadio r) c = noted (cc_addRadio ops r c)"
| "do_op ops (RemoveRadio r) c = noted (cc_removeRadio ops r c)"
| "do_op ops (AddTransmission t) c = noted (cc_addTransmission ops t c)"
| "do_op ops (Forget ts now) c = noted (andThen (foldR (cc_removeTransmission ops) ts c) (cc_removeNonInterfering ops now))"

fun do_ops :: "'c cache_ops \<Rightarrow> cache_op list \<Rightarrow> 'c \<Rightarrow> (cache_answer list \<times> 'c) result" where
  "do_ops ops [] c = Inr ([], c)"
| "do_ops ops (k # ks) c =
     andThen (do_op ops k c) (\<lambda>(a, c). andThen (do_ops ops ks c) (\<lambda>(as, c). Inr (a # as, c)))"

definition removed :: "cache_op \<Rightarrow> nat set \<Rightarrow> nat set" where
  "removed k X = (case k of RemoveRadio r \<Rightarrow> insert r X | _ \<Rightarrow> X)"

text \<open>
  The calls that a medium may make when the vector cache is in the state \<open>c\<close> and the radios in \<open>X\<close> have been
  removed: base calls about radios that have not been removed and that the vector's arrays still reach; a radio or a
  transmission that comes when an array is empty has an id no lower than the array's base (ids only grow); a
  removal and a purge that the vector can carry out without undefined behaviour; and a purge forgets the
  transmissions whose interference has ended, in the order of their ids.
\<close>

definition op_known :: "nat set \<Rightarrow> vector_cache \<Rightarrow> cache_op \<Rightarrow> bool" where
  "op_known X c k \<longleftrightarrow>
     (case k of
        BaseCall k \<Rightarrow> call_known vector_ops X c k
      | AddRadio r \<Rightarrow> (radioCache c = [] \<longrightarrow>
          baseRadioId c \<le> int r \<and> list_all (\<lambda>te. entries_of te = []) (transmissionCache c))
      | RemoveRadio r \<Rightarrow> \<not> isl (vec_removeRadio r c)
      | AddTransmission t \<Rightarrow> (transmissionCache c = [] \<longrightarrow> baseTransmissionId c \<le> int t)
      | Forget ts now \<Rightarrow> \<not> isl (vec_removeNonInterfering now c)
          \<and> (case expired_prefix now (transmissionCache c) of
               Inl _ \<Rightarrow> False
             | Inr n \<Rightarrow> map int ts = map (\<lambda>i. baseTransmissionId c + int i) [0..<n]))"

fun ops_known :: "nat set \<Rightarrow> cache_op list \<Rightarrow> vector_cache \<Rightarrow> bool" where
  "ops_known X [] c = True"
| "ops_known X (k # ks) c = (op_known X c k
     \<and> (case do_op vector_ops k c of Inl _ \<Rightarrow> True | Inr (_, c') \<Rightarrow> ops_known (removed k X) ks c'))"

definition caches_agree :: "nat set \<Rightarrow> vector_cache \<Rightarrow> map_cache \<Rightarrow> bool" where
  "caches_agree X c d \<longleftrightarrow> cache_agree vector_ops map_ops X c d \<and> map_inv d"

lemma isl_False: "\<not> isl m \<Longrightarrow> \<exists>c. m = Inr c"
  by (cases m) simp_all

lemma base_call_agrees:
  assumes "caches_agree X c d" and "call_known vector_ops X c k"
  shows "\<exists>a c' d'. do_call vector_ops k c = Inr (a, c') \<and> do_call map_ops k d = Inr (a, d') \<and> caches_agree X c' d'"
proof -
  from assms vector_as_map.do_call_agree obtain a c' d' where
    r: "do_call vector_ops k c = Inr (a, c')" "do_call map_ops k d = Inr (a, d')" "cache_agree vector_ops map_ops X c' d'"
    unfolding caches_agree_def by blast
  have "call_known map_ops X d k"
    using assms(2) by (auto simp: call_known_def map_views split: cache_call.splits)
  with assms(1) r(2) have "map_inv d'"
    unfolding caches_agree_def map_inv_def by (blast intro: map_keyed.do_call_kept map_based.do_call_intervals)
  with r show ?thesis unfolding caches_agree_def by blast
qed

lemma forget_agrees:
  assumes agree: "caches_agree X c d" and known: "op_known X c (Forget ts now)"
  shows "\<exists>c' d'. vec_removeNonInterfering now c = Inr c' \<and> foldR map_removeTransmission ts d = Inr d' \<and> caches_agree X c' d'"
proof -
  from known obtain c' n where c': "vec_removeNonInterfering now c = Inr c'" and n: "expired_prefix now (transmissionCache c) = Inr n"
    and ts: "map int ts = map (\<lambda>i. baseTransmissionId c + int i) [0..<n]"
    by (auto simp: op_known_def dest!: isl_False split: sum.splits)
  note v = vec_forget_views [OF n ts c']
  have inj: "inj_on (\<lambda>i. baseTransmissionId c + int i) {0..<n}" by (rule inj_onI) simp
  have "distinct (map int ts)" unfolding ts using inj by (simp add: distinct_map)
  then have "distinct ts" by (simp add: distinct_map)
  with agree obtain d' where d': "foldR map_removeTransmission ts d = Inr d'" "map_inv d'"
    "\<And>r. map_radio d' r = fold (\<lambda>t. drop_interval (map_reception d r t)) ts (map_radio d r)"
    "\<And>t. t \<notin> set ts \<Longrightarrow> map_entry d' t = map_entry d t"
    using map_forget_run [of d ts] by (auto simp: caches_agree_def)
  have above: "baseTransmissionId c \<le> int t" "int t < baseTransmissionId c + int n" if "t \<in> set ts" for t
  proof -
    have "int t \<in> set (map int ts)" using that by simp
    then show "baseTransmissionId c \<le> int t" "int t < baseTransmissionId c + int n" unfolding ts by auto
  qed
  have kept: "map_entry d' t = map_entry d t" if "\<not> int t < baseTransmissionId c + int n" for t
    using d'(4) above(2) that by blast
  have "cache_agree vector_ops map_ops X c' d'"
    unfolding cache_agree_def
  proof (intro conjI allI impI)
    fix r e
    assume r: "r \<notin> X"
    have e: "e = fold (\<lambda>t. drop_interval (the (reception_view vector_ops c r t))) ts (the (radio_view vector_ops c r))"
      and rb: "\<not> int r < baseRadioId c" if "radio_view vector_ops c' r = Some e" using that v(1) [of r] by (auto split: if_splits)
    have same: "the (radio_view vector_ops c r) = map_radio d r" "t \<in> set ts \<Longrightarrow> the (reception_view vector_ops c r t) = map_reception d r t"
      if "\<not> int r < baseRadioId c" for t
    proof -
      have ex: "\<exists>x. radio_view vector_ops c r = Some x" "t \<in> set ts \<Longrightarrow> \<exists>x. reception_view vector_ops c r t = Some x"
        using that above(1) [of t] by (auto simp: vec_radio_view vec_reception_view)
      from agree have a: "cache_agree vector_ops map_ops X c d" by (simp add: caches_agree_def)
      show "the (radio_view vector_ops c r) = map_radio d r"
        using ex(1) vector_as_map.agree_radio [OF a r] by (auto simp: map_views map_radio_def)
      show "t \<in> set ts \<Longrightarrow> the (reception_view vector_ops c r t) = map_reception d r t"
        using ex(2) vector_as_map.agree_entry [OF a r] by (auto simp: map_views map_reception_def)
    qed
    show "radio_view map_ops d' r = Some e" if "radio_view vector_ops c' r = Some e"
    proof -
      have "e = fold (\<lambda>t. drop_interval (map_reception d r t)) ts (map_radio d r)"
        unfolding e [OF that] same(1) [OF rb [OF that]] by (rule fold_cong) (simp_all add: same(2) [OF rb [OF that]])
      then show ?thesis using d'(3) [of r] by (simp add: map_radio_view map_radio_def)
    qed
    show "reception_view vector_ops c' r \<subseteq>\<^sub>m reception_view map_ops d' r"
      using agree r by (auto simp: map_le_def dom_def v(3) map_reception_view kept caches_agree_def cache_agree_def split: if_splits)
  next
    show "transmission_view vector_ops c' \<subseteq>\<^sub>m transmission_view map_ops d'"
      using agree by (auto simp: map_le_def dom_def v(2) map_transmission_view kept caches_agree_def cache_agree_def split: if_splits)
  qed
  with c' d'(1,2) show ?thesis by (simp add: caches_agree_def)
qed

lemma do_op_agrees:
  assumes agree: "caches_agree X c d" and known: "op_known X c k"
  shows "\<exists>a c' d'. do_op vector_ops k c = Inr (a, c') \<and> do_op map_ops k d = Inr (a, d') \<and> caches_agree (removed k X) c' d'"
proof (cases k)
  case (BaseCall b)
  with base_call_agrees [OF agree, of b] known show ?thesis by (simp add: op_known_def removed_def)
next
  case (AddRadio r)
  obtain c' where c': "vec_addRadio r c = Inr c'" by (simp add: vec_addRadio_def Let_def)
  have "knows_less vector_ops X c c'"
    by (rule vec_addRadio_knows [OF _ c']) (use known AddRadio in \<open>simp add: op_known_def\<close>)
  with agree c' AddRadio show ?thesis
    by (auto simp: noted_def map_addRadio_def removed_def caches_agree_def dest: agree_knows_less)
next
  case (RemoveRadio r)
  with known obtain c' where c': "vec_removeRadio r c = Inr c'" by (auto simp: op_known_def dest: isl_False)
  obtain d' where d': "map_removeRadio r d = Inr d'" "map_inv d'" "transmission_view map_ops d' = transmission_view map_ops d"
    "\<And>r'. r' \<noteq> r \<Longrightarrow> radio_view map_ops d' r' = radio_view map_ops d r' \<and> reception_view map_ops d' r' = reception_view map_ops d r'"
    using map_removeRadio_run [of d r] agree by (auto simp: caches_agree_def)
  have less: "knows_less vector_ops (insert r X) c c'"
    using vec_removeRadio_knows [OF c'] by (simp add: knows_less_def)
  have "cache_agree vector_ops map_ops (insert r X) c d"
    using agree by (simp add: caches_agree_def cache_agree_def)
  then have "cache_agree vector_ops map_ops (insert r X) c' d" using less by (rule agree_knows_less)
  then have "cache_agree vector_ops map_ops (insert r X) c' d'" by (simp add: cache_agree_def d'(3,4))
  with c' d'(1,2) RemoveRadio show ?thesis by (simp add: noted_def removed_def caches_agree_def)
next
  case (AddTransmission t)
  obtain c' where c': "vec_addTransmission t c = Inr c'" by (simp add: vec_addTransmission_def Let_def)
  have "knows_less vector_ops X c c'"
    by (rule vec_addTransmission_knows [OF _ c']) (use known AddTransmission in \<open>simp add: op_known_def\<close>)
  with agree c' AddTransmission show ?thesis
    by (auto simp: noted_def map_addTransmission_def removed_def caches_agree_def dest: agree_knows_less)
next
  case (Forget ts now)
  have "foldR vec_removeTransmission ts c = Inr c" by (induction ts) (simp_all add: vec_removeTransmission_def)
  with forget_agrees [OF agree, of ts now] known Forget show ?thesis
    by (auto simp: noted_def map_removeNonInterfering_def removed_def)
qed

lemma do_ops_agree:
  "caches_agree X c d \<Longrightarrow> ops_known X ks c \<Longrightarrow> \<exists>as c' d'. do_ops vector_ops ks c = Inr (as, c') \<and> do_ops map_ops ks d = Inr (as, d')"
proof (induction ks arbitrary: X c d)
  case Nil
  then show ?case by simp
next
  case (Cons k ks)
  obtain a c1 d1 where k: "do_op vector_ops k c = Inr (a, c1)" "do_op map_ops k d = Inr (a, d1)"
    "caches_agree (removed k X) c1 d1" using do_op_agrees [OF Cons.prems(1), of k] Cons.prems(2) by auto
  with Cons.prems(2) have "ops_known (removed k X) ks c1" by simp
  from Cons.IH [OF k(3) this] k show ?case by auto
qed

lemma empty_caches_agree: "caches_agree {} empty_vector_cache empty_map_cache"
  by (simp add: caches_agree_def cache_agree_def map_inv_def map_intervals_kept map_keys_def map_reception_def map_radio_def
      map_le_def vec_radio_view vec_transmission_view vec_reception_view map_views empty_vector_cache_def
      empty_map_cache_def lookup_default_def map_entry_def map_entries_of_def vec_entry_def new_map_transmission_entry_def
      new_vector_transmission_entry_def transmission_cache_entry.defs map_transmission_entry.defs vector_transmission_entry.defs
      entries_of_def nth_default_def new_reception_cache_entry_def)


text \<open>Three radios, one of which leaves, and two transmissions, the first of which is forgotten.\<close>

definition sample_ops :: "med_transmission \<Rightarrow> cache_op list" where
  "sample_ops tr = [AddRadio 2, AddRadio 3, AddTransmission 5,
     BaseCall (SetInterval 3 5 \<lparr>low = 0, high = 2, iv_value = tr\<rparr>), BaseCall (SetInterferenceEnd 5 3), RemoveRadio 2,
     AddTransmission 6, BaseCall (SetInterval 3 6 \<lparr>low = 1, high = 4, iv_value = tr\<rparr>), BaseCall (SetInterferenceEnd 6 5),
     BaseCall (ComputeInterfering 3 1 4), Forget [5] 3, BaseCall (GetInterferenceEnd 6), BaseCall (ComputeInterfering 3 1 4)]"


end
