(* ===== verification/LoRaPathLoss.thy ===== *)
theory LoRaPathLoss
  imports LoRaChannel
begin

text \<open>
  The path loss models: the LoRa ones of \<open>LoRaPhy\<close> (\<open>LoRaLogNormalShadowing.cc\<close>, \<open>LoRaHataOkumura.cc\<close>,
  \<open>HataOkumura.cc\<close>, \<open>LoRaPathLossOulu.cc\<close>) and those of \<open>physicallayer/pathloss\<close> they derive from or
  compete with (\<open>FreeSpacePathLoss.cc\<close>, \<open>LogNormalShadowing.cc\<close>, \<open>BreakpointPathLoss.cc\<close>,
  \<open>TwoRayGroundReflection.cc\<close>), and the bit error rate of \<open>LoRaModulation.cc\<close> with \<open>n_choose_k\<close> of
  \<open>common/INETMath.h\<close>. A path loss is a factor on the power. The draw of \<open>normal(0, sigma)\<close> is the argument
  \<open>shadow\<close>. The module parameters come first, as a tuple in the interface the models share.
\<close>

subsection \<open>The models\<close>

definition computeFreeSpacePathLoss :: "real \<Rightarrow> real \<Rightarrow> real \<Rightarrow> real \<Rightarrow> real" where
  "computeFreeSpacePathLoss waveLength distance alpha systemLoss =
     (if distance = 0 then 1 else waveLength * waveLength / (16 * pi * pi * systemLoss * distance powr alpha))"

definition fs_computePathLoss :: "real \<times> real \<times> real \<times> real \<Rightarrow> real \<Rightarrow> real" where
  "fs_computePathLoss = (\<lambda>(alpha, systemLoss, propagationSpeed, frequency) distance.
     computeFreeSpacePathLoss (propagationSpeed / frequency) distance alpha systemLoss)"

definition fs_computeRange :: "real \<times> real \<times> real \<times> real \<Rightarrow> real \<Rightarrow> real" where
  "fs_computeRange = (\<lambda>(alpha, systemLoss, propagationSpeed, frequency) loss.
     (let waveLength = propagationSpeed / frequency
      in (waveLength * waveLength / (16 * pi * pi * systemLoss * loss)) powr (1 / alpha)))"

definition lns_computePathLoss :: "real \<times> real \<times> real \<times> real \<times> real \<Rightarrow> real \<Rightarrow> real" where
  "lns_computePathLoss = (\<lambda>(alpha, systemLoss, propagationSpeed, frequency, shadow) distance.
     (let freeSpacePathLoss = computeFreeSpacePathLoss (propagationSpeed / frequency) 1 alpha systemLoss;
          PL_d0_db = 10 * log 10 (1 / freeSpacePathLoss);
          PL_db = PL_d0_db + 10 * alpha * log 10 (distance / 1) + shadow
      in dB2fraction (- PL_db)))"

definition bp_computePathLoss :: "real \<times> real \<times> real \<times> real \<times> real \<Rightarrow> real \<Rightarrow> real" where
  "bp_computePathLoss = (\<lambda>(l01, l02, alpha1, alpha2, breakpointDistance) distance.
     if distance < breakpointDistance then 1 / (l01 * distance powr alpha1)
     else 1 / (l02 * (distance / breakpointDistance) powr alpha2))"

definition bp_computeRange :: "real \<times> real \<times> real \<times> real \<times> real \<Rightarrow> real \<Rightarrow> real" where
  "bp_computeRange = (\<lambda>(l01, l02, alpha1, alpha2, breakpointDistance) loss.
     (let breakpointPathLoss = 1 / (l01 * breakpointDistance powr alpha1)
      in if loss < breakpointPathLoss then breakpointDistance / (loss * l02) powr (1 / alpha2)
         else 1 / (loss * l01) powr (1 / alpha1)))"

definition tr_computePathLoss :: "real \<times> real \<times> real \<times> real \<times> real \<times> real \<Rightarrow> real \<Rightarrow> real" where
  "tr_computePathLoss = (\<lambda>(alpha, systemLoss, propagationSpeed, frequency, transmitterAltitude, receiverAltitude) distance.
     (let waveLength = propagationSpeed / frequency;
          crossOverDistance = 4 * pi * transmitterAltitude * receiverAltitude / waveLength
      in if distance < crossOverDistance then computeFreeSpacePathLoss waveLength distance alpha systemLoss
         else transmitterAltitude * transmitterAltitude * receiverAltitude * receiverAltitude
              / (distance * distance * distance * distance * systemLoss)))"

definition LoRaLNS_computePathLoss :: "real \<times> real \<times> real \<Rightarrow> real \<Rightarrow> real" where
  "LoRaLNS_computePathLoss = (\<lambda>(gamma, d0, shadow) distance.
     (let PL_d0_db = 127.41;
          PL_db = PL_d0_db + 10 * gamma * log 10 (distance / d0) + shadow
      in dB2fraction (- PL_db)))"

text \<open>C's \<open>round\<close> rounds halves away from zero.\<close>

definition c_round :: "real \<Rightarrow> real" where
  "c_round x = (if 0 \<le> x then of_int \<lfloor>x + 1 / 2\<rfloor> else - of_int \<lfloor>- x + 1 / 2\<rfloor>)"

definition LoRaLNS_computeRange :: "real \<times> real \<Rightarrow> real \<Rightarrow> real" where
  "LoRaLNS_computeRange = (\<lambda>(gamma, d0) transmissionPower.
     (let PL_d0_db = 127.41;
          max_sensitivity = -137;
          trans_power_db = c_round (10 * log 10 (transmissionPower * 1000));
          rhs = (trans_power_db - PL_d0_db - max_sensitivity) / (10 * gamma)
      in d0 * 10 powr rhs))"

definition LoRaHata_computePathLoss :: "real \<times> real \<Rightarrow> real \<Rightarrow> real" where
  "LoRaHata_computePathLoss = (\<lambda>(K1, K2) distance. dB2fraction (- (K1 + K2 * log 10 (distance / 1000))))"

definition Oulu_computePathLoss :: "real \<times> real \<times> real \<times> real \<times> real \<Rightarrow> real \<Rightarrow> real" where
  "Oulu_computePathLoss = (\<lambda>(B, n, d0, antennaGain, shadow) distance.
     dB2fraction (- (B + 10 * n * log 10 (distance / d0) - antennaGain + shadow)))"

definition Hata_computePathLoss :: "bool \<times> int \<times> int \<times> int \<times> real \<Rightarrow> real \<Rightarrow> real" where
  "Hata_computePathLoss = (\<lambda>(small, suburban, GW, Node, frequency) distance.
     (let ahed = (if small
                  then 0.8 + (1.1 * log 10 (frequency / 1000000) - 0.7) * of_int Node - 1.56 * log 10 (frequency / 1000000)
                  else if frequency < 200 then 8.29 * (log 10 (1.54 * of_int Node))\<^sup>2 - 1.1
                  else 3.2 * (log 10 (11.75 * of_int Node))\<^sup>2 - 4.97);
          A = 69.55 + 26.16 * log 10 (frequency / 1000000) - 13.82 * log 10 (of_int GW);
          B = 44.9 - 6.55 * log 10 (of_int GW);
          PL_db = A - ahed + B * log 10 (distance / 1000);
          PL_db' = (if suburban = 1 then PL_db - 2 * (log 10 (frequency / (1000000 * 28)))\<^sup>2 - 5.4
                    else if suburban = 2
                    then PL_db - 4.78 * (log 10 (frequency / 1000000))\<^sup>2 + 18.33 * log 10 (frequency / 1000000) - 40.94
                    else PL_db)
      in dB2fraction (- PL_db')))"

subsection \<open>What the channel relies on\<close>

text \<open>
  The interface \<open>IPathLoss\<close>: for admissible parameters a model is a positive factor that decreases with the
  distance. The received power then never grows with the distance.
\<close>

locale path_loss =
  fixes ok :: "'p \<Rightarrow> bool"
    and pathLoss :: "'p \<Rightarrow> real \<Rightarrow> real"
  assumes positive: "ok p \<Longrightarrow> 0 < d \<Longrightarrow> 0 < pathLoss p d"
    and decreasing: "ok p \<Longrightarrow> 0 < d \<Longrightarrow> d < d' \<Longrightarrow> pathLoss p d' < pathLoss p d"
begin

lemma received_power_antitone:
  assumes "ok p" and "0 < d" and "d \<le> d'" and "0 \<le> P" and "0 \<le> gt" and "0 \<le> gr"
  shows "computeReceptionPower P gt gr (pathLoss p d') None \<le> computeReceptionPower P gt gr (pathLoss p d) None"
proof -
  have "pathLoss p d' \<le> pathLoss p d" using decreasing [OF assms(1,2), of d'] assms(3) by (cases "d = d'") simp_all
  then have "gt * gr * pathLoss p d' \<le> gt * gr * pathLoss p d" using assms(5,6) by (intro mult_left_mono) simp_all
  then have "min 1 (gt * gr * pathLoss p d') \<le> min 1 (gt * gr * pathLoss p d)" by simp
  then show ?thesis using assms(4) by (simp add: computeReceptionPower_def mult_left_mono del: min.bounded_iff)
qed

lemma received_power_bounds:
  assumes "ok p" and "0 < d" and "0 \<le> P" and "0 \<le> gt" and "0 \<le> gr"
  shows "0 \<le> computeReceptionPower P gt gr (pathLoss p d) None"
    and "computeReceptionPower P gt gr (pathLoss p d) None \<le> P"
proof -
  have "0 \<le> gt * gr * pathLoss p d" using positive [OF assms(1,2)] assms(4,5) by simp
  then have "0 \<le> min 1 (gt * gr * pathLoss p d)" "min 1 (gt * gr * pathLoss p d) \<le> 1" by simp_all
  then show "0 \<le> computeReceptionPower P gt gr (pathLoss p d) None"
    and "computeReceptionPower P gt gr (pathLoss p d) None \<le> P"
    using assms(3) mult_left_le [of "min 1 (gt * gr * pathLoss p d)" P]
    by (simp_all add: computeReceptionPower_def)
qed

end

text \<open>A loss that is affine in the logarithm of the distance.\<close>

lemma dB_affine_decreasing:
  assumes "0 < k" and "0 < s" and "0 < d" and "d < d'"
  shows "dB2fraction (- (a + k * log 10 (d' / s) + b)) < dB2fraction (- (a + k * log 10 (d / s) + b))"
proof -
  have "log 10 (d / s) < log 10 (d' / s)" using assms by (simp add: divide_strict_right_mono)
  then show ?thesis using assms(1) by (simp add: dB2fraction_def)
qed

lemma dB2fraction_pos [simp]: "0 < dB2fraction x"
  by (simp add: dB2fraction_def)

interpretation LoRaLNS: path_loss "\<lambda>(gamma, d0, shadow). 0 < gamma \<and> 0 < d0" LoRaLNS_computePathLoss
  using dB_affine_decreasing [where a = "127.41"]
  by unfold_locales (auto simp: LoRaLNS_computePathLoss_def Let_def)

interpretation LNS: path_loss "\<lambda>(alpha, systemLoss, c, f, shadow). 0 < alpha" lns_computePathLoss
  using dB_affine_decreasing [where s = 1]
  by unfold_locales (auto simp: lns_computePathLoss_def Let_def)

interpretation LoRaHata: path_loss "\<lambda>(K1, K2). 0 < K2" LoRaHata_computePathLoss
  using dB_affine_decreasing [where s = 1000 and b = 0]
  by unfold_locales (auto simp: LoRaHata_computePathLoss_def)

interpretation Oulu: path_loss "\<lambda>(B, n, d0, antennaGain, shadow). 0 < n \<and> 0 < d0" Oulu_computePathLoss
proof unfold_locales
  fix p :: "real \<times> real \<times> real \<times> real \<times> real" and d d' :: real
  assume ok: "case p of (B, n, d0, antennaGain, shadow) \<Rightarrow> 0 < n \<and> 0 < d0" and d: "0 < d"
  show "0 < Oulu_computePathLoss p d" by (cases p) (simp add: Oulu_computePathLoss_def)
  assume "d < d'"
  obtain B n d0 g sh where p: "p = (B, n, d0, g, sh)" by (cases p)
  show "Oulu_computePathLoss p d' < Oulu_computePathLoss p d"
    using dB_affine_decreasing [of "10 * n" d0 d d' B "sh - g"] ok d \<open>d < d'\<close>
    by (simp add: Oulu_computePathLoss_def p algebra_simps)
qed

interpretation Hata: path_loss "\<lambda>(small, suburban, GW, Node, frequency). 0 < GW \<and> GW \<le> 1000000" Hata_computePathLoss
proof unfold_locales
  fix p :: "bool \<times> int \<times> int \<times> int \<times> real" and d d' :: real
  assume ok: "case p of (small, suburban, GW, Node, frequency) \<Rightarrow> 0 < GW \<and> GW \<le> 1000000" and d: "0 < d"
  show "0 < Hata_computePathLoss p d" by (cases p) (simp add: Hata_computePathLoss_def Let_def)
  assume dd: "d < d'"
  obtain small suburban GW Node f where p: "p = (small, suburban, GW, Node, f)" by (cases p)
  have "log 10 (of_int GW) \<le> log 10 ((10::real) ^ 6)" using ok by (simp add: p)
  also have "\<dots> = 6" by (subst log_nat_power) simp_all
  finally have B: "0 < 44.9 - 6.55 * log 10 (of_int GW :: real)" by simp
  have lg: "log 10 (d / 1000) < log 10 (d' / 1000)" using d dd by simp
  have "(44.9 - 6.55 * log 10 (of_int GW)) * log 10 (d / 1000) < (44.9 - 6.55 * log 10 (of_int GW)) * log 10 (d' / 1000)"
    using B lg by (rule mult_strict_left_mono [rotated])
  then show "Hata_computePathLoss p d' < Hata_computePathLoss p d"
    by (simp add: Hata_computePathLoss_def p Let_def dB2fraction_def)
qed

lemma freeSpace_pos:
  "w \<noteq> 0 \<Longrightarrow> 0 < L \<Longrightarrow> 0 < d \<Longrightarrow> 0 < computeFreeSpacePathLoss w d alpha L"
  by (simp add: computeFreeSpacePathLoss_def zero_less_divide_iff) (auto simp: zero_less_mult_iff linorder_neq_iff)

lemma freeSpace_decreasing:
  assumes "w \<noteq> 0" and "0 < L" and "0 < alpha" and "0 < d" and "d < d'"
  shows "computeFreeSpacePathLoss w d' alpha L < computeFreeSpacePathLoss w d alpha L"
proof -
  have "0 < w * w" using assms(1) by (simp add: zero_less_mult_iff) linarith
  moreover have "16 * pi * pi * L * d powr alpha < 16 * pi * pi * L * d' powr alpha"
    using assms by (intro mult_strict_left_mono powr_less_mono2) simp_all
  ultimately show ?thesis
    using assms by (auto simp: computeFreeSpacePathLoss_def intro!: divide_strict_left_mono mult_pos_pos)
qed

interpretation FreeSpace: path_loss
  "\<lambda>(alpha, systemLoss, c, f). 0 < alpha \<and> 0 < systemLoss \<and> 0 < c \<and> 0 < f" fs_computePathLoss
  by unfold_locales (auto simp: fs_computePathLoss_def intro: freeSpace_pos freeSpace_decreasing)

interpretation Breakpoint: path_loss
  "\<lambda>(l01, l02, alpha1, alpha2, bd). 0 < l01 \<and> 0 < alpha1 \<and> 0 < alpha2 \<and> 0 < bd \<and> l01 * bd powr alpha1 \<le> l02"
  bp_computePathLoss
proof unfold_locales
  fix p :: "real \<times> real \<times> real \<times> real \<times> real" and d d' :: real
  assume ok: "case p of (l01, l02, alpha1, alpha2, bd) \<Rightarrow>
      0 < l01 \<and> 0 < alpha1 \<and> 0 < alpha2 \<and> 0 < bd \<and> l01 * bd powr alpha1 \<le> l02" and d: "0 < d"
  obtain l01 l02 a1 a2 bd where p: "p = (l01, l02, a1, a2, bd)" by (cases p)
  have l02: "0 < l02" using ok less_le_trans [of 0 "l01 * bd powr a1" l02] by (simp add: p)
  show "0 < bp_computePathLoss p d" using ok d l02 by (simp add: bp_computePathLoss_def p)
  assume dd: "d < d'"
  have inv: "1 / (l * y) < 1 / (l * x)" if "0 < l" "0 < x" "x < y" for l x y :: real
    using that by (intro divide_strict_left_mono mult_strict_left_mono mult_pos_pos) simp_all
  consider "d' < bd" | "d < bd" "bd \<le> d'" | "bd \<le> d" by linarith
  then show "bp_computePathLoss p d' < bp_computePathLoss p d"
  proof cases
    case 1
    then show ?thesis using ok d dd inv [of l01 "d powr a1" "d' powr a1"]
      by (simp add: bp_computePathLoss_def p powr_less_mono2)
  next
    case 2
    have "1 / (l01 * bd powr a1) < 1 / (l01 * d powr a1)"
      using ok d 2 by (intro inv) (simp_all add: p powr_less_mono2)
    moreover have "1 / (l02 * (d' / bd) powr a2) \<le> 1 / l02"
    proof -
      have "1 \<le> (d' / bd) powr a2" using ok 2 by (simp add: p ge_one_powr_ge_zero)
      then show ?thesis using l02 by (simp add: frac_le)
    qed
    moreover have "1 / l02 \<le> 1 / (l01 * bd powr a1)"
      using ok l02 by (intro divide_left_mono) (simp_all add: p)
    ultimately show ?thesis using 2 by (simp add: bp_computePathLoss_def p)
  next
    case 3
    have "(d / bd) powr a2 < (d' / bd) powr a2"
      using ok d dd by (intro powr_less_mono2) (simp_all add: p divide_strict_right_mono)
    then show ?thesis using ok d dd 3 l02 inv [of l02 "(d / bd) powr a2" "(d' / bd) powr a2"]
      by (simp add: bp_computePathLoss_def p)
  qed
qed

text \<open>The two rays meet the free space loss at the crossover distance (for the exponent 2).\<close>

lemma two_ray_crossover:
  assumes "0 < w" and "0 < ht" and "0 < hr" and "0 < L"
  defines "x \<equiv> 4 * pi * ht * hr / w"
  shows "computeFreeSpacePathLoss w x 2 L = ht * ht * hr * hr / (x * x * x * x * L)"
proof -
  have "0 < x" using assms by (simp add: x_def)
  have sq: "x powr 2 = x * x" using \<open>0 < x\<close> by (simp add: powr_numeral power2_eq_square)
  have xw: "x * w = 4 * pi * ht * hr" using assms by (simp add: x_def)
  have "w * w * (x * x * x * x * L) = (x * w) * (x * w) * (x * x * L)" by (simp only: ac_simps)
  also have "\<dots> = ht * ht * hr * hr * (16 * pi * pi * L * (x * x))" unfolding xw by simp
  finally have "w * w / (16 * pi * pi * L * (x * x)) = ht * ht * hr * hr / (x * x * x * x * L)"
    using \<open>0 < x\<close> assms(4) by (simp add: frac_eq_eq)
  then show ?thesis using \<open>0 < x\<close> by (simp add: computeFreeSpacePathLoss_def sq)
qed

text \<open>
  With another exponent the free space loss at the crossover distance is at least that of the two rays when the power of the
  distance to the exponent is at most its square.
\<close>

definition crossover :: "real \<Rightarrow> real \<Rightarrow> real \<Rightarrow> real \<Rightarrow> real" where
  "crossover c f ht hr = 4 * pi * ht * hr / (c / f)"

interpretation TwoRay: path_loss
  "\<lambda>(alpha, systemLoss, c, f, ht, hr). 0 < alpha \<and> 0 < systemLoss \<and> 0 < c \<and> 0 < f \<and> 0 < ht \<and> 0 < hr
     \<and> crossover c f ht hr powr alpha \<le> (crossover c f ht hr)\<^sup>2"
  tr_computePathLoss
proof unfold_locales
  fix p :: "real \<times> real \<times> real \<times> real \<times> real \<times> real" and d d' :: real
  assume ok: "case p of (alpha, L, c, f, ht, hr) \<Rightarrow> 0 < alpha \<and> 0 < L \<and> 0 < c \<and> 0 < f \<and> 0 < ht \<and> 0 < hr
      \<and> crossover c f ht hr powr alpha \<le> (crossover c f ht hr)\<^sup>2"
    and d: "0 < d"
  obtain alpha L c f ht hr where p: "p = (alpha, L, c, f, ht, hr)" by (cases p)
  define w where "w = c / f"
  define x where "x = 4 * pi * ht * hr / w"
  have pos: "0 < alpha" "0 < L" "0 < w" "0 < ht" "0 < hr" "0 < x" using ok by (simp_all add: p w_def x_def)
  have pw: "x powr alpha \<le> x * x" using ok by (simp add: p w_def x_def crossover_def power2_eq_square)
  let ?far = "\<lambda>u. ht * ht * hr * hr / (u * u * u * u * L)"
  have tr: "tr_computePathLoss p u = (if u < x then computeFreeSpacePathLoss w u alpha L else ?far u)" for u
    by (simp add: tr_computePathLoss_def p w_def x_def Let_def)
  show "0 < tr_computePathLoss p d" using pos d by (simp add: tr freeSpace_pos)
  assume dd: "d < d'"
  have far: "?far v < ?far u" if "0 < u" "u < v" for u v
  proof -
    have "u ^ 4 < v ^ 4" using that by (intro power_strict_mono) simp_all
    then have "u * u * u * u * L < v * v * v * v * L" using pos(2) by (simp add: power4_eq_xxxx)
    then show ?thesis using that pos by (intro divide_strict_left_mono) simp_all
  qed
  consider "d' < x" | "d < x" "x \<le> d'" | "x \<le> d" by linarith
  then show "tr_computePathLoss p d' < tr_computePathLoss p d"
  proof cases
    case 1
    then show ?thesis using dd d pos by (simp add: tr freeSpace_decreasing)
  next
    case 2
    have "computeFreeSpacePathLoss w x alpha L < computeFreeSpacePathLoss w d alpha L"
      using 2 d pos by (intro freeSpace_decreasing) simp_all
    moreover have "?far d' \<le> ?far x" using 2 pos far [of x d'] by (cases "x = d'") simp_all
    moreover have "computeFreeSpacePathLoss w x 2 L = ?far x"
      unfolding x_def using pos by (intro two_ray_crossover) simp_all
    moreover have "computeFreeSpacePathLoss w x 2 L \<le> computeFreeSpacePathLoss w x alpha L"
      using pos pw by (simp add: computeFreeSpacePathLoss_def powr_numeral power2_eq_square divide_left_mono)
    ultimately show ?thesis using 2 by (simp add: tr)
  next
    case 3
    then show ?thesis using dd d far [of d d'] by (simp add: tr)
  qed
qed

subsection \<open>Distance and power\<close>

text \<open>
  The \<open>pathLoss\<close> submodule of the medium: which model is configured, with its parameters. The call is virtual.
\<close>

datatype path_loss_model =
    FreeSpacePathLoss "real \<times> real \<times> real \<times> real"
  | LogNormalShadowing "real \<times> real \<times> real \<times> real \<times> real"
  | BreakpointPathLoss "real \<times> real \<times> real \<times> real \<times> real"
  | TwoRayGroundReflection "real \<times> real \<times> real \<times> real \<times> real \<times> real"
  | LoRaLogNormalShadowing "real \<times> real \<times> real"
  | LoRaHataOkumura "real \<times> real"
  | HataOkumura "bool \<times> int \<times> int \<times> int \<times> real"
  | LoRaPathLossOulu "real \<times> real \<times> real \<times> real \<times> real"

fun computePathLoss :: "path_loss_model \<Rightarrow> real \<Rightarrow> real" where
  "computePathLoss (FreeSpacePathLoss p) d = fs_computePathLoss p d"
| "computePathLoss (LogNormalShadowing p) d = lns_computePathLoss p d"
| "computePathLoss (BreakpointPathLoss p) d = bp_computePathLoss p d"
| "computePathLoss (TwoRayGroundReflection p) d = tr_computePathLoss p d"
| "computePathLoss (LoRaLogNormalShadowing p) d = LoRaLNS_computePathLoss p d"
| "computePathLoss (LoRaHataOkumura p) d = LoRaHata_computePathLoss p d"
| "computePathLoss (HataOkumura p) d = Hata_computePathLoss p d"
| "computePathLoss (LoRaPathLossOulu p) d = Oulu_computePathLoss p d"

text \<open>
  The parameters for which the loss falls with the distance: exponents, distances and frequencies are positive, and the second
  branch of the models that have two does not start above the end of the first.
\<close>

fun admissible :: "path_loss_model \<Rightarrow> bool" where
  "admissible (FreeSpacePathLoss (alpha, systemLoss, c, f)) \<longleftrightarrow> 0 < alpha \<and> 0 < systemLoss \<and> 0 < c \<and> 0 < f"
| "admissible (LogNormalShadowing (alpha, systemLoss, c, f, shadow)) \<longleftrightarrow> 0 < alpha"
| "admissible (BreakpointPathLoss (l01, l02, alpha1, alpha2, bd)) \<longleftrightarrow>
     0 < l01 \<and> 0 < alpha1 \<and> 0 < alpha2 \<and> 0 < bd \<and> l01 * bd powr alpha1 \<le> l02"
| "admissible (TwoRayGroundReflection (alpha, systemLoss, c, f, ht, hr)) \<longleftrightarrow>
     0 < alpha \<and> 0 < systemLoss \<and> 0 < c \<and> 0 < f \<and> 0 < ht \<and> 0 < hr
     \<and> crossover c f ht hr powr alpha \<le> (crossover c f ht hr)\<^sup>2"
| "admissible (LoRaLogNormalShadowing (gamma, d0, shadow)) \<longleftrightarrow> 0 < gamma \<and> 0 < d0"
| "admissible (LoRaHataOkumura (K1, K2)) \<longleftrightarrow> 0 < K2"
| "admissible (HataOkumura (small, suburban, GW, Node, f)) \<longleftrightarrow> 0 < GW \<and> GW \<le> 1000000"
| "admissible (LoRaPathLossOulu (B, n, d0, antennaGain, shadow)) \<longleftrightarrow> 0 < n \<and> 0 < d0"

interpretation configured: path_loss admissible computePathLoss
proof unfold_locales
  fix p and d d' :: real
  assume ok: "admissible p" and d: "0 < d"
  show "0 < computePathLoss p d"
    using ok d by (cases p rule: admissible.cases)
      (simp_all add: FreeSpace.positive LNS.positive Breakpoint.positive TwoRay.positive LoRaLNS.positive
        LoRaHata.positive Hata.positive Oulu.positive)
  show "computePathLoss p d' < computePathLoss p d" if "d < d'"
    using ok d that by (cases p rule: admissible.cases)
      (simp_all add: FreeSpace.decreasing LNS.decreasing Breakpoint.decreasing TwoRay.decreasing LoRaLNS.decreasing
        LoRaHata.decreasing Hata.decreasing Oulu.decreasing)
qed

text \<open>
  A shadowing model draws anew each time it is asked. The model with the draw of one call, and the exponent of a shadowing model.
\<close>

fun with_draw :: "real \<Rightarrow> path_loss_model \<Rightarrow> path_loss_model" where
  "with_draw x (LogNormalShadowing (alpha, systemLoss, c, f, shadow)) = LogNormalShadowing (alpha, systemLoss, c, f, x)"
| "with_draw x (LoRaLogNormalShadowing (gamma, d0, shadow)) = LoRaLogNormalShadowing (gamma, d0, x)"
| "with_draw x (LoRaPathLossOulu (B, n, d0, antennaGain, shadow)) = LoRaPathLossOulu (B, n, d0, antennaGain, x)"
| "with_draw x m = m"

fun shadowing_exponent :: "path_loss_model \<Rightarrow> real option" where
  "shadowing_exponent (LogNormalShadowing (alpha, systemLoss, c, f, shadow)) = Some alpha"
| "shadowing_exponent (LoRaLogNormalShadowing (gamma, d0, shadow)) = Some gamma"
| "shadowing_exponent (LoRaPathLossOulu (B, n, d0, antennaGain, shadow)) = Some n"
| "shadowing_exponent m = None"

lemma admissible_with_draw [simp]: "admissible (with_draw x m) = admissible m"
  by (cases "(x, m)" rule: with_draw.cases) simp_all

lemma unshadowed_draw: "shadowing_exponent m = None \<Longrightarrow> with_draw x m = m"
  by (cases "(x, m)" rule: with_draw.cases) simp_all

lemma shadowing_exponent_pos: "shadowing_exponent m = Some k \<Longrightarrow> admissible m \<Longrightarrow> 0 < k"
  by (cases m rule: shadowing_exponent.cases) simp_all

text \<open>Two calls of a shadowing model compare as their draws and distances do.\<close>

lemma dB2fraction_le_iff [simp]: "dB2fraction x \<le> dB2fraction y \<longleftrightarrow> x \<le> y"
  by (simp add: dB2fraction_def)

lemma redraw_compares:
  assumes "shadowing_exponent m = Some k" and "admissible m" and "0 < near" and "0 < far"
  shows "computePathLoss (with_draw y m) far \<le> computePathLoss (with_draw x m) near \<longleftrightarrow> x - y \<le> 10 * k * log 10 (far / near)"
  using assms by (cases m rule: shadowing_exponent.cases)
    (simp_all add: lns_computePathLoss_def LoRaLNS_computePathLoss_def Oulu_computePathLoss_def Let_def log_divide algebra_simps)

lemma reception_power_mono:
  "a \<le> b \<Longrightarrow> 0 \<le> P \<Longrightarrow> 0 \<le> gt \<Longrightarrow> 0 \<le> gr \<Longrightarrow> computeReceptionPower P gt gr a None \<le> computeReceptionPower P gt gr b None"
  by (simp add: computeReceptionPower_def mult_left_mono min.coboundedI1 min.coboundedI2 del: min.bounded_iff)
    (meson min.mono mult_left_mono mult_nonneg_nonneg order_refl)



subsection \<open>Ranges\<close>

text \<open>
  \<open>computeRange\<close> inverts \<open>computePathLoss\<close>: in free space for every loss, and for the breakpoint model
  when its two branches meet at the breakpoint, as its comment assumes.
\<close>

theorem computeRange_inverse:
  assumes "0 < loss" and "0 < alpha" and "0 < systemLoss" and "0 < c" and "0 < f"
    and "0 < l01" and "0 < alpha1" and "0 < alpha2" and "0 < bd" and "l02 = l01 * bd powr alpha1"
  shows "fs_computePathLoss (alpha, systemLoss, c, f) (fs_computeRange (alpha, systemLoss, c, f) loss) = loss
       \<and> bp_computePathLoss (l01, l02, alpha1, alpha2, bd) (bp_computeRange (l01, l02, alpha1, alpha2, bd) loss) = loss"
proof
  let ?w = "c / f"
  have w: "0 < ?w * ?w" using assms by simp
  have q: "0 < ?w * ?w / (16 * pi * pi * systemLoss * loss)" using w assms by simp
  have "(x powr (1 / alpha)) powr alpha = x" if "0 < x" for x
    using that assms(2) by (simp add: powr_powr)
  from this [OF q] have "((?w * ?w / (16 * pi * pi * systemLoss * loss)) powr (1 / alpha)) powr alpha
      = ?w * ?w / (16 * pi * pi * systemLoss * loss)" .
  then show "fs_computePathLoss (alpha, systemLoss, c, f) (fs_computeRange (alpha, systemLoss, c, f) loss) = loss"
    using q assms by (simp add: fs_computePathLoss_def fs_computeRange_def computeFreeSpacePathLoss_def Let_def)
  show "bp_computePathLoss (l01, l02, alpha1, alpha2, bd) (bp_computeRange (l01, l02, alpha1, alpha2, bd) loss) = loss"
  proof (cases "loss * l02 < 1")
    case True
    have far: "loss < 1 / (l01 * bd powr alpha1)" using True assms by (simp add: field_simps)
    have "(loss * l02) powr (1 / alpha2) \<le> 1" using True assms by (simp add: powr_le1)
    then have "bd \<le> bd / (loss * l02) powr (1 / alpha2)" using assms by (simp add: field_simps)
    moreover have "(1 / (loss * l02) powr (1 / alpha2)) powr alpha2 = 1 / (loss * l02)"
      using assms by (simp add: powr_divide powr_powr)
    ultimately show ?thesis using far assms by (simp add: bp_computePathLoss_def bp_computeRange_def Let_def not_less)
  next
    case False
    have near: "\<not> loss < 1 / (l01 * bd powr alpha1)" using False assms by (simp add: field_simps)
    let ?r = "1 / (loss * l01) powr (1 / alpha1)"
    have r: "0 < ?r" "?r powr alpha1 = 1 / (loss * l01)" using assms by (simp_all add: powr_divide powr_powr)
    show ?thesis
    proof (cases "?r < bd")
      case True
      then show ?thesis using near r assms by (simp add: bp_computePathLoss_def bp_computeRange_def Let_def)
    next
      case False
      have "bd powr alpha1 \<le> 1 / (loss * l01)"
        using False r assms by (metis linorder_not_less powr_mono2 less_imp_le)
      then have "loss * l02 \<le> 1" using assms by (simp add: field_simps)
      with \<open>\<not> loss * l02 < 1\<close> have one: "loss * l02 = 1" by simp
      have "1 / (loss * l01) = bd powr alpha1" using one assms by (simp add: field_simps)
      then have "?r powr alpha1 = bd powr alpha1" using r(2) by (simp only:)
      then have "(?r powr alpha1) powr (1 / alpha1) = (bd powr alpha1) powr (1 / alpha1)" by (simp only:)
      then have "?r = bd" using r(1) assms(7,9) by (simp add: powr_powr)
      then show ?thesis using near one assms by (simp add: bp_computePathLoss_def bp_computeRange_def Let_def field_simps)
    qed
  qed
qed

lemma computeRange_inverse_witness:
  "fs_computePathLoss (2, 1, 3, 1) (fs_computeRange (2, 1, 3, 1) (1 / 7)) = 1 / 7
   \<and> bp_computePathLoss (1, 16, 2, 3, 4) (bp_computeRange (1, 16, 2, 3, 4) (1 / 7)) = 1 / 7"
  by (rule computeRange_inverse) simp_all

lemma c_round_of_int: "c_round (of_int k) = of_int k"
proof -
  have "\<lfloor>of_int k + 1 / 2 :: real\<rfloor> = k" "\<lfloor>- of_int k + 1 / 2 :: real\<rfloor> = - k" by linarith+
  then show ?thesis by (simp add: c_round_def)
qed

lemma trans_power_dBm: "c_round (10 * log 10 (dBm2mW (of_int k) / 1000 * 1000)) = of_int k"
  using mW2dBm_dBm2mW [of "of_int k"] by (simp add: mW2dBm_def c_round_of_int)

lemma dBm2mW_dB2fraction: "dBm2mW a * dB2fraction b = dBm2mW (a + b)"
  by (simp add: dBm2mW_def dB2fraction_def powr_add [symmetric] add_divide_distrib)

lemma sensitivity_table_min: "-137 \<le> sensitivity_dBm sf bw"
  by (simp add: sensitivity_dBm_def Let_def)

text \<open>
  C33: The communication range of the LoRa shadowing model: for a transmission power of a whole number of
  dBm and no shadowing, a frame arrives with at least -137 dBm exactly within the range; beyond it no
  receiver can hear the frame, whatever the spreading factor and bandwidth.
\<close>

theorem LoRaLNS_range_exact:
  assumes "0 < gamma" and "0 < d0" and "0 < d" and "-137 \<le> k"
  defines "P \<equiv> dBm2mW (of_int k) / 1000"
  defines "received \<equiv> computeReceptionPower P 1 1 (LoRaLNS_computePathLoss (gamma, d0, 0) d) None"
  shows "(d \<le> LoRaLNS_computeRange (gamma, d0) P \<longleftrightarrow> dBm2mW (-137) / 1000 \<le> received)
       \<and> (LoRaLNS_computeRange (gamma, d0) P < d \<longrightarrow> \<not> fst (computeIsReceptionPossible l (r\<lparr>rx_power := received\<rparr>) rcv))"
proof -
  let ?PL = "127.41 + 10 * gamma * log 10 (d / d0) :: real"
  have tp: "c_round (10 * log 10 (P * 1000)) = of_int k"
    unfolding P_def by (rule trans_power_dBm)
  have "d \<le> LoRaLNS_computeRange (gamma, d0) P \<longleftrightarrow> d / d0 \<le> 10 powr ((k - 127.41 + 137) / (10 * gamma))"
    using assms(2) by (simp add: LoRaLNS_computeRange_def Let_def tp field_simps)
  also have "\<dots> \<longleftrightarrow> log 10 (d / d0) \<le> (k - 127.41 + 137) / (10 * gamma)"
    using assms by (subst log_le_iff) simp_all
  also have "\<dots> \<longleftrightarrow> -137 \<le> k - ?PL" using assms(1) by (simp add: field_simps)
  finally have range: "d \<le> LoRaLNS_computeRange (gamma, d0) P \<longleftrightarrow> -137 \<le> k - ?PL" .
  have "dBm2mW (of_int k) * dB2fraction (- ?PL) = dBm2mW (k - ?PL)"
    unfolding dBm2mW_dB2fraction by (rule arg_cong) simp
  then have "dBm2mW k * min 1 (dB2fraction (- ?PL)) = min (dBm2mW k) (dBm2mW (k - ?PL))"
    by (simp only: min_mult_distrib_left less_imp_le [OF dBm2mW_pos] if_True mult_1_right)
  then have rp: "received = min (dBm2mW k) (dBm2mW (k - ?PL)) / 1000"
    unfolding received_def computeReceptionPower_def LoRaLNS_computePathLoss_def P_def by (simp add: Let_def)
  have first: "d \<le> LoRaLNS_computeRange (gamma, d0) P \<longleftrightarrow> dBm2mW (-137) / 1000 \<le> received"
    using range assms(4) by (simp add: rp divide_right_mono divide_le_cancel)
  have "received < getSensitivity (r\<lparr>rx_power := received\<rparr>)" if "LoRaLNS_computeRange (gamma, d0) P < d"
  proof -
    have "dBm2mW (-137) / 1000 \<le> getSensitivity (r\<lparr>rx_power := received\<rparr>)"
      using sensitivity_table_min by (simp add: getSensitivity_def)
    moreover have "received < dBm2mW (-137) / 1000" using first that by linarith
    ultimately show ?thesis by linarith
  qed
  with first show ?thesis by (auto simp: computeIsReceptionPossible_def rx_computeMinPower_def Let_def)
qed

lemma LoRaLNS_range_exact_witness:
  "\<not> fst (computeIsReceptionPossible sample_channel_listening
      (sample_reception 0 12 1\<lparr>rx_power := computeReceptionPower (dBm2mW (of_int (-135)) / 1000) 1 1
         (LoRaLNS_computePathLoss (2, 40, 0) 40) None\<rparr>) sample_receiver)"
proof -
  have "LoRaLNS_computeRange (2, 40) (dBm2mW (of_int (-135)) / 1000) < 40"
  proof -
    have "(10::real) powr - (12541 / 2000) < 1" using powr_less_mono [of "- (12541 / 2000)" 0 "10::real"] by simp
    then show ?thesis unfolding LoRaLNS_computeRange_def Let_def prod.case trans_power_dBm by simp
  qed
  then show ?thesis using LoRaLNS_range_exact [of 2 40 40 "-135"] by (auto simp del: of_int_minus of_int_numeral)
qed

subsection \<open>Bit error rate\<close>

fun n_choose_k_loop :: "real \<Rightarrow> int \<Rightarrow> nat \<Rightarrow> int \<Rightarrow> real \<Rightarrow> real" where
  "n_choose_k_loop dNSubK iK 0 i dRes = dRes"
| "n_choose_k_loop dNSubK iK (Suc fuel) i dRes =
     (if i \<le> iK then n_choose_k_loop dNSubK iK fuel (i + 1) (dRes * (dNSubK + of_int i) / of_int i) else dRes)"

text \<open>The loop counts \<open>i\<close> from 2 to \<open>iK\<close>, so \<open>iK\<close> turns are enough.\<close>

definition n_choose_k :: "int \<Rightarrow> int \<Rightarrow> real" where
  "n_choose_k n k =
     (if n < k then 0
      else let iK = (if n < k * 2 then n - k else k);
               dNSubK = of_int (n - iK);
               dRes = (if iK < 1 then 1 else dNSubK + 1)
           in n_choose_k_loop dNSubK iK (nat iK) 2 dRes)"

definition calculateBER :: "real \<Rightarrow> real \<Rightarrow> real \<Rightarrow> real" where
  "calculateBER snir bandwidth bitrate =
     (let dSNRFct = 20 * snir * bandwidth / bitrate;
          e = (\<lambda>k. exp (dSNRFct * (1 / of_int k - 1)));
          dSumK = foldl (\<lambda>s k. s + n_choose_k 16 k * (e k + e (16 - k))) 0 [2, 4, 6];
          dSumK = dSumK + n_choose_k 16 8 * e 8;
          dSumK = foldl (\<lambda>s k. s - n_choose_k 16 k * (e k + e (16 - k))) dSumK [3, 5, 7];
          dSumK = dSumK - n_choose_k 16 15 * e 15;
          dSumK = dSumK + n_choose_k 16 16 * e 16
      in 8 / 15 * (1 / 16) * dSumK)"

lemma n_choose_k_loop_correct:
  assumes "0 < i" and "nat (iK + 1 - i) \<le> fuel" and "i \<le> iK + 1" and "0 \<le> a"
    and "r = real ((nat a + nat (i - 1)) choose nat (i - 1))"
  shows "n_choose_k_loop (of_int a) iK fuel i r = real ((nat a + nat iK) choose nat iK)"
  using assms
proof (induction fuel arbitrary: i r)
  case 0
  then have "i - 1 = iK" by simp
  with 0 show ?case by simp
next
  case (Suc fuel)
  show ?case
  proof (cases "i \<le> iK")
    case True
    obtain j where j: "nat (i - 1) = j" "i = int j + 1" using Suc.prems(1) by (metis add.commute diff_add_cancel
      int_one_le_iff_zero_less le_add_diff_inverse nat_0_le zle_diff1_eq diff_ge_0_iff_ge)
    have "Suc j * ((nat a + Suc j) choose Suc j) = (nat a + Suc j) * ((nat a + j) choose j)"
      using Suc_times_binomial_eq [of "nat a + j" j] by simp
    then have "real (Suc j) * real ((nat a + Suc j) choose Suc j) = real (nat a + Suc j) * real ((nat a + j) choose j)"
      by (metis of_nat_mult)
    then have "r * (of_int a + of_int i) / of_int i = real ((nat a + nat i) choose nat i)"
      using Suc.prems(4,5) j by (simp add: nat_add_distrib field_simps)
    moreover have "nat (iK + 1 - (i + 1)) \<le> fuel" using Suc.prems(2) by linarith
    ultimately show ?thesis
      using Suc.IH [of "i + 1" "r * (of_int a + of_int i) / of_int i"] Suc.prems True by simp
  next
    case False
    then have "i - 1 = iK" using Suc.prems(3) by simp
    with Suc.prems False show ?thesis by simp
  qed
qed

lemma n_choose_k_binomial: "n_choose_k (int n) (int k) = real (n choose k)"
proof (cases "n < k")
  case True
  then show ?thesis by (simp add: n_choose_k_def binomial_eq_0)
next
  case False
  define iK where "iK = (if int n < int k * 2 then int n - int k else int k)"
  define m where "m = nat iK"
  have m: "iK = int m" "m \<le> n" "n choose k = n choose m"
    using False by (auto simp: m_def iK_def binomial_symmetric [of k n] nat_diff_distrib)
  have "n_choose_k_loop (of_int (int n - iK)) iK (nat iK) 2 (if iK < 1 then 1 else of_int (int n - iK) + 1)
      = real ((nat (int n - iK) + nat iK) choose nat iK)"
  proof (cases "m = 0")
    case True
    then show ?thesis by (simp add: m)
  next
    case False
    then show ?thesis using m by (intro n_choose_k_loop_correct) (auto simp: nat_diff_distrib of_nat_diff)
  qed
  also have "\<dots> = real (n choose k)" using m by (simp add: nat_diff_distrib)
  finally show ?thesis using False unfolding n_choose_k_def Let_def iK_def [symmetric] by simp
qed

text \<open>
  C35: The optimised bit error rate is the sum of the IEEE 802.15.4 formula, written out in a comment of
  the code; without any signal it is one half.
\<close>

theorem calculateBER_reference:
  "calculateBER snir bandwidth bitrate =
     8 / 15 * (1 / 16) * (\<Sum>k = 2..16. (-1) ^ k * real (16 choose k) * exp (20 * snir * bandwidth / bitrate * (1 / real k - 1)))
   \<and> calculateBER 0 bandwidth bitrate = 1 / 2"
proof -
  have c: "n_choose_k 16 (int k) = real (16 choose k)" for k using n_choose_k_binomial [of 16 k] by simp
  define C where "C k = real (16 choose k)" for k
  have cs: "n_choose_k 16 2 = C 2" "n_choose_k 16 3 = C 3" "n_choose_k 16 4 = C 4" "n_choose_k 16 5 = C 5"
    "n_choose_k 16 6 = C 6" "n_choose_k 16 7 = C 7" "n_choose_k 16 8 = C 8" "n_choose_k 16 15 = C 15" "n_choose_k 16 16 = C 16"
    using c [of 2] c [of 3] c [of 4] c [of 5] c [of 6] c [of 7] c [of 8] c [of 15] c [of 16] by (simp_all only: C_def of_nat_numeral)
  have sym: "C 14 = C 2" "C 13 = C 3" "C 12 = C 4" "C 11 = C 5" "C 10 = C 6" "C 9 = C 7"
    using binomial_symmetric [of 2 16] binomial_symmetric [of 3 16] binomial_symmetric [of 4 16]
      binomial_symmetric [of 5 16] binomial_symmetric [of 6 16] binomial_symmetric [of 7 16] by (simp_all add: C_def)
  define E where "E d k = exp (d * (1 / real k - 1))" for d k
  have ber: "calculateBER s bandwidth bitrate = 8 / 15 * (1 / 16) *
      (C 2 * (E d 2 + E d 14) + C 4 * (E d 4 + E d 12) + C 6 * (E d 6 + E d 10) + C 8 * E d 8 - C 3 * (E d 3 + E d 13)
       - C 5 * (E d 5 + E d 11) - C 7 * (E d 7 + E d 9) - C 15 * E d 15 + C 16 * E d 16)"
    if "d = 20 * s * bandwidth / bitrate" for s d
    by (simp add: calculateBER_def cs E_def that)
  have r: "{2..16::nat} = {2,3,4,5,6,7,8,9,10,11,12,13,14,15,16}" by (intro set_eqI) (simp, presburger)
  have ref: "calculateBER s bandwidth bitrate = 8 / 15 * (1 / 16) *
      (\<Sum>k = 2..16. (-1) ^ k * C k * E (20 * s * bandwidth / bitrate) k)" for s
    unfolding ber [OF refl] r by (simp add: sym algebra_simps)
  have "(\<Sum>k\<le>16. (-1) ^ k * C k) = 0" using choose_alternating_sum [of 16, where ?'a = real] by (simp add: C_def)
  moreover have "{..16::nat} = {0, 1} \<union> {2..16}" by auto
  ultimately have "(\<Sum>k = 2..16. (-1) ^ k * C k) = C 1 - C 0"
    by (simp add: sum.union_disjoint)
  then have "calculateBER 0 bandwidth bitrate = 1 / 2" by (simp add: ref E_def C_def)
  then show ?thesis using ref [of snir] by (simp add: C_def E_def)
qed

end
