(* ===== verification/LoRaMediumCache.thy ===== *)
theory LoRaMediumCache
  imports LoRaPathLoss
begin

text \<open>
  \<open>LoRaPhy/LoRaMediumCache.cc\<close>: the limits of the radio medium (largest power, smallest sensitivity, ranges,
  and so on), recomputed whenever a radio comes or goes. A C++ double that may be NaN is a \<open>real option\<close>, with
  \<open>None\<close> for NaN. What a radio's antenna, transmitter and receiver report is an argument, and so is the path loss
  model's \<open>computeRange\<close>.
\<close>

subsection \<open>Arithmetic with NaN\<close>

definition minIgnoreNaN :: "real option \<Rightarrow> real option \<Rightarrow> real option" where
  "minIgnoreNaN a b =
     (case a of None \<Rightarrow> b
      | Some x \<Rightarrow> (case b of None \<Rightarrow> a | Some y \<Rightarrow> if x < y then a else b))"

definition maxIgnoreNaN :: "real option \<Rightarrow> real option \<Rightarrow> real option" where
  "maxIgnoreNaN a b =
     (case a of None \<Rightarrow> b
      | Some x \<Rightarrow> (case b of None \<Rightarrow> a | Some y \<Rightarrow> if y < x then a else b))"

text \<open>A comparison with a NaN is false.\<close>

definition nan_less :: "real option \<Rightarrow> real option \<Rightarrow> bool" where
  "nan_less a b = (case (a, b) of (Some x, Some y) \<Rightarrow> x < y | _ \<Rightarrow> False)"

type_synonym nan_coord = "real option \<times> real option \<times> real option"

fun coord_min :: "nan_coord \<Rightarrow> nan_coord \<Rightarrow> nan_coord" where
  "coord_min (x, y, z) (x', y', z') =
     (if nan_less x x' then x else x', if nan_less y y' then y else y', if nan_less z z' then z else z')"

fun coord_max :: "nan_coord \<Rightarrow> nan_coord \<Rightarrow> nan_coord" where
  "coord_max (x, y, z) (x', y', z') =
     (if nan_less x' x then x else x', if nan_less y' y then y else y', if nan_less z' z then z else z')"

subsection \<open>The limits\<close>

text \<open>What a radio reports through its antenna's mobility, its antenna, its transmitter and its receiver.\<close>

record radio_report =
  rp_constraintAreaMin :: nan_coord
  rp_constraintAreaMax :: nan_coord
  rp_maxSpeed :: "real option"
  rp_maxPower :: "real option"
  rp_minInterferencePower :: "real option"
  rp_minReceptionPower :: "real option"
  rp_maxGain :: "real option"
  rp_maxInterferenceRange :: "real option"

text \<open>The module parameters, and the models of the medium that the cache asks.\<close>

record limit_params =
  lp_maxSpeed :: "real option"
  lp_maxTransmissionPower :: "real option"
  lp_minInterferencePower :: "real option"
  lp_minReceptionPower :: "real option"
  lp_maxAntennaGain :: "real option"
  lp_carrierFrequency :: "real option"
  lp_minInterferenceTime :: simtime
  lp_maxTransmissionDuration :: simtime
  lp_maxInterferenceRange :: "real option"
  lp_pathLossType :: string
  lp_propagationSpeed :: real
  lp_computeRange :: "real \<Rightarrow> real option \<Rightarrow> real option \<Rightarrow> real option"
  lp_gamma :: real
  lp_d0 :: real

record limit_cache =
  lc_radios :: "nat list"
  minConstraintArea :: nan_coord
  maxConstraintArea :: nan_coord
  lc_maxSpeed :: "real option"
  maxTransmissionPower :: "real option"
  minInterferencePower :: "real option"
  minReceptionPower :: "real option"
  maxAntennaGain :: "real option"
  minInterferenceTime :: "simtime option"
  maxTransmissionDuration :: "simtime option"
  maxCommunicationRange :: "real option"
  maxInterferenceRange :: "real option"

definition new_limit_cache :: limit_cache where
  "new_limit_cache = \<lparr>lc_radios = [], minConstraintArea = (None, None, None), maxConstraintArea = (None, None, None),
     lc_maxSpeed = None, maxTransmissionPower = None, minInterferencePower = None, minReceptionPower = None,
     maxAntennaGain = None, minInterferenceTime = None, maxTransmissionDuration = None, maxCommunicationRange = None,
     maxInterferenceRange = None\<rparr>"

text \<open>The unit classes convert \<open>mW(math::dBm2mW(par))\<close> to W where it is assigned.\<close>

definition computeMaxSpeed :: "limit_params \<Rightarrow> (nat \<Rightarrow> radio_report) \<Rightarrow> nat list \<Rightarrow> real option" where
  "computeMaxSpeed par rep radios = foldl (\<lambda>m r. maxIgnoreNaN m (rp_maxSpeed (rep r))) (lp_maxSpeed par) radios"

definition computeMaxTransmissionPower :: "limit_params \<Rightarrow> (nat \<Rightarrow> radio_report) \<Rightarrow> nat list \<Rightarrow> real option" where
  "computeMaxTransmissionPower par rep radios =
     foldl (\<lambda>m r. maxIgnoreNaN m (rp_maxPower (rep r))) (lp_maxTransmissionPower par) radios"

definition computeMinInterferencePower :: "limit_params \<Rightarrow> (nat \<Rightarrow> radio_report) \<Rightarrow> nat list \<Rightarrow> real option" where
  "computeMinInterferencePower par rep radios =
     foldl (\<lambda>m r. minIgnoreNaN m (rp_minInterferencePower (rep r)))
       (map_option (\<lambda>p. dBm2mW p / 1000) (lp_minInterferencePower par)) radios"

definition computeMinReceptionPower :: "limit_params \<Rightarrow> (nat \<Rightarrow> radio_report) \<Rightarrow> nat list \<Rightarrow> real option" where
  "computeMinReceptionPower par rep radios =
     foldl (\<lambda>m r. minIgnoreNaN m (rp_minReceptionPower (rep r)))
       (map_option (\<lambda>p. dBm2mW p / 1000) (lp_minReceptionPower par)) radios"

definition computeMaxAntennaGain :: "limit_params \<Rightarrow> (nat \<Rightarrow> radio_report) \<Rightarrow> nat list \<Rightarrow> real option" where
  "computeMaxAntennaGain par rep radios =
     foldl (\<lambda>m r. maxIgnoreNaN m (rp_maxGain (rep r))) (map_option dB2fraction (lp_maxAntennaGain par)) radios"

definition nan_divide :: "real option \<Rightarrow> real option \<Rightarrow> real option" where
  "nan_divide a b = (case (a, b) of (Some x, Some y) \<Rightarrow> Some (x / y) | _ \<Rightarrow> None)"

text \<open>The gain is the member, which \<open>updateLimits\<close> has set by then.\<close>

definition computeMaxRange :: "limit_params \<Rightarrow> real option \<Rightarrow> real option \<Rightarrow> real option \<Rightarrow> real option" where
  "computeMaxRange par gain maxPower minPower =
     (let loss = nan_divide (nan_divide (nan_divide minPower maxPower) gain) gain
      in lp_computeRange par (lp_propagationSpeed par) (lp_carrierFrequency par) loss)"

definition computeMaxInterferenceRange :: "limit_params \<Rightarrow> limit_cache \<Rightarrow> real option" where
  "computeMaxInterferenceRange par lc =
     maxIgnoreNaN (lp_maxInterferenceRange par)
       (computeMaxRange par (maxAntennaGain lc) (maxTransmissionPower lc) (minInterferencePower lc))"

definition computeMinConstraintArea :: "(nat \<Rightarrow> radio_report) \<Rightarrow> nat list \<Rightarrow> nan_coord" where
  "computeMinConstraintArea rep radios = foldl (\<lambda>m r. coord_min m (rp_constraintAreaMin (rep r))) (None, None, None) radios"

definition computeMaxConstreaintArea :: "(nat \<Rightarrow> radio_report) \<Rightarrow> nat list \<Rightarrow> nan_coord" where
  "computeMaxConstreaintArea rep radios = foldl (\<lambda>m r. coord_max m (rp_constraintAreaMax (rep r))) (None, None, None) radios"

text \<open>\<open>maxCommunicationRange\<close> is assigned its own value: the getter without argument returns the member.\<close>

definition updateLimits :: "limit_params \<Rightarrow> (nat \<Rightarrow> radio_report) \<Rightarrow> limit_cache \<Rightarrow> limit_cache" where
  "updateLimits par rep lc =
     (let lc = lc\<lparr>minConstraintArea := computeMinConstraintArea rep (lc_radios lc)\<rparr>;
          lc = lc\<lparr>maxConstraintArea := computeMaxConstreaintArea rep (lc_radios lc)\<rparr>;
          lc = lc\<lparr>lc_maxSpeed := computeMaxSpeed par rep (lc_radios lc)\<rparr>;
          lc = lc\<lparr>maxTransmissionPower := computeMaxTransmissionPower par rep (lc_radios lc)\<rparr>;
          lc = lc\<lparr>minInterferencePower := computeMinInterferencePower par rep (lc_radios lc)\<rparr>;
          lc = lc\<lparr>minReceptionPower := computeMinReceptionPower par rep (lc_radios lc)\<rparr>;
          lc = lc\<lparr>maxAntennaGain := computeMaxAntennaGain par rep (lc_radios lc)\<rparr>;
          lc = lc\<lparr>minInterferenceTime := Some (lp_minInterferenceTime par)\<rparr>;
          lc = lc\<lparr>maxTransmissionDuration := Some (lp_maxTransmissionDuration par)\<rparr>;
          lc = lc\<lparr>maxCommunicationRange := maxCommunicationRange lc\<rparr>
      in lc\<lparr>maxInterferenceRange := computeMaxInterferenceRange par lc\<rparr>)"

definition limit_addRadio :: "limit_params \<Rightarrow> (nat \<Rightarrow> radio_report) \<Rightarrow> nat \<Rightarrow> limit_cache \<Rightarrow> limit_cache" where
  "limit_addRadio par rep radio lc = updateLimits par rep (lc\<lparr>lc_radios := lc_radios lc @ [radio]\<rparr>)"

definition limit_removeRadio :: "limit_params \<Rightarrow> (nat \<Rightarrow> radio_report) \<Rightarrow> nat \<Rightarrow> limit_cache \<Rightarrow> limit_cache" where
  "limit_removeRadio par rep radio lc = updateLimits par rep (lc\<lparr>lc_radios := removeAll radio (lc_radios lc)\<rparr>)"

definition getMaxInterferenceRange :: "limit_params \<Rightarrow> radio_report \<Rightarrow> limit_cache \<Rightarrow> real option" where
  "getMaxInterferenceRange par radio lc =
     (case computeMaxRange par (maxAntennaGain lc) (rp_maxPower radio) (minInterferencePower lc) of
        Some d \<Rightarrow> Some d
      | None \<Rightarrow> rp_maxInterferenceRange radio)"

text \<open>With another path loss model than the LoRa shadowing one, control falls off the end of the function.\<close>

definition getMaxCommunicationRange :: "limit_params \<Rightarrow> limit_cache \<Rightarrow> real option result" where
  "getMaxCommunicationRange par lc =
     (if lp_pathLossType par = ''LoRaLogNormalShadowing''
      then Inr (map_option (LoRaLNS_computeRange (lp_gamma par, lp_d0 par)) (maxTransmissionPower lc))
      else Inl (UndefinedBehaviour ''no return value''))"

subsection \<open>What the limits are\<close>

text \<open>The largest and the smallest of the values that are numbers.\<close>

abbreviation numbers :: "real option list \<Rightarrow> real list" where
  "numbers xs \<equiv> List.map_filter id xs"

definition largest :: "real option list \<Rightarrow> real option" where
  "largest xs = (if numbers xs = [] then None else Some (Max (set (numbers xs))))"

definition smallest :: "real option list \<Rightarrow> real option" where
  "smallest xs = (if numbers xs = [] then None else Some (Min (set (numbers xs))))"

lemma numbers_Cons [simp]: "numbers (x # xs) = (case x of None \<Rightarrow> numbers xs | Some v \<Rightarrow> v # numbers xs)"
  by (simp add: map_filter_simps)

lemma numbers_Nil [simp]: "numbers [] = []"
  by (simp add: map_filter_simps)

lemma largest_single [simp]: "largest [a] = a" and smallest_single [simp]: "smallest [a] = a"
  by (cases a, simp_all add: largest_def smallest_def)+

lemma largest_join: "largest (maxIgnoreNaN a b # xs) = largest (a # b # xs)"
  by (cases a; cases b; cases "numbers xs = []") (auto simp: largest_def maxIgnoreNaN_def max_def)

lemma smallest_join: "smallest (minIgnoreNaN a b # xs) = smallest (a # b # xs)"
  by (cases a; cases b; cases "numbers xs = []") (auto simp: smallest_def minIgnoreNaN_def min_def)

lemma foldl_maxIgnoreNaN: "foldl (\<lambda>m r. maxIgnoreNaN m (f r)) a rs = largest (a # map f rs)"
  by (induction rs arbitrary: a) (simp_all add: largest_join)

lemma foldl_minIgnoreNaN: "foldl (\<lambda>m r. minIgnoreNaN m (f r)) a rs = smallest (a # map f rs)"
  by (induction rs arbitrary: a) (simp_all add: smallest_join)

lemmas limit_folds = computeMaxSpeed_def computeMaxTransmissionPower_def computeMinInterferencePower_def
  computeMinReceptionPower_def computeMaxAntennaGain_def foldl_maxIgnoreNaN foldl_minIgnoreNaN

lemma largest_upper: "Some x \<in> set xs \<Longrightarrow> largest xs = Some m \<Longrightarrow> x \<le> m"
proof -
  assume a: "Some x \<in> set xs" "largest xs = Some m"
  have "x \<in> set (numbers xs)" using a(1) by (induction xs) (auto split: option.splits)
  with a(2) show ?thesis by (auto simp: largest_def split: if_splits)
qed

lemma largest_some: "Some x \<in> set xs \<Longrightarrow> \<exists>m. largest xs = Some m"
proof -
  assume a: "Some x \<in> set xs"
  have "x \<in> set (numbers xs)" using a by (induction xs) (auto split: option.splits)
  then have "numbers xs \<noteq> []" by auto
  then show ?thesis by (simp add: largest_def)
qed

datatype limit_event = LimitAdd nat | LimitRemove nat

fun limit_step :: "limit_params \<Rightarrow> (nat \<Rightarrow> radio_report) \<times> limit_event \<Rightarrow> limit_cache \<Rightarrow> limit_cache" where
  "limit_step par (rep, LimitAdd r) lc = limit_addRadio par rep r lc"
| "limit_step par (rep, LimitRemove r) lc = limit_removeRadio par rep r lc"

lemma updateLimits_fields:
  "lc_radios (updateLimits par rep lc) = lc_radios lc"
  "lc_maxSpeed (updateLimits par rep lc) = largest (lp_maxSpeed par # map (\<lambda>r. rp_maxSpeed (rep r)) (lc_radios lc))"
  "maxTransmissionPower (updateLimits par rep lc)
    = largest (lp_maxTransmissionPower par # map (\<lambda>r. rp_maxPower (rep r)) (lc_radios lc))"
  "minInterferencePower (updateLimits par rep lc) = smallest (map_option (\<lambda>p. dBm2mW p / 1000) (lp_minInterferencePower par)
      # map (\<lambda>r. rp_minInterferencePower (rep r)) (lc_radios lc))"
  "minReceptionPower (updateLimits par rep lc) = smallest (map_option (\<lambda>p. dBm2mW p / 1000) (lp_minReceptionPower par)
      # map (\<lambda>r. rp_minReceptionPower (rep r)) (lc_radios lc))"
  "maxAntennaGain (updateLimits par rep lc)
    = largest (map_option dB2fraction (lp_maxAntennaGain par) # map (\<lambda>r. rp_maxGain (rep r)) (lc_radios lc))"
  "minInterferenceTime (updateLimits par rep lc) = Some (lp_minInterferenceTime par)"
  "maxTransmissionDuration (updateLimits par rep lc) = Some (lp_maxTransmissionDuration par)"
  "maxCommunicationRange (updateLimits par rep lc) = maxCommunicationRange lc"
  by (simp_all add: updateLimits_def Let_def limit_folds)

lemma limit_step_updates:
  obtains lc' where "limit_step par (rep, ev) lc = updateLimits par rep lc'"
    and "maxCommunicationRange lc' = maxCommunicationRange lc"
  by (cases ev) (auto simp: limit_addRadio_def limit_removeRadio_def)

lemma communication_range_unset: "maxCommunicationRange (fold (limit_step par) evs new_limit_cache) = None"
proof -
  have "maxCommunicationRange (fold (limit_step par) evs lc) = maxCommunicationRange lc" for lc
  proof (induction evs arbitrary: lc)
    case Nil
    show ?case by simp
  next
    case (Cons e evs)
    obtain rep ev where e: "e = (rep, ev)" by force
    show ?case by (rule limit_step_updates [of par rep ev lc]) (simp add: Cons.IH e updateLimits_fields)
  qed
  then show ?thesis by (simp add: new_limit_cache_def)
qed

subsection \<open>The communication range\<close>

text \<open>
  The link budget of a transmission: its power with the antenna gains and the shadowing draw, in dBm. A frame arrives beyond the
  range with less than -137 dBm, the best sensitivity, whenever the budget is at most the power the range was computed for.
\<close>

definition link_budget :: "real \<Rightarrow> real \<Rightarrow> real \<Rightarrow> real \<Rightarrow> real" where
  "link_budget p gt gr shadow = mW2dBm (p * 1000) + 10 * log 10 (gt * gr) - shadow"

lemma LoRaLNS_received:
  assumes "0 < p" and "0 < gt" and "0 < gr"
  shows "computeReceptionPower p gt gr (LoRaLNS_computePathLoss (gamma, d0, shadow) d) None
    = min p (dBm2mW (link_budget p gt gr shadow - (127.41 + 10 * gamma * log 10 (d / d0))) / 1000)"
proof -
  let ?PL = "127.41 + 10 * gamma * log 10 (d / d0) :: real"
  have g: "gt * gr = dB2fraction (10 * log 10 (gt * gr))" using assms(2,3) by (simp add: dB2fraction_def powr_log_cancel)
  have "p * 1000 * (gt * gr * dB2fraction (- (?PL + shadow)))
      = dBm2mW (mW2dBm (p * 1000)) * dB2fraction (10 * log 10 (gt * gr)) * dB2fraction (- (?PL + shadow))"
    using assms(1) g by (simp add: dBm2mW_mW2dBm)
  also have "\<dots> = dBm2mW (mW2dBm (p * 1000) + 10 * log 10 (gt * gr) + - (?PL + shadow))" by (simp only: dBm2mW_dB2fraction)
  also have "\<dots> = dBm2mW (link_budget p gt gr shadow - ?PL)" by (simp add: link_budget_def algebra_simps)
  finally have e: "p * (gt * gr * dB2fraction (- (?PL + shadow))) = dBm2mW (link_budget p gt gr shadow - ?PL) / 1000" by simp
  have "p * min 1 x = min p (p * x)" for x using assms(1) by (simp add: min_mult_distrib_left)
  with e show ?thesis by (simp add: computeReceptionPower_def LoRaLNS_computePathLoss_def Let_def)
qed

lemma LoRaLNS_range_iff:
  assumes "0 < gamma" and "0 < d0" and "0 < d"
  shows "LoRaLNS_computeRange (gamma, d0) P < d \<longleftrightarrow> c_round (mW2dBm (P * 1000)) + 137 < 127.41 + 10 * gamma * log 10 (d / d0)"
proof -
  let ?R = "c_round (mW2dBm (P * 1000))"
  have "LoRaLNS_computeRange (gamma, d0) P < d \<longleftrightarrow> 10 powr ((?R - 127.41 + 137) / (10 * gamma)) < d / d0"
    using assms(2) by (simp add: LoRaLNS_computeRange_def Let_def mW2dBm_def field_simps)
  also have "\<dots> \<longleftrightarrow> (?R - 127.41 + 137) / (10 * gamma) < log 10 (d / d0)" using assms by (subst less_log_iff) simp_all
  also have "\<dots> \<longleftrightarrow> ?R + 137 < 127.41 + 10 * gamma * log 10 (d / d0)" using assms(1) by (simp add: field_simps)
  finally show ?thesis .
qed

text \<open>Within the budget nothing arrives beyond the range with -137 dBm; above it something does.\<close>

lemma LoRaLNS_beyond_range:
  fixes shadow :: real
  assumes "0 < gamma" and "0 < d0" and "0 < p" and "0 < gt" and "0 < gr"
  defines "received \<equiv> \<lambda>d. computeReceptionPower p gt gr (LoRaLNS_computePathLoss (gamma, d0, shadow) d) None"
  shows "link_budget p gt gr shadow \<le> c_round (mW2dBm (P * 1000)) \<Longrightarrow> LoRaLNS_computeRange (gamma, d0) P < d \<Longrightarrow> received d < dBm2mW (-137) / 1000"
    and "c_round (mW2dBm (P * 1000)) < link_budget p gt gr shadow \<Longrightarrow> dBm2mW (-137) / 1000 \<le> p \<Longrightarrow>
      \<exists>d > LoRaLNS_computeRange (gamma, d0) P. dBm2mW (-137) / 1000 \<le> received d"
proof -
  let ?B = "link_budget p gt gr shadow" and ?R = "c_round (mW2dBm (P * 1000))"
  have rec: "received d = min p (dBm2mW (?B - (127.41 + 10 * gamma * log 10 (d / d0))) / 1000)" for d
    unfolding received_def by (rule LoRaLNS_received [OF assms(3-5)])
  show "received d < dBm2mW (-137) / 1000" if b: "?B \<le> ?R" and far: "LoRaLNS_computeRange (gamma, d0) P < d"
  proof -
    have "0 < LoRaLNS_computeRange (gamma, d0) P" using assms(2) by (simp add: LoRaLNS_computeRange_def Let_def)
    with far have "0 < d" by simp
    with LoRaLNS_range_iff [OF assms(1,2) this, of P] far b have "?B - (127.41 + 10 * gamma * log 10 (d / d0)) < -137" by linarith
    then have "dBm2mW (?B - (127.41 + 10 * gamma * log 10 (d / d0))) < dBm2mW (-137)" by (rule dBm2mW_less_iff [THEN iffD2])
    moreover have "received d \<le> dBm2mW (?B - (127.41 + 10 * gamma * log 10 (d / d0))) / 1000" unfolding rec by (rule min.cobounded2)
    ultimately show ?thesis by linarith
  qed
  show "\<exists>d > LoRaLNS_computeRange (gamma, d0) P. dBm2mW (-137) / 1000 \<le> received d"
    if b: "?R < ?B" and p: "dBm2mW (-137) / 1000 \<le> p"
  proof -
    define d where "d = d0 * 10 powr ((?B + 137 - 127.41) / (10 * gamma))"
    have d: "0 < d" "127.41 + 10 * gamma * log 10 (d / d0) = ?B + 137" using assms(1,2) by (simp_all add: d_def)
    with LoRaLNS_range_iff [OF assms(1,2) d(1), of P] b have "LoRaLNS_computeRange (gamma, d0) P < d" by simp
    moreover have "dBm2mW (-137) / 1000 \<le> received d" unfolding rec d(2) using p by simp
    ultimately show ?thesis by blast
  qed
qed

text \<open>The budget is within the range of the largest declared power when nothing adds to the power.\<close>

lemma within_budget:
  assumes "0 < p" and "p \<le> P" and "0 < gt" and "0 < gr" and "gt * gr \<le> 1" and "0 \<le> shadow" and "mW2dBm (P * 1000) \<le> R"
  shows "link_budget p gt gr shadow \<le> R"
proof -
  have "log 10 (gt * gr) \<le> log 10 1" using assms(3-5) by (subst log_le_cancel_iff) simp_all
  moreover have "mW2dBm (p * 1000) \<le> mW2dBm (P * 1000)" using assms(1,2) by (simp add: mW2dBm_def)
  ultimately show ?thesis using assms(6,7) by (simp add: link_budget_def)
qed


text \<open>A network of one radio of 14 dBm, with the default parameters.\<close>

definition sample_limit_params :: limit_params where
  "sample_limit_params = \<lparr>lp_maxSpeed = None, lp_maxTransmissionPower = Some (dBm2mW 14 / 1000), lp_minInterferencePower = None,
     lp_minReceptionPower = None, lp_maxAntennaGain = Some 0, lp_carrierFrequency = None, lp_minInterferenceTime = 0,
     lp_maxTransmissionDuration = 1 / 100, lp_maxInterferenceRange = None, lp_pathLossType = ''LoRaLogNormalShadowing'',
     lp_propagationSpeed = 299792458, lp_computeRange = (\<lambda>_ _ _. None), lp_gamma = 2, lp_d0 = 40\<rparr>"

definition sample_report :: radio_report where
  "sample_report = \<lparr>rp_constraintAreaMin = (None, None, None), rp_constraintAreaMax = (None, None, None), rp_maxSpeed = Some 0,
     rp_maxPower = Some (dBm2mW 14 / 1000), rp_minInterferencePower = None, rp_minReceptionPower = None, rp_maxGain = Some 1,
     rp_maxInterferenceRange = None\<rparr>"

definition sample_limits :: limit_cache where
  "sample_limits = fold (limit_step sample_limit_params) ([] @ [(\<lambda>_. sample_report, LimitAdd 1)]) new_limit_cache"

lemma sample_limits_fields:
  "lc_radios sample_limits = [1]" "maxTransmissionPower sample_limits = Some (dBm2mW 14 / 1000)"
  by (simp_all add: sample_limits_def limit_addRadio_def updateLimits_fields new_limit_cache_def sample_limit_params_def
      sample_report_def largest_def)


end
