(* ===== verification/LoRaMedium.thy ===== *)
theory LoRaMedium
  imports CommunicationCache LoRaMediumCache
begin

text \<open>
  The radio medium, \<open>LoRaPhy/LoRaMedium.cc\<close>: it keeps the radios and the transmissions that still matter,
  sends a frame to the radios that may hear it, and answers what a radio asks about a reception. It computes
  each intermediate result once and keeps it in the communication cache (theory \<open>CommunicationCache\<close>), whose
  operations are the argument \<open>ops\<close>.

  The radios' receivers are part of the state, since their decisions count collisions. What the models around the
  medium answer is a \<open>med_env\<close>: the propagation, the settings of the applications, the modes and positions of the radios, the
  background noise model, and the gains and losses of the \<open>k\<close>-th reception computed (a shadowing model draws a
  random number each time). A frame sent to a radio is an entry of \<open>framesSent\<close>.
\<close>

datatype range_filter = RANGE_FILTER_ANYWHERE | RANGE_FILTER_INTERFERENCE_RANGE | RANGE_FILTER_COMMUNICATION_RANGE

record frame_sent =
  fs_transmitter :: nat
  fs_receiver :: nat
  fs_transmission :: nat
  fs_delay :: simtime
  fs_duration :: simtime

record med_env =
  me_computeArrival :: "med_transmission \<Rightarrow> nat \<Rightarrow> arrival"
  me_settings :: "nat \<Rightarrow> lora_settings"
  me_macAddress :: "nat \<Rightarrow> devaddr"
  me_position :: "nat \<Rightarrow> coord"
  me_radioMode :: "nat \<Rightarrow> radio_mode"
  me_txGateway :: "nat \<Rightarrow> bool"
  me_backgroundNoise :: "(med_listening \<Rightarrow> scalar_noise) option"
  me_gains :: "nat \<Rightarrow> med_transmission \<Rightarrow> nat \<Rightarrow> arrival \<Rightarrow> real \<times> real \<times> real \<times> real option"
  me_maxTime :: simtime
  me_limits :: limit_params
  me_reports :: "nat \<Rightarrow> radio_report"
  me_cachePositions :: "nat \<Rightarrow> coord"
  me_initialized :: bool

record 'c medium = sim +
  med_radios :: "nat option list"
  transmissions :: "med_transmission list"
  communicationCache :: 'c
  limits :: limit_cache
  neighborCache :: "neighbor_cache option"
  removeTimer :: "simtime option"
  rangeFilter :: range_filter
  radioModeFilter :: bool
  listeningFilter :: bool
  macAddressFilter :: bool
  nextTransmissionId :: nat
  receivers :: "nat \<Rightarrow> receiver"
  framesSent :: "frame_sent list"
  transmissionCount :: nat
  radioFrameSendCount :: nat
  receptionComputationCount :: nat
  interferenceComputationCount :: nat
  receptionDecisionComputationCount :: nat
  receptionResultComputationCount :: nat
  listeningDecisionComputationCount :: nat
  cacheReceptionGetCount :: nat
  cacheReceptionHitCount :: nat
  cacheInterferenceGetCount :: nat
  cacheInterferenceHitCount :: nat
  cacheNoiseGetCount :: nat
  cacheNoiseHitCount :: nat
  cacheSNIRGetCount :: nat
  cacheSNIRHitCount :: nat
  cacheDecisionGetCount :: nat
  cacheDecisionHitCount :: nat
  cacheResultGetCount :: nat
  cacheResultHitCount :: nat

text \<open>The \<open>rangeFilter\<close> parameter.\<close>

definition parse_rangeFilter :: "string \<Rightarrow> range_filter result" where
  "parse_rangeFilter s =
     (if s = '''' then Inr RANGE_FILTER_ANYWHERE
      else if s = ''interferenceRange'' then Inr RANGE_FILTER_INTERFERENCE_RANGE
      else if s = ''communicationRange'' then Inr RANGE_FILTER_COMMUNICATION_RANGE
      else Inl (RuntimeError ''Unknown range filter''))"

subsection \<open>Access to the cache\<close>

definition with_cache :: "('c \<Rightarrow> ('a \<times> 'c) result) \<Rightarrow> 'c medium \<Rightarrow> ('a \<times> 'c medium) result" where
  "with_cache f m = andThen (f (communicationCache m)) (\<lambda>(a, c). Inr (a, m\<lparr>communicationCache := c\<rparr>))"

definition set_cache :: "('c \<Rightarrow> 'c result) \<Rightarrow> 'c medium \<Rightarrow> 'c medium result" where
  "set_cache f m = andThen (f (communicationCache m)) (\<lambda>c. Inr (m\<lparr>communicationCache := c\<rparr>))"

definition getArrival :: "'c cache_ops \<Rightarrow> nat \<Rightarrow> med_transmission \<Rightarrow> 'c medium \<Rightarrow> (arrival option \<times> 'c medium) result" where
  "getArrival ops r tx = with_cache (\<lambda>c. Inr (getCachedArrival ops r (mt_id tx) c))"

definition getListening :: "'c cache_ops \<Rightarrow> nat \<Rightarrow> med_transmission \<Rightarrow> 'c medium \<Rightarrow> (med_listening option \<times> 'c medium) result" where
  "getListening ops r tx = with_cache (\<lambda>c. Inr (getCachedListening ops r (mt_id tx) c))"

definition deref :: "'a option \<Rightarrow> 'a result" where
  "deref x = (case x of None \<Rightarrow> Inl (UndefinedBehaviour ''null pointer'') | Some a \<Rightarrow> Inr a)"

subsection \<open>Ranges and interference\<close>

definition coord_distance :: "coord \<Rightarrow> coord \<Rightarrow> real" where
  "coord_distance a b = sqrt (sqrdist a b)"

definition isInCommunicationRange :: "med_transmission \<Rightarrow> coord \<Rightarrow> coord \<Rightarrow> 'c medium \<Rightarrow> bool" where
  "isInCommunicationRange tx startPosition endPosition m =
     (case maxCommunicationRange (limits m) of
        None \<Rightarrow> True
      | Some R \<Rightarrow> coord_distance (mt_startPosition tx) startPosition < R \<and> coord_distance (mt_endPosition tx) endPosition < R)"

definition isInInterferenceRange :: "med_transmission \<Rightarrow> coord \<Rightarrow> coord \<Rightarrow> 'c medium \<Rightarrow> bool" where
  "isInInterferenceRange tx startPosition endPosition m =
     (case maxInterferenceRange (limits m) of
        None \<Rightarrow> True
      | Some R \<Rightarrow> coord_distance (mt_startPosition tx) startPosition < R \<and> coord_distance (mt_endPosition tx) endPosition < R)"

definition isInterferingWithListening ::
  "'c cache_ops \<Rightarrow> med_listening \<Rightarrow> med_transmission \<Rightarrow> 'c medium \<Rightarrow> (bool \<times> 'c medium) result" where
  "isInterferingWithListening ops l tx m =
     andThen (getArrival ops (ml_receiver l) tx m)
       (\<lambda>(arrival, m).
          if mt_transmitter tx = ml_receiver l then Inr (False, m)
          else andThen (deref (minInterferenceTime (limits m)))
                 (\<lambda>t. andThen (deref arrival)
                    (\<lambda>a. Inr (ls_startTime (ml_band l) + t \<le> ar_endTime a \<and> ar_startTime a \<le> ls_endTime (ml_band l) - t
                             \<and> isInInterferenceRange tx (ml_startPosition l) (ml_endPosition l) m, m))))"

definition isInterferingWithReception ::
  "'c cache_ops \<Rightarrow> med_reception \<Rightarrow> med_transmission \<Rightarrow> 'c medium \<Rightarrow> (bool \<times> 'c medium) result" where
  "isInterferingWithReception ops x tx m =
     andThen (getArrival ops (mr_receiver x) tx m)
       (\<lambda>(arrival, m).
          if mt_transmitter tx = mr_receiver x then Inr (False, m)
          else andThen (deref (minInterferenceTime (limits m)))
                 (\<lambda>t. andThen (deref arrival)
                    (\<lambda>a. Inr (rx_startTime (mr_signal x) + t < ar_endTime a \<and> ar_startTime a < rx_endTime (mr_signal x) - t
                             \<and> isInInterferenceRange tx (mr_startPosition x) (mr_endPosition x) m, m))))"

subsection \<open>Computing and caching\<close>

definition med_computeReception ::
  "'c cache_ops \<Rightarrow> med_env \<Rightarrow> nat \<Rightarrow> med_transmission \<Rightarrow> 'c medium \<Rightarrow> (med_reception \<times> 'c medium) result" where
  "med_computeReception ops env r tx m =
     (let k = receptionComputationCount m; m = m\<lparr>receptionComputationCount := k + 1\<rparr>
      in andThen (getArrival ops r tx m)
           (\<lambda>(arrival, m). andThen (deref arrival)
              (\<lambda>a. let (gt, gr, loss, obstacle) = me_gains env k tx r a;
                       power = computeReceptionPower (tr_power (mt_signal tx)) gt gr loss obstacle
                   in Inr (\<lparr>mr_receiver = r, mr_transmission = tx, mr_startPosition = ar_startPosition a, mr_endPosition = ar_endPosition a,
                            mr_signal = computeReception (mt_signal tx) (ar_startTime a) (ar_endTime a) (ar_startTime a) power\<rparr>, m))))"

text \<open>
  The getters share one shape: count the query, look in the cache, and on a miss compute the result and
  store it. The two functions count a query and a hit.
\<close>

definition memo ::
  "('c medium \<Rightarrow> 'c medium) \<Rightarrow> ('c medium \<Rightarrow> 'c medium) \<Rightarrow> ('c \<Rightarrow> ('a option \<times> 'c) result) \<Rightarrow>
   ('c medium \<Rightarrow> ('a \<times> 'c medium) result) \<Rightarrow> ('a \<Rightarrow> 'c \<Rightarrow> 'c result) \<Rightarrow> 'c medium \<Rightarrow> ('a \<times> 'c medium) result" where
  "memo countGet countHit lookup compute store m =
     andThen (with_cache lookup (countGet m))
       (\<lambda>(cached, m).
          case cached of
            Some x \<Rightarrow> Inr (x, countHit m)
          | None \<Rightarrow> andThen (compute m) (\<lambda>(x, m). andThen (set_cache (store x) m) (\<lambda>m. Inr (x, m))))"

definition getReception ::
  "'c cache_ops \<Rightarrow> med_env \<Rightarrow> nat \<Rightarrow> med_transmission \<Rightarrow> 'c medium \<Rightarrow> (med_reception \<times> 'c medium) result" where
  "getReception ops env r tx =
     memo (\<lambda>m. m\<lparr>cacheReceptionGetCount := cacheReceptionGetCount m + 1\<rparr>) (\<lambda>m. m\<lparr>cacheReceptionHitCount := cacheReceptionHitCount m + 1\<rparr>)
       (\<lambda>c. Inr (getCachedReception ops r (mt_id tx) c))
       (med_computeReception ops env r tx)
       (setCachedReception ops r (mt_id tx))"

text \<open>The loop over the transmissions that the cache reports, with the test that selects among them.\<close>

fun receptions_loop ::
  "(med_transmission \<Rightarrow> 'c medium \<Rightarrow> (bool \<times> 'c medium) result) \<Rightarrow>
   (med_transmission \<Rightarrow> 'c medium \<Rightarrow> (med_reception \<times> 'c medium) result) \<Rightarrow>
   med_transmission list \<Rightarrow> 'c medium \<Rightarrow> (med_reception list \<times> 'c medium) result" where
  "receptions_loop test get [] m = Inr ([], m)"
| "receptions_loop test get (tx # txs) m =
     andThen (test tx m)
       (\<lambda>(b, m). if b
                 then andThen (get tx m) (\<lambda>(x, m). andThen (receptions_loop test get txs m) (\<lambda>(xs, m). Inr (x # xs, m)))
                 else receptions_loop test get txs m)"

definition interferingWithListening ::
  "'c cache_ops \<Rightarrow> med_env \<Rightarrow> med_listening \<Rightarrow> 'c medium \<Rightarrow> (med_reception list \<times> 'c medium) result" where
  "interferingWithListening ops env l m =
     andThen (with_cache (computeInterferingTransmissions ops (ml_receiver l) (ls_startTime (ml_band l)) (ls_endTime (ml_band l))) m)
       (\<lambda>(txs, m). receptions_loop (isInterferingWithListening ops l) (getReception ops env (ml_receiver l)) txs m)"

definition interferingWithReception ::
  "'c cache_ops \<Rightarrow> med_env \<Rightarrow> med_reception \<Rightarrow> 'c medium \<Rightarrow> (med_reception list \<times> 'c medium) result" where
  "interferingWithReception ops env x m =
     andThen (with_cache (computeInterferingTransmissions ops (mr_receiver x) (rx_startTime (mr_signal x)) (rx_endTime (mr_signal x))) m)
       (\<lambda>(txs, m). receptions_loop
          (\<lambda>tx m. if mr_transmission x \<noteq> tx then isInterferingWithReception ops x tx m else Inr (False, m))
          (getReception ops env (mr_receiver x)) txs m)"

definition background_noise :: "med_env \<Rightarrow> med_listening \<Rightarrow> scalar_noise option" where
  "background_noise env l = map_option (\<lambda>f. f l) (me_backgroundNoise env)"

definition computeInterference_listening ::
  "'c cache_ops \<Rightarrow> med_env \<Rightarrow> med_listening \<Rightarrow> 'c medium \<Rightarrow> (interference \<times> 'c medium) result" where
  "computeInterference_listening ops env l m =
     (let m = m\<lparr>interferenceComputationCount := interferenceComputationCount m + 1\<rparr>
      in andThen (interferingWithListening ops env l m)
           (\<lambda>(xs, m). Inr (\<lparr>if_backgroundNoise = background_noise env l, if_receptions = xs\<rparr>, m)))"

definition computeInterference ::
  "'c cache_ops \<Rightarrow> med_env \<Rightarrow> nat \<Rightarrow> med_listening \<Rightarrow> med_transmission \<Rightarrow> 'c medium \<Rightarrow> (interference \<times> 'c medium) result" where
  "computeInterference ops env r l tx m =
     (let m = m\<lparr>interferenceComputationCount := interferenceComputationCount m + 1\<rparr>
      in andThen (getReception ops env r tx m)
           (\<lambda>(x, m). andThen (interferingWithReception ops env x m)
              (\<lambda>(xs, m). Inr (\<lparr>if_backgroundNoise = background_noise env l, if_receptions = xs\<rparr>, m))))"

definition getInterference ::
  "'c cache_ops \<Rightarrow> med_env \<Rightarrow> nat \<Rightarrow> med_listening \<Rightarrow> med_transmission \<Rightarrow> 'c medium \<Rightarrow> (interference \<times> 'c medium) result" where
  "getInterference ops env r l tx =
     memo (\<lambda>m. m\<lparr>cacheInterferenceGetCount := cacheInterferenceGetCount m + 1\<rparr>) (\<lambda>m. m\<lparr>cacheInterferenceHitCount := cacheInterferenceHitCount m + 1\<rparr>)
       (\<lambda>c. Inr (getCachedInterference ops r (mt_id tx) c))
       (computeInterference ops env r l tx)
       (setCachedInterference ops r (mt_id tx))"

text \<open>The overload that takes the listening from the cache; the analog model dereferences it.\<close>

definition getNoise ::
  "'c cache_ops \<Rightarrow> med_env \<Rightarrow> nat \<Rightarrow> med_transmission \<Rightarrow> 'c medium \<Rightarrow> (scalar_noise \<times> 'c medium) result" where
  "getNoise ops env r tx =
     memo (\<lambda>m. m\<lparr>cacheNoiseGetCount := cacheNoiseGetCount m + 1\<rparr>) (\<lambda>m. m\<lparr>cacheNoiseHitCount := cacheNoiseHitCount m + 1\<rparr>)
       (\<lambda>c. Inr (getCachedNoise ops r (mt_id tx) c))
       (\<lambda>m. andThen (getListening ops r tx m)
          (\<lambda>(l, m). andThen (deref l)
             (\<lambda>l. andThen (getInterference ops env r l tx m)
                (\<lambda>(i, m). andThen (computeNoise (me_maxTime env) (ml_band l) (map mr_signal (if_receptions i)))
                   (\<lambda>n. Inr (n, m))))))
       (setCachedNoise ops r (mt_id tx))"

definition getSNIR ::
  "'c cache_ops \<Rightarrow> med_env \<Rightarrow> nat \<Rightarrow> med_transmission \<Rightarrow> 'c medium \<Rightarrow> (snir \<times> 'c medium) result" where
  "getSNIR ops env r tx =
     memo (\<lambda>m. m\<lparr>cacheSNIRGetCount := cacheSNIRGetCount m + 1\<rparr>) (\<lambda>m. m\<lparr>cacheSNIRHitCount := cacheSNIRHitCount m + 1\<rparr>)
       (\<lambda>c. Inr (getCachedSNIR ops r (mt_id tx) c))
       (\<lambda>m. andThen (getReception ops env r tx m)
          (\<lambda>(x, m). andThen (getNoise ops env r tx m) (\<lambda>(n, m). Inr (\<lparr>sn_reception = x, sn_noise = n\<rparr>, m))))
       (setCachedSNIR ops r (mt_id tx))"

text \<open>The receiver of the radio decides, on the reception, the interfering receptions and its own counters.\<close>

definition med_computeReceptionDecision ::
  "'c cache_ops \<Rightarrow> med_env \<Rightarrow> nat \<Rightarrow> med_listening \<Rightarrow> med_transmission \<Rightarrow> 'c medium \<Rightarrow> (reception_decision \<times> 'c medium) result" where
  "med_computeReceptionDecision ops env r l tx m =
     (let m = m\<lparr>receptionDecisionComputationCount := receptionDecisionComputationCount m + 1\<rparr>
      in andThen (getReception ops env r tx m)
           (\<lambda>(x, m). andThen (getInterference ops env r l tx m)
              (\<lambda>(i, m). andThen (getSNIR ops env r tx m)
                 (\<lambda>(s, m). andThen (computeReceptionDecision (me_macAddress env r) (ml_band l) (mr_signal x)
                                     (map mr_signal (if_receptions i)) (receivers m r))
                    (\<lambda>(d, rcv). Inr (d, m\<lparr>receivers := (receivers m)(r := rcv)\<rparr>))))))"

definition getReceptionDecision ::
  "'c cache_ops \<Rightarrow> med_env \<Rightarrow> nat \<Rightarrow> med_listening \<Rightarrow> med_transmission \<Rightarrow> signal_part \<Rightarrow> 'c medium \<Rightarrow>
   (reception_decision \<times> 'c medium) result" where
  "getReceptionDecision ops env r l tx part =
     memo (\<lambda>m. m\<lparr>cacheDecisionGetCount := cacheDecisionGetCount m + 1\<rparr>) (\<lambda>m. m\<lparr>cacheDecisionHitCount := cacheDecisionHitCount m + 1\<rparr>)
       (getCachedReceptionDecision ops r (mt_id tx) part)
       (med_computeReceptionDecision ops env r l tx)
       (setCachedReceptionDecision ops r (mt_id tx) part)"

text \<open>\<open>LoRaReceiver::computeReceptionResult\<close>, which asks the medium for the decision, called by the medium.\<close>

definition med_computeReceptionResult ::
  "'c cache_ops \<Rightarrow> med_env \<Rightarrow> nat \<Rightarrow> med_listening \<Rightarrow> med_transmission \<Rightarrow> 'c medium \<Rightarrow> (reception_result \<times> 'c medium) result" where
  "med_computeReceptionResult ops env r l tx m =
     (let m = m\<lparr>receptionResultComputationCount := receptionResultComputationCount m + 1\<rparr>
      in andThen (getReception ops env r tx m)
           (\<lambda>(x, m). andThen (getInterference ops env r l tx m)
              (\<lambda>(i, m). andThen (getSNIR ops env r tx m)
                 (\<lambda>(s, m). andThen (getReceptionDecision ops env r l tx SIGNAL_PART_WHOLE m)
                    (\<lambda>(d, m). Inr (\<lparr>rr_decisions = [d], rr_minSNIR = computeMin (mr_signal (sn_reception s)) (sn_noise s),
                                    rr_minRSSI = rx_power (mr_signal (sn_reception s))\<rparr>, m))))))"

definition getReceptionResult ::
  "'c cache_ops \<Rightarrow> med_env \<Rightarrow> nat \<Rightarrow> med_listening \<Rightarrow> med_transmission \<Rightarrow> 'c medium \<Rightarrow> (reception_result \<times> 'c medium) result" where
  "getReceptionResult ops env r l tx =
     memo (\<lambda>m. m\<lparr>cacheResultGetCount := cacheResultGetCount m + 1\<rparr>) (\<lambda>m. m\<lparr>cacheResultHitCount := cacheResultHitCount m + 1\<rparr>)
       (\<lambda>c. Inr (getCachedReceptionResult ops r (mt_id tx) c))
       (med_computeReceptionResult ops env r l tx)
       (setCachedReceptionResult ops r (mt_id tx))"

definition med_computeListeningDecision ::
  "'c cache_ops \<Rightarrow> med_env \<Rightarrow> nat \<Rightarrow> med_listening \<Rightarrow> 'c medium \<Rightarrow> (bool \<times> 'c medium) result" where
  "med_computeListeningDecision ops env r l m =
     (let m = m\<lparr>listeningDecisionComputationCount := listeningDecisionComputationCount m + 1\<rparr>
      in andThen (computeInterference_listening ops env l m)
           (\<lambda>(i, m). andThen (computeListeningDecision (receivers m r) (me_maxTime env) (ml_band l) (map mr_signal (if_receptions i)))
              (\<lambda>d. Inr (d, m))))"

definition listenOnMedium ::
  "'c cache_ops \<Rightarrow> med_env \<Rightarrow> nat \<Rightarrow> med_listening \<Rightarrow> 'c medium \<Rightarrow> (bool \<times> 'c medium) result" where
  "listenOnMedium ops env r l m = med_computeListeningDecision ops env r l m"

subsection \<open>What a radio asks about a reception\<close>

definition med_isReceptionAttempted ::
  "'c cache_ops \<Rightarrow> med_env \<Rightarrow> nat \<Rightarrow> med_transmission \<Rightarrow> 'c medium \<Rightarrow> (bool \<times> 'c medium) result" where
  "med_isReceptionAttempted ops env r tx m =
     andThen (getReception ops env r tx m)
       (\<lambda>(x, m). andThen (getListening ops r tx m)
          (\<lambda>(l, m). andThen (deref l)
             (\<lambda>l. andThen (computeInterference ops env r l tx m)
                (\<lambda>(i, m). andThen (computeIsReceptionAttempted (me_macAddress env r) (mr_signal x)
                                    (map mr_signal (if_receptions i)) (receivers m r))
                   (\<lambda>(b, rcv). Inr (b, m\<lparr>receivers := (receivers m)(r := rcv)\<rparr>))))))"

text \<open>The code computes whether the reception is attempted here too.\<close>

definition med_isReceptionPossible ::
  "'c cache_ops \<Rightarrow> med_env \<Rightarrow> nat \<Rightarrow> med_transmission \<Rightarrow> 'c medium \<Rightarrow> (bool \<times> 'c medium) result" where
  "med_isReceptionPossible ops env r tx m = med_isReceptionAttempted ops env r tx m"

definition med_isReceptionSuccessful ::
  "'c cache_ops \<Rightarrow> med_env \<Rightarrow> nat \<Rightarrow> med_transmission \<Rightarrow> 'c medium \<Rightarrow> (bool \<times> 'c medium) result" where
  "med_isReceptionSuccessful ops env r tx m =
     andThen (getReception ops env r tx m)
       (\<lambda>(x, m). andThen (getListening ops r tx m)
          (\<lambda>(l, m). andThen (deref l)
             (\<lambda>l. andThen (computeInterference ops env r l tx m)
                (\<lambda>(i, m). andThen (getSNIR ops env r tx m)
                   (\<lambda>(s, m). Inr (computeIsReceptionSuccessful (mr_signal x), m))))))"

text \<open>The listening is dereferenced where the receiver or the analog model uses it.\<close>

definition med_receivePacket ::
  "'c cache_ops \<Rightarrow> med_env \<Rightarrow> nat \<Rightarrow> med_transmission \<Rightarrow> 'c medium \<Rightarrow> ((lora_mac_frame \<times> real \<times> real) \<times> 'c medium) result" where
  "med_receivePacket ops env r tx m =
     andThen (getListening ops r tx m)
       (\<lambda>(l, m). andThen (deref l)
          (\<lambda>l. andThen (getReceptionResult ops env r l tx m)
             (\<lambda>(res, m). Inr ((tr_macFrame (mt_signal tx), rr_minSNIR res, rr_minRSSI res),
                m\<lparr>communicationCache := removeCachedReceptionResult ops r (mt_id tx) (communicationCache m)\<rparr>))))"

subsection \<open>Transmissions\<close>

text \<open>A self message for a time in the past is an error of the kernel.\<close>

definition scheduleRemove :: "simtime option \<Rightarrow> 'c medium \<Rightarrow> 'c medium result" where
  "scheduleRemove t m =
     (case t of
        None \<Rightarrow> Inl (UndefinedBehaviour ''simtime of NaN'')
      | Some x \<Rightarrow> if x < simTime m then Inl (RuntimeError ''Cannot schedule message to the past'')
                  else Inr (m\<lparr>removeTimer := Some x\<rparr>))"

definition make_listening :: "med_env \<Rightarrow> 'c medium \<Rightarrow> nat \<Rightarrow> arrival \<Rightarrow> med_listening" where
  "make_listening env m r a =
     \<lparr>ml_receiver = r, ml_startPosition = ar_startPosition a, ml_endPosition = ar_endPosition a,
      ml_band = createListening (receivers m r) (me_settings env r) (ar_startTime a) (ar_endTime a)\<rparr>"

text \<open>One receiver radio in the loop of \<open>addTransmission\<close>; the second argument is \<open>maxArrivalEndTime\<close>.\<close>

definition announce ::
  "'c cache_ops \<Rightarrow> med_env \<Rightarrow> med_transmission \<Rightarrow> nat option \<Rightarrow> simtime \<times> 'c medium \<Rightarrow> (simtime \<times> 'c medium) result" where
  "announce ops env tx radio = (\<lambda>(maxEnd, m).
     case radio of
       None \<Rightarrow> Inr (maxEnd, m)
     | Some r \<Rightarrow>
         if r = mt_transmitter tx then Inr (maxEnd, m)
         else let a = me_computeArrival env tx r;
                  iv = \<lparr>low = ar_startTime a, high = ar_endTime a, iv_value = tx\<rparr>;
                  l = make_listening env m r a
              in andThen (set_cache (setCachedArrival ops r (mt_id tx) a) m)
                   (\<lambda>m. andThen (set_cache (setCachedInterval ops r (mt_id tx) iv) m)
                      (\<lambda>m. andThen (set_cache (setCachedListening ops r (mt_id tx) l) m)
                         (\<lambda>m. Inr (if maxEnd < ar_endTime a then ar_endTime a else maxEnd, m)))))"

definition addTransmission :: "'c cache_ops \<Rightarrow> med_env \<Rightarrow> med_transmission \<Rightarrow> 'c medium \<Rightarrow> 'c medium result" where
  "addTransmission ops env tx m =
     (let m = m\<lparr>transmissionCount := transmissionCount m + 1, transmissions := transmissions m @ [tx]\<rparr>
      in andThen (set_cache (cc_addTransmission ops (mt_id tx)) m)
           (\<lambda>m. andThen (foldR (announce ops env tx) (med_radios m) (tr_endTime (mt_signal tx), m))
              (\<lambda>(maxEnd, m). andThen (deref (maxTransmissionDuration (limits m)))
                 (\<lambda>d. andThen (with_cache (setCachedInterferenceEndTime ops (mt_id tx) (maxEnd + d)) m)
                    (\<lambda>(_, m). if removeTimer m = None
                       then andThen (with_cache (getCachedInterferenceEndTime ops (mt_id (hd (transmissions m)))) m)
                              (\<lambda>(e, m). scheduleRemove e m)
                       else Inr m)))))"

text \<open>The first loop of \<open>removeNonInterferingTransmissions\<close>: how many leading transmissions have ended.\<close>

fun expired_transmissions :: "'c cache_ops \<Rightarrow> med_transmission list \<Rightarrow> 'c medium \<Rightarrow> (nat \<times> 'c medium) result" where
  "expired_transmissions ops [] m = Inr (0, m)"
| "expired_transmissions ops (tx # txs) m =
     andThen (with_cache (getCachedInterferenceEndTime ops (mt_id tx)) m)
       (\<lambda>(e, m).
          case e of
            None \<Rightarrow> Inl (UndefinedBehaviour ''simtime of NaN'')
          | Some x \<Rightarrow>
              if x \<le> simTime m
              then andThen (expired_transmissions ops txs m) (\<lambda>(n, m). Inr (Suc n, m))
              else Inr (0, m))"

definition removeTransmission :: "'c cache_ops \<Rightarrow> med_transmission \<Rightarrow> 'c medium \<Rightarrow> 'c medium result" where
  "removeTransmission ops tx m =
     andThen (with_cache (getCachedFrame ops (mt_id tx)) m)
       (\<lambda>(_, m). andThen (with_cache (removeCachedFrame ops (mt_id tx)) m)
          (\<lambda>(_, m). set_cache (cc_removeTransmission ops (mt_id tx)) m))"

definition removeNonInterferingTransmissions :: "'c cache_ops \<Rightarrow> 'c medium \<Rightarrow> 'c medium result" where
  "removeNonInterferingTransmissions ops m =
     andThen (expired_transmissions ops (transmissions m) m)
       (\<lambda>(n, m). andThen (foldR (removeTransmission ops) (take n (transmissions m)) m)
          (\<lambda>m. let m = m\<lparr>transmissions := drop n (transmissions m)\<rparr>
               in andThen (set_cache (cc_removeNonInterfering ops (simTime m)) m)
                    (\<lambda>m. if 0 < length (transmissions m)
                         then andThen (with_cache (getCachedInterferenceEndTime ops (mt_id (hd (transmissions m)))) m)
                                (\<lambda>(e, m). scheduleRemove e m)
                         else Inr m)))"

text \<open>The timer message arrives, so it is not scheduled any more.\<close>

definition med_handleMessage :: "'c cache_ops \<Rightarrow> 'c medium \<Rightarrow> 'c medium result" where
  "med_handleMessage ops m = removeNonInterferingTransmissions ops (m\<lparr>removeTimer := None\<rparr>)"

subsection \<open>Sending\<close>

text \<open>
  With \<open>macAddressFilter\<close> the frame is cast to an \<open>IMACFrame\<close>, which a \<open>LoRaMacFrame\<close> is not: the cast throws.
\<close>

definition isPotentialReceiver ::
  "'c cache_ops \<Rightarrow> med_env \<Rightarrow> nat \<Rightarrow> med_transmission \<Rightarrow> 'c medium \<Rightarrow> (bool \<times> 'c medium) result" where
  "isPotentialReceiver ops env r tx m =
     (if radioModeFilter m \<and> me_radioMode env r \<noteq> RADIO_MODE_RECEIVER \<and> me_radioMode env r \<noteq> RADIO_MODE_TRANSCEIVER
      then Inr (False, m)
      else andThen (if listeningFilter m then getListening ops r tx m else Inr (None, m))
        (\<lambda>(_, m).
           if listeningFilter m \<and> \<not> computeIsTransmissionPossible (receivers m r) (me_settings env r) (mt_signal tx)
           then Inr (False, m)
           else if macAddressFilter m then Inl (RuntimeError ''check_and_cast: cannot cast LoRaMacFrame to IMACFrame'')
           else case rangeFilter m of
                  RANGE_FILTER_INTERFERENCE_RANGE \<Rightarrow>
                    andThen (getArrival ops r tx m)
                      (\<lambda>(arrival, m). andThen (deref arrival)
                         (\<lambda>a. Inr (isInInterferenceRange tx (ar_startPosition a) (ar_endPosition a) m, m)))
                | RANGE_FILTER_COMMUNICATION_RANGE \<Rightarrow>
                    andThen (getArrival ops r tx m)
                      (\<lambda>(arrival, m). andThen (deref arrival)
                         (\<lambda>a. Inr (isInCommunicationRange tx (ar_startPosition a) (ar_endPosition a) m, m)))
                | RANGE_FILTER_ANYWHERE \<Rightarrow> Inr (True, m)))"

definition sendDirect ::
  "'c cache_ops \<Rightarrow> nat \<Rightarrow> med_transmission \<Rightarrow> simtime \<Rightarrow> simtime \<Rightarrow> 'c medium \<Rightarrow> 'c medium result" where
  "sendDirect ops r tx delay duration m =
     (let m = m\<lparr>framesSent := framesSent m @ [\<lparr>fs_transmitter = mt_transmitter tx, fs_receiver = r, fs_transmission = mt_id tx,
                                             fs_delay = delay, fs_duration = duration\<rparr>]\<rparr>
      in andThen (set_cache (setCachedReceptionFrame ops r (mt_id tx) (mt_id tx)) m)
           (\<lambda>m. Inr (m\<lparr>radioFrameSendCount := radioFrameSendCount m + 1\<rparr>)))"

definition sendToRadio ::
  "'c cache_ops \<Rightarrow> med_env \<Rightarrow> med_transmission \<Rightarrow> nat \<Rightarrow> 'c medium \<Rightarrow> 'c medium result" where
  "sendToRadio ops env tx r m =
     (if r \<noteq> mt_transmitter tx
      then andThen (isPotentialReceiver ops env r tx m)
             (\<lambda>(potential, m).
                if potential
                then andThen (getArrival ops r tx m)
                       (\<lambda>(arrival, m). andThen (deref arrival)
                          (\<lambda>a. sendDirect ops r tx (ar_startPropagationTime a)
                                 (tr_endTime (mt_signal tx) - tr_startTime (mt_signal tx)) m))
                else Inr m)
      else Inr m)"

definition sendToAllRadios :: "'c cache_ops \<Rightarrow> med_env \<Rightarrow> med_transmission \<Rightarrow> 'c medium \<Rightarrow> 'c medium result" where
  "sendToAllRadios ops env tx m =
     foldR (\<lambda>radio m. case radio of None \<Rightarrow> Inr m | Some r \<Rightarrow> sendToRadio ops env tx r m) (med_radios m) m"

definition sendToAffectedRadios :: "'c cache_ops \<Rightarrow> med_env \<Rightarrow> med_transmission \<Rightarrow> 'c medium \<Rightarrow> 'c medium result" where
  "sendToAffectedRadios ops env tx m =
     (case neighborCache m of
        None \<Rightarrow> sendToAllRadios ops env tx m
      | Some nc \<Rightarrow>
          if rangeFilter m = RANGE_FILTER_ANYWHERE then sendToAllRadios ops env tx m
          else andThen (if rangeFilter m = RANGE_FILTER_COMMUNICATION_RANGE then getMaxCommunicationRange (me_limits env) (limits m)
                        else Inr (getMaxInterferenceRange (me_limits env) (me_reports env (mt_transmitter tx)) (limits m)))
                 (\<lambda>txRange. case txRange of
                    None \<Rightarrow> sendToAllRadios ops env tx m
                  | Some d \<Rightarrow> andThen (sendToNeighbors (mt_transmitter tx) d nc)
                                (\<lambda>calls. foldR (\<lambda>(_, r). sendToRadio ops env tx r) calls m)))"

definition createTransmitterRadioFrame ::
  "med_env \<Rightarrow> nat \<Rightarrow> lora_mac_frame \<Rightarrow> 'c medium \<Rightarrow> (med_transmission \<times> 'c medium) result" where
  "createTransmitterRadioFrame env radio frame m =
     andThen (createTransmission (me_txGateway env radio) frame (simTime m))
       (\<lambda>signal. Inr (\<lparr>mt_id = nextTransmissionId m, mt_transmitter = radio, mt_startPosition = me_position env radio,
                      mt_endPosition = me_position env radio, mt_signal = signal\<rparr>,
                     m\<lparr>nextTransmissionId := nextTransmissionId m + 1\<rparr>))"

definition med_transmitPacket ::
  "'c cache_ops \<Rightarrow> med_env \<Rightarrow> nat \<Rightarrow> lora_mac_frame \<Rightarrow> 'c medium \<Rightarrow> (med_transmission \<times> 'c medium) result" where
  "med_transmitPacket ops env radio frame m =
     andThen (createTransmitterRadioFrame env radio frame m)
       (\<lambda>(tx, m). andThen (addTransmission ops env tx m)
          (\<lambda>m. andThen (sendToAffectedRadios ops env tx m)
             (\<lambda>m. andThen (with_cache (setCachedFrame ops (mt_id tx) (mt_id tx)) m) (\<lambda>(_, m). Inr (tx, m)))))"

subsection \<open>Radios\<close>

definition med_addRadio :: "'c cache_ops \<Rightarrow> med_env \<Rightarrow> nat \<Rightarrow> 'c medium \<Rightarrow> 'c medium result" where
  "med_addRadio ops env r m =
     (let m = m\<lparr>med_radios := med_radios m @ [Some r]\<rparr>
      in andThen (set_cache (cc_addRadio ops r) m)
           (\<lambda>m. let m = m\<lparr>neighborCache := map_option (nc_addRadio (me_cachePositions env) (lc_maxSpeed (limits m))
                                  (me_initialized env) (simTime m) r) (neighborCache m)\<rparr>;
                    m = m\<lparr>limits := limit_addRadio (me_limits env) (me_reports env) r (limits m)\<rparr>
                in foldR (\<lambda>tx m. let a = me_computeArrival env tx r; l = make_listening env m r a
                                 in andThen (set_cache (setCachedArrival ops r (mt_id tx) a) m)
                                      (set_cache (setCachedListening ops r (mt_id tx) l)))
                     (transmissions m) m))"

text \<open>
  The radios are indexed by their id minus that of the first one. The loop that counts the removed radios in
  front reads the next element before it compares the count with the size: when none is left, past the end.
\<close>

definition removed_in_front :: "nat option list \<Rightarrow> nat result" where
  "removed_in_front rs =
     (if list_all (\<lambda>r. r = None) rs then Inl (UndefinedBehaviour ''radios read past the end'')
      else Inr (length (takeWhile (\<lambda>r. r = None) rs)))"

definition erase_radio :: "nat \<Rightarrow> nat option list \<Rightarrow> nat option list result" where
  "erase_radio r rs =
     (case rs of
        Some r0 # _ \<Rightarrow>
          (let radioIndex = int r - int r0
           in if radioIndex < 0 \<or> int (length rs) \<le> radioIndex then Inl (UndefinedBehaviour ''radios index out of range'')
              else let rs = rs[nat radioIndex := None]
                   in andThen (removed_in_front rs) (\<lambda>n. Inr (drop n rs)))
      | _ \<Rightarrow> Inl (UndefinedBehaviour ''radios[0]''))"

definition med_removeRadio :: "'c cache_ops \<Rightarrow> med_env \<Rightarrow> nat \<Rightarrow> 'c medium \<Rightarrow> 'c medium result" where
  "med_removeRadio ops env r m =
     andThen (erase_radio r (med_radios m))
       (\<lambda>rs. andThen (set_cache (cc_removeRadio ops r) (m\<lparr>med_radios := rs\<rparr>))
          (\<lambda>m. andThen (case neighborCache m of
                          None \<Rightarrow> Inr None
                        | Some nc \<Rightarrow> andThen (nc_removeRadio (lc_maxSpeed (limits m)) (me_initialized env) r nc) (\<lambda>nc. Inr (Some nc)))
             (\<lambda>nc. Inr (m\<lparr>neighborCache := nc, limits := limit_removeRadio (me_limits env) (me_reports env) r (limits m)\<rparr>))))"

datatype medium_signal = RadioModeChanged | ListeningChanged | InterfaceConfigChanged | OtherSignal

text \<open>A radio that has changed its mode or its listening may pick up frames it was not sent.\<close>

definition pick_up ::
  "'c cache_ops \<Rightarrow> med_env \<Rightarrow> medium_signal \<Rightarrow> nat \<Rightarrow> med_transmission \<Rightarrow> 'c medium \<Rightarrow> 'c medium result" where
  "pick_up ops env signal r tx m =
     andThen (if signal = ListeningChanged
              then andThen (getArrival ops r tx m)
                     (\<lambda>(arrival, m). andThen (deref arrival)
                        (\<lambda>a. set_cache (setCachedListening ops r (mt_id tx) (make_listening env m r a)) m))
              else Inr m)
       (\<lambda>m. andThen (with_cache (\<lambda>c. Inr (getCachedReceptionFrame ops r (mt_id tx) c)) m)
          (\<lambda>(frame, m). andThen (if frame = None \<and> r \<noteq> mt_transmitter tx then isPotentialReceiver ops env r tx m else Inr (False, m))
             (\<lambda>(b, m). if b
                then andThen (getArrival ops r tx m)
                       (\<lambda>(arrival, m). andThen (deref arrival)
                          (\<lambda>a. if simTime m \<le> ar_endTime a
                               then let delay = ar_startTime a - simTime m;
                                        d = tr_endTime (mt_signal tx) - tr_startTime (mt_signal tx)
                                    in sendDirect ops r tx (if 0 < delay then delay else 0) (if 0 < delay then d else d + delay) m
                               else Inr m))
                else Inr m)))"

definition med_receiveSignal ::
  "'c cache_ops \<Rightarrow> med_env \<Rightarrow> medium_signal \<Rightarrow> nat \<Rightarrow> 'c medium \<Rightarrow> 'c medium result" where
  "med_receiveSignal ops env signal r m =
     (if signal = OtherSignal then Inr m else foldR (pick_up ops env signal r) (transmissions m) m)"

end
