(* ===== verification/LoRaMediumResults.thy ===== *)
theory LoRaMediumResults
  imports LoRaMedium
begin

text \<open>
  The intermediate results of the medium: what asking for one of them changes, over any communication cache
  that keeps its contract. A query only adds results that were missing, for the transmissions the cache holds;
  what is there stays, and so do the intervals, the arrivals and everything outside the cache.
\<close>

text \<open>The decision on the whole signal is the first of the vector of decisions.\<close>

definition first_decision :: "reception_cache_entry \<Rightarrow> reception_decision option" where
  "first_decision e = (case rce_decisions e of [] \<Rightarrow> None | d # _ \<Rightarrow> d)"

definition entry_grows :: "reception_cache_entry \<Rightarrow> reception_cache_entry \<Rightarrow> bool" where
  "entry_grows e e' \<longleftrightarrow> rce_frame e' = rce_frame e \<and> rce_arrival e' = rce_arrival e \<and> rce_interval e' = rce_interval e
     \<and> rce_listening e' = rce_listening e
     \<and> (rce_reception e = None \<or> rce_reception e' = rce_reception e)
     \<and> (rce_interference e = None \<or> rce_interference e' = rce_interference e)
     \<and> (rce_noise e = None \<or> rce_noise e' = rce_noise e) \<and> (rce_snir e = None \<or> rce_snir e' = rce_snir e)
     \<and> (rce_result e' = rce_result e \<or> rce_result e' = None)
     \<and> first_decision e' = first_decision e"

lemma entry_grows_refl [simp]: "entry_grows e e"
  by (simp add: entry_grows_def)

lemma first_decision_updates [simp]:
  "first_decision (e\<lparr>rce_reception := x1\<rparr>) = first_decision e" "first_decision (e\<lparr>rce_interference := x2\<rparr>) = first_decision e"
  "first_decision (e\<lparr>rce_noise := x3\<rparr>) = first_decision e" "first_decision (e\<lparr>rce_snir := x4\<rparr>) = first_decision e"
  "first_decision (e\<lparr>rce_result := x5\<rparr>) = first_decision e" "first_decision (e\<lparr>rce_arrival := x6\<rparr>) = first_decision e"
  "first_decision (e\<lparr>rce_interval := x7\<rparr>) = first_decision e" "first_decision (e\<lparr>rce_listening := x8\<rparr>) = first_decision e"
  "first_decision (e\<lparr>rce_frame := x9\<rparr>) = first_decision e" "first_decision (e\<lparr>rce_decisions := d # ds\<rparr>) = d"
  by (simp_all add: first_decision_def)

lemma kept_trans: "x = None \<or> y = x \<Longrightarrow> y = None \<or> z = y \<Longrightarrow> x = None \<or> z = x"
  by auto

lemma dropped_trans: "y = x \<or> y = None \<Longrightarrow> z = y \<or> z = None \<Longrightarrow> z = x \<or> z = None"
  by auto

lemma entry_grows_trans: "entry_grows e e1 \<Longrightarrow> entry_grows e1 e2 \<Longrightarrow> entry_grows e e2"
  unfolding entry_grows_def
proof (elim conjE, intro conjI)
qed (erule (1) kept_trans dropped_trans | simp)+

definition rest :: "'c medium \<Rightarrow> simtime \<times> nat option list \<times> med_transmission list \<times> limit_cache \<times> neighbor_cache option
    \<times> simtime option \<times> range_filter \<times> bool \<times> bool \<times> bool \<times> nat \<times> frame_sent list" where
  "rest m = (simTime m, med_radios m, transmissions m, limits m, neighborCache m, removeTimer m, rangeFilter m, radioModeFilter m,
     listeningFilter m, macAddressFilter m, nextTransmissionId m, framesSent m)"

definition med_entry :: "'c cache_ops \<Rightarrow> 'c medium \<Rightarrow> nat \<Rightarrow> nat \<Rightarrow> reception_cache_entry option" where
  "med_entry ops m = reception_view ops (communicationCache m)"

definition grows :: "'c cache_ops \<Rightarrow> ('c \<Rightarrow> 's) \<Rightarrow> 'c medium \<Rightarrow> 'c medium \<Rightarrow> bool" where
  "grows ops shape m m' \<longleftrightarrow> rest m' = rest m
     \<and> shape (communicationCache m') = shape (communicationCache m)
     \<and> radio_view ops (communicationCache m') = radio_view ops (communicationCache m)
     \<and> transmission_view ops (communicationCache m') = transmission_view ops (communicationCache m)
     \<and> (\<forall>r t. rel_option entry_grows (med_entry ops m r t) (med_entry ops m' r t))"

lemma grows_refl [simp]: "grows ops shape m m"
  by (simp add: grows_def option.rel_refl)

lemma grows_trans: "grows ops shape m m1 \<Longrightarrow> grows ops shape m1 m2 \<Longrightarrow> grows ops shape m m2"
proof -
  assume a: "grows ops shape m m1" "grows ops shape m1 m2"
  have "rel_option entry_grows (med_entry ops m r t) (med_entry ops m2 r t)" for r t
  proof -
    have "rel_option entry_grows (med_entry ops m r t) (med_entry ops m1 r t)" "rel_option entry_grows (med_entry ops m1 r t) (med_entry ops m2 r t)"
      using a unfolding grows_def by blast+
    then show ?thesis by (cases "med_entry ops m r t"; cases "med_entry ops m1 r t"; cases "med_entry ops m2 r t")
        (auto dest: entry_grows_trans)
  qed
  with a show ?thesis unfolding grows_def by simp
qed

lemma grows_entry: "grows ops shape m m' \<Longrightarrow> med_entry ops m r t = Some e \<Longrightarrow> \<exists>e'. med_entry ops m' r t = Some e' \<and> entry_grows e e'"
proof -
  assume "grows ops shape m m'" "med_entry ops m r t = Some e"
  then have "rel_option entry_grows (Some e) (med_entry ops m' r t)" unfolding grows_def by metis
  then show ?thesis by (auto simp: option_rel_Some1)
qed

lemma grows_counters:
  assumes "rest m1 = rest m" and "communicationCache m1 = communicationCache m"
  shows "grows ops shape m m1 = True" and "grows ops shape m m2 \<Longrightarrow> rest m3 = rest m2 \<Longrightarrow>
    communicationCache m3 = communicationCache m2 \<Longrightarrow> grows ops shape m m3"
  using assms by (simp_all add: grows_def med_entry_def option.rel_refl)

definition counts :: "('c medium \<Rightarrow> 'c medium) \<Rightarrow> bool" where
  "counts f \<longleftrightarrow> (\<forall>m. rest (f m) = rest m \<and> communicationCache (f m) = communicationCache m)"

lemma counts_grows: "counts f \<Longrightarrow> grows ops shape m (f m)"
  by (simp add: counts_def grows_def med_entry_def option.rel_refl)

text \<open>The transmissions whose intervals a radio's entry lists are held by the cache.\<close>

definition intervals_known :: "'c cache_ops \<Rightarrow> ('c \<Rightarrow> nat \<Rightarrow> bool) \<Rightarrow> 'c medium \<Rightarrow> bool" where
  "intervals_known ops known m \<longleftrightarrow> (\<forall>r e ivs. radio_view ops (communicationCache m) r = Some e \<longrightarrow> receptionIntervals e = Some ivs \<longrightarrow>
     (\<forall>iv\<in>set ivs. known (communicationCache m) (mt_id (iv_value iv))))"

context shaped_cache
begin

abbreviation "med_known m t \<equiv> known (communicationCache m) t"

lemma grows_known: "grows ops shape m m' \<Longrightarrow> med_known m' t = med_known m t"
  by (rule known_shape) (simp add: grows_def)

lemma grows_intervals_known: "grows ops shape m m' \<Longrightarrow> intervals_known ops known m \<Longrightarrow> intervals_known ops known m'"
  unfolding intervals_known_def using grows_known by (metis grows_def)

lemma read_grows:
  assumes "with_cache (\<lambda>c. Inr (read_entry ops field r t c)) m = Inr (x, m')" and "med_known m t"
  shows "grows ops shape m m'" and "x = Option.bind (med_entry ops m r t) field" and "med_entry ops m' = med_entry ops m"
proof -
  obtain y c where g: "read_entry ops field r t (communicationCache m) = (y, c)" by force
  with assms(1) have m': "x = y" "m' = m\<lparr>communicationCache := c\<rparr>" by (simp_all add: with_cache_def)
  note v = read_entry_views [OF g]
  show "x = Option.bind (med_entry ops m r t) field" using m'(1) v(2) by (simp add: med_entry_def)
  show me: "med_entry ops m' = med_entry ops m" using v(1) by (simp add: med_entry_def m'(2) same_views_def)
  from v(1) read_entry_shape [OF assms(2) g] me show "grows ops shape m m'"
    by (simp add: grows_def m'(2) same_views_def rest_def option.rel_refl)
qed

lemma arrival_grows:
  assumes "getArrival ops r tx m = Inr (x, m')" and "med_known m (mt_id tx)"
  shows "grows ops shape m m'" and "x = Option.bind (med_entry ops m r (mt_id tx)) rce_arrival"
    and "med_entry ops m' = med_entry ops m"
  using read_grows [of rce_arrival r "mt_id tx" m x m'] assms by (simp_all add: getArrival_def getCachedArrival_def)

lemma listening_grows:
  assumes "getListening ops r tx m = Inr (x, m')" and "med_known m (mt_id tx)"
  shows "grows ops shape m m'" and "x = Option.bind (med_entry ops m r (mt_id tx)) rce_listening"
  using read_grows [of rce_listening r "mt_id tx" m x m'] assms by (simp_all add: getListening_def getCachedListening_def)

lemma interfering_grows:
  assumes "with_cache (computeInterferingTransmissions ops r a b) m = Inr (txs, m')" and "intervals_known ops known m"
  shows "grows ops shape m m'" and "list_all (\<lambda>tx. med_known m (mt_id tx)) txs"
proof -
  from assms(1) obtain c where c: "computeInterferingTransmissions ops r a b (communicationCache m) = Inr (txs, c)"
      "m' = m\<lparr>communicationCache := c\<rparr>"
    by (auto simp: with_cache_def elim: andThen_InrE)
  then obtain e c1 where g: "getRadioCacheEntry ops r (communicationCache m) = (Some e, c1)"
    by (auto simp: computeInterferingTransmissions_def split: prod.splits option.splits)
  then have e: "radio_view ops (communicationCache m) r = Some e" by (simp add: radio_view_def)
  from c g have "same_views ops (communicationCache m) c"
    using get_radio [of "communicationCache m" r] by (simp add: computeInterferingTransmissions_def)
  then show "grows ops shape m m'"
    using computeInterfering_shape [OF c(1)] by (simp add: grows_def c(2) same_views_def rest_def med_entry_def option.rel_refl)
  show "list_all (\<lambda>tx. med_known m (mt_id tx)) txs"
    using assms(2) e c(1) g unfolding intervals_known_def
    by (auto simp: computeInterferingTransmissions_def list_all_iff query_def split: option.splits)
qed

text \<open>A write that respects what was there at the beginning.\<close>

lemma write_grows:
  assumes w: "set_cache (write_entry ops upd r t) m1 = Inr m2" and known: "med_known m t" and g: "grows ops shape m m1"
    and upd: "\<And>e e1. med_entry ops m r t = Some e \<Longrightarrow> entry_grows e e1 \<Longrightarrow> entry_grows e (upd e1)"
  shows "grows ops shape m m2" and "\<exists>e1. med_entry ops m1 r t = Some e1 \<and> med_entry ops m2 r t = Some (upd e1)"
proof -
  from w obtain c where c: "write_entry ops upd r t (communicationCache m1) = Inr c" "m2 = m1\<lparr>communicationCache := c\<rparr>"
    by (auto simp: set_cache_def elim: andThen_InrE)
  obtain e1 where e1: "med_entry ops m1 r t = Some e1"
    "med_entry ops m2 = (\<lambda>r'. if r' = r then (med_entry ops m1 r)(t := Some (upd e1)) else med_entry ops m1 r')"
    "radio_view ops c = radio_view ops (communicationCache m1)" "transmission_view ops c = transmission_view ops (communicationCache m1)"
  proof (rule write_entry_views [OF c(1)])
    fix e1
    assume "reception_view ops (communicationCache m1) r t = Some e1"
      "reception_view ops c = (\<lambda>r'. if r' = r then (reception_view ops (communicationCache m1) r)(t := Some (upd e1))
         else reception_view ops (communicationCache m1) r')"
      "radio_view ops c = radio_view ops (communicationCache m1)" "transmission_view ops c = transmission_view ops (communicationCache m1)"
    then show ?thesis by (intro that [of e1]) (unfold med_entry_def c(2), simp_all)
  qed
  from e1(1,2) show "\<exists>e1. med_entry ops m1 r t = Some e1 \<and> med_entry ops m2 r t = Some (upd e1)" by simp
  have "shape c = shape (communicationCache m1)"
    using write_entry_shape [OF _ c(1)] known grows_known [OF g] by simp
  moreover have "rel_option entry_grows (med_entry ops m r' t') (med_entry ops m2 r' t')" for r' t'
  proof (cases "r' = r \<and> t' = t")
    case True
    have "rel_option entry_grows (med_entry ops m r t) (Some e1)" using g e1(1) unfolding grows_def by metis
    then obtain e where "med_entry ops m r t = Some e" "entry_grows e e1" by (auto simp: option_rel_Some2)
    with True e1(2) upd show ?thesis by simp
  next
    case False
    then have "med_entry ops m2 r' t' = med_entry ops m1 r' t'" using e1(2) by auto
    with g show ?thesis unfolding grows_def by simp
  qed
  moreover have "rest m2 = rest m1" by (simp add: c(2) rest_def)
  ultimately show "grows ops shape m m2" using g e1(3,4) by (simp add: grows_def c(2))
qed

lemma memo_cases:
  assumes "memo countGet countHit lookup compute store m = Inr (x, m')"
  obtains (hit) m1 where "with_cache lookup (countGet m) = Inr (Some x, m1)" and "m' = countHit m1"
  | (miss) m1 m2 where "with_cache lookup (countGet m) = Inr (None, m1)" and "compute m1 = Inr (x, m2)"
    and "set_cache (store x) m2 = Inr m'"
  using assms by (fastforce simp: memo_def elim!: andThen_InrE split: option.splits)

lemma memo_grows:
  assumes m: "memo countGet countHit (\<lambda>c. Inr (read_entry ops field r t c)) compute (\<lambda>x. write_entry ops (upd x) r t) m = Inr (x, m')"
    and known: "med_known m t" and c: "counts countGet" "counts countHit"
    and compute: "\<And>m1 y m2. grows ops shape m m1 \<Longrightarrow> compute m1 = Inr (y, m2) \<Longrightarrow> grows ops shape m1 m2"
    and upd: "\<And>e e1 y. field e = None \<Longrightarrow> entry_grows e e1 \<Longrightarrow> entry_grows e (upd y e1)"
    and set: "\<And>e y. field (upd y e) = Some y"
  shows "grows ops shape m m'" and "\<exists>e. med_entry ops m' r t = Some e \<and> field e = Some x"
proof -
  have g0: "grows ops shape m (countGet m)" by (rule counts_grows [OF c(1)])
  have k0: "med_known (countGet m) t" using known grows_known [OF g0] by simp
  have e0: "med_entry ops (countGet m) = med_entry ops m" using c(1) by (simp add: counts_def med_entry_def)
  have "grows ops shape m m' \<and> (\<exists>e. med_entry ops m' r t = Some e \<and> field e = Some x)"
    using m
  proof (cases rule: memo_cases)
    case (hit m1)
    note v = read_grows [OF hit(1) k0]
    have g1: "grows ops shape m m'"
      unfolding hit(2) by (rule grows_trans [OF grows_trans [OF g0 v(1)] counts_grows [OF c(2)]])
    have "med_entry ops m' = med_entry ops m"
      using v(3) e0 c(2) unfolding hit(2) by (simp add: counts_def med_entry_def)
    moreover have "Option.bind (med_entry ops m r t) field = Some x" using v(2) e0 by simp
    ultimately show ?thesis using g1 by (auto simp: bind_eq_Some_conv)
  next
    case (miss m1 m2)
    note v = read_grows [OF miss(1) k0]
    have g1: "grows ops shape m m1" by (rule grows_trans [OF g0 v(1)])
    note g2 = grows_trans [OF g1 compute [OF g1 miss(2)]]
    have none: "field e = None" if "med_entry ops m r t = Some e" for e
      using v(2) that e0 by simp
    have "entry_grows e (upd x e1)" if "med_entry ops m r t = Some e" "entry_grows e e1" for e e1
      using upd [OF none [OF that(1)] that(2)] .
    from write_grows [OF miss(3) known g2 this] set show ?thesis by auto
  qed
  then show "grows ops shape m m'" and "\<exists>e. med_entry ops m' r t = Some e \<and> field e = Some x" by blast+
qed

end

lemma counts_updates [simp]:
  "counts (\<lambda>m. m\<lparr>cacheReceptionGetCount := f m\<rparr>)" "counts (\<lambda>m. m\<lparr>cacheReceptionHitCount := f m\<rparr>)"
  "counts (\<lambda>m. m\<lparr>cacheInterferenceGetCount := f m\<rparr>)" "counts (\<lambda>m. m\<lparr>cacheInterferenceHitCount := f m\<rparr>)"
  "counts (\<lambda>m. m\<lparr>cacheNoiseGetCount := f m\<rparr>)" "counts (\<lambda>m. m\<lparr>cacheNoiseHitCount := f m\<rparr>)"
  "counts (\<lambda>m. m\<lparr>cacheSNIRGetCount := f m\<rparr>)" "counts (\<lambda>m. m\<lparr>cacheSNIRHitCount := f m\<rparr>)"
  "counts (\<lambda>m. m\<lparr>cacheDecisionGetCount := f m\<rparr>)" "counts (\<lambda>m. m\<lparr>cacheDecisionHitCount := f m\<rparr>)"
  "counts (\<lambda>m. m\<lparr>cacheResultGetCount := f m\<rparr>)" "counts (\<lambda>m. m\<lparr>cacheResultHitCount := f m\<rparr>)"
  "counts (\<lambda>m. m\<lparr>receptionComputationCount := f m\<rparr>)" "counts (\<lambda>m. m\<lparr>interferenceComputationCount := f m\<rparr>)"
  "counts (\<lambda>m. m\<lparr>receptionDecisionComputationCount := f m\<rparr>)" "counts (\<lambda>m. m\<lparr>receptionResultComputationCount := f m\<rparr>)"
  "counts (\<lambda>m. m\<lparr>listeningDecisionComputationCount := f m\<rparr>)" "counts (\<lambda>m. m\<lparr>receivers := g m\<rparr>)"
  by (simp_all add: counts_def rest_def)

context shaped_cache
begin

lemma grows_count: "counts f \<Longrightarrow> grows ops shape m m1 \<Longrightarrow> grows ops shape m (f m1)"
  by (rule grows_trans [OF _ counts_grows])

lemma count_known: "counts f \<Longrightarrow> med_known m t \<Longrightarrow> med_known (f m) t"
  using grows_known [OF counts_grows] by blast

lemma count_intervals: "counts f \<Longrightarrow> intervals_known ops known m \<Longrightarrow> intervals_known ops known (f m)"
  by (rule grows_intervals_known [OF counts_grows])

lemma computeReception_grows:
  assumes "med_computeReception ops env r tx m = Inr (x, m')" and "med_known m (mt_id tx)"
  shows "grows ops shape m m'"
proof -
  let ?m = "m\<lparr>receptionComputationCount := receptionComputationCount m + 1\<rparr>"
  from assms(1) obtain a m1 where a: "getArrival ops r tx ?m = Inr (a, m1)" "m' = m1"
    by (auto simp: med_computeReception_def Let_def deref_def elim!: andThen_InrE split: option.splits prod.splits)
  have c: "counts (\<lambda>m. m\<lparr>receptionComputationCount := receptionComputationCount m + 1\<rparr>)" by simp
  from arrival_grows(1) [OF a(1)] count_known [OF c assms(2)] show ?thesis
    using grows_trans [OF counts_grows [OF c]] a(2) by blast
qed

lemma getReception_grows:
  assumes "getReception ops env r tx m = Inr (x, m')" and "med_known m (mt_id tx)"
  shows "grows ops shape m m'" and "\<exists>e. med_entry ops m' r (mt_id tx) = Some e \<and> rce_reception e = Some x"
proof -
  have g: "grows ops shape m1 m2"
    if "grows ops shape m m1" "med_computeReception ops env r tx m1 = Inr (y, m2)" for m1 y m2
    using computeReception_grows [OF that(2)] assms(2) grows_known [OF that(1)] by simp
  have u: "entry_grows e (e1\<lparr>rce_reception := Some y\<rparr>)" if "rce_reception e = None" "entry_grows e e1" for e e1 y
    using that by (simp add: entry_grows_def)
  note m = assms(1) [unfolded getReception_def getCachedReception_def setCachedReception_def]
  show "grows ops shape m m'" "\<exists>e. med_entry ops m' r (mt_id tx) = Some e \<and> rce_reception e = Some x"
    by (rule memo_grows [OF m assms(2) _ _ g u]; simp)+
qed

lemma receptions_loop_grows:
  assumes "receptions_loop test get txs m = Inr (xs, m')" and "list_all (\<lambda>tx. med_known m (mt_id tx)) txs"
    and "\<And>tx m1 b m2. tx \<in> set txs \<Longrightarrow> grows ops shape m m1 \<Longrightarrow> test tx m1 = Inr (b, m2) \<Longrightarrow> grows ops shape m1 m2"
    and "\<And>tx m1 y m2. tx \<in> set txs \<Longrightarrow> grows ops shape m m1 \<Longrightarrow> get tx m1 = Inr (y, m2) \<Longrightarrow> grows ops shape m1 m2"
  shows "grows ops shape m m'"
  using assms
proof (induction txs arbitrary: m xs)
  case Nil
  then show ?case by simp
next
  case (Cons tx txs)
  from Cons.prems(1) obtain b m1 where t: "test tx m = Inr (b, m1)" by (auto elim: andThen_InrE)
  have g1: "grows ops shape m m1" using Cons.prems(3) [of tx m] t by simp
  have more: "grows ops shape m m'" if g: "grows ops shape m m2" and l: "receptions_loop test get txs m2 = Inr (ys, m')" for m2 ys
  proof -
    have "grows ops shape m2 m'"
    proof (rule Cons.IH [OF l])
      show "list_all (\<lambda>tx. med_known m2 (mt_id tx)) txs" using Cons.prems(2) grows_known [OF g] by simp
      fix tx' m3 m4
      assume a: "tx' \<in> set txs" "grows ops shape m2 m3"
      have m3: "grows ops shape m m3" using g a(2) by (rule grows_trans)
      show "grows ops shape m3 m4" if "test tx' m3 = Inr (b', m4)" for b'
        using Cons.prems(3) [OF _ m3 that] a(1) by simp
      show "grows ops shape m3 m4" if "get tx' m3 = Inr (y, m4)" for y
        using Cons.prems(4) [OF _ m3 that] a(1) by simp
    qed
    with g show ?thesis by (rule grows_trans)
  qed
  show ?case
  proof (cases b)
    case True
    with Cons.prems(1) t obtain x m2 ys where x: "get tx m1 = Inr (x, m2)" "receptions_loop test get txs m2 = Inr (ys, m')"
      by (auto elim!: andThen_InrE)
    have "grows ops shape m m2" using grows_trans [OF g1 Cons.prems(4) [of tx m1]] g1 x(1) by simp
    from more [OF this x(2)] show ?thesis .
  next
    case False
    with Cons.prems(1) t have "receptions_loop test get txs m1 = Inr (xs, m')" by simp
    from more [OF g1 this] show ?thesis .
  qed
qed

lemma isInterferingWithReception_grows:
  assumes "isInterferingWithReception ops x tx m = Inr (b, m')" and "med_known m (mt_id tx)"
  shows "grows ops shape m m'"
proof -
  from assms(1) obtain a where "getArrival ops (mr_receiver x) tx m = Inr (a, m')"
    by (auto simp: isInterferingWithReception_def elim!: andThen_InrE split: if_splits)
  from arrival_grows(1) [OF this assms(2)] show ?thesis .
qed

lemma isInterferingWithListening_grows:
  assumes "isInterferingWithListening ops l tx m = Inr (b, m')" and "med_known m (mt_id tx)"
  shows "grows ops shape m m'"
proof -
  from assms(1) obtain a where "getArrival ops (ml_receiver l) tx m = Inr (a, m')"
    by (auto simp: isInterferingWithListening_def elim!: andThen_InrE split: if_splits)
  from arrival_grows(1) [OF this assms(2)] show ?thesis .
qed

lemma interferingWithReception_grows:
  assumes "interferingWithReception ops env x m = Inr (xs, m')" and i: "intervals_known ops known m"
  shows "grows ops shape m m'"
proof -
  from assms(1) obtain txs m1 where
    q: "with_cache (computeInterferingTransmissions ops (mr_receiver x) (rx_startTime (mr_signal x)) (rx_endTime (mr_signal x))) m = Inr (txs, m1)"
    and l: "receptions_loop (\<lambda>tx m. if mr_transmission x \<noteq> tx then isInterferingWithReception ops x tx m else Inr (False, m))
       (getReception ops env (mr_receiver x)) txs m1 = Inr (xs, m')"
    by (auto simp: interferingWithReception_def elim!: andThen_InrE)
  note g1 = interfering_grows [OF q i]
  have k: "list_all (\<lambda>tx. med_known m1 (mt_id tx)) txs" using g1(2) grows_known [OF g1(1)] by simp
  have "grows ops shape m1 m'"
  proof (rule receptions_loop_grows [OF l k])
    fix tx m2 b m3
    assume tx: "tx \<in> set txs" "grows ops shape m1 m2"
    then have kn: "med_known m2 (mt_id tx)" using k grows_known by (auto simp: list_all_iff)
    show "grows ops shape m2 m3"
      if "(if mr_transmission x \<noteq> tx then isInterferingWithReception ops x tx m2 else Inr (False, m2)) = Inr (b, m3)"
      using that isInterferingWithReception_grows [OF _ kn] by (auto split: if_splits)
    show "grows ops shape m2 m3" if "getReception ops env (mr_receiver x) tx m2 = Inr (y, m3)" for y
      using that getReception_grows(1) [OF _ kn] by blast
  qed
  with g1(1) show ?thesis by (rule grows_trans)
qed

lemma computeInterference_grows:
  assumes "computeInterference ops env r l tx m = Inr (i, m')" and "intervals_known ops known m" and "med_known m (mt_id tx)"
  shows "grows ops shape m m'"
proof -
  let ?m = "m\<lparr>interferenceComputationCount := interferenceComputationCount m + 1\<rparr>"
  have c: "counts (\<lambda>m. m\<lparr>interferenceComputationCount := interferenceComputationCount m + 1\<rparr>)" by simp
  note g0 = counts_grows [OF c, of ops shape m]
  from assms(1) obtain x m1 xs where x: "getReception ops env r tx ?m = Inr (x, m1)" "interferingWithReception ops env x m1 = Inr (xs, m')"
    by (auto simp: computeInterference_def Let_def elim!: andThen_InrE)
  have g1: "grows ops shape m m1"
    using grows_trans [OF g0 getReception_grows(1) [OF x(1)]] count_known [OF c assms(3)] by simp
  from interferingWithReception_grows [OF x(2) grows_intervals_known [OF g1 assms(2)]] g1 show ?thesis by (blast intro: grows_trans)
qed

lemma getInterference_grows:
  assumes "getInterference ops env r l tx m = Inr (x, m')" and "intervals_known ops known m" and "med_known m (mt_id tx)"
  shows "grows ops shape m m'" and "\<exists>e. med_entry ops m' r (mt_id tx) = Some e \<and> rce_interference e = Some x"
proof -
  have g: "grows ops shape m1 m2"
    if "grows ops shape m m1" "computeInterference ops env r l tx m1 = Inr (y, m2)" for m1 y m2
    using computeInterference_grows [OF that(2)] assms(2,3) grows_known [OF that(1)] grows_intervals_known [OF that(1)] by simp
  have u: "entry_grows e (e1\<lparr>rce_interference := Some y\<rparr>)" if "rce_interference e = None" "entry_grows e e1" for e e1 y
    using that by (simp add: entry_grows_def)
  note m = assms(1) [unfolded getInterference_def getCachedInterference_def setCachedInterference_def]
  show "grows ops shape m m'" "\<exists>e. med_entry ops m' r (mt_id tx) = Some e \<and> rce_interference e = Some x"
    by (rule memo_grows [OF m assms(3) _ _ g u]; simp)+
qed

lemma getNoise_grows:
  assumes "getNoise ops env r tx m = Inr (x, m')" and "intervals_known ops known m" and "med_known m (mt_id tx)"
  shows "grows ops shape m m'" and "\<exists>e. med_entry ops m' r (mt_id tx) = Some e \<and> rce_noise e = Some x"
proof -
  let ?compute = "\<lambda>m. andThen (getListening ops r tx m)
          (\<lambda>(l, m). andThen (deref l)
             (\<lambda>l. andThen (getInterference ops env r l tx m)
                (\<lambda>(i, m). andThen (computeNoise (me_maxTime env) (ml_band l) (map mr_signal (if_receptions i)))
                   (\<lambda>n. Inr (n, m)))))"
  have g: "grows ops shape m1 m2" if g1: "grows ops shape m m1" and c: "?compute m1 = Inr (y, m2)" for m1 y m2
  proof -
    from c obtain l m3 l' i where l: "getListening ops r tx m1 = Inr (l, m3)" "getInterference ops env r l' tx m3 = Inr (i, m2)"
      by (auto elim!: andThen_InrE)
    have k: "med_known m1 (mt_id tx)" using assms(3) grows_known [OF g1] by simp
    note g2 = listening_grows(1) [OF l(1) k]
    have "grows ops shape m3 m2"
      by (rule getInterference_grows(1) [OF l(2)])
        (use k grows_known [OF g2] grows_intervals_known [OF g2] grows_intervals_known [OF g1 assms(2)] in simp_all)
    with g2 show ?thesis by (rule grows_trans)
  qed
  have u: "entry_grows e (e1\<lparr>rce_noise := Some y\<rparr>)" if "rce_noise e = None" "entry_grows e e1" for e e1 y
    using that by (simp add: entry_grows_def)
  note m = assms(1) [unfolded getNoise_def getCachedNoise_def setCachedNoise_def]
  show "grows ops shape m m'" "\<exists>e. med_entry ops m' r (mt_id tx) = Some e \<and> rce_noise e = Some x"
    by (rule memo_grows [OF m assms(3) _ _ g u]; simp)+
qed

lemma getSNIR_grows:
  assumes "getSNIR ops env r tx m = Inr (x, m')" and "intervals_known ops known m" and "med_known m (mt_id tx)"
  shows "grows ops shape m m'" and "\<exists>e. med_entry ops m' r (mt_id tx) = Some e \<and> rce_snir e = Some x"
proof -
  let ?compute = "\<lambda>m. andThen (getReception ops env r tx m)
          (\<lambda>(x, m). andThen (getNoise ops env r tx m) (\<lambda>(n, m). Inr (\<lparr>sn_reception = x, sn_noise = n\<rparr>, m)))"
  have g: "grows ops shape m1 m2" if g1: "grows ops shape m m1" and c: "?compute m1 = Inr (y, m2)" for m1 y m2
  proof -
    from c obtain z m3 n where z: "getReception ops env r tx m1 = Inr (z, m3)" "getNoise ops env r tx m3 = Inr (n, m2)"
      by (auto elim!: andThen_InrE)
    have k: "med_known m1 (mt_id tx)" using assms(3) grows_known [OF g1] by simp
    note g2 = getReception_grows(1) [OF z(1) k]
    have "grows ops shape m3 m2"
      by (rule getNoise_grows(1) [OF z(2)])
        (use k grows_known [OF g2] grows_intervals_known [OF g2] grows_intervals_known [OF g1 assms(2)] in simp_all)
    with g2 show ?thesis by (rule grows_trans)
  qed
  have u: "entry_grows e (e1\<lparr>rce_snir := Some y\<rparr>)" if "rce_snir e = None" "entry_grows e e1" for e e1 y
    using that by (simp add: entry_grows_def)
  note m = assms(1) [unfolded getSNIR_def getCachedSNIR_def setCachedSNIR_def]
  show "grows ops shape m m'" "\<exists>e. med_entry ops m' r (mt_id tx) = Some e \<and> rce_snir e = Some x"
    by (rule memo_grows [OF m assms(3) _ _ g u]; simp)+
qed

text \<open>The decision of the whole signal is the first of the vector, which the access cuts to length one.\<close>

definition cut_decisions :: "reception_cache_entry \<Rightarrow> reception_cache_entry" where
  "cut_decisions e = e\<lparr>rce_decisions := resize_list 1 None (rce_decisions e)\<rparr>"

lemma first_cut [simp]: "first_decision (cut_decisions e) = first_decision e"
  by (cases "rce_decisions e") (simp_all add: first_decision_def cut_decisions_def resize_list_def)

lemma cut_grows: "entry_grows e (cut_decisions e)"
  unfolding entry_grows_def first_cut by (simp add: cut_decisions_def)

lemma resize_one: "resize_list (Suc 0) None ds = [case ds of [] \<Rightarrow> None | d # _ \<Rightarrow> d]"
  by (cases ds) (simp_all add: resize_list_def)

lemma setDecision_write:
  "setCachedReceptionDecision ops r t SIGNAL_PART_WHOLE d = write_entry ops (\<lambda>e. e\<lparr>rce_decisions := [Some d]\<rparr>) r t"
  by (auto simp: fun_eq_iff setCachedReceptionDecision_def write_entry_def resize_one Let_def split: prod.splits option.splits)

lemma getDecision_some:
  assumes "reception_view ops c r t = Some e"
  shows "getCachedReceptionDecision ops r t SIGNAL_PART_WHOLE c
    = andThen (write_entry ops cut_decisions r t c) (\<lambda>c'. Inr (first_decision e, c'))"
proof -
  obtain c1 where "getReceptionCacheEntry ops r t c = (Some e, c1)"
    using assms by (metis reception_view_def prod.collapse)
  then show ?thesis
    by (simp add: getCachedReceptionDecision_def write_entry_def cut_decisions_def resize_one first_decision_def Let_def)
qed

lemma readDecision_grows:
  assumes "with_cache (getCachedReceptionDecision ops r t SIGNAL_PART_WHOLE) m = Inr (x, m')" and k: "med_known m t"
  shows "grows ops shape m m'"
    and "med_entry ops m r t = Some e \<Longrightarrow> x = first_decision e \<and> med_entry ops m' r t = Some (cut_decisions e)"
proof -
  have "grows ops shape m m' \<and> (\<forall>e. med_entry ops m r t = Some e \<longrightarrow>
      x = first_decision e \<and> med_entry ops m' r t = Some (cut_decisions e))"
  proof (cases "med_entry ops m r t")
    case None
    then obtain c where c: "getReceptionCacheEntry ops r t (communicationCache m) = (None, c)"
      by (metis med_entry_def prod.collapse reception_view_def)
    with assms(1) have "with_cache (\<lambda>c. Inr (read_entry ops rce_frame r t c)) m = Inr (None, m')"
      by (simp add: with_cache_def getCachedReceptionDecision_def read_entry_def)
    from read_grows(1) [OF this k] None show ?thesis by simp
  next
    case (Some e)
    then have v: "reception_view ops (communicationCache m) r t = Some e" by (simp add: med_entry_def)
    from assms(1) have w: "set_cache (write_entry ops cut_decisions r t) m = Inr m'"
      and x: "x = first_decision e"
      by (auto simp: with_cache_def set_cache_def getDecision_some [OF v] elim!: andThen_InrE)
    have "entry_grows e0 (cut_decisions e1)" if "entry_grows e0 e1" for e0 e1
      using that cut_grows entry_grows_trans by blast
    with write_grows [OF w k grows_refl] Some x show ?thesis by auto
  qed
  then show "grows ops shape m m'"
    and "med_entry ops m r t = Some e \<Longrightarrow> x = first_decision e \<and> med_entry ops m' r t = Some (cut_decisions e)"
    by blast+
qed

text \<open>What the decision rests on is in the cache when it has been computed.\<close>

lemma computeDecision_grows:
  assumes "med_computeReceptionDecision ops env r l tx m = Inr (d, m')" and "intervals_known ops known m" and "med_known m (mt_id tx)"
  shows "grows ops shape m m'"
    and "\<exists>e x i s. med_entry ops m' r (mt_id tx) = Some e \<and> rce_reception e = Some x \<and> rce_interference e = Some i \<and> rce_snir e = Some s"
proof -
  let ?m = "m\<lparr>receptionDecisionComputationCount := receptionDecisionComputationCount m + 1\<rparr>"
  have c: "counts (\<lambda>m. m\<lparr>receptionDecisionComputationCount := receptionDecisionComputationCount m + 1\<rparr>)" by simp
  note g0 = counts_grows [OF c, of ops shape m]
  from assms(1) obtain x m1 i m2 s m3 rcv where x: "getReception ops env r tx ?m = Inr (x, m1)"
    and i: "getInterference ops env r l tx m1 = Inr (i, m2)" and s: "getSNIR ops env r tx m2 = Inr (s, m3)"
    and m': "m' = m3\<lparr>receivers := (receivers m3)(r := rcv)\<rparr>"
    by (auto simp: med_computeReceptionDecision_def Let_def elim!: andThen_InrE)
  note gx = getReception_grows [OF x count_known [OF c assms(3)]]
  have g1: "grows ops shape m m1" by (rule grows_trans [OF g0 gx(1)])
  have k1: "intervals_known ops known m1" "med_known m1 (mt_id tx)"
    using grows_intervals_known [OF g1 assms(2)] grows_known [OF g1] assms(3) by simp_all
  note gi = getInterference_grows [OF i k1]
  have k2: "intervals_known ops known m2" "med_known m2 (mt_id tx)"
    using grows_intervals_known [OF gi(1) k1(1)] grows_known [OF gi(1)] k1(2) by simp_all
  note gs = getSNIR_grows [OF s k2]
  have c': "counts (\<lambda>m. m\<lparr>receivers := (receivers m)(r := rcv)\<rparr>)" by simp
  show "grows ops shape m m'"
    unfolding m' by (rule grows_count [OF c' grows_trans [OF g1 grows_trans [OF gi(1) gs(1)]]])
  from gx(2) obtain e1 where e1: "med_entry ops m1 r (mt_id tx) = Some e1" "rce_reception e1 = Some x" by blast
  from grows_entry [OF gi(1) e1(1)] e1(2) gi(2) obtain e2 where
    e2: "med_entry ops m2 r (mt_id tx) = Some e2" "rce_reception e2 = Some x" "rce_interference e2 = Some i"
    by (auto simp: entry_grows_def)
  from grows_entry [OF gs(1) e2(1)] e2 gs(2) obtain e3 where
    e3: "med_entry ops m3 r (mt_id tx) = Some e3" "rce_reception e3 = Some x" "rce_interference e3 = Some i" "rce_snir e3 = Some s"
    by (auto simp: entry_grows_def)
  have "med_entry ops m' = med_entry ops m3" by (simp add: m' med_entry_def)
  with e3 show "\<exists>e x i s. med_entry ops m' r (mt_id tx) = Some e \<and> rce_reception e = Some x \<and> rce_interference e = Some i
    \<and> rce_snir e = Some s" by auto
qed

text \<open>
  What the decision on the whole signal fixes. An entry is sound when it has a result only with a decision, that decision, and a
  decision only with everything it rests on. An access keeps an entry when it leaves it sound and its decision as it is.
\<close>

lemma write_at:
  assumes "set_cache (write_entry ops upd r t) m = Inr m'"
  shows "\<exists>e. med_entry ops m r t = Some e \<and> med_entry ops m' r t = Some (upd e)"
proof -
  from assms obtain c where c: "write_entry ops upd r t (communicationCache m) = Inr c" "m' = m\<lparr>communicationCache := c\<rparr>"
    by (auto simp: set_cache_def elim: andThen_InrE)
  show ?thesis by (rule write_entry_views [OF c(1)]) (simp add: med_entry_def c(2))
qed

lemma decision_first:
  assumes "getReceptionDecision ops env r l tx SIGNAL_PART_WHOLE m = Inr (d, m')" and k: "med_known m (mt_id tx)"
  shows "\<exists>e. med_entry ops m' r (mt_id tx) = Some e \<and> first_decision e = Some d"
  using assms(1) unfolding getReceptionDecision_def
proof (cases rule: memo_cases)
  case (hit m1)
  from hit(1) obtain e where e: "med_entry ops (m\<lparr>cacheDecisionGetCount := cacheDecisionGetCount m + 1\<rparr>) r (mt_id tx) = Some e"
    by (cases "med_entry ops (m\<lparr>cacheDecisionGetCount := cacheDecisionGetCount m + 1\<rparr>) r (mt_id tx)")
      (auto simp: with_cache_def getCachedReceptionDecision_def med_entry_def reception_view_def split: prod.splits)
  with readDecision_grows(2) [OF hit(1) _ e] k show ?thesis by (auto simp: hit(2) med_entry_def)
next
  case (miss m1 m2)
  from write_at [OF miss(3) [unfolded setDecision_write]] show ?thesis by auto
qed

end

definition sound_entry :: "reception_cache_entry \<Rightarrow> bool" where
  "sound_entry e \<longleftrightarrow> (case first_decision e of
       None \<Rightarrow> rce_result e = None
     | Some d \<Rightarrow> rce_reception e \<noteq> None \<and> rce_interference e \<noteq> None \<and> rce_snir e \<noteq> None
         \<and> (\<forall>res. rce_result e = Some res \<longrightarrow> rr_decisions res = [d]))"

definition entry_kept :: "reception_cache_entry \<Rightarrow> reception_cache_entry \<Rightarrow> bool" where
  "entry_kept e e' \<longleftrightarrow> (sound_entry e \<longrightarrow> sound_entry e') \<and> (first_decision e = None \<or> first_decision e' = first_decision e)"

lemma entry_kept_refl [simp]: "entry_kept e e"
  by (simp add: entry_kept_def)

lemma entry_kept_trans: "entry_kept e e1 \<Longrightarrow> entry_kept e1 e2 \<Longrightarrow> entry_kept e e2"
  by (auto simp: entry_kept_def)

lemma entry_grows_kept: "entry_grows e e' \<Longrightarrow> entry_kept e e'"
  by (auto simp: entry_grows_def entry_kept_def sound_entry_def split: option.splits)

definition quiet :: "'c medium \<Rightarrow> 'c medium \<Rightarrow> bool" where
  "quiet m m' \<longleftrightarrow> receivers m' = receivers m \<and> receptionDecisionComputationCount m' = receptionDecisionComputationCount m"

definition silent :: "('c medium \<Rightarrow> 'c medium) \<Rightarrow> bool" where
  "silent f \<longleftrightarrow> (\<forall>m. communicationCache (f m) = communicationCache m \<and> quiet m (f m))"

lemma silent_updates:
  "silent (\<lambda>m. m\<lparr>cacheReceptionGetCount := f m\<rparr>)" "silent (\<lambda>m. m\<lparr>cacheReceptionHitCount := f m\<rparr>)"
  "silent (\<lambda>m. m\<lparr>cacheInterferenceGetCount := f m\<rparr>)" "silent (\<lambda>m. m\<lparr>cacheInterferenceHitCount := f m\<rparr>)"
  "silent (\<lambda>m. m\<lparr>cacheSNIRGetCount := f m\<rparr>)" "silent (\<lambda>m. m\<lparr>cacheSNIRHitCount := f m\<rparr>)"
  "silent (\<lambda>m. m\<lparr>cacheResultGetCount := f m\<rparr>)" "silent (\<lambda>m. m\<lparr>cacheResultHitCount := f m\<rparr>)"
  by (simp_all add: silent_def quiet_def)

context shaped_cache
begin

lemma read_entry_quiet:
  assumes "med_entry ops m r t = Some e"
  shows "\<exists>m'. with_cache (\<lambda>c. Inr (read_entry ops field r t c)) m = Inr (field e, m') \<and> med_entry ops m' = med_entry ops m \<and> quiet m m'"
proof -
  obtain x c where c: "read_entry ops field r t (communicationCache m) = (x, c)" by force
  note v = read_entry_views [OF c]
  from v(2) assms have "x = field e" by (simp add: med_entry_def)
  with c v(1) show ?thesis by (auto simp: with_cache_def med_entry_def same_views_def quiet_def)
qed

lemma write_entry_quiet:
  assumes "med_entry ops m r t = Some e"
  shows "\<exists>m'. set_cache (write_entry ops upd r t) m = Inr m' \<and> med_entry ops m' r t = Some (upd e) \<and> quiet m m'"
proof -
  obtain c1 where "getReceptionCacheEntry ops r t (communicationCache m) = (Some e, c1)"
    using assms by (metis med_entry_def prod.collapse reception_view_def)
  then obtain c where c: "write_entry ops upd r t (communicationCache m) = Inr c" by (simp add: write_entry_def)
  then have "reception_view ops c r t = Some (upd e)"
    by (rule write_entry_views) (use assms in \<open>simp add: med_entry_def\<close>)
  with c show ?thesis by (auto simp: set_cache_def med_entry_def quiet_def)
qed

lemma memo_hit:
  assumes e: "med_entry ops m r t = Some e" "field e = Some x" and s: "silent countGet" "silent countHit"
  obtains m' where "memo countGet countHit (\<lambda>c. Inr (read_entry ops field r t c)) compute store m = Inr (x, m')"
    and "med_entry ops m' r t = Some e" and "quiet m m'"
proof -
  have e0: "med_entry ops (countGet m) r t = Some e" using e(1) s(1) by (simp add: silent_def med_entry_def)
  obtain m1 where m1: "with_cache (\<lambda>c. Inr (read_entry ops field r t c)) (countGet m) = Inr (Some x, m1)"
    "med_entry ops m1 = med_entry ops (countGet m)" "quiet (countGet m) m1"
    using read_entry_quiet [OF e0, of field] e(2) by auto
  show ?thesis
  proof (rule that [of "countHit m1"])
    show "memo countGet countHit (\<lambda>c. Inr (read_entry ops field r t c)) compute store m = Inr (x, countHit m1)"
      by (simp add: memo_def m1(1))
    show "med_entry ops (countHit m1) r t = Some e" using s(2) m1(2) e0 by (simp add: silent_def med_entry_def)
    have "quiet m (countGet m)" "quiet m1 (countHit m1)" using s by (simp_all add: silent_def)
    with m1(3) show "quiet m (countHit m1)" by (simp add: quiet_def)
  qed
qed

lemma decision_hit:
  assumes e: "med_entry ops m r (mt_id tx) = Some e" "first_decision e = Some d"
  shows "\<exists>m'. getReceptionDecision ops env r l tx SIGNAL_PART_WHOLE m = Inr (d, m')
    \<and> med_entry ops m' r (mt_id tx) = Some (cut_decisions e) \<and> quiet m m'"
proof -
  let ?g = "\<lambda>m. m\<lparr>cacheDecisionGetCount := cacheDecisionGetCount m + 1\<rparr>"
  let ?h = "\<lambda>m. m\<lparr>cacheDecisionHitCount := cacheDecisionHitCount m + 1\<rparr>"
  have e0: "med_entry ops (?g m) r (mt_id tx) = Some e" using e(1) by (simp add: med_entry_def)
  from e(1) have v: "reception_view ops (communicationCache m) r (mt_id tx) = Some e" by (simp add: med_entry_def)
  obtain m1 where m1: "set_cache (write_entry ops cut_decisions r (mt_id tx)) (?g m) = Inr m1"
    "med_entry ops m1 r (mt_id tx) = Some (cut_decisions e)" "quiet (?g m) m1"
    using write_entry_quiet [OF e0] by blast
  then have "with_cache (getCachedReceptionDecision ops r (mt_id tx) SIGNAL_PART_WHOLE) (?g m) = Inr (Some d, m1)"
    using e(2) by (auto simp: with_cache_def set_cache_def getDecision_some [OF v] elim!: andThen_InrE)
  then have "getReceptionDecision ops env r l tx SIGNAL_PART_WHOLE m = Inr (d, ?h m1)"
    by (simp add: getReceptionDecision_def memo_def)
  moreover have "med_entry ops (?h m1) = med_entry ops m1" "quiet m (?h m1)" using m1(3) by (simp_all add: med_entry_def quiet_def)
  ultimately show ?thesis using m1(2) by auto
qed

lemma result_hit:
  assumes "med_entry ops m r (mt_id tx) = Some e" and "rce_result e = Some res"
  shows "\<exists>m'. getReceptionResult ops env r l tx m = Inr (res, m') \<and> quiet m m'"
proof -
  obtain m' where "getReceptionResult ops env r l tx m = Inr (res, m')" "quiet m m'"
    unfolding getReceptionResult_def getCachedReceptionResult_def
    by (rule memo_hit [where field = rce_result, OF assms silent_updates(7,8)])
  then show ?thesis by blast
qed

lemma result_of_decision:
  assumes e: "med_entry ops m r (mt_id tx) = Some e" and f: "rce_reception e = Some x" "rce_interference e = Some i" "rce_snir e = Some s"
    "rce_result e = None" "first_decision e = Some d"
  shows "\<exists>res m'. getReceptionResult ops env r l tx m = Inr (res, m') \<and> rr_decisions res = [d] \<and> quiet m m'"
proof -
  let ?g = "\<lambda>m. m\<lparr>cacheResultGetCount := cacheResultGetCount m + 1\<rparr>"
  let ?c = "\<lambda>m. m\<lparr>receptionResultComputationCount := receptionResultComputationCount m + 1\<rparr>"
  obtain m1 where m1: "with_cache (\<lambda>c. Inr (getCachedReceptionResult ops r (mt_id tx) c)) (?g m) = Inr (None, m1)"
    "med_entry ops m1 r (mt_id tx) = Some e" "quiet m m1"
    using read_entry_quiet [of "?g m" r "mt_id tx" e rce_result] e f(4)
    by (auto simp: getCachedReceptionResult_def quiet_def med_entry_def)
  have e1: "med_entry ops (?c m1) r (mt_id tx) = Some e" using m1(2) by (simp add: med_entry_def)
  obtain m2 where m2: "getReception ops env r tx (?c m1) = Inr (x, m2)" "med_entry ops m2 r (mt_id tx) = Some e" "quiet (?c m1) m2"
    unfolding getReception_def getCachedReception_def by (rule memo_hit [where field = rce_reception, OF e1 f(1) silent_updates(1,2)])
  obtain m3 where m3: "getInterference ops env r l tx m2 = Inr (i, m3)" "med_entry ops m3 r (mt_id tx) = Some e" "quiet m2 m3"
    unfolding getInterference_def getCachedInterference_def by (rule memo_hit [where field = rce_interference, OF m2(2) f(2) silent_updates(3,4)])
  obtain m4 where m4: "getSNIR ops env r tx m3 = Inr (s, m4)" "med_entry ops m4 r (mt_id tx) = Some e" "quiet m3 m4"
    unfolding getSNIR_def getCachedSNIR_def by (rule memo_hit [where field = rce_snir, OF m3(2) f(3) silent_updates(5,6)])
  obtain m5 where m5: "getReceptionDecision ops env r l tx SIGNAL_PART_WHOLE m4 = Inr (d, m5)"
    "med_entry ops m5 r (mt_id tx) = Some (cut_decisions e)" "quiet m4 m5"
    using decision_hit [OF m4(2) f(5)] by blast
  let ?res = "\<lparr>rr_decisions = [d], rr_minSNIR = computeMin (mr_signal (sn_reception s)) (sn_noise s),
    rr_minRSSI = rx_power (mr_signal (sn_reception s))\<rparr>"
  obtain m6 where m6: "set_cache (setCachedReceptionResult ops r (mt_id tx) ?res) m5 = Inr m6" "quiet m5 m6"
    using write_entry_quiet [OF m5(2)] unfolding setCachedReceptionResult_def by blast
  have "quiet m m6" using m1(3) m2(3) m3(3) m4(3) m5(3) m6(2) by (simp add: quiet_def)
  with m1(1) m2(1) m3(1) m4(1) m5(1) m6(1) show ?thesis
    by (simp add: getReceptionResult_def memo_def med_computeReceptionResult_def Let_def)
qed

text \<open>Once decided, the decision and the result are read, not made.\<close>

lemma decided_again:
  assumes e: "med_entry ops m r (mt_id tx) = Some e" and d: "sound_entry e" "first_decision e = Some d"
  shows "\<exists>res m'. getReceptionResult ops env r l tx m = Inr (res, m') \<and> rr_decisions res = [d] \<and> quiet m m'"
proof (cases "rce_result e")
  case None
  with d obtain x i s where "rce_reception e = Some x" "rce_interference e = Some i" "rce_snir e = Some s"
    by (auto simp: sound_entry_def)
  from result_of_decision [OF e this None d(2)] show ?thesis .
next
  case (Some res)
  with d have "rr_decisions res = [d]" by (simp add: sound_entry_def)
  with result_hit [OF e Some] show ?thesis by blast
qed

end

text \<open>A medium at its start, and one that holds a transmission of radio 0 which radio 1 hears from 1 s to 2 s.\<close>

definition new_medium :: "'c \<Rightarrow> limit_cache \<Rightarrow> 'c medium" where
  "new_medium c lc = \<lparr>simTime = 0, med_radios = [], transmissions = [], communicationCache = c, limits = lc,
     neighborCache = None, removeTimer = None, rangeFilter = RANGE_FILTER_ANYWHERE, radioModeFilter = False,
     listeningFilter = False, macAddressFilter = False, nextTransmissionId = 0,
     receivers = (\<lambda>_. sample_receiver\<lparr>rcv_iAmGateway := False\<rparr>), framesSent = [], transmissionCount = 0,
     radioFrameSendCount = 0,
     receptionComputationCount = 0, interferenceComputationCount = 0, receptionDecisionComputationCount = 0,
     receptionResultComputationCount = 0, listeningDecisionComputationCount = 0, cacheReceptionGetCount = 0,
     cacheReceptionHitCount = 0, cacheInterferenceGetCount = 0, cacheInterferenceHitCount = 0, cacheNoiseGetCount = 0,
     cacheNoiseHitCount = 0, cacheSNIRGetCount = 0, cacheSNIRHitCount = 0, cacheDecisionGetCount = 0,
     cacheDecisionHitCount = 0, cacheResultGetCount = 0, cacheResultHitCount = 0\<rparr>"

definition sample_tx :: med_transmission where
  "sample_tx = \<lparr>mt_id = 0, mt_transmitter = 0, mt_startPosition = (0, 0, 0), mt_endPosition = (0, 0, 0),
     mt_signal = \<lparr>tr_macFrame = new_mac_frame, tr_startTime = 1, tr_endTime = 2,
       tr_parts = \<lparr>Tpreamble = 0, Theader = 0, Tpayload = 1\<rparr>, tr_power = 1, tr_LoRaCF = 868, tr_LoRaSF = 7, tr_LoRaBW = 125000,
       tr_LoRaCR = 4\<rparr>\<rparr>"

definition sample_arrival :: arrival where
  "sample_arrival = \<lparr>ar_startPropagationTime = 0, ar_startTime = 1, ar_endTime = 2, ar_startPosition = (1, 0, 0), ar_endPosition = (1, 0, 0)\<rparr>"

definition sample_listening :: med_listening where
  "sample_listening = \<lparr>ml_receiver = 1, ml_startPosition = (1, 0, 0), ml_endPosition = (1, 0, 0),
     ml_band = \<lparr>ls_startTime = 1, ls_endTime = 2, ls_LoRaCF = 433, ls_LoRaSF = 7, ls_LoRaBW = 125000\<rparr>\<rparr>"

definition sample_env :: med_env where
  "sample_env = \<lparr>me_computeArrival = (\<lambda>_ _. sample_arrival), me_settings = (\<lambda>_. \<lparr>set_LoRaCF = 433, set_LoRaSF = 7, set_LoRaBW = 125000\<rparr>),
     me_macAddress = (\<lambda>_. 0), me_position = (\<lambda>_. (0, 0, 0)), me_radioMode = (\<lambda>_. RADIO_MODE_RECEIVER), me_txGateway = (\<lambda>_. False),
     me_backgroundNoise = None, me_gains = (\<lambda>_ _ _ _. (1, 1, 1, None)), me_maxTime = 1000, me_limits = sample_limit_params,
     me_reports = (\<lambda>_. sample_report), me_cachePositions = (\<lambda>_. (0, 0, 0)), me_initialized = True\<rparr>"

lemmas decision_defs = getReceptionDecision_def med_computeReceptionDecision_def getSNIR_def getNoise_def getInterference_def
  computeInterference_def interferingWithReception_def getReception_def med_computeReception_def memo_def with_cache_def set_cache_def
  getArrival_def getListening_def deref_def computeInterferingTransmissions_def

lemmas cached_defs = getCachedReceptionDecision_def setCachedReceptionDecision_def getCachedSNIR_def setCachedSNIR_def getCachedNoise_def
  setCachedNoise_def getCachedInterference_def setCachedInterference_def getCachedReception_def setCachedReception_def
  getCachedArrival_def getCachedListening_def read_entry_def write_entry_def

lemmas vector_defs = vector_ops_def vec_getReception_def vec_pokeReception_def vec_touch_def vec_getRadio_def vec_pokeRadio_def
  grow_def resize_list_def

end
