(* ===== verification/LoRaMediumHistory.thy ===== *)
theory LoRaMediumHistory
  imports LoRaMediumResults
begin

text \<open>
  The transmissions the medium remembers, over the vector cache: how one is announced to the radios, when it
  is forgotten, and which ones a radio is told to interfere. The invariant says that the medium, its timer and the
  cache agree on the transmissions; it is kept by every operation of a network whose radios are in place before the
  first frame.
\<close>

subsection \<open>What the cache says about a transmission\<close>

definition end_of :: "vector_cache medium \<Rightarrow> nat \<Rightarrow> simtime option" where
  "end_of m t = Option.bind (transmission_view vector_ops (communicationCache m) t) interferenceEndTime"

definition arrival_of :: "vector_cache medium \<Rightarrow> nat \<Rightarrow> nat \<Rightarrow> arrival option" where
  "arrival_of m r t = Option.bind (reception_view vector_ops (communicationCache m) r t) rce_arrival"

definition interval_of :: "vector_cache medium \<Rightarrow> nat \<Rightarrow> nat \<Rightarrow> interval option" where
  "interval_of m r t = Option.bind (reception_view vector_ops (communicationCache m) r t) rce_interval"

definition intervals_of :: "radio_cache_entry \<Rightarrow> interval list" where
  "intervals_of e = (case receptionIntervals e of None \<Rightarrow> [] | Some ivs \<Rightarrow> ivs)"

definition heard :: "vector_cache medium \<Rightarrow> nat \<Rightarrow> interval list" where
  "heard m r = (case radio_view vector_ops (communicationCache m) r of None \<Rightarrow> [] | Some e \<Rightarrow> intervals_of e)"

text \<open>The parts of the state that only the arrival and the end of transmissions change.\<close>

definition book :: "vector_cache medium \<Rightarrow> simtime \<times> med_transmission list \<times> simtime option \<times> nat \<times> nat option list
    \<times> limit_cache \<times> (int \<times> int \<times> nat)" where
  "book m = (simTime m, transmissions m, removeTimer m, nextTransmissionId m, med_radios m, limits m, vec_shape (communicationCache m))"

text \<open>Sound entries of the receptions stay sound, with the decisions they hold.\<close>

definition kept_at :: "vector_cache medium \<Rightarrow> vector_cache medium \<Rightarrow> nat \<Rightarrow> bool" where
  "kept_at m m' t \<longleftrightarrow> (\<forall>r. rel_option entry_kept (med_entry vector_ops m r t) (med_entry vector_ops m' r t))"

definition entries_kept :: "vector_cache medium \<Rightarrow> vector_cache medium \<Rightarrow> bool" where
  "entries_kept m m' \<longleftrightarrow> (\<forall>t. kept_at m m' t)"

lemma kept_at_same: "(\<And>r. med_entry vector_ops m' r t = med_entry vector_ops m r t) \<Longrightarrow> kept_at m m' t"
  by (simp add: kept_at_def option.rel_refl)

lemma kept_at_trans: "kept_at m m1 t \<Longrightarrow> kept_at m1 m2 t \<Longrightarrow> kept_at m m2 t"
proof -
  assume k: "kept_at m m1 t" "kept_at m1 m2 t"
  have "rel_option entry_kept (med_entry vector_ops m r t) (med_entry vector_ops m2 r t)" for r
  proof -
    have "rel_option entry_kept (med_entry vector_ops m r t) (med_entry vector_ops m1 r t)"
      "rel_option entry_kept (med_entry vector_ops m1 r t) (med_entry vector_ops m2 r t)"
      using k unfolding kept_at_def by blast+
    then show ?thesis
      by (cases "med_entry vector_ops m r t"; cases "med_entry vector_ops m1 r t"; cases "med_entry vector_ops m2 r t")
        (auto intro: entry_kept_trans)
  qed
  then show ?thesis unfolding kept_at_def by blast
qed

lemma entries_same: "med_entry vector_ops m' = med_entry vector_ops m \<Longrightarrow> entries_kept m m'"
  by (simp add: entries_kept_def kept_at_same)

lemma entries_kept_refl [simp]: "entries_kept m m"
  by (simp add: entries_same)

lemma entries_kept_trans: "entries_kept m m1 \<Longrightarrow> entries_kept m1 m2 \<Longrightarrow> entries_kept m m2"
  unfolding entries_kept_def by (blast intro: kept_at_trans)

lemma entries_outside: "communicationCache m' = communicationCache m \<Longrightarrow> entries_kept m m'"
  by (rule entries_same) (simp add: med_entry_def)

lemma kept_updates [simp]:
  "entry_kept e (e\<lparr>rce_arrival := x1\<rparr>)" "entry_kept e (e\<lparr>rce_interval := x2\<rparr>)" "entry_kept e (e\<lparr>rce_listening := x3\<rparr>)"
  "entry_kept e (e\<lparr>rce_frame := x4\<rparr>)" "entry_kept e (e\<lparr>rce_result := None\<rparr>)"
  by (auto simp: entry_kept_def sound_entry_def split: option.splits)

lemma write_kept:
  assumes "reception_view vector_ops (communicationCache m) r t = Some e" and "entry_kept e e'"
    and "reception_view vector_ops (communicationCache m') = (\<lambda>r'. if r' = r then (reception_view vector_ops (communicationCache m) r)(t := Some e')
           else reception_view vector_ops (communicationCache m) r')"
  shows "entries_kept m m'"
  unfolding entries_kept_def kept_at_def med_entry_def assms(3) using assms(1,2) by (auto intro: option.rel_refl)

definition steady :: "vector_cache medium \<Rightarrow> vector_cache medium \<Rightarrow> bool" where
  "steady m m' \<longleftrightarrow> book m' = book m \<and> end_of m' = end_of m \<and> arrival_of m' = arrival_of m
     \<and> interval_of m' = interval_of m \<and> heard m' = heard m \<and> entries_kept m m'"

lemma steady_refl [simp]: "steady m m"
  by (simp add: steady_def)

lemma steady_trans: "steady m m1 \<Longrightarrow> steady m1 m2 \<Longrightarrow> steady m m2"
  unfolding steady_def by (blast intro: entries_kept_trans dest: sym intro: trans)

abbreviation known :: "vector_cache medium \<Rightarrow> nat \<Rightarrow> bool" where
  "known m t \<equiv> vec_known (communicationCache m) t"

lemma steady_known: "steady m m' \<Longrightarrow> known m' t = known m t"
  by (simp add: steady_def book_def vec_known_def vec_shape_def)

lemma steady_transmissions: "steady m m' \<Longrightarrow> transmissions m' = transmissions m"
  by (simp add: steady_def book_def)

lemma grows_steady:
  assumes "grows vector_ops vec_shape m m'"
  shows "steady m m'"
proof -
  have r: "rel_option entry_grows (med_entry vector_ops m r t) (med_entry vector_ops m' r t)" for r t
    using assms unfolding grows_def by blast
  have "Option.bind (med_entry vector_ops m' r t) rce_arrival = Option.bind (med_entry vector_ops m r t) rce_arrival"
    "Option.bind (med_entry vector_ops m' r t) rce_interval = Option.bind (med_entry vector_ops m r t) rce_interval" for r t
    using r [of r t] by (auto simp: entry_grows_def elim: option.rel_cases)
  then have "arrival_of m' = arrival_of m" "interval_of m' = interval_of m"
    by (simp_all add: fun_eq_iff arrival_of_def interval_of_def med_entry_def)
  moreover have "entries_kept m m'"
    unfolding entries_kept_def kept_at_def by (intro allI option.rel_mono_strong [OF r]) (rule entry_grows_kept)
  ultimately show ?thesis
    using assms by (simp add: grows_def rest_def steady_def book_def end_of_def heard_def fun_eq_iff)
qed

lemma write_steady:
  assumes "set_cache (write_entry vector_ops upd r t) m = Inr m'" and "known m t"
    and "\<And>e. rce_arrival (upd e) = rce_arrival e" and "\<And>e. rce_interval (upd e) = rce_interval e"
    and kept: "\<And>e. med_entry vector_ops m r t = Some e \<Longrightarrow> entry_kept e (upd e)"
  shows "steady m m'"
proof -
  from assms(1) obtain c where c: "write_entry vector_ops upd r t (communicationCache m) = Inr c" "m' = m\<lparr>communicationCache := c\<rparr>"
    by (auto simp: set_cache_def elim: andThen_InrE)
  note s = vector_shaped.write_entry_shape [OF assms(2) c(1)]
  show ?thesis
  proof (rule vector.write_entry_views [OF c(1)])
    fix e
    assume v: "reception_view vector_ops (communicationCache m) r t = Some e"
      "reception_view vector_ops c = (\<lambda>r'. if r' = r then (reception_view vector_ops (communicationCache m) r)(t := Some (upd e))
         else reception_view vector_ops (communicationCache m) r')"
      "radio_view vector_ops c = radio_view vector_ops (communicationCache m)"
      "transmission_view vector_ops c = transmission_view vector_ops (communicationCache m)"
    have "entries_kept m m'" by (rule write_kept [OF v(1) kept]) (use v(1,2) in \<open>simp_all add: med_entry_def c(2)\<close>)
    with v show ?thesis
      by (simp add: steady_def book_def s c(2) end_of_def heard_def arrival_of_def interval_of_def assms(3,4) fun_eq_iff)
  qed
qed

lemma transmission_steady:
  assumes "with_cache (with_transmission vector_ops t f) m = Inr (a, m')" and "known m t"
    and "\<And>e. interferenceEndTime (snd (f e)) = interferenceEndTime e"
  shows "steady m m'" and "\<exists>e. transmission_view vector_ops (communicationCache m) t = Some e \<and> a = fst (f e)"
proof -
  from assms(1) obtain c where c: "with_transmission vector_ops t f (communicationCache m) = Inr (a, c)" "m' = m\<lparr>communicationCache := c\<rparr>"
    by (auto simp: with_cache_def elim: andThen_InrE)
  note s = vector_shaped.with_transmission_shape [OF assms(2) c(1)]
  have "steady m m' \<and> (\<exists>e. transmission_view vector_ops (communicationCache m) t = Some e \<and> a = fst (f e))"
  proof (rule vector.with_transmission_views [OF c(1)])
    fix e
    assume "transmission_view vector_ops (communicationCache m) t = Some e" "a = fst (f e)"
      "transmission_view vector_ops c = (transmission_view vector_ops (communicationCache m))(t := Some (snd (f e)))"
      "radio_view vector_ops c = radio_view vector_ops (communicationCache m)"
      "reception_view vector_ops c = reception_view vector_ops (communicationCache m)"
    then show ?thesis
      by (simp add: steady_def book_def s c(2) end_of_def heard_def arrival_of_def interval_of_def assms(3) fun_eq_iff entries_same med_entry_def)
  qed
  then show "steady m m'" and "\<exists>e. transmission_view vector_ops (communicationCache m) t = Some e \<and> a = fst (f e)" by blast+
qed

lemma foldR_steady:
  assumes "foldR f xs m = Inr m'" and "\<And>x m1 m2. x \<in> set xs \<Longrightarrow> steady m m1 \<Longrightarrow> f x m1 = Inr m2 \<Longrightarrow> steady m1 m2"
  shows "steady m m'"
  by (rule foldR_invariant [where P = "steady m", OF _ assms(1)]) (use assms(2) steady_trans in \<open>blast, simp\<close>)

subsection \<open>Sending leaves the book alone\<close>

lemma arrival_steady: "getArrival vector_ops r tx m = Inr (x, m') \<Longrightarrow> known m (mt_id tx) \<Longrightarrow> steady m m'"
  by (rule grows_steady [OF vector_shaped.arrival_grows(1)])

lemma listening_steady: "getListening vector_ops r tx m = Inr (x, m') \<Longrightarrow> known m (mt_id tx) \<Longrightarrow> steady m m'"
  by (rule grows_steady [OF vector_shaped.listening_grows(1)])

lemma potential_steady:
  assumes "isPotentialReceiver vector_ops env r tx m = Inr (b, m')" and k: "known m (mt_id tx)"
  shows "steady m m'"
proof (cases "radioModeFilter m \<and> me_radioMode env r \<noteq> RADIO_MODE_RECEIVER \<and> me_radioMode env r \<noteq> RADIO_MODE_TRANSCEIVER")
  case True
  with assms(1) show ?thesis by (simp add: isPotentialReceiver_def)
next
  case False
  with assms(1) obtain l m1 where l: "(if listeningFilter m then getListening vector_ops r tx m else Inr (None, m)) = Inr (l, m1)"
    and m1: "m' = m1 \<or> (\<exists>x. getArrival vector_ops r tx m1 = Inr (x, m'))"
    unfolding isPotentialReceiver_def
    by (auto elim!: andThen_InrE split: if_splits range_filter.splits)
  have "steady m m1" using l k listening_steady by (auto split: if_splits)
  with m1 k steady_known arrival_steady show ?thesis by (metis steady_trans)
qed

lemma sendDirect_steady: "sendDirect vector_ops r tx x y m = Inr m' \<Longrightarrow> known m (mt_id tx) \<Longrightarrow> steady m m'"
proof -
  let ?m = "m\<lparr>framesSent := framesSent m @ [\<lparr>fs_transmitter = mt_transmitter tx, fs_receiver = r, fs_transmission = mt_id tx,
      fs_delay = x, fs_duration = y\<rparr>]\<rparr>"
  assume a: "sendDirect vector_ops r tx x y m = Inr m'" and k: "known m (mt_id tx)"
  from a obtain m1 where m1: "set_cache (setCachedReceptionFrame vector_ops r (mt_id tx) (mt_id tx)) ?m = Inr m1"
    "m' = m1\<lparr>radioFrameSendCount := radioFrameSendCount m1 + 1\<rparr>"
    by (auto simp: sendDirect_def Let_def elim!: andThen_InrE)
  have "steady m ?m" by (simp add: steady_def book_def end_of_def heard_def arrival_of_def interval_of_def fun_eq_iff entries_outside)
  moreover have "steady ?m m1"
    by (rule write_steady [OF m1(1) [unfolded setCachedReceptionFrame_def]]) (use k in simp_all)
  moreover have "steady m1 m'"
    by (simp add: m1(2) steady_def book_def end_of_def heard_def arrival_of_def interval_of_def fun_eq_iff entries_outside)
  ultimately show ?thesis by (blast intro: steady_trans)
qed

lemma sendToRadio_steady:
  assumes "sendToRadio vector_ops env tx r m = Inr m'" and k: "known m (mt_id tx)"
  shows "steady m m'"
proof (cases "r = mt_transmitter tx")
  case True
  with assms(1) show ?thesis by (simp add: sendToRadio_def)
next
  case False
  with assms(1) obtain b m1 where b: "isPotentialReceiver vector_ops env r tx m = Inr (b, m1)"
    and rest: "(if b then andThen (getArrival vector_ops r tx m1)
                       (\<lambda>(arrival, m). andThen (deref arrival)
                          (\<lambda>a. sendDirect vector_ops r tx (ar_startPropagationTime a)
                                 (tr_endTime (mt_signal tx) - tr_startTime (mt_signal tx)) m))
                else Inr m1) = Inr m'"
    unfolding sendToRadio_def by (auto elim: andThen_InrE)
  have sent: "m' = m1 \<or> (\<exists>x m2 d e. getArrival vector_ops r tx m1 = Inr (x, m2) \<and> sendDirect vector_ops r tx d e m2 = Inr m')"
    using rest by (cases b) (auto elim!: andThen_InrE)
  note s1 = potential_steady [OF b k]
  have k1: "known m1 (mt_id tx)" using steady_known [OF s1] k by simp
  from sent show ?thesis
  proof (elim disjE exE conjE)
    assume "m' = m1"
    with s1 show ?thesis by simp
  next
    fix x m2 d e
    assume a: "getArrival vector_ops r tx m1 = Inr (x, m2)" "sendDirect vector_ops r tx d e m2 = Inr m'"
    note s2 = arrival_steady [OF a(1) k1]
    have "known m2 (mt_id tx)" using steady_known [OF s2] k1 by simp
    from sendDirect_steady [OF a(2) this] s1 s2 show ?thesis by (blast intro: steady_trans)
  qed
qed

lemma foldR_send_steady:
  assumes "foldR f xs m = Inr m'" and k: "known m (mt_id tx)"
    and "\<And>x m1 m2. f x m1 = Inr m2 \<Longrightarrow> m2 = m1 \<or> (\<exists>r. sendToRadio vector_ops env tx r m1 = Inr m2)"
  shows "steady m m'"
proof (rule foldR_steady [OF assms(1)])
  fix x m1 m2
  assume s: "steady m m1" and f: "f x m1 = Inr m2"
  have "known m1 (mt_id tx)" using steady_known [OF s] k by simp
  with assms(3) [OF f] show "steady m1 m2" by (auto intro: sendToRadio_steady)
qed

lemma sendToAll_steady: "sendToAllRadios vector_ops env tx m = Inr m' \<Longrightarrow> known m (mt_id tx) \<Longrightarrow> steady m m'"
  unfolding sendToAllRadios_def by (rule foldR_send_steady) (auto split: option.splits)

lemma sendToAffected_steady:
  assumes "sendToAffectedRadios vector_ops env tx m = Inr m'" and k: "known m (mt_id tx)"
  shows "steady m m'"
proof -
  from assms(1) have "sendToAllRadios vector_ops env tx m = Inr m'
      \<or> (\<exists>calls. foldR (\<lambda>(_ :: nat, r). sendToRadio vector_ops env tx r) calls m = Inr m')"
    by (auto simp: sendToAffectedRadios_def elim!: andThen_InrE split: option.splits if_splits)
  then show ?thesis
  proof (elim disjE exE)
    fix calls :: "(nat \<times> nat) list"
    assume "foldR (\<lambda>(_, r). sendToRadio vector_ops env tx r) calls m = Inr m'"
    then show ?thesis by (rule foldR_send_steady [OF _ k]) auto
  qed (rule sendToAll_steady [OF _ k])
qed

subsection \<open>Announcing a transmission\<close>

definition make_interval :: "med_transmission \<Rightarrow> arrival \<Rightarrow> interval" where
  "make_interval tx a = \<lparr>low = ar_startTime a, high = ar_endTime a, iv_value = tx\<rparr>"

text \<open>What a write of the three results of one radio changes.\<close>

lemma arrival_written:
  assumes "set_cache (setCachedArrival vector_ops r t a) m = Inr m'" and "known m t"
  shows "book m' = book m \<and> end_of m' = end_of m \<and> interval_of m' = interval_of m \<and> heard m' = heard m \<and> entries_kept m m'"
    and "arrival_of m' r' t' = (if r' = r \<and> t' = t then Some a else arrival_of m r' t')"
proof -
  from assms(1) obtain c where c: "write_entry vector_ops (\<lambda>e. e\<lparr>rce_arrival := Some a\<rparr>) r t (communicationCache m) = Inr c"
    "m' = m\<lparr>communicationCache := c\<rparr>"
    by (auto simp: set_cache_def setCachedArrival_def elim: andThen_InrE)
  note s = vector_shaped.write_entry_shape [OF assms(2) c(1)]
  have "(book m' = book m \<and> end_of m' = end_of m \<and> interval_of m' = interval_of m \<and> heard m' = heard m \<and> entries_kept m m')
     \<and> arrival_of m' r' t' = (if r' = r \<and> t' = t then Some a else arrival_of m r' t')"
    by (rule vector.write_entry_views [OF c(1)])
      (auto simp: book_def s c(2) end_of_def heard_def arrival_of_def interval_of_def fun_eq_iff intro!: write_kept [where e' = "e\<lparr>rce_arrival := Some a\<rparr>" for e])
  then show "book m' = book m \<and> end_of m' = end_of m \<and> interval_of m' = interval_of m \<and> heard m' = heard m \<and> entries_kept m m'"
    and "arrival_of m' r' t' = (if r' = r \<and> t' = t then Some a else arrival_of m r' t')" by blast+
qed

lemma interval_written:
  assumes "set_cache (setCachedInterval vector_ops r t iv) m = Inr m'" and "known m t"
  shows "book m' = book m \<and> end_of m' = end_of m \<and> arrival_of m' = arrival_of m \<and> entries_kept m m'"
    and "interval_of m' r' t' = (if r' = r \<and> t' = t then Some iv else interval_of m r' t')"
    and "heard m' r' = (if r' = r then heard m r @ [iv] else heard m r')"
proof -
  from assms(1) obtain c where c: "setCachedInterval vector_ops r t iv (communicationCache m) = Inr c" "m' = m\<lparr>communicationCache := c\<rparr>"
    by (auto simp: set_cache_def elim: andThen_InrE)
  from c(1) obtain c1 re c2 where w: "write_entry vector_ops (\<lambda>e. e\<lparr>rce_interval := Some iv\<rparr>) r t (communicationCache m) = Inr c1"
    and g: "getRadioCacheEntry vector_ops r c1 = (Some re, c2)"
    by (auto simp: setCachedInterval_def elim!: andThen_InrE split: prod.splits option.splits)
  note s1 = vector_shaped.write_entry_shape [OF assms(2) w]
  from c(1) w g have cc: "c = pokeRadio vector_ops r (interval_added re iv) c2"
    by (simp add: setCachedInterval_def interval_added_def Let_def)
  have shape: "vec_shape c = vec_shape (communicationCache m)"
    using vector_shaped.shape_poke_radio vector_shaped.shape_radio [OF g] s1 by (simp add: cc)
  obtain e where e: "reception_view vector_ops (communicationCache m) r t = Some e"
    by (rule vector.write_entry_views [OF w])
  have re: "radio_view vector_ops (communicationCache m) r = Some re"
  proof (rule vector.write_entry_views [OF w])
    assume "radio_view vector_ops c1 = radio_view vector_ops (communicationCache m)"
    with g show ?thesis by (metis fst_conv radio_view_def)
  qed
  have "(book m' = book m \<and> end_of m' = end_of m \<and> arrival_of m' = arrival_of m \<and> entries_kept m m')
    \<and> interval_of m' r' t' = (if r' = r \<and> t' = t then Some iv else interval_of m r' t')
    \<and> heard m' r' = (if r' = r then heard m r @ [iv] else heard m r')"
  proof (rule vector.setCachedInterval_views [OF e re])
    fix c'
    assume v: "setCachedInterval vector_ops r t iv (communicationCache m) = Inr c'"
      "radio_view vector_ops c' = (radio_view vector_ops (communicationCache m))(r := Some (interval_added re iv))"
      "transmission_view vector_ops c' = transmission_view vector_ops (communicationCache m)"
      "reception_view vector_ops c' = (\<lambda>r'. if r' = r then (reception_view vector_ops (communicationCache m) r)
          (t := Some (e\<lparr>rce_interval := Some iv\<rparr>)) else reception_view vector_ops (communicationCache m) r')"
    from v(1) c(1) have "c' = c" by simp
    then have "entries_kept m m'" by (intro write_kept [OF e kept_updates(2)]) (use v(4) in \<open>simp add: c(2)\<close>)
    with \<open>c' = c\<close> v(2-4) e re shape show ?thesis
      by (auto simp: book_def c(2) end_of_def heard_def arrival_of_def interval_of_def interval_added_def intervals_of_def fun_eq_iff
          split: option.splits)
  qed
  then show "book m' = book m \<and> end_of m' = end_of m \<and> arrival_of m' = arrival_of m \<and> entries_kept m m'"
    and "interval_of m' r' t' = (if r' = r \<and> t' = t then Some iv else interval_of m r' t')"
    and "heard m' r' = (if r' = r then heard m r @ [iv] else heard m r')" by blast+
qed

lemma listening_written:
  "set_cache (setCachedListening vector_ops r t l) m = Inr m' \<Longrightarrow> known m t \<Longrightarrow> steady m m'"
  by (rule write_steady [of "\<lambda>e. e\<lparr>rce_listening := Some l\<rparr>"]) (simp_all add: setCachedListening_def)

definition told :: "med_transmission \<Rightarrow> nat option list \<Rightarrow> nat \<Rightarrow> bool" where
  "told tx rs r \<longleftrightarrow> Some r \<in> set rs \<and> r \<noteq> mt_transmitter tx"

text \<open>The radios have been told of the transmission; nothing else has changed.\<close>

definition announcement :: "med_env \<Rightarrow> med_transmission \<Rightarrow> nat option list \<Rightarrow> vector_cache medium \<Rightarrow> vector_cache medium \<Rightarrow> bool" where
  "announcement env tx rs m m' \<longleftrightarrow> book m' = book m \<and> end_of m' = end_of m \<and> entries_kept m m'
     \<and> (\<forall>r t. arrival_of m' r t = (if t = mt_id tx \<and> told tx rs r then Some (me_computeArrival env tx r) else arrival_of m r t))
     \<and> (\<forall>r t. interval_of m' r t
          = (if t = mt_id tx \<and> told tx rs r then Some (make_interval tx (me_computeArrival env tx r)) else interval_of m r t))
     \<and> (\<forall>r. heard m' r = heard m r @ (if told tx rs r then [make_interval tx (me_computeArrival env tx r)] else []))"

lemma book_known: "book m' = book m \<Longrightarrow> known m' t = known m t"
  by (simp add: book_def vec_known_def vec_shape_def)

lemma announce_one:
  assumes "announce vector_ops env tx radio (e, m) = Inr (e', m')" and k: "known m (mt_id tx)"
  shows "announcement env tx [radio] m m'" and "e \<le> e'" and "told tx [radio] r \<Longrightarrow> ar_endTime (me_computeArrival env tx r) \<le> e'"
proof -
  have "announcement env tx [radio] m m' \<and> e \<le> e' \<and> (told tx [radio] r \<longrightarrow> ar_endTime (me_computeArrival env tx r) \<le> e')"
  proof (cases "\<exists>q. radio = Some q \<and> q \<noteq> mt_transmitter tx")
    case False
    with assms(1) show ?thesis
      by (auto simp: announce_def announcement_def told_def split: option.splits if_splits)
  next
    case True
    then obtain q where q: "radio = Some q" "q \<noteq> mt_transmitter tx" by blast
    let ?a = "me_computeArrival env tx q"
    from assms(1) q obtain m1 m2 where w: "set_cache (setCachedArrival vector_ops q (mt_id tx) ?a) m = Inr m1"
      "set_cache (setCachedInterval vector_ops q (mt_id tx) (make_interval tx ?a)) m1 = Inr m2"
      "set_cache (setCachedListening vector_ops q (mt_id tx) (make_listening env m q ?a)) m2 = Inr m'"
      and e: "e' = (if e < ar_endTime ?a then ar_endTime ?a else e)"
      by (auto simp: announce_def make_interval_def Let_def elim!: andThen_InrE)
    note w1 = arrival_written [OF w(1) k]
    have k1: "known m1 (mt_id tx)" using w1(1) k book_known by blast
    note w2 = interval_written [OF w(2) k1]
    have k2: "known m2 (mt_id tx)" using w2(1) k1 book_known by blast
    note w3 = listening_written [OF w(3) k2, unfolded steady_def]
    have t: "told tx [radio] r \<longleftrightarrow> r = q" for r using q by (auto simp: told_def)
    have "entries_kept m m'" using w1(1) w2(1) w3 by (blast intro: entries_kept_trans)
    then have "announcement env tx [radio] m m'"
      unfolding announcement_def t using w1 w2 w3 by simp
    with e t show ?thesis by simp
  qed
  then show "announcement env tx [radio] m m'" and "e \<le> e'"
    and "told tx [radio] r \<Longrightarrow> ar_endTime (me_computeArrival env tx r) \<le> e'" by blast+
qed

lemma announcement_join:
  assumes "announcement env tx [radio] m m1" and "announcement env tx rs m1 m2" and "radio \<noteq> None \<longrightarrow> radio \<notin> set rs"
  shows "announcement env tx (radio # rs) m m2"
proof -
  have t: "told tx (radio # rs) r \<longleftrightarrow> told tx [radio] r \<or> told tx rs r" for r by (auto simp: told_def)
  have n: "\<not> (told tx [radio] r \<and> told tx rs r)" for r using assms(3) by (auto simp: told_def)
  have "entries_kept m m2" using assms(1,2) unfolding announcement_def by (blast intro: entries_kept_trans)
  then show ?thesis using assms(1,2) n unfolding announcement_def t by simp
qed

text \<open>A radio is in the list once; the list may have holes.\<close>

definition once :: "nat option list \<Rightarrow> bool" where
  "once rs \<longleftrightarrow> distinct (filter (\<lambda>r. r \<noteq> None) rs)"

lemma announce_all:
  assumes "foldR (announce vector_ops env tx) rs (e, m) = Inr (e', m')" and "known m (mt_id tx)" and "once rs"
  shows "announcement env tx rs m m' \<and> e \<le> e' \<and> (\<forall>r. told tx rs r \<longrightarrow> ar_endTime (me_computeArrival env tx r) \<le> e')"
  using assms
proof (induction rs arbitrary: e m)
  case Nil
  then show ?case by (simp add: announcement_def told_def)
next
  case (Cons radio rs)
  from Cons.prems(1) obtain e1 m1 where s: "announce vector_ops env tx radio (e, m) = Inr (e1, m1)"
    "foldR (announce vector_ops env tx) rs (e1, m1) = Inr (e', m')"
    by (auto elim!: andThen_InrE)
  note a = announce_one [OF s(1) Cons.prems(2)]
  have "known m1 (mt_id tx)" using a(1) Cons.prems(2) book_known unfolding announcement_def by blast
  note IH = Cons.IH [OF s(2) this]
  have o: "once rs" "radio \<noteq> None \<longrightarrow> radio \<notin> set rs" using Cons.prems(3) by (auto simp: once_def split: if_splits)
  have "ar_endTime (me_computeArrival env tx r) \<le> e'" if "told tx (radio # rs) r" for r
    using that a(3) [of r] IH [OF o(1)] by (fastforce simp: told_def)
  with announcement_join [OF a(1) _ o(2)] IH [OF o(1)] a(2) show ?case by auto
qed


subsection \<open>The invariant\<close>

text \<open>
  The cache holds the transmissions of the medium, which have consecutive ids up to the next free one; each
  has an end that is later than every arrival of it by the duration \<open>d\<close>; the timer is set for the end of the first; each
  radio in place has heard of every transmission of another one, and its intervals are those of the arrivals, in order.
\<close>

definition arrival_interval :: "vector_cache medium \<Rightarrow> nat \<Rightarrow> med_transmission \<Rightarrow> interval option" where
  "arrival_interval m r tx = map_option (make_interval tx) (arrival_of m r (mt_id tx))"

definition ids_consecutive :: "vector_cache medium \<Rightarrow> bool" where
  "ids_consecutive m \<longleftrightarrow> (\<exists>b. map mt_id (transmissions m) = [b..<nextTransmissionId m] \<and> b \<le> nextTransmissionId m
     \<and> length (transmissionCache (communicationCache m)) = length (transmissions m)
     \<and> (transmissions m \<noteq> [] \<longrightarrow> baseTransmissionId (communicationCache m) = int b))"

definition ends_recorded :: "simtime \<Rightarrow> vector_cache medium \<Rightarrow> bool" where
  "ends_recorded d m \<longleftrightarrow> (\<forall>tx\<in>set (transmissions m). \<exists>e. end_of m (mt_id tx) = Some e
     \<and> (\<forall>r a. arrival_of m r (mt_id tx) = Some a \<longrightarrow> ar_endTime a + d \<le> e))"

definition timer_set :: "vector_cache medium \<Rightarrow> bool" where
  "timer_set m \<longleftrightarrow> removeTimer m = (case transmissions m of [] \<Rightarrow> None | tx # _ \<Rightarrow> end_of m (mt_id tx))
     \<and> (\<forall>t. removeTimer m = Some t \<longrightarrow> simTime m \<le> t)"

definition all_told :: "vector_cache medium \<Rightarrow> bool" where
  "all_told m \<longleftrightarrow> once (med_radios m) \<and> (\<forall>tx\<in>set (transmissions m). \<forall>r.
     (told tx (med_radios m) r \<longrightarrow> arrival_of m r (mt_id tx) \<noteq> None)
     \<and> interval_of m r (mt_id tx) = arrival_interval m r tx)"

definition intervals_listed :: "vector_cache medium \<Rightarrow> bool" where
  "intervals_listed m \<longleftrightarrow> 0 \<le> baseRadioId (communicationCache m)
     \<and> (\<forall>r. heard m r = List.map_filter (arrival_interval m r) (transmissions m))"

definition core_inv :: "simtime \<Rightarrow> vector_cache medium \<Rightarrow> bool" where
  "core_inv d m \<longleftrightarrow> ids_consecutive m \<and> ends_recorded d m \<and> all_told m \<and> intervals_listed m
     \<and> maxTransmissionDuration (limits m) \<in> {None, Some d}"

definition med_inv :: "simtime \<Rightarrow> vector_cache medium \<Rightarrow> bool" where
  "med_inv d m \<longleftrightarrow> core_inv d m \<and> timer_set m"

lemmas inv_defs = core_inv_def ids_consecutive_def ends_recorded_def timer_set_def all_told_def intervals_listed_def

lemma steady_arrival_interval: "steady m m' \<Longrightarrow> arrival_interval m' = arrival_interval m"
  by (simp add: steady_def arrival_interval_def fun_eq_iff)

lemma steady_inv:
  assumes s: "steady m m'"
  shows "core_inv d m \<Longrightarrow> core_inv d m'" and "timer_set m \<Longrightarrow> timer_set m'"
proof -
  have v: "baseRadioId (communicationCache m') = baseRadioId (communicationCache m)"
    "baseTransmissionId (communicationCache m') = baseTransmissionId (communicationCache m)"
    "length (transmissionCache (communicationCache m')) = length (transmissionCache (communicationCache m))"
    "transmissions m' = transmissions m" "simTime m' = simTime m" "removeTimer m' = removeTimer m" "med_radios m' = med_radios m"
    "nextTransmissionId m' = nextTransmissionId m" "limits m' = limits m"
    using s by (simp_all add: steady_def book_def vec_shape_def)
  have w: "end_of m' = end_of m" "arrival_of m' = arrival_of m" "interval_of m' = interval_of m" "heard m' = heard m"
    using s by (simp_all add: steady_def)
  show "core_inv d m \<Longrightarrow> core_inv d m'" unfolding inv_defs v w steady_arrival_interval [OF s] .
  show "timer_set m \<Longrightarrow> timer_set m'" unfolding timer_set_def v w .
qed

lemma steady_med_inv: "steady m m' \<Longrightarrow> med_inv d m \<Longrightarrow> med_inv d m'"
  by (simp add: med_inv_def steady_inv)

lemma ids_known:
  assumes "ids_consecutive m"
  shows "known m t \<longleftrightarrow> t \<in> mt_id ` set (transmissions m)"
proof -
  from assms obtain b where b: "map mt_id (transmissions m) = [b..<nextTransmissionId m]" "b \<le> nextTransmissionId m"
    "length (transmissionCache (communicationCache m)) = length (transmissions m)"
    "transmissions m \<noteq> [] \<longrightarrow> baseTransmissionId (communicationCache m) = int b"
    unfolding ids_consecutive_def by blast
  have l: "length (transmissions m) = nextTransmissionId m - b" using arg_cong [OF b(1), of length] by simp
  have s: "mt_id ` set (transmissions m) = {b..<nextTransmissionId m}" using arg_cong [OF b(1), of set] by simp
  show ?thesis
  proof (cases "transmissions m")
    case Nil
    with b(3) show ?thesis by (simp add: vec_known_def)
  next
    case (Cons tx txs)
    then have n: "nextTransmissionId m = b + Suc (length txs)" using l b(2) by simp
    have "vec_known (communicationCache m) t \<longleftrightarrow> int b \<le> int t \<and> nat (int t - int b) < Suc (length txs)"
      using b(3,4) Cons by (simp add: vec_known_def)
    then show ?thesis unfolding s n by (simp add: nat_less_iff) arith
  qed
qed

lemma inv_known: "core_inv d m \<Longrightarrow> tx \<in> set (transmissions m) \<Longrightarrow> known m (mt_id tx)"
  by (simp add: core_inv_def ids_known)

lemma inv_intervals_known:
  assumes "core_inv d m"
  shows "intervals_known vector_ops vec_known m"
proof -
  have "known m (mt_id (iv_value iv))"
    if "radio_view vector_ops (communicationCache m) r = Some e" "receptionIntervals e = Some ivs" "iv \<in> set ivs" for r e ivs iv
  proof -
    from that have "iv \<in> set (heard m r)" by (simp add: heard_def intervals_of_def)
    then have "iv \<in> set (List.map_filter (arrival_interval m r) (transmissions m))"
      using assms by (simp add: core_inv_def intervals_listed_def)
    then obtain tx where "tx \<in> set (transmissions m)" "arrival_interval m r tx = Some iv"
      by (auto simp: List.map_filter_def)
    then show ?thesis using inv_known [OF assms] by (auto simp: arrival_interval_def make_interval_def)
  qed
  then show ?thesis unfolding intervals_known_def by blast
qed


subsection \<open>A new transmission\<close>

lemma vec_add_views:
  assumes "vec_addTransmission t c = Inr c1" and "t = b + length (transmissionCache c)"
    and "transmissionCache c \<noteq> [] \<longrightarrow> baseTransmissionId c = int b"
  shows "vec_shape c1 = (baseRadioId c, int b, Suc (length (transmissionCache c)))"
    and "radio_view vector_ops c1 = radio_view vector_ops c"
    and "transmission_view vector_ops c1 t = Some new_transmission_cache_entry"
    and "reception_view vector_ops c1 r t = (if int r < baseRadioId c then None else Some new_reception_cache_entry)"
    and "b \<le> t' \<Longrightarrow> t' < t \<Longrightarrow> transmission_view vector_ops c1 t' = transmission_view vector_ops c t'"
    and "b \<le> t' \<Longrightarrow> t' < t \<Longrightarrow> reception_view vector_ops c1 r t' = reception_view vector_ops c r t'"
proof -
  let ?n = "length (transmissionCache c)" and ?c = "if transmissionCache c = [] then c\<lparr>baseTransmissionId := int t\<rparr> else c"
  have c1: "c1 = snd (vec_touch t ?c)" using assms(1) by (auto simp: vec_addTransmission_def vec_getTransmission_def Let_def split: prod.splits)
  have c: "baseTransmissionId ?c = int b" "transmissionCache ?c = transmissionCache c" "radioCache ?c = radioCache c"
    "baseRadioId ?c = baseRadioId c"
    using assms(2,3) by auto
  have v: "same_views vector_ops ?c c1" unfolding c1 by (rule vec_touch_views)
  have new: "vec_entry ?c ?n = new_vector_transmission_entry" by (simp add: vec_entry_def nth_default_def c)
  have i: "nat (int t - int b) = ?n" using assms(2) by simp
  show "vec_shape c1 = (baseRadioId c, int b, Suc ?n)"
    unfolding c1 vec_touch_def c Let_def i using assms(2) c by (simp add: vec_shape_def grow_def resize_list_def)
  show "radio_view vector_ops c1 = radio_view vector_ops c"
    using v by (auto simp: same_views_def vec_radio_view fun_eq_iff)
  show "transmission_view vector_ops c1 t = Some new_transmission_cache_entry"
    using v assms(2) unfolding same_views_def
    by (simp add: vec_transmission_view c i new del: if_split)
      (simp add: new_vector_transmission_entry_def transmission_cache_entry.defs vector_transmission_entry.defs new_transmission_cache_entry_def)
  show "reception_view vector_ops c1 r t = (if int r < baseRadioId c then None else Some new_reception_cache_entry)"
    using v assms(2) unfolding same_views_def by (simp add: vec_reception_view c i new nth_default_def)
  assume t': "b \<le> t'" "t' < t"
  then have "transmissionCache c \<noteq> []" using assms(2) by auto
  then have "?c = c" by simp
  with v show "transmission_view vector_ops c1 t' = transmission_view vector_ops c t'"
    "reception_view vector_ops c1 r t' = reception_view vector_ops c r t'"
    by (simp_all add: same_views_def)
qed

lemma end_written:
  assumes "with_cache (setCachedInterferenceEndTime vector_ops t x) m = Inr (u, m')" and "known m t"
  shows "book m' = book m" and "arrival_of m' = arrival_of m" and "interval_of m' = interval_of m" and "heard m' = heard m"
    and "end_of m' = (end_of m)(t := Some x)" and "entries_kept m m'"
proof -
  from assms(1) obtain c where c: "with_transmission vector_ops t (\<lambda>e. ((), e\<lparr>interferenceEndTime := Some x\<rparr>)) (communicationCache m) = Inr (u, c)"
    "m' = m\<lparr>communicationCache := c\<rparr>"
    by (auto simp: with_cache_def setCachedInterferenceEndTime_def elim: andThen_InrE)
  note s = vector_shaped.with_transmission_shape [OF assms(2) c(1)]
  have "book m' = book m \<and> arrival_of m' = arrival_of m \<and> interval_of m' = interval_of m \<and> heard m' = heard m
     \<and> end_of m' = (end_of m)(t := Some x) \<and> entries_kept m m'"
    by (rule vector.with_transmission_views [OF c(1)])
      (simp add: book_def s c(2) end_of_def heard_def arrival_of_def interval_of_def fun_eq_iff entries_same med_entry_def)
  then show "book m' = book m" and "arrival_of m' = arrival_of m" and "interval_of m' = interval_of m" and "heard m' = heard m"
    and "end_of m' = (end_of m)(t := Some x)" and "entries_kept m m'" by blast+
qed

lemma end_read:
  assumes "with_cache (getCachedInterferenceEndTime vector_ops t) m = Inr (x, m')" and "known m t"
  shows "steady m m'" and "x = end_of m t"
proof -
  note s = transmission_steady [OF assms(1) [unfolded getCachedInterferenceEndTime_def] assms(2)]
  show "steady m m'" by (rule s(1)) simp
  show "x = end_of m t" using s(2) by (auto simp: end_of_def)
qed


text \<open>The steps of \<open>addTransmission\<close>, one after the other.\<close>

lemma addTransmission_steps:
  assumes "addTransmission vector_ops env tx m = Inr m'" and "maxTransmissionDuration (limits m) \<in> {None, Some d}"
    and len: "mt_id tx = b + length (transmissionCache (communicationCache m))"
    and base: "transmissionCache (communicationCache m) \<noteq> [] \<longrightarrow> baseTransmissionId (communicationCache m) = int b"
    and once: "once (med_radios m)" and idle: "removeTimer m = None \<longrightarrow> transmissions m = []"
  obtains c m2 m3 m4 e where "vec_addTransmission (mt_id tx) (communicationCache m) = Inr c"
    and "m2 = m\<lparr>transmissionCount := transmissionCount m + 1, transmissions := transmissions m @ [tx], communicationCache := c\<rparr>"
    and "announcement env tx (med_radios m) m2 m3" and "tr_endTime (mt_signal tx) \<le> e"
    and "\<And>r. told tx (med_radios m) r \<Longrightarrow> ar_endTime (me_computeArrival env tx r) \<le> e"
    and "book m4 = book m2" and "arrival_of m4 = arrival_of m3" and "interval_of m4 = interval_of m3" and "heard m4 = heard m3"
    and "end_of m4 = (end_of m3)(mt_id tx := Some (e + d))" and "entries_kept m3 m4"
    and "if removeTimer m = None then \<exists>m5. steady m4 m5 \<and> scheduleRemove (end_of m4 (mt_id tx)) m5 = Inr m'
         else m' = m4"
proof -
  let ?m1 = "m\<lparr>transmissionCount := transmissionCount m + 1, transmissions := transmissions m @ [tx]\<rparr>"
  from assms(1) obtain m2 e m3 d' u m4 where a: "set_cache (vec_addTransmission (mt_id tx)) ?m1 = Inr m2"
    "foldR (announce vector_ops env tx) (med_radios m2) (tr_endTime (mt_signal tx), m2) = Inr (e, m3)"
    "deref (maxTransmissionDuration (limits m3)) = Inr d'"
    "with_cache (setCachedInterferenceEndTime vector_ops (mt_id tx) (e + d')) m3 = Inr (u, m4)"
    and timer: "(if removeTimer m4 = None
                 then andThen (with_cache (getCachedInterferenceEndTime vector_ops (mt_id (hd (transmissions m4)))) m4)
                        (\<lambda>(e, m). scheduleRemove e m)
                 else Inr m4) = Inr m'"
    by (auto simp: addTransmission_def Let_def elim!: andThen_InrE)
  from a(1) obtain c where c: "vec_addTransmission (mt_id tx) (communicationCache m) = Inr c" "m2 = ?m1\<lparr>communicationCache := c\<rparr>"
    by (auto simp: set_cache_def elim: andThen_InrE)
  note s = vec_add_views(1) [OF c(1) len base]
  have m2: "med_radios m2 = med_radios m" "known m2 (mt_id tx)"
    using s len c(2) by (simp_all add: vec_known_def vec_shape_def)
  note ann = announce_all [OF a(2) m2(2) once [folded m2(1)], unfolded m2(1)]
  then have b3: "book m3 = book m2" by (simp add: announcement_def)
  have k3: "known m3 (mt_id tx)" using book_known [OF b3] m2(2) by simp
  note w = end_written [OF a(4) k3]
  have b4: "book m4 = book m2" using w(1) b3 by simp
  have "d' = d" using a(3) assms(2) b3 c(2) by (auto simp: deref_def book_def split: option.splits)
  have f4: "removeTimer m4 = removeTimer m" "transmissions m4 = transmissions m @ [tx]" using b4 c(2) by (simp_all add: book_def)
  have k4: "known m4 (mt_id tx)" using book_known [OF b4] m2(2) by simp
  show ?thesis
  proof (rule that [OF c(1) _ conjunct1 [OF ann] _ _ b4 w(2-4)])
    show "end_of m4 = (end_of m3)(mt_id tx := Some (e + d))" "entries_kept m3 m4" using w(5,6) \<open>d' = d\<close> by simp_all
    show "if removeTimer m = None then \<exists>m5. steady m4 m5 \<and> scheduleRemove (end_of m4 (mt_id tx)) m5 = Inr m'
         else m' = m4"
    proof (cases "removeTimer m = None")
      case True
      with timer idle obtain x m5 where r: "with_cache (getCachedInterferenceEndTime vector_ops (mt_id tx)) m4 = Inr (x, m5)"
        "scheduleRemove x m5 = Inr m'"
        unfolding f4 by (auto elim!: andThen_InrE)
      from end_read [OF r(1) k4] r(2) True show ?thesis by auto
    next
      case False
      with timer f4 show ?thesis by auto
    qed
  qed (use ann c(2) in simp_all)
qed


lemma new_transmission_views:
  assumes a: "vec_addTransmission t c = Inr c1" and m2: "m2 = m\<lparr>transmissionCount := k, transmissions := txs, communicationCache := c1\<rparr>"
    and c: "c = communicationCache m" and len: "t = b + length (transmissionCache c)"
    and base: "transmissionCache c \<noteq> [] \<longrightarrow> baseTransmissionId c = int b"
  shows "heard m2 = heard m" and "end_of m2 t = None" and "arrival_of m2 r t = None" and "interval_of m2 r t = None"
    and "b \<le> t' \<Longrightarrow> t' < t \<Longrightarrow> end_of m2 t' = end_of m t' \<and> arrival_of m2 r t' = arrival_of m r t' \<and> interval_of m2 r t' = interval_of m r t'"
    and "med_entry vector_ops m2 r t = Some e \<Longrightarrow> e = new_reception_cache_entry" and "b \<le> t' \<Longrightarrow> t' < t \<Longrightarrow> kept_at m m2 t'"
  using vec_add_views [OF a len base] c
  by (simp_all add: m2 med_entry_def kept_at_same split: if_splits)
    (simp_all add: heard_def end_of_def arrival_of_def interval_of_def fun_eq_iff new_transmission_cache_entry_def
      new_reception_cache_entry_def)

lemma map_filter_append: "List.map_filter f (xs @ ys) = List.map_filter f xs @ List.map_filter f ys"
  by (simp add: List.map_filter_def)

lemma map_filter_Nil [simp]: "List.map_filter f [] = []"
  by (simp add: List.map_filter_def)

lemma map_filter_cong: "(\<And>x. x \<in> set xs \<Longrightarrow> f x = g x) \<Longrightarrow> List.map_filter f xs = List.map_filter g xs"
  by (simp add: List.map_filter_def cong: filter_cong)

lemma scheduleRemove_eq: "scheduleRemove x m = Inr m' \<longleftrightarrow> (\<exists>t. x = Some t \<and> simTime m \<le> t \<and> m' = m\<lparr>removeTimer := Some t\<rparr>)"
  by (auto simp: scheduleRemove_def split: option.splits)

text \<open>The views do not depend on the parts of the medium outside the cache.\<close>

lemma views_outside:
  assumes "communicationCache m' = communicationCache m"
  shows "end_of m' = end_of m" "arrival_of m' = arrival_of m" "interval_of m' = interval_of m" "heard m' = heard m"
    "arrival_interval m' = arrival_interval m"
  using assms by (simp_all add: end_of_def arrival_of_def interval_of_def heard_def arrival_interval_def fun_eq_iff)

lemma new_entry_sound: "sound_entry new_reception_cache_entry"
  by (simp add: sound_entry_def first_decision_def new_reception_cache_entry_def)

lemma addTransmission_inv:
  assumes i: "med_inv d m0" and id: "mt_id tx = nextTransmissionId m0" and m: "m = m0\<lparr>nextTransmissionId := Suc (nextTransmissionId m0)\<rparr>"
    and a: "addTransmission vector_ops env tx m = Inr m'"
  shows "med_inv d m'" and "transmissions m' = transmissions m0 @ [tx]"
    and "arrival_of m' r (mt_id tx) = (if told tx (med_radios m0) r then Some (me_computeArrival env tx r) else None)"
    and "x \<in> set (transmissions m0) \<Longrightarrow> arrival_of m' r (mt_id x) = arrival_of m0 r (mt_id x)"
    and "med_radios m' = med_radios m0" and "x \<in> set (transmissions m0) \<Longrightarrow> kept_at m0 m' (mt_id x)"
    and "med_entry vector_ops m' r (mt_id tx) = Some y \<Longrightarrow> sound_entry y"
proof -
  let ?txs = "transmissions m0" and ?c0 = "communicationCache m0"
  from i obtain b where b: "map mt_id ?txs = [b..<nextTransmissionId m0]" "b \<le> nextTransmissionId m0"
    "length (transmissionCache ?c0) = length ?txs" "?txs \<noteq> [] \<longrightarrow> baseTransmissionId ?c0 = int b"
    unfolding med_inv_def core_inv_def ids_consecutive_def by blast
  have l: "length ?txs = nextTransmissionId m0 - b" using arg_cong [OF b(1), of length] by simp
  have len: "mt_id tx = b + length (transmissionCache (communicationCache m))" using id b(2,3) l m by simp
  have base: "transmissionCache (communicationCache m) \<noteq> [] \<longrightarrow> baseTransmissionId (communicationCache m) = int b"
    using b(3,4) m by auto
  have inv: "ends_recorded d m0" "timer_set m0" "all_told m0" "intervals_listed m0" "maxTransmissionDuration (limits m0) \<in> {None, Some d}"
    using i by (simp_all add: med_inv_def core_inv_def)
  have once: "once (med_radios m)" using inv(3) m by (simp add: all_told_def)
  have idle: "removeTimer m = None \<longrightarrow> transmissions m = []"
    using inv(1,2) m by (auto simp: timer_set_def ends_recorded_def split: list.splits)
  have old: "b \<le> mt_id x \<and> mt_id x < mt_id tx" if "x \<in> set ?txs" for x
  proof -
    have "mt_id x \<in> set [b..<nextTransmissionId m0]" unfolding b(1) [symmetric] using that by simp
    then show ?thesis using id by simp
  qed
  from inv(5) m have lim: "maxTransmissionDuration (limits m) \<in> {None, Some d}" by simp
  obtain c m2 m3 m4 e where s: "vec_addTransmission (mt_id tx) (communicationCache m) = Inr c"
    "m2 = m\<lparr>transmissionCount := transmissionCount m + 1, transmissions := transmissions m @ [tx], communicationCache := c\<rparr>"
    "announcement env tx (med_radios m) m2 m3" and "tr_endTime (mt_signal tx) \<le> e"
    and s4: "\<And>r. told tx (med_radios m) r \<Longrightarrow> ar_endTime (me_computeArrival env tx r) \<le> e"
    and u: "book m4 = book m2" "arrival_of m4 = arrival_of m3" "interval_of m4 = interval_of m3" "heard m4 = heard m3"
    "end_of m4 = (end_of m3)(mt_id tx := Some (e + d))" "entries_kept m3 m4"
    and timer: "if removeTimer m = None then \<exists>m5. steady m4 m5 \<and> scheduleRemove (end_of m4 (mt_id tx)) m5 = Inr m' else m' = m4"
    by (rule addTransmission_steps [OF a lim len base once idle]) (rule that; assumption)
  note v2 = new_transmission_views [OF s(1,2) refl len base]
  have outside: "arrival_of m = arrival_of m0" "interval_of m = interval_of m0" "end_of m = end_of m0" "heard m = heard m0"
    using views_outside [of m m0] m by simp_all
  have arr: "arrival_of m4 r (mt_id tx) = (if told tx (med_radios m0) r then Some (me_computeArrival env tx r) else None)" for r
    using s(3) u(2) v2(3) m by (simp add: announcement_def)
  have iv: "interval_of m4 r (mt_id tx) = map_option (make_interval tx) (arrival_of m4 r (mt_id tx))" for r
    using s(3) u(3) v2(4) m arr by (simp add: announcement_def)
  have old4: "arrival_of m4 r (mt_id x) = arrival_of m0 r (mt_id x) \<and> interval_of m4 r (mt_id x) = interval_of m0 r (mt_id x)
      \<and> end_of m4 (mt_id x) = end_of m0 (mt_id x)" if "x \<in> set ?txs" for r x
    using s(3) u(2,3,5) v2(5) [OF conjunct1 [OF old [OF that]] conjunct2 [OF old [OF that]]] old [OF that] outside
    by (simp add: announcement_def)
  have ai: "arrival_interval m4 r x = arrival_interval m0 r x" if "x \<in> set ?txs" for r x
    using old4 [OF that] by (simp add: arrival_interval_def)
  have h4: "heard m4 r = heard m0 r @ (case arrival_interval m4 r tx of None \<Rightarrow> [] | Some x \<Rightarrow> [x])" for r
    using s(3) u(4) v2(1) outside(4) m arr by (simp add: announcement_def arrival_interval_def)
  have b4: "simTime m4 = simTime m0" "transmissions m4 = ?txs @ [tx]" "removeTimer m4 = removeTimer m0"
    "nextTransmissionId m4 = Suc (nextTransmissionId m0)" "med_radios m4 = med_radios m0" "limits m4 = limits m0"
    "baseRadioId (communicationCache m4) = baseRadioId ?c0" "baseTransmissionId (communicationCache m4) = int b"
    "length (transmissionCache (communicationCache m4)) = Suc (length ?txs)"
    using s(2) u(1) m vec_add_views(1) [OF s(1) len base] b(3) by (simp_all add: book_def vec_shape_def)
  have I: "ids_consecutive m4"
    unfolding ids_consecutive_def by (rule exI [of _ b]) (use b4 b(1,2) id in simp)
  have E: "ends_recorded d m4"
    using inv(1) old4 s4 u(5) arr m by (auto simp: ends_recorded_def b4 split: if_splits)
  have A: "all_told m4"
    using inv(3) old4 ai iv arr by (auto simp: all_told_def b4 arrival_interval_def)
  have "List.map_filter (arrival_interval m4 r) ?txs = List.map_filter (arrival_interval m0 r) ?txs" for r
    by (rule map_filter_cong) (rule ai)
  with inv(4) h4 have H: "intervals_listed m4"
    by (auto simp: intervals_listed_def b4 map_filter_append split: option.splits)
  have T: "timer_set m4" if "removeTimer m \<noteq> None"
    using that inv(2) old4 m by (auto simp: timer_set_def b4 split: list.splits)
  have "med_inv d m' \<and> transmissions m' = ?txs @ [tx] \<and> arrival_of m' = arrival_of m4 \<and> med_radios m' = med_radios m0
    \<and> entries_kept m4 m'"
  proof (cases "removeTimer m = None")
    case False
    with timer T I E A H inv(5) b4 show ?thesis by (simp add: med_inv_def core_inv_def)
  next
    case True
    with timer obtain m5 t where m5: "steady m4 m5" "end_of m4 (mt_id tx) = Some t" "simTime m5 \<le> t" "m' = m5\<lparr>removeTimer := Some t\<rparr>"
      by (auto simp: scheduleRemove_eq)
    let ?m = "m4\<lparr>removeTimer := Some t\<rparr>"
    have o: "communicationCache ?m = communicationCache m4" by simp
    have "?txs = []" using True idle m by simp
    then have "timer_set ?m" using m5(1-3) b4 by (simp add: timer_set_def views_outside [OF o] steady_def book_def)
    moreover have "ids_consecutive ?m" "ends_recorded d ?m" "all_told ?m" "intervals_listed ?m"
      using I E A H by (simp_all add: ids_consecutive_def ends_recorded_def all_told_def intervals_listed_def views_outside [OF o])
    ultimately have "med_inv d ?m" using inv(5) b4 by (simp add: med_inv_def core_inv_def)
    moreover have "entries_kept ?m m4" "entries_kept m4 m5" "entries_kept m5 m'"
      using m5(1) by (simp_all add: m5(4) entries_outside steady_def)
    then have k: "entries_kept ?m m'" "entries_kept m4 m'" by (blast intro: entries_kept_trans)+
    then have "steady ?m m'"
      using m5(1) views_outside [OF o] views_outside [of m' m5] by (simp add: m5(4) steady_def book_def)
    ultimately have "med_inv d m'" "transmissions m' = ?txs @ [tx]"
      using steady_med_inv [of ?m m' d] steady_transmissions [of ?m m'] b4(2) by simp_all
    moreover have "arrival_of m' = arrival_of m4" "med_radios m' = med_radios m0"
      using m5(1) views_outside [of m' m5] b4(5) by (simp_all add: m5(4) steady_def book_def)
    ultimately show ?thesis using k(2) by simp
  qed
  moreover from this have k: "entries_kept m2 m'"
    using s(3) u(6) unfolding announcement_def by (blast intro: entries_kept_trans)
  have "kept_at m0 m' (mt_id x)" if "x \<in> set ?txs" for x
  proof (rule kept_at_trans)
    have "kept_at m m2 (mt_id x)" using v2(7) old [OF that] by blast
    then show "kept_at m0 m2 (mt_id x)" by (simp add: kept_at_def med_entry_def m)
    show "kept_at m2 m' (mt_id x)" using k by (simp add: entries_kept_def)
  qed
  moreover have "sound_entry y" if y: "med_entry vector_ops m' r (mt_id tx) = Some y"
  proof -
    have "rel_option entry_kept (med_entry vector_ops m2 r (mt_id tx)) (Some y)"
      using k y unfolding entries_kept_def kept_at_def by metis
    with v2(6) new_entry_sound show ?thesis by (auto simp: option_rel_Some2 entry_kept_def)
  qed
  ultimately
  show "med_inv d m'" and "transmissions m' = ?txs @ [tx]"
    and "arrival_of m' r (mt_id tx) = (if told tx (med_radios m0) r then Some (me_computeArrival env tx r) else None)"
    and "x \<in> set ?txs \<Longrightarrow> arrival_of m' r (mt_id x) = arrival_of m0 r (mt_id x)" and "med_radios m' = med_radios m0"
    and "x \<in> set ?txs \<Longrightarrow> kept_at m0 m' (mt_id x)" and "med_entry vector_ops m' r (mt_id tx) = Some y \<Longrightarrow> sound_entry y"
    using arr old4 by simp_all
qed


subsection \<open>Forgetting transmissions\<close>

lemma transmission_defined:
  assumes k: "known m t" and f: "\<And>e. interferenceEndTime (snd (f e)) = interferenceEndTime e"
  shows "\<exists>a m'. with_cache (with_transmission vector_ops t f) m = Inr (a, m') \<and> steady m m'"
proof -
  have "\<not> int t < baseTransmissionId (communicationCache m)" using k by (simp add: vec_known_def)
  then obtain e where "transmission_view vector_ops (communicationCache m) t = Some e" by (simp add: vec_transmission_view)
  then obtain c where c: "with_transmission vector_ops t f (communicationCache m) = Inr (fst (f e), c)"
    by (rule vector.with_transmission_defined [where f = f])
  then have "with_cache (with_transmission vector_ops t f) m = Inr (fst (f e), m\<lparr>communicationCache := c\<rparr>)"
    by (simp add: with_cache_def)
  moreover from transmission_steady(1) [OF this k f] have "steady m (m\<lparr>communicationCache := c\<rparr>)" .
  ultimately show ?thesis by blast
qed

lemma end_defined:
  assumes "known m t"
  shows "\<exists>m'. with_cache (getCachedInterferenceEndTime vector_ops t) m = Inr (end_of m t, m') \<and> steady m m'"
proof -
  obtain a m' where "with_cache (getCachedInterferenceEndTime vector_ops t) m = Inr (a, m')" "steady m m'"
    using transmission_defined [OF assms, of "\<lambda>e. (interferenceEndTime e, e)"] by (auto simp: getCachedInterferenceEndTime_def)
  with end_read(2) [OF this(1) assms] show ?thesis by blast
qed

definition over :: "vector_cache medium \<Rightarrow> med_transmission \<Rightarrow> bool" where
  "over m tx \<longleftrightarrow> (\<exists>e. end_of m (mt_id tx) = Some e \<and> e \<le> simTime m)"

lemma expired_transmissions_run:
  assumes "\<And>tx. tx \<in> set txs \<Longrightarrow> known m (mt_id tx) \<and> end_of m (mt_id tx) \<noteq> None"
  shows "\<exists>m'. expired_transmissions vector_ops txs m = Inr (length (takeWhile (over m) txs), m') \<and> steady m m'"
  using assms
proof (induction txs arbitrary: m)
  case Nil
  show ?case by simp
next
  case (Cons tx txs)
  from Cons.prems [of tx] obtain m1 e where e: "with_cache (getCachedInterferenceEndTime vector_ops (mt_id tx)) m = Inr (Some e, m1)"
    "steady m m1" "end_of m (mt_id tx) = Some e"
    using end_defined by (metis list.set_intros(1) option.exhaust)
  have o: "over m1 = over m" and n: "simTime m1 = simTime m" using e(2) by (simp_all add: over_def fun_eq_iff steady_def book_def)
  have "known m1 (mt_id tx') \<and> end_of m1 (mt_id tx') \<noteq> None" if "tx' \<in> set txs" for tx'
    using Cons.prems [of tx'] that steady_known [OF e(2)] e(2) by (simp add: steady_def)
  from Cons.IH [OF this] obtain m2 where "expired_transmissions vector_ops txs m1 = Inr (length (takeWhile (over m) txs), m2)" "steady m1 m2"
    unfolding o by blast
  moreover have "over m tx \<longleftrightarrow> e \<le> simTime m" by (simp add: over_def e(3))
  ultimately show ?case using e n by (auto intro: steady_trans)
qed

lemma removeTransmission_run:
  assumes k: "known m (mt_id tx)"
  shows "\<exists>m'. removeTransmission vector_ops tx m = Inr m' \<and> steady m m'"
proof -
  obtain a m1 where m1: "with_cache (getCachedFrame vector_ops (mt_id tx)) m = Inr (a, m1)" "steady m m1"
    using transmission_defined [OF k, of "\<lambda>e. (tce_frame e, e)"] by (auto simp: getCachedFrame_def)
  have k1: "known m1 (mt_id tx)" using k steady_known [OF m1(2)] by simp
  obtain u m2 where m2: "with_cache (removeCachedFrame vector_ops (mt_id tx)) m1 = Inr (u, m2)" "steady m1 m2"
    using transmission_defined [OF k1, of "\<lambda>e. ((), e\<lparr>tce_frame := None\<rparr>)"] by (auto simp: removeCachedFrame_def)
  have "set_cache (vec_removeTransmission (mt_id tx)) m2 = Inr m2" by (simp add: set_cache_def vec_removeTransmission_def)
  with m1 m2 show ?thesis by (auto simp: removeTransmission_def intro: steady_trans)
qed

lemma removeTransmissions_run:
  assumes "\<And>tx. tx \<in> set txs \<Longrightarrow> known m (mt_id tx)"
  shows "\<exists>m'. foldR (removeTransmission vector_ops) txs m = Inr m' \<and> steady m m'"
  using assms
proof (induction txs arbitrary: m)
  case Nil
  show ?case by simp
next
  case (Cons tx txs)
  obtain m1 where m1: "removeTransmission vector_ops tx m = Inr m1" "steady m m1"
    using removeTransmission_run Cons.prems by (metis list.set_intros(1))
  have "known m1 (mt_id tx')" if "tx' \<in> set txs" for tx'
    using Cons.prems that steady_known [OF m1(2)] by simp
  from Cons.IH [OF this] m1 show ?case by (auto intro: steady_trans)
qed

text \<open>Deleting the intervals of the first transmissions of the cache, radio by radio.\<close>

abbreviation radio_at :: "radio_cache_entry list \<Rightarrow> nat \<Rightarrow> radio_cache_entry" where
  "radio_at \<equiv> nth_default new_radio_cache_entry"

abbreviation interval_at :: "nat \<Rightarrow> reception_cache_entry list \<Rightarrow> interval option" where
  "interval_at i es \<equiv> rce_interval (nth_default new_reception_cache_entry es i)"

lemma new_entries_empty [simp]: "rce_interval new_reception_cache_entry = None" "rce_arrival new_reception_cache_entry = None"
  "receptionIntervals new_radio_cache_entry = None"
  by (simp_all add: new_reception_cache_entry_def new_radio_cache_entry_def)

lemma delete_intervals_run:
  assumes "\<And>i. interval_at i es \<noteq> None \<Longrightarrow> receptionIntervals (radio_at res i) \<noteq> None"
  shows "\<exists>res'. delete_intervals res es = Inr res' \<and> (\<forall>i. receptionIntervals (radio_at res' i)
    = (case interval_at i es of None \<Rightarrow> receptionIntervals (radio_at res i)
       | Some iv \<Rightarrow> map_option (remove1 iv) (receptionIntervals (radio_at res i))))"
  using assms
proof (induction res es rule: delete_intervals.induct)
  case (1 re res e es)
  obtain re' where d: "(case rce_interval e of
                None \<Rightarrow> Inr re
              | Some iv \<Rightarrow>
                  (case receptionIntervals re of
                     None \<Rightarrow> Inl (UndefinedBehaviour ''null pointer: receptionIntervals'')
                   | Some ivs \<Rightarrow> Inr (re\<lparr>receptionIntervals := Some (remove1 iv ivs)\<rparr>))) = Inr re'"
    and re': "receptionIntervals re' = (case rce_interval e of None \<Rightarrow> receptionIntervals re
       | Some iv \<Rightarrow> map_option (remove1 iv) (receptionIntervals re))"
    using "1.prems" [of 0] by (cases "rce_interval e"; cases "receptionIntervals re") auto
  have "interval_at i es \<noteq> None \<Longrightarrow> receptionIntervals (radio_at res i) \<noteq> None" for i
    using "1.prems" [of "Suc i"] by simp
  from "1.IH" [OF d this] obtain res' where res': "delete_intervals res es = Inr res'" "\<And>i. receptionIntervals (radio_at res' i)
    = (case interval_at i es of None \<Rightarrow> receptionIntervals (radio_at res i)
       | Some iv \<Rightarrow> map_option (remove1 iv) (receptionIntervals (radio_at res i)))" by blast
  show ?case
  proof (intro exI [of _ "re' # res'"] conjI allI)
    show "delete_intervals (re # res) (e # es) = Inr (re' # res')" using d res'(1) by simp
    show "receptionIntervals (radio_at (re' # res') i)
      = (case interval_at i (e # es) of None \<Rightarrow> receptionIntervals (radio_at (re # res) i)
         | Some iv \<Rightarrow> map_option (remove1 iv) (receptionIntervals (radio_at (re # res) i)))" for i
      using re' res'(2) by (cases i) (simp_all split: option.splits)
  qed
next
  case (2 res)
  then show ?case by simp
next
  case (3 e es)
  then have "interval_at i (e # es) = None" for i by fastforce
  then show ?case by simp
qed


lemma delete_transmissions_run:
  assumes "\<And>i. intervals_of (radio_at res i) = List.map_filter (\<lambda>te. interval_at i (entries_of te)) (tes @ kept)"
  shows "\<exists>res'. foldR delete_transmission_intervals tes res = Inr res'
    \<and> (\<forall>i. intervals_of (radio_at res' i) = List.map_filter (\<lambda>te. interval_at i (entries_of te)) kept)"
  using assms
proof (induction tes arbitrary: res)
  case Nil
  then show ?case by simp
next
  case (Cons te tes)
  have "receptionIntervals (radio_at res i) \<noteq> None" if "interval_at i (entries_of te) \<noteq> None" for i
    using Cons.prems [of i] that by (auto simp: intervals_of_def split: option.splits)
  from delete_intervals_run [of "entries_of te", OF this] obtain res1 where
    r: "delete_intervals res (entries_of te) = Inr res1" "\<And>i. receptionIntervals (radio_at res1 i)
      = (case interval_at i (entries_of te) of None \<Rightarrow> receptionIntervals (radio_at res i)
         | Some iv \<Rightarrow> map_option (remove1 iv) (receptionIntervals (radio_at res i)))"
    by blast
  have d: "delete_transmission_intervals te res = Inr res1"
    using r(1) by (simp add: delete_transmission_intervals_def entries_of_def split: option.splits)
  have "intervals_of (radio_at res1 i) = List.map_filter (\<lambda>te. interval_at i (entries_of te)) (tes @ kept)" for i
    using Cons.prems [of i] r(2) [of i]
    by (cases "interval_at i (entries_of te)") (auto simp: intervals_of_def split: option.splits)
  from Cons.IH [OF this] d show ?case by auto
qed

lemma expired_prefix_run:
  assumes "\<And>te. te \<in> set tes \<Longrightarrow> interferenceEndTime te \<noteq> None"
  shows "expired_prefix now tes = Inr (length (takeWhile (\<lambda>te. the (interferenceEndTime te) \<le> now) tes))"
  using assms by (induction tes) (auto split: option.splits)

text \<open>The entries of the cache are those of the transmissions, one by one.\<close>

lemma cache_entry_of:
  assumes "ids_consecutive m" and "j < length (transmissions m)"
  defines "te \<equiv> transmissionCache (communicationCache m) ! j"
  shows "end_of m (mt_id (transmissions m ! j)) = interferenceEndTime te"
    and "baseRadioId (communicationCache m) = int r0 \<Longrightarrow> interval_of m (r0 + i) (mt_id (transmissions m ! j)) = interval_at i (entries_of te)"
proof -
  let ?c = "communicationCache m"
  from assms(1) obtain b where b: "map mt_id (transmissions m) = [b..<nextTransmissionId m]"
    "length (transmissionCache ?c) = length (transmissions m)" "transmissions m \<noteq> [] \<longrightarrow> baseTransmissionId ?c = int b"
    unfolding ids_consecutive_def by blast
  have l: "length (transmissions m) = nextTransmissionId m - b" using arg_cong [OF b(1), of length] by simp
  have id: "mt_id (transmissions m ! j) = b + j"
    using arg_cong [OF b(1), of "\<lambda>xs. xs ! j"] assms(2) l by simp
  have base: "baseTransmissionId ?c = int b" using b(3) assms(2) by auto
  have te: "vec_entry ?c j = te" using assms(2) b(2) by (simp add: vec_entry_def nth_default_def te_def)
  show "end_of m (mt_id (transmissions m ! j)) = interferenceEndTime te"
    by (simp add: end_of_def vec_transmission_view id base te transmission_cache_entry.defs)
  show "interval_of m (r0 + i) (mt_id (transmissions m ! j)) = interval_at i (entries_of te)" if "baseRadioId ?c = int r0"
    by (simp add: interval_of_def vec_reception_view id base te that)
qed


lemma map_filter_as_map: "List.map_filter f xs = map the (filter (\<lambda>x. x \<noteq> None) (map f xs))"
  by (simp add: List.map_filter_def filter_map o_def)

lemma map_filter_map_eq: "map f xs = map g ys \<Longrightarrow> List.map_filter f xs = List.map_filter g ys"
  by (simp add: map_filter_as_map)

lemma takeWhile_map_eq:
  assumes "map f xs = map g ys"
  shows "length (takeWhile (\<lambda>x. P (f x)) xs) = length (takeWhile (\<lambda>y. P (g y)) ys)"
proof -
  have "length (takeWhile (\<lambda>x. P (f x)) xs) = length (takeWhile P (map f xs))" by (simp add: takeWhile_map o_def)
  also have "\<dots> = length (takeWhile (\<lambda>y. P (g y)) ys)" unfolding assms by (simp add: takeWhile_map o_def)
  finally show ?thesis .
qed

text \<open>The entries of the cache, as lists.\<close>

lemma cache_entries:
  assumes "ids_consecutive m"
  shows "map (\<lambda>tx. end_of m (mt_id tx)) (transmissions m) = map interferenceEndTime (transmissionCache (communicationCache m))"
    and "baseRadioId (communicationCache m) = int r0 \<Longrightarrow> map (\<lambda>tx. interval_of m (r0 + i) (mt_id tx)) (transmissions m)
      = map (\<lambda>te. interval_at i (entries_of te)) (transmissionCache (communicationCache m))"
proof -
  have l: "length (transmissionCache (communicationCache m)) = length (transmissions m)"
    using assms unfolding ids_consecutive_def by blast
  show "map (\<lambda>tx. end_of m (mt_id tx)) (transmissions m) = map interferenceEndTime (transmissionCache (communicationCache m))"
    by (rule nth_equalityI) (simp_all add: l cache_entry_of(1) [OF assms])
  show "map (\<lambda>tx. interval_of m (r0 + i) (mt_id tx)) (transmissions m)
      = map (\<lambda>te. interval_at i (entries_of te)) (transmissionCache (communicationCache m))"
    if "baseRadioId (communicationCache m) = int r0"
    by (rule nth_equalityI) (simp_all add: l cache_entry_of(2) [OF assms _ that])
qed

text \<open>What the cache drops when the time of its first transmissions is over.\<close>

lemma vec_remove_run:
  assumes ids: "ids_consecutive m" and ends: "ends_recorded d m" and told: "all_told m" and listed: "intervals_listed m"
  defines "n \<equiv> length (takeWhile (over m) (transmissions m))" and "c \<equiv> communicationCache m"
  obtains res where "vec_removeNonInterfering (simTime m) c = Inr (c\<lparr>radioCache := res,
      baseTransmissionId := baseTransmissionId c + int n, transmissionCache := drop n (transmissionCache c)\<rparr>)"
    and "\<And>i r0. baseRadioId c = int r0 \<Longrightarrow> intervals_of (radio_at res i)
      = List.map_filter (\<lambda>tx. interval_of m (r0 + i) (mt_id tx)) (drop n (transmissions m))"
proof -
  let ?tes = "transmissionCache c" and ?P = "\<lambda>x. \<exists>e. x = Some e \<and> e \<le> simTime m"
  have e: "map (\<lambda>tx. end_of m (mt_id tx)) (transmissions m) = map interferenceEndTime ?tes"
    using cache_entries(1) [OF ids] by (simp add: c_def)
  have some: "interferenceEndTime te \<noteq> None" if "te \<in> set ?tes" for te
  proof -
    have "interferenceEndTime te \<in> set (map (\<lambda>tx. end_of m (mt_id tx)) (transmissions m))" unfolding e using that by simp
    then show ?thesis using ends by (auto simp: ends_recorded_def)
  qed
  have "n = length (takeWhile (\<lambda>te. ?P (interferenceEndTime te)) ?tes)"
    unfolding n_def over_def by (rule takeWhile_map_eq [OF e])
  also have "\<dots> = length (takeWhile (\<lambda>te. the (interferenceEndTime te) \<le> simTime m) ?tes)"
    by (intro arg_cong [of _ _ length] takeWhile_cong) (use some in fastforce)+
  finally have p: "expired_prefix (simTime m) ?tes = Inr n" using expired_prefix_run [OF some] by simp
  obtain r0 where r0: "baseRadioId c = int r0"
    using listed unfolding intervals_listed_def c_def by (metis nonneg_int_cases)
  note iv = cache_entries(2) [OF ids r0 [unfolded c_def], folded c_def]
  have "intervals_of (radio_at (radioCache c) i) = heard m (r0 + i)" for i
    by (simp add: heard_def vec_radio_view r0 [unfolded c_def] c_def)
  also have "heard m (r0 + i) = List.map_filter (\<lambda>tx. interval_of m (r0 + i) (mt_id tx)) (transmissions m)" for i
    using listed told by (auto simp: intervals_listed_def all_told_def intro: map_filter_cong)
  also have "\<dots> i = List.map_filter (\<lambda>te. interval_at i (entries_of te)) (take n ?tes @ drop n ?tes)" for i
    unfolding append_take_drop_id by (rule map_filter_map_eq [OF iv])
  finally obtain res where res: "foldR delete_transmission_intervals (take n ?tes) (radioCache c) = Inr res"
    "\<And>i. intervals_of (radio_at res i) = List.map_filter (\<lambda>te. interval_at i (entries_of te)) (drop n ?tes)"
    using delete_transmissions_run by blast
  show ?thesis
  proof (rule that [of res])
    show "vec_removeNonInterfering (simTime m) c = Inr (c\<lparr>radioCache := res,
        baseTransmissionId := baseTransmissionId c + int n, transmissionCache := drop n ?tes\<rparr>)"
      by (simp add: vec_removeNonInterfering_def p res(1))
    show "intervals_of (radio_at res i) = List.map_filter (\<lambda>tx. interval_of m (r1 + i) (mt_id tx)) (drop n (transmissions m))"
      if "baseRadioId c = int r1" for i r1
      unfolding res(2) by (rule map_filter_map_eq) (use iv that r0 in \<open>simp add: drop_map [symmetric]\<close>)
  qed
qed


lemma dropped_views:
  fixes c :: vector_cache and res :: "radio_cache_entry list"
  assumes "baseTransmissionId c + int n \<le> int t"
  defines "c' \<equiv> c\<lparr>radioCache := res, baseTransmissionId := baseTransmissionId c + int n, transmissionCache := drop n (transmissionCache c)\<rparr>"
  shows "transmission_view vector_ops c' t = transmission_view vector_ops c t"
    and "reception_view vector_ops c' r t = reception_view vector_ops c r t"
proof -
  have d: "nth_default e (drop n xs) k = nth_default e xs (n + k)" for e :: 'a and xs k by (auto simp: nth_default_def)
  have k: "n + nat (int t - (baseTransmissionId c + int n)) = nat (int t - baseTransmissionId c)" using assms(1) by simp
  have "vec_entry c' (nat (int t - (baseTransmissionId c + int n))) = vec_entry c (nat (int t - baseTransmissionId c))"
    unfolding vec_entry_def c'_def vector_cache.simps vector_cache.select_convs by (simp add: d k [symmetric])
  then show "transmission_view vector_ops c' t = transmission_view vector_ops c t"
    and "reception_view vector_ops c' r t = reception_view vector_ops c r t"
    using assms(1) by (simp_all add: vec_transmission_view vec_reception_view c'_def)
qed

lemma map_filter_none: "(\<And>x. x \<in> set xs \<Longrightarrow> f x = None) \<Longrightarrow> List.map_filter f xs = []"
  by (induction xs) simp_all

lemma purge_inv:
  assumes i: "core_inv d m"
  defines "n \<equiv> length (takeWhile (over m) (transmissions m))"
  obtains c where "vec_removeNonInterfering (simTime m) (communicationCache m) = Inr c"
    and "core_inv d (m\<lparr>transmissions := drop n (transmissions m), communicationCache := c\<rparr>)"
    and "\<And>tx. tx \<in> set (drop n (transmissions m)) \<Longrightarrow> end_of (m\<lparr>communicationCache := c\<rparr>) (mt_id tx) = end_of m (mt_id tx)"
    and "\<And>tx r. tx \<in> set (drop n (transmissions m)) \<Longrightarrow> arrival_of (m\<lparr>communicationCache := c\<rparr>) r (mt_id tx) = arrival_of m r (mt_id tx)"
    and "\<And>tx. tx \<in> set (drop n (transmissions m)) \<Longrightarrow> kept_at m (m\<lparr>transmissions := drop n (transmissions m), communicationCache := c\<rparr>) (mt_id tx)"
proof -
  let ?c = "communicationCache m" and ?txs = "transmissions m"
  from i have inv: "ids_consecutive m" "ends_recorded d m" "all_told m" "intervals_listed m"
    "maxTransmissionDuration (limits m) \<in> {None, Some d}"
    by (simp_all add: core_inv_def)
  from inv(1) obtain b where b: "map mt_id ?txs = [b..<nextTransmissionId m]" "b \<le> nextTransmissionId m"
    "length (transmissionCache ?c) = length ?txs" "?txs \<noteq> [] \<longrightarrow> baseTransmissionId ?c = int b"
    unfolding ids_consecutive_def by blast
  have l: "length ?txs = nextTransmissionId m - b" using arg_cong [OF b(1), of length] by simp
  have n: "n \<le> length ?txs" unfolding n_def by (rule length_takeWhile_le)
  from inv(4) obtain r0 where r0: "baseRadioId ?c = int r0"
    unfolding intervals_listed_def by (metis nonneg_int_cases)
  obtain res where res: "vec_removeNonInterfering (simTime m) ?c = Inr (?c\<lparr>radioCache := res,
      baseTransmissionId := baseTransmissionId ?c + int n, transmissionCache := drop n (transmissionCache ?c)\<rparr>)"
    "\<And>i. intervals_of (radio_at res i) = List.map_filter (\<lambda>tx. interval_of m (r0 + i) (mt_id tx)) (drop n ?txs)"
    using vec_remove_run [OF inv(1-4)] r0 unfolding n_def by metis
  define c where "c = ?c\<lparr>radioCache := res, baseTransmissionId := baseTransmissionId ?c + int n, transmissionCache := drop n (transmissionCache ?c)\<rparr>"
  let ?m = "m\<lparr>transmissions := drop n ?txs, communicationCache := c\<rparr>" and ?mc = "m\<lparr>communicationCache := c\<rparr>"
  have o: "end_of ?m = end_of ?mc" "arrival_of ?m = arrival_of ?mc" "interval_of ?m = interval_of ?mc" "heard ?m = heard ?mc"
    "arrival_interval ?m = arrival_interval ?mc"
    by (rule views_outside, simp)+
  have ids: "map mt_id (drop n ?txs) = [b + n..<nextTransmissionId m]"
    using arg_cong [OF b(1), of "drop n"] by (simp add: drop_map)
  have kept: "baseTransmissionId ?c + int n \<le> int (mt_id tx)" if "tx \<in> set (drop n ?txs)" for tx
  proof -
    have "mt_id tx \<in> set [b + n..<nextTransmissionId m]" unfolding ids [symmetric] using that by simp
    moreover have "?txs \<noteq> []" using that by auto
    ultimately show ?thesis using b(4) by simp
  qed
  note view = dropped_views [OF kept, of _ res, folded c_def]
  have same: "end_of ?mc (mt_id tx) = end_of m (mt_id tx)" "arrival_of ?mc r (mt_id tx) = arrival_of m r (mt_id tx)"
    "interval_of ?mc r (mt_id tx) = interval_of m r (mt_id tx)" if "tx \<in> set (drop n ?txs)" for tx r
    using view [OF that] by (simp_all add: end_of_def arrival_of_def interval_of_def)
  have entry: "kept_at m ?m (mt_id tx)" if "tx \<in> set (drop n ?txs)" for tx
    by (rule kept_at_same) (simp add: med_entry_def view [OF that])
  have sub: "tx \<in> set ?txs" if "tx \<in> set (drop n ?txs)" for tx using that by (rule in_set_dropD)
  have ai: "interval_of m r (mt_id tx) = arrival_interval ?mc r tx" if "tx \<in> set (drop n ?txs)" for r tx
    using inv(3) sub [OF that] same(2) [OF that] by (simp add: all_told_def arrival_interval_def)
  have H: "heard ?mc r = List.map_filter (arrival_interval ?mc r) (drop n ?txs)" for r
  proof (cases "r < r0")
    case True
    then show ?thesis
      by (subst map_filter_none) (simp_all add: heard_def arrival_interval_def arrival_of_def vec_radio_view vec_reception_view c_def r0)
  next
    case False
    then obtain i where r: "r = r0 + i" by (metis le_add_diff_inverse not_less)
    have "heard ?mc r = intervals_of (radio_at res i)" by (simp add: heard_def vec_radio_view c_def r0 r)
    also have "\<dots> = List.map_filter (arrival_interval ?mc r) (drop n ?txs)"
      unfolding res(2) r [symmetric] by (rule map_filter_cong) (rule ai)
    finally show ?thesis .
  qed
  have I: "ids_consecutive ?m"
    unfolding ids_consecutive_def by (rule exI [of _ "b + n"]) (use ids b n l in \<open>auto simp: c_def\<close>)
  have "ends_recorded d ?m" using inv(2) same sub by (simp add: ends_recorded_def o)
  moreover have "all_told ?m" using inv(3) same sub ai by (simp add: all_told_def o)
  moreover have "0 \<le> baseRadioId c" by (simp add: c_def r0)
  then have "intervals_listed ?m" using H by (simp add: intervals_listed_def o)
  ultimately have "core_inv d ?m" using I inv(5) by (simp add: core_inv_def)
  with res(1) same entry show ?thesis by (intro that [of c]) (simp_all add: c_def)
qed


lemma handleMessage_run:
  assumes i: "core_inv d m"
  shows "\<exists>m'. med_handleMessage vector_ops m = Inr m' \<and> med_inv d m' \<and> transmissions m' = dropWhile (over m) (transmissions m)
    \<and> simTime m' = simTime m \<and> med_radios m' = med_radios m
    \<and> (\<forall>tx\<in>set (transmissions m'). end_of m' (mt_id tx) = end_of m (mt_id tx) \<and> (\<forall>r. arrival_of m' r (mt_id tx) = arrival_of m r (mt_id tx))
        \<and> kept_at m m' (mt_id tx))"
proof -
  let ?m0 = "m\<lparr>removeTimer := None\<rparr>" and ?txs = "transmissions m" and ?n = "length (takeWhile (over m) (transmissions m))"
  have o0: "end_of ?m0 = end_of m" "arrival_of ?m0 = arrival_of m" "interval_of ?m0 = interval_of m" "heard ?m0 = heard m"
    "arrival_interval ?m0 = arrival_interval m"
    by (rule views_outside, simp)+
  have i0: "core_inv d ?m0" using i by (simp add: inv_defs o0)
  have ov0: "over ?m0 = over m" by (simp add: over_def fun_eq_iff o0)
  have k0: "known ?m0 (mt_id tx) \<and> end_of ?m0 (mt_id tx) \<noteq> None" if "tx \<in> set ?txs" for tx
    using inv_known [OF i that] i that by (auto simp: o0 core_inv_def ends_recorded_def)
  from expired_transmissions_run [OF k0] obtain m1 where
    m1: "expired_transmissions vector_ops ?txs ?m0 = Inr (?n, m1)" "steady ?m0 m1"
    unfolding ov0 by blast
  have t1: "transmissions m1 = ?txs" using steady_transmissions [OF m1(2)] by simp
  have "known m1 (mt_id tx)" if "tx \<in> set (take ?n ?txs)" for tx
    using k0 [OF in_set_takeD [OF that]] steady_known [OF m1(2)] by simp
  from removeTransmissions_run [OF this] obtain m2 where
    m2: "foldR (removeTransmission vector_ops) (take ?n ?txs) m1 = Inr m2" "steady m1 m2" by blast
  have s: "steady ?m0 m2" using steady_trans [OF m1(2) m2(2)] .
  note i2 = steady_inv(1) [OF s i0]
  have f2: "transmissions m2 = ?txs" "simTime m2 = simTime m" "med_radios m2 = med_radios m" "removeTimer m2 = None" "over m2 = over m"
    "end_of m2 = end_of m" "arrival_of m2 = arrival_of m"
    using s by (simp_all add: steady_def book_def over_def fun_eq_iff o0)
  obtain c where c: "vec_removeNonInterfering (simTime m2) (communicationCache m2) = Inr c"
    "core_inv d (m2\<lparr>transmissions := drop ?n ?txs, communicationCache := c\<rparr>)"
    "\<And>tx. tx \<in> set (drop ?n ?txs) \<Longrightarrow> end_of (m2\<lparr>communicationCache := c\<rparr>) (mt_id tx) = end_of m (mt_id tx)"
    "\<And>tx r. tx \<in> set (drop ?n ?txs) \<Longrightarrow> arrival_of (m2\<lparr>communicationCache := c\<rparr>) r (mt_id tx) = arrival_of m r (mt_id tx)"
    "\<And>tx. tx \<in> set (drop ?n ?txs) \<Longrightarrow> kept_at m2 (m2\<lparr>transmissions := drop ?n ?txs, communicationCache := c\<rparr>) (mt_id tx)"
    using purge_inv [OF i2] unfolding f2 by metis
  let ?m3 = "m2\<lparr>transmissions := drop ?n ?txs, communicationCache := c\<rparr>"
  have o3: "end_of ?m3 = end_of (m2\<lparr>communicationCache := c\<rparr>)" "arrival_of ?m3 = arrival_of (m2\<lparr>communicationCache := c\<rparr>)"
    by (rule views_outside, simp)+
  have run: "med_handleMessage vector_ops m = (if 0 < length (drop ?n ?txs)
      then andThen (with_cache (getCachedInterferenceEndTime vector_ops (mt_id (hd (drop ?n ?txs)))) ?m3) (\<lambda>(e, m). scheduleRemove e m)
      else Inr ?m3)"
    using m1(1) m2(1) c(1) by (simp add: med_handleMessage_def removeNonInterferingTransmissions_def t1 f2(1) set_cache_def Let_def)
  have dw: "drop ?n ?txs = dropWhile (over m) ?txs" by (simp add: dropWhile_eq_drop)
  have "entries_kept m ?m0" by (rule entries_outside) simp
  then have "entries_kept m m2" using s unfolding steady_def by (blast intro: entries_kept_trans)
  then have keep: "end_of ?m3 (mt_id tx) = end_of m (mt_id tx) \<and> arrival_of ?m3 r (mt_id tx) = arrival_of m r (mt_id tx)
      \<and> kept_at m ?m3 (mt_id tx)"
    if "tx \<in> set (drop ?n ?txs)" for tx r
    using c(3-5) that unfolding o3 entries_kept_def by (blast intro: kept_at_trans)
  show ?thesis
  proof (cases "drop ?n ?txs")
    case Nil
    have T: "timer_set (m2\<lparr>transmissions := [], communicationCache := c\<rparr>)" by (simp add: timer_set_def f2)
    have w: "dropWhile (over m) ?txs = []" using Nil unfolding dw .
    show ?thesis unfolding run Nil using T c(2) [unfolded Nil] f2(2,3) by (simp add: med_inv_def w del: dropWhile_eq_Nil_conv)
  next
    case (Cons tx rest_txs)
    have tx: "tx \<in> set (drop ?n ?txs)" using Cons by simp
    have "\<not> over m tx" using Cons unfolding dw by (rule dropWhile_eq_Cons_conv [THEN iffD1, THEN conjunct2])
    moreover obtain e where e: "end_of m (mt_id tx) = Some e"
      using k0 [OF in_set_dropD [OF tx]] unfolding o0 by blast
    ultimately have later: "simTime m < e" by (simp add: over_def)
    have k3: "known ?m3 (mt_id tx)" by (rule inv_known [OF c(2)]) (use tx in simp)
    from end_defined [OF k3] keep [OF tx] e obtain m4 where
      m4: "with_cache (getCachedInterferenceEndTime vector_ops (mt_id tx)) ?m3 = Inr (Some e, m4)" "steady ?m3 m4" by auto
    let ?m5 = "m4\<lparr>removeTimer := Some e\<rparr>"
    have o5: "end_of ?m5 = end_of m4" "arrival_of ?m5 = arrival_of m4" "interval_of ?m5 = interval_of m4" "heard ?m5 = heard m4"
      "arrival_interval ?m5 = arrival_interval m4"
      by (rule views_outside, simp)+
    have f4: "transmissions m4 = drop ?n ?txs" "simTime m4 = simTime m" "med_radios m4 = med_radios m" "end_of m4 = end_of ?m3" "arrival_of m4 = arrival_of ?m3"
      using m4(2) f2(2,3) by (simp_all add: steady_def book_def)
    have "med_handleMessage vector_ops m = Inr ?m5"
      unfolding run using m4(1) Cons later f4(2) by (simp add: scheduleRemove_def)
    moreover have "core_inv d ?m5" using steady_inv(1) [OF m4(2) c(2)] by (simp add: inv_defs o5)
    moreover have "timer_set ?m5"
      using keep [OF tx] e later by (simp add: timer_set_def o5 f4 Cons)
    moreover have "entries_kept ?m3 ?m5" using m4(2) entries_outside [of ?m5 m4] by (auto simp: steady_def intro: entries_kept_trans)
    then have "kept_at m ?m5 (mt_id x)" if "x \<in> set (drop ?n ?txs)" for x
      using keep [OF that] by (auto simp: entries_kept_def intro: kept_at_trans)
    ultimately show ?thesis
      using keep by (auto simp: med_inv_def o5 f4 dw)
  qed
qed


subsection \<open>What the radios ask leaves the book alone\<close>

definition ready :: "vector_cache medium \<Rightarrow> med_transmission \<Rightarrow> bool" where
  "ready m tx \<longleftrightarrow> intervals_known vector_ops vec_known m \<and> known m (mt_id tx)"

lemma intervals_known_heard: "intervals_known vector_ops vec_known m \<longleftrightarrow> (\<forall>r. \<forall>iv\<in>set (heard m r). known m (mt_id (iv_value iv)))"
proof
  assume i: "intervals_known vector_ops vec_known m"
  show "\<forall>r. \<forall>iv\<in>set (heard m r). known m (mt_id (iv_value iv))"
  proof (intro allI ballI)
    fix r iv
    assume "iv \<in> set (heard m r)"
    then obtain e ivs where "radio_view vector_ops (communicationCache m) r = Some e" "receptionIntervals e = Some ivs" "iv \<in> set ivs"
      by (cases "radio_view vector_ops (communicationCache m) r"; cases "receptionIntervals (the (radio_view vector_ops (communicationCache m) r))")
        (auto simp: heard_def intervals_of_def)
    with i show "known m (mt_id (iv_value iv))" unfolding intervals_known_def by blast
  qed
next
  assume h: "\<forall>r. \<forall>iv\<in>set (heard m r). known m (mt_id (iv_value iv))"
  show "intervals_known vector_ops vec_known m"
    unfolding intervals_known_def
  proof (intro allI impI ballI)
    fix r e ivs iv
    assume "radio_view vector_ops (communicationCache m) r = Some e" "receptionIntervals e = Some ivs" "iv \<in> set ivs"
    then have "iv \<in> set (heard m r)" by (simp add: heard_def intervals_of_def)
    with h show "known m (mt_id (iv_value iv))" by blast
  qed
qed

lemma steady_ready: "steady m m' \<Longrightarrow> ready m tx \<Longrightarrow> ready m' tx"
  using steady_known [of m m'] by (simp add: ready_def intervals_known_heard steady_def)

lemma inv_ready: "core_inv d m \<Longrightarrow> tx \<in> set (transmissions m) \<Longrightarrow> ready m tx"
  by (simp add: ready_def inv_known inv_intervals_known)

lemma counts_steady: "counts f \<Longrightarrow> steady m (f m)"
  by (rule grows_steady [OF counts_grows])

lemma receivers_steady: "steady m (m\<lparr>receivers := g\<rparr>)"
  by (rule counts_steady [of "\<lambda>m. m\<lparr>receivers := g\<rparr>"]) (simp add: counts_def rest_def)

lemma reception_steady: "getReception vector_ops env r tx m = Inr (x, m') \<Longrightarrow> ready m tx \<Longrightarrow> steady m m'"
  unfolding ready_def by (blast intro: grows_steady vector_shaped.getReception_grows(1))

lemma interference_steady:
  "computeInterference vector_ops env r l tx m = Inr (x, m') \<Longrightarrow> ready m tx \<Longrightarrow> steady m m'"
  "getInterference vector_ops env r l tx m = Inr (x, m') \<Longrightarrow> ready m tx \<Longrightarrow> steady m m'"
  unfolding ready_def
  by (blast intro: grows_steady vector_shaped.computeInterference_grows vector_shaped.getInterference_grows(1))+

lemma snir_steady: "getSNIR vector_ops env r tx m = Inr (x, m') \<Longrightarrow> ready m tx \<Longrightarrow> steady m m'"
  unfolding ready_def by (blast intro: grows_steady vector_shaped.getSNIR_grows(1))

lemma memo_steady:
  assumes "memo countGet countHit lookup compute store m = Inr (x, m')" and "ready m tx" and "counts countGet" and "counts countHit"
    and "\<And>m1 y m2. ready m1 tx \<Longrightarrow> with_cache lookup m1 = Inr (y, m2) \<Longrightarrow> steady m1 m2"
    and "\<And>m1 y m2. ready m1 tx \<Longrightarrow> compute m1 = Inr (y, m2) \<Longrightarrow> steady m1 m2"
    and "\<And>m0 m1 y m2 m3. ready m0 tx \<Longrightarrow> with_cache lookup m0 = Inr (None, m1) \<Longrightarrow> ready m1 tx \<Longrightarrow> compute m1 = Inr (y, m2) \<Longrightarrow>
        ready m2 tx \<Longrightarrow> set_cache (store y) m2 = Inr m3 \<Longrightarrow> steady m2 m3"
  shows "steady m m'"
  using assms(1)
proof (cases rule: vector_shaped.memo_cases)
  case (hit m1)
  have g: "steady m (countGet m)" using assms(3) by (rule counts_steady)
  from assms(5) [OF steady_ready [OF g assms(2)] hit(1)] g show ?thesis
    unfolding hit(2) by (blast intro: steady_trans counts_steady assms(4))
next
  case (miss m1 m2)
  have g: "steady m (countGet m)" using assms(3) by (rule counts_steady)
  have s1: "steady m m1" using steady_trans [OF g assms(5) [OF steady_ready [OF g assms(2)] miss(1)]] .
  have s2: "steady m m2" using steady_trans [OF s1 assms(6) [OF steady_ready [OF s1 assms(2)] miss(2)]] .
  have "steady m2 m'"
    by (rule assms(7) [OF _ miss(1) _ miss(2) _ miss(3)]) (use g s1 s2 steady_ready assms(2) in blast)+
  with s2 show ?thesis by (rule steady_trans)
qed

lemma first_decision_kept:
  assumes look: "with_cache (getCachedReceptionDecision vector_ops r (mt_id tx) SIGNAL_PART_WHOLE) m0 = Inr (None, m1)"
    and c: "med_computeReceptionDecision vector_ops env r l tx m1 = Inr (y, m2)" and r: "ready m0 tx" "ready m1 tx"
    and e: "med_entry vector_ops m2 r (mt_id tx) = Some e"
  shows "entry_kept e (e\<lparr>rce_decisions := [Some y]\<rparr>)"
proof -
  note g1 = vector_shaped.readDecision_grows [OF look conjunct2 [OF r(1) [unfolded ready_def]]]
  note g2 = vector_shaped.computeDecision_grows [OF c conjunct1 [OF r(2) [unfolded ready_def]] conjunct2 [OF r(2) [unfolded ready_def]]]
  have "rel_option entry_grows (med_entry vector_ops m0 r (mt_id tx)) (med_entry vector_ops m1 r (mt_id tx))"
    "rel_option entry_grows (med_entry vector_ops m1 r (mt_id tx)) (med_entry vector_ops m2 r (mt_id tx))"
    using g1(1) g2(1) unfolding grows_def by blast+
  with e obtain e0 e1 where "med_entry vector_ops m0 r (mt_id tx) = Some e0" "entry_grows e0 e1" "entry_grows e1 e"
    by (auto simp: option_rel_Some2)
  with g1(2) have "first_decision e = None" by (simp add: entry_grows_def)
  moreover from g2(2) e have "rce_reception e \<noteq> None \<and> rce_interference e \<noteq> None \<and> rce_snir e \<noteq> None" by auto
  ultimately show ?thesis by (simp add: entry_kept_def sound_entry_def)
qed

lemma decision_steady:
  assumes "getReceptionDecision vector_ops env r l tx SIGNAL_PART_WHOLE m = Inr (d, m')" and "ready m tx"
  shows "steady m m'"
proof (rule memo_steady [OF assms(1) [unfolded getReceptionDecision_def] assms(2)])
  fix m1 y m2
  assume r: "ready m1 tx"
  show "with_cache (getCachedReceptionDecision vector_ops r (mt_id tx) SIGNAL_PART_WHOLE) m1 = Inr (y, m2) \<Longrightarrow> steady m1 m2"
    using r unfolding ready_def by (blast intro: grows_steady vector_shaped.readDecision_grows(1))
next
  fix m1 y m2
  assume r: "ready m1 tx"
  show "med_computeReceptionDecision vector_ops env r l tx m1 = Inr (y, m2) \<Longrightarrow> steady m1 m2"
    using r unfolding ready_def by (blast intro: grows_steady vector_shaped.computeDecision_grows(1))
next
  fix m0 m1 y m2 m3
  assume r: "ready m0 tx" "ready m1 tx" "ready m2 tx"
    and look: "with_cache (getCachedReceptionDecision vector_ops r (mt_id tx) SIGNAL_PART_WHOLE) m0 = Inr (None, m1)"
    and c: "med_computeReceptionDecision vector_ops env r l tx m1 = Inr (y, m2)"
    and w: "set_cache (setCachedReceptionDecision vector_ops r (mt_id tx) SIGNAL_PART_WHOLE y) m2 = Inr m3"
  show "steady m2 m3"
  proof (rule write_steady [OF w [unfolded vector_shaped.setDecision_write]])
    fix e
    assume e: "med_entry vector_ops m2 r (mt_id tx) = Some e"
    show "entry_kept e (e\<lparr>rce_decisions := [Some y]\<rparr>)"
      by (rule first_decision_kept [OF look c r(1,2) e])
  qed (use r(3) in \<open>simp_all add: ready_def\<close>)
qed simp_all

lemma read_steady:
  "with_cache (\<lambda>c. Inr (read_entry vector_ops field r t c)) m = Inr (x, m') \<Longrightarrow> known m t \<Longrightarrow> steady m m'"
  by (rule grows_steady [OF vector_shaped.read_grows(1)])

lemma result_decision:
  assumes "med_computeReceptionResult vector_ops env r l tx m = Inr (y, m')" and "ready m tx"
  shows "steady m m'" and "\<exists>e d. med_entry vector_ops m' r (mt_id tx) = Some e \<and> first_decision e = Some d \<and> rr_decisions y = [d]"
proof -
  let ?m = "m\<lparr>receptionResultComputationCount := receptionResultComputationCount m + 1\<rparr>"
  have s0: "steady m ?m" by (rule counts_steady [of "\<lambda>m. m\<lparr>receptionResultComputationCount := receptionResultComputationCount m + 1\<rparr>"]) simp
  from assms(1) obtain a ma b mb e mc f where q: "getReception vector_ops env r tx ?m = Inr (a, ma)"
    "getInterference vector_ops env r l tx ma = Inr (b, mb)" "getSNIR vector_ops env r tx mb = Inr (e, mc)"
    "getReceptionDecision vector_ops env r l tx SIGNAL_PART_WHOLE mc = Inr (f, m')" and y: "rr_decisions y = [f]"
    by (auto simp: med_computeReceptionResult_def Let_def elim!: andThen_InrE)
  note s1 = steady_trans [OF s0 reception_steady [OF q(1) steady_ready [OF s0 assms(2)]]]
  note s2 = steady_trans [OF s1 interference_steady(2) [OF q(2) steady_ready [OF s1 assms(2)]]]
  note s3 = steady_trans [OF s2 snir_steady [OF q(3) steady_ready [OF s2 assms(2)]]]
  note r3 = steady_ready [OF s3 assms(2)]
  show "steady m m'" by (rule steady_trans [OF s3 decision_steady [OF q(4) r3]])
  from vector_shaped.decision_first [OF q(4)] r3 y
  show "\<exists>e d. med_entry vector_ops m' r (mt_id tx) = Some e \<and> first_decision e = Some d \<and> rr_decisions y = [d]"
    by (auto simp: ready_def)
qed

lemma result_steady:
  assumes "getReceptionResult vector_ops env r l tx m = Inr (x, m')" and "ready m tx"
  shows "steady m m'"
proof (rule memo_steady [OF assms(1) [unfolded getReceptionResult_def] assms(2)])
  fix m1 y m2
  assume r: "ready m1 tx" and c: "med_computeReceptionResult vector_ops env r l tx m1 = Inr (y, m2)"
  show "steady m1 m2" by (rule result_decision(1) [OF c r])
next
  fix m1 y m2
  assume "ready m1 tx" "with_cache (\<lambda>c. Inr (getCachedReceptionResult vector_ops r (mt_id tx) c)) m1 = Inr (y, m2)"
  then show "steady m1 m2" unfolding ready_def getCachedReceptionResult_def by (blast intro: read_steady)
next
  fix m0 m1 y m2 m3
  assume "ready m0 tx" "with_cache (\<lambda>c. Inr (getCachedReceptionResult vector_ops r (mt_id tx) c)) m0 = Inr (None, m1)"
    and r: "ready m1 tx" "ready m2 tx" and c: "med_computeReceptionResult vector_ops env r l tx m1 = Inr (y, m2)"
    and w: "set_cache (setCachedReceptionResult vector_ops r (mt_id tx) y) m2 = Inr m3"
  from result_decision [OF c r(1)] show "steady m2 m3"
    by (intro write_steady [OF w [unfolded setCachedReceptionResult_def]])
      (use r(2) in \<open>auto simp: ready_def entry_kept_def sound_entry_def split: option.splits\<close>)
qed simp_all

end
