(* ===== verification/LoRaMediumReach.thy ===== *)
theory LoRaMediumReach
  imports LoRaMediumHistory
begin

text \<open>
  The runs of a medium over the vector cache: radios come and go while nothing is in flight, frames are
  transmitted, radios ask their questions and change their mode or listening, time passes up to the timer and the timer
  fires. Every state of a run satisfies the invariant of theory \<open>LoRaMediumHistory\<close>, whence which
  transmissions interfere, which are forgotten, and that all are in the end.
\<close>

subsection \<open>The questions of a radio\<close>

lemma outside_steady:
  assumes "communicationCache m' = communicationCache m" and "book m' = book m"
  shows "steady m m'"
  using views_outside [OF assms(1)] entries_outside [OF assms(1)] assms(2) by (simp add: steady_def)

lemma clear_steady:
  assumes k: "known m t" and a: "\<And>e. rce_arrival (upd e) = rce_arrival e" and v: "\<And>e. rce_interval (upd e) = rce_interval e"
    and u: "\<And>e. entry_kept e (upd e)"
  shows "steady m (m\<lparr>communicationCache := clear_entry vector_ops upd r t (communicationCache m)\<rparr>)"
proof -
  obtain x c where g: "getReceptionCacheEntry vector_ops r t (communicationCache m) = (x, c)" by force
  show ?thesis
  proof (cases x)
    case None
    with g have "with_cache (\<lambda>c. Inr (read_entry vector_ops rce_arrival r t c)) m = Inr (None, m\<lparr>communicationCache := c\<rparr>)"
      by (simp add: with_cache_def read_entry_def)
    from read_steady [OF this k] None g show ?thesis by (simp add: clear_entry_def)
  next
    case (Some e)
    with g have "set_cache (write_entry vector_ops upd r t) m
        = Inr (m\<lparr>communicationCache := clear_entry vector_ops upd r t (communicationCache m)\<rparr>)"
      by (simp add: set_cache_def write_entry_def clear_entry_def)
    then show ?thesis by (rule write_steady [OF _ k a v u])
  qed
qed

lemma attempted_steady:
  assumes "med_isReceptionAttempted vector_ops env r tx m = Inr (b, m')" and r: "ready m tx"
  shows "steady m m'"
proof -
  from assms(1) obtain x m1 l m2 i m3 g where q: "getReception vector_ops env r tx m = Inr (x, m1)"
    "getListening vector_ops r tx m1 = Inr (Some l, m2)" "computeInterference vector_ops env r l tx m2 = Inr (i, m3)"
    "m' = m3\<lparr>receivers := g\<rparr>"
    by (auto simp: med_isReceptionAttempted_def deref_def elim!: andThen_InrE split: option.splits)
  note s1 = reception_steady [OF q(1) r]
  note r1 = steady_ready [OF s1 r]
  have s2: "steady m1 m2" using listening_steady [OF q(2)] r1 by (simp add: ready_def)
  note s3 = interference_steady(1) [OF q(3) steady_ready [OF s2 r1]]
  show ?thesis unfolding q(4) by (blast intro: steady_trans s1 s2 s3 receivers_steady)
qed

lemma successful_steady:
  assumes "med_isReceptionSuccessful vector_ops env r tx m = Inr (b, m')" and r: "ready m tx"
  shows "steady m m'"
proof -
  from assms(1) obtain x m1 l m2 i m3 s where q: "getReception vector_ops env r tx m = Inr (x, m1)"
    "getListening vector_ops r tx m1 = Inr (Some l, m2)" "computeInterference vector_ops env r l tx m2 = Inr (i, m3)"
    "getSNIR vector_ops env r tx m3 = Inr (s, m')"
    by (auto simp: med_isReceptionSuccessful_def deref_def elim!: andThen_InrE split: option.splits)
  note s1 = reception_steady [OF q(1) r]
  note r1 = steady_ready [OF s1 r]
  have s2: "steady m1 m2" using listening_steady [OF q(2)] r1 by (simp add: ready_def)
  note r2 = steady_ready [OF s2 r1]
  note s3 = interference_steady(1) [OF q(3) r2]
  note s4 = snir_steady [OF q(4) steady_ready [OF s3 r2]]
  show ?thesis by (blast intro: steady_trans s1 s2 s3 s4)
qed

lemma receivePacket_steady:
  assumes "med_receivePacket vector_ops env r tx m = Inr (x, m')" and r: "ready m tx"
  shows "steady m m'"
proof -
  from assms(1) obtain l m1 res m2 where q: "getListening vector_ops r tx m = Inr (Some l, m1)"
    "getReceptionResult vector_ops env r l tx m1 = Inr (res, m2)"
    "m' = m2\<lparr>communicationCache := clear_entry vector_ops (\<lambda>e. e\<lparr>rce_result := None\<rparr>) r (mt_id tx) (communicationCache m2)\<rparr>"
    by (auto simp: med_receivePacket_def deref_def removeCachedReceptionResult_def elim!: andThen_InrE split: option.splits)
  have s1: "steady m m1" using listening_steady [OF q(1)] r by (simp add: ready_def)
  note r1 = steady_ready [OF s1 r]
  note s2 = result_steady [OF q(2) r1]
  have "known m2 (mt_id tx)" using steady_ready [OF s2 r1] by (simp add: ready_def)
  from clear_steady [OF this, where upd = "\<lambda>e. e\<lparr>rce_result := None\<rparr>" and r = r] have "steady m2 m'" unfolding q(3) by simp
  then show ?thesis by (blast intro: steady_trans s1 s2)
qed

lemma interferingWithListening_steady:
  assumes "interferingWithListening vector_ops env l m = Inr (xs, m')" and i: "intervals_known vector_ops vec_known m"
  shows "steady m m'"
proof -
  from assms(1) obtain txs m1 where
    q: "with_cache (computeInterferingTransmissions vector_ops (ml_receiver l) (ls_startTime (ml_band l)) (ls_endTime (ml_band l))) m
        = Inr (txs, m1)"
    and loop: "receptions_loop (isInterferingWithListening vector_ops l) (getReception vector_ops env (ml_receiver l)) txs m1 = Inr (xs, m')"
    by (auto simp: interferingWithListening_def elim!: andThen_InrE)
  note g1 = vector_shaped.interfering_grows [OF q i]
  have k: "list_all (\<lambda>tx. known m1 (mt_id tx)) txs" using g1(2) vector_shaped.grows_known [OF g1(1)] by simp
  have "grows vector_ops vec_shape m1 m'"
  proof (rule vector_shaped.receptions_loop_grows [OF loop k])
    fix tx m2 b m3
    assume tx: "tx \<in> set txs" "grows vector_ops vec_shape m1 m2"
    then have kn: "known m2 (mt_id tx)" using k vector_shaped.grows_known by (auto simp: list_all_iff)
    show "grows vector_ops vec_shape m2 m3" if "isInterferingWithListening vector_ops l tx m2 = Inr (b, m3)"
      using vector_shaped.isInterferingWithListening_grows [OF that kn] .
    show "grows vector_ops vec_shape m2 m3" if "getReception vector_ops env (ml_receiver l) tx m2 = Inr (y, m3)" for y
      using vector_shaped.getReception_grows(1) [OF that kn] .
  qed
  then show ?thesis by (blast intro: steady_trans grows_steady g1(1))
qed

lemma listenOnMedium_steady:
  assumes "listenOnMedium vector_ops env r l m = Inr (b, m')" and i: "intervals_known vector_ops vec_known m"
  shows "steady m m'"
proof -
  let ?m = "m\<lparr>listeningDecisionComputationCount := listeningDecisionComputationCount m + 1\<rparr>"
  let ?n = "?m\<lparr>interferenceComputationCount := interferenceComputationCount m + 1\<rparr>"
  from assms(1) obtain xs where q: "interferingWithListening vector_ops env l ?n = Inr (xs, m')"
    by (auto simp: listenOnMedium_def med_computeListeningDecision_def computeInterference_listening_def Let_def elim!: andThen_InrE)
  have s: "steady m ?n" by (rule outside_steady) (simp_all add: book_def)
  have "intervals_known vector_ops vec_known ?n" using i by (simp add: intervals_known_def)
  from steady_trans [OF s interferingWithListening_steady [OF q this]] show ?thesis .
qed

text \<open>Two steps in sequence, the second under what the first has left.\<close>

lemma andThen_steady:
  assumes "andThen X (\<lambda>(x, m1). g x m1) = Inr m'" and "known m t" and "\<And>x m1. X = Inr (x, m1) \<Longrightarrow> known m t \<Longrightarrow> steady m m1"
    and "\<And>x m1. g x m1 = Inr m' \<Longrightarrow> known m1 t \<Longrightarrow> steady m1 m'"
  shows "steady m m'"
proof -
  from assms(1) obtain x m1 where s: "X = Inr (x, m1)" "g x m1 = Inr m'" by (auto elim!: andThen_InrE)
  note s1 = assms(3) [OF s(1) assms(2)]
  from steady_trans [OF s1 assms(4) [OF s(2)]] show ?thesis using steady_known [OF s1] assms(2) by simp
qed

lemma listen_again_steady:
  assumes "andThen (getArrival vector_ops r tx m) (\<lambda>(arrival, m). andThen (deref arrival)
      (\<lambda>a. set_cache (setCachedListening vector_ops r (mt_id tx) (l a m)) m)) = Inr m'" and "known m (mt_id tx)"
  shows "steady m m'"
  using assms by (rule andThen_steady) (auto intro: arrival_steady listening_written elim!: andThen_InrE)

lemma send_late_steady:
  assumes "andThen (getArrival vector_ops r tx m) (\<lambda>(arrival, m). andThen (deref arrival)
      (\<lambda>a. if c a m then sendDirect vector_ops r tx (x a m) (y a m) m else Inr m)) = Inr m'" and "known m (mt_id tx)"
  shows "steady m m'"
  using assms by (rule andThen_steady) (auto intro: arrival_steady sendDirect_steady elim!: andThen_InrE split: if_split_asm)

lemma pick_up_steady:
  assumes "pick_up vector_ops env signal r tx m = Inr m'" and k: "known m (mt_id tx)"
  shows "steady m m'"
  using assms(1) unfolding pick_up_def
proof (rule andThen_InrE)
  fix m1
  assume "(if signal = ListeningChanged
      then andThen (getArrival vector_ops r tx m) (\<lambda>(arrival, m). andThen (deref arrival)
             (\<lambda>a. set_cache (setCachedListening vector_ops r (mt_id tx) (make_listening env m r a)) m))
      else Inr m) = Inr m1"
  then have s1: "steady m m1" using listen_again_steady [OF _ k] by (auto split: if_split_asm)
  have k1: "known m1 (mt_id tx)" using steady_known [OF s1] k by simp
  let ?frame = "\<lambda>m. with_cache (\<lambda>c. Inr (getCachedReceptionFrame vector_ops r (mt_id tx) c)) m"
  let ?receives = "\<lambda>frame m. if frame = None \<and> r \<noteq> mt_transmitter tx then isPotentialReceiver vector_ops env r tx m else Inr (False, m)"
  let ?delay = "\<lambda>a m. ar_startTime a - simTime m" 
  let ?send = "\<lambda>m. andThen (getArrival vector_ops r tx m) (\<lambda>(arrival, m). andThen (deref arrival)
      (\<lambda>a. if simTime m \<le> ar_endTime a
           then let delay = ?delay a m; d = tr_endTime (mt_signal tx) - tr_startTime (mt_signal tx)
                in sendDirect vector_ops r tx (if 0 < delay then delay else 0) (if 0 < delay then d else d + delay) m
           else Inr m))"
  assume "andThen (?frame m1) (\<lambda>(frame, m). andThen (?receives frame m) (\<lambda>(b, m). if b then ?send m else Inr m)) = Inr m'"
  then have "steady m1 m'"
  proof (rule andThen_steady [OF _ k1])
    show "?frame m1 = Inr (f, m2) \<Longrightarrow> known m1 (mt_id tx) \<Longrightarrow> steady m1 m2" for f m2
      unfolding getCachedReceptionFrame_def by (rule read_steady)
    show "steady m2 m'"
      if g: "andThen (?receives f m2) (\<lambda>(b, m). if b then ?send m else Inr m) = Inr m'" and k2: "known m2 (mt_id tx)" for f m2
      using g k2
    proof (rule andThen_steady)
      show "?receives f m2 = Inr (b, m3) \<Longrightarrow> known m2 (mt_id tx) \<Longrightarrow> steady m2 m3" for b m3
        using potential_steady by (auto split: if_split_asm)
      show "(if b then ?send m3 else Inr m3) = Inr m' \<Longrightarrow> known m3 (mt_id tx) \<Longrightarrow> steady m3 m'" for b m3
        unfolding Let_def by (cases b) (simp_all only: if_True if_False sum.inject send_late_steady steady_refl)
    qed
  qed
  with s1 show ?thesis by (rule steady_trans)
qed

lemma receiveSignal_steady:
  assumes "med_receiveSignal vector_ops env signal r m = Inr m'" and i: "core_inv d m"
  shows "steady m m'"
proof (cases "signal = OtherSignal")
  case False
  with assms(1) have f: "foldR (pick_up vector_ops env signal r) (transmissions m) m = Inr m'" by (simp add: med_receiveSignal_def)
  show ?thesis
  proof (rule foldR_steady [OF f])
    fix tx m1 m2
    assume "tx \<in> set (transmissions m)" and s: "steady m m1" and p: "pick_up vector_ops env signal r tx m1 = Inr m2"
    then show "steady m1 m2" using pick_up_steady [OF p] steady_known [OF s] inv_known [OF i] by simp
  qed
qed (use assms(1) in \<open>simp add: med_receiveSignal_def\<close>)

subsection \<open>Radios come and go while nothing is in flight\<close>

definition no_intervals :: "vector_cache \<Rightarrow> bool" where
  "no_intervals c \<longleftrightarrow> (\<forall>e\<in>set (radioCache c). intervals_of e = [])"

lemma new_radio_no_intervals [simp]: "intervals_of new_radio_cache_entry = []"
  by (simp add: intervals_of_def new_radio_cache_entry_def)

lemma heard_nth: "heard m r = (if int r < baseRadioId (communicationCache m) then []
    else intervals_of (nth_default new_radio_cache_entry (radioCache (communicationCache m)) (nat (int r - baseRadioId (communicationCache m)))))"
  by (simp add: heard_def vec_radio_view)

lemma heard_nothing:
  assumes "0 \<le> baseRadioId (communicationCache m)"
  shows "(\<forall>r. heard m r = []) \<longleftrightarrow> no_intervals (communicationCache m)"
proof
  assume h: "\<forall>r. heard m r = []"
  let ?c = "communicationCache m"
  have "intervals_of (radioCache ?c ! i) = []" if "i < length (radioCache ?c)" for i
    using h [THEN spec, of "nat (baseRadioId ?c) + i"] that assms by (simp add: heard_nth nth_default_def)
  then show "no_intervals ?c" by (auto simp: no_intervals_def in_set_conv_nth)
next
  assume "no_intervals (communicationCache m)"
  then show "\<forall>r. heard m r = []" by (auto simp: no_intervals_def heard_nth nth_default_def)
qed

text \<open>The invariant of a medium with nothing in flight.\<close>

lemma idle_inv:
  assumes "transmissions m = []"
  shows "med_inv d m \<longleftrightarrow> transmissionCache (communicationCache m) = [] \<and> removeTimer m = None \<and> once (med_radios m)
    \<and> 0 \<le> baseRadioId (communicationCache m) \<and> no_intervals (communicationCache m) \<and> maxTransmissionDuration (limits m) \<in> {None, Some d}"
proof -
  have "ids_consecutive m \<longleftrightarrow> transmissionCache (communicationCache m) = []"
    unfolding ids_consecutive_def assms by (auto intro: exI [of _ "nextTransmissionId m"])
  then show ?thesis
    using heard_nothing [of m] assms
    by (auto simp: med_inv_def core_inv_def ends_recorded_def timer_set_def all_told_def intervals_listed_def)
qed

lemma vec_getRadio_no_intervals: "no_intervals c \<Longrightarrow> no_intervals (snd (vec_getRadio r c))"
  by (auto simp: no_intervals_def vec_getRadio_def Let_def grow_def resize_list_def)

lemma vec_getRadio_mem: "e \<in> set (radioCache c1)" if g: "vec_getRadio r c = (Some e, c1)"
proof -
  let ?i = "nat (int r - baseRadioId c)"
  from g have "e = radioCache c1 ! ?i" "radioCache c1 = grow ?i new_radio_cache_entry (radioCache c)"
    by (auto simp: vec_getRadio_def Let_def split: if_splits)
  moreover have "?i < length (grow ?i d xs)" for d :: radio_cache_entry and xs by (simp add: grow_def resize_list_def)
  ultimately show ?thesis by (metis nth_mem)
qed

lemma addRadio_inv:
  assumes i: "med_inv d m" and t: "transmissions m = []" and new: "Some r \<notin> set (med_radios m)"
    and d: "lp_maxTransmissionDuration (me_limits env) = d" and a: "med_addRadio vector_ops env r m = Inr m'"
  shows "med_inv d m'" and "transmissions m' = []"
proof -
  let ?c = "communicationCache m"
  from i t have i: "transmissionCache ?c = []" "removeTimer m = None" "once (med_radios m)" "0 \<le> baseRadioId ?c" "no_intervals ?c"
    by (simp_all add: idle_inv)
  let ?c0 = "if length (radioCache ?c) = 0 then ?c\<lparr>baseRadioId := int r\<rparr> else ?c"
  from a t have m': "communicationCache m' = snd (vec_getRadio r ?c0)" "transmissions m' = []" "removeTimer m' = None"
    "med_radios m' = med_radios m @ [Some r]" "maxTransmissionDuration (limits m') = Some d"
    using i(2) by (auto simp: med_addRadio_def Let_def set_cache_def vec_addRadio_def limit_addRadio_def updateLimits_fields d)
  have "no_intervals ?c0" "0 \<le> baseRadioId ?c0" "transmissionCache ?c0 = []" using i by (auto simp: no_intervals_def)
  moreover have "baseRadioId (snd (vec_getRadio r c)) = baseRadioId c" "transmissionCache (snd (vec_getRadio r c)) = transmissionCache c" for c
    by (simp_all add: vec_getRadio_def Let_def)
  ultimately show "med_inv d m'" using m' i(3) new vec_getRadio_no_intervals [of ?c0 r] by (simp add: idle_inv once_def)
  show "transmissions m' = []" by (rule m'(2))
qed

lemma erase_radio_once: "erase_radio r rs = Inr rs' \<Longrightarrow> once rs \<Longrightarrow> once rs'"
proof -
  assume e: "erase_radio r rs = Inr rs'" and o: "once rs"
  from e obtain i n where rs': "rs' = drop n (rs[i := None])"
    by (auto simp: erase_radio_def Let_def elim!: andThen_InrE split: list.splits option.splits if_splits)
  have "once (rs[i := None])"
  proof (cases "i < length rs")
    case True
    from o have "once (take i rs @ rs ! i # drop (Suc i) rs)" unfolding id_take_nth_drop [OF True, symmetric] .
    then show ?thesis using True by (auto simp: once_def upd_conv_take_nth_drop split: if_splits)
  qed (use o in \<open>simp add: list_update_beyond\<close>)
  then have "distinct (filter (\<lambda>r. r \<noteq> None) (take n (rs[i := None]) @ rs'))" unfolding rs' once_def by simp
  then show "once rs'" unfolding once_def filter_append by simp
qed

lemma removeRadio_inv:
  assumes i: "med_inv d m" and t: "transmissions m = []"
    and d: "lp_maxTransmissionDuration (me_limits env) = d" and a: "med_removeRadio vector_ops env r m = Inr m'"
  shows "med_inv d m'" and "transmissions m' = []"
proof -
  let ?c = "communicationCache m"
  from i t have i: "transmissionCache ?c = []" "removeTimer m = None" "once (med_radios m)" "0 \<le> baseRadioId ?c" "no_intervals ?c"
    by (simp_all add: idle_inv)
  from a obtain rs c where rs: "erase_radio r (med_radios m) = Inr rs" and c: "vec_removeRadio r ?c = Inr c"
    and m': "communicationCache m' = c" "transmissions m' = []" "removeTimer m' = None" "med_radios m' = rs"
    "maxTransmissionDuration (limits m') = Some d"
    using t i(2)
    by (auto simp: med_removeRadio_def set_cache_def limit_removeRadio_def updateLimits_fields d elim!: andThen_InrE)
  obtain e c1 where g: "vec_getRadio r ?c = (Some e, c1)"
    using c by (auto simp: vec_removeRadio_def split: prod.splits option.splits)
  have c1: "no_intervals c1" "baseRadioId c1 = baseRadioId ?c" "transmissionCache c1 = []"
    using vec_getRadio_no_intervals [OF i(5), of r] g i(1) by (auto simp: vec_getRadio_def Let_def split: if_splits)
  with vec_getRadio_mem [OF g] have "intervals_of e = []" by (simp add: no_intervals_def)
  let ?c2 = "vec_pokeRadio r (e\<lparr>stale := True\<rparr>) c1"
  have c2: "no_intervals ?c2" "transmissionCache ?c2 = []" "baseRadioId ?c2 = baseRadioId ?c"
    using c1 \<open>intervals_of e = []\<close> set_update_subset_insert [of "radioCache c1"]
    by (fastforce simp: no_intervals_def vec_pokeRadio_def intervals_of_def)+
  have "no_intervals c \<and> transmissionCache c = [] \<and> 0 \<le> baseRadioId c"
    using c c2 i(4) by (auto simp: vec_removeRadio_def g Let_def no_intervals_def split: if_splits dest!: in_set_dropD)
  then show "med_inv d m'" using m' erase_radio_once [OF rs i(3)] by (simp add: idle_inv)
  show "transmissions m' = []" by (rule m'(2))
qed

subsection \<open>The runs\<close>

text \<open>
  The environment may answer differently at every step, but the propagation \<open>ca\<close> of a transmission to a radio
  is a function of the two, and the network has one maximal duration \<open>d\<close>.
\<close>

definition med_network :: "simtime \<Rightarrow> (med_transmission \<Rightarrow> nat \<Rightarrow> arrival) \<Rightarrow> med_env \<Rightarrow> bool" where
  "med_network d ca env \<longleftrightarrow> lp_maxTransmissionDuration (me_limits env) = d \<and> me_computeArrival env = ca"

inductive med_step :: "simtime \<Rightarrow> (med_transmission \<Rightarrow> nat \<Rightarrow> arrival) \<Rightarrow> vector_cache medium \<Rightarrow> vector_cache medium \<Rightarrow> bool"
  for d ca where
  radio_added: "med_network d ca env \<Longrightarrow> transmissions m = [] \<Longrightarrow> Some r \<notin> set (med_radios m) \<Longrightarrow>
    med_addRadio vector_ops env r m = Inr m' \<Longrightarrow> med_step d ca m m'"
| radio_removed: "med_network d ca env \<Longrightarrow> transmissions m = [] \<Longrightarrow> med_removeRadio vector_ops env r m = Inr m' \<Longrightarrow> med_step d ca m m'"
| transmits: "med_network d ca env \<Longrightarrow> med_transmitPacket vector_ops env r frame m = Inr (tx, m') \<Longrightarrow> med_step d ca m m'"
| asks_attempted: "tx \<in> set (transmissions m) \<Longrightarrow> med_isReceptionAttempted vector_ops env r tx m = Inr (b, m') \<Longrightarrow> med_step d ca m m'"
| asks_successful: "tx \<in> set (transmissions m) \<Longrightarrow> med_isReceptionSuccessful vector_ops env r tx m = Inr (b, m') \<Longrightarrow> med_step d ca m m'"
| asks_decision: "tx \<in> set (transmissions m) \<Longrightarrow> getReceptionDecision vector_ops env r l tx SIGNAL_PART_WHOLE m = Inr (dec, m') \<Longrightarrow>
    med_step d ca m m'"
| asks_result: "tx \<in> set (transmissions m) \<Longrightarrow> getReceptionResult vector_ops env r l tx m = Inr (res, m') \<Longrightarrow> med_step d ca m m'"
| receives: "tx \<in> set (transmissions m) \<Longrightarrow> med_receivePacket vector_ops env r tx m = Inr (x, m') \<Longrightarrow> med_step d ca m m'"
| listens: "listenOnMedium vector_ops env r l m = Inr (b, m') \<Longrightarrow> med_step d ca m m'"
| signalled: "med_receiveSignal vector_ops env signal r m = Inr m' \<Longrightarrow> med_step d ca m m'"
| time_passes: "simTime m \<le> t \<Longrightarrow> (\<forall>x. removeTimer m = Some x \<longrightarrow> t \<le> x) \<Longrightarrow> med_step d ca m (m\<lparr>simTime := t\<rparr>)"
| timer_fires: "removeTimer m = Some (simTime m) \<Longrightarrow> med_handleMessage vector_ops m = Inr m' \<Longrightarrow> med_step d ca m m'"

definition med_start :: "vector_cache medium \<Rightarrow> bool" where
  "med_start m \<longleftrightarrow> communicationCache m = empty_vector_cache \<and> med_radios m = [] \<and> transmissions m = [] \<and> removeTimer m = None
     \<and> limits m = new_limit_cache"

inductive med_reachable :: "simtime \<Rightarrow> (med_transmission \<Rightarrow> nat \<Rightarrow> arrival) \<Rightarrow> vector_cache medium \<Rightarrow> bool" for d ca where
  at_start: "med_start m \<Longrightarrow> med_reachable d ca m"
| after_step: "med_reachable d ca m \<Longrightarrow> med_step d ca m m' \<Longrightarrow> med_reachable d ca m'"

text \<open>The invariant, with the arrivals those of the propagation.\<close>

definition net_inv :: "simtime \<Rightarrow> (med_transmission \<Rightarrow> nat \<Rightarrow> arrival) \<Rightarrow> vector_cache medium \<Rightarrow> bool" where
  "net_inv d ca m \<longleftrightarrow> med_inv d m
     \<and> (\<forall>tx\<in>set (transmissions m). \<forall>r a. arrival_of m r (mt_id tx) = Some a \<longrightarrow> told tx (med_radios m) r \<and> a = ca tx r)"

lemma steady_net_inv: "steady m m' \<Longrightarrow> net_inv d ca m \<Longrightarrow> net_inv d ca m'"
  using steady_med_inv [of m m' d] by (simp add: net_inv_def steady_def book_def)

lemma idle_net_inv: "transmissions m = [] \<Longrightarrow> net_inv d ca m = med_inv d m"
  by (simp add: net_inv_def)

lemma net_core: "net_inv d ca m \<Longrightarrow> core_inv d m"
  by (simp add: net_inv_def med_inv_def)

lemma start_inv: "med_start m \<Longrightarrow> net_inv d ca m"
  by (auto simp: med_start_def idle_net_inv idle_inv empty_vector_cache_def no_intervals_def once_def new_limit_cache_def)

lemma frame_steady:
  assumes "with_cache (setCachedFrame vector_ops t f) m = Inr (u, m')" and "known m t"
  shows "steady m m'"
  using assms unfolding setCachedFrame_def by (rule transmission_steady(1)) simp

lemma transmit_inv:
  assumes i: "net_inv d ca m" and n: "med_network d ca env" and a: "med_transmitPacket vector_ops env r frame m = Inr (tx, m')"
  shows "net_inv d ca m'" and "transmissions m' = transmissions m @ [tx]"
    and "x \<in> set (transmissions m) \<Longrightarrow> kept_at m m' (mt_id x)"
    and "med_entry vector_ops m' q (mt_id tx) = Some y \<Longrightarrow> sound_entry y"
proof -
  let ?m = "m\<lparr>nextTransmissionId := Suc (nextTransmissionId m)\<rparr>"
  from a obtain m1 m2 u where s: "addTransmission vector_ops env tx ?m = Inr m1" "sendToAffectedRadios vector_ops env tx m1 = Inr m2"
    "with_cache (setCachedFrame vector_ops (mt_id tx) (mt_id tx)) m2 = Inr (u, m')" and id: "mt_id tx = nextTransmissionId m"
    by (auto simp: med_transmitPacket_def createTransmitterRadioFrame_def elim!: andThen_InrE)
  note add = addTransmission_inv [OF _ id refl s(1)]
  have i1: "med_inv d m1" "transmissions m1 = transmissions m @ [tx]"
    using add(1,2) i unfolding net_inv_def by blast+
  have arr: "arrival_of m1 q (mt_id x) = (if x = tx then (if told tx (med_radios m) q then Some (ca tx q) else None) else arrival_of m q (mt_id x))"
    if "x \<in> set (transmissions m1)" for x q
  proof (cases "x = tx")
    case True
    with add(3) [of d q] i n show ?thesis by (simp add: net_inv_def med_network_def)
  next
    case False
    with add(4) [of d x q] i that i1(2) show ?thesis by (simp add: net_inv_def)
  qed
  have r1: "med_radios m1 = med_radios m" using add(5) i unfolding net_inv_def by blast
  have "arrival_of m1 q (mt_id x) = Some y \<Longrightarrow> told x (med_radios m) q \<and> y = ca x q" if "x \<in> set (transmissions m1)" for x q y
    using arr [OF that, of q] that i i1(2) by (cases "x = tx") (simp_all add: net_inv_def split: if_splits)
  then have "net_inv d ca m1" using i1(1) by (simp add: net_inv_def r1)
  moreover have k1: "known m1 (mt_id tx)" using i1 inv_known [of d m1 tx] by (simp add: med_inv_def)
  note s1 = sendToAffected_steady [OF s(2) k1]
  moreover have "steady m2 m'" using frame_steady [OF s(3)] steady_known [OF s1] k1 by simp
  ultimately show "net_inv d ca m'" and "transmissions m' = transmissions m @ [tx]"
    using steady_net_inv steady_trans i1(2) steady_transmissions by metis+
  have k: "entries_kept m1 m'" using s1 \<open>steady m2 m'\<close> by (auto simp: steady_def intro: entries_kept_trans)
  show "x \<in> set (transmissions m) \<Longrightarrow> kept_at m m' (mt_id x)"
    using add(6) [of d x] i k by (auto simp: net_inv_def entries_kept_def intro: kept_at_trans)
  assume y: "med_entry vector_ops m' q (mt_id tx) = Some y"
  have "rel_option entry_kept (med_entry vector_ops m1 q (mt_id tx)) (Some y)" using k y unfolding entries_kept_def kept_at_def by metis
  then show "sound_entry y" using add(7) [of d q] i by (auto simp: net_inv_def option_rel_Some2 entry_kept_def)
qed

lemma handleMessage_net_inv:
  assumes i: "net_inv d ca m" and h: "med_handleMessage vector_ops m = Inr m'"
  shows "net_inv d ca m'"
proof -
  from handleMessage_run [OF net_core [OF i]] h have m': "med_inv d m'" "transmissions m' = dropWhile (over m) (transmissions m)"
    "\<forall>tx\<in>set (transmissions m'). \<forall>r. arrival_of m' r (mt_id tx) = arrival_of m r (mt_id tx)" "med_radios m' = med_radios m"
    by auto
  moreover have "set (transmissions m') \<subseteq> set (transmissions m)" unfolding m'(2) by (auto dest: set_dropWhileD)
  ultimately show ?thesis using i unfolding net_inv_def by (metis subsetD)
qed

lemma step_inv:
  assumes "med_step d ca m m'" and i: "net_inv d ca m"
  shows "net_inv d ca m'"
  using assms(1)
proof cases
  case (radio_added env r)
  with addRadio_inv [of d m r env m'] i show ?thesis by (simp add: idle_net_inv med_network_def)
next
  case (radio_removed env r)
  with removeRadio_inv [of d m env r m'] i show ?thesis by (simp add: idle_net_inv med_network_def)
next
  case (transmits env r frame tx)
  with transmit_inv(1) [OF i] show ?thesis by blast
next
  case (asks_attempted tx env r b)
  with attempted_steady inv_ready [OF net_core [OF i]] show ?thesis using i by (blast intro: steady_net_inv)
next
  case (asks_successful tx env r b)
  with successful_steady inv_ready [OF net_core [OF i]] show ?thesis using i by (blast intro: steady_net_inv)
next
  case (asks_decision tx env r l dec)
  with decision_steady inv_ready [OF net_core [OF i]] show ?thesis using i by (blast intro: steady_net_inv)
next
  case (asks_result tx env r l res)
  with result_steady inv_ready [OF net_core [OF i]] show ?thesis using i by (blast intro: steady_net_inv)
next
  case (receives tx env r x)
  with receivePacket_steady inv_ready [OF net_core [OF i]] show ?thesis using i by (blast intro: steady_net_inv)
next
  case (listens env r l b)
  with listenOnMedium_steady inv_intervals_known [OF net_core [OF i]] show ?thesis using i by (blast intro: steady_net_inv)
next
  case (signalled env signal r)
  with receiveSignal_steady net_core [OF i] show ?thesis using i by (blast intro: steady_net_inv)
next
  case (time_passes t)
  have "communicationCache m' = communicationCache m" using time_passes by simp
  note o = views_outside [OF this]
  from time_passes i show ?thesis unfolding net_inv_def med_inv_def inv_defs o by auto
next
  case timer_fires
  with handleMessage_net_inv [OF i] show ?thesis by blast
qed

lemma reachable_inv: "med_reachable d ca m \<Longrightarrow> net_inv d ca m"
  by (induction rule: med_reachable.induct) (auto intro: start_inv step_inv)

subsection \<open>Which transmissions interfere\<close>

definition overlapping :: "(med_transmission \<Rightarrow> nat \<Rightarrow> arrival) \<Rightarrow> nat \<Rightarrow> simtime \<Rightarrow> simtime \<Rightarrow> med_transmission \<Rightarrow> bool" where
  "overlapping ca r s e tx \<longleftrightarrow> interval_overlap s e (ar_startTime (ca tx r)) (ar_endTime (ca tx r))"

lemma computeInterfering_heard:
  assumes "with_cache (computeInterferingTransmissions vector_ops r s e) m = Inr (txs, m')"
  shows "txs = map iv_value (query s e (heard m r))"
proof -
  obtain x c where g: "getRadioCacheEntry vector_ops r (communicationCache m) = (x, c)" by force
  from assms obtain c' where "computeInterferingTransmissions vector_ops r s e (communicationCache m) = Inr (txs, c')"
    by (auto simp: with_cache_def elim: andThen_InrE)
  then obtain y where y: "x = Some y" "txs = (case receptionIntervals y of None \<Rightarrow> [] | Some ivs \<Rightarrow> map iv_value (query s e ivs))"
    unfolding computeInterferingTransmissions_def g by (auto split: option.splits)
  have "radio_view vector_ops (communicationCache m) r = Some y" using g y(1) by (simp add: radio_view_def)
  then show ?thesis using y(2) by (auto simp: heard_def intervals_of_def query_def split: option.splits)
qed

lemma net_inv_distinct: "net_inv d ca m \<Longrightarrow> distinct (map mt_id (transmissions m))"
  unfolding net_inv_def med_inv_def core_inv_def ids_consecutive_def by auto

lemma computeInterfering_net:
  assumes i: "net_inv d ca m" and place: "Some r \<in> set (med_radios m)"
    and c: "with_cache (computeInterferingTransmissions vector_ops r s e) m = Inr (txs, m')"
  shows "txs = filter (\<lambda>tx. mt_transmitter tx \<noteq> r \<and> overlapping ca r s e tx) (transmissions m)"
proof -
  have inv: "all_told m" "intervals_listed m" using i by (simp_all add: net_inv_def med_inv_def core_inv_def)
  let ?iv = "\<lambda>tx. if mt_transmitter tx = r then None else Some (make_interval tx (ca tx r))"
  have "arrival_interval m r tx = ?iv tx" if tx: "tx \<in> set (transmissions m)" for tx
  proof (cases "arrival_of m r (mt_id tx)")
    case None
    with inv(1) tx have "\<not> told tx (med_radios m) r" unfolding all_told_def by (metis)
    with place have "mt_transmitter tx = r" by (auto simp: told_def)
    with None show ?thesis by (simp add: arrival_interval_def)
  next
    case (Some a)
    with i tx have "told tx (med_radios m) r" "a = ca tx r" unfolding net_inv_def by blast+
    with Some show ?thesis by (simp add: arrival_interval_def told_def)
  qed
  then have "heard m r = List.map_filter ?iv (transmissions m)"
    using inv(2) by (simp add: intervals_listed_def cong: map_filter_cong)
  moreover have "map iv_value (query s e (List.map_filter ?iv xs)) = filter (\<lambda>tx. mt_transmitter tx \<noteq> r \<and> overlapping ca r s e tx) xs" for xs
    by (induction xs) (auto simp: List.map_filter_def query_def make_interval_def overlapping_def)
  ultimately show ?thesis using computeInterfering_heard [OF c] by simp
qed

subsection \<open>Forgetting, and the end of everything\<close>

text \<open>The kernel delivers the timer message, over and over.\<close>

fun timer_runs :: "'c cache_ops \<Rightarrow> nat \<Rightarrow> 'c medium \<Rightarrow> 'c medium result" where
  "timer_runs ops 0 m = Inr m"
| "timer_runs ops (Suc n) m =
     (case removeTimer m of
        None \<Rightarrow> Inr m
      | Some t \<Rightarrow> andThen (med_handleMessage ops (m\<lparr>simTime := t\<rparr>)) (timer_runs ops n))"

lemma timer_advance_inv: "net_inv d ca m \<Longrightarrow> removeTimer m = Some t \<Longrightarrow> net_inv d ca (m\<lparr>simTime := t\<rparr>)"
proof -
  assume i: "net_inv d ca m" and t: "removeTimer m = Some t"
  then have "simTime m \<le> t" by (simp add: net_inv_def med_inv_def timer_set_def)
  then show ?thesis using step_inv [OF time_passes i] t by simp
qed

lemma timer_forgets:
  assumes i: "net_inv d ca m" and t: "removeTimer m = Some (simTime m)"
  obtains m' gone where "med_handleMessage vector_ops m = Inr m'" and "net_inv d ca m'" and "med_radios m' = med_radios m"
    and "simTime m' = simTime m" and "transmissions m = gone @ transmissions m'" and "gone \<noteq> []"
    and "\<And>tx r. tx \<in> set gone \<Longrightarrow> told tx (med_radios m) r \<Longrightarrow> ar_endTime (ca tx r) + d \<le> simTime m"
proof -
  from handleMessage_run [OF net_core [OF i]] obtain m' where m': "med_handleMessage vector_ops m = Inr m'"
    "transmissions m' = dropWhile (over m) (transmissions m)" "simTime m' = simTime m" "med_radios m' = med_radios m" by blast
  show thesis
  proof (rule that [OF m'(1) handleMessage_net_inv [OF i m'(1)] m'(4,3)])
    let ?gone = "takeWhile (over m) (transmissions m)"
    show "transmissions m = ?gone @ transmissions m'" by (simp add: m'(2))
    from i t obtain tx txs where "transmissions m = tx # txs" "end_of m (mt_id tx) = Some (simTime m)"
      by (auto simp: net_inv_def med_inv_def timer_set_def split: list.splits)
    then show "?gone \<noteq> []" by (simp add: over_def)
    fix tx r
    assume tx: "tx \<in> set ?gone" and told: "told tx (med_radios m) r"
    from set_takeWhileD [OF tx] have "over m tx" "tx \<in> set (transmissions m)" by auto
    with i told show "ar_endTime (ca tx r) + d \<le> simTime m"
      unfolding net_inv_def med_inv_def core_inv_def all_told_def ends_recorded_def over_def
      by (metis option.exhaust option.inject order_trans)
  qed
qed

lemma timer_runs_end:
  assumes "net_inv d ca m" and "length (transmissions m) \<le> n"
  shows "\<exists>m'. timer_runs vector_ops n m = Inr m' \<and> net_inv d ca m' \<and> transmissions m' = []"
  using assms
proof (induction n arbitrary: m)
  case 0
  then show ?case by simp
next
  case (Suc n)
  show ?case
  proof (cases "removeTimer m")
    case None
    with Suc.prems show ?thesis
      by (auto simp: net_inv_def med_inv_def timer_set_def core_inv_def ends_recorded_def split: list.splits)
  next
    case (Some t)
    let ?m = "m\<lparr>simTime := t\<rparr>"
    obtain m1 gone where "med_handleMessage vector_ops ?m = Inr m1" "net_inv d ca m1" "transmissions ?m = gone @ transmissions m1" "gone \<noteq> []"
      by (rule timer_forgets [OF timer_advance_inv [OF Suc.prems(1) Some]]) (use Some in simp_all)
    with Suc.IH [of m1] Suc.prems(2) Some show ?thesis by (cases gone) auto
  qed
qed

text \<open>
  C16: in every state of a run, what the cache reports to a radio in place as the transmissions that interfere with
  the time from \<open>s\<close> to \<open>e\<close> are the transmissions in flight of the other radios whose arrival at the radio
  overlaps that time, each once: none is missed, and none is reported that has been forgotten, or that the radio sends itself.
\<close>

theorem interferers_exact:
  assumes "med_reachable d ca m" and "Some r \<in> set (med_radios m)"
    and "with_cache (computeInterferingTransmissions vector_ops r s e) m = Inr (txs, m')"
  shows "set txs = {tx \<in> set (transmissions m). mt_transmitter tx \<noteq> r
      \<and> interval_overlap s e (ar_startTime (ca tx r)) (ar_endTime (ca tx r))} \<and> distinct txs"
proof -
  note i = reachable_inv [OF assms(1)]
  have "distinct (transmissions m)" using net_inv_distinct [OF i] by (simp add: distinct_map)
  with computeInterfering_net [OF i assms(2,3)] show ?thesis by (simp add: overlapping_def)
qed

text \<open>
  C17: what the timer forgets. When it fires in a run, the purge succeeds and drops at least one transmission, from the front.
  The arrival of a dropped one at every radio in place has been over for at least the maximal transmission duration \<open>d\<close> of the
  medium limits. So it ended no later than the start of any reception that still goes on or comes later and lasts at most \<open>d\<close>;
  a reception that it did overlap in time, and that is not over, lasts longer than \<open>d\<close>. (Nothing makes \<open>d\<close> an upper bound
  of the receptions: it is a parameter, 10 ms by default, and most LoRa frames last longer; their early interferers can be lost.)
\<close>

theorem forgotten_cannot_interfere:
  assumes "med_reachable d ca m" and "removeTimer m = Some (simTime m)"
  shows "\<exists>m' gone. med_handleMessage vector_ops m = Inr m' \<and> transmissions m = gone @ transmissions m' \<and> gone \<noteq> []
    \<and> (\<forall>tx\<in>set gone. \<forall>r. told tx (med_radios m) r \<longrightarrow> ar_endTime (ca tx r) + d \<le> simTime m)
    \<and> (\<forall>tx\<in>set gone. \<forall>r s e. told tx (med_radios m) r \<longrightarrow> simTime m \<le> e \<longrightarrow> e - s \<le> d \<longrightarrow> ar_endTime (ca tx r) \<le> s)
    \<and> (\<forall>tx\<in>set gone. \<forall>r s e. told tx (med_radios m) r \<longrightarrow> simTime m \<le> e \<longrightarrow> s < ar_endTime (ca tx r) \<longrightarrow> d < e - s)"
proof -
  obtain m' gone where m': "med_handleMessage vector_ops m = Inr m'" "transmissions m = gone @ transmissions m'" "gone \<noteq> []"
    and late: "\<And>tx r. tx \<in> set gone \<Longrightarrow> told tx (med_radios m) r \<Longrightarrow> ar_endTime (ca tx r) + d \<le> simTime m"
    by (rule timer_forgets [OF reachable_inv [OF assms(1)] assms(2)]) blast
  have "ar_endTime (ca tx r) \<le> s" if "tx \<in> set gone" "told tx (med_radios m) r" "simTime m \<le> e" "e - s \<le> d"
    for tx r and s e :: simtime
    using late [OF that(1,2)] that(3,4) by linarith
  moreover have "d < e - s" if "tx \<in> set gone" "told tx (med_radios m) r" "simTime m \<le> e" "s < ar_endTime (ca tx r)"
    for tx r and s e :: simtime
    using late [OF that(1,2)] that(3,4) by linarith
  ultimately show ?thesis using m' late by (intro exI [of _ m'] exI [of _ gone] conjI ballI allI impI) blast+
qed

text \<open>
  C18: nothing is kept for ever. From every state of a run, when no further frame is sent, as many timer events as there are
  transmissions in flight suffice, none of them fails, and the medium then holds no transmission and no timer.
\<close>

theorem everything_is_forgotten:
  assumes "med_reachable d ca m"
  shows "\<exists>m'. timer_runs vector_ops (length (transmissions m)) m = Inr m' \<and> transmissions m' = [] \<and> removeTimer m' = None"
proof -
  from timer_runs_end [OF reachable_inv [OF assms] order_refl] obtain m' where
    "timer_runs vector_ops (length (transmissions m)) m = Inr m'" "net_inv d ca m'" "transmissions m' = []" by blast
  then show ?thesis by (auto simp: net_inv_def med_inv_def timer_set_def)
qed

subsection \<open>A run\<close>

text \<open>Two radios, and a frame of the first one that the second hears from 1 s to 2 s.\<close>

definition quiet_net :: "vector_cache medium" where
  "quiet_net = (new_medium \<lparr>radioCache = [new_radio_cache_entry, new_radio_cache_entry], baseRadioId = 0, transmissionCache = [],
      baseTransmissionId = 0\<rparr> (limit_addRadio sample_limit_params (\<lambda>_. sample_report) 1
        (limit_addRadio sample_limit_params (\<lambda>_. sample_report) 0 new_limit_cache)))\<lparr>med_radios := [Some 0, Some 1]\<rparr>"

lemma quiet_net_added:
  "\<exists>m. med_addRadio vector_ops sample_env 0 (new_medium empty_vector_cache new_limit_cache) = Inr m
     \<and> med_addRadio vector_ops sample_env 1 m = Inr quiet_net"
  by (simp add: med_addRadio_def new_medium_def quiet_net_def set_cache_def vec_addRadio_def vector_defs empty_vector_cache_def
      sample_env_def Let_def)

lemma sample_signal: "\<exists>sig. createTransmission False (new_mac_frame\<lparr>frameLoRaSF := 7\<rparr>) 0 = Inr sig"
  by (simp add: createTransmission_def transmission_parts_def payloadSymbNb_def Let_def)

lemmas sending_defs = addTransmission_def announce_def make_listening_def setCachedInterval_def setCachedListening_def setCachedArrival_def
  setCachedInterferenceEndTime_def getCachedInterferenceEndTime_def setCachedFrame_def with_transmission_def scheduleRemove_def
  sendToAffectedRadios_def sendToAllRadios_def sendToRadio_def sendDirect_def isPotentialReceiver_def setCachedReceptionFrame_def

lemmas entry_defs = new_reception_cache_entry_def new_radio_cache_entry_def new_vector_transmission_entry_def
  new_transmission_cache_entry_def transmission_cache_entry.extend_def vector_transmission_entry.fields_def
  transmission_cache_entry.truncate_def

lemma quiet_net_transmits:
  "\<exists>tx m. med_transmitPacket vector_ops sample_env 0 (new_mac_frame\<lparr>frameLoRaSF := 7\<rparr>) quiet_net = Inr (tx, m) \<and> mt_transmitter tx = 0
     \<and> med_radios m = [Some 0, Some 1] \<and> baseRadioId (communicationCache m) = 0 \<and> removeTimer m \<noteq> None"
proof -
  obtain sig where "createTransmission False (new_mac_frame\<lparr>frameLoRaSF := 7\<rparr>) 0 = Inr sig" using sample_signal by blast
  then show ?thesis
    by (simp add: med_transmitPacket_def createTransmitterRadioFrame_def sending_defs decision_defs cached_defs vector_defs entry_defs
        vec_addTransmission_def vec_getTransmission_def vec_pokeTransmission_def quiet_net_def new_medium_def sample_env_def sample_arrival_def limit_addRadio_def
        updateLimits_fields sample_limit_params_def Let_def)
qed

lemma sample_network: "med_network (1 / 100) (\<lambda>_ _. sample_arrival) sample_env"
  by (simp add: med_network_def sample_env_def sample_limit_params_def)

lemma quiet_net_reachable: "med_reachable (1 / 100) (\<lambda>_ _. sample_arrival) quiet_net"
proof -
  obtain m where m: "med_addRadio vector_ops sample_env 0 (new_medium empty_vector_cache new_limit_cache) = Inr m"
    "med_addRadio vector_ops sample_env 1 m = Inr quiet_net"
    using quiet_net_added by blast
  let ?reach = "med_reachable (1 / 100) (\<lambda>_ _. sample_arrival)" and ?start = "new_medium empty_vector_cache new_limit_cache"
  have "?reach ?start" by (rule at_start) (simp add: med_start_def new_medium_def)
  then have "?reach m"
    by (rule after_step [OF _ radio_added [OF sample_network _ _ m(1)]]) (simp_all add: new_medium_def)
  moreover from m(1) have "transmissions m = []" "med_radios m = [Some 0]"
    by (auto simp: med_addRadio_def new_medium_def set_cache_def vec_addRadio_def Let_def)
  ultimately show ?thesis
    by (intro after_step [OF _ radio_added [OF sample_network _ _ m(2)]]) simp_all
qed

text \<open>The same network with its frame in flight, and at the time of its timer.\<close>

lemma busy_net:
  obtains m tx where "med_reachable (1 / 100) (\<lambda>_ _. sample_arrival) m" and "transmissions m = [tx]" and "mt_transmitter tx = 0"
    and "med_radios m = [Some 0, Some 1]" and "baseRadioId (communicationCache m) = 0" and "removeTimer m \<noteq> None"
proof -
  obtain tx m where t: "med_transmitPacket vector_ops sample_env 0 (new_mac_frame\<lparr>frameLoRaSF := 7\<rparr>) quiet_net = Inr (tx, m)"
    "mt_transmitter tx = 0" "med_radios m = [Some 0, Some 1]" "baseRadioId (communicationCache m) = 0" "removeTimer m \<noteq> None"
    using quiet_net_transmits by blast
  note r = quiet_net_reachable
  show thesis
  proof (rule that [OF after_step [OF r transmits [OF sample_network t(1)]] _ t(2-5)])
    show "transmissions m = [tx]"
      using transmit_inv(2) [OF reachable_inv [OF r] sample_network t(1)] by (simp add: quiet_net_def new_medium_def)
  qed
qed

lemma busy_net_at_timer:
  obtains m tx where "med_reachable (1 / 100) (\<lambda>_ _. sample_arrival) m" and "transmissions m = [tx]" and "mt_transmitter tx = 0"
    and "med_radios m = [Some 0, Some 1]" and "removeTimer m = Some (simTime m)"
proof -
  obtain m tx where m: "med_reachable (1 / 100) (\<lambda>_ _. sample_arrival) m" "transmissions m = [tx]" "mt_transmitter tx = 0"
    "med_radios m = [Some 0, Some 1]" "removeTimer m \<noteq> None"
    by (rule busy_net)
  then obtain t where t: "removeTimer m = Some t" by blast
  with reachable_inv [OF m(1)] have "simTime m \<le> t" by (simp add: net_inv_def med_inv_def timer_set_def)
  then show thesis
    by (intro that [OF after_step [OF m(1) time_passes [of m t]], of tx]) (simp_all add: m t)
qed

lemma interferers_exact_witness:
  "\<exists>m txs m'. med_reachable (1 / 100) (\<lambda>_ _. sample_arrival) m
     \<and> with_cache (computeInterferingTransmissions vector_ops 1 1 2) m = Inr (txs, m')
     \<and> transmissions m \<noteq> [] \<and> set txs = set (transmissions m) \<and> distinct txs"
proof -
  obtain m tx where m: "med_reachable (1 / 100) (\<lambda>_ _. sample_arrival) m" "transmissions m = [tx]" "mt_transmitter tx = 0"
    "med_radios m = [Some 0, Some 1]" "baseRadioId (communicationCache m) = 0" by (rule busy_net)
  obtain txs m' where q: "with_cache (computeInterferingTransmissions vector_ops 1 1 2) m = Inr (txs, m')"
    using m(5) by (simp add: with_cache_def computeInterferingTransmissions_def vector_ops_def vec_getRadio_def Let_def)
  have "Some 1 \<in> set (med_radios m)" using m(4) by simp
  note t = interferers_exact [OF m(1) this q]
  have "interval_overlap 1 2 (ar_startTime sample_arrival) (ar_endTime sample_arrival)"
    by (simp add: sample_arrival_def interval_overlap_def)
  with t m(3) have "set txs = set (transmissions m)" "distinct txs" by (simp_all add: m(2) Collect_conv_if)
  moreover have "transmissions m \<noteq> []" by (simp add: m(2))
  ultimately show ?thesis using m(1) q by blast
qed

lemma forgotten_cannot_interfere_witness:
  "\<exists>m m' gone. med_reachable (1 / 100) (\<lambda>_ _. sample_arrival) m \<and> removeTimer m = Some (simTime m)
     \<and> med_handleMessage vector_ops m = Inr m' \<and> transmissions m = gone @ transmissions m' \<and> gone \<noteq> []
     \<and> told (hd gone) (med_radios m) 1 \<and> ar_endTime sample_arrival \<le> simTime m - 1 / 100"
proof -
  obtain m tx where m: "med_reachable (1 / 100) (\<lambda>_ _. sample_arrival) m" "transmissions m = [tx]" "mt_transmitter tx = 0"
    "med_radios m = [Some 0, Some 1]" "removeTimer m = Some (simTime m)" by (rule busy_net_at_timer)
  from forgotten_cannot_interfere [OF m(1,5)] obtain m' gone where g: "med_handleMessage vector_ops m = Inr m'"
    "transmissions m = gone @ transmissions m'" "gone \<noteq> []"
    "\<forall>tx\<in>set gone. \<forall>r s e. told tx (med_radios m) r \<longrightarrow> simTime m \<le> e \<longrightarrow> e - s \<le> 1 / 100 \<longrightarrow> ar_endTime sample_arrival \<le> s"
    by blast
  have "gone = [tx]" using g(2,3) m(2) by (cases gone) auto
  then have told: "told (hd gone) (med_radios m) 1" and "hd gone \<in> set gone" using m(3,4) by (simp_all add: told_def)
  from g(4) [rule_format, OF this(2,1) order_refl, of "simTime m - 1 / 100"]
  have "ar_endTime sample_arrival \<le> simTime m - 1 / 100" by simp
  with m(1,5) g(1-3) told show ?thesis by blast
qed

lemma everything_is_forgotten_witness:
  "\<exists>m m'. med_reachable (1 / 100) (\<lambda>_ _. sample_arrival) m \<and> length (transmissions m) = 1
     \<and> timer_runs vector_ops 1 m = Inr m' \<and> transmissions m' = []"
proof -
  obtain m tx where m: "med_reachable (1 / 100) (\<lambda>_ _. sample_arrival) m" "transmissions m = [tx]" by (rule busy_net)
  then have l: "length (transmissions m) = 1" by simp
  from everything_is_forgotten [OF m(1), unfolded l] m(1) l show ?thesis by blast
qed

end
