(* ===== verification/LoRaMediumDecisions.thy ===== *)
theory LoRaMediumDecisions
  imports LoRaMediumReach
begin

text \<open>
  The decisions on receptions along the runs of theory \<open>LoRaMediumReach\<close>. In every state the cache is sound: it has the result
  of a reception only with its decision, and the decision only with what it rests on. A step keeps the decisions on the
  transmissions that stay in flight, whatever it is: other frames sent, other questions, the purge of older transmissions.
\<close>

definition sound_net :: "vector_cache medium \<Rightarrow> bool" where
  "sound_net m \<longleftrightarrow> (\<forall>tx\<in>set (transmissions m). \<forall>r e. med_entry vector_ops m r (mt_id tx) = Some e \<longrightarrow> sound_entry e)"

definition decisions_stay :: "vector_cache medium \<Rightarrow> vector_cache medium \<Rightarrow> bool" where
  "decisions_stay m m' \<longleftrightarrow> (\<forall>tx\<in>set (transmissions m). tx \<in> set (transmissions m') \<longrightarrow> kept_at m m' (mt_id tx))"

lemma kept_sound:
  assumes "kept_at m m' t" and "\<And>e. med_entry vector_ops m r t = Some e \<Longrightarrow> sound_entry e" and "med_entry vector_ops m' r t = Some e'"
  shows "sound_entry e'"
proof -
  have "rel_option entry_kept (med_entry vector_ops m r t) (Some e')" using assms(1,3) unfolding kept_at_def by metis
  with assms(2) show ?thesis by (auto simp: option_rel_Some2 entry_kept_def)
qed

text \<open>When the transmissions are among the old ones, keeping the decisions keeps the cache sound.\<close>

lemma stay_sound: "decisions_stay m m' \<Longrightarrow> set (transmissions m') \<subseteq> set (transmissions m) \<Longrightarrow> sound_net m \<Longrightarrow> sound_net m'"
  unfolding sound_net_def decisions_stay_def by (blast intro: kept_sound)

lemma steady_stay: "steady m m' \<Longrightarrow> decisions_stay m m'"
  by (simp add: steady_def entries_kept_def decisions_stay_def)

lemma step_stays:
  assumes "med_step d ca m m'" and i: "net_inv d ca m" and s: "sound_net m"
  shows "decisions_stay m m' \<and> sound_net m'"
proof -
  have steady: ?thesis if "steady m m'"
    using stay_sound [OF steady_stay [OF that]] steady_stay [OF that] steady_transmissions [OF that] s by simp
  have idle: ?thesis if "transmissions m = []" "transmissions m' = []"
    using that by (simp add: decisions_stay_def sound_net_def)
  have i': "med_inv d m" if "transmissions m = []" using i that by (simp add: idle_net_inv)
  from assms(1) show ?thesis
  proof cases
    case (radio_added env r)
    with addRadio_inv(2) [OF i'] show ?thesis by (intro idle) (auto simp: med_network_def)
  next
    case (radio_removed env r)
    with removeRadio_inv(2) [OF i'] show ?thesis by (intro idle) (auto simp: med_network_def)
  next
    case (transmits env r frame tx)
    note t = transmit_inv [OF i transmits]
    from t(3) have "kept_at m m' (mt_id x)" if "x \<in> set (transmissions m)" for x using that by blast
    then have k: "decisions_stay m m'" by (simp add: decisions_stay_def)
    have "sound_entry e" if "x \<in> set (transmissions m')" "med_entry vector_ops m' q (mt_id x) = Some e" for x q e
    proof (cases "x \<in> set (transmissions m)")
      case True
      with t(3) that(2) s show ?thesis unfolding sound_net_def by (blast intro: kept_sound)
    next
      case False
      with that t(2,4) show ?thesis by auto
    qed
    with k show ?thesis by (simp add: sound_net_def)
  next
    case (asks_attempted tx env r b)
    with attempted_steady inv_ready [OF net_core [OF i]] show ?thesis by (intro steady) blast
  next
    case (asks_successful tx env r b)
    with successful_steady inv_ready [OF net_core [OF i]] show ?thesis by (intro steady) blast
  next
    case (asks_decision tx env r l dec)
    with decision_steady inv_ready [OF net_core [OF i]] show ?thesis by (intro steady) blast
  next
    case (asks_result tx env r l res)
    with result_steady inv_ready [OF net_core [OF i]] show ?thesis by (intro steady) blast
  next
    case (receives tx env r x)
    with receivePacket_steady inv_ready [OF net_core [OF i]] show ?thesis by (intro steady) blast
  next
    case (listens env r l b)
    with listenOnMedium_steady inv_intervals_known [OF net_core [OF i]] show ?thesis by (intro steady) blast
  next
    case (signalled env signal r)
    with receiveSignal_steady net_core [OF i] show ?thesis by (intro steady) blast
  next
    case (time_passes t)
    then have "entries_kept m m'" by (simp add: entries_outside)
    then have "decisions_stay m m'" by (simp add: decisions_stay_def entries_kept_def)
    with stay_sound [OF this] s time_passes show ?thesis by simp
  next
    case timer_fires
    with handleMessage_run [OF net_core [OF i]] have h: "transmissions m' = dropWhile (over m) (transmissions m)"
      "\<forall>tx\<in>set (transmissions m'). kept_at m m' (mt_id tx)" by auto
    then have "decisions_stay m m'" by (simp add: decisions_stay_def)
    moreover have "set (transmissions m') \<subseteq> set (transmissions m)" unfolding h(1) by (auto dest: set_dropWhileD)
    ultimately show ?thesis using stay_sound s by blast
  qed
qed

lemma reachable_sound: "med_reachable d ca m \<Longrightarrow> sound_net m"
proof (induction rule: med_reachable.induct)
  case (at_start m)
  then show ?case by (simp add: med_start_def sound_net_def)
next
  case (after_step m m')
  with step_stays reachable_inv show ?case by blast
qed

text \<open>Runs during which a transmission stays in flight: no purge has forgotten it.\<close>

inductive in_flight :: "simtime \<Rightarrow> (med_transmission \<Rightarrow> nat \<Rightarrow> arrival) \<Rightarrow> med_transmission \<Rightarrow> vector_cache medium \<Rightarrow> vector_cache medium \<Rightarrow> bool"
  for d ca tx m where
  flight_starts: "tx \<in> set (transmissions m) \<Longrightarrow> in_flight d ca tx m m"
| flight_goes_on: "in_flight d ca tx m m1 \<Longrightarrow> med_step d ca m1 m2 \<Longrightarrow> tx \<in> set (transmissions m2) \<Longrightarrow> in_flight d ca tx m m2"

lemma in_flight_stays:
  assumes "in_flight d ca tx m m'" and "med_reachable d ca m"
  shows "med_reachable d ca m' \<and> kept_at m m' (mt_id tx) \<and> tx \<in> set (transmissions m) \<and> tx \<in> set (transmissions m')"
  using assms
proof (induction rule: in_flight.induct)
  case flight_starts
  then show ?case by (simp add: kept_at_same)
next
  case (flight_goes_on m1 m2)
  then have r: "med_reachable d ca m1" "kept_at m m1 (mt_id tx)" "tx \<in> set (transmissions m1)" by blast+
  from step_stays [OF flight_goes_on(2) reachable_inv [OF r(1)] reachable_sound [OF r(1)]] r(3) flight_goes_on(3)
  have "kept_at m1 m2 (mt_id tx)" by (simp add: decisions_stay_def)
  with r flight_goes_on show ?case by (blast intro: after_step kept_at_trans)
qed

text \<open>
  C22: a reception is decided once. In a run of the medium, over the vector cache, let a radio ask for the decision on the
  whole signal of a transmission in flight. In every later state of the run, until the purge forgets the transmission, that radio
  gets this decision again when it asks for the decision, and a result with this decision when it asks for the
  result, with whatever listening and environment; neither query fails or touches the receivers, with the collision and sensitivity
  statistics a decision updates, or the count of computed decisions. In between, frames may be sent, radios may ask what they
  like about the whole signal of any transmission, receive it, listen, change their mode, and the timer may fire. (Decisions
  on a part of the signal, asked only when \<open>separateReceptionParts\<close> is set, are not in these runs: they cut or
  overwrite the stored vector.)
\<close>

theorem decision_taken_once:
  assumes "med_reachable d ca m" and "tx \<in> set (transmissions m)"
    and "getReceptionDecision vector_ops env r l tx SIGNAL_PART_WHOLE m = Inr (dec, m1)" and "in_flight d ca tx m1 m2"
  shows "(\<exists>m3. getReceptionDecision vector_ops env' r l' tx SIGNAL_PART_WHOLE m2 = Inr (dec, m3) \<and> receivers m3 = receivers m2
      \<and> receptionDecisionComputationCount m3 = receptionDecisionComputationCount m2)
    \<and> (\<exists>res m3. getReceptionResult vector_ops env' r l' tx m2 = Inr (res, m3) \<and> rr_decisions res = [dec] \<and> receivers m3 = receivers m2
      \<and> receptionDecisionComputationCount m3 = receptionDecisionComputationCount m2)"
proof -
  have "known m (mt_id tx)" using inv_known [OF net_core [OF reachable_inv [OF assms(1)]] assms(2)] .
  from vector_shaped.decision_first [OF assms(3) this] obtain e where
    e: "med_entry vector_ops m1 r (mt_id tx) = Some e" "first_decision e = Some dec" by blast
  have "med_reachable d ca m1" using assms(1-3) by (blast intro: after_step asks_decision)
  from in_flight_stays [OF assms(4) this] have s: "med_reachable d ca m2" "kept_at m1 m2 (mt_id tx)" "tx \<in> set (transmissions m2)"
    by blast+
  from s(2) have "rel_option entry_kept (Some e) (med_entry vector_ops m2 r (mt_id tx))" unfolding kept_at_def e(1) [symmetric] by blast
  with e(2) obtain e2 where e2: "med_entry vector_ops m2 r (mt_id tx) = Some e2" "first_decision e2 = Some dec"
    by (auto simp: option_rel_Some1 entry_kept_def)
  moreover have "sound_entry e2" using reachable_sound [OF s(1)] s(3) e2(1) unfolding sound_net_def by blast
  ultimately show ?thesis
    using vector_shaped.decision_hit [OF e2] vector_shaped.decided_again [OF e2(1)] unfolding quiet_def by blast
qed

text \<open>A decision in the run of theory \<open>LoRaMediumReach\<close>.\<close>

lemma sample_signal_frequency: "\<exists>sig. createTransmission False (new_mac_frame\<lparr>frameLoRaSF := 7\<rparr>) 0 = Inr sig \<and> tr_LoRaCF sig \<noteq> 433"
  by (simp add: createTransmission_def transmission_parts_def payloadSymbNb_def new_mac_frame_def Let_def)

lemma quiet_net_decides:
  "\<exists>tx m dec m1. med_transmitPacket vector_ops sample_env 0 (new_mac_frame\<lparr>frameLoRaSF := 7\<rparr>) quiet_net = Inr (tx, m)
     \<and> getReceptionDecision vector_ops sample_env 1 sample_listening tx SIGNAL_PART_WHOLE m = Inr (dec, m1)"
proof -
  obtain sig where "createTransmission False (new_mac_frame\<lparr>frameLoRaSF := 7\<rparr>) 0 = Inr sig" "tr_LoRaCF sig \<noteq> 433"
    using sample_signal_frequency by blast
  then show ?thesis
    by (simp add: med_transmitPacket_def createTransmitterRadioFrame_def sending_defs decision_defs cached_defs vector_defs entry_defs
        vec_addTransmission_def vec_getTransmission_def vec_pokeTransmission_def quiet_net_def new_medium_def sample_env_def sample_arrival_def limit_addRadio_def
        updateLimits_fields sample_limit_params_def sample_listening_def computeReceptionDecision_def computeIsReceptionPossible_def
        computeReception_def computeNoise_def sample_receiver_def query_def Let_def)
qed

lemma decision_taken_once_witness:
  "\<exists>m tx dec m1 t res m3. med_reachable (1 / 100) (\<lambda>_ _. sample_arrival) m \<and> transmissions m = [tx]
     \<and> getReceptionDecision vector_ops sample_env 1 sample_listening tx SIGNAL_PART_WHOLE m = Inr (dec, m1)
     \<and> removeTimer m1 = Some t
     \<and> getReceptionResult vector_ops sample_env 1 sample_listening tx (m1\<lparr>simTime := t\<rparr>) = Inr (res, m3) \<and> rr_decisions res = [dec]"
proof -
  let ?reach = "med_reachable (1 / 100) (\<lambda>_ _. sample_arrival)" and ?step = "med_step (1 / 100) (\<lambda>_ _. sample_arrival)"
  obtain tx m dec m1 where t: "med_transmitPacket vector_ops sample_env 0 (new_mac_frame\<lparr>frameLoRaSF := 7\<rparr>) quiet_net = Inr (tx, m)"
    and d: "getReceptionDecision vector_ops sample_env 1 sample_listening tx SIGNAL_PART_WHOLE m = Inr (dec, m1)"
    using quiet_net_decides by blast
  note r0 = quiet_net_reachable
  have r: "?reach m" by (rule after_step [OF r0 transmits [OF sample_network t]])
  have tx: "transmissions m = [tx]"
    using transmit_inv(2) [OF reachable_inv [OF r0] sample_network t] by (simp add: quiet_net_def new_medium_def)
  then have ask: "?step m m1" using d by (intro asks_decision) auto
  note r1 = after_step [OF r ask]
  have st: "steady m m1" using decision_steady [OF d] inv_ready [OF net_core [OF reachable_inv [OF r]]] tx by simp
  then have tx1: "transmissions m1 = [tx]" using steady_transmissions tx by metis
  with reachable_inv [OF r1] obtain t where timer: "removeTimer m1 = Some t" "simTime m1 \<le> t"
    by (auto simp: net_inv_def med_inv_def timer_set_def core_inv_def ends_recorded_def)
  let ?m2 = "m1\<lparr>simTime := t\<rparr>"
  have "in_flight (1 / 100) (\<lambda>_ _. sample_arrival) tx m1 ?m2"
    by (rule flight_goes_on [OF flight_starts time_passes]) (use tx1 timer in simp_all)
  from decision_taken_once [OF r _ d this, of sample_env sample_listening] tx obtain res m3 where
    "getReceptionResult vector_ops sample_env 1 sample_listening tx ?m2 = Inr (res, m3)" "rr_decisions res = [dec]" by auto
  with r tx d timer(1) show ?thesis by blast
qed

end
