(* ===== verification/IntervalTree.thy ===== *)
theory IntervalTree
  imports CommunicationCache
begin

text \<open>
  \<open>common/IntervalTree.cc\<close>: a red-black tree of intervals in which every node also knows the largest upper end below it.
  The nodes are cells of a heap with parent pointers; an address is a number. Two sentinels take the place of null: the
  root, whose left child is the topmost node, and \<open>nil\<close>, the only leaf, whose parent pointer the deletion uses.

  The loops of the code may not end on a malformed heap: they are \<open>option\<close> values, \<open>None\<close> being a loop that does not
  return. An \<open>Interval\<close> object is identified with its content, the type \<open>interval\<close> of theory
  \<open>CommunicationCache\<close>. A deleted node stays in the heap as garbage (the code frees it, and with it the
  interval that \<open>deleteNode\<close> answers, which no caller reads). \<open>it_maxTime\<close> is \<open>SimTime::getMaxTime()\<close>.
\<close>

record itnode =
  stored_interval :: "interval option"
  it_key :: simtime
  it_high :: simtime
  max_high :: simtime
  red :: bool
  it_left :: nat
  it_right :: nat
  it_parent :: nat

type_synonym it_heap = "nat \<Rightarrow> itnode"

record interval_tree =
  cells :: it_heap
  it_nil :: nat
  it_root :: nat
  it_free :: nat
  it_maxTime :: simtime

definition new_itnode :: "nat \<Rightarrow> interval \<Rightarrow> itnode" where
  "new_itnode null iv = \<lparr>stored_interval = Some iv, it_key = low iv, it_high = high iv, max_high = high iv, red = False,
     it_left = null, it_right = null, it_parent = null\<rparr>"

text \<open>The constructor of the tree. Cells that were never written have no meaning.\<close>

definition new_interval_tree :: "simtime \<Rightarrow> interval_tree" where
  "new_interval_tree M =
     (let nil = 0; rt = 1;
          nilNode = \<lparr>stored_interval = None, it_key = - M, it_high = - M, max_high = - M, red = False,
                     it_left = nil, it_right = nil, it_parent = nil\<rparr>;
          rootNode = \<lparr>stored_interval = None, it_key = M, it_high = M, max_high = M, red = False,
                      it_left = nil, it_right = nil, it_parent = nil\<rparr>
      in \<lparr>cells = (\<lambda>_. nilNode)(rt := rootNode), it_nil = nil, it_root = rt, it_free = 2, it_maxTime = M\<rparr>)"

subsection \<open>Writing to a node\<close>

abbreviation set_left :: "nat \<Rightarrow> nat \<Rightarrow> it_heap \<Rightarrow> it_heap" where
  "set_left a v h \<equiv> h(a := (h a)\<lparr>it_left := v\<rparr>)"

abbreviation set_right :: "nat \<Rightarrow> nat \<Rightarrow> it_heap \<Rightarrow> it_heap" where
  "set_right a v h \<equiv> h(a := (h a)\<lparr>it_right := v\<rparr>)"

abbreviation set_parent :: "nat \<Rightarrow> nat \<Rightarrow> it_heap \<Rightarrow> it_heap" where
  "set_parent a v h \<equiv> h(a := (h a)\<lparr>it_parent := v\<rparr>)"

abbreviation set_red :: "nat \<Rightarrow> bool \<Rightarrow> it_heap \<Rightarrow> it_heap" where
  "set_red a v h \<equiv> h(a := (h a)\<lparr>red := v\<rparr>)"

abbreviation set_max_high :: "nat \<Rightarrow> simtime \<Rightarrow> it_heap \<Rightarrow> it_heap" where
  "set_max_high a v h \<equiv> h(a := (h a)\<lparr>max_high := v\<rparr>)"

subsection \<open>Rotations\<close>

text \<open>The link from the parent of \<open>x\<close> is moved to \<open>y\<close>.\<close>

definition relink :: "nat \<Rightarrow> nat \<Rightarrow> it_heap \<Rightarrow> it_heap" where
  "relink x y h = (let p = it_parent (h x) in if x = it_left (h p) then set_left p y h else set_right p y h)"

definition leftRotate :: "nat \<Rightarrow> nat \<Rightarrow> it_heap \<Rightarrow> it_heap" where
  "leftRotate nil x h =
     (let y = it_right (h x);
          h = set_right x (it_left (h y)) h;
          h = (if it_left (h y) \<noteq> nil then set_parent (it_left (h y)) x h else h);
          h = set_parent y (it_parent (h x)) h;
          h = relink x y h;
          h = set_left y x h;
          h = set_parent x y h;
          h = set_max_high x (max (max_high (h (it_left (h x)))) (max (max_high (h (it_right (h x)))) (it_high (h x)))) h
      in set_max_high y (max (max_high (h x)) (max (max_high (h (it_right (h y)))) (it_high (h y)))) h)"

definition rightRotate :: "nat \<Rightarrow> nat \<Rightarrow> it_heap \<Rightarrow> it_heap" where
  "rightRotate nil y h =
     (let x = it_left (h y);
          h = set_left y (it_right (h x)) h;
          h = (if nil \<noteq> it_right (h x) then set_parent (it_right (h x)) y h else h);
          h = set_parent x (it_parent (h y)) h;
          h = relink y x h;
          h = set_right x y h;
          h = set_parent y x h;
          h = set_max_high y (max (max_high (h (it_left (h y)))) (max (max_high (h (it_right (h y)))) (it_high (h y)))) h
      in set_max_high x (max (max_high (h (it_left (h x)))) (max (max_high (h y)) (it_high (h x)))) h)"

subsection \<open>Insertion\<close>

text \<open>The loop of \<open>recursiveInsert\<close>: the last node above the place of the new one.\<close>

partial_function (option) descend :: "nat \<Rightarrow> it_heap \<Rightarrow> simtime \<Rightarrow> nat \<Rightarrow> nat \<Rightarrow> nat option" where
  "descend nil h k y x =
     (if x = nil then Some y
      else descend nil h k x (if k < it_key (h x) then it_left (h x) else it_right (h x)))"

definition recursiveInsert :: "nat \<Rightarrow> nat \<Rightarrow> nat \<Rightarrow> it_heap \<Rightarrow> it_heap option" where
  "recursiveInsert nil rt z h =
     (let h = set_left z nil (set_right z nil h)
      in Option.bind (descend nil h (it_key (h z)) rt (it_left (h rt)))
           (\<lambda>y. let h = set_parent z y h
                in Some (if y = rt \<or> it_key (h z) < it_key (h y) then set_left y z h else set_right y z h)))"

partial_function (option) fixupMaxHigh :: "nat \<Rightarrow> nat \<Rightarrow> it_heap \<Rightarrow> it_heap option" where
  "fixupMaxHigh rt x h =
     (if x = rt then Some h
      else fixupMaxHigh rt (it_parent (h x))
             (set_max_high x (max (it_high (h x)) (max (max_high (h (it_left (h x)))) (max_high (h (it_right (h x)))))) h))"

text \<open>The body of the loop of \<open>insert\<close>, and the loop.\<close>

definition insertFixup_body :: "nat \<Rightarrow> nat \<Rightarrow> it_heap \<Rightarrow> nat \<times> it_heap" where
  "insertFixup_body nil x h =
     (let p = it_parent (h x); g = it_parent (h p)
      in if p = it_left (h g)
         then let y = it_right (h g)
              in if red (h y)
                 then (g, set_red g True (set_red y False (set_red p False h)))
                 else let (x, h) = (if x = it_right (h p) then (p, leftRotate nil p h) else (x, h));
                          p = it_parent (h x);
                          h = set_red p False h;
                          h = set_red (it_parent (h p)) True h
                      in (x, rightRotate nil (it_parent (h p)) h)
         else let y = it_left (h g)
              in if red (h y)
                 then (g, set_red g True (set_red y False (set_red p False h)))
                 else let (x, h) = (if x = it_left (h p) then (p, rightRotate nil p h) else (x, h));
                          p = it_parent (h x);
                          h = set_red p False h;
                          h = set_red (it_parent (h p)) True h
                      in (x, leftRotate nil (it_parent (h p)) h))"

partial_function (option) insertFixup :: "nat \<Rightarrow> nat \<Rightarrow> it_heap \<Rightarrow> it_heap option" where
  "insertFixup nil x h =
     (if red (h (it_parent (h x)))
      then insertFixup nil (fst (insertFixup_body nil x h)) (snd (insertFixup_body nil x h))
      else Some h)"

definition it_insert :: "interval \<Rightarrow> interval_tree \<Rightarrow> (nat \<times> interval_tree) option" where
  "it_insert new_interval t =
     (let x = it_free t; nil = it_nil t; rt = it_root t
      in Option.bind (recursiveInsert nil rt x ((cells t)(x := new_itnode nil new_interval)))
           (\<lambda>h. Option.bind (fixupMaxHigh rt (it_parent (h x)) h)
              (\<lambda>h. Option.bind (insertFixup nil x (set_red x True h))
                 (\<lambda>h. Some (x, t\<lparr>cells := set_red (it_left (h rt)) False h, it_free := x + 1\<rparr>)))))"

subsection \<open>Deletion\<close>

partial_function (option) getMinimum :: "nat \<Rightarrow> it_heap \<Rightarrow> nat \<Rightarrow> nat option" where
  "getMinimum nil h x = (if it_left (h x) \<noteq> nil then getMinimum nil h (it_left (h x)) else Some x)"

partial_function (option) successor_above :: "nat \<Rightarrow> it_heap \<Rightarrow> nat \<Rightarrow> nat \<Rightarrow> nat option" where
  "successor_above nil h x y =
     (if y \<noteq> nil \<and> x = it_right (h y) then successor_above nil h y (it_parent (h y)) else Some y)"

definition getSuccessor :: "nat \<Rightarrow> it_heap \<Rightarrow> nat \<Rightarrow> nat option" where
  "getSuccessor nil h x =
     (if nil \<noteq> it_right (h x) then getMinimum nil h (it_right (h x)) else successor_above nil h x (it_parent (h x)))"

text \<open>The body of the loop of \<open>deleteFixup\<close>, its two halves, and the loop.\<close>

definition deleteFixup_left :: "nat \<Rightarrow> nat \<Rightarrow> nat \<Rightarrow> it_heap \<Rightarrow> nat \<times> it_heap" where
  "deleteFixup_left nil root_left_node x h =
     (let w = it_right (h (it_parent (h x)));
          (w, h) = (if red (h w)
                    then let h = set_red w False h;
                             h = set_red (it_parent (h x)) True h;
                             h = leftRotate nil (it_parent (h x)) h
                         in (it_right (h (it_parent (h x))), h)
                    else (w, h))
      in if \<not> red (h (it_right (h w))) \<and> \<not> red (h (it_left (h w)))
         then (it_parent (h x), set_red w True h)
         else let (w, h) = (if \<not> red (h (it_right (h w)))
                            then let h = set_red (it_left (h w)) False h;
                                     h = set_red w True h;
                                     h = rightRotate nil w h
                                 in (it_right (h (it_parent (h x))), h)
                            else (w, h));
                  h = set_red w (red (h (it_parent (h x)))) h;
                  h = set_red (it_parent (h x)) False h;
                  h = set_red (it_right (h w)) False h;
                  h = leftRotate nil (it_parent (h x)) h
              in (root_left_node, h))"

definition deleteFixup_right :: "nat \<Rightarrow> nat \<Rightarrow> nat \<Rightarrow> it_heap \<Rightarrow> nat \<times> it_heap" where
  "deleteFixup_right nil root_left_node x h =
     (let w = it_left (h (it_parent (h x)));
          (w, h) = (if red (h w)
                    then let h = set_red w False h;
                             h = set_red (it_parent (h x)) True h;
                             h = rightRotate nil (it_parent (h x)) h
                         in (it_left (h (it_parent (h x))), h)
                    else (w, h))
      in if \<not> red (h (it_right (h w))) \<and> \<not> red (h (it_left (h w)))
         then (it_parent (h x), set_red w True h)
         else let (w, h) = (if \<not> red (h (it_left (h w)))
                            then let h = set_red (it_right (h w)) False h;
                                     h = set_red w True h;
                                     h = leftRotate nil w h
                                 in (it_left (h (it_parent (h x))), h)
                            else (w, h));
                  h = set_red w (red (h (it_parent (h x)))) h;
                  h = set_red (it_parent (h x)) False h;
                  h = set_red (it_left (h w)) False h;
                  h = rightRotate nil (it_parent (h x)) h
              in (root_left_node, h))"

definition deleteFixup_body :: "nat \<Rightarrow> nat \<Rightarrow> nat \<Rightarrow> it_heap \<Rightarrow> nat \<times> it_heap" where
  "deleteFixup_body nil root_left_node x h =
     (if x = it_left (h (it_parent (h x))) then deleteFixup_left nil root_left_node x h
      else deleteFixup_right nil root_left_node x h)"

partial_function (option) deleteFixupLoop :: "nat \<Rightarrow> nat \<Rightarrow> nat \<Rightarrow> it_heap \<Rightarrow> (nat \<times> it_heap) option" where
  "deleteFixupLoop nil root_left_node x h =
     (if \<not> red (h x) \<and> root_left_node \<noteq> x
      then deleteFixupLoop nil root_left_node (fst (deleteFixup_body nil root_left_node x h)) (snd (deleteFixup_body nil root_left_node x h))
      else Some (x, h))"

definition it_deleteFixup :: "nat \<Rightarrow> nat \<Rightarrow> nat \<Rightarrow> it_heap \<Rightarrow> it_heap option" where
  "it_deleteFixup nil rt x h =
     Option.bind (deleteFixupLoop nil (it_left (h rt)) x h) (\<lambda>(x, h). Some (set_red x False h))"

text \<open>The overload that takes a node; the answer is the interval the node stored.\<close>

definition it_deleteNode :: "nat \<Rightarrow> interval_tree \<Rightarrow> (interval option \<times> interval_tree) option" where
  "it_deleteNode z t =
     (let nil = it_nil t; rt = it_root t; h = cells t; node_to_delete = stored_interval (h z)
      in Option.bind (if it_left (h z) = nil \<or> it_right (h z) = nil then Some z else getSuccessor nil h z)
           (\<lambda>y. let x = (if it_left (h y) = nil then it_right (h y) else it_left (h y));
                    h = set_parent x (it_parent (h y)) h;
                    h = (if rt = it_parent (h x) then set_left rt x h
                         else if y = it_left (h (it_parent (h y))) then set_left (it_parent (h y)) x h
                         else set_right (it_parent (h y)) x h)
                in if y \<noteq> z
                   then let h = set_max_high y (- it_maxTime t) h;
                            h = set_left y (it_left (h z)) h;
                            h = set_right y (it_right (h z)) h;
                            h = set_parent y (it_parent (h z)) h;
                            h = set_parent (it_right (h z)) y h;
                            h = set_parent (it_left (h z)) y h;
                            h = relink z y h
                        in Option.bind (fixupMaxHigh rt (it_parent (h x)) h)
                             (\<lambda>h. Option.bind (if \<not> red (h y) then it_deleteFixup nil rt x (set_red y (red (h z)) h)
                                               else Some (set_red y (red (h z)) h))
                                (\<lambda>h. Some (node_to_delete, t\<lparr>cells := h\<rparr>)))
                   else Option.bind (fixupMaxHigh rt (it_parent (h x)) h)
                          (\<lambda>h. Option.bind (if \<not> red (h y) then it_deleteFixup nil rt x h else Some h)
                             (\<lambda>h. Some (node_to_delete, t\<lparr>cells := h\<rparr>)))))"

partial_function (option) recursiveSearch :: "nat \<Rightarrow> it_heap \<Rightarrow> nat \<Rightarrow> interval \<Rightarrow> nat option" where
  "recursiveSearch nil h node ivl =
     (if node \<noteq> nil
      then if stored_interval (h node) = Some ivl then Some node
           else Option.bind (recursiveSearch nil h (it_left (h node)) ivl)
                  (\<lambda>left. if left \<noteq> nil then Some left
                          else Option.bind (recursiveSearch nil h (it_right (h node)) ivl)
                                 (\<lambda>right. if right \<noteq> nil then Some right else Some nil))
      else Some nil)"

definition it_delete :: "interval \<Rightarrow> interval_tree \<Rightarrow> interval_tree option" where
  "it_delete ivl t =
     Option.bind (recursiveSearch (it_nil t) (cells t) (it_root t) ivl)
       (\<lambda>node. if node \<noteq> it_nil t then Option.bind (it_deleteNode node t) (\<lambda>(_, t). Some t) else Some t)"

subsection \<open>The query\<close>

text \<open>
  The stack of the query is a list, cut at its top: an element above the top is written before it is read. The flag
  \<open>run\<close> of the code is \<open>x \<noteq> nil\<close> wherever it is tested. The element 0 has no start node. Running out of memory for the
  stack is not modelled.
\<close>

record it_recursion_node =
  start_node :: nat
  parent_index :: nat
  try_right_branch :: bool

definition mark_try_right :: "nat \<Rightarrow> it_recursion_node list \<Rightarrow> it_recursion_node list" where
  "mark_try_right i st = st[i := (st ! i)\<lparr>try_right_branch := True\<rparr>]"

partial_function (option) query_unwind ::
  "nat \<Rightarrow> it_heap \<Rightarrow> nat \<Rightarrow> it_recursion_node list \<Rightarrow> nat \<Rightarrow> (nat \<times> it_recursion_node list \<times> nat) option" where
  "query_unwind nil h x st current_parent =
     (if x = nil \<and> 1 < length st
      then let f = last st; st = butlast st
           in if try_right_branch f
              then query_unwind nil h (it_right (h (start_node f))) (mark_try_right (parent_index f) st) (parent_index f)
              else query_unwind nil h x st current_parent
      else Some (x, st, current_parent))"

definition query_step ::
  "it_heap \<Rightarrow> simtime \<Rightarrow> simtime \<Rightarrow> nat \<Rightarrow> it_recursion_node list \<Rightarrow> nat \<Rightarrow> nat \<times> it_recursion_node list \<times> nat" where
  "query_step h lo hi x st current_parent =
     (let st = (if interval_overlap lo hi (it_key (h x)) (it_high (h x)) then mark_try_right current_parent st else st)
      in if lo \<le> max_high (h (it_left (h x)))
         then (it_left (h x), st @ [\<lparr>start_node = x, parent_index = current_parent, try_right_branch = False\<rparr>], length st)
         else (it_right (h x), st, current_parent))"

partial_function (option) query_loop ::
  "nat \<Rightarrow> it_heap \<Rightarrow> simtime \<Rightarrow> simtime \<Rightarrow> nat \<times> it_recursion_node list \<times> nat \<Rightarrow> interval option list \<Rightarrow> interval option list option" where
  "query_loop nil h lo hi state result =
     (case state of (x, st, current_parent) \<Rightarrow>
        if x = nil then Some result
        else Option.bind (case query_step h lo hi x st current_parent of (x, st, current_parent) \<Rightarrow> query_unwind nil h x st current_parent)
               (\<lambda>state. query_loop nil h lo hi state
                  (if interval_overlap lo hi (it_key (h x)) (it_high (h x)) then result @ [stored_interval (h x)] else result)))"

definition it_query :: "simtime \<Rightarrow> simtime \<Rightarrow> interval_tree \<Rightarrow> interval option list option" where
  "it_query lo hi t =
     query_loop (it_nil t) (cells t) lo hi
       (it_left (cells t (it_root t)), [\<lparr>start_node = it_nil t, parent_index = 0, try_right_branch = False\<rparr>], 0) []"

end
