(* ===== verification/IntervalShape.thy ===== *)
theory IntervalShape
  imports IntervalTree
begin

text \<open>
  The trees that the heap of an interval tree stands for, and what insertion and deletion do to them: nodes with their
  addresses, intervals and colours, and the path from a node up to the root in the place of the parent pointers. The red-black
  invariants hold of every tree the two operations build, and the intervals from left to right stay in the order of
  their lower ends.
\<close>

datatype shape = Lf | Nd shape nat interval bool shape

fun is_red :: "shape \<Rightarrow> bool" where
  "is_red Lf = False"
| "is_red (Nd l a i c r) = c"

fun paint :: "bool \<Rightarrow> shape \<Rightarrow> shape" where
  "paint c Lf = Lf"
| "paint c (Nd l a i _ r) = Nd l a i c r"

text \<open>The nodes from left to right.\<close>

fun nodes :: "shape \<Rightarrow> (nat \<times> interval) list" where
  "nodes Lf = []"
| "nodes (Nd l a i c r) = nodes l @ (a, i) # nodes r"

text \<open>A step up from a node: what is beside it and above it.\<close>

datatype frame = LeftOf nat interval bool shape | RightOf shape nat interval bool

fun mk :: "frame \<Rightarrow> shape \<Rightarrow> shape" where
  "mk (LeftOf a i c r) t = Nd t a i c r"
| "mk (RightOf l a i c) t = Nd l a i c t"

fun plug :: "frame list \<Rightarrow> shape \<Rightarrow> shape" where
  "plug [] t = t"
| "plug (f # fs) t = plug fs (mk f t)"

fun fred :: "frame \<Rightarrow> bool" where
  "fred (LeftOf a i c r) = c"
| "fred (RightOf l a i c) = c"

fun frepaint :: "bool \<Rightarrow> frame \<Rightarrow> frame" where
  "frepaint c (LeftOf a i _ r) = LeftOf a i c r"
| "frepaint c (RightOf l a i _) = RightOf l a i c"

fun sib :: "frame \<Rightarrow> shape" where
  "sib (LeftOf a i c r) = r"
| "sib (RightOf l a i c) = l"

fun fsib :: "bool \<Rightarrow> frame \<Rightarrow> frame" where
  "fsib b (LeftOf a i c r) = LeftOf a i c (paint b r)"
| "fsib b (RightOf l a i c) = RightOf (paint b l) a i c"

lemma plug_append [simp]: "plug (fs @ gs) t = plug gs (plug fs t)"
  by (induction fs arbitrary: t) simp_all

subsection \<open>The red-black invariants\<close>

fun bh :: "shape \<Rightarrow> nat" where
  "bh Lf = 0"
| "bh (Nd l a i c r) = bh l + (if c then 0 else 1)"

fun invh :: "shape \<Rightarrow> bool" where
  "invh Lf = True"
| "invh (Nd l a i c r) = (invh l \<and> invh r \<and> bh l = bh r)"

fun invc :: "shape \<Rightarrow> bool" where
  "invc Lf = True"
| "invc (Nd l a i c r) = (invc l \<and> invc r \<and> (c \<longrightarrow> \<not> is_red l \<and> \<not> is_red r))"

definition rbt :: "shape \<Rightarrow> bool" where
  "rbt t \<longleftrightarrow> invh t \<and> invc t \<and> \<not> is_red t"

text \<open>The same of a path: of black height \<open>n\<close> is the subtree that it expects.\<close>

fun hpath :: "frame list \<Rightarrow> nat \<Rightarrow> bool" where
  "hpath [] n = True"
| "hpath (f # fs) n = (invh (sib f) \<and> bh (sib f) = n \<and> hpath fs (n + (if fred f then 0 else 1)))"

fun cpath :: "frame list \<Rightarrow> bool" where
  "cpath [] = True"
| "cpath (f # fs) = (invc (sib f) \<and> (fred f \<longrightarrow> \<not> is_red (sib f) \<and> fs \<noteq> [] \<and> \<not> fred (hd fs)) \<and> cpath fs)"

lemma mk_simps [simp]:
  "is_red (mk f t) = fred f"
  "invh (mk f t) \<longleftrightarrow> invh t \<and> invh (sib f) \<and> bh t = bh (sib f)"
  "invc (mk f t) \<longleftrightarrow> invc t \<and> invc (sib f) \<and> (fred f \<longrightarrow> \<not> is_red t \<and> \<not> is_red (sib f))"
  "mk f t \<noteq> Lf"
  by (cases f; auto)+

lemma bh_mk: "bh (sib f) = bh t \<Longrightarrow> bh (mk f t) = bh t + (if fred f then 0 else 1)"
  by (cases f) auto

lemma invh_plug: "invh (plug fs t) \<longleftrightarrow> invh t \<and> hpath fs (bh t)"
proof (induction fs arbitrary: t)
  case (Cons f fs)
  show ?case
  proof (cases "bh (sib f) = bh t")
    case True
    then show ?thesis using Cons.IH [of "mk f t"] bh_mk [OF True] by simp
  next
    case False
    then show ?thesis using Cons.IH [of "mk f t"] by auto
  qed
qed simp

lemma plug_red: "fs \<noteq> [] \<Longrightarrow> is_red (plug fs t) = fred (last fs)"
  by (induction fs arbitrary: t) auto

lemma cpath_last: "cpath fs \<Longrightarrow> fs \<noteq> [] \<Longrightarrow> \<not> fred (last fs)"
  by (induction fs) auto

lemma invc_plug: "invc t \<Longrightarrow> cpath fs \<Longrightarrow> (is_red t \<Longrightarrow> fs = [] \<or> \<not> fred (hd fs)) \<Longrightarrow> invc (plug fs t)"
proof (induction fs arbitrary: t)
  case (Cons f fs)
  from Cons.prems show ?case by (auto intro!: Cons.IH)
qed simp

lemma invc_plugD: "invc (plug fs t) \<Longrightarrow> \<not> is_red (plug fs t) \<Longrightarrow>
   invc t \<and> cpath fs \<and> (is_red t \<longrightarrow> fs \<noteq> [] \<and> \<not> fred (hd fs))"
proof (induction fs arbitrary: t)
  case (Cons f fs)
  from Cons.IH [of "mk f t"] Cons.prems show ?case by auto
qed simp

lemma paint_simps [simp]:
  "nodes (paint c t) = nodes t" "invh (paint c t) = invh t" "is_red (paint c t) \<longleftrightarrow> t \<noteq> Lf \<and> c" "paint c t = Lf \<longleftrightarrow> t = Lf"
  "paint c (paint c' t) = paint c t"
  by (cases t; simp)+

lemma paint_black: "\<not> is_red t \<Longrightarrow> paint False t = t"
  by (cases t) auto

lemma bh_paint: "bh (paint False t) = bh t + (if is_red t then 1 else 0)"
  by (cases t) auto

lemma invc_paint: "invc t \<Longrightarrow> invc (paint False t)"
  by (cases t) auto

subsection \<open>Insertion\<close>

text \<open>The place of a new node, and the repair above it.\<close>

fun ins_path :: "simtime \<Rightarrow> frame list \<Rightarrow> shape \<Rightarrow> frame list" where
  "ins_path k fs Lf = fs"
| "ins_path k fs (Nd l a i c r) = (if k < low i then ins_path k (LeftOf a i c r # fs) l else ins_path k (RightOf l a i c # fs) r)"

fun ins_rotate :: "frame \<Rightarrow> frame \<Rightarrow> shape \<Rightarrow> shape" where
  "ins_rotate (LeftOf p ip _ r) (LeftOf g ig _ u) t = Nd t p ip False (Nd r g ig True u)"
| "ins_rotate (RightOf l p ip _) (LeftOf g ig _ u) (Nd a x ix _ b) = Nd (Nd l p ip True a) x ix False (Nd b g ig True u)"
| "ins_rotate (RightOf l p ip _) (RightOf u g ig _) t = Nd (Nd u g ig True l) p ip False t"
| "ins_rotate (LeftOf p ip _ r) (RightOf u g ig _) (Nd a x ix _ b) = Nd (Nd u g ig True a) x ix False (Nd b p ip True r)"
| "ins_rotate f g Lf = Lf"

text \<open>One iteration, and whether the loop goes on.\<close>

definition ins_step :: "frame \<Rightarrow> frame \<Rightarrow> shape \<Rightarrow> shape \<times> bool" where
  "ins_step f g t =
     (if is_red (sib g) then (mk (frepaint True (fsib False g)) (mk (frepaint False f) t), True) else (ins_rotate f g t, False))"

fun ins_up :: "frame list \<Rightarrow> shape \<Rightarrow> shape" where
  "ins_up (f # g # fs) t =
     (if fred f then case ins_step f g t of (t', go_on) \<Rightarrow> if go_on then ins_up fs t' else plug fs t' else plug (f # g # fs) t)"
| "ins_up fs t = plug fs t"

definition ins_shape :: "nat \<Rightarrow> interval \<Rightarrow> shape \<Rightarrow> shape" where
  "ins_shape a i t = paint False (ins_up (ins_path (low i) [] t) (Nd Lf a i True Lf))"

fun node_of :: "frame \<Rightarrow> nat \<times> interval" where
  "node_of (LeftOf a i c r) = (a, i)"
| "node_of (RightOf l a i c) = (a, i)"

text \<open>The nodes to the left and to the right of a path's place.\<close>

fun before :: "frame list \<Rightarrow> (nat \<times> interval) list" where
  "before [] = []"
| "before (LeftOf a i c r # fs) = before fs"
| "before (RightOf l a i c # fs) = before fs @ nodes l @ [(a, i)]"

fun after :: "frame list \<Rightarrow> (nat \<times> interval) list" where
  "after [] = []"
| "after (LeftOf a i c r # fs) = (a, i) # nodes r @ after fs"
| "after (RightOf l a i c # fs) = after fs"

lemma nodes_plug: "nodes (plug fs t) = before fs @ nodes t @ after fs"
proof (induction fs arbitrary: t)
  case (Cons f fs)
  then show ?case by (cases f) simp_all
qed simp

lemma nodes_frames [simp]:
  "nodes (mk (frepaint c f) t) = nodes (mk f t)" "nodes (mk (fsib b f) t) = nodes (mk f t)"
  "fsib b (frepaint c f) = frepaint c (fsib b f)"
  by (cases f; simp)+

lemma ins_rotate_nodes: "t \<noteq> Lf \<Longrightarrow> nodes (ins_rotate f g t) = nodes (mk g (mk f t))"
  by (cases f; cases g; cases t) simp_all

lemma nodes_mk_cong: "nodes t = nodes t' \<Longrightarrow> nodes (mk f t) = nodes (mk f t')"
  by (cases f) simp_all

lemma ins_step_nodes: "t \<noteq> Lf \<Longrightarrow> nodes (fst (ins_step f g t)) = nodes (mk g (mk f t))"
  by (simp add: ins_step_def ins_rotate_nodes nodes_mk_cong [of "mk (frepaint False f) t" "mk f t"])

lemma ins_step_not_Lf: "t \<noteq> Lf \<Longrightarrow> fst (ins_step f g t) \<noteq> Lf"
  by (cases f; cases g; cases t) (simp_all add: ins_step_def)

lemma ins_up_nodes: "t \<noteq> Lf \<Longrightarrow> nodes (ins_up fs t) = nodes (plug fs t)"
proof (induction fs t rule: ins_up.induct)
  case (1 f g fs t)
  obtain t' b where s: "ins_step f g t = (t', b)" by force
  with ins_step_nodes [of t f g] ins_step_not_Lf [of t f g] 1 show ?case
    by (auto simp: nodes_plug)
qed simp_all

lemma ins_path_plug: "plug (ins_path k fs t) Lf = plug fs t"
  by (induction k fs t rule: ins_path.induct) simp_all

lemma ins_step_invh:
  assumes "invh t" and "t \<noteq> Lf" and "is_red t" and "hpath (f # g # fs) (bh t)" and "fred f" and "\<not> fred g"
  shows "invh (fst (ins_step f g t))" and "hpath fs (bh (fst (ins_step f g t)))"
  using assms by (cases f; cases g; cases t; auto simp: ins_step_def bh_paint)+

lemma ins_step_invc:
  assumes "invc t" and "is_red t" and "invc (sib f)" and "invc (sib g)" and "fred f" and "\<not> is_red (sib f)" and "\<not> fred g"
  shows "invc (fst (ins_step f g t))" and "is_red (fst (ins_step f g t)) = snd (ins_step f g t)"
  using assms by (cases f; cases g; cases t; auto simp: ins_step_def invc_paint)+

lemma ins_up_inv:
  assumes "invh t" and "hpath fs (bh t)" and "invc t" and "is_red t" and "cpath fs"
  shows "invh (ins_up fs t) \<and> invc (paint False (ins_up fs t))"
  using assms
proof (induction fs t rule: ins_up.induct)
  case (1 f g fs t)
  show ?case
  proof (cases "fred f")
    case False
    moreover have "invh (plug (f # g # fs) t)" using "1.prems"(1,2) by (simp only: invh_plug)
    ultimately show ?thesis using "1.prems" invc_plug [of t "f # g # fs"] by (simp add: invc_paint)
  next
    case True
    obtain t' b where s: "ins_step f g t = (t', b)" by force
    have t: "t \<noteq> Lf" using "1.prems"(4) by auto
    have c: "invc (sib f)" "invc (sib g)" "\<not> is_red (sib f)" "\<not> fred g" "cpath fs" using "1.prems"(5) True by auto
    note h = ins_step_invh [OF "1.prems"(1) t "1.prems"(4,2) True c(4), unfolded s fst_conv]
    note i = ins_step_invc [OF "1.prems"(3,4) c(1,2) True c(3,4), unfolded s fst_conv snd_conv]
    show ?thesis
    proof (cases b)
      case True
      with "1.IH" [OF \<open>fred f\<close> s [symmetric] True h i(1) _ c(5)] i(2) s \<open>fred f\<close> show ?thesis by simp
    next
      case False
      with s \<open>fred f\<close> h i invc_plug [OF i(1) c(5)] show ?thesis by (simp add: invh_plug invc_paint)
    qed
  qed
qed (auto simp: invc_paint bh_mk)

theorem ins_shape_rbt: "rbt t \<Longrightarrow> rbt (ins_shape a i t)"
proof -
  assume r: "rbt t"
  let ?fs = "ins_path (low i) [] t"
  have p: "plug ?fs Lf = t" using ins_path_plug [of "low i" "[]" t] by simp
  have "hpath ?fs 0" using r invh_plug [of ?fs Lf] by (simp add: p rbt_def)
  moreover have "cpath ?fs" using r invc_plugD [of ?fs Lf] by (simp add: p rbt_def)
  ultimately show ?thesis using ins_up_inv [of "Nd Lf a i True Lf" ?fs] by (simp add: ins_shape_def rbt_def)
qed

subsection \<open>Deletion\<close>

text \<open>
  The sibling \<open>w\<close> of a subtree \<open>x\<close> that lacks one black node, when the sibling is black; \<open>p\<close> is the parent. The
  second component says whether the loop goes on with the parent.
\<close>

fun del_left :: "shape \<Rightarrow> nat \<Rightarrow> interval \<Rightarrow> bool \<Rightarrow> shape \<Rightarrow> shape \<times> bool" where
  "del_left x p ip cp (Nd wl w iw cw wr) =
     (if \<not> is_red wr \<and> \<not> is_red wl then (Nd x p ip cp (Nd wl w iw True wr), True)
      else if \<not> is_red wr
      then (case wl of Nd a v iv cv b \<Rightarrow> (Nd (Nd x p ip False a) v iv cp (Nd b w iw False wr), False) | Lf \<Rightarrow> (x, False))
      else (Nd (Nd x p ip False wl) w iw cp (paint False wr), False))"
| "del_left x p ip cp Lf = (x, False)"

fun del_right :: "shape \<Rightarrow> nat \<Rightarrow> interval \<Rightarrow> bool \<Rightarrow> shape \<Rightarrow> shape \<times> bool" where
  "del_right (Nd wl w iw cw wr) p ip cp x =
     (if \<not> is_red wr \<and> \<not> is_red wl then (Nd (Nd wl w iw True wr) p ip cp x, True)
      else if \<not> is_red wl
      then (case wr of Nd a v iv cv b \<Rightarrow> (Nd (Nd wl w iw False a) v iv cp (Nd b p ip False x), False) | Lf \<Rightarrow> (x, False))
      else (Nd (paint False wl) w iw cp (Nd wr p ip False x), False))"
| "del_right Lf p ip cp x = (x, False)"

text \<open>One iteration: what it puts above the subtree, the subtree, and whether the loop goes on.\<close>

fun del_step :: "frame \<Rightarrow> shape \<Rightarrow> frame list \<times> shape \<times> bool" where
  "del_step (LeftOf p ip cp (Nd wl w iw True wr)) x = ([LeftOf w iw False wr], del_left x p ip True wl)"
| "del_step (RightOf (Nd wl w iw True wr) p ip cp) x = ([RightOf wl w iw False], del_right wr p ip True x)"
| "del_step (LeftOf p ip cp w) x = ([], del_left x p ip cp w)"
| "del_step (RightOf w p ip cp) x = ([], del_right w p ip cp x)"

fun del_up :: "frame list \<Rightarrow> shape \<Rightarrow> shape" where
  "del_up [] x = paint False x"
| "del_up (f # fs) x =
     (if is_red x then plug (f # fs) (paint False x)
      else case del_step f x of (gs, t, go_on) \<Rightarrow>
        if go_on \<and> gs = [] then del_up fs t else plug (gs @ fs) (if go_on then paint False t else t))"

text \<open>Taking out a node that lacks a child.\<close>

definition cut :: "frame list \<Rightarrow> bool \<Rightarrow> shape \<Rightarrow> shape" where
  "cut fs c x = (if c then plug fs x else del_up fs x)"

text \<open>The path to the leftmost node of a tree, and that node's colour and right child.\<close>

fun min_path :: "frame list \<Rightarrow> shape \<Rightarrow> frame list" where
  "min_path fs Lf = fs"
| "min_path fs (Nd l a i c r) = (if l = Lf then fs else min_path (LeftOf a i c r # fs) l)"

fun min_node :: "shape \<Rightarrow> (nat \<times> interval) \<times> bool \<times> shape" where
  "min_node Lf = undefined"
| "min_node (Nd l a i c r) = (if l = Lf then ((a, i), c, r) else min_node l)"

definition del_at :: "frame list \<Rightarrow> shape \<Rightarrow> shape" where
  "del_at fs t =
     (case t of
        Lf \<Rightarrow> plug fs Lf
      | Nd l z iz cz r \<Rightarrow>
          if l = Lf then cut fs cz r
          else if r = Lf then cut fs cz l
          else case min_node r of ((y, iy), cy, yr) \<Rightarrow> cut (min_path [] r @ RightOf l y iy cz # fs) cy yr)"

lemma del_left_red: "del_left x p ip True w = (t, True) \<Longrightarrow> is_red t"
  by (cases "(x, p, ip, True, w)" rule: del_left.cases) (auto split: if_splits shape.splits)

lemma del_right_red: "del_right w p ip True x = (t, True) \<Longrightarrow> is_red t"
  by (cases "(w, p, ip, True, x)" rule: del_right.cases) (auto split: if_splits shape.splits)

lemma bh_black: "0 < bh t \<or> is_red t \<Longrightarrow> t \<noteq> Lf"
  by (cases t) auto

lemma red_NdD: "is_red t \<Longrightarrow> \<exists>l a i r. t = Nd l a i True r"
  by (cases t) auto

lemma del_left_inv:
  assumes "invh x" and "invc x" and "\<not> is_red x" and "invh w" and "invc w" and "\<not> is_red w" and "bh w = Suc (bh x)"
    and "del_left x p ip cp w = (t, go_on)"
  shows "nodes t = nodes x @ (p, ip) # nodes w" and "invh t" and "is_red t = cp"
    and "bh t = bh x + (if cp then 0 else 1) + (if go_on then 0 else 1)" and "invc (if go_on then paint False t else t)"
proof -
  from assms(6,7) obtain wl v iw wr where w: "w = Nd wl v iw False wr" by (cases w) auto
  show "nodes t = nodes x @ (p, ip) # nodes w" and "invh t" and "is_red t = cp"
    and "bh t = bh x + (if cp then 0 else 1) + (if go_on then 0 else 1)" and "invc (if go_on then paint False t else t)"
    using assms by (auto simp: w bh_paint invc_paint split: if_splits shape.splits dest!: red_NdD)
qed

lemma del_right_inv:
  assumes "invh x" and "invc x" and "\<not> is_red x" and "invh w" and "invc w" and "\<not> is_red w" and "bh w = Suc (bh x)"
    and "del_right w p ip cp x = (t, go_on)"
  shows "nodes t = nodes w @ (p, ip) # nodes x" and "invh t" and "is_red t = cp"
    and "bh t = bh x + (if cp then 0 else 1) + (if go_on then 0 else 1)" and "invc (if go_on then paint False t else t)"
proof -
  from assms(6,7) obtain wl v iw wr where w: "w = Nd wl v iw False wr" by (cases w) auto
  show "nodes t = nodes w @ (p, ip) # nodes x" and "invh t" and "is_red t = cp"
    and "bh t = bh x + (if cp then 0 else 1) + (if go_on then 0 else 1)" and "invc (if go_on then paint False t else t)"
    using assms by (auto simp: w bh_paint invc_paint split: if_splits shape.splits dest!: red_NdD)
qed

text \<open>What one iteration keeps: the nodes, the heights but for the black node that is missing, the colours.\<close>

lemma del_step_cases:
  obtains (left) p ip cp w where "f = LeftOf p ip cp w" and "\<not> is_red w" and "del_step f x = ([], del_left x p ip cp w)"
  | (left_red) p ip cp wl w iw wr where "f = LeftOf p ip cp (Nd wl w iw True wr)"
      and "del_step f x = ([LeftOf w iw False wr], del_left x p ip True wl)"
  | (right) p ip cp w where "f = RightOf w p ip cp" and "\<not> is_red w" and "del_step f x = ([], del_right w p ip cp x)"
  | (right_red) p ip cp wl w iw wr where "f = RightOf (Nd wl w iw True wr) p ip cp"
      and "del_step f x = ([RightOf wl w iw False], del_right wr p ip True x)"
  by (cases "(f, x)" rule: del_step.cases) auto

definition step_kept :: "frame list \<Rightarrow> shape \<Rightarrow> frame list \<Rightarrow> shape \<Rightarrow> bool \<Rightarrow> bool" where
  "step_kept fs x gs t go_on \<longleftrightarrow> before gs @ nodes t @ after gs = before fs @ nodes x @ after fs \<and> invh t
     \<and> hpath gs (bh t + (if go_on then 1 else 0)) \<and> cpath gs \<and> invc (if go_on then paint False t else t)
     \<and> (is_red t \<longrightarrow> gs \<noteq> [] \<and> \<not> fred (hd gs))"

lemma plug_black: "cpath fs \<Longrightarrow> fs \<noteq> [] \<Longrightarrow> \<not> is_red (plug fs t)"
  using cpath_last by (simp add: plug_red)

lemma del_step_red: "del_step f x = (gs, t, go_on) \<Longrightarrow> gs \<noteq> [] \<Longrightarrow> go_on \<Longrightarrow> is_red t"
  by (cases rule: del_step_cases [of f x]) (auto dest: del_left_red del_right_red)

lemma del_step_kept:
  assumes "invh x" and "invc x" and "\<not> is_red x" and "hpath (f # fs) (Suc (bh x))" and "cpath (f # fs)"
    and "del_step f x = (gs, t, go_on)"
  shows "step_kept (f # fs) x (gs @ fs) t go_on"
proof (cases rule: del_step_cases [of f x])
  case (left p ip cp w)
  with assms(6) have t: "gs = []" "del_left x p ip cp w = (t, go_on)" by simp_all
  have w: "invh w" "invc w" "bh w = Suc (bh x)" using assms(4,5) left(1) by simp_all
  note k = del_left_inv [OF assms(1-3) w(1,2) left(2) w(3) t(2)]
  show ?thesis using assms(4,5) k unfolding step_kept_def t(1) left(1) by (simp add: numeral_eq_Suc split: if_splits)
next
  case (left_red p ip cp wl w iw wr)
  with assms(6) have t: "gs = [LeftOf w iw False wr]" "del_left x p ip True wl = (t, go_on)" by simp_all
  have w: "invh wl" "invc wl" "\<not> is_red wl" "bh wl = Suc (bh x)" using assms(4,5) left_red(1) by simp_all
  note k = del_left_inv [OF assms(1-3) w t(2)]
  show ?thesis using assms(4,5) k unfolding step_kept_def t(1) left_red(1) by (simp split: if_splits)
next
  case (right p ip cp w)
  with assms(6) have t: "gs = []" "del_right w p ip cp x = (t, go_on)" by simp_all
  have w: "invh w" "invc w" "bh w = Suc (bh x)" using assms(4,5) right(1) by simp_all
  note k = del_right_inv [OF assms(1-3) w(1,2) right(2) w(3) t(2)]
  show ?thesis using assms(4,5) k unfolding step_kept_def t(1) right(1) by (simp split: if_splits)
next
  case (right_red p ip cp wl w iw wr)
  with assms(6) have t: "gs = [RightOf wl w iw False]" "del_right wr p ip True x = (t, go_on)" by simp_all
  have w: "invh wr" "invc wr" "\<not> is_red wr" "bh wr = Suc (bh x)" using assms(4,5) right_red(1) by simp_all
  note k = del_right_inv [OF assms(1-3) w t(2)]
  show ?thesis using assms(4,5) k unfolding step_kept_def t(1) right_red(1) by (simp split: if_splits)
qed

lemma del_up_inv:
  assumes "invh x" and "invc (paint False x)" and "hpath fs (Suc (bh x))" and "cpath fs"
  shows "rbt (del_up fs x) \<and> nodes (del_up fs x) = nodes (plug fs x)"
  using assms
proof (induction fs x rule: del_up.induct)
  case (1 x)
  then show ?case by (simp add: rbt_def)
next
  case (2 f fs x)
  show ?case
  proof (cases "is_red x")
    case True
    have r: "\<not> is_red (plug (f # fs) (paint False x))" by (rule plug_black [OF "2.prems"(4)]) simp
    have "invh (plug (f # fs) (paint False x))" unfolding invh_plug using "2.prems"(1,3) True by (simp add: bh_paint)
    moreover have "invc (plug (f # fs) (paint False x))" by (rule invc_plug [OF "2.prems"(2,4)]) simp
    moreover have "nodes (plug (f # fs) (paint False x)) = nodes (plug (f # fs) x)" by (simp only: nodes_plug paint_simps)
    ultimately show ?thesis using True r by (simp add: rbt_def)
  next
    case False
    obtain gs t go_on where s: "del_step f x = (gs, t, go_on)" by (rule prod_cases3)
    have "invc x" using "2.prems"(2) False by (simp add: paint_black)
    note k = del_step_kept [OF "2.prems"(1) this False "2.prems"(3,4) s, unfolded step_kept_def]
    have e: "del_up (f # fs) x = (if go_on \<and> gs = [] then del_up fs t else plug (gs @ fs) (if go_on then paint False t else t))"
      using False s by simp
    have n: "nodes (plug (gs @ fs) t) = nodes (plug (f # fs) x)" unfolding nodes_plug using k by blast
    show ?thesis
    proof (cases "go_on \<and> gs = []")
      case True
      with k have "rbt (del_up fs t) \<and> nodes (del_up fs t) = nodes (plug fs t)"
        by (intro "2.IH" [OF False s [symmetric] refl True]) simp_all
      with e n True show ?thesis by simp
    next
      case no: False
      let ?t = "if go_on then paint False t else t"
      have "\<not> is_red (plug (gs @ fs) ?t)"
      proof (cases "gs @ fs = []")
        case True
        with k show ?thesis by auto
      next
        case False
        with k show ?thesis by (intro plug_black) blast+
      qed
      moreover have "invc (plug (gs @ fs) ?t)" using k by (intro invc_plug) (auto split: if_splits)
      moreover have "go_on \<Longrightarrow> is_red t" using no del_step_red [OF s] by blast
      then have "invh (plug (gs @ fs) ?t)" unfolding invh_plug using k by (auto simp: bh_paint)
      moreover have "nodes (plug (gs @ fs) ?t) = nodes (plug (f # fs) x)" unfolding n [symmetric] by (simp add: nodes_plug)
      ultimately show ?thesis using e no by (simp add: rbt_def)
    qed
  qed
qed

lemma cut_inv:
  assumes "rbt (plug fs (Nd l a i c r))" and "x = (if l = Lf then r else l)" and "l = Lf \<or> r = Lf"
  shows "rbt (cut fs c x) \<and> nodes (cut fs c x) = before fs @ nodes l @ nodes r @ after fs"
proof -
  let ?t = "Nd l a i c r"
  from assms(1) have h: "invh ?t" "hpath fs (bh ?t)" unfolding rbt_def invh_plug by blast+
  from assms(1) invc_plugD [of fs ?t] have k: "invc ?t" "cpath fs" "c \<longrightarrow> fs \<noteq> [] \<and> \<not> fred (hd fs)"
    by (simp_all add: rbt_def)
  have x: "invh x" "invc x" "bh x = bh l" "c \<longrightarrow> \<not> is_red x" "nodes x = nodes l @ nodes r"
    using h(1) k(1) assms(2,3) by (auto split: if_splits)
  show ?thesis
  proof (cases c)
    case True
    have "invc (plug fs x)" using x k True by (intro invc_plug) auto
    moreover have "\<not> is_red (plug fs x)" using k True by (intro plug_black) auto
    ultimately show ?thesis using True h x by (simp add: cut_def rbt_def invh_plug nodes_plug)
  next
    case False
    with del_up_inv [OF x(1) invc_paint [OF x(2)] _ k(2)] h x show ?thesis by (simp add: cut_def nodes_plug)
  qed
qed

lemma min_path_node: "t \<noteq> Lf \<Longrightarrow> min_node t = ((y, iy), cy, yr) \<Longrightarrow> plug (min_path fs t) (Nd Lf y iy cy yr) = plug fs t"
proof (induction t arbitrary: fs)
  case (Nd l a i c r)
  show ?case
  proof (cases "l = Lf")
    case False
    with Nd.IH(1) [of "LeftOf a i c r # fs"] Nd.prems show ?thesis by simp
  qed (use Nd.prems in simp)
qed simp

text \<open>Replacing the node above the path changes neither heights nor colours.\<close>

lemma bh_plug_cong: "bh t = bh t' \<Longrightarrow> invh t = invh t' \<Longrightarrow> invc t = invc t' \<Longrightarrow> is_red t = is_red t' \<Longrightarrow>
   rbt (plug fs t) = rbt (plug fs t')"
proof (induction fs arbitrary: t t')
  case (Cons f fs)
  have "bh (mk f t) = bh (mk f t')" using Cons.prems by (cases f) auto
  with Cons.IH [of "mk f t" "mk f t'"] Cons.prems show ?case by simp
qed (simp add: rbt_def)

theorem del_at_rbt:
  assumes "rbt (plug fs (Nd l z iz cz r))"
  shows "rbt (del_at fs (Nd l z iz cz r)) \<and> nodes (del_at fs (Nd l z iz cz r)) = before fs @ nodes l @ nodes r @ after fs"
proof (cases "l = Lf \<or> r = Lf")
  case True
  from cut_inv [OF assms refl True] True show ?thesis by (auto simp: del_at_def)
next
  case False
  obtain y iy cy yr where y: "min_node r = ((y, iy), cy, yr)" by (metis prod.exhaust)
  let ?gs = "min_path [] r @ RightOf l y iy cz # fs"
  have p: "plug (min_path [] r) (Nd Lf y iy cy yr) = r" using min_path_node [OF _ y, of "[]"] False by simp
  have "rbt (plug fs (Nd l y iy cz r))"
    using assms bh_plug_cong [of "Nd l z iz cz r" "Nd l y iy cz r" fs] by simp
  then have "rbt (plug ?gs (Nd Lf y iy cy yr))" by (simp add: p)
  from cut_inv [OF this, of yr] have c: "rbt (cut ?gs cy yr)" "nodes (cut ?gs cy yr) = before ?gs @ nodes yr @ after ?gs" by simp_all
  have "before (as @ bs) = before bs @ before as" "after (as @ bs) = after as @ after bs" for as bs
  proof (induction as)
    case (Cons f as)
    case 1 show ?case using Cons.IH(1) by (cases f) simp_all
    case 2 show ?case using Cons.IH(2) by (cases f) simp_all
  qed simp_all
  moreover have "nodes r = before (min_path [] r) @ (y, iy) # nodes yr @ after (min_path [] r)"
    using arg_cong [OF p, of nodes] by (simp add: nodes_plug)
  moreover have "before (min_path gs t) = before gs" for gs t
    by (induction gs t rule: min_path.induct) simp_all
  ultimately have "nodes (cut ?gs cy yr) = before fs @ nodes l @ nodes r @ after fs"
    using c(2) by (metis (no_types, lifting) append.assoc append_Cons append_Nil before.simps after.simps append_Nil2)
  then show ?thesis using False c(1) y by (simp add: del_at_def)
qed

subsection \<open>The order and the largest upper ends\<close>

definition by_low :: "(nat \<times> interval) list \<Rightarrow> bool" where
  "by_low xs \<longleftrightarrow> sorted (map (\<lambda>(a, i). low i) xs)"

lemma ins_path_sides:
  assumes "by_low (nodes (plug fs t))" and "\<forall>x\<in>set (before fs). low (snd x) \<le> k" and "\<forall>x\<in>set (after fs). k < low (snd x)"
  shows "(\<forall>x\<in>set (before (ins_path k fs t)). low (snd x) \<le> k) \<and> (\<forall>x\<in>set (after (ins_path k fs t)). k < low (snd x))"
  using assms
proof (induction k fs t rule: ins_path.induct)
  case (2 k fs l a i c r)
  have o: "\<forall>x\<in>set (nodes l). low (snd x) \<le> low i" "\<forall>x\<in>set (nodes r). low i \<le> low (snd x)"
    using "2.prems"(1) by (auto simp: by_low_def nodes_plug sorted_append split: prod.splits)
  show ?case
  proof (cases "k < low i")
    case True
    have "\<forall>x\<in>set (after (LeftOf a i c r # fs)). k < low (snd x)"
    proof -
      have "\<forall>x\<in>set (nodes r). k < low (snd x)" using True o(2) by (meson less_le_trans)
      with True "2.prems"(3) show ?thesis by auto
    qed
    note after = this
    have "by_low (nodes (plug (LeftOf a i c r # fs) l))" using "2.prems"(1) by (simp only: plug.simps mk.simps)
    moreover have "\<forall>x\<in>set (before (LeftOf a i c r # fs)). low (snd x) \<le> k" using "2.prems"(2) by (simp only: before.simps)
    ultimately show ?thesis unfolding ins_path.simps if_P [OF True] by (rule 2(1) [OF True _ _ after])
  next
    case False
    have "\<forall>x\<in>set (before (RightOf l a i c # fs)). low (snd x) \<le> k"
    proof -
      from False have "low i \<le> k" by simp
      with o(1) have "\<forall>x\<in>set (nodes l). low (snd x) \<le> k" by (meson order_trans)
      with \<open>low i \<le> k\<close> "2.prems"(2) show ?thesis by auto
    qed
    note before = this
    have "by_low (nodes (plug (RightOf l a i c # fs) r))" using "2.prems"(1) by (simp only: plug.simps mk.simps)
    moreover have "\<forall>x\<in>set (after (RightOf l a i c # fs)). k < low (snd x)" using "2.prems"(3) by (simp only: after.simps)
    ultimately show ?thesis unfolding ins_path.simps if_not_P [OF False] by (rule 2(2) [OF False _ before])
  qed
qed simp

theorem ins_shape_nodes:
  assumes "by_low (nodes t)"
  shows "by_low (nodes (ins_shape a i t))" and "\<exists>xs ys. nodes t = xs @ ys \<and> nodes (ins_shape a i t) = xs @ (a, i) # ys"
proof -
  let ?fs = "ins_path (low i) [] t"
  have t: "nodes t = before ?fs @ after ?fs" using ins_path_plug [of "low i" "[]" t] nodes_plug [of ?fs Lf] by simp
  have n: "nodes (ins_shape a i t) = before ?fs @ (a, i) # after ?fs"
    by (simp add: ins_shape_def ins_up_nodes nodes_plug)
  then show "\<exists>xs ys. nodes t = xs @ ys \<and> nodes (ins_shape a i t) = xs @ (a, i) # ys" using t by blast
  from ins_path_sides [of "[]" t "low i"] assms
  have "\<forall>x\<in>set (before ?fs). low (snd x) \<le> low i" "\<forall>x\<in>set (after ?fs). low i < low (snd x)" by simp_all
  with assms show "by_low (nodes (ins_shape a i t))"
    unfolding n t by (fastforce simp: by_low_def sorted_append split: prod.splits)
qed

lemma by_low_remove: "by_low (xs @ x # ys) \<Longrightarrow> by_low (xs @ ys)"
  by (auto simp: by_low_def sorted_append)

fun mh :: "simtime \<Rightarrow> shape \<Rightarrow> simtime" where
  "mh B Lf = B"
| "mh B (Nd l a i c r) = max (high i) (max (mh B l) (mh B r))"

lemma mh_less: "mh B t < x \<longleftrightarrow> B < x \<and> (\<forall>n\<in>set (nodes t). high (snd n) < x)"
  by (induction t) auto

lemma mh_nodes: "set (nodes t) = set (nodes t') \<Longrightarrow> mh B t = mh B t'"
proof -
  assume s: "set (nodes t) = set (nodes t')"
  have "mh B t < x \<longleftrightarrow> mh B t' < x" for x by (simp add: mh_less s)
  then show ?thesis by (metis less_irrefl linorder_cases)
qed

subsection \<open>The query\<close>

text \<open>What the query finds in a tree: the right subtree of a node is left out if its left one could have, but did not.\<close>

fun visit :: "simtime \<Rightarrow> simtime \<Rightarrow> simtime \<Rightarrow> shape \<Rightarrow> interval list" where
  "visit B lo hi Lf = []"
| "visit B lo hi (Nd l a i c r) =
     (if interval_overlap lo hi (low i) (high i) then [i] else [])
     @ (if lo \<le> mh B l then (let found = visit B lo hi l in found @ (if found \<noteq> [] then visit B lo hi r else [])) else visit B lo hi r)"

fun preorder :: "shape \<Rightarrow> interval list" where
  "preorder Lf = []"
| "preorder (Nd l a i c r) = i # preorder l @ preorder r"

lemma set_preorder: "set (preorder t) = snd ` set (nodes t)"
  by (induction t) auto

text \<open>Of intervals that end no earlier than they begin, the test finds the overlapping ones.\<close>

lemma interval_overlap_iff: "lo \<le> hi \<Longrightarrow> a \<le> b \<Longrightarrow> interval_overlap lo hi a b \<longleftrightarrow> lo \<le> b \<and> a \<le> hi"
  by (auto simp: interval_overlap_def)

theorem visit_exact:
  assumes "by_low (nodes t)" and "\<forall>n\<in>set (nodes t). low (snd n) \<le> high (snd n)" and "B < lo" and "lo \<le> hi"
  shows "visit B lo hi t = filter (\<lambda>i. interval_overlap lo hi (low i) (high i)) (preorder t)"
  using assms(1,2)
proof (induction t)
  case (Nd l a i c r)
  let ?ov = "\<lambda>i. interval_overlap lo hi (low i) (high i)"
  have o: "by_low (nodes l)" "by_low (nodes r)" "\<forall>x\<in>set (nodes l). low (snd x) \<le> low i" "\<forall>x\<in>set (nodes r). low i \<le> low (snd x)"
    using Nd.prems(1) by (auto simp: by_low_def sorted_append split: prod.splits)
  have ov: "?ov j \<longleftrightarrow> lo \<le> high j \<and> low j \<le> hi" if "j \<in> insert i (set (preorder l) \<union> set (preorder r))" for j
    using that Nd.prems(2) assms(4) by (intro interval_overlap_iff) (auto simp: set_preorder)
  note IH = Nd.IH(1) [OF o(1)] Nd.IH(2) [OF o(2)]
  have IHl: "visit B lo hi l = filter ?ov (preorder l)" and IHr: "visit B lo hi r = filter ?ov (preorder r)"
    using IH Nd.prems(2) by simp_all
  show ?case
  proof (cases "lo \<le> mh B l")
    case False
    then have "\<forall>n\<in>set (nodes l). high (snd n) < lo" using mh_less [of B l lo] by simp
    then have "filter ?ov (preorder l) = []"
      using ov by (fastforce simp: filter_empty_conv set_preorder)
    with False IHr show ?thesis by simp
  next
    case True
    show ?thesis
    proof (cases "visit B lo hi l = []")
      case False
      with True IHl IHr show ?thesis by simp
    next
      case empty: True
      from True assms(3) have "\<not> (\<forall>n\<in>set (nodes l). high (snd n) < lo)" using mh_less [of B l lo] by auto
      then obtain n where n: "n \<in> set (nodes l)" "lo \<le> high (snd n)" by force
      then have "snd n \<in> set (preorder l)" by (auto simp: set_preorder)
      with empty IHl ov n(2) have "hi < low (snd n)" by (fastforce simp: filter_empty_conv)
      with o n(1) have "\<forall>m\<in>set (nodes r). hi < low (snd m)" by (meson less_le_trans)
      then have "filter ?ov (preorder r) = []"
        using ov by (fastforce simp: filter_empty_conv set_preorder)
      with True empty IHl show ?thesis by simp
    qed
  qed
qed simp

end
