(* ===== verification/IntervalHeap.thy ===== *)
theory IntervalHeap
  imports IntervalShape
begin

text \<open>
  The heap of theory \<open>IntervalTree\<close> implements the trees of theory \<open>IntervalShape\<close>: every loop returns, and every
  operation on a heap that holds a tree leaves a heap that holds the tree the operation on shapes gives. A heap is seen from a
  node as the subtree below it and the path above it.
\<close>

subsection \<open>The tree in the heap\<close>

fun ptr :: "nat \<Rightarrow> shape \<Rightarrow> nat" where
  "ptr nil Lf = nil"
| "ptr nil (Nd l a i c r) = a"

fun aset :: "shape \<Rightarrow> nat set" where
  "aset Lf = {}"
| "aset (Nd l a i c r) = insert a (aset l \<union> aset r)"

fun adist :: "shape \<Rightarrow> bool" where
  "adist Lf = True"
| "adist (Nd l a i c r) = (adist l \<and> adist r \<and> a \<notin> aset l \<and> a \<notin> aset r \<and> aset l \<inter> aset r = {})"

text \<open>The fields of a node but the largest upper end.\<close>

definition is_cell :: "itnode \<Rightarrow> interval \<Rightarrow> bool \<Rightarrow> nat \<Rightarrow> nat \<Rightarrow> nat \<Rightarrow> bool" where
  "is_cell n i c l r p \<longleftrightarrow> stored_interval n = Some i \<and> it_key n = low i \<and> it_high n = high i \<and> red n = c
     \<and> it_left n = l \<and> it_right n = r \<and> it_parent n = p"

fun repr :: "nat \<Rightarrow> simtime \<Rightarrow> it_heap \<Rightarrow> nat \<Rightarrow> shape \<Rightarrow> bool" where
  "repr nil B h p Lf = True"
| "repr nil B h p (Nd l a i c r) =
     (is_cell (h a) i c (ptr nil l) (ptr nil r) p \<and> max_high (h a) = mh B (Nd l a i c r) \<and> repr nil B h a l \<and> repr nil B h a r)"

text \<open>The path from a node at \<open>q\<close> up to \<open>e\<close>, whose largest upper ends may be out of date, and what they should be.\<close>

fun up :: "nat \<Rightarrow> frame list \<Rightarrow> nat" where
  "up e [] = e"
| "up e (LeftOf a i c r # fs) = a"
| "up e (RightOf l a i c # fs) = a"

fun tip :: "nat \<Rightarrow> frame list \<Rightarrow> nat" where
  "tip q [] = q"
| "tip q (LeftOf a i c r # fs) = tip a fs"
| "tip q (RightOf l a i c # fs) = tip a fs"

fun paddrs :: "frame list \<Rightarrow> nat set" where
  "paddrs [] = {}"
| "paddrs (LeftOf a i c r # fs) = insert a (aset r \<union> paddrs fs)"
| "paddrs (RightOf l a i c # fs) = insert a (aset l \<union> paddrs fs)"

fun pdist :: "frame list \<Rightarrow> bool" where
  "pdist [] = True"
| "pdist (LeftOf a i c r # fs) = (adist r \<and> a \<notin> aset r \<and> a \<notin> paddrs fs \<and> aset r \<inter> paddrs fs = {} \<and> pdist fs)"
| "pdist (RightOf l a i c # fs) = (adist l \<and> a \<notin> aset l \<and> a \<notin> paddrs fs \<and> aset l \<inter> paddrs fs = {} \<and> pdist fs)"

fun path :: "nat \<Rightarrow> simtime \<Rightarrow> it_heap \<Rightarrow> nat \<Rightarrow> nat \<Rightarrow> frame list \<Rightarrow> bool" where
  "path nil B h e q [] = True"
| "path nil B h e q (LeftOf a i c r # fs) = (is_cell (h a) i c q (ptr nil r) (up e fs) \<and> repr nil B h a r \<and> path nil B h e a fs)"
| "path nil B h e q (RightOf l a i c # fs) = (is_cell (h a) i c (ptr nil l) q (up e fs) \<and> repr nil B h a l \<and> path nil B h e a fs)"

fun maxes :: "simtime \<Rightarrow> it_heap \<Rightarrow> simtime \<Rightarrow> frame list \<Rightarrow> bool" where
  "maxes B h m [] = True"
| "maxes B h m (LeftOf a i c r # fs) =
     (max_high (h a) = max (high i) (max m (mh B r)) \<and> maxes B h (max (high i) (max m (mh B r))) fs)"
| "maxes B h m (RightOf l a i c # fs) =
     (max_high (h a) = max (high i) (max (mh B l) m) \<and> maxes B h (max (high i) (max (mh B l) m)) fs)"

lemma repr_upd [simp]: "a \<notin> aset t \<Longrightarrow> repr nil B (h(a := v)) p t = repr nil B h p t"
  by (induction t arbitrary: p) auto

lemma path_upd [simp]: "a \<notin> paddrs fs \<Longrightarrow> path nil B (h(a := v)) e q fs = path nil B h e q fs"
  by (induction fs arbitrary: q rule: paddrs.induct) auto

lemma maxes_upd [simp]: "a \<notin> paddrs fs \<Longrightarrow> maxes B (h(a := v)) m fs = maxes B h m fs"
  by (induction fs arbitrary: m rule: paddrs.induct) auto

lemma ptr_aset: "nil \<notin> aset t \<Longrightarrow> ptr nil t \<noteq> nil \<longleftrightarrow> t \<noteq> Lf" "t \<noteq> Lf \<Longrightarrow> ptr nil t \<in> aset t"
  by (cases t; auto)+

lemma repr_plug: "repr nil B h e (plug fs t)
    \<longleftrightarrow> repr nil B h (up e fs) t \<and> path nil B h e (ptr nil t) fs \<and> maxes B h (mh B t) fs"
  by (induction fs arbitrary: t rule: paddrs.induct) auto

lemma ptr_plug: "ptr nil (plug fs t) = tip (ptr nil t) fs"
  by (induction fs arbitrary: t rule: paddrs.induct) auto

lemma aset_plug: "aset (plug fs t) = aset t \<union> paddrs fs"
  by (induction fs arbitrary: t rule: paddrs.induct) auto

lemma adist_plug: "adist (plug fs t) \<longleftrightarrow> adist t \<and> pdist fs \<and> aset t \<inter> paddrs fs = {}"
  by (induction fs arbitrary: t rule: paddrs.induct) (auto simp: aset_plug)

text \<open>The whole tree: the two sentinels and the nodes.\<close>

definition holds :: "nat \<Rightarrow> nat \<Rightarrow> simtime \<Rightarrow> it_heap \<Rightarrow> shape \<Rightarrow> bool" where
  "holds nil rt B h t \<longleftrightarrow> repr nil B h rt t \<and> adist t \<and> nil \<notin> aset t \<and> rt \<notin> aset t \<and> nil \<noteq> rt
     \<and> \<not> red (h nil) \<and> max_high (h nil) = B \<and> \<not> red (h rt) \<and> it_left (h rt) = ptr nil t \<and> it_right (h rt) = nil
     \<and> stored_interval (h rt) = None"

lemma holds_plug: "holds nil rt B h (plug fs t) \<longleftrightarrow> repr nil B h (up rt fs) t \<and> path nil B h rt (ptr nil t) fs \<and> maxes B h (mh B t) fs
    \<and> adist t \<and> pdist fs \<and> aset t \<inter> paddrs fs = {} \<and> nil \<notin> aset t \<and> nil \<notin> paddrs fs \<and> rt \<notin> aset t \<and> rt \<notin> paddrs fs \<and> nil \<noteq> rt
    \<and> \<not> red (h nil) \<and> max_high (h nil) = B \<and> \<not> red (h rt) \<and> it_left (h rt) = tip (ptr nil t) fs \<and> it_right (h rt) = nil
    \<and> stored_interval (h rt) = None"
  unfolding holds_def repr_plug adist_plug aset_plug ptr_plug by auto

subsection \<open>Rotations\<close>

lemma reparent:
  assumes "repr nil B h p t" and "adist t" and "nil \<notin> aset t"
  shows "repr nil B (if ptr nil t \<noteq> nil then set_parent (ptr nil t) p' h else h) p' t"
  using assms by (cases t) (auto simp: is_cell_def)

text \<open>The child pointer at the end of a path, and its owner.\<close>

fun link :: "nat \<Rightarrow> frame list \<Rightarrow> nat \<Rightarrow> it_heap \<Rightarrow> it_heap" where
  "link rt [] q h = set_left rt q h"
| "link rt (LeftOf a i c r # fs) q h = set_left a q h"
| "link rt (RightOf l a i c # fs) q h = set_right a q h"

lemma up_in: "up e fs = e \<or> up e fs \<in> paddrs fs"
  by (cases fs rule: paddrs.cases) auto

lemma link_cong: "h b = h' b \<Longrightarrow> link rt fs q h b = link rt fs q h' b"
  by (cases fs rule: paddrs.cases) auto

lemma link_other: "b \<noteq> up rt fs \<Longrightarrow> link rt fs q h b = h b"
  by (cases fs rule: paddrs.cases) auto

lemma link_fields [simp]:
  "max_high (link rt fs q h b) = max_high (h b)" "red (link rt fs q h b) = red (h b)" "it_parent (link rt fs q h b) = it_parent (h b)"
  "stored_interval (link rt fs q h b) = stored_interval (h b)" "it_key (link rt fs q h b) = it_key (h b)"
  "it_high (link rt fs q h b) = it_high (h b)"
  by (cases fs rule: paddrs.cases; auto)+

lemma link_path: "path nil B h rt q fs \<Longrightarrow> pdist fs \<Longrightarrow> rt \<notin> paddrs fs \<Longrightarrow> path nil B (link rt fs q' h) rt q' fs"
  by (cases fs rule: paddrs.cases) (auto simp: is_cell_def)

lemma link_maxes: "maxes B (link rt fs q' h) m fs = maxes B h m fs"
proof -
  have "maxes B h' m fs = maxes B h m fs" if "\<And>b. max_high (h' b) = max_high (h b)" for h'
    using that by (induction fs arbitrary: m rule: paddrs.induct) auto
  from this [of "link rt fs q' h"] show ?thesis by simp
qed

lemma link_root: "rt \<notin> paddrs fs \<Longrightarrow> it_left (h rt) = tip q fs \<Longrightarrow>
    it_left (link rt fs q' h rt) = tip q' fs \<and> it_right (link rt fs q' h rt) = it_right (h rt)"
  by (cases fs rule: paddrs.cases) auto

lemma relink_link:
  assumes "path nil B h rt q fs" and "it_left (h rt) = tip q fs" and "q \<noteq> nil" and "q \<notin> paddrs fs"
    and "it_parent (k q) = up rt fs" and "k (up rt fs) = h (up rt fs)"
  shows "relink q q' k = link rt fs q' k"
proof (cases fs rule: paddrs.cases)
  case (3 l a i c gs)
  have "ptr nil l \<noteq> q" using assms(3,4) 3 by (cases l) auto
  with assms 3 show ?thesis by (simp add: relink_def is_cell_def)
qed (use assms in \<open>auto simp: relink_def is_cell_def\<close>)

text \<open>A rotation, with its writes put together.\<close>

lemma rotate_writes:
  fixes h :: it_heap
  assumes "x \<noteq> y" and "L x = (h x)\<lparr>it_right := d\<rparr>" and "L y = (h y)\<lparr>it_parent := u\<rparr>"
    and "it_left (h x) = a" and "it_right (h y) = e" and "a \<noteq> x" and "a \<noteq> y" and "e \<noteq> x" and "e \<noteq> y" and "d \<noteq> x" and "d \<noteq> y"
    and "\<And>b. max_high (L b) = max_high (h b)"
  shows "(let m = set_parent x y (set_left y x L);
      m = set_max_high x (max (max_high (m (it_left (m x)))) (max (max_high (m (it_right (m x)))) (it_high (m x)))) m
    in set_max_high y (max (max_high (m x)) (max (max_high (m (it_right (m y)))) (it_high (m y)))) m)
   = L(x := (h x)\<lparr>it_right := d, it_parent := y, max_high := max (max_high (h a)) (max (max_high (h d)) (it_high (h x)))\<rparr>,
     y := (h y)\<lparr>it_left := x, it_parent := u,
       max_high := max (max (max_high (h a)) (max (max_high (h d)) (it_high (h x)))) (max (max_high (h e)) (it_high (h y)))\<rparr>)"
  using assms by (simp add: Let_def fun_eq_iff)

lemma leftRotate_writes:
  assumes "it_right (h x) = y" and "it_left (h y) = d" and "it_parent (h x) = u" and "it_left (h x) = a" and "it_right (h y) = e"
    and "x \<noteq> y" and "x \<noteq> d" and "x \<noteq> u" and "y \<noteq> d" and "y \<noteq> u" and "d \<noteq> u" and "a \<noteq> x" and "a \<noteq> y" and "e \<noteq> x" and "e \<noteq> y"
    and relink: "\<And>k. it_parent (k x) = u \<Longrightarrow> k u = h u \<Longrightarrow> relink x y k = link rt fs y k" and "up rt fs = u"
  shows "leftRotate nil x h = (link rt fs y (if d \<noteq> nil then set_parent d x h else h))
    (x := (h x)\<lparr>it_right := d, it_parent := y, max_high := max (max_high (h a)) (max (max_high (h d)) (it_high (h x)))\<rparr>,
     y := (h y)\<lparr>it_left := x, it_parent := u,
       max_high := max (max (max_high (h a)) (max (max_high (h d)) (it_high (h x)))) (max (max_high (h e)) (it_high (h y)))\<rparr>)"
proof -
  let ?k = "if d \<noteq> nil then set_parent d x (set_right x d h) else set_right x d h"
  let ?L = "link rt fs y (set_parent y u ?k)"
  have k: "it_left (set_right x d h y) = d" "it_parent (?k x) = u" using assms(1-15) by auto
  have l: "relink x y (set_parent y u ?k) = ?L" using assms(1-15) by (intro relink) auto
  have "leftRotate nil x h = (let m = set_parent x y (set_left y x ?L);
      m = set_max_high x (max (max_high (m (it_left (m x)))) (max (max_high (m (it_right (m x)))) (it_high (m x)))) m
    in set_max_high y (max (max_high (m x)) (max (max_high (m (it_right (m y)))) (it_high (m y)))) m)"
    unfolding leftRotate_def using assms(1,2) k l by (simp only: Let_def)
  also have "\<dots> = ?L(x := (h x)\<lparr>it_right := d, it_parent := y, max_high := max (max_high (h a)) (max (max_high (h d)) (it_high (h x)))\<rparr>,
     y := (h y)\<lparr>it_left := x, it_parent := u,
       max_high := max (max (max_high (h a)) (max (max_high (h d)) (it_high (h x)))) (max (max_high (h e)) (it_high (h y)))\<rparr>)"
  proof (rule rotate_writes)
    show "?L x = (h x)\<lparr>it_right := d\<rparr>" "?L y = (h y)\<lparr>it_parent := u\<rparr>"
      using assms(1-15,17) by (simp_all add: link_other)
    show "max_high (?L b) = max_high (h b)" for b by simp
  qed (use assms in simp_all)
  also have "?L(x := v, y := w) = (link rt fs y (if d \<noteq> nil then set_parent d x h else h))(x := v, y := w)" for v w
  proof
    fix b
    show "(?L(x := v, y := w)) b = ((link rt fs y (if d \<noteq> nil then set_parent d x h else h))(x := v, y := w)) b"
    proof (cases "b = x \<or> b = y")
      case False
      then have "?L b = link rt fs y (if d \<noteq> nil then set_parent d x h else h) b" using assms(7) by (intro link_cong) simp
      with False show ?thesis by simp
    qed auto
  qed
  finally show ?thesis .
qed

text \<open>The mirror image.\<close>

lemma rotate_writes_right:
  fixes h :: it_heap
  assumes "x \<noteq> y" and "L x = (h x)\<lparr>it_left := d\<rparr>" and "L y = (h y)\<lparr>it_parent := u\<rparr>"
    and "it_right (h x) = a" and "it_left (h y) = e" and "a \<noteq> x" and "a \<noteq> y" and "e \<noteq> x" and "e \<noteq> y" and "d \<noteq> x" and "d \<noteq> y"
    and "\<And>b. max_high (L b) = max_high (h b)"
  shows "(let m = set_parent x y (set_right y x L);
      m = set_max_high x (max (max_high (m (it_left (m x)))) (max (max_high (m (it_right (m x)))) (it_high (m x)))) m
    in set_max_high y (max (max_high (m (it_left (m y)))) (max (max_high (m x)) (it_high (m y)))) m)
   = L(x := (h x)\<lparr>it_left := d, it_parent := y, max_high := max (max_high (h d)) (max (max_high (h a)) (it_high (h x)))\<rparr>,
     y := (h y)\<lparr>it_right := x, it_parent := u,
       max_high := max (max_high (h e)) (max (max (max_high (h d)) (max (max_high (h a)) (it_high (h x)))) (it_high (h y)))\<rparr>)"
  using assms by (simp add: Let_def fun_eq_iff)

lemma rightRotate_writes:
  assumes "it_left (h x) = y" and "it_right (h y) = d" and "it_parent (h x) = u" and "it_right (h x) = a" and "it_left (h y) = e"
    and "x \<noteq> y" and "x \<noteq> d" and "x \<noteq> u" and "y \<noteq> d" and "y \<noteq> u" and "d \<noteq> u" and "a \<noteq> x" and "a \<noteq> y" and "e \<noteq> x" and "e \<noteq> y"
    and relink: "\<And>k. it_parent (k x) = u \<Longrightarrow> k u = h u \<Longrightarrow> relink x y k = link rt fs y k" and "up rt fs = u"
  shows "rightRotate nil x h = (link rt fs y (if d \<noteq> nil then set_parent d x h else h))
    (x := (h x)\<lparr>it_left := d, it_parent := y, max_high := max (max_high (h d)) (max (max_high (h a)) (it_high (h x)))\<rparr>,
     y := (h y)\<lparr>it_right := x, it_parent := u,
       max_high := max (max_high (h e)) (max (max (max_high (h d)) (max (max_high (h a)) (it_high (h x)))) (it_high (h y)))\<rparr>)"
proof -
  let ?k = "if nil \<noteq> d then set_parent d x (set_left x d h) else set_left x d h"
  let ?L = "link rt fs y (set_parent y u ?k)"
  have k: "it_right (set_left x d h y) = d" "it_parent (?k x) = u" using assms(1-15) by auto
  have l: "relink x y (set_parent y u ?k) = ?L" using assms(1-15) by (intro relink) auto
  have "rightRotate nil x h = (let m = set_parent x y (set_right y x ?L);
      m = set_max_high x (max (max_high (m (it_left (m x)))) (max (max_high (m (it_right (m x)))) (it_high (m x)))) m
    in set_max_high y (max (max_high (m (it_left (m y)))) (max (max_high (m x)) (it_high (m y)))) m)"
    unfolding rightRotate_def using assms(1,2) k l by (simp only: Let_def)
  also have "\<dots> = ?L(x := (h x)\<lparr>it_left := d, it_parent := y, max_high := max (max_high (h d)) (max (max_high (h a)) (it_high (h x)))\<rparr>,
     y := (h y)\<lparr>it_right := x, it_parent := u,
       max_high := max (max_high (h e)) (max (max (max_high (h d)) (max (max_high (h a)) (it_high (h x)))) (it_high (h y)))\<rparr>)"
  proof (rule rotate_writes_right)
    show "?L x = (h x)\<lparr>it_left := d\<rparr>" "?L y = (h y)\<lparr>it_parent := u\<rparr>"
      using assms(1-15,17) by (simp_all add: link_other)
    show "max_high (?L b) = max_high (h b)" for b by simp
  qed (use assms in simp_all)
  also have "?L(x := v, y := w) = (link rt fs y (if d \<noteq> nil then set_parent d x h else h))(x := v, y := w)" for v w
  proof
    fix b
    show "(?L(x := v, y := w)) b = ((link rt fs y (if d \<noteq> nil then set_parent d x h else h))(x := v, y := w)) b"
    proof (cases "b = x \<or> b = y")
      case False
      then have "?L b = link rt fs y (if d \<noteq> nil then set_parent d x h else h) b" using assms(7) by (intro link_cong) simp
      with False show ?thesis by simp
    qed auto
  qed
  finally show ?thesis .
qed

lemma ptr_neq: "x \<notin> aset t \<Longrightarrow> x \<noteq> nil \<Longrightarrow> x \<noteq> ptr nil t" "x \<notin> aset t \<Longrightarrow> x \<noteq> nil \<Longrightarrow> ptr nil t \<noteq> x"
  by (cases t; auto)+

lemma up_neq: "x \<notin> paddrs fs \<Longrightarrow> x \<noteq> e \<Longrightarrow> x \<noteq> up e fs" "x \<notin> paddrs fs \<Longrightarrow> x \<noteq> e \<Longrightarrow> up e fs \<noteq> x"
  by (cases fs rule: paddrs.cases; auto)+

lemma ptr_up_neq:
  assumes "aset t \<inter> paddrs fs = {}" and "e \<notin> aset t" and "nil \<notin> paddrs fs" and "nil \<noteq> e"
  shows "ptr nil t \<noteq> up e fs"
proof (cases t)
  case Lf
  with assms(3,4) show ?thesis by (simp add: up_neq)
next
  case (Nd l a i c r)
  with assms(1,2) up_neq(1) [of a fs e] show ?thesis by simp
qed

lemma adopt_away: "b \<notin> aset t \<Longrightarrow> (if ptr nil t \<noteq> nil then set_parent (ptr nil t) x h else h) b = h b"
  by (cases t) auto

text \<open>A path linked to another child, seen from outside and from the path.\<close>

lemma link_away: "b \<notin> paddrs fs \<Longrightarrow> b \<noteq> rt \<Longrightarrow> link rt fs q h b = h b"
  by (rule link_other) (rule up_neq(1))

lemma repr_cong: "(\<And>a. a \<in> aset t \<Longrightarrow> h a = h' a) \<Longrightarrow> repr nil B h p t = repr nil B h' p t"
  by (induction t arbitrary: p) auto

lemma path_cong: "(\<And>a. a \<in> paddrs fs \<Longrightarrow> h a = h' a) \<Longrightarrow> path nil B h e q fs = path nil B h' e q fs"
proof (induction fs arbitrary: q rule: paddrs.induct)
  case (2 a i c r fs)
  then show ?case using repr_cong [of r h h'] by simp
next
  case (3 l a i c fs)
  then show ?case using repr_cong [of l h h'] by simp
qed simp

lemma maxes_cong: "(\<And>a. a \<in> paddrs fs \<Longrightarrow> max_high (h a) = max_high (h' a)) \<Longrightarrow> maxes B h m fs = maxes B h' m fs"
  by (induction fs arbitrary: m rule: paddrs.induct) auto

lemma ptr_in: "ptr nil t = nil \<or> ptr nil t \<in> aset t"
  by (cases t) auto

lemma max_high_ptr: "repr nil B h p t \<Longrightarrow> max_high (h nil) = B \<Longrightarrow> max_high (h (ptr nil t)) = mh B t"
  by (cases t) auto

lemma holds_leftRotate:
  assumes h: "holds nil rt B h (plug fs (Nd A x ix cx (Nd D y iy cy E)))"
  shows "holds nil rt B (leftRotate nil x h) (plug fs (Nd (Nd A x ix cx D) y iy cy E))" and "leftRotate nil x h nil = h nil"
proof -
  let ?u = "up rt fs" and ?d = "ptr nil D" and ?a = "ptr nil A" and ?e = "ptr nil E"
  note H = h [unfolded holds_plug]
  have c: "is_cell (h x) ix cx ?a y ?u" "is_cell (h y) iy cy ?d ?e x" "repr nil B h x A" "repr nil B h y D" "repr nil B h y E"
    "path nil B h rt x fs" "max_high (h nil) = B" "it_left (h rt) = tip x fs"
    using H by simp_all
  have s: "x \<notin> aset A" "x \<notin> aset D" "x \<notin> aset E" "y \<notin> aset A" "y \<notin> aset D" "y \<notin> aset E" "x \<notin> paddrs fs" "y \<notin> paddrs fs"
    "aset D \<inter> paddrs fs = {}" "rt \<notin> aset D" "rt \<notin> paddrs fs" "nil \<notin> paddrs fs"
    and n: "x \<noteq> y" "x \<noteq> nil" "y \<noteq> nil" "x \<noteq> rt" "y \<noteq> rt" "nil \<noteq> rt"
    using H by (simp_all add: Int_Un_distrib2)
  have ne: "x \<noteq> ?d" "x \<noteq> ?u" "y \<noteq> ?d" "y \<noteq> ?u" "?d \<noteq> ?u" "?a \<noteq> x" "?a \<noteq> y" "?e \<noteq> x" "?e \<noteq> y"
    using s n by (intro ptr_neq up_neq ptr_up_neq; simp)+
  let ?k = "if ?d \<noteq> nil then set_parent ?d x h else h"
  let ?mx = "mh B (Nd A x ix cx D)"
  let ?vx = "(h x)\<lparr>it_right := ?d, it_parent := y, max_high := ?mx\<rparr>"
  let ?vy = "(h y)\<lparr>it_left := x, it_parent := ?u, max_high := max ?mx (max (mh B E) (high iy))\<rparr>"
  have m: "max_high (h ?a) = mh B A" "max_high (h ?d) = mh B D" "max_high (h ?e) = mh B E"
    using max_high_ptr c(3-5,7) by blast+
  have hi: "it_high (h x) = high ix" "it_high (h y) = high iy" using c(1,2) by (simp_all add: is_cell_def)
  have g: "leftRotate nil x h = (link rt fs y ?k)(x := ?vx, y := ?vy)"
  proof -
    have "relink x y k = link rt fs y k" if "it_parent (k x) = ?u" "k ?u = h ?u" for k
      by (rule relink_link [OF c(6,8) n(2) s(7) that])
    from leftRotate_writes [of h x y ?d ?u ?a ?e rt fs nil, OF _ _ _ _ _ n(1) ne this refl] c(1,2) show ?thesis
      unfolding m hi by (simp add: is_cell_def max.commute max.left_commute)
  qed
  have D: "repr nil B ?k x D" using reparent [OF c(4)] H by simp
  let ?g = "leftRotate nil x h"
  have away: "?g b = h b" if "b \<noteq> x" "b \<noteq> y" "b \<notin> aset D" "b \<notin> paddrs fs" "b \<noteq> rt" for b
    using that by (simp add: g link_away adopt_away)
  show "?g nil = h nil" by (rule away) (use n s H in auto)
  have A: "repr nil B ?g x A"
    by (rule repr_cong [THEN iffD1, OF _ c(3)], rule away [symmetric]) (use s H in auto)
  have E: "repr nil B ?g y E"
    by (rule repr_cong [THEN iffD1, OF _ c(5)], rule away [symmetric]) (use s H in auto)
  have "?g b = ?k b" if b: "b \<in> aset D" for b
  proof -
    have "b \<notin> paddrs fs" "b \<noteq> rt" "b \<noteq> x" "b \<noteq> y" using b s by auto
    then show ?thesis unfolding g by (simp add: link_away)
  qed
  then have D': "repr nil B ?g x D" using repr_cong [of D ?g ?k] D by simp
  have k: "path nil B ?k rt x fs" "maxes B ?k m fs = maxes B h m fs" "?k rt = h rt" for m
  proof -
    have "?d \<noteq> nil \<Longrightarrow> ?d \<notin> paddrs fs \<and> ?d \<noteq> rt" using s ptr_in [of nil D] by auto
    with c(6) show "path nil B ?k rt x fs" "maxes B ?k m fs = maxes B h m fs" by simp_all
    show "?k rt = h rt" using s by (intro adopt_away) simp
  qed
  have P: "path nil B ?g rt y fs" unfolding g using link_path [OF k(1)] H s by simp
  have M: "maxes B ?g m fs = maxes B h m fs" for m unfolding g using s k(2) by (simp add: link_maxes)
  have R: "?g rt = link rt fs y ?k rt" unfolding g using n by simp
  have X: "is_cell (?g x) ix cx ?a ?d y" "max_high (?g x) = ?mx" unfolding g using c(1) n(1) by (simp_all add: is_cell_def)
  have Y: "is_cell (?g y) iy cy x ?e ?u" "max_high (?g y) = mh B (Nd (Nd A x ix cx D) y iy cy E)"
    unfolding g using c(2) by (simp_all add: is_cell_def max.commute max.left_commute)
  show "holds nil rt B ?g (plug fs (Nd (Nd A x ix cx D) y iy cy E))"
    unfolding holds_plug
  proof (intro conjI)
    show "repr nil B ?g ?u (Nd (Nd A x ix cx D) y iy cy E)" using A E D' X Y by simp
    show "maxes B ?g (mh B (Nd (Nd A x ix cx D) y iy cy E)) fs"
      using H unfolding M by (simp add: max.commute max.left_commute)
    show "path nil B ?g rt (ptr nil (Nd (Nd A x ix cx D) y iy cy E)) fs" using P by simp
    have R': "it_left (?g rt) = tip y fs" "it_right (?g rt) = it_right (h rt)"
      unfolding R using link_root [of rt fs ?k x y] s c(8) k(3) by simp_all
    then show "it_left (?g rt) = tip (ptr nil (Nd (Nd A x ix cx D) y iy cy E)) fs" by simp
    show "it_right (?g rt) = nil" using R' H by simp
    show "\<not> red (?g rt)" "stored_interval (?g rt) = None" unfolding R link_fields k(3) using H by simp_all
    show "\<not> red (?g nil)" "max_high (?g nil) = B" unfolding \<open>?g nil = h nil\<close> using H by simp_all
  qed (use H in auto)
qed

lemma holds_rightRotate:
  assumes h: "holds nil rt B h (plug fs (Nd (Nd E y iy cy D) x ix cx A))"
  shows "holds nil rt B (rightRotate nil x h) (plug fs (Nd E y iy cy (Nd D x ix cx A)))" and "rightRotate nil x h nil = h nil"
proof -
  let ?u = "up rt fs" and ?d = "ptr nil D" and ?a = "ptr nil A" and ?e = "ptr nil E"
  note H = h [unfolded holds_plug]
  have c: "is_cell (h x) ix cx y ?a ?u" "is_cell (h y) iy cy ?e ?d x" "repr nil B h x A" "repr nil B h y D" "repr nil B h y E"
    "path nil B h rt x fs" "max_high (h nil) = B" "it_left (h rt) = tip x fs"
    using H by simp_all
  have s: "x \<notin> aset A" "x \<notin> aset D" "x \<notin> aset E" "y \<notin> aset A" "y \<notin> aset D" "y \<notin> aset E" "x \<notin> paddrs fs" "y \<notin> paddrs fs"
    "aset D \<inter> paddrs fs = {}" "rt \<notin> aset D" "rt \<notin> paddrs fs" "nil \<notin> paddrs fs"
    and n: "x \<noteq> y" "x \<noteq> nil" "y \<noteq> nil" "x \<noteq> rt" "y \<noteq> rt" "nil \<noteq> rt"
    using H by (simp_all add: Int_Un_distrib2)
  have ne: "x \<noteq> ?d" "x \<noteq> ?u" "y \<noteq> ?d" "y \<noteq> ?u" "?d \<noteq> ?u" "?a \<noteq> x" "?a \<noteq> y" "?e \<noteq> x" "?e \<noteq> y"
    using s n by (intro ptr_neq up_neq ptr_up_neq; simp)+
  let ?k = "if ?d \<noteq> nil then set_parent ?d x h else h"
  let ?mx = "mh B (Nd D x ix cx A)"
  let ?vx = "(h x)\<lparr>it_left := ?d, it_parent := y, max_high := ?mx\<rparr>"
  let ?vy = "(h y)\<lparr>it_right := x, it_parent := ?u, max_high := max ?mx (max (mh B E) (high iy))\<rparr>"
  have m: "max_high (h ?a) = mh B A" "max_high (h ?d) = mh B D" "max_high (h ?e) = mh B E"
    using max_high_ptr c(3-5,7) by blast+
  have hi: "it_high (h x) = high ix" "it_high (h y) = high iy" using c(1,2) by (simp_all add: is_cell_def)
  have g: "rightRotate nil x h = (link rt fs y ?k)(x := ?vx, y := ?vy)"
  proof -
    have "relink x y k = link rt fs y k" if "it_parent (k x) = ?u" "k ?u = h ?u" for k
      by (rule relink_link [OF c(6,8) n(2) s(7) that])
    from rightRotate_writes [of h x y ?d ?u ?a ?e rt fs nil, OF _ _ _ _ _ n(1) ne this refl] c(1,2) show ?thesis
      unfolding m hi by (simp add: is_cell_def max.commute max.left_commute)
  qed
  have D: "repr nil B ?k x D" using reparent [OF c(4)] H by simp
  let ?g = "rightRotate nil x h"
  have away: "?g b = h b" if "b \<noteq> x" "b \<noteq> y" "b \<notin> aset D" "b \<notin> paddrs fs" "b \<noteq> rt" for b
    using that by (simp add: g link_away adopt_away)
  show "?g nil = h nil" by (rule away) (use n s H in auto)
  have A: "repr nil B ?g x A"
    by (rule repr_cong [THEN iffD1, OF _ c(3)], rule away [symmetric]) (use s H in auto)
  have E: "repr nil B ?g y E"
    by (rule repr_cong [THEN iffD1, OF _ c(5)], rule away [symmetric]) (use s H in auto)
  have "?g b = ?k b" if b: "b \<in> aset D" for b
  proof -
    have "b \<notin> paddrs fs" "b \<noteq> rt" "b \<noteq> x" "b \<noteq> y" using b s by auto
    then show ?thesis unfolding g by (simp add: link_away)
  qed
  then have D': "repr nil B ?g x D" using repr_cong [of D ?g ?k] D by simp
  have k: "path nil B ?k rt x fs" "maxes B ?k m fs = maxes B h m fs" "?k rt = h rt" for m
  proof -
    have "?d \<noteq> nil \<Longrightarrow> ?d \<notin> paddrs fs \<and> ?d \<noteq> rt" using s ptr_in [of nil D] by auto
    with c(6) show "path nil B ?k rt x fs" "maxes B ?k m fs = maxes B h m fs" by simp_all
    show "?k rt = h rt" using s by (intro adopt_away) simp
  qed
  have P: "path nil B ?g rt y fs" unfolding g using link_path [OF k(1)] H s by simp
  have M: "maxes B ?g m fs = maxes B h m fs" for m unfolding g using s k(2) by (simp add: link_maxes)
  have R: "?g rt = link rt fs y ?k rt" unfolding g using n by simp
  have X: "is_cell (?g x) ix cx ?d ?a y" "max_high (?g x) = ?mx" unfolding g using c(1) n(1) by (simp_all add: is_cell_def)
  have Y: "is_cell (?g y) iy cy ?e x ?u" "max_high (?g y) = mh B (Nd E y iy cy (Nd D x ix cx A))"
    unfolding g using c(2) by (simp_all add: is_cell_def max.commute max.left_commute)
  show "holds nil rt B ?g (plug fs (Nd E y iy cy (Nd D x ix cx A)))"
    unfolding holds_plug
  proof (intro conjI)
    show "repr nil B ?g ?u (Nd E y iy cy (Nd D x ix cx A))" using A E D' X Y by simp
    show "maxes B ?g (mh B (Nd E y iy cy (Nd D x ix cx A))) fs"
      using H unfolding M by (simp add: max.commute max.left_commute)
    show "path nil B ?g rt (ptr nil (Nd E y iy cy (Nd D x ix cx A))) fs" using P by simp
    have R': "it_left (?g rt) = tip y fs" "it_right (?g rt) = it_right (h rt)"
      unfolding R using link_root [of rt fs ?k x y] s c(8) k(3) by simp_all
    then show "it_left (?g rt) = tip (ptr nil (Nd E y iy cy (Nd D x ix cx A))) fs" by simp
    show "it_right (?g rt) = nil" using R' H by simp
    show "\<not> red (?g rt)" "stored_interval (?g rt) = None" unfolding R link_fields k(3) using H by simp_all
    show "\<not> red (?g nil)" "max_high (?g nil) = B" unfolding \<open>?g nil = h nil\<close> using H by simp_all
  qed (use H in auto)
qed


end
