(* ===== verification/IntervalRepair.thy ===== *)
theory IntervalRepair
  imports IntervalHeap
begin

text \<open>
  The loops that repair an interval tree after an insertion or a deletion, on the heap and on shapes: each iteration
  leaves a heap that holds the tree of the corresponding step, and the loops return.
\<close>

subsection \<open>Reading and painting a node\<close>

fun faddr :: "frame \<Rightarrow> nat" where
  "faddr (LeftOf a i c r) = a"
| "faddr (RightOf l a i c) = a"

text \<open>The frame of the sibling, with the subtree in the sibling's place.\<close>

fun fflip :: "frame \<Rightarrow> shape \<Rightarrow> frame" where
  "fflip (LeftOf a i c r) t = RightOf t a i c"
| "fflip (RightOf l a i c) t = LeftOf a i c t"

lemma up_faddr [simp]: "up e (f # fs) = faddr f"
  by (cases f) auto

lemma mk_fflip: "mk (fflip f t) (sib f) = mk f t" "mk (fflip f t) (paint b (sib f)) = mk (fsib b f) t"
  by (cases f; simp)+

lemma holds_cell:
  assumes "holds nil rt B h (plug fs (Nd l a i c r))"
  shows "is_cell (h a) i c (ptr nil l) (ptr nil r) (up rt fs)" and "a \<noteq> nil" and "a \<noteq> rt" and "a \<notin> paddrs fs"
    and "ptr nil l \<noteq> a" and "ptr nil r \<noteq> a" and "ptr nil l = ptr nil r \<longleftrightarrow> l = Lf \<and> r = Lf"
proof -
  note H = assms [unfolded holds_plug]
  from H show "is_cell (h a) i c (ptr nil l) (ptr nil r) (up rt fs)" and n: "a \<noteq> nil" and "a \<noteq> rt" and "a \<notin> paddrs fs" by simp_all
  have "a \<notin> aset l" "a \<notin> aset r" "aset l \<inter> aset r = {}" "nil \<notin> aset l" "nil \<notin> aset r" using H by simp_all
  with n show "ptr nil l \<noteq> a" and "ptr nil r \<noteq> a" and "ptr nil l = ptr nil r \<longleftrightarrow> l = Lf \<and> r = Lf"
    by (cases l; cases r; auto)+
qed

lemma holds_red:
  assumes "holds nil rt B h (plug fs t)"
  shows "red (h (ptr nil t)) = is_red t" and "red (h (up rt fs)) = (fs \<noteq> [] \<and> fred (hd fs))"
    and "t \<noteq> Lf \<Longrightarrow> it_parent (h (ptr nil t)) = up rt fs"
proof -
  note H = assms [unfolded holds_plug]
  show "red (h (ptr nil t)) = is_red t" using H by (cases t) (auto simp: is_cell_def)
  show "red (h (up rt fs)) = (fs \<noteq> [] \<and> fred (hd fs))" using H by (cases fs rule: paddrs.cases) (auto simp: is_cell_def)
  show "t \<noteq> Lf \<Longrightarrow> it_parent (h (ptr nil t)) = up rt fs" using H by (cases t) (auto simp: is_cell_def)
qed

lemma repr_red: "repr nil B (set_red a v h) p t" if "repr nil B h p t" "a \<notin> aset t"
  using that by simp

lemma holds_set_red:
  assumes "holds nil rt B h (plug fs (Nd l a i c r))"
  shows "holds nil rt B (set_red a v h) (plug fs (Nd l a i v r))" and "set_red a v h nil = h nil"
proof -
  note H = assms [unfolded holds_plug]
  have n: "a \<noteq> nil" "a \<noteq> rt" "a \<notin> aset l" "a \<notin> aset r" "a \<notin> paddrs fs" using H by simp_all
  show "set_red a v h nil = h nil" using n by simp
  show "holds nil rt B (set_red a v h) (plug fs (Nd l a i v r))"
    unfolding holds_plug using H n by (simp add: is_cell_def)
qed

lemma holds_paint:
  assumes "holds nil rt B h (plug fs t)" and "t \<noteq> Lf"
  shows "holds nil rt B (set_red (ptr nil t) v h) (plug fs (paint v t))" and "set_red (ptr nil t) v h nil = h nil"
proof -
  from assms(2) obtain l a i c r where t: "t = Nd l a i c r" by (cases t) auto
  from holds_set_red [OF assms(1) [unfolded t]]
  show "holds nil rt B (set_red (ptr nil t) v h) (plug fs (paint v t))" and "set_red (ptr nil t) v h nil = h nil"
    unfolding t paint.simps ptr.simps .
qed

lemma holds_paint_frame:
  assumes "holds nil rt B h (plug fs (mk f t))"
  shows "holds nil rt B (set_red (faddr f) v h) (plug fs (mk (frepaint v f) t))"
  using assms holds_set_red by (cases f) auto

lemma holds_paint_sib:
  assumes "holds nil rt B h (plug fs (mk f t))" and "sib f \<noteq> Lf"
  shows "holds nil rt B (set_red (ptr nil (sib f)) v h) (plug fs (mk (fsib v f) t))"
  using holds_paint(1) [of nil rt B h "fflip f t # fs" "sib f" v] assms by (simp add: mk_fflip)

subsection \<open>After an insertion\<close>

text \<open>The links between a node and its parent, and the sibling.\<close>

lemma holds_mk:
  assumes h: "holds nil rt B h (plug fs (mk f t))" and t: "t \<noteq> Lf \<or> sib f \<noteq> Lf"
  shows "it_left (h (faddr f)) = (case f of LeftOf a i c r \<Rightarrow> ptr nil t | RightOf l a i c \<Rightarrow> ptr nil (sib f))"
    and "it_right (h (faddr f)) = (case f of LeftOf a i c r \<Rightarrow> ptr nil (sib f) | RightOf l a i c \<Rightarrow> ptr nil t)"
    and "ptr nil t \<noteq> ptr nil (sib f)" and "red (h (ptr nil (sib f))) = is_red (sib f)" and "it_parent (h (faddr f)) = up rt fs"
    and "red (h (faddr f)) = fred f" and "faddr f \<noteq> nil" and "ptr nil t \<noteq> faddr f" and "ptr nil (sib f) \<noteq> faddr f"
    and "t \<noteq> Lf \<Longrightarrow> it_parent (h (ptr nil t)) = faddr f"
proof -
  have h': "holds nil rt B h (plug (f # fs) t)" and s: "holds nil rt B h (plug (fflip f t # fs) (sib f))"
    using h by (simp_all add: mk_fflip)
  from holds_red(1) [OF s] show "red (h (ptr nil (sib f))) = is_red (sib f)" .
  from holds_red(3) [OF h'] show "t \<noteq> Lf \<Longrightarrow> it_parent (h (ptr nil t)) = faddr f" by simp
  obtain l a i c r where n: "mk f t = Nd l a i c r" "faddr f = a" by (cases f) auto
  note C = holds_cell [OF h [unfolded n(1)]]
  show "it_left (h (faddr f)) = (case f of LeftOf a i c r \<Rightarrow> ptr nil t | RightOf l a i c \<Rightarrow> ptr nil (sib f))"
    and "it_right (h (faddr f)) = (case f of LeftOf a i c r \<Rightarrow> ptr nil (sib f) | RightOf l a i c \<Rightarrow> ptr nil t)"
    and "ptr nil t \<noteq> ptr nil (sib f)" and "it_parent (h (faddr f)) = up rt fs" and "red (h (faddr f)) = fred f"
    and "faddr f \<noteq> nil" and "ptr nil t \<noteq> faddr f" and "ptr nil (sib f) \<noteq> faddr f"
    using C t n by (cases f; auto simp: is_cell_def)+
qed

lemma mk_not_Lf: "mk f t \<noteq> Lf" "ptr nil (mk f t) = faddr f"
  by (cases f; simp)+

text \<open>The cases of the loop body.\<close>

definition turn :: "(nat \<Rightarrow> it_heap \<Rightarrow> it_heap) \<Rightarrow> nat \<Rightarrow> it_heap \<Rightarrow> it_heap" where
  "turn rot p h = (let h = set_red p False h; h = set_red (it_parent (h p)) True h in rot (it_parent (h p)) h)"

lemma insertFixup_body_cases:
  assumes "it_parent (h x) = p" and "it_parent (h p) = g"
  shows "it_left (h g) = p \<Longrightarrow> it_right (h g) = y \<Longrightarrow> red (h y) \<Longrightarrow>
      insertFixup_body nil x h = (g, set_red g True (set_red y False (set_red p False h)))"
    and "it_left (h g) = y \<Longrightarrow> p \<noteq> y \<Longrightarrow> red (h y) \<Longrightarrow>
      insertFixup_body nil x h = (g, set_red g True (set_red y False (set_red p False h)))"
    and "it_left (h g) = p \<Longrightarrow> it_right (h g) = y \<Longrightarrow> \<not> red (h y) \<Longrightarrow> x \<noteq> it_right (h p) \<Longrightarrow>
      insertFixup_body nil x h = (x, turn (rightRotate nil) p h)"
    and "it_left (h g) = p \<Longrightarrow> it_right (h g) = y \<Longrightarrow> \<not> red (h y) \<Longrightarrow> x = it_right (h p) \<Longrightarrow> it_parent (leftRotate nil p h p) = q \<Longrightarrow>
      insertFixup_body nil x h = (p, turn (rightRotate nil) q (leftRotate nil p h))"
    and "it_left (h g) = y \<Longrightarrow> p \<noteq> y \<Longrightarrow> \<not> red (h y) \<Longrightarrow> x \<noteq> it_left (h p) \<Longrightarrow>
      insertFixup_body nil x h = (x, turn (leftRotate nil) p h)"
    and "it_left (h g) = y \<Longrightarrow> p \<noteq> y \<Longrightarrow> \<not> red (h y) \<Longrightarrow> x = it_left (h p) \<Longrightarrow> it_parent (rightRotate nil p h p) = q \<Longrightarrow>
      insertFixup_body nil x h = (p, turn (leftRotate nil) q (rightRotate nil p h))"
  unfolding insertFixup_body_def turn_def Let_def assms by (simp_all only: prod.case if_True if_False simp_thms assms)

lemma insert_uncle_red:
  assumes h: "holds nil rt B h (plug (f # g # fs) t)" and t: "t \<noteq> Lf" and u: "is_red (sib g)"
  obtains h' where "insertFixup_body nil (ptr nil t) h = (faddr g, h')"
    and "holds nil rt B h' (plug fs (mk (frepaint True (fsib False g)) (mk (frepaint False f) t)))"
proof -
  let ?p = "faddr f" and ?g = "faddr g" and ?y = "ptr nil (sib g)"
  let ?h1 = "set_red ?p False h" let ?h2 = "set_red ?y False ?h1" let ?h3 = "set_red ?g True ?h2"
  have hf: "holds nil rt B h (plug (g # fs) (mk f t))" and hg: "holds nil rt B h (plug fs (mk g (mk f t)))" using h by simp_all
  note P = holds_mk [OF hf disjI1 [OF t], unfolded up_faddr]
  note G = holds_mk [OF hg disjI1 [OF mk_not_Lf(1)], unfolded mk_not_Lf]
  have "holds nil rt B ?h1 (plug (g # fs) (mk (frepaint False f) t))" by (rule holds_paint_frame [OF hf])
  then have "holds nil rt B ?h1 (plug fs (mk g (mk (frepaint False f) t)))" by simp
  moreover have "sib g \<noteq> Lf" using u by auto
  ultimately have "holds nil rt B ?h2 (plug fs (mk (fsib False g) (mk (frepaint False f) t)))" by (rule holds_paint_sib)
  then have "holds nil rt B (set_red (faddr (fsib False g)) True ?h2) (plug fs (mk (frepaint True (fsib False g)) (mk (frepaint False f) t)))"
    by (rule holds_paint_frame)
  moreover have "faddr (fsib False g) = ?g" by (cases g) auto
  moreover have "insertFixup_body nil (ptr nil t) h = (?g, ?h3)"
  proof (cases g)
    case (LeftOf a i c r)
    with G(1,2,4) u show ?thesis by (intro insertFixup_body_cases(1) [OF P(10) [OF t] P(5)]) simp_all
  next
    case (RightOf l a i c)
    with G(1,3,4) u show ?thesis by (intro insertFixup_body_cases(2) [OF P(10) [OF t] P(5)]) simp_all
  qed
  ultimately show thesis using that by metis
qed

text \<open>The rotation at the grandparent.\<close>

lemma rotate_at_top:
  assumes h: "holds nil rt B h (plug fs (mk g (mk f t)))" and t: "t \<noteq> Lf"
  shows "(case g of LeftOf a i c r \<Rightarrow> True | RightOf l a i c \<Rightarrow> False) \<Longrightarrow> f = LeftOf p ip c r \<Longrightarrow>
      holds nil rt B (turn (rightRotate nil) p h)
        (plug fs (ins_rotate f g t))"
    and "(case g of LeftOf a i c r \<Rightarrow> False | RightOf l a i c \<Rightarrow> True) \<Longrightarrow> f = RightOf l p ip c \<Longrightarrow>
      holds nil rt B (turn (leftRotate nil) p h)
        (plug fs (ins_rotate f g t))"
proof -
  let ?p = "faddr f" and ?g = "faddr g"
  let ?h1 = "set_red ?p False h" let ?h2 = "set_red ?g True ?h1"
  note G = holds_mk [OF h disjI1 [OF mk_not_Lf(1)], unfolded mk_not_Lf]
  have "holds nil rt B h (plug (g # fs) (mk f t))" using h by simp
  note P = holds_mk [OF this disjI1 [OF t], unfolded up_faddr]
  have g: "it_parent (?h1 ?p) = ?g" "it_parent (?h2 ?p) = ?g" using G(8) P(5) by simp_all
  have "holds nil rt B ?h1 (plug fs (mk g (mk (frepaint False f) t)))" using holds_paint_frame [of nil rt B h "g # fs"] h by simp
  then have 2: "holds nil rt B ?h2 (plug fs (mk (frepaint True g) (mk (frepaint False f) t)))" by (rule holds_paint_frame)
  show "holds nil rt B (turn (rightRotate nil) p h)
        (plug fs (ins_rotate f g t))"
    if s: "case g of LeftOf a i c r \<Rightarrow> True | RightOf l a i c \<Rightarrow> False" and f: "f = LeftOf p ip c r"
  proof -
    obtain a ig cg u where gg: "g = LeftOf a ig cg u" using s by (cases g) auto
    with 2 f have "holds nil rt B ?h2 (plug fs (Nd (Nd t p ip False r) a ig True u))" by simp
    from holds_rightRotate(1) [OF this] show ?thesis
      using g unfolding f gg faddr.simps ins_rotate.simps by (simp only: turn_def Let_def)
  qed
  show "holds nil rt B (turn (leftRotate nil) p h)
        (plug fs (ins_rotate f g t))"
    if s: "case g of LeftOf a i c r \<Rightarrow> False | RightOf l a i c \<Rightarrow> True" and f: "f = RightOf l p ip c"
  proof -
    obtain a ig cg u where gg: "g = RightOf u a ig cg" using s by (cases g) auto
    with 2 f have "holds nil rt B ?h2 (plug fs (Nd u a ig True (Nd l p ip False t)))" by simp
    from holds_leftRotate(1) [OF this] show ?thesis
      using g unfolding f gg faddr.simps ins_rotate.simps by (simp only: turn_def Let_def)
  qed
qed

lemma insert_uncle_black:
  assumes h: "holds nil rt B h (plug (f # g # fs) t)" and t: "t \<noteq> Lf" and u: "\<not> is_red (sib g)" and f: "fred f"
  obtains x' h' where "insertFixup_body nil (ptr nil t) h = (x', h')" and "holds nil rt B h' (plug fs (ins_rotate f g t))"
    and "\<not> red (h' (it_parent (h' x')))"
proof -
  let ?x = "ptr nil t" and ?p = "faddr f" and ?g = "faddr g"
  have hf: "holds nil rt B h (plug (g # fs) (mk f t))" and hg: "holds nil rt B h (plug fs (mk g (mk f t)))" using h by simp_all
  note P = holds_mk [OF hf disjI1 [OF t], unfolded up_faddr]
  note G = holds_mk [OF hg disjI1 [OF mk_not_Lf(1)], unfolded mk_not_Lf]
  note body = insertFixup_body_cases [OF P(10) [OF t] P(5)]
  obtain A x ix cx D where tN: "t = Nd A x ix cx D" using t by (cases t) auto
  have ry: "\<not> red (h (ptr nil (sib g)))" using G(4) u by simp
  show thesis
  proof (cases f; cases g)
    fix p ip c r a ig cg u'
    assume fg: "f = LeftOf p ip c r" "g = LeftOf a ig cg u'"
    let ?h = "turn (rightRotate nil) p h"
    have "insertFixup_body nil ?x h = (?x, ?h)"
      using body(3) [of "ptr nil u'"] G(1,2) P(2,3) ry unfolding fg by simp
    moreover have 1: "holds nil rt B ?h (plug fs (ins_rotate f g t))" using rotate_at_top(1) [OF hg t] fg by simp
    moreover have "\<not> red (?h (it_parent (?h ?x)))"
      using holds_mk(6,10) [of nil rt B ?h fs "LeftOf p ip False (Nd r a ig True u')" t] 1 fg t by simp
    ultimately show thesis by (rule that)
  next
    fix p ip c r a ig cg u'
    assume fg: "f = LeftOf p ip c r" "g = RightOf u' a ig cg"
    let ?k = "rightRotate nil p h"
    let ?h = "turn (leftRotate nil) x ?k"
    have k: "holds nil rt B ?k (plug (g # fs) (Nd A x ix cx (Nd D p ip True r)))"
      using holds_rightRotate(1) [of nil rt B h "g # fs" A x ix cx D p ip True r] hf fg f tN by simp
    then have px: "it_parent (?k p) = x" using holds_mk(10) [of nil rt B ?k "g # fs" "RightOf A x ix cx" "Nd D p ip True r"] by simp
    have "insertFixup_body nil ?x h = (p, ?h)"
      using body(6) [of "ptr nil u'"] G(1,3) P(1) ry px tN unfolding fg by simp
    moreover have 1: "holds nil rt B ?h (plug fs (ins_rotate f g t))"
      using rotate_at_top(2) [of nil rt B ?k fs g "RightOf A x ix cx" "Nd D p ip True r" A x ix cx] k fg tN by simp
    moreover have "\<not> red (?h (it_parent (?h p)))"
      using holds_mk(6,10) [of nil rt B ?h fs "RightOf (Nd u' a ig True A) x ix False" "Nd D p ip True r"] 1 fg tN by simp
    ultimately show thesis by (rule that)
  next
    fix p ip c l a ig cg u'
    assume fg: "f = RightOf l p ip c" "g = LeftOf a ig cg u'"
    let ?k = "leftRotate nil p h"
    let ?h = "turn (rightRotate nil) x ?k"
    have k: "holds nil rt B ?k (plug (g # fs) (Nd (Nd l p ip True A) x ix cx D))"
      using holds_leftRotate(1) [of nil rt B h "g # fs" l p ip True A x ix cx D] hf fg f tN by simp
    then have px: "it_parent (?k p) = x" using holds_mk(10) [of nil rt B ?k "g # fs" "LeftOf x ix cx D" "Nd l p ip True A"] by simp
    have "insertFixup_body nil ?x h = (p, ?h)"
      using body(4) [of "ptr nil u'"] G(1,2) P(2) ry px tN unfolding fg by simp
    moreover have 1: "holds nil rt B ?h (plug fs (ins_rotate f g t))"
      using rotate_at_top(1) [of nil rt B ?k fs g "LeftOf x ix cx D" "Nd l p ip True A" x ix cx D] k fg tN by simp
    moreover have "\<not> red (?h (it_parent (?h p)))"
      using holds_mk(6,10) [of nil rt B ?h fs "LeftOf x ix False (Nd D a ig True u')" "Nd l p ip True A"] 1 fg tN by simp
    ultimately show thesis by (rule that)
  next
    fix p ip c l a ig cg u'
    assume fg: "f = RightOf l p ip c" "g = RightOf u' a ig cg"
    let ?h = "turn (leftRotate nil) p h"
    have "insertFixup_body nil ?x h = (?x, ?h)"
      using body(5) [of "ptr nil u'"] G(1,3) P(1,3) ry unfolding fg by simp
    moreover have 1: "holds nil rt B ?h (plug fs (ins_rotate f g t))" using rotate_at_top(2) [OF hg t] fg by simp
    moreover have "\<not> red (?h (it_parent (?h ?x)))"
      using holds_mk(6,10) [of nil rt B ?h fs "RightOf (Nd u' a ig True l) p ip False" t] 1 fg t by simp
    ultimately show thesis by (rule that)
  qed
qed

text \<open>The loop.\<close>

lemma insertFixup_stop:
  assumes "holds nil rt B h (plug fs t)" and "t \<noteq> Lf" and "fs = [] \<or> \<not> fred (hd fs)"
  shows "insertFixup nil (ptr nil t) h = Some h"
  using holds_red [OF assms(1)] assms(2,3) by (subst insertFixup.simps) auto

lemma insertFixup_shape:
  assumes "holds nil rt B h (plug fs t)" and "t \<noteq> Lf" and "cpath fs"
  shows "\<exists>h'. insertFixup nil (ptr nil t) h = Some h' \<and> holds nil rt B h' (ins_up fs t)"
  using assms
proof (induction fs t arbitrary: h rule: ins_up.induct)
  case (1 f g fs t)
  show ?case
  proof (cases "fred f")
    case False
    with insertFixup_stop [OF "1.prems"(1,2)] "1.prems"(1) show ?thesis by simp
  next
    case f: True
    have r: "red (h (it_parent (h (ptr nil t))))" using holds_red(2,3) [OF "1.prems"(1)] "1.prems"(2) f by simp
    show ?thesis
    proof (cases "is_red (sib g)")
      case True
      from insert_uncle_red [OF "1.prems"(1,2) True] obtain h' where h': "insertFixup_body nil (ptr nil t) h = (faddr g, h')"
        "holds nil rt B h' (plug fs (mk (frepaint True (fsib False g)) (mk (frepaint False f) t)))" .
      let ?t = "mk (frepaint True (fsib False g)) (mk (frepaint False f) t)"
      have s: "ins_step f g t = (?t, True)" using True by (simp add: ins_step_def)
      have "ptr nil ?t = faddr g" by (cases g) auto
      moreover have "cpath fs" using "1.prems"(3) by simp
      ultimately show ?thesis
        using "1.IH" [OF f s [symmetric] TrueI h'(2)] r h'(1) s f by (subst insertFixup.simps) (simp add: mk_not_Lf)
    next
      case False
      from insert_uncle_black [OF "1.prems"(1,2) False f] obtain x' h' where h': "insertFixup_body nil (ptr nil t) h = (x', h')"
        "holds nil rt B h' (plug fs (ins_rotate f g t))" "\<not> red (h' (it_parent (h' x')))" .
      have "insertFixup nil x' h' = Some h'" using h'(3) by (subst insertFixup.simps) simp
      then have "insertFixup nil (ptr nil t) h = Some h'" using r h'(1) by (subst insertFixup.simps) simp
      then show ?thesis using h'(2) f False by (simp add: ins_step_def)
    qed
  qed
qed (use insertFixup_stop [of nil rt B _ "[]"] insertFixup_stop [of nil rt B _ "[f]" for f] in auto)

subsection \<open>After a deletion\<close>

text \<open>The parent of the subtree is right even when the subtree is \<open>nil\<close>.\<close>

definition dholds :: "nat \<Rightarrow> nat \<Rightarrow> simtime \<Rightarrow> it_heap \<Rightarrow> frame list \<Rightarrow> shape \<Rightarrow> bool" where
  "dholds nil rt B h fs x \<longleftrightarrow> holds nil rt B h (plug fs x) \<and> (x = Lf \<longrightarrow> it_parent (h nil) = up rt fs)"

lemma dholds_parent: "dholds nil rt B h fs x \<Longrightarrow> it_parent (h (ptr nil x)) = up rt fs"
  using holds_red(3) [of nil rt B h fs x] by (cases x) (simp_all add: dholds_def)

lemma dholds_step: "dholds nil rt B h fs x \<Longrightarrow> holds nil rt B h' (plug gs x) \<Longrightarrow> h' nil = h nil \<Longrightarrow> up rt gs = up rt fs \<Longrightarrow> dholds nil rt B h' gs x"
  by (simp add: dholds_def)

lemma set_red_reads [simp]:
  "it_parent (set_red a v h b) = it_parent (h b)" "it_left (set_red a v h b) = it_left (h b)" "it_right (set_red a v h b) = it_right (h b)"
  by simp_all

text \<open>The body for a node on the left, with its two parts.\<close>

definition left_final :: "nat \<Rightarrow> nat \<Rightarrow> nat \<Rightarrow> it_heap \<Rightarrow> it_heap" where
  "left_final nil x w h =
     (let h = set_red w (red (h (it_parent (h x)))) h;
          h = set_red (it_parent (h x)) False h;
          h = set_red (it_right (h w)) False h
      in leftRotate nil (it_parent (h x)) h)"

definition left_black :: "nat \<Rightarrow> nat \<Rightarrow> nat \<Rightarrow> nat \<Rightarrow> it_heap \<Rightarrow> nat \<times> it_heap" where
  "left_black nil root_left_node x w h =
     (if \<not> red (h (it_right (h w))) \<and> \<not> red (h (it_left (h w)))
      then (it_parent (h x), set_red w True h)
      else let (w, h) = (if \<not> red (h (it_right (h w)))
                         then let h = rightRotate nil w (set_red w True (set_red (it_left (h w)) False h))
                              in (it_right (h (it_parent (h x))), h)
                         else (w, h))
           in (root_left_node, left_final nil x w h))"

lemma deleteFixup_left_parts:
  "deleteFixup_left nil r x h =
     (let w = it_right (h (it_parent (h x)))
      in if red (h w)
         then let k = leftRotate nil (it_parent (h x)) (set_red (it_parent (h x)) True (set_red w False h))
              in left_black nil r x (it_right (k (it_parent (k x)))) k
         else left_black nil r x w h)"
  unfolding deleteFixup_left_def left_black_def left_final_def Let_def set_red_reads
  by (simp only: if_distrib [of "\<lambda>p. case p of (w, h) \<Rightarrow> f w h" for f] prod.case set_red_reads cong: if_cong)

lemma left_final_holds:
  assumes d: "dholds nil rt B h (LeftOf p ip cp (Nd wl w iw cw wr) # fs) x" and wr: "wr \<noteq> Lf"
  shows "holds nil rt B (left_final nil (ptr nil x) w h) (plug fs (Nd (Nd x p ip False wl) w iw cp (paint False wr)))"
    and "left_final nil (ptr nil x) w h nil = h nil"
proof -
  let ?x = "ptr nil x"
  let ?h1 = "set_red w cp h" let ?h2 = "set_red p False ?h1" let ?h3 = "set_red (ptr nil wr) False ?h2"
  have px: "it_parent (h ?x) = p" using dholds_parent [OF d] by simp
  have h: "holds nil rt B h (plug fs (Nd x p ip cp (Nd wl w iw cw wr)))" using d by (simp add: dholds_def)
  then have rp: "red (h p) = cp" using holds_cell(1) by (fastforce simp: is_cell_def)
  from h have "holds nil rt B h (plug (RightOf x p ip cp # fs) (Nd wl w iw cw wr))" by simp
  note s1 = holds_set_red [OF this, of cp]
  from s1(1) have "holds nil rt B ?h1 (plug fs (Nd x p ip cp (Nd wl w iw cp wr)))" by simp
  note s2 = holds_set_red [OF this, of False]
  from s2(1) have "holds nil rt B ?h2 (plug (RightOf wl w iw cp # RightOf x p ip False # fs) wr)" by simp
  note s3 = holds_paint [OF this wr, of False]
  from s3(1) have "holds nil rt B ?h3 (plug fs (Nd x p ip False (Nd wl w iw cp (paint False wr))))" by simp
  note s4 = holds_leftRotate [OF this]
  have rw: "it_right (h w) = ptr nil wr"
    using holds_cell(1) [of nil rt B h "RightOf x p ip cp # fs" wl w iw cw wr] h by (simp add: is_cell_def)
  have e: "left_final nil ?x w h = leftRotate nil p ?h3"
    by (simp only: left_final_def Let_def px rp set_red_reads rw)
  show "holds nil rt B (left_final nil ?x w h) (plug fs (Nd (Nd x p ip False wl) w iw cp (paint False wr)))"
    unfolding e using s4(1) .
  show "left_final nil ?x w h nil = h nil" unfolding e s4(2) s3(2) s2(2) s1(2) ..
qed

lemma left_black_holds:
  assumes d: "dholds nil rt B h (LeftOf p ip cp (Nd wl w iw False wr) # fs) x"
    and t: "del_left x p ip cp (Nd wl w iw False wr) = (t, go_on)"
  shows "\<exists>h'. left_black nil r (ptr nil x) w h = (if go_on then p else r, h') \<and> holds nil rt B h' (plug fs t) \<and> h' nil = h nil
    \<and> (\<not> go_on \<longrightarrow> \<not> red (h' p))"
proof -
  let ?x = "ptr nil x"
  have px: "it_parent (h ?x) = p" using dholds_parent [OF d] by simp
  have h: "holds nil rt B h (plug (RightOf x p ip cp # fs) (Nd wl w iw False wr))" using d by (simp add: dholds_def)
  have rr: "red (h (it_right (h w))) = is_red wr" "red (h (it_left (h w))) = is_red wl"
    using holds_cell(1) [OF h] holds_red(1) [of nil rt B h "RightOf wl w iw False # RightOf x p ip cp # fs" wr]
      holds_red(1) [of nil rt B h "LeftOf w iw False wr # RightOf x p ip cp # fs" wl] h by (simp_all add: is_cell_def)
  have black: "\<not> red (k p)" if "holds nil rt B k (plug fs (Nd (Nd x p ip False a) v iv c b))" for k a v iv c b
    using holds_cell(1) [of nil rt B k "LeftOf v iv c b # fs" x p ip False a] that by (simp add: is_cell_def)
  consider (both) "\<not> is_red wr" "\<not> is_red wl" | (inner) "\<not> is_red wr" "is_red wl" | (outer) "is_red wr" by blast
  then show ?thesis
  proof cases
    case both
    with rr px have "left_black nil r ?x w h = (p, set_red w True h)" by (simp add: left_black_def)
    with both t holds_set_red [OF h, of True] show ?thesis by (auto simp del: fun_upd_apply)
  next
    case outer
    then have "left_black nil r ?x w h = (r, left_final nil ?x w h)" using rr by (simp add: left_black_def)
    moreover have "wr \<noteq> Lf" using outer by auto
    note left_final_holds [OF d this]
    ultimately show ?thesis using outer t black by auto
  next
    case inner
    then obtain a v iv b where wl: "wl = Nd a v iv True b" by (cases wl) auto
    let ?h1 = "set_red v False h" let ?h2 = "set_red w True ?h1" let ?k = "rightRotate nil w ?h2"
    from h wl have "holds nil rt B h (plug (LeftOf w iw False wr # RightOf x p ip cp # fs) (Nd a v iv True b))" by simp
    note s1 = holds_set_red [OF this, of False]
    from s1(1) have "holds nil rt B ?h1 (plug (RightOf x p ip cp # fs) (Nd (Nd a v iv False b) w iw False wr))" by simp
    note s2 = holds_set_red [OF this, of True]
    note s3 = holds_rightRotate [OF s2(1)]
    have n: "?k nil = h nil" unfolding s3(2) s2(2) s1(2) ..
    have k: "holds nil rt B ?k (plug (LeftOf p ip cp (Nd a v iv False (Nd b w iw True wr)) # fs) x)" using s3(1) by simp
    have d': "dholds nil rt B ?k (LeftOf p ip cp (Nd a v iv False (Nd b w iw True wr)) # fs) x"
      by (rule dholds_step [OF d k n]) simp
    have "it_parent (?k ?x) = p" using dholds_parent [OF d'] by simp
    moreover have "it_right (?k p) = v"
      using holds_cell(1) [of nil rt B ?k fs x p ip cp "Nd a v iv False (Nd b w iw True wr)"] k by (simp add: is_cell_def)
    moreover have "it_left (h w) = v" using holds_cell(1) [OF h] wl by (simp add: is_cell_def)
    ultimately have "left_black nil r ?x w h = (r, left_final nil ?x v ?k)"
      using inner rr by (simp add: left_black_def Let_def del: fun_upd_apply)
    with left_final_holds [OF d'] n inner wl t black show ?thesis by auto
  qed
qed

lemma deleteFixup_left_holds:
  assumes d: "dholds nil rt B h (LeftOf p ip cp w # fs) x" and w: "w \<noteq> Lf"
    and inner: "\<And>wl a iw wr. w = Nd wl a iw True wr \<Longrightarrow> wl \<noteq> Lf \<and> \<not> is_red wl"
    and s: "del_step (LeftOf p ip cp w) x = (gs, t, go_on)"
  shows "\<exists>h'. deleteFixup_left nil r (ptr nil x) h = (if go_on then p else r, h') \<and> holds nil rt B h' (plug (gs @ fs) t) \<and> h' nil = h nil
    \<and> (\<not> go_on \<longrightarrow> \<not> red (h' p))"
proof -
  let ?x = "ptr nil x"
  have px: "it_parent (h ?x) = p" using dholds_parent [OF d] by simp
  have h: "holds nil rt B h (plug fs (Nd x p ip cp w))" using d by (simp add: dholds_def)
  obtain wl a iw cw wr where wN: "w = Nd wl a iw cw wr" using w by (cases w) auto
  have rw: "it_right (h p) = a" using holds_cell(1) [OF h] wN by (simp add: is_cell_def)
  have cw: "red (h a) = cw" using holds_cell(1) [of nil rt B h "RightOf x p ip cp # fs" wl a iw cw wr] h wN by (simp add: is_cell_def)
  show ?thesis
  proof (cases cw)
    case False
    with cw px rw have "deleteFixup_left nil r ?x h = left_black nil r ?x a h" by (simp add: deleteFixup_left_parts)
    moreover have "gs = []" "del_left x p ip cp (Nd wl a iw False wr) = (t, go_on)" using s wN False by simp_all
    ultimately show ?thesis using left_black_holds [of nil rt B h p ip cp wl a iw wr fs x t go_on r] d wN False by simp
  next
    case True
    let ?h1 = "set_red a False h" let ?h2 = "set_red p True ?h1" let ?k = "leftRotate nil p ?h2"
    from h wN True have "holds nil rt B h (plug (RightOf x p ip cp # fs) (Nd wl a iw True wr))" by simp
    note s1 = holds_set_red [OF this, of False]
    from s1(1) have "holds nil rt B ?h1 (plug fs (Nd x p ip cp (Nd wl a iw False wr)))" by simp
    note s2 = holds_set_red [OF this, of True]
    note s3 = holds_leftRotate [OF s2(1)]
    have n: "?k nil = h nil" unfolding s3(2) s2(2) s1(2) ..
    from inner [of wl a iw wr] wN True obtain wl' v iv wr' where wl: "wl = Nd wl' v iv False wr'" by (cases wl) auto
    have k: "holds nil rt B ?k (plug (LeftOf p ip True wl # LeftOf a iw False wr # fs) x)" using s3(1) by simp
    have d': "dholds nil rt B ?k (LeftOf p ip True wl # LeftOf a iw False wr # fs) x"
      by (rule dholds_step [OF d k n]) simp
    have "it_parent (?k ?x) = p" using dholds_parent [OF d'] by simp
    moreover have "it_right (?k p) = v"
      using holds_cell(1) [of nil rt B ?k "LeftOf a iw False wr # fs" x p ip True wl] k wl by (simp add: is_cell_def)
    ultimately have "deleteFixup_left nil r ?x h = left_black nil r ?x v ?k"
      using cw True px rw by (simp add: deleteFixup_left_parts Let_def del: fun_upd_apply)
    moreover have "gs = [LeftOf a iw False wr]" "del_left x p ip True (Nd wl' v iv False wr') = (t, go_on)" using s wN True wl by simp_all
    ultimately show ?thesis using left_black_holds [of nil rt B ?k p ip True wl' v iv wr' "LeftOf a iw False wr # fs" x t go_on r] d' n wl by simp
  qed
qed


text \<open>The body for a node on the right.\<close>

definition right_final :: "nat \<Rightarrow> nat \<Rightarrow> nat \<Rightarrow> it_heap \<Rightarrow> it_heap" where
  "right_final nil x w h =
     (let h = set_red w (red (h (it_parent (h x)))) h;
          h = set_red (it_parent (h x)) False h;
          h = set_red (it_left (h w)) False h
      in rightRotate nil (it_parent (h x)) h)"

definition right_black :: "nat \<Rightarrow> nat \<Rightarrow> nat \<Rightarrow> nat \<Rightarrow> it_heap \<Rightarrow> nat \<times> it_heap" where
  "right_black nil root_left_node x w h =
     (if \<not> red (h (it_right (h w))) \<and> \<not> red (h (it_left (h w)))
      then (it_parent (h x), set_red w True h)
      else let (w, h) = (if \<not> red (h (it_left (h w)))
                         then let h = leftRotate nil w (set_red w True (set_red (it_right (h w)) False h))
                              in (it_left (h (it_parent (h x))), h)
                         else (w, h))
           in (root_left_node, right_final nil x w h))"

lemma deleteFixup_right_parts:
  "deleteFixup_right nil r x h =
     (let w = it_left (h (it_parent (h x)))
      in if red (h w)
         then let k = rightRotate nil (it_parent (h x)) (set_red (it_parent (h x)) True (set_red w False h))
              in right_black nil r x (it_left (k (it_parent (k x)))) k
         else right_black nil r x w h)"
  unfolding deleteFixup_right_def right_black_def right_final_def Let_def set_red_reads
  by (simp only: if_distrib [of "\<lambda>p. case p of (w, h) \<Rightarrow> f w h" for f] prod.case set_red_reads cong: if_cong)

lemma right_final_holds:
  assumes d: "dholds nil rt B h (RightOf (Nd wr w iw cw wl) p ip cp # fs) x" and wr: "wr \<noteq> Lf"
  shows "holds nil rt B (right_final nil (ptr nil x) w h) (plug fs (Nd (paint False wr) w iw cp (Nd wl p ip False x)))"
    and "right_final nil (ptr nil x) w h nil = h nil"
proof -
  let ?x = "ptr nil x"
  let ?h1 = "set_red w cp h" let ?h2 = "set_red p False ?h1" let ?h3 = "set_red (ptr nil wr) False ?h2"
  have px: "it_parent (h ?x) = p" using dholds_parent [OF d] by simp
  have h: "holds nil rt B h (plug fs (Nd (Nd wr w iw cw wl) p ip cp x))" using d by (simp add: dholds_def)
  then have rp: "red (h p) = cp" using holds_cell(1) by (fastforce simp: is_cell_def)
  from h have "holds nil rt B h (plug (LeftOf p ip cp x # fs) (Nd wr w iw cw wl))" by simp
  note s1 = holds_set_red [OF this, of cp]
  from s1(1) have "holds nil rt B ?h1 (plug fs (Nd (Nd wr w iw cp wl) p ip cp x))" by simp
  note s2 = holds_set_red [OF this, of False]
  from s2(1) have "holds nil rt B ?h2 (plug (LeftOf w iw cp wl # LeftOf p ip False x # fs) wr)" by simp
  note s3 = holds_paint [OF this wr, of False]
  from s3(1) have "holds nil rt B ?h3 (plug fs (Nd (Nd (paint False wr) w iw cp wl) p ip False x))" by simp
  note s4 = holds_rightRotate [OF this]
  have rw: "it_left (h w) = ptr nil wr"
    using holds_cell(1) [of nil rt B h "LeftOf p ip cp x # fs" wr w iw cw wl] h by (simp add: is_cell_def)
  have e: "right_final nil ?x w h = rightRotate nil p ?h3"
    by (simp only: right_final_def Let_def px rp set_red_reads rw)
  show "holds nil rt B (right_final nil ?x w h) (plug fs (Nd (paint False wr) w iw cp (Nd wl p ip False x)))"
    unfolding e using s4(1) .
  show "right_final nil ?x w h nil = h nil" unfolding e s4(2) s3(2) s2(2) s1(2) ..
qed

lemma right_black_holds:
  assumes d: "dholds nil rt B h (RightOf (Nd wr w iw False wl) p ip cp # fs) x"
    and t: "del_right (Nd wr w iw False wl) p ip cp x = (t, go_on)"
  shows "\<exists>h'. right_black nil r (ptr nil x) w h = (if go_on then p else r, h') \<and> holds nil rt B h' (plug fs t) \<and> h' nil = h nil
    \<and> (\<not> go_on \<longrightarrow> \<not> red (h' p))"
proof -
  let ?x = "ptr nil x"
  have px: "it_parent (h ?x) = p" using dholds_parent [OF d] by simp
  have h: "holds nil rt B h (plug (LeftOf p ip cp x # fs) (Nd wr w iw False wl))" using d by (simp add: dholds_def)
  have rr: "red (h (it_left (h w))) = is_red wr" "red (h (it_right (h w))) = is_red wl"
    using holds_cell(1) [OF h] holds_red(1) [of nil rt B h "LeftOf w iw False wl # LeftOf p ip cp x # fs" wr]
      holds_red(1) [of nil rt B h "RightOf wr w iw False # LeftOf p ip cp x # fs" wl] h by (simp_all add: is_cell_def)
  have black: "\<not> red (k p)" if "holds nil rt B k (plug fs (Nd b v iv c (Nd a p ip False x)))" for k a v iv c b
    using holds_cell(1) [of nil rt B k "RightOf b v iv c # fs" a p ip False x] that by (simp add: is_cell_def)
  consider (both) "\<not> is_red wr" "\<not> is_red wl" | (inner) "\<not> is_red wr" "is_red wl" | (outer) "is_red wr" by blast
  then show ?thesis
  proof cases
    case both
    with rr px have "right_black nil r ?x w h = (p, set_red w True h)" by (simp add: right_black_def)
    with both t holds_set_red [OF h, of True] show ?thesis by (auto simp del: fun_upd_apply)
  next
    case outer
    then have "right_black nil r ?x w h = (r, right_final nil ?x w h)" using rr by (simp add: right_black_def)
    moreover have "wr \<noteq> Lf" using outer by auto
    note right_final_holds [OF d this]
    ultimately show ?thesis using outer t black by auto
  next
    case inner
    then obtain a v iv b where wl: "wl = Nd b v iv True a" by (cases wl) auto
    let ?h1 = "set_red v False h" let ?h2 = "set_red w True ?h1" let ?k = "leftRotate nil w ?h2"
    from h wl have "holds nil rt B h (plug (RightOf wr w iw False # LeftOf p ip cp x # fs) (Nd b v iv True a))" by simp
    note s1 = holds_set_red [OF this, of False]
    from s1(1) have "holds nil rt B ?h1 (plug (LeftOf p ip cp x # fs) (Nd wr w iw False (Nd b v iv False a)))" by simp
    note s2 = holds_set_red [OF this, of True]
    note s3 = holds_leftRotate [OF s2(1)]
    have n: "?k nil = h nil" unfolding s3(2) s2(2) s1(2) ..
    have k: "holds nil rt B ?k (plug (RightOf (Nd (Nd wr w iw True b) v iv False a) p ip cp # fs) x)" using s3(1) by simp
    have d': "dholds nil rt B ?k (RightOf (Nd (Nd wr w iw True b) v iv False a) p ip cp # fs) x"
      by (rule dholds_step [OF d k n]) simp
    have "it_parent (?k ?x) = p" using dholds_parent [OF d'] by simp
    moreover have "it_left (?k p) = v"
      using holds_cell(1) [of nil rt B ?k fs "Nd (Nd wr w iw True b) v iv False a" p ip cp x] k by (simp add: is_cell_def)
    moreover have "it_right (h w) = v" using holds_cell(1) [OF h] wl by (simp add: is_cell_def)
    ultimately have "right_black nil r ?x w h = (r, right_final nil ?x v ?k)"
      using inner rr by (simp add: right_black_def Let_def del: fun_upd_apply)
    with right_final_holds [OF d'] n inner wl t black show ?thesis by auto
  qed
qed

lemma deleteFixup_right_holds:
  assumes d: "dholds nil rt B h (RightOf w p ip cp # fs) x" and w: "w \<noteq> Lf"
    and inner: "\<And>wl a iw wr. w = Nd wr a iw True wl \<Longrightarrow> wl \<noteq> Lf \<and> \<not> is_red wl"
    and s: "del_step (RightOf w p ip cp) x = (gs, t, go_on)"
  shows "\<exists>h'. deleteFixup_right nil r (ptr nil x) h = (if go_on then p else r, h') \<and> holds nil rt B h' (plug (gs @ fs) t) \<and> h' nil = h nil
    \<and> (\<not> go_on \<longrightarrow> \<not> red (h' p))"
proof -
  let ?x = "ptr nil x"
  have px: "it_parent (h ?x) = p" using dholds_parent [OF d] by simp
  have h: "holds nil rt B h (plug fs (Nd w p ip cp x))" using d by (simp add: dholds_def)
  obtain wl a iw cw wr where wN: "w = Nd wr a iw cw wl" using w by (cases w) auto
  have rw: "it_left (h p) = a" using holds_cell(1) [OF h] wN by (simp add: is_cell_def)
  have cw: "red (h a) = cw" using holds_cell(1) [of nil rt B h "LeftOf p ip cp x # fs" wr a iw cw wl] h wN by (simp add: is_cell_def)
  show ?thesis
  proof (cases cw)
    case False
    with cw px rw have "deleteFixup_right nil r ?x h = right_black nil r ?x a h" by (simp add: deleteFixup_right_parts)
    moreover have "gs = []" "del_right (Nd wr a iw False wl) p ip cp x = (t, go_on)" using s wN False by simp_all
    ultimately show ?thesis using right_black_holds [of nil rt B h wr a iw wl p ip cp fs x t go_on r] d wN False by simp
  next
    case True
    let ?h1 = "set_red a False h" let ?h2 = "set_red p True ?h1" let ?k = "rightRotate nil p ?h2"
    from h wN True have "holds nil rt B h (plug (LeftOf p ip cp x # fs) (Nd wr a iw True wl))" by simp
    note s1 = holds_set_red [OF this, of False]
    from s1(1) have "holds nil rt B ?h1 (plug fs (Nd (Nd wr a iw False wl) p ip cp x))" by simp
    note s2 = holds_set_red [OF this, of True]
    note s3 = holds_rightRotate [OF s2(1)]
    have n: "?k nil = h nil" unfolding s3(2) s2(2) s1(2) ..
    have "wl \<noteq> Lf" "\<not> is_red wl" using inner [of wr a iw wl] wN True by blast+
    then obtain wl' v iv wr' where wl: "wl = Nd wr' v iv False wl'" by (cases wl) simp_all
    have k: "holds nil rt B ?k (plug (RightOf wl p ip True # RightOf wr a iw False # fs) x)" using s3(1) by simp
    have d': "dholds nil rt B ?k (RightOf wl p ip True # RightOf wr a iw False # fs) x"
      by (rule dholds_step [OF d k n]) simp
    have "it_parent (?k ?x) = p" using dholds_parent [OF d'] by simp
    moreover have "it_left (?k p) = v"
      using holds_cell(1) [of nil rt B ?k "RightOf wr a iw False # fs" wl p ip True x] k wl by (simp add: is_cell_def)
    ultimately have "deleteFixup_right nil r ?x h = right_black nil r ?x v ?k"
      using cw True px rw by (simp add: deleteFixup_right_parts Let_def del: fun_upd_apply)
    moreover have "gs = [RightOf wr a iw False]" "del_right (Nd wr' v iv False wl') p ip True x = (t, go_on)" using s wN True wl by simp_all
    ultimately show ?thesis using right_black_holds [of nil rt B ?k wr' v iv wl' p ip True "RightOf wr a iw False # fs" x t go_on r] d' n wl by simp
  qed
qed

text \<open>One iteration, and the loop with the write after it.\<close>

lemma deleteFixup_body_holds:
  assumes d: "dholds nil rt B h (f # fs) x" and p: "hpath (f # fs) (Suc (bh x))" "cpath (f # fs)"
    and s: "del_step f x = (gs, t, go_on)"
  shows "\<exists>h'. deleteFixup_body nil r (ptr nil x) h = (if go_on then faddr f else r, h') \<and> holds nil rt B h' (plug (gs @ fs) t)
    \<and> h' nil = h nil \<and> (\<not> go_on \<longrightarrow> \<not> red (h' (faddr f)))"
proof -
  have w: "sib f \<noteq> Lf" using p(1) by (cases "sib f") auto
  have "holds nil rt B h (plug fs (mk f x))" using d by (simp add: dholds_def)
  note m = holds_mk [OF this disjI2 [OF w]]
  have px: "it_parent (h (ptr nil x)) = faddr f" using dholds_parent [OF d] by simp
  show ?thesis
  proof (cases f)
    case (LeftOf a ia ca v)
    have k: "wl \<noteq> Lf \<and> \<not> is_red wl" if "v = Nd wl b iw True wr" for wl b iw wr
      using p that unfolding LeftOf by (cases wl) auto
    have "deleteFixup_body nil r (ptr nil x) h = deleteFixup_left nil r (ptr nil x) h"
      unfolding deleteFixup_body_def px m(1) using LeftOf by simp
    moreover have "v \<noteq> Lf" using w LeftOf by simp
    ultimately show ?thesis unfolding LeftOf faddr.simps by (simp only:) (rule deleteFixup_left_holds [OF d [unfolded LeftOf] _ k s [unfolded LeftOf]])
  next
    case (RightOf v a ia ca)
    have k: "wl \<noteq> Lf \<and> \<not> is_red wl" if "v = Nd wr b iw True wl" for wl b iw wr
      using p that unfolding RightOf by (cases wl) auto
    have "deleteFixup_body nil r (ptr nil x) h = deleteFixup_right nil r (ptr nil x) h"
      unfolding deleteFixup_body_def px m(1) using m(3) RightOf by simp
    moreover have "v \<noteq> Lf" using w RightOf by simp
    ultimately show ?thesis unfolding RightOf faddr.simps by (simp only:) (rule deleteFixup_right_holds [OF d [unfolded RightOf] _ k s [unfolded RightOf]])
  qed
qed

lemma del_step_ptr: "del_step f x = (gs, t, True) \<Longrightarrow> ptr nil t = faddr f \<and> t \<noteq> Lf"
proof -
  assume s: "del_step f x = (gs, t, True)"
  have l: "ptr nil t = p \<and> t \<noteq> Lf" if "del_left x p ip c w = (t, True)" for p ip c w
    using that by (cases w) (auto split: if_splits shape.splits)
  have r: "ptr nil t = p \<and> t \<noteq> Lf" if "del_right w p ip c x = (t, True)" for p ip c w
    using that by (cases w) (auto split: if_splits shape.splits)
  from s l r show ?thesis by (cases rule: del_step_cases [of f x]) auto
qed

lemma tip_last: "tip q fs = (if fs = [] then q else faddr (last fs))"
  by (induction fs arbitrary: q rule: paddrs.induct) auto

lemma faddr_last: "fs \<noteq> [] \<Longrightarrow> faddr (last fs) \<in> paddrs fs"
  by (induction fs rule: paddrs.induct) auto

lemma holds_last:
  assumes "holds nil rt B h (plug fs t)" and "fs \<noteq> []"
  shows "red (h (faddr (last fs))) = fred (last fs)"
proof -
  have "ptr nil (plug fs t) = faddr (last fs)" using assms(2) by (simp add: ptr_plug tip_last)
  with holds_red(1) [of nil rt B h "[]" "plug fs t"] assms plug_red [of fs t] show ?thesis by simp
qed

lemma holds_paint_black:
  assumes "holds nil rt B h (plug fs t)"
  shows "holds nil rt B (set_red (ptr nil t) False h) (plug fs (paint False t))"
proof (cases "t = Lf")
  case True
  have "set_red nil False h = h" using assms unfolding holds_plug by (auto simp: fun_eq_iff)
  with True assms show ?thesis by simp
qed (rule holds_paint(1) [OF assms])

lemma deleteFixup_shape:
  assumes "dholds nil rt B h fs x" and "invh x" and "invc (paint False x)" and "hpath fs (Suc (bh x))" and "cpath fs"
    and "r = tip (ptr nil x) fs"
  shows "\<exists>h'. Option.bind (deleteFixupLoop nil r (ptr nil x) h) (\<lambda>(x, h). Some (set_red x False h)) = Some h'
    \<and> holds nil rt B h' (del_up fs x)"
  using assms
proof (induction fs x arbitrary: h rule: del_up.induct)
  case (1 x)
  then have "holds nil rt B h (plug [] x)" by (simp add: dholds_def)
  from holds_paint_black [OF this] "1.prems"(6) show ?case by (subst deleteFixupLoop.simps) simp
next
  case (2 f fs x)
  have H: "holds nil rt B h (plug (f # fs) x)" using "2.prems"(1) unfolding dholds_def by (rule conjunct1)
  note c = holds_red(1) [OF H]
  show ?case
  proof (cases "is_red x")
    case True
    from holds_paint_black [OF H] True c show ?thesis by (subst deleteFixupLoop.simps) simp
  next
    case False
    obtain gs t go_on where s: "del_step f x = (gs, t, go_on)" by (rule prod_cases3)
    have "invc x" using "2.prems"(3) False by (simp add: paint_black)
    note k = del_step_kept [OF "2.prems"(2) this False "2.prems"(4,5) s, unfolded step_kept_def]
    have e: "del_up (f # fs) x = (if go_on \<and> gs = [] then del_up fs t else plug (gs @ fs) (if go_on then paint False t else t))"
      using False s by simp
    have ne: "r \<noteq> ptr nil x"
    proof -
      have "r \<in> paddrs (f # fs)" unfolding "2.prems"(6) using faddr_last [of "f # fs"] by (simp add: tip_last del: paddrs.simps last.simps)
      then show ?thesis using H [unfolded holds_plug] ptr_in [of nil x] by auto
    qed
    obtain h' where h': "deleteFixup_body nil r (ptr nil x) h = (if go_on then faddr f else r, h')"
      "holds nil rt B h' (plug (gs @ fs) t)" "\<not> go_on \<longrightarrow> \<not> red (h' (faddr f))"
      using deleteFixup_body_holds [OF "2.prems"(1,4,5) s] by blast
    have loop: "deleteFixupLoop nil r (ptr nil x) h = deleteFixupLoop nil r (if go_on then faddr f else r) h'"
      using c False ne h'(1) by (subst deleteFixupLoop.simps) simp
    consider (again) "go_on" "gs = []" | (paint) "go_on" "gs \<noteq> []" | (stop) "\<not> go_on" by blast
    then show ?thesis
    proof cases
      case again
      note t = del_step_ptr [OF s [unfolded eqTrueI [OF again(1)]], of nil]
      have "dholds nil rt B h' fs t" using h'(2) t again(2) by (simp add: dholds_def)
      moreover have "r = tip (ptr nil t) fs" using "2.prems"(6) t by (cases f) simp_all
      moreover have "invc (paint False t)" "hpath fs (Suc (bh t))" "cpath fs" "invh t" using k again by simp_all
      ultimately show ?thesis using "2.IH" [OF False s [symmetric] refl] again t e loop by simp
    next
      case paint
      note t = del_step_ptr [OF s [unfolded eqTrueI [OF paint(1)]], of nil]
      have "red (h' (ptr nil t))" using holds_red(1) [OF h'(2)] del_step_red [OF s paint(2,1)] by simp
      then have "deleteFixupLoop nil r (ptr nil t) h' = Some (ptr nil t, h')" by (subst deleteFixupLoop.simps) simp
      with loop paint t e holds_paint_black [OF h'(2)] show ?thesis by (simp del: fun_upd_apply)
    next
      case stop
      have "\<not> red (h' r)"
      proof (cases "fs = []")
        case True
        then have "r = faddr f" using "2.prems"(6) by (cases f) simp_all
        with h'(3) stop show ?thesis by simp
      next
        case False
        then have "r = faddr (last (gs @ fs))" using "2.prems"(6) by (simp add: tip_last)
        moreover have "cpath (gs @ fs)" using k by simp
        ultimately show ?thesis using holds_last [OF h'(2)] cpath_last [of "gs @ fs"] False by simp
      qed
      then have "set_red r False h' = h'" by (auto simp: fun_eq_iff)
      moreover have "deleteFixupLoop nil r r h' = Some (r, h')" by (subst deleteFixupLoop.simps) simp
      ultimately show ?thesis using loop stop e h'(2) by (simp del: fun_upd_apply)
    qed
  qed
qed

end
