(* ===== verification/IntervalOps.thy ===== *)
theory IntervalOps
  imports IntervalRepair
begin

text \<open>
  The operations of an interval tree: they return on every heap that holds a tree, and keep the invariant of the class: the
  red-black invariants, the order of the lower ends and the largest upper ends.
\<close>

subsection \<open>Bringing the largest upper ends up to date\<close>

lemma fixupMaxHigh_path:
  assumes "path nil B h rt q fs" and "max_high (h q) = m" and "pdist fs" and "rt \<notin> paddrs fs" and "nil \<notin> paddrs fs"
    and "max_high (h nil) = B" and "q \<notin> paddrs fs"
  shows "\<exists>h'. fixupMaxHigh rt (up rt fs) h = Some h' \<and> path nil B h' rt q fs \<and> maxes B h' m fs \<and> (\<forall>b. b \<notin> paddrs fs \<longrightarrow> h' b = h b)
    \<and> (\<forall>b. red (h' b) = red (h b))"
  using assms
proof (induction fs arbitrary: q m h rule: paddrs.induct)
  case 1
  then show ?case by (simp add: fixupMaxHigh.simps)
next
  case (2 a i c r fs)
  let ?v = "max (high i) (max m (mh B r))"
  let ?h = "set_max_high a ?v h"
  have c: "is_cell (h a) i c q (ptr nil r) (up rt fs)" "repr nil B h a r" "path nil B h rt a fs" using "2.prems"(1) by simp_all
  have n: "a \<noteq> rt" "a \<notin> paddrs fs" "a \<noteq> nil" "a \<notin> aset r" "a \<noteq> q" "aset r \<inter> paddrs fs = {}" using "2.prems" by auto
  have "max_high (h (ptr nil r)) = mh B r" using max_high_ptr [OF c(2) "2.prems"(6)] .
  with c(1) "2.prems"(2) n(1) have s: "fixupMaxHigh rt a h = fixupMaxHigh rt (up rt fs) ?h"
    by (subst fixupMaxHigh.simps) (simp add: is_cell_def)
  have "path nil B ?h rt a fs" "max_high (?h a) = ?v" "pdist fs" "rt \<notin> paddrs fs" "nil \<notin> paddrs fs" "max_high (?h nil) = B"
    using c(3) n "2.prems" by auto
  from "2.IH" [OF this n(2)] obtain h' where h': "fixupMaxHigh rt (up rt fs) ?h = Some h'" "path nil B h' rt a fs" "maxes B h' ?v fs"
    "\<forall>b. b \<notin> paddrs fs \<longrightarrow> h' b = ?h b" "\<forall>b. red (h' b) = red (?h b)" by blast
  have "repr nil B h' a r = repr nil B ?h a r" by (rule repr_cong) (use h'(4) n(6) in auto)
  with c n h' s show ?case by (auto simp: is_cell_def)
next
  case (3 l a i c fs)
  let ?v = "max (high i) (max (mh B l) m)"
  let ?h = "set_max_high a ?v h"
  have c: "is_cell (h a) i c (ptr nil l) q (up rt fs)" "repr nil B h a l" "path nil B h rt a fs" using "3.prems"(1) by simp_all
  have n: "a \<noteq> rt" "a \<notin> paddrs fs" "a \<noteq> nil" "a \<notin> aset l" "a \<noteq> q" "aset l \<inter> paddrs fs = {}" using "3.prems" by auto
  have "max_high (h (ptr nil l)) = mh B l" using max_high_ptr [OF c(2) "3.prems"(6)] .
  with c(1) "3.prems"(2) n(1) have s: "fixupMaxHigh rt a h = fixupMaxHigh rt (up rt fs) ?h"
    by (subst fixupMaxHigh.simps) (simp add: is_cell_def)
  have "path nil B ?h rt a fs" "max_high (?h a) = ?v" "pdist fs" "rt \<notin> paddrs fs" "nil \<notin> paddrs fs" "max_high (?h nil) = B"
    using c(3) n "3.prems" by auto
  from "3.IH" [OF this n(2)] obtain h' where h': "fixupMaxHigh rt (up rt fs) ?h = Some h'" "path nil B h' rt a fs" "maxes B h' ?v fs"
    "\<forall>b. b \<notin> paddrs fs \<longrightarrow> h' b = ?h b" "\<forall>b. red (h' b) = red (?h b)" by blast
  have "repr nil B h' a l = repr nil B ?h a l" by (rule repr_cong) (use h'(4) n(6) in auto)
  with c n h' s show ?case by (auto simp: is_cell_def)
qed

subsection \<open>Insertion\<close>

lemma descend_path:
  assumes "holds nil rt B h (plug fs t)"
  shows "descend nil h k (up rt fs) (ptr nil t) = Some (up rt (ins_path k fs t))"
  using assms
proof (induction k fs t rule: ins_path.induct)
  case (1 k fs)
  then show ?case by (simp add: descend.simps)
next
  case (2 k fs l a i c r)
  note C = holds_cell [OF "2.prems"]
  show ?case
  proof (cases "k < low i")
    case True
    from 2(1) [OF True] "2.prems" have "descend nil h k a (ptr nil l) = Some (up rt (ins_path k (LeftOf a i c r # fs) l))" by simp
    with C True show ?thesis by (subst ptr.simps, subst descend.simps) (simp add: is_cell_def)
  next
    case False
    from 2(2) [OF False] "2.prems" have "descend nil h k a (ptr nil r) = Some (up rt (ins_path k (RightOf l a i c # fs) r))" by simp
    with C False show ?thesis by (subst ptr.simps, subst descend.simps) (simp add: is_cell_def)
  qed
qed

fun goes_left :: "simtime \<Rightarrow> frame list \<Rightarrow> bool" where
  "goes_left k [] = True"
| "goes_left k (LeftOf a i c r # fs) = (k < low i)"
| "goes_left k (RightOf l a i c # fs) = (\<not> k < low i)"

lemma goes_left_path: "goes_left k fs \<Longrightarrow> goes_left k (ins_path k fs t)"
  by (induction k fs t rule: ins_path.induct) auto

lemma holds_fresh: "a \<notin> aset t \<Longrightarrow> a \<noteq> nil \<Longrightarrow> a \<noteq> rt \<Longrightarrow> holds nil rt B (h(a := v)) t = holds nil rt B h t"
  by (simp add: holds_def)

lemma holds_new_leaf:
  assumes "holds nil rt B h (plug fs Lf)" and "x \<notin> paddrs fs" and "x \<noteq> nil" and "x \<noteq> rt" and "B \<le> high iv"
    and "is_cell (h x) iv False nil nil (up rt fs)" and "max_high (h x) = high iv"
  shows "\<exists>h'. fixupMaxHigh rt (up rt fs) (link rt fs x h) = Some h' \<and> holds nil rt B h' (plug fs (Nd Lf x iv False Lf))"
proof -
  note H = assms(1) [unfolded holds_plug]
  let ?h = "link rt fs x h"
  have n: "pdist fs" "rt \<notin> paddrs fs" "nil \<notin> paddrs fs" "nil \<noteq> rt" using H by simp_all
  have p: "path nil B ?h rt x fs" using H by (intro link_path [of nil B h rt nil]) simp_all
  have x: "?h x = h x" "?h nil = h nil" using assms(2-4) n by (simp_all add: link_away)
  obtain h' where h': "fixupMaxHigh rt (up rt fs) ?h = Some h'" "path nil B h' rt x fs" "maxes B h' (high iv) fs"
    "\<forall>b. b \<notin> paddrs fs \<longrightarrow> h' b = ?h b" "\<forall>b. red (h' b) = red (?h b)"
    using fixupMaxHigh_path [OF p, of "high iv"] assms(2,7) x n H by auto
  have "it_left (?h rt) = tip x fs" "it_right (?h rt) = nil" using link_root [of rt fs h nil x] n H by simp_all
  moreover have "mh B (Nd Lf x iv False Lf) = high iv" using assms(5) by simp
  ultimately have "holds nil rt B h' (plug fs (Nd Lf x iv False Lf))"
    unfolding holds_plug using H h' n x assms(2-7) by simp
  with h'(1) show ?thesis by blast
qed

text \<open>The invariant of an interval tree, and its shape.\<close>

definition tree_inv :: "interval_tree \<Rightarrow> shape \<Rightarrow> bool" where
  "tree_inv t T \<longleftrightarrow> holds (it_nil t) (it_root t) (- it_maxTime t) (cells t) T \<and> rbt T \<and> by_low (nodes T)
     \<and> it_nil t < it_free t \<and> it_root t < it_free t \<and> (\<forall>a\<in>aset T. a < it_free t)"

lemma aset_nodes: "aset t = fst ` set (nodes t)"
  by (induction t) auto

lemma it_insert_shape:
  assumes i: "tree_inv t T" and h: "- it_maxTime t \<le> high iv"
  shows "\<exists>t'. it_insert iv t = Some (it_free t, t') \<and> tree_inv t' (ins_shape (it_free t) iv T) \<and> it_maxTime t' = it_maxTime t
    \<and> it_free t' = Suc (it_free t)"
proof -
  let ?nil = "it_nil t" and ?rt = "it_root t" and ?x = "it_free t" and ?B = "- it_maxTime t"
  let ?h0 = "(cells t)(?x := new_itnode ?nil iv)"
  let ?fs = "ins_path (low iv) [] T"
  have T: "plug ?fs Lf = T" using ins_path_plug [of "low iv" "[]" T] by simp
  have x: "?x \<notin> aset T" "?x \<noteq> ?nil" "?x \<noteq> ?rt" using i by (auto simp: tree_inv_def)
  have H: "holds ?nil ?rt ?B ?h0 T" using i x by (simp add: tree_inv_def holds_fresh)
  let ?h1 = "set_left ?x ?nil (set_right ?x ?nil ?h0)"
  have h1: "?h1 = ?h0" by (simp add: new_itnode_def fun_eq_iff)
  let ?y = "up ?rt ?fs" let ?h2 = "set_parent ?x ?y ?h0"
  have d: "descend ?nil ?h0 (low iv) ?rt (it_left (?h0 ?rt)) = Some ?y"
    using descend_path [of ?nil ?rt ?B ?h0 "[]" T "low iv"] H by (simp add: holds_def)
  have H2: "holds ?nil ?rt ?B ?h2 (plug ?fs Lf)" unfolding T using H x by (subst holds_fresh) simp_all
  have p: "?x \<notin> paddrs ?fs" using x(1) aset_plug [of ?fs Lf] T by simp
  have l: "(if ?y = ?rt \<or> it_key (?h2 ?x) < it_key (?h2 ?y) then set_left ?y ?x ?h2 else set_right ?y ?x ?h2) = link ?rt ?fs ?x ?h2"
    using goes_left_path [of "low iv" "[]" T] H2 p unfolding holds_plug
    by (cases ?fs rule: paddrs.cases) (auto simp: is_cell_def new_itnode_def)
  have r: "recursiveInsert ?nil ?rt ?x ?h0 = Some (link ?rt ?fs ?x ?h2)"
    unfolding recursiveInsert_def Let_def h1 using d l by (simp add: new_itnode_def)
  have c: "is_cell (?h2 ?x) iv False ?nil ?nil ?y" "max_high (?h2 ?x) = high iv" by (simp_all add: new_itnode_def is_cell_def)
  obtain h3 where h3: "fixupMaxHigh ?rt ?y (link ?rt ?fs ?x ?h2) = Some h3" "holds ?nil ?rt ?B h3 (plug ?fs (Nd Lf ?x iv False Lf))"
    using holds_new_leaf [OF H2 p x(2,3) h c] by blast
  have y: "it_parent (link ?rt ?fs ?x ?h2 ?x) = ?y" by simp
  have "cpath ?fs" using i invc_plugD [of ?fs Lf] by (simp add: T tree_inv_def rbt_def)
  with insertFixup_shape [OF holds_set_red(1) [OF h3(2), of True]] obtain h4 where
    h4: "insertFixup ?nil ?x (set_red ?x True h3) = Some h4" "holds ?nil ?rt ?B h4 (ins_up ?fs (Nd Lf ?x iv True Lf))" by auto
  have ne: "ins_up ?fs (Nd Lf ?x iv True Lf) \<noteq> Lf"
    using ins_up_nodes [of "Nd Lf ?x iv True Lf" ?fs] by (auto simp: nodes_plug)
  from h4(2) have top: "it_left (h4 ?rt) = ptr ?nil (ins_up ?fs (Nd Lf ?x iv True Lf))" by (simp add: holds_def)
  from holds_paint(1) [of ?nil ?rt ?B h4 "[]", OF _ ne] h4(2)
  have h5: "holds ?nil ?rt ?B (set_red (it_left (h4 ?rt)) False h4) (ins_shape ?x iv T)"
    by (simp add: top ins_shape_def)
  let ?t = "t\<lparr>cells := set_red (it_left (h4 ?rt)) False h4, it_free := ?x + 1\<rparr>"
  have "it_insert iv t = Some (?x, ?t)"
    unfolding it_insert_def Let_def r using y h3(1) h4(1) by simp
  moreover obtain xs ys where "nodes T = xs @ ys" "nodes (ins_shape ?x iv T) = xs @ (?x, iv) # ys"
    using ins_shape_nodes(2) i unfolding tree_inv_def by blast
  then have "aset (ins_shape ?x iv T) = insert ?x (aset T)" by (auto simp: aset_nodes)
  then have "tree_inv ?t (ins_shape ?x iv T)"
    using i h5 ins_shape_rbt ins_shape_nodes(1) by (auto simp: tree_inv_def)
  ultimately show ?thesis by auto
qed

end
