(* ===== verification/IntervalDelete.thy ===== *)
theory IntervalDelete
  imports IntervalOps
begin

text \<open>
  Deletion from an interval tree, on the heap: the node that is spliced out, the node that takes the place of the deleted one,
  the repair, and the search for the node of an interval.
\<close>

subsection \<open>Splicing a node out\<close>

lemma up_append: "up e (gs @ fs) = up (up e fs) gs"
  by (cases gs) simp_all

lemma path_append: "path nil B h e q (gs @ fs) \<longleftrightarrow> path nil B h (up e fs) q gs \<and> path nil B h e (tip q gs) fs"
  by (induction gs arbitrary: q rule: paddrs.induct) (auto simp: up_append)

lemma tip_append: "tip q (gs @ fs) = tip (tip q gs) fs"
  by (induction gs arbitrary: q rule: paddrs.induct) auto

lemma paddrs_append: "paddrs (gs @ fs) = paddrs gs \<union> paddrs fs"
  by (induction gs rule: paddrs.induct) auto

lemma pdist_append: "pdist (gs @ fs) \<longleftrightarrow> pdist gs \<and> pdist fs \<and> paddrs gs \<inter> paddrs fs = {}"
  by (induction gs rule: paddrs.induct) (auto simp: paddrs_append)

text \<open>The subtree \<open>X\<close> takes the place of a node that lacks a child.\<close>

lemma splice:
  assumes h: "holds nil rt B h (plug fs (Nd l y iy cy r))" and lr: "l = Lf \<or> r = Lf" and X: "X = (if l = Lf then r else l)"
  defines "h2 \<equiv> link rt fs (ptr nil X) (set_parent (ptr nil X) (up rt fs) h)"
  shows "repr nil B h2 (up rt fs) X" and "path nil B h2 rt (ptr nil X) fs" and "it_left (h2 rt) = tip (ptr nil X) fs"
    and "it_parent (h2 (ptr nil X)) = up rt fs" and "\<And>b. b \<notin> aset X \<Longrightarrow> b \<notin> paddrs fs \<Longrightarrow> b \<noteq> rt \<Longrightarrow> b \<noteq> nil \<Longrightarrow> h2 b = h b"
    and "max_high (h2 b) = max_high (h b)" and "red (h2 b) = red (h b)" and "it_right (h2 rt) = it_right (h rt)"
    and "stored_interval (h2 b) = stored_interval (h b)"
proof -
  note H = h [unfolded holds_plug]
  let ?x = "ptr nil X" and ?k = "set_parent (ptr nil X) (up rt fs) h"
  have s: "aset X \<inter> paddrs fs = {}" "rt \<notin> aset X" "nil \<notin> aset X" "adist X" "nil \<notin> paddrs fs" "rt \<notin> paddrs fs" "nil \<noteq> rt" "pdist fs"
    "path nil B h rt y fs" "repr nil B h y X" "it_left (h rt) = tip y fs"
    using H X by (auto split: if_splits)
  have x: "?x \<notin> paddrs fs" "?x \<noteq> rt" using s ptr_in [of nil X] by auto
  have "repr nil B ?k (up rt fs) X" using reparent [OF s(10,4,3), of "up rt fs"] ptr_aset(1) [OF s(3)] by (cases "X = Lf") auto
  moreover have away: "h2 b = ?k b" if "b \<in> aset X" for b
    unfolding h2_def by (rule link_away) (use that s in auto)
  ultimately show "repr nil B h2 (up rt fs) X" using repr_cong [of X h2 ?k] by blast
  have "path nil B ?k rt y fs" using s(9) x(1) by simp
  then show "path nil B h2 rt ?x fs" unfolding h2_def using s(6,8) by (intro link_path)
  have "it_left (?k rt) = tip y fs" "?k rt = h rt" using x(2) s(11) by simp_all
  with link_root [of rt fs ?k y ?x] s(6) show "it_left (h2 rt) = tip ?x fs" and "it_right (h2 rt) = it_right (h rt)"
    unfolding h2_def by simp_all
  show "it_parent (h2 ?x) = up rt fs" unfolding h2_def by simp
  show "h2 b = h b" if "b \<notin> aset X" "b \<notin> paddrs fs" "b \<noteq> rt" "b \<noteq> nil" for b
  proof -
    have "b \<noteq> ?x" using that ptr_in [of nil X] by auto
    with that show ?thesis unfolding h2_def by (simp add: link_away)
  qed
qed (simp_all add: h2_def)

text \<open>The child pointer of the parent, as the code finds it.\<close>

lemma splice_link:
  assumes h: "holds nil rt B h (plug fs (Nd l y iy cy r))" and k: "it_parent (k x) = up rt fs"
    and "\<And>b. it_parent (k y) = it_parent (h y) \<and> it_left (k b) = it_left (h b)"
  shows "(if rt = it_parent (k x) then set_left rt x k
          else if y = it_left (k (it_parent (k y))) then set_left (it_parent (k y)) x k
          else set_right (it_parent (k y)) x k) = link rt fs x k"
proof -
  note H = h [unfolded holds_plug]
  have y: "it_parent (k y) = up rt fs" using H assms(3) by (simp add: is_cell_def)
  have l: "it_left (k b) = it_left (h b)" for b using assms(3) by blast
  show ?thesis
  proof (cases fs rule: paddrs.cases)
    case 1
    with k show ?thesis by simp
  next
    case (2 a i c r' gs)
    then have "a \<noteq> rt" "it_left (h a) = y" using H by (simp_all add: is_cell_def)
    with k y l 2 show ?thesis by simp
  next
    case (3 l' a i c gs)
    then have "a \<noteq> rt" "it_left (h a) = ptr nil l'" using H by (simp_all add: is_cell_def)
    moreover have "y \<noteq> ptr nil l'" using H 3 by (intro ptr_neq) simp_all
    ultimately show ?thesis using k y l 3 by simp
  qed
qed

text \<open>The largest upper ends above the place.\<close>

lemma splice_max_high:
  assumes p: "path nil B k rt (ptr nil X) fs" "repr nil B k (up rt fs) X" "it_parent (k (ptr nil X)) = up rt fs"
    and d: "adist X" "pdist fs" "aset X \<inter> paddrs fs = {}" "nil \<notin> aset X" "nil \<notin> paddrs fs" "rt \<notin> aset X" "rt \<notin> paddrs fs" "nil \<noteq> rt"
    and r: "\<not> red (k nil)" "max_high (k nil) = B" "\<not> red (k rt)" "it_left (k rt) = tip (ptr nil X) fs" "it_right (k rt) = nil"
      "stored_interval (k rt) = None"
  shows "\<exists>h'. fixupMaxHigh rt (it_parent (k (ptr nil X))) k = Some h' \<and> dholds nil rt B h' fs X
    \<and> (\<forall>b. b \<notin> paddrs fs \<longrightarrow> h' b = k b) \<and> (\<forall>b. red (h' b) = red (k b))"
proof -
  have "ptr nil X \<notin> paddrs fs" using d ptr_in [of nil X] by auto
  then obtain h' where h': "fixupMaxHigh rt (up rt fs) k = Some h'" "path nil B h' rt (ptr nil X) fs" "maxes B h' (mh B X) fs"
    "\<forall>b. b \<notin> paddrs fs \<longrightarrow> h' b = k b" "\<forall>b. red (h' b) = red (k b)"
    using fixupMaxHigh_path [OF p(1) max_high_ptr [OF p(2) r(2)] d(2,7,5) r(2)] by blast
  have "repr nil B h' (up rt fs) X = repr nil B k (up rt fs) X" by (rule repr_cong) (use h'(4) d(3) in auto)
  then have "holds nil rt B h' (plug fs X)" unfolding holds_plug using p d r h' by simp
  moreover have "X = Lf \<longrightarrow> it_parent (h' nil) = up rt fs" using p(3) h'(4) d(5) by auto
  ultimately show ?thesis using h' p(3) by (auto simp: dholds_def)
qed

subsection \<open>The repair\<close>

lemma delete_tail:
  assumes d: "dholds nil rt B h fs X" and b: "rbt (plug fs (Nd l a i c r))" and X: "X = (if l = Lf then r else l)" and lr: "l = Lf \<or> r = Lf"
  shows "\<exists>h'. (if \<not> c then it_deleteFixup nil rt (ptr nil X) h else Some h) = Some h' \<and> holds nil rt B h' (cut fs c X)"
proof (cases c)
  case True
  with d show ?thesis by (simp add: cut_def dholds_def)
next
  case False
  have k: "invh (Nd l a i c r)" "hpath fs (bh (Nd l a i c r))" "invc (Nd l a i c r)" "cpath fs"
    using b invc_plugD [of fs "Nd l a i c r"] unfolding rbt_def invh_plug by blast+
  have x: "invh X" "invc (paint False X)" "hpath fs (Suc (bh X))" using k False X lr by (auto simp: invc_paint split: if_splits)
  have "it_left (h rt) = tip (ptr nil X) fs" using d by (simp add: dholds_def holds_plug)
  from deleteFixup_shape [OF d x k(4) refl] False show ?thesis unfolding it_deleteFixup_def \<open>it_left (h rt) = _\<close> by (simp add: cut_def)
qed
subsection \<open>The successor\<close>

lemma getMinimum_path:
  assumes "holds nil rt B h (plug fs t)" and "t \<noteq> Lf" and "min_node t = ((y, iy), cy, yr)"
  shows "getMinimum nil h (ptr nil t) = Some y"
  using assms
proof (induction t arbitrary: fs)
  case (Nd l a i c r)
  note C = holds_cell [OF Nd.prems(1)]
  have nl: "nil \<notin> aset l" using Nd.prems(1) by (simp add: holds_plug)
  show ?case
  proof (cases "l = Lf")
    case True
    with C Nd.prems(3) show ?thesis by (subst getMinimum.simps) (simp add: is_cell_def)
  next
    case False
    with Nd.IH(1) [of "LeftOf a i c r # fs"] Nd.prems have "getMinimum nil h (ptr nil l) = Some y" by simp
    with False nl C ptr_aset(1) [of nil l] show ?thesis by (subst getMinimum.simps) (simp add: is_cell_def)
  qed
qed simp

text \<open>The right subtree of a node, from whose place its leftmost node was spliced out, under another parent.\<close>

lemma reroot:
  fixes y :: nat
  assumes r: "repr nil B h (up z gs) X" and p: "path nil B h z (ptr nil X) gs"
    and d: "adist X" "nil \<notin> aset X" "pdist gs" "aset X \<inter> paddrs gs = {}" "nil \<notin> paddrs gs"
    and x: "it_parent (h (ptr nil X)) = up z gs"
  defines "k \<equiv> set_parent (tip (ptr nil X) gs) y h"
  shows "repr nil B k (up y gs) X" and "path nil B k y (ptr nil X) gs" and "it_parent (k (ptr nil X)) = up y gs"
proof -
  have "repr nil B k (up y gs) X \<and> path nil B k y (ptr nil X) gs \<and> it_parent (k (ptr nil X)) = up y gs"
  proof (cases gs rule: rev_cases)
    case Nil
    have "repr nil B k y X"
    proof (cases "X = Lf")
      case False
      with reparent [OF r d(1,2), of y] ptr_aset(1) [OF d(2)] Nil show ?thesis by (simp add: k_def)
    qed simp
    with Nil show ?thesis by (simp add: k_def)
  next
    case (snoc as f)
    have t: "tip (ptr nil X) gs = faddr f" using snoc by (simp add: tip_last)
    then have k: "k = set_parent (faddr f) y h" by (simp only: k_def)
    have u: "up v gs = up (faddr f) as" for v using snoc by (simp add: up_append)
    have f: "faddr f \<in> paddrs gs" using faddr_last [of gs] snoc by simp
    have a: "faddr f \<notin> paddrs as" using d(3) [unfolded snoc pdist_append] by (cases f) simp_all
    have n: "faddr f \<notin> aset X" "ptr nil X \<noteq> faddr f" using d(4,5) f ptr_in [of nil X] by auto
    have "path nil B h (faddr f) (ptr nil X) as" "path nil B h z (tip (ptr nil X) as) [f]"
      using p snoc by (simp_all add: path_append)
    moreover have "faddr f \<notin> aset (sib f)" using d(3) [unfolded snoc pdist_append] by (cases f) simp_all
    ultimately have "path nil B k y (ptr nil X) gs"
      using a unfolding k snoc by (cases f) (simp_all add: path_append is_cell_def)
    with r x n show ?thesis unfolding k u by simp
  qed
  then show "repr nil B k (up y gs) X" and "path nil B k y (ptr nil X) gs" and "it_parent (k (ptr nil X)) = up y gs" by blast+
qed

text \<open>The spliced out node takes the place of the node to delete.\<close>

definition takeover :: "simtime \<Rightarrow> nat \<Rightarrow> nat \<Rightarrow> it_heap \<Rightarrow> it_heap" where
  "takeover M z y h =
     (let h = set_max_high y (- M) h;
          h = set_left y (it_left (h z)) h;
          h = set_right y (it_right (h z)) h;
          h = set_parent y (it_parent (h z)) h;
          h = set_parent (it_right (h z)) y h;
          h = set_parent (it_left (h z)) y h
      in relink z y h)"

lemma takeover_writes:
  assumes "it_left (h z) = l" and "it_right (h z) = w" and "it_parent (h z) = u" and "z \<noteq> y" and "z \<noteq> w" and "z \<noteq> l"
  shows "takeover M z y h = relink z y (set_parent l y (set_parent w y
    (h(y := (h y)\<lparr>max_high := - M, it_left := l, it_right := w, it_parent := u\<rparr>))))"
proof -
  have e: "set_parent y u (set_right y w (set_left y l (set_max_high y (- M) h)))
    = h(y := (h y)\<lparr>max_high := - M, it_left := l, it_right := w, it_parent := u\<rparr>)" by (simp add: fun_eq_iff)
  have r: "(k(y := v)) z = k z" "(k(w := v)) z = k z" "(k(l := v)) z = k z" for k :: it_heap and v using assms(4-6) by simp_all
  show ?thesis unfolding takeover_def Let_def r assms(1-3) e ..
qed

text \<open>The deletion of a node with two children, up to the repair.\<close>

lemma takeover_holds:
  fixes M :: simtime
  assumes h: "holds nil rt B h (plug fs (Nd l z iz cz r))" and lr: "l \<noteq> Lf" "r \<noteq> Lf" and m: "min_node r = ((y, iy), cy, yr)"
  defines "gs \<equiv> min_path [] r"
  defines "gfs \<equiv> gs @ RightOf l z iz cz # fs"
  defines "x \<equiv> ptr nil yr"
  defines "k \<equiv> takeover M z y (link rt gfs x (set_parent x (up rt gfs) h))"
  shows "\<exists>h'. fixupMaxHigh rt (it_parent (k x)) k = Some h' \<and> dholds nil rt B h' (gs @ RightOf l y iy cy # fs) yr
    \<and> red (h' y) = cy \<and> red (h' z) = cz"
proof -
  have "plug gfs (Nd Lf y iy cy yr) = plug fs (Nd l z iz cz r)"
    using min_path_node [OF lr(2) m, of "[]"] unfolding gfs_def gs_def by simp
  with h have h0: "holds nil rt B h (plug gfs (Nd Lf y iy cy yr))" by simp
  note H = h0 [unfolded holds_plug]
  define h2 where "h2 = link rt gfs x (set_parent x (up rt gfs) h)"
  note s = splice [OF h0 disjI1 [OF refl] refl, unfolded if_P [OF refl], folded x_def, folded h2_def]
  define w where "w = tip x gs"
  define l0 where "l0 = ptr nil l"
  let ?u = "up rt fs"
  have d: "z \<notin> aset l" "z \<notin> paddrs fs" "aset l \<inter> paddrs fs = {}" "pdist fs" "adist l" "pdist gs"
    "z \<notin> paddrs gs" "aset l \<inter> paddrs gs = {}" "paddrs gs \<inter> paddrs fs = {}"
    using H unfolding gfs_def pdist_append by auto
  have dy: "y \<notin> paddrs gs" "y \<noteq> z" "y \<notin> aset l" "y \<notin> paddrs fs" "y \<notin> aset yr" "y \<noteq> nil" "y \<noteq> rt" "y \<notin> paddrs gfs"
    using H unfolding gfs_def paddrs_append by auto
  have dx: "aset yr \<inter> paddrs gs = {}" "z \<notin> aset yr" "aset yr \<inter> aset l = {}" "aset yr \<inter> paddrs fs = {}" "adist yr"
    using H unfolding gfs_def paddrs_append by auto
  have dn: "nil \<notin> aset yr" "nil \<notin> paddrs gs" "nil \<noteq> z" "nil \<notin> aset l" "nil \<notin> paddrs fs" "nil \<noteq> rt"
    and dr: "rt \<notin> aset yr" "rt \<notin> paddrs gs" "rt \<noteq> z" "rt \<notin> aset l" "rt \<notin> paddrs fs"
    using H unfolding gfs_def paddrs_append by auto
  have w: "w = nil \<or> w \<in> aset yr \<or> w \<in> paddrs gs"
    unfolding w_def tip_last x_def using ptr_in [of nil yr] faddr_last [of gs] by auto
  have x: "x = nil \<or> x \<in> aset yr" unfolding x_def by (rule ptr_in)
  have l0: "l0 \<in> aset l" unfolding l0_def by (rule ptr_aset(2) [OF lr(1)])
  have n: "z \<noteq> w" "z \<noteq> l0" "y \<noteq> w" "y \<noteq> l0" "rt \<noteq> w" "rt \<noteq> l0" "nil \<noteq> l0" "x \<noteq> l0" "x \<noteq> y" "x \<noteq> rt" "z \<noteq> rt" "w \<notin> aset l" "w \<notin> paddrs fs"
    "l0 \<notin> paddrs fs" "l0 \<notin> paddrs gs" "l0 \<notin> aset yr" "x \<notin> paddrs fs" "w \<noteq> l0"
    using w x l0 d dy dx dn dr by auto
  have p: "path nil B h2 z x gs" "is_cell (h2 z) iz cz l0 w ?u" "repr nil B h2 z l" "path nil B h2 rt z fs"
    using s(2) by (simp_all add: gfs_def path_append w_def l0_def)
  have uz: "up rt gfs = up z gs" by (simp add: gfs_def up_append)
  let ?k1 = "h2(y := (h2 y)\<lparr>max_high := - M, it_left := l0, it_right := w, it_parent := ?u\<rparr>)"
  let ?k2 = "set_parent w y ?k1"
  let ?k3 = "set_parent l0 y ?k2"
  have k: "k = relink z y ?k3"
    unfolding k_def h2_def [symmetric] using p(2) dy(2) n(1,2) by (intro takeover_writes) (simp_all add: is_cell_def)
  have k1: "repr nil B ?k1 (up z gs) yr" "path nil B ?k1 z x gs" "repr nil B ?k1 z l" "path nil B ?k1 rt z fs" "it_parent (?k1 x) = up z gs"
    using s(1,4) p dy n(9) uz by simp_all
  note k2 = reroot [OF k1(1) k1(2) [unfolded x_def] dx(5) dn(1) d(6) dx(1) dn(2) k1(5) [unfolded x_def], folded x_def, folded w_def]
  have k2': "repr nil B ?k2 z l" "path nil B ?k2 rt z fs" using k1(3,4) n(12,13) by (simp_all del: fun_upd_apply)
  have k3: "repr nil B ?k3 (up y gs) yr" "path nil B ?k3 y x gs" "path nil B ?k3 rt z fs" "it_parent (?k3 x) = up y gs"
    using k2(1-3) [of y] k2'(2) n(8,14-16) by (simp_all del: fun_upd_apply add: fun_upd_other)
  have k3': "repr nil B ?k3 y l" using reparent [OF k2'(1) d(5) dn(4), of y] n(7) unfolding l0_def by (simp del: fun_upd_apply)
  have kz: "?k3 z = h2 z" "?k3 rt = h2 rt" using dy(2) n(1,2,5,6) dy(7) by simp_all
  have ky: "?k3 y = (h2 y)\<lparr>max_high := - M, it_left := l0, it_right := w, it_parent := ?u\<rparr>" using n(3,4) by simp
  define k3h where "k3h = ?k3"
  note k3 = k3 [folded k3h_def] and k3' = k3' [folded k3h_def] and kz = kz [folded k3h_def] and ky = ky [folded k3h_def]
  have kn: "max_high (k3h nil) = max_high (h2 nil)" "red (k3h nil) = red (h2 nil)" using dy(6) by (simp_all add: k3h_def)
  have top: "it_left (k3h rt) = tip z fs" using s(3) unfolding kz by (simp add: gfs_def tip_append)
  have "relink z y k3h = link rt fs y k3h"
    by (rule relink_link [OF k3(3) top]) (use dn(3) d(2) kz p(2) in \<open>simp_all add: is_cell_def del: fun_upd_apply\<close>)
  then have kl: "k = link rt fs y k3h" unfolding k k3h_def [symmetric] .
  have away: "k b = k3h b" if "b \<notin> paddrs fs" "b \<noteq> rt" for b unfolding kl by (rule link_away [OF that])
  have K1: "repr nil B k (up y gs) yr"
    by (rule repr_cong [THEN iffD1, OF _ k3(1)], rule away [symmetric]) (use dx dr in auto)
  have K2: "path nil B k y x gs"
    by (rule path_cong [THEN iffD1, OF _ k3(2)], rule away [symmetric]) (use d dr in auto)
  have K3: "repr nil B k y l"
    by (rule repr_cong [THEN iffD1, OF _ k3'], rule away [symmetric]) (use d dr in auto)
  have K4: "path nil B k rt y fs" unfolding kl by (rule link_path [OF k3(3) d(4) dr(5)])
  have K5: "it_parent (k x) = up y gs" using k3(4) unfolding away [OF n(17,10)] .
  have Ky: "k y = (h2 y)\<lparr>max_high := - M, it_left := l0, it_right := w, it_parent := ?u\<rparr>" unfolding away [OF dy(4,7)] ky ..
  have "h2 y = h y" using s(5) [OF dy(5,8,7,6)] .
  then have K6: "is_cell (k y) iy cy l0 w ?u" unfolding Ky using H by (simp add: is_cell_def)
  have K7: "k z = h2 z" unfolding away [OF d(2) n(11)] kz ..
  have Kr: "it_left (k rt) = tip y fs" "it_right (k rt) = it_right (h rt)" "red (k rt) = red (h rt)" "stored_interval (k rt) = stored_interval (h rt)"
    using link_root [of rt fs k3h z y, OF dr(5) top] s(7-9) unfolding kl by (simp_all add: kz del: fun_upd_apply)
  have Kn: "max_high (k nil) = max_high (h nil)" "red (k nil) = red (h nil)"
    using s(6,7) kn unfolding away [OF dn(5) dn(6)] by simp_all
  let ?new = "gs @ RightOf l y iy cy # fs"
  have P: "path nil B k rt (ptr nil yr) ?new" unfolding path_append using K2 K6 K3 K4 by (simp add: x_def w_def l0_def)
  have U: "up rt ?new = up y gs" by (simp add: up_append)
  have A: "pdist ?new" "paddrs ?new = insert y (aset l \<union> paddrs gs \<union> paddrs fs)"
    using d dy unfolding pdist_append paddrs_append by auto
  have "\<exists>h'. fixupMaxHigh rt (it_parent (k (ptr nil yr))) k = Some h' \<and> dholds nil rt B h' ?new yr
    \<and> (\<forall>b. b \<notin> paddrs ?new \<longrightarrow> h' b = k b) \<and> (\<forall>b. red (h' b) = red (k b))"
  proof (rule splice_max_high [OF P])
    show "repr nil B k (up rt ?new) yr" "it_parent (k (ptr nil yr)) = up rt ?new" unfolding U using K1 K5 by (simp_all add: x_def)
    show "aset yr \<inter> paddrs ?new = {}" "nil \<notin> paddrs ?new" "rt \<notin> paddrs ?new" unfolding A using dx dy dn dr by auto
    show "it_left (k rt) = tip (ptr nil yr) ?new" using Kr by (simp add: tip_append)
    show "\<not> red (k nil)" "max_high (k nil) = B" "\<not> red (k rt)" "it_right (k rt) = nil" "stored_interval (k rt) = None"
      using Kn Kr H by simp_all
  qed (use dx dn dr A in auto)
  then obtain h' where h': "fixupMaxHigh rt (it_parent (k x)) k = Some h'" "dholds nil rt B h' ?new yr" "\<forall>b. red (h' b) = red (k b)"
    unfolding x_def by blast
  moreover have "red (h' y) = cy" "red (h' z) = cz" using h'(3) K6 K7 p(2) by (simp_all add: is_cell_def)
  ultimately show ?thesis by blast
qed

subsection \<open>Deleting a node\<close>

lemma it_deleteNode_takeover:
  "it_deleteNode z t =
     (let nil = it_nil t; rt = it_root t; h = cells t
      in Option.bind (if it_left (h z) = nil \<or> it_right (h z) = nil then Some z else getSuccessor nil h z)
           (\<lambda>y. let x = (if it_left (h y) = nil then it_right (h y) else it_left (h y));
                    k = set_parent x (it_parent (h y)) h;
                    k = (if rt = it_parent (k x) then set_left rt x k
                         else if y = it_left (k (it_parent (k y))) then set_left (it_parent (k y)) x k
                         else set_right (it_parent (k y)) x k)
                in if y \<noteq> z
                   then let k = takeover (it_maxTime t) z y k
                        in Option.bind (fixupMaxHigh rt (it_parent (k x)) k)
                             (\<lambda>h. Option.bind (if \<not> red (h y) then it_deleteFixup nil rt x (set_red y (red (h z)) h)
                                               else Some (set_red y (red (h z)) h))
                                (\<lambda>k. Some (stored_interval (cells t z), t\<lparr>cells := k\<rparr>)))
                   else Option.bind (fixupMaxHigh rt (it_parent (k x)) k)
                          (\<lambda>h. Option.bind (if \<not> red (h y) then it_deleteFixup nil rt x h else Some h)
                             (\<lambda>k. Some (stored_interval (cells t z), t\<lparr>cells := k\<rparr>)))))"
  unfolding it_deleteNode_def takeover_def Let_def ..

text \<open>The node lacks a child, or it does not: the heap after the repair holds the tree without the node.\<close>

lemma it_deleteNode_one:
  assumes h: "holds nil rt B h (plug fs (Nd l z iz cz r))" and b: "rbt (plug fs (Nd l z iz cz r))" and lr: "l = Lf \<or> r = Lf"
    and t: "it_nil t = nil" "it_root t = rt" "cells t = h"
  shows "\<exists>h'. it_deleteNode z t = Some (Some iz, t\<lparr>cells := h'\<rparr>) \<and> holds nil rt B h' (del_at fs (Nd l z iz cz r))"
proof -
  define X where "X = (if l = Lf then r else l)"
  let ?x = "ptr nil X" and ?u = "up rt fs"
  define k where "k = link rt fs ?x (set_parent ?x ?u h)"
  note H = h [unfolded holds_plug]
  note s = splice [OF h lr X_def, folded k_def]
  have nl: "nil \<notin> aset l" "nil \<notin> aset r" using H by simp_all
  have C: "is_cell (h z) iz cz (ptr nil l) (ptr nil r) ?u" using H by simp
  have c: "it_left (h z) = nil \<or> it_right (h z) = nil" using lr C by (auto simp: is_cell_def)
  have x: "(if it_left (h z) = nil then it_right (h z) else it_left (h z)) = ?x"
    using C ptr_aset(1) [OF nl(1)] by (auto simp: is_cell_def X_def)
  have p: "it_parent (h z) = ?u" "stored_interval (h z) = Some iz" using C by (simp_all add: is_cell_def)
  have zx: "z \<noteq> ?x" using H ptr_in [of nil X] X_def by (auto split: if_splits)
  have L: "(if rt = it_parent (set_parent ?x ?u h ?x) then set_left rt ?x (set_parent ?x ?u h)
      else if z = it_left (set_parent ?x ?u h (it_parent (set_parent ?x ?u h z))) then set_left (it_parent (set_parent ?x ?u h z)) ?x (set_parent ?x ?u h)
      else set_right (it_parent (set_parent ?x ?u h z)) ?x (set_parent ?x ?u h)) = k"
    unfolding k_def by (rule splice_link [OF h]) (use zx in simp_all)
  have d: "adist X" "pdist fs" "aset X \<inter> paddrs fs = {}" "nil \<notin> aset X" "nil \<notin> paddrs fs" "rt \<notin> aset X" "rt \<notin> paddrs fs" "nil \<noteq> rt"
    "z \<notin> aset X" "z \<notin> paddrs fs" "z \<noteq> rt" "z \<noteq> nil" "\<not> red (h nil)" "max_high (h nil) = B" "\<not> red (h rt)" "it_right (h rt) = nil"
    "stored_interval (h rt) = None"
    using H X_def by (auto split: if_splits)
  obtain h' where h': "fixupMaxHigh rt (it_parent (k ?x)) k = Some h'" "dholds nil rt B h' fs X" "\<forall>b. red (h' b) = red (k b)"
    using splice_max_high [OF s(2,1,4) d(1-8) _ _ _ s(3)] s(6-9) d(13-17) by auto
  have "red (h' z) = cz" using h'(3) s(7) C by (simp add: is_cell_def)
  moreover obtain h'' where h'': "(if \<not> cz then it_deleteFixup nil rt ?x h' else Some h') = Some h''" "holds nil rt B h'' (cut fs cz X)"
    using delete_tail [OF h'(2) b X_def lr] by blast
  moreover have "cut fs cz X = del_at fs (Nd l z iz cz r)" using lr by (auto simp: del_at_def X_def)
  moreover have "it_deleteNode z t = Option.bind (fixupMaxHigh rt (it_parent (k ?x)) k)
     (\<lambda>h. Option.bind (if \<not> red (h z) then it_deleteFixup nil rt ?x h else Some h) (\<lambda>k. Some (Some iz, t\<lparr>cells := k\<rparr>)))"
    unfolding it_deleteNode_takeover Let_def t if_P [OF c] bind.bind_lunit x p L by simp
  ultimately show ?thesis using h'(1) by auto
qed

lemma it_deleteNode_two:
  assumes h: "holds nil rt B h (plug fs (Nd l z iz cz r))" and b: "rbt (plug fs (Nd l z iz cz r))" and lr: "l \<noteq> Lf" "r \<noteq> Lf"
    and t: "it_nil t = nil" "it_root t = rt" "cells t = h"
  shows "\<exists>h'. it_deleteNode z t = Some (Some iz, t\<lparr>cells := h'\<rparr>) \<and> holds nil rt B h' (del_at fs (Nd l z iz cz r))"
proof -
  obtain y iy cy yr where m: "min_node r = ((y, iy), cy, yr)" by (metis prod.exhaust)
  define gs where "gs = min_path [] r"
  define gfs where "gfs = gs @ RightOf l z iz cz # fs"
  let ?x = "ptr nil yr" and ?u = "up rt gfs" and ?new = "gs @ RightOf l y iy cy # fs" and ?fin = "gs @ RightOf l y iy cz # fs"
  have g: "plug gs (Nd Lf y iy cy yr) = r" using min_path_node [OF lr(2) m, of "[]"] by (simp add: gs_def)
  then have h0: "holds nil rt B h (plug gfs (Nd Lf y iy cy yr))" using h by (simp add: gfs_def)
  note H = h0 [unfolded holds_plug]
  define k1 where "k1 = link rt gfs ?x (set_parent ?x ?u h)"
  define k where "k = takeover (it_maxTime t) z y k1"
  obtain h' where h': "fixupMaxHigh rt (it_parent (k ?x)) k = Some h'" "dholds nil rt B h' ?new yr" "red (h' y) = cy" "red (h' z) = cz"
    using takeover_holds [OF h lr m, of "it_maxTime t", folded gs_def, folded gfs_def, folded k1_def, folded k_def] by blast
  have C: "is_cell (h z) iz cz (ptr nil l) (ptr nil r) (up rt fs)" using holds_cell(1) [OF h] .
  have Y: "is_cell (h y) iy cy nil ?x ?u" using H by simp
  have nl: "nil \<notin> aset l" "nil \<notin> aset r" "y \<noteq> z" using h H unfolding holds_plug gfs_def paddrs_append by auto
  have c: "\<not> (it_left (h z) = nil \<or> it_right (h z) = nil)" "nil \<noteq> it_right (h z)"
    using C lr nl(1,2) by (auto simp: is_cell_def dest: ptr_aset(1) [THEN iffD2])
  have "getMinimum nil h (ptr nil r) = Some y"
    using getMinimum_path [of nil rt B h "RightOf l z iz cz # fs" r] h lr(2) m by simp
  then have succ: "getSuccessor nil h z = Some y" using c(2) C by (simp add: getSuccessor_def is_cell_def)
  have x: "(if it_left (h y) = nil then it_right (h y) else it_left (h y)) = ?x" "it_parent (h y) = ?u" "stored_interval (h z) = Some iz"
    using Y C by (simp_all add: is_cell_def)
  have yx: "y \<noteq> ?x" using H ptr_in [of nil yr] by auto
  have L: "(if rt = it_parent (set_parent ?x ?u h ?x) then set_left rt ?x (set_parent ?x ?u h)
      else if y = it_left (set_parent ?x ?u h (it_parent (set_parent ?x ?u h y))) then set_left (it_parent (set_parent ?x ?u h y)) ?x (set_parent ?x ?u h)
      else set_right (it_parent (set_parent ?x ?u h y)) ?x (set_parent ?x ?u h)) = k1"
    unfolding k1_def by (rule splice_link [OF h0]) (use yx in simp_all)
  have "holds nil rt B h' (plug (RightOf l y iy cy # fs) (plug gs yr))" using h'(2) by (simp add: dholds_def)
  from holds_set_red(1) [OF this [unfolded plug.simps mk.simps], of cz]
  have "holds nil rt B (set_red y cz h') (plug ?fin yr)" by simp
  moreover have "yr = Lf \<longrightarrow> it_parent (set_red y cz h' nil) = up rt ?fin"
    using h'(2) H by (auto simp: dholds_def up_append)
  ultimately have d: "dholds nil rt B (set_red y cz h') ?fin yr" by (simp add: dholds_def)
  have "rbt (plug fs (Nd l y iy cz r))" using b bh_plug_cong [of "Nd l z iz cz r" "Nd l y iy cz r" fs] by simp
  then have "rbt (plug ?fin (Nd Lf y iy cy yr))" by (simp add: g)
  from delete_tail [OF d this] obtain h'' where
    h'': "(if \<not> cy then it_deleteFixup nil rt ?x (set_red y cz h') else Some (set_red y cz h')) = Some h''" "holds nil rt B h'' (cut ?fin cy yr)"
    by auto
  have "del_at fs (Nd l z iz cz r) = cut ?fin cy yr" using lr m by (simp add: del_at_def gs_def)
  moreover have "it_deleteNode z t = Option.bind (fixupMaxHigh rt (it_parent (k ?x)) k)
     (\<lambda>h. Option.bind (if \<not> red (h y) then it_deleteFixup nil rt ?x (set_red y (red (h z)) h) else Some (set_red y (red (h z)) h))
        (\<lambda>k. Some (Some iz, t\<lparr>cells := k\<rparr>)))"
    unfolding it_deleteNode_takeover Let_def t if_not_P [OF c(1)] succ bind.bind_lunit x L if_P [OF nl(3)] k_def ..
  ultimately show ?thesis using h' h'' by (auto simp del: fun_upd_apply)
qed

lemma it_deleteNode_shape:
  assumes i: "tree_inv t (plug fs (Nd l z iz cz r))"
  shows "\<exists>h'. it_deleteNode z t = Some (Some iz, t\<lparr>cells := h'\<rparr>) \<and> tree_inv (t\<lparr>cells := h'\<rparr>) (del_at fs (Nd l z iz cz r))"
proof -
  let ?T = "plug fs (Nd l z iz cz r)" and ?D = "del_at fs (Nd l z iz cz r)"
  have H: "holds (it_nil t) (it_root t) (- it_maxTime t) (cells t) ?T" and b: "rbt ?T" using i by (simp_all add: tree_inv_def)
  obtain h' where h': "it_deleteNode z t = Some (Some iz, t\<lparr>cells := h'\<rparr>)" "holds (it_nil t) (it_root t) (- it_maxTime t) h' ?D"
    using it_deleteNode_one [OF H b _ refl refl refl] it_deleteNode_two [OF H b _ _ refl refl refl] by blast
  note D = del_at_rbt [OF b]
  have n: "nodes ?T = (before fs @ nodes l) @ (z, iz) # (nodes r @ after fs)" by (simp add: nodes_plug)
  then have "by_low (nodes ?D)" using i D by_low_remove [of "before fs @ nodes l" "(z, iz)" "nodes r @ after fs"] by (simp add: tree_inv_def)
  moreover have "aset ?D \<subseteq> aset ?T" using D n by (auto simp: aset_nodes)
  ultimately have "tree_inv (t\<lparr>cells := h'\<rparr>) ?D" using i h'(2) D by (auto simp: tree_inv_def)
  with h'(1) show ?thesis by blast
qed

subsection \<open>The search for an interval\<close>

lemma recursiveSearch_shape:
  assumes "repr nil B h p T" and "nil \<notin> aset T"
  shows "\<exists>a. recursiveSearch nil h (ptr nil T) iv = Some a
    \<and> (if iv \<in> snd ` set (nodes T) then a \<noteq> nil \<and> (\<exists>gs l c r. T = plug gs (Nd l a iv c r)) else a = nil)"
  using assms
proof (induction T arbitrary: p)
  case Lf
  then show ?case by (subst recursiveSearch.simps) simp
next
  case (Nd l b i c r)
  have C: "stored_interval (h b) = Some i" "it_left (h b) = ptr nil l" "it_right (h b) = ptr nil r" "b \<noteq> nil"
    using Nd.prems by (auto simp: is_cell_def)
  note step = recursiveSearch.simps [of nil h b iv]
  show ?case
  proof (cases "i = iv")
    case True
    moreover have "Nd l b i c r = plug [] (Nd l b i c r)" by simp
    ultimately show ?thesis using step C by (auto intro!: exI [of _ "[]"])
  next
    case i: False
    obtain a where a: "recursiveSearch nil h (ptr nil l) iv = Some a"
      "if iv \<in> snd ` set (nodes l) then a \<noteq> nil \<and> (\<exists>gs l' c r. l = plug gs (Nd l' a iv c r)) else a = nil"
      using Nd.IH(1) [of b] Nd.prems by auto
    obtain a' where a': "recursiveSearch nil h (ptr nil r) iv = Some a'"
      "if iv \<in> snd ` set (nodes r) then a' \<noteq> nil \<and> (\<exists>gs l c r'. r = plug gs (Nd l a' iv c r')) else a' = nil"
      using Nd.IH(2) [of b] Nd.prems by auto
    have s: "recursiveSearch nil h (ptr nil (Nd l b i c r)) iv = Some (if a \<noteq> nil then a else a')"
      using step C i a(1) a'(1) by simp
    show ?thesis
    proof (cases "iv \<in> snd ` set (nodes l)")
      case True
      with a(2) obtain gs l' c' r' where g: "a \<noteq> nil" "l = plug gs (Nd l' a iv c' r')" by (simp only: if_True) blast
      have "Nd l b i c r = plug (gs @ [LeftOf b i c r]) (Nd l' a iv c' r')" using g(2) by simp
      moreover have m: "iv \<in> snd ` set (nodes (Nd l b i c r))" using True by auto
      moreover have e: "recursiveSearch nil h (ptr nil (Nd l b i c r)) iv = Some a" using s g(1) by simp
      ultimately show ?thesis unfolding e if_P [OF m] using g(1) by blast
    next
      case False
      with a(2) have e: "recursiveSearch nil h (ptr nil (Nd l b i c r)) iv = Some a'" using s by simp
      show ?thesis
      proof (cases "iv \<in> snd ` set (nodes r)")
        case True
        with a'(2) obtain gs l' c' r' where g: "a' \<noteq> nil" "r = plug gs (Nd l' a' iv c' r')" by (simp only: if_True) blast
        have "Nd l b i c r = plug (gs @ [RightOf l b i c]) (Nd l' a' iv c' r')" using g(2) by simp
        moreover have m: "iv \<in> snd ` set (nodes (Nd l b i c r))" using True by auto
        ultimately show ?thesis unfolding e if_P [OF m] using g(1) by blast
      next
        case no: False
        with False a'(2) e i show ?thesis by auto
      qed
    qed
  qed
qed

lemma recursiveSearch_root:
  assumes "holds nil rt B h T"
  shows "recursiveSearch nil h rt iv = recursiveSearch nil h (ptr nil T) iv"
proof -
  have H: "rt \<noteq> nil" "stored_interval (h rt) = None" "it_left (h rt) = ptr nil T" "it_right (h rt) = nil" "repr nil B h rt T" "nil \<notin> aset T"
    using assms by (simp_all add: holds_def)
  have "recursiveSearch nil h nil iv = Some nil" by (subst recursiveSearch.simps) simp
  with recursiveSearch_shape [OF H(5,6), of iv] H(1-4) show ?thesis
    by (subst recursiveSearch.simps) (auto split: if_splits)
qed

lemma it_delete_shape:
  assumes i: "tree_inv t T"
  shows "\<exists>t' T'. it_delete iv t = Some t' \<and> tree_inv t' T' \<and> it_maxTime t' = it_maxTime t \<and> it_nil t' = it_nil t \<and> it_root t' = it_root t
    \<and> (if iv \<in> snd ` set (nodes T)
       then \<exists>xs a ys. nodes T = xs @ (a, iv) # ys \<and> nodes T' = xs @ ys else t' = t \<and> T' = T)"
proof -
  let ?nil = "it_nil t"
  have H: "holds ?nil (it_root t) (- it_maxTime t) (cells t) T" using i by (simp add: tree_inv_def)
  then have "repr ?nil (- it_maxTime t) (cells t) (it_root t) T" "?nil \<notin> aset T" by (simp_all add: holds_def)
  from recursiveSearch_shape [OF this, of iv] obtain a where a: "recursiveSearch ?nil (cells t) (it_root t) iv = Some a"
    "if iv \<in> snd ` set (nodes T) then a \<noteq> ?nil \<and> (\<exists>gs l c r. T = plug gs (Nd l a iv c r)) else a = ?nil"
    unfolding recursiveSearch_root [OF H] by blast
  show ?thesis
  proof (cases "iv \<in> snd ` set (nodes T)")
    case False
    with a have "it_delete iv t = Some t" by (simp add: it_delete_def)
    with i False show ?thesis by auto
  next
    case True
    with a(2) obtain gs l c r where T: "a \<noteq> ?nil" "T = plug gs (Nd l a iv c r)" by (simp only: if_True) blast
    from it_deleteNode_shape [OF i [unfolded T(2)]] obtain h' where
      h': "it_deleteNode a t = Some (Some iv, t\<lparr>cells := h'\<rparr>)" "tree_inv (t\<lparr>cells := h'\<rparr>) (del_at gs (Nd l a iv c r))" by blast
    have "rbt (plug gs (Nd l a iv c r))" using i T(2) by (simp add: tree_inv_def)
    from del_at_rbt [OF this] have n: "\<exists>xs b ys. nodes T = xs @ (b, iv) # ys \<and> nodes (del_at gs (Nd l a iv c r)) = xs @ ys"
      by (intro exI [of _ "before gs @ nodes l"] exI [of _ a] exI [of _ "nodes r @ after gs"]) (simp add: T(2) nodes_plug)
    have d: "it_delete iv t = Some (t\<lparr>cells := h'\<rparr>)" using a(1) T(1) h'(1) by (simp add: it_delete_def)
    let ?t = "t\<lparr>cells := h'\<rparr>"
    have "it_maxTime ?t = it_maxTime t" "it_nil ?t = it_nil t" "it_root ?t = it_root t" by simp_all
    with d h'(2) n show ?thesis unfolding if_P [OF True] by blast
  qed
qed

end
