(* ===== verification/IntervalQuery.thy ===== *)
theory IntervalQuery
  imports IntervalDelete
begin

text \<open>
  The query of an interval tree: its loop, with the stack of nodes whose right subtree may have to be visited, is the recursive
  \<open>visit\<close> of theory \<open>IntervalShape\<close>.
\<close>

text \<open>The rest of the loop, from the end of its body.\<close>

definition query_run :: "nat \<Rightarrow> it_heap \<Rightarrow> simtime \<Rightarrow> simtime \<Rightarrow> nat \<Rightarrow> it_recursion_node list \<Rightarrow> nat \<Rightarrow> interval option list
    \<Rightarrow> interval option list option" where
  "query_run nil h lo hi x st cp res = Option.bind (query_unwind nil h x st cp) (\<lambda>s. query_loop nil h lo hi s res)"

definition mark_top :: "bool \<Rightarrow> it_recursion_node list \<Rightarrow> it_recursion_node list" where
  "mark_top b st = (if b then mark_try_right (length st - 1) st else st)"

lemma mark_top_simps [simp]:
  "length (mark_try_right i st) = length st" "mark_top b st = [] \<longleftrightarrow> st = []" "length (mark_top b st) = length st" "mark_top False st = st"
  "mark_top b (mark_top b' st) = mark_top (b \<or> b') st"
  by (cases st rule: rev_cases; auto simp: mark_top_def mark_try_right_def)+

lemma mark_top_snoc: "mark_top b (st @ [f]) = st @ [if b then f\<lparr>try_right_branch := True\<rparr> else f]"
  by (simp add: mark_top_def mark_try_right_def)

lemma query_run_node: "x \<noteq> nil \<Longrightarrow> query_run nil h lo hi x st cp res = query_loop nil h lo hi (x, st, cp) res"
  by (simp add: query_run_def query_unwind.simps)

lemma query_loop_nil [simp]: "query_loop nil h lo hi (nil, st, cp) res = Some res"
  by (simp add: query_loop.simps)

lemma query_run_one: "query_run nil h lo hi nil [f] cp res = Some res"
  by (simp add: query_run_def query_unwind.simps)

lemma query_run_pop: "st \<noteq> [] \<Longrightarrow> query_run nil h lo hi nil (st @ [f]) cp res =
    (if try_right_branch f
     then query_run nil h lo hi (it_right (h (start_node f))) (mark_try_right (parent_index f) st) (parent_index f) res
     else query_run nil h lo hi nil st cp res)"
  unfolding query_run_def query_unwind.simps [of nil h nil "st @ [f]"] by (simp add: Let_def)

text \<open>An index that is out of date is written before it is read.\<close>

lemma query_run_index: "st \<noteq> [] \<Longrightarrow> query_run nil h lo hi nil st cp res = query_run nil h lo hi nil st cp' res"
proof (induction st rule: rev_induct)
  case (snoc f st)
  show ?case
  proof (cases "st = []")
    case True
    then show ?thesis by (simp add: query_run_one)
  next
    case False
    with snoc.IH [OF False] show ?thesis by (simp add: query_run_pop)
  qed
qed simp

lemma query_run_step:
  assumes "x \<noteq> nil" and "st \<noteq> []" and "is_cell (h x) i c (ptr nil l) (ptr nil r) p" and "max_high (h (ptr nil l)) = mh B l"
    and "cp = length st - 1"
  shows "query_run nil h lo hi x st cp res =
    (let ov = interval_overlap lo hi (low i) (high i); st' = mark_top ov st; res' = res @ map Some (if ov then [i] else [])
     in if lo \<le> mh B l
        then query_run nil h lo hi (ptr nil l) (st' @ [\<lparr>start_node = x, parent_index = cp, try_right_branch = False\<rparr>]) (length st) res'
        else query_run nil h lo hi (ptr nil r) st' cp res')"
  using assms unfolding query_run_node [OF assms(1)]
  by (subst query_loop.simps) (simp add: query_step_def query_run_def is_cell_def Let_def mark_top_def)

lemma query_run_visit:
  assumes "repr nil B h p T" and "nil \<notin> aset T" and "max_high (h nil) = B" and "st \<noteq> []"
  shows "query_run nil h lo hi (ptr nil T) st (length st - 1) res
    = query_run nil h lo hi nil (mark_top (visit B lo hi T \<noteq> []) st) cp (res @ map Some (visit B lo hi T))"
  using assms
proof (induction T arbitrary: p st res cp)
  case Lf
  then show ?case using query_run_index by simp
next
  case (Nd l a i c r)
  let ?ov = "interval_overlap lo hi (low i) (high i)"
  let ?st = "mark_top ?ov st" and ?res = "res @ map Some (if ?ov then [i] else [])"
  let ?f = "\<lparr>start_node = a, parent_index = length st - 1, try_right_branch = False\<rparr>"
  have C: "is_cell (h a) i c (ptr nil l) (ptr nil r) p" "repr nil B h a l" "repr nil B h a r" "a \<noteq> nil" "nil \<notin> aset l" "nil \<notin> aset r"
    using Nd.prems by simp_all
  have m: "max_high (h (ptr nil l)) = mh B l" by (rule max_high_ptr [OF C(2) Nd.prems(3)])
  note IHl = Nd.IH(1) [OF C(2,5) Nd.prems(3)] and IHr = Nd.IH(2) [OF C(3,6) Nd.prems(3)]
  note step = query_run_step [OF C(4) Nd.prems(4) C(1) m refl, of lo hi res, unfolded Let_def]
  have right: "it_right (h a) = ptr nil r" using C(1) by (simp add: is_cell_def)
  show ?case
  proof (cases "lo \<le> mh B l")
    case False
    have "?st \<noteq> []" using Nd.prems(4) by simp
    from IHr [OF this, of ?res cp] have e: "query_run nil h lo hi (ptr nil r) ?st (length st - 1) ?res
      = query_run nil h lo hi nil (mark_top (visit B lo hi r \<noteq> []) ?st) cp (?res @ map Some (visit B lo hi r))"
      unfolding mark_top_simps(3) .
    show ?thesis unfolding ptr.simps step if_not_P [OF False] e by (cases ?ov) (simp_all add: False)
  next
    case True
    let ?b = "visit B lo hi l \<noteq> []"
    let ?g = "if ?b then ?f\<lparr>try_right_branch := True\<rparr> else ?f"
    have "query_run nil h lo hi (ptr nil l) (?st @ [?f]) (length st) ?res
      = query_run nil h lo hi nil (?st @ [?g]) cp (?res @ map Some (visit B lo hi l))"
      using IHl [of "?st @ [?f]" ?res cp] by (simp add: mark_top_snoc)
    with step True have s: "query_run nil h lo hi (ptr nil (Nd l a i c r)) st (length st - 1) res
      = query_run nil h lo hi nil (?st @ [?g]) cp (?res @ map Some (visit B lo hi l))" by simp
    show ?thesis
    proof (cases ?b)
      case False
      with s True Nd.prems(4) show ?thesis by (simp add: query_run_pop)
    next
      case b: True
      have "mark_try_right (length st - 1) ?st = mark_top True ?st" by (simp add: mark_top_def)
      then have "mark_try_right (length st - 1) ?st = mark_top True st" by simp
      with s b Nd.prems(4) right have "query_run nil h lo hi (ptr nil (Nd l a i c r)) st (length st - 1) res
        = query_run nil h lo hi (ptr nil r) (mark_top True st) (length st - 1) (?res @ map Some (visit B lo hi l))"
        by (simp add: query_run_pop)
      also have "\<dots> = query_run nil h lo hi nil (mark_top True st) cp (?res @ map Some (visit B lo hi l) @ map Some (visit B lo hi r))"
        using IHr [of "mark_top True st" "?res @ map Some (visit B lo hi l)" cp] Nd.prems(4) by simp
      finally show ?thesis using True b by (simp add: Let_def)
    qed
  qed
qed

lemma it_query_visit:
  assumes "holds (it_nil t) (it_root t) (- it_maxTime t) (cells t) T"
  shows "it_query lo hi t = Some (map Some (visit (- it_maxTime t) lo hi T))"
proof (cases "T = Lf")
  case True
  with assms show ?thesis by (simp add: it_query_def holds_def)
next
  case False
  have H: "repr (it_nil t) (- it_maxTime t) (cells t) (it_root t) T" "it_nil t \<notin> aset T" "max_high (cells t (it_nil t)) = - it_maxTime t"
    "it_left (cells t (it_root t)) = ptr (it_nil t) T"
    using assms by (simp_all add: holds_def)
  let ?s = "[\<lparr>start_node = it_nil t, parent_index = 0, try_right_branch = False\<rparr>]"
  have "ptr (it_nil t) T \<noteq> it_nil t" using False H(2) ptr_aset(1) by blast
  then have "it_query lo hi t = query_run (it_nil t) (cells t) lo hi (ptr (it_nil t) T) ?s (length ?s - 1) []"
    unfolding it_query_def H(4) by (simp add: query_run_node)
  also have "\<dots> = Some (map Some (visit (- it_maxTime t) lo hi T))"
    unfolding query_run_visit [OF H(1-3) list.distinct(2), where cp = 0]
    using mark_top_snoc [of _ "[]"] by (simp add: query_run_one)
  finally show ?thesis .
qed
end
