(* ===== verification/IntervalStore.thy ===== *)
theory IntervalStore
  imports IntervalQuery "HOL-Library.Multiset"
begin

text \<open>
  What the communication cache needs of the intervals of a radio, and that the interval tree gives it: a tree that was built by
  any sequence of insertions and deletions answers every query with the intervals a list of them would give. The tree stays
  balanced, so that a path has at most twice as many nodes as the binary logarithm of their number.
\<close>

subsection \<open>The interface\<close>

datatype store_op = Add interval | Remove interval

text \<open>Intervals that the tree can store: they end no earlier than they begin, nor below the range of the clock.\<close>

definition proper :: "simtime \<Rightarrow> interval \<Rightarrow> bool" where
  "proper M iv \<longleftrightarrow> low iv \<le> high iv \<and> - M \<le> high iv"

fun op_proper :: "simtime \<Rightarrow> store_op \<Rightarrow> bool" where
  "op_proper M (Add iv) = proper M iv"
| "op_proper M (Remove iv) = True"

fun op_step :: "(interval \<Rightarrow> 's \<Rightarrow> 's option) \<Rightarrow> (interval \<Rightarrow> 's \<Rightarrow> 's option) \<Rightarrow> store_op \<Rightarrow> 's \<Rightarrow> 's option" where
  "op_step ins del (Add iv) s = ins iv s"
| "op_step ins del (Remove iv) s = del iv s"

fun store_run :: "(interval \<Rightarrow> 's \<Rightarrow> 's option) \<Rightarrow> (interval \<Rightarrow> 's \<Rightarrow> 's option) \<Rightarrow> store_op list \<Rightarrow> 's \<Rightarrow> 's option" where
  "store_run ins del [] s = Some s"
| "store_run ins del (x # xs) s = Option.bind (op_step ins del x s) (store_run ins del xs)"

fun op_content :: "store_op \<Rightarrow> interval multiset \<Rightarrow> interval multiset" where
  "op_content (Add iv) m = add_mset iv m"
| "op_content (Remove iv) m = m - {#iv#}"

definition overlapping :: "simtime \<Rightarrow> simtime \<Rightarrow> interval multiset \<Rightarrow> interval multiset" where
  "overlapping lo hi = filter_mset (\<lambda>i. interval_overlap lo hi (low i) (high i))"

locale interval_store =
  fixes M :: simtime
    and start :: "'s"
    and ins :: "interval \<Rightarrow> 's \<Rightarrow> 's option"
    and del :: "interval \<Rightarrow> 's \<Rightarrow> 's option"
    and ask :: "simtime \<Rightarrow> simtime \<Rightarrow> 's \<Rightarrow> interval option list option"
    and stores :: "'s \<Rightarrow> interval multiset \<Rightarrow> bool"
  assumes starts: "stores start {#}"
    and inserts: "stores s m \<Longrightarrow> proper M iv \<Longrightarrow> \<exists>s'. ins iv s = Some s' \<and> stores s' (add_mset iv m)"
    and deletes: "stores s m \<Longrightarrow> \<exists>s'. del iv s = Some s' \<and> stores s' (m - {#iv#})"
    and asks: "stores s m \<Longrightarrow> - M < lo \<Longrightarrow> lo \<le> hi \<Longrightarrow> \<exists>xs. ask lo hi s = Some (map Some xs) \<and> mset xs = overlapping lo hi m"
begin

lemma step: "stores s m \<Longrightarrow> op_proper M x \<Longrightarrow> \<exists>s'. op_step ins del x s = Some s' \<and> stores s' (op_content x m)"
  by (cases x) (auto simp: inserts deletes)

lemma run: "stores s m \<Longrightarrow> list_all (op_proper M) xs \<Longrightarrow> \<exists>s'. store_run ins del xs s = Some s' \<and> stores s' (fold op_content xs m)"
proof (induction xs arbitrary: s m)
  case (Cons x xs)
  then have "op_proper M x" "list_all (op_proper M) xs" by simp_all
  moreover from step [OF Cons.prems(1) this(1)] obtain s1 where "op_step ins del x s = Some s1" "stores s1 (op_content x m)" by blast
  ultimately show ?case using Cons.IH by simp
qed simp

end

text \<open>Two implementations of the interface give the same answers up to their order.\<close>

locale two_stores = a: interval_store M start ins del ask stores + b: interval_store M start' ins' del' ask' stores'
  for M :: simtime
    and start :: "'s" and ins :: "interval \<Rightarrow> 's \<Rightarrow> 's option" and del :: "interval \<Rightarrow> 's \<Rightarrow> 's option"
    and ask :: "simtime \<Rightarrow> simtime \<Rightarrow> 's \<Rightarrow> interval option list option" and stores :: "'s \<Rightarrow> interval multiset \<Rightarrow> bool"
    and start' :: "'r" and ins' :: "interval \<Rightarrow> 'r \<Rightarrow> 'r option" and del' :: "interval \<Rightarrow> 'r \<Rightarrow> 'r option"
    and ask' :: "simtime \<Rightarrow> simtime \<Rightarrow> 'r \<Rightarrow> interval option list option" and stores' :: "'r \<Rightarrow> interval multiset \<Rightarrow> bool"
begin

lemma same_answers:
  assumes "list_all (op_proper M) xs" and "- M < lo" and "lo \<le> hi"
  shows "\<exists>s r found found'. store_run ins del xs start = Some s \<and> store_run ins' del' xs start' = Some r
    \<and> ask lo hi s = Some (map Some found) \<and> ask' lo hi r = Some (map Some found') \<and> mset found = mset found'"
proof -
  obtain s where s: "store_run ins del xs start = Some s" "stores s (fold op_content xs {#})"
    using a.run [OF a.starts assms(1)] by blast
  obtain r where r: "store_run ins' del' xs start' = Some r" "stores' r (fold op_content xs {#})"
    using b.run [OF b.starts assms(1)] by blast
  from a.asks [OF s(2) assms(2,3)] b.asks [OF r(2) assms(2,3)] s(1) r(1) show ?thesis by metis
qed

end

subsection \<open>The list of the communication cache\<close>

definition list_ins :: "interval \<Rightarrow> interval list \<Rightarrow> interval list option" where
  "list_ins iv ivs = Some (ivs @ [iv])"

definition list_del :: "interval \<Rightarrow> interval list \<Rightarrow> interval list option" where
  "list_del iv ivs = Some (remove1 iv ivs)"

definition list_ask :: "simtime \<Rightarrow> simtime \<Rightarrow> interval list \<Rightarrow> interval option list option" where
  "list_ask lo hi ivs = Some (map Some (query lo hi ivs))"

interpretation list_store: interval_store M "[]" list_ins list_del list_ask "\<lambda>xs m. mset xs = m" for M
  by unfold_locales (auto simp: list_ins_def list_del_def list_ask_def query_def overlapping_def)

lemma list_run: "store_run list_ins list_del xs ivs
    = Some (fold (\<lambda>x ivs. case x of Add iv \<Rightarrow> ivs @ [iv] | Remove iv \<Rightarrow> remove1 iv ivs) xs ivs)"
  by (induction xs arbitrary: ivs) (auto simp: list_ins_def list_del_def split: store_op.splits elim!: op_step.elims)

subsection \<open>The tree\<close>

definition tree_ins :: "interval \<Rightarrow> interval_tree \<Rightarrow> interval_tree option" where
  "tree_ins iv t = map_option snd (it_insert iv t)"

definition tree_stores :: "simtime \<Rightarrow> interval_tree \<Rightarrow> interval multiset \<Rightarrow> bool" where
  "tree_stores M t m \<longleftrightarrow> it_maxTime t = M \<and> (\<forall>iv\<in>#m. proper M iv) \<and> (\<exists>T. tree_inv t T \<and> mset (map snd (nodes T)) = m)"

lemma new_tree_inv: "tree_inv (new_interval_tree M) Lf"
  by (simp add: tree_inv_def new_interval_tree_def Let_def holds_def rbt_def by_low_def)

lemma mset_preorder: "mset (preorder T) = mset (map snd (nodes T))"
  by (induction T) simp_all

lemma tree_visit:
  assumes i: "tree_inv t T" and p: "\<forall>n\<in>set (nodes T). low (snd n) \<le> high (snd n)" and q: "- it_maxTime t < lo" "lo \<le> hi"
  shows "it_query lo hi t = Some (map Some (filter (\<lambda>i. interval_overlap lo hi (low i) (high i)) (preorder T)))"
proof -
  have h: "holds (it_nil t) (it_root t) (- it_maxTime t) (cells t) T" and b: "by_low (nodes T)" using i by (simp_all add: tree_inv_def)
  show ?thesis unfolding it_query_visit [OF h] visit_exact [OF b p q] ..
qed

lemma tree_ins_stores:
  assumes "tree_stores M t m" and "proper M iv"
  shows "\<exists>t'. tree_ins iv t = Some t' \<and> tree_stores M t' (add_mset iv m)"
proof -
  from assms(1) obtain T where T: "tree_inv t T" "mset (map snd (nodes T)) = m" "it_maxTime t = M" "\<forall>iv\<in>#m. proper M iv"
    by (auto simp: tree_stores_def)
  obtain t' where t': "it_insert iv t = Some (it_free t, t')" "tree_inv t' (ins_shape (it_free t) iv T)" "it_maxTime t' = M"
    using it_insert_shape [OF T(1)] assms(2) T(3) by (auto simp: proper_def)
  obtain xs ys where "nodes T = xs @ ys" "nodes (ins_shape (it_free t) iv T) = xs @ (it_free t, iv) # ys"
    using ins_shape_nodes(2) T(1) unfolding tree_inv_def by blast
  then have "mset (map snd (nodes (ins_shape (it_free t) iv T))) = add_mset iv m" using T(2) by auto
  with t' T(4) assms(2) show ?thesis by (auto simp: tree_ins_def tree_stores_def)
qed

lemma tree_del_stores:
  assumes "tree_stores M t m"
  shows "\<exists>t'. it_delete iv t = Some t' \<and> tree_stores M t' (m - {#iv#})"
proof -
  from assms obtain T where T: "tree_inv t T" "mset (map snd (nodes T)) = m" "it_maxTime t = M" "\<forall>iv\<in>#m. proper M iv"
    by (auto simp: tree_stores_def)
  obtain t' T' where t': "it_delete iv t = Some t'" "tree_inv t' T'" "it_maxTime t' = M"
    "if iv \<in> snd ` set (nodes T) then \<exists>xs a ys. nodes T = xs @ (a, iv) # ys \<and> nodes T' = xs @ ys else t' = t \<and> T' = T"
    using it_delete_shape [OF T(1)] T(3) by blast
  have "mset (map snd (nodes T')) = m - {#iv#}"
  proof (cases "iv \<in> snd ` set (nodes T)")
    case True
    with t'(4) T(2) show ?thesis by auto
  next
    case False
    then have "iv \<notin># m" using T(2) by auto
    with False t'(4) T(2) show ?thesis by (simp add: diff_single_trivial)
  qed
  moreover have "\<forall>j\<in>#m - {#iv#}. proper M j" using T(4) by (meson in_diffD)
  ultimately show ?thesis using t'(1-3) by (auto simp: tree_stores_def)
qed

interpretation tree_store: interval_store M "new_interval_tree M" tree_ins it_delete it_query "tree_stores M" for M
proof unfold_locales
  show "tree_stores M (new_interval_tree M) {#}"
    using new_tree_inv [of M] by (auto simp: tree_stores_def new_interval_tree_def Let_def intro!: exI [of _ Lf])
  show "\<exists>s'. tree_ins iv s = Some s' \<and> tree_stores M s' (add_mset iv m)" if "tree_stores M s m" "proper M iv" for s m iv
    by (rule tree_ins_stores [OF that])
  show "\<exists>s'. it_delete iv s = Some s' \<and> tree_stores M s' (m - {#iv#})" if "tree_stores M s m" for s m iv
    by (rule tree_del_stores [OF that])
  show "\<exists>xs. it_query lo hi s = Some (map Some xs) \<and> mset xs = overlapping lo hi m"
    if "tree_stores M s m" "- M < lo" "lo \<le> hi" for s m lo hi
  proof -
    from that(1) obtain T where T: "tree_inv s T" "mset (map snd (nodes T)) = m" "it_maxTime s = M" "\<forall>iv\<in>#m. proper M iv"
      by (auto simp: tree_stores_def)
    then have "proper M (snd n)" if "n \<in> set (nodes T)" for n using that by auto
    then have "\<forall>n\<in>set (nodes T). low (snd n) \<le> high (snd n)" unfolding proper_def by blast
    from tree_visit [OF T(1) this] that T(3) have "it_query lo hi s
      = Some (map Some (filter (\<lambda>i. interval_overlap lo hi (low i) (high i)) (preorder T)))" by simp
    moreover have "mset (preorder T) = m" unfolding mset_preorder by (rule T(2))
    ultimately show ?thesis by (auto simp: overlapping_def)
  qed
qed

interpretation tree_list: two_stores M "new_interval_tree M" tree_ins it_delete it_query "tree_stores M"
    "[]" list_ins list_del list_ask "\<lambda>xs m. mset xs = m" for M
  by unfold_locales

text \<open>The condition on the range is needed: the sentinel's key is that of an empty left subtree that could hold an interval.\<close>

lemma query_from_sentinel: "visit B B hi (Nd Lf a i c r) = (if interval_overlap B hi (low i) (high i) then [i] else [])"
  by simp

subsection \<open>Balance\<close>

fun depth :: "shape \<Rightarrow> nat" where
  "depth Lf = 0"
| "depth (Nd l a i c r) = Suc (max (depth l) (depth r))"

lemma depth_bh: "invc t \<Longrightarrow> invh t \<Longrightarrow> depth t \<le> 2 * bh t + (if is_red t then 1 else 0)"
proof (induction t)
  case (Nd l a i c r)
  then have "depth l \<le> 2 * bh l + (if is_red l then 1 else 0)" "depth r \<le> 2 * bh r + (if is_red r then 1 else 0)" "bh l = bh r" by simp_all
  with Nd.prems(1) show ?case by (cases c) (simp_all split: if_splits)
qed simp

lemma bh_nodes: "invh t \<Longrightarrow> 2 ^ bh t \<le> Suc (length (nodes t))"
proof (induction t)
  case (Nd l a i c r)
  then have "2 ^ bh l \<le> Suc (length (nodes l))" "2 ^ bh l \<le> Suc (length (nodes r))" by simp_all
  then show ?case by (cases c) simp_all
qed simp

lemma rbt_depth: "rbt t \<Longrightarrow> 2 ^ (depth t div 2) \<le> Suc (length (nodes t))"
proof -
  assume r: "rbt t"
  then have "depth t div 2 \<le> bh t" using depth_bh [of t] by (simp add: rbt_def)
  then have "(2 :: nat) ^ (depth t div 2) \<le> 2 ^ bh t" by (intro power_increasing) simp_all
  also have "\<dots> \<le> Suc (length (nodes t))" using bh_nodes r by (simp add: rbt_def)
  finally show ?thesis .
qed

lemma tree_inv_wf: "tree_inv t T \<Longrightarrow> by_low (nodes T) \<and> rbt T \<and> distinct (map fst (nodes T))"
proof -
  have "distinct (map fst (nodes T))" if "adist T" using that by (induction T) (auto simp: aset_nodes)
  then show "tree_inv t T \<Longrightarrow> by_low (nodes T) \<and> rbt T \<and> distinct (map fst (nodes T))"
    by (simp add: tree_inv_def holds_def)
qed

subsection \<open>The properties\<close>

text \<open>C21: An interval tree that was built with \<open>insert\<close> and \<open>deleteNode\<close>, in any order and number, is well formed: every call
  returned, the heap holds a tree in the order of the lower ends, with black nodes balanced and no red node below a red one, every
  node has the largest upper end of its subtree and the right parent, the nodes are distinct cells, the intervals are the ones that
  were inserted and not deleted, and no path is longer than twice the binary logarithm of their number plus one.\<close>

theorem interval_tree_well_formed:
  assumes "list_all (op_proper M) ops"
  shows "\<exists>t T. store_run tree_ins it_delete ops (new_interval_tree M) = Some t
    \<and> holds (it_nil t) (it_root t) (- M) (cells t) T \<and> by_low (nodes T) \<and> rbt T \<and> distinct (map fst (nodes T))
    \<and> mset (map snd (nodes T)) = fold op_content ops {#} \<and> 2 ^ (depth T div 2) \<le> Suc (length (nodes T))"
proof -
  from tree_store.run [OF tree_store.starts assms] obtain t where
    t: "store_run tree_ins it_delete ops (new_interval_tree M) = Some t" "tree_stores M t (fold op_content ops {#})" by blast
  from t(2) obtain T where T: "tree_inv t T" "mset (map snd (nodes T)) = fold op_content ops {#}" "it_maxTime t = M"
    by (auto simp: tree_stores_def)
  have "holds (it_nil t) (it_root t) (- M) (cells t) T" using T by (simp add: tree_inv_def)
  with t(1) T(2) tree_inv_wf [OF T(1)] rbt_depth show ?thesis by blast
qed

theorem interval_tree_well_formed_witness:
  "\<forall>tr. \<exists>t T. store_run tree_ins it_delete
       [Add \<lparr>low = 1, high = 5, iv_value = tr\<rparr>, Add \<lparr>low = 3, high = 4, iv_value = tr\<rparr>, Remove \<lparr>low = 1, high = 5, iv_value = tr\<rparr>]
       (new_interval_tree 100) = Some t
     \<and> holds (it_nil t) (it_root t) (- 100) (cells t) T \<and> mset (map snd (nodes T)) = {#\<lparr>low = 3, high = 4, iv_value = tr\<rparr>#}"
proof
  fix tr
  let ?a = "\<lparr>low = 1, high = 5, iv_value = tr\<rparr>" and ?b = "\<lparr>low = 3, high = 4, iv_value = tr\<rparr>"
  have "list_all (op_proper 100) [Add ?a, Add ?b, Remove ?a]" by (simp add: proper_def)
  moreover have "fold op_content [Add ?a, Add ?b, Remove ?a] {#} = {#?b#}" by simp
  ultimately show "\<exists>t T. store_run tree_ins it_delete [Add ?a, Add ?b, Remove ?a] (new_interval_tree 100) = Some t
     \<and> holds (it_nil t) (it_root t) (- 100) (cells t) T \<and> mset (map snd (nodes T)) = {#?b#}"
    using interval_tree_well_formed [of 100 "[Add ?a, Add ?b, Remove ?a]"] by metis
qed

text \<open>C20: The interval tree implements the list of intervals of the communication cache: after any sequence of insertions and
  deletions of intervals that end no earlier than they begin, a query for a range that begins above the sentinel's key returns,
  and finds the intervals that overlap the range, each as often as the list has it; only their order is the tree's own.\<close>

theorem interval_tree_refines_list:
  assumes "list_all (op_proper M) ops" and "- M < lo" and "lo \<le> hi"
  shows "\<exists>t found. store_run tree_ins it_delete ops (new_interval_tree M) = Some t \<and> it_query lo hi t = Some (map Some found)
    \<and> mset found = mset (query lo hi (fold (\<lambda>x ivs. case x of Add iv \<Rightarrow> ivs @ [iv] | Remove iv \<Rightarrow> remove1 iv ivs) ops []))"
  using tree_list.same_answers [OF assms] unfolding list_run list_ask_def by (force dest: map_injective)

theorem interval_tree_refines_list_witness:
  "\<forall>tr. \<exists>t. store_run tree_ins it_delete
       [Add \<lparr>low = 1, high = 5, iv_value = tr\<rparr>, Add \<lparr>low = 3, high = 4, iv_value = tr\<rparr>, Remove \<lparr>low = 1, high = 5, iv_value = tr\<rparr>,
        Add \<lparr>low = 6, high = 9, iv_value = tr\<rparr>] (new_interval_tree 100) = Some t
     \<and> it_query 2 5 t = Some [Some \<lparr>low = 3, high = 4, iv_value = tr\<rparr>]"
proof
  fix tr
  let ?a = "\<lparr>low = 1, high = 5, iv_value = tr\<rparr>" and ?b = "\<lparr>low = 3, high = 4, iv_value = tr\<rparr>" and ?c = "\<lparr>low = 6, high = 9, iv_value = tr\<rparr>"
  let ?ops = "[Add ?a, Add ?b, Remove ?a, Add ?c]"
  have "list_all (op_proper 100) ?ops" by (simp add: proper_def)
  moreover have "query 2 5 (fold (\<lambda>x ivs. case x of Add iv \<Rightarrow> ivs @ [iv] | Remove iv \<Rightarrow> remove1 iv ivs) ?ops []) = [?b]"
    by (simp add: query_def interval_overlap_def)
  ultimately obtain t found where t: "store_run tree_ins it_delete ?ops (new_interval_tree 100) = Some t"
    "it_query 2 5 t = Some (map Some found)" "mset found = mset [?b]"
    using interval_tree_refines_list [of 100 ?ops 2 5] by auto
  then have "found = [?b]" by (cases found) auto
  with t show "\<exists>t. store_run tree_ins it_delete ?ops (new_interval_tree 100) = Some t \<and> it_query 2 5 t = Some [Some ?b]" by auto
qed

end
