(* ===== verification/ReassemblyBuffer.thy ===== *)
theory ReassemblyBuffer
  imports Prelude
begin

text \<open>
  \<open>common/ReassemblyBuffer.cc\<close>: which bytes of a fragmented datagram have arrived. Offsets are \<open>ushort\<close>, as in the code. The
  buffer has the range that begins at offset 0 and, aside, the ranges that do not touch it yet. The specification is a set of
  byte ranges: the datagram is complete exactly when every range of a division of it has arrived, in whatever order and
  however often.
\<close>

record region =
  r_beg :: "16 word"
  r_end :: "16 word"
  r_islast :: bool

record reassembly_buffer =
  rb_main :: region
  rb_fragments :: "region list option"

definition new_reassembly_buffer :: reassembly_buffer where
  "new_reassembly_buffer = \<lparr>rb_main = \<lparr>r_beg = 0, r_end = 0, r_islast = False\<rparr>, rb_fragments = None\<rparr>"

text \<open>One run of the inner loop of \<open>mergeFragments\<close>: what is deleted is left out; the flag is \<open>oncemore\<close>.\<close>

fun merge_pass :: "region \<Rightarrow> region list \<Rightarrow> region \<times> region list \<times> bool" where
  "merge_pass m [] = (m, [], False)"
| "merge_pass m (f # fs) =
     (if r_end m = r_beg f
      then case merge_pass (m\<lparr>r_end := r_end f, r_islast := r_islast f \<or> r_islast m\<rparr>) fs of (m, fs, _) \<Rightarrow> (m, fs, True)
      else if r_beg m = r_end f then case merge_pass (m\<lparr>r_beg := r_beg f\<rparr>) fs of (m, fs, _) \<Rightarrow> (m, fs, True)
      else if r_beg m \<le> r_beg f \<and> r_end f \<le> r_end m then case merge_pass m fs of (m, fs, _) \<Rightarrow> (m, fs, True)
      else case merge_pass m fs of (m, fs, oncemore) \<Rightarrow> (m, f # fs, oncemore))"

lemma merge_pass_shorter: "merge_pass m fs = (m', fs', oncemore) \<Longrightarrow> length fs' \<le> length fs \<and> (oncemore \<longrightarrow> length fs' < length fs)"
  by (induction m fs arbitrary: m' fs' oncemore rule: merge_pass.induct) (fastforce split: if_splits prod.splits)+

function mergeFragments :: "region \<Rightarrow> region list \<Rightarrow> region \<times> region list" where
  "mergeFragments m fs =
     (case merge_pass m fs of (m', fs', oncemore) \<Rightarrow> if oncemore then mergeFragments m' fs' else (m', fs'))"
  by pat_completeness auto
termination by (relation "measure (\<lambda>(m, fs). length fs)") (auto dest: merge_pass_shorter [OF sym])

definition merge_if_any :: "reassembly_buffer \<Rightarrow> reassembly_buffer" where
  "merge_if_any b =
     (case rb_fragments b of None \<Rightarrow> b
      | Some fs \<Rightarrow> (case mergeFragments (rb_main b) fs of (m, fs) \<Rightarrow> \<lparr>rb_main = m, rb_fragments = Some fs\<rparr>))"

definition rb_merge :: "16 word \<Rightarrow> 16 word \<Rightarrow> bool \<Rightarrow> reassembly_buffer \<Rightarrow> reassembly_buffer" where
  "rb_merge beg fin islast b =
     (let m = rb_main b
      in if r_end m = beg then merge_if_any (b\<lparr>rb_main := m\<lparr>r_end := fin, r_islast := islast \<or> r_islast m\<rparr>\<rparr>)
         else if r_beg m = fin then merge_if_any (b\<lparr>rb_main := m\<lparr>r_beg := beg\<rparr>\<rparr>)
         else if r_end m < beg \<or> fin < r_beg m
         then b\<lparr>rb_fragments := Some ((case rb_fragments b of None \<Rightarrow> [] | Some fs \<Rightarrow> fs) @ [\<lparr>r_beg = beg, r_end = fin, r_islast = islast\<rparr>])\<rparr>
         else b)"

definition rb_addFragment :: "16 word \<Rightarrow> 16 word \<Rightarrow> bool \<Rightarrow> reassembly_buffer \<Rightarrow> bool \<times> reassembly_buffer" where
  "rb_addFragment beg fin islast b =
     (let b = rb_merge beg fin islast b in (r_beg (rb_main b) = 0 \<and> r_islast (rb_main b), b))"

definition getTotalLength :: "reassembly_buffer \<Rightarrow> 16 word" where
  "getTotalLength b = r_end (rb_main b)"

subsection \<open>The specification\<close>

text \<open>A division of the first \<open>n\<close> bytes into ranges, and the region of a range.\<close>

definition division :: "nat \<Rightarrow> (nat \<times> nat) set \<Rightarrow> bool" where
  "division n S \<longleftrightarrow> 0 < n \<and> n < 65536 \<and> (\<forall>(a, b)\<in>S. a < b \<and> b \<le> n) \<and> (\<forall>(a, b)\<in>S. \<forall>(c, d)\<in>S. (a, b) = (c, d) \<or> b \<le> c \<or> d \<le> a)
     \<and> (\<forall>x<n. \<exists>(a, b)\<in>S. a \<le> x \<and> x < b)"

definition region_of :: "nat \<Rightarrow> nat \<times> nat \<Rightarrow> region" where
  "region_of n s = \<lparr>r_beg = of_nat (fst s), r_end = of_nat (snd s), r_islast = (snd s = n)\<rparr>"

definition main_of :: "nat \<Rightarrow> nat \<Rightarrow> region" where
  "main_of n c = \<lparr>r_beg = 0, r_end = of_nat c, r_islast = (c = n)\<rparr>"

lemma main_of_sel [simp]: "r_beg (main_of n c) = 0" "r_end (main_of n c) = of_nat c" "r_islast (main_of n c) = (c = n)"
  by (simp_all add: main_of_def)

lemma region_of_sel [simp]: "r_beg (region_of n s) = of_nat (fst s)" "r_end (region_of n s) = of_nat (snd s)" "r_islast (region_of n s) = (snd s = n)"
  by (simp_all add: region_of_def)

text \<open>A place where no range of the division is cut.\<close>

definition between :: "(nat \<times> nat) set \<Rightarrow> nat \<Rightarrow> bool" where
  "between S c \<longleftrightarrow> (\<forall>(a, b)\<in>S. b \<le> c \<or> c \<le> a)"

lemma word_offset:
  fixes a b :: nat
  assumes "a < 65536" and "b < 65536"
  shows "(of_nat a :: 16 word) = of_nat b \<longleftrightarrow> a = b" and "(of_nat a :: 16 word) \<le> of_nat b \<longleftrightarrow> a \<le> b" and "(of_nat a :: 16 word) < of_nat b \<longleftrightarrow> a < b"
proof -
  have u: "unat (of_nat a :: 16 word) = a" "unat (of_nat b :: 16 word) = b" using assms by (simp_all add: unat_of_nat)
  then show "(of_nat a :: 16 word) = of_nat b \<longleftrightarrow> a = b" by metis
  from u show "(of_nat a :: 16 word) \<le> of_nat b \<longleftrightarrow> a \<le> b" and "(of_nat a :: 16 word) < of_nat b \<longleftrightarrow> a < b"
    by (simp_all add: word_le_nat_alt word_less_nat_alt)
qed

lemma division_range:
  assumes "division n S" and "(a, b) \<in> S"
  shows "a < b" and "b \<le> n" and "a < 65536" and "b < 65536"
proof -
  from assms show "a < b" and "b \<le> n" by (auto simp: division_def)
  with assms(1) show "a < 65536" and "b < 65536" by (auto simp: division_def)
qed

lemma division_next:
  assumes "division n S" and "(a, b) \<in> S" and "between S a"
  shows "between S b" and "(c, d) \<in> S \<Longrightarrow> d \<le> b \<longleftrightarrow> d \<le> a \<or> (c, d) = (a, b)"
proof -
  have *: "(c, d) = (a, b) \<or> b \<le> c \<or> d \<le> a" if "(c, d) \<in> S" for c d
    using assms(1,2) that unfolding division_def by blast
  show "between S b" unfolding between_def using * division_range(1) [OF assms(1)] assms(2) by fastforce
  show "(c, d) \<in> S \<Longrightarrow> d \<le> b \<longleftrightarrow> d \<le> a \<or> (c, d) = (a, b)"
    using *[of c d] division_range(1) [OF assms(1), of c d] division_range(1) [OF assms(1,2)] by auto
qed

text \<open>
  After one run of the inner loop over a list of ranges that have arrived, the main range ends at \<open>c'\<close>; what is left of the list
  lies behind that, and what was deleted lies before.
\<close>

lemma merge_pass_division:
  assumes "division n S" and "set xs \<subseteq> S" and "between S c" and "c \<le> n"
  shows "\<exists>c' ys oncemore. merge_pass (main_of n c) (map (region_of n) xs) = (main_of n c', map (region_of n) ys, oncemore)
    \<and> between S c' \<and> c \<le> c' \<and> c' \<le> n \<and> set ys \<subseteq> set xs \<and> (\<forall>(a, b)\<in>set xs. (a, b) \<in> set ys \<or> b \<le> c')
    \<and> (\<forall>(a, b)\<in>S. b \<le> c' \<longrightarrow> b \<le> c \<or> (a, b) \<in> set xs) \<and> (\<not> oncemore \<longrightarrow> c' = c \<and> ys = xs \<and> (\<forall>(a, b)\<in>set xs. c < a))"
  using assms(2-4)
proof (induction xs arbitrary: c)
  case Nil
  then show ?case by auto
next
  case (Cons s xs)
  obtain a b where s: "s = (a, b)" by force
  then have S: "(a, b) \<in> S" "set xs \<subseteq> S" using Cons.prems(1) by auto
  note r = division_range [OF assms(1) S(1)]
  have c: "c < 65536" using Cons.prems(3) assms(1) by (auto simp: division_def)
  have n: "n < 65536" using assms(1) by (simp add: division_def)
  note w = word_offset [OF c r(3)] word_offset [OF r(4) c] word_offset [OF r(3) c]
  have z: "(0 :: 16 word) \<noteq> of_nat b" using word_offset(1) [of 0 b] r by simp
  show ?case
  proof (cases "a = c")
    case True
    have m: "(main_of n c)\<lparr>r_end := r_end (region_of n s), r_islast := r_islast (region_of n s) \<or> r_islast (main_of n c)\<rparr> = main_of n b"
      using r True by (auto simp: main_of_def region_of_def s)
    have B: "between S b" using division_next(1) [OF assms(1) S(1)] Cons.prems(2) True by simp
    have U: "d \<le> b \<longleftrightarrow> d \<le> c \<or> (e, d) = (a, b)" if "(e, d) \<in> S" for e d
      using division_next(2) [OF assms(1) S(1) _ that] Cons.prems(2) True by simp
    obtain c' ys o1 where IH: "merge_pass (main_of n b) (map (region_of n) xs) = (main_of n c', map (region_of n) ys, o1)"
      "between S c'" "b \<le> c'" "c' \<le> n" "set ys \<subseteq> set xs" "\<forall>(a, b)\<in>set xs. (a, b) \<in> set ys \<or> b \<le> c'"
      "\<forall>(e, d)\<in>S. d \<le> c' \<longrightarrow> d \<le> b \<or> (e, d) \<in> set xs"
      using Cons.IH [OF S(2) B r(2)] by blast
    have "merge_pass (main_of n c) (map (region_of n) (s # xs)) = (main_of n c', map (region_of n) ys, True)"
      using IH(1) m True by (simp add: s)
    moreover have "\<forall>(e, d)\<in>S. d \<le> c' \<longrightarrow> d \<le> c \<or> (e, d) \<in> set (s # xs)" using IH(7) U s by fastforce
    moreover have "\<forall>(e, d)\<in>set (s # xs). (e, d) \<in> set ys \<or> d \<le> c'" using IH(3,6) s by auto
    moreover have "c \<le> c'" using IH(3) r(1) True by simp
    moreover have "set ys \<subseteq> set (s # xs)" using IH(5) by auto
    ultimately show ?thesis using IH(2,4) by blast
  next
    case False
    have bc: "b \<le> c \<or> c < a" using Cons.prems(2) S(1) False unfolding between_def by fastforce
    obtain c' ys o1 where IH: "merge_pass (main_of n c) (map (region_of n) xs) = (main_of n c', map (region_of n) ys, o1)"
      "between S c'" "c \<le> c'" "c' \<le> n" "set ys \<subseteq> set xs" "\<forall>(a, b)\<in>set xs. (a, b) \<in> set ys \<or> b \<le> c'"
      "\<forall>(e, d)\<in>S. d \<le> c' \<longrightarrow> d \<le> c \<or> (e, d) \<in> set xs" "\<not> o1 \<longrightarrow> c' = c \<and> ys = xs \<and> (\<forall>(a, b)\<in>set xs. c < a)"
      using Cons.IH [OF S(2) Cons.prems(2,3)] by blast
    show ?thesis
    proof (cases "b \<le> c")
      case True
      then have "merge_pass (main_of n c) (map (region_of n) (s # xs)) = (main_of n c', map (region_of n) ys, True)"
        using IH(1) False w z by (simp add: s)
      moreover have "\<forall>(e, d)\<in>set (s # xs). (e, d) \<in> set ys \<or> d \<le> c'" using IH(3,6) s True by auto
      moreover have "\<forall>(e, d)\<in>S. d \<le> c' \<longrightarrow> d \<le> c \<or> (e, d) \<in> set (s # xs)" using IH(7) by auto
      moreover have "set ys \<subseteq> set (s # xs)" using IH(5) by auto
      ultimately show ?thesis using IH(2-4) by blast
    next
      case no: False
      have "merge_pass (main_of n c) (map (region_of n) (s # xs)) = (main_of n c', map (region_of n) (s # ys), o1)"
        using IH(1) False no w z by (simp add: s)
      moreover have "\<forall>(e, d)\<in>set (s # xs). (e, d) \<in> set (s # ys) \<or> d \<le> c'" using IH(6) by auto
      moreover have "\<forall>(e, d)\<in>S. d \<le> c' \<longrightarrow> d \<le> c \<or> (e, d) \<in> set (s # xs)" using IH(7) by auto
      moreover have "\<not> o1 \<longrightarrow> c' = c \<and> s # ys = s # xs \<and> (\<forall>(a, b)\<in>set (s # xs). c < a)" using IH(8) bc no s by auto
      moreover have "set (s # ys) \<subseteq> set (s # xs)" using IH(5) by auto
      ultimately show ?thesis using IH(2-4) by blast
    qed
  qed
qed

lemma mergeFragments_division:
  assumes "division n S" and "set xs \<subseteq> S" and "between S c" and "c \<le> n"
  shows "\<exists>c' ys. mergeFragments (main_of n c) (map (region_of n) xs) = (main_of n c', map (region_of n) ys)
    \<and> between S c' \<and> c \<le> c' \<and> c' \<le> n \<and> set ys \<subseteq> set xs \<and> (\<forall>(a, b)\<in>set xs. (a, b) \<in> set ys \<or> b \<le> c')
    \<and> (\<forall>(a, b)\<in>S. b \<le> c' \<longrightarrow> b \<le> c \<or> (a, b) \<in> set xs) \<and> (\<forall>(a, b)\<in>set ys. c' < a)"
  using assms(2-4)
proof (induction "length xs" arbitrary: xs c rule: less_induct)
  case less
  obtain c1 ys o1 where P: "merge_pass (main_of n c) (map (region_of n) xs) = (main_of n c1, map (region_of n) ys, o1)"
    "between S c1" "c \<le> c1" "c1 \<le> n" "set ys \<subseteq> set xs" "\<forall>(a, b)\<in>set xs. (a, b) \<in> set ys \<or> b \<le> c1"
    "\<forall>(a, b)\<in>S. b \<le> c1 \<longrightarrow> b \<le> c \<or> (a, b) \<in> set xs" "\<not> o1 \<longrightarrow> c1 = c \<and> ys = xs \<and> (\<forall>(a, b)\<in>set xs. c < a)"
    using merge_pass_division [OF assms(1) less.prems] by blast
  show ?case
  proof (cases o1)
    case False
    with P(1) have "mergeFragments (main_of n c) (map (region_of n) xs) = (main_of n c1, map (region_of n) ys)" by simp
    with P False show ?thesis by blast
  next
    case True
    have "length ys < length xs" using merge_pass_shorter [OF P(1)] True by simp
    moreover have "set ys \<subseteq> S" using P(5) less.prems(1) by blast
    ultimately obtain c' zs where Z: "mergeFragments (main_of n c1) (map (region_of n) ys) = (main_of n c', map (region_of n) zs)"
      "between S c'" "c1 \<le> c'" "c' \<le> n" "set zs \<subseteq> set ys" "\<forall>(a, b)\<in>set ys. (a, b) \<in> set zs \<or> b \<le> c'"
      "\<forall>(a, b)\<in>S. b \<le> c' \<longrightarrow> b \<le> c1 \<or> (a, b) \<in> set ys" "\<forall>(a, b)\<in>set zs. c' < a"
      using less.hyps [OF _ _ P(2,4)] by blast
    have "mergeFragments (main_of n c) (map (region_of n) xs) = (main_of n c', map (region_of n) zs)" using P(1) Z(1) True by simp
    moreover have "\<forall>(a, b)\<in>set xs. (a, b) \<in> set zs \<or> b \<le> c'" using P(6) Z(3,6) by fastforce
    moreover have "\<forall>(a, b)\<in>S. b \<le> c' \<longrightarrow> b \<le> c \<or> (a, b) \<in> set xs" using P(5,7) Z(7) by fastforce
    moreover have "c \<le> c'" "set zs \<subseteq> set xs" using P(3,5) Z(3,5) by auto
    ultimately show ?thesis using Z(2,4,8) by blast
  qed
qed

subsection \<open>The buffer implements the specification\<close>

text \<open>
  The buffer after the ranges \<open>R\<close> of a division have arrived: the main range has every arrived range that it can have, what
  arrived behind it waits.
\<close>

definition rb_holds :: "nat \<Rightarrow> (nat \<times> nat) set \<Rightarrow> (nat \<times> nat) set \<Rightarrow> reassembly_buffer \<Rightarrow> bool" where
  "rb_holds n S R b \<longleftrightarrow> R \<subseteq> S \<and> (\<exists>c xs. rb_main b = main_of n c \<and> between S c \<and> c \<le> n \<and> set xs \<subseteq> R
     \<and> (case rb_fragments b of None \<Rightarrow> xs = [] | Some fs \<Rightarrow> fs = map (region_of n) xs)
     \<and> (\<forall>(a, e)\<in>R. e \<le> c \<or> (a, e) \<in> set xs) \<and> (\<forall>(a, e)\<in>S. e \<le> c \<longrightarrow> (a, e) \<in> R) \<and> (\<forall>(a, e)\<in>set xs. c < a))"

lemma rb_holds_new: "division n S \<Longrightarrow> rb_holds n S {} new_reassembly_buffer"
  unfolding rb_holds_def
proof (intro conjI exI [of _ 0] exI [of _ "[]"])
  assume d: "division n S"
  show "rb_main new_reassembly_buffer = main_of n 0" using d by (simp add: new_reassembly_buffer_def main_of_def division_def)
  show "\<forall>(a, e)\<in>S. e \<le> 0 \<longrightarrow> (a, e) \<in> {}" using division_range(1) [OF d] by fastforce
qed (simp_all add: between_def new_reassembly_buffer_def)

lemma rb_complete_iff:
  assumes d: "division n S" and h: "rb_holds n S R b"
  shows "r_islast (rb_main b) \<longleftrightarrow> R = S" and "r_beg (rb_main b) = 0" and "r_islast (rb_main b) \<Longrightarrow> getTotalLength b = of_nat n"
proof -
  from h obtain c xs where c: "R \<subseteq> S" "rb_main b = main_of n c" "between S c" "c \<le> n" "\<forall>(a, e)\<in>R. e \<le> c \<or> (a, e) \<in> set xs"
    "\<forall>(a, e)\<in>S. e \<le> c \<longrightarrow> (a, e) \<in> R" "\<forall>(a, e)\<in>set xs. c < a" unfolding rb_holds_def by blast
  have "c = n \<longleftrightarrow> R = S"
  proof
    assume "c = n"
    then have "S \<subseteq> R" using c(6) division_range(2) [OF d] by fastforce
    with c(1) show "R = S" by blast
  next
    assume R: "R = S"
    show "c = n"
    proof (rule ccontr)
      assume "c \<noteq> n"
      with c(4) have "c < n" by simp
      then obtain a e where s: "(a, e) \<in> S" "a \<le> c" "c < e" using d unfolding division_def by blast
      with c(5,7) R show False by fastforce
    qed
  qed
  then show "r_islast (rb_main b) \<longleftrightarrow> R = S" by (simp add: c(2))
  show "r_beg (rb_main b) = 0" by (simp add: c(2))
  show "r_islast (rb_main b) \<Longrightarrow> getTotalLength b = of_nat n" by (simp add: c(2) getTotalLength_def)
qed

lemma rb_merge_holds:
  assumes d: "division n S" and h: "rb_holds n S R b" and s: "(u, v) \<in> S"
  shows "rb_holds n S (insert (u, v) R) (rb_merge (of_nat u) (of_nat v) (v = n) b)"
proof -
  from h obtain c xs where c: "R \<subseteq> S" "rb_main b = main_of n c" "between S c" "c \<le> n" "set xs \<subseteq> R"
    "case rb_fragments b of None \<Rightarrow> xs = [] | Some fs \<Rightarrow> fs = map (region_of n) xs"
    "\<forall>(a, e)\<in>R. e \<le> c \<or> (a, e) \<in> set xs" "\<forall>(a, e)\<in>S. e \<le> c \<longrightarrow> (a, e) \<in> R" "\<forall>(a, e)\<in>set xs. c < a"
    unfolding rb_holds_def by blast
  note r = division_range [OF d s]
  have c16: "c < 65536" using c(4) d by (auto simp: division_def)
  note w = word_offset [OF c16 r(3)] word_offset [OF r(4) c16] word_offset [OF r(3) c16]
  have z: "(0 :: 16 word) \<noteq> of_nat v" using word_offset(1) [of 0 v] r by simp
  have split: "v \<le> c \<or> c \<le> u" using c(3) s unfolding between_def by fastforce
  show ?thesis
  proof (cases "u = c")
    case True
    let ?m = "main_of n v"
    have m: "(main_of n c)\<lparr>r_end := of_nat v, r_islast := v = n \<or> r_islast (main_of n c)\<rparr> = ?m"
      using r True by (auto simp: main_of_def)
    have B: "between S v" using division_next(1) [OF d s] c(3) True by simp
    have U: "e \<le> v \<longleftrightarrow> e \<le> c \<or> (a, e) = (u, v)" if "(a, e) \<in> S" for a e
      using division_next(2) [OF d s _ that] c(3) True by simp
    have X: "set xs \<subseteq> S" using c(1,5) by blast
    obtain c' ys where M: "mergeFragments ?m (map (region_of n) xs) = (main_of n c', map (region_of n) ys)"
      "between S c'" "v \<le> c'" "c' \<le> n" "set ys \<subseteq> set xs" "\<forall>(a, b)\<in>set xs. (a, b) \<in> set ys \<or> b \<le> c'"
      "\<forall>(a, b)\<in>S. b \<le> c' \<longrightarrow> b \<le> v \<or> (a, b) \<in> set xs" "\<forall>(a, b)\<in>set ys. c' < a"
      using mergeFragments_division [OF d X B r(2)] by blast
    let ?b = "rb_merge (of_nat u) (of_nat v) (v = n) b"
    have e: "?b = merge_if_any (b\<lparr>rb_main := ?m\<rparr>)" using True m by (simp add: rb_merge_def c(2))
    have "rb_main ?b = main_of n c' \<and> (case rb_fragments ?b of None \<Rightarrow> ys = [] | Some fs \<Rightarrow> fs = map (region_of n) ys)"
    proof (cases "rb_fragments b")
      case None
      with c(6) M(1) have "main_of n c' = ?m" "ys = []" by (auto simp: mergeFragments.simps)
      with None show ?thesis by (simp add: e merge_if_any_def)
    next
      case (Some fs)
      with c(6) M(1) show ?thesis by (simp add: e merge_if_any_def del: mergeFragments.simps)
    qed
    moreover have "\<forall>(a, e)\<in>insert (u, v) R. e \<le> c' \<or> (a, e) \<in> set ys" using c(7) M(3,6) r True by fastforce
    moreover have "\<forall>(a, e)\<in>S. e \<le> c' \<longrightarrow> (a, e) \<in> insert (u, v) R" using M(7) U c(5,8) by fastforce
    moreover have "set ys \<subseteq> insert (u, v) R" "insert (u, v) R \<subseteq> S" using M(5) c(1,5) s by auto
    ultimately show ?thesis unfolding rb_holds_def using M(2,4,8) by blast
  next
    case False
    have ne: "(of_nat c :: 16 word) \<noteq> of_nat u" using w False by simp
    show ?thesis
    proof (cases "v \<le> c")
      case True
      then have "rb_merge (of_nat u) (of_nat v) (v = n) b = b"
        using ne z w r by (auto simp: rb_merge_def c(2))
      moreover have "(u, v) \<in> R" using c(8) s True by blast
      ultimately show ?thesis using h by (simp add: insert_absorb)
    next
      case no: False
      with split False have "c < u" by simp
      let ?b = "rb_merge (of_nat u) (of_nat v) (v = n) b"
      let ?xs = "xs @ [(u, v)]"
      have "?b = b\<lparr>rb_fragments := Some ((case rb_fragments b of None \<Rightarrow> [] | Some fs \<Rightarrow> fs) @ [region_of n (u, v)])\<rparr>"
        using ne z w \<open>c < u\<close> by (auto simp: rb_merge_def c(2) region_of_def)
      then have "rb_main ?b = main_of n c" "rb_fragments ?b = Some (map (region_of n) ?xs)"
        using c(2,6) by (auto split: option.splits)
      then show ?thesis unfolding rb_holds_def
        using c(1,3,4,5,7,8,9) s \<open>c < u\<close> by (intro conjI exI [of _ c] exI [of _ ?xs]) auto
    qed
  qed
qed

text \<open>The specification of the class, for any arrivals of ranges of a division.\<close>

lemma rb_addFragment_spec:
  assumes d: "division n S" and h: "rb_holds n S R b" and s: "(u, v) \<in> S"
    and a: "rb_addFragment (of_nat u) (of_nat v) (v = n) b = (full, b')"
  shows "rb_holds n S (insert (u, v) R) b'" and "full \<longleftrightarrow> insert (u, v) R = S" and "full \<Longrightarrow> getTotalLength b' = of_nat n"
proof -
  let ?b = "rb_merge (of_nat u) (of_nat v) (v = n) b"
  have b: "b' = ?b" "full \<longleftrightarrow> r_beg (rb_main ?b) = 0 \<and> r_islast (rb_main ?b)" using a by (auto simp: rb_addFragment_def Let_def)
  note k = rb_merge_holds [OF d h s]
  show "rb_holds n S (insert (u, v) R) b'" using k b by simp
  show "full \<longleftrightarrow> insert (u, v) R = S" "full \<Longrightarrow> getTotalLength b' = of_nat n" using rb_complete_iff [OF d k] b by simp_all
qed

end
