(* ===== verification/IPv4FragBuf.thy ===== *)
theory IPv4FragBuf
  imports ReassemblyBuffer "HOL-Library.Mapping" "HOL-Library.Product_Lexorder" "HOL-Library.Signed_Division"
begin

text \<open>
  IPv4 fragmentation: \<open>IPv4::fragmentAndSend\<close>, the reassembly buffers of \<open>IPv4FragBuf\<close>, and the part of
  \<open>IPv4::reassembleAndDeliver\<close> that uses them. The encapsulated packet is a \<open>RawPacket\<close> with its bytes, or a packet of a
  type \<open>'p\<close> that the code never looks into. \<open>std::map\<close> iterates its keys in their order, so purging does.
\<close>

record byte_array =
  ba_data :: "8 word option list"
  ba_size :: nat

record raw_packet =
  rp_byteArray :: byte_array
  rp_byteLength :: int

datatype 'p encapsulated = RawPkt raw_packet | Pkt 'p

record 'p ipv4_datagram =
  dg_headerLength :: int
  dg_byteLength :: int
  dg_src :: "32 word"
  dg_dest :: "32 word"
  dg_protocol :: int
  dg_ttl :: int
  dg_id :: int
  dg_mf :: bool
  dg_df :: bool
  dg_offset :: int
  dg_payload :: "'p encapsulated option"

datatype icmp_type = ICMP_DESTINATION_UNREACHABLE | ICMP_SOURCEQUENCH | ICMP_REDIRECT | ICMP_TIME_EXCEEDED | ICMP_PARAMETER_PROBLEM
  | ICMP_ECHO_REQUEST | ICMP_ROUTER_ADVERTISEMENT | ICMP_ROUTER_SOLICITATION | ICMP_ECHO_REPLY | ICMP_TIMESTAMP_REQUEST | ICMP_TIMESTAMP_REPLY | ICMP_INFORMATION_REQUEST
  | ICMP_INFORMATION_REPLY | ICMP_MASK_REQUEST | ICMP_MASK_REPLY

definition ICMP_DU_FRAGMENTATION_NEEDED :: int where
  "ICMP_DU_FRAGMENTATION_NEEDED = 4"

text \<open>What the layer sends: a datagram to its output, or one handed to ICMP with an error message.\<close>

datatype 'p ip_out =
    ToOutput "'p ipv4_datagram"
  | IcmpError "'p ipv4_datagram" int icmp_type int

subsection \<open>Fragmentation\<close>

text \<open>The loop of \<open>fragmentAndSend\<close>; the code has thrown before when the fragment length is not positive.\<close>

function fragment_loop :: "'p ipv4_datagram \<Rightarrow> int \<Rightarrow> int \<Rightarrow> int \<Rightarrow> int \<Rightarrow> int \<Rightarrow> 'p ip_out list" where
  "fragment_loop d headerLength payloadLength fragmentLength offsetBase offset =
     (if 0 < fragmentLength \<and> offset < payloadLength
      then let lastFragment = (payloadLength \<le> offset + fragmentLength);
               thisFragmentLength = (if lastFragment then payloadLength - offset else fragmentLength);
               fragment = (if lastFragment then d else d\<lparr>dg_mf := True\<rparr>)\<lparr>dg_byteLength := headerLength + thisFragmentLength, dg_offset := offsetBase + offset\<rparr>
           in ToOutput fragment # fragment_loop d headerLength payloadLength fragmentLength offsetBase (offset + fragmentLength)
      else [])"
  by pat_completeness auto
termination by (relation "measure (\<lambda>(_, _, p, _, _, offset). nat (p - offset))") auto

declare fragment_loop.simps [simp del]

definition fragmentAndSend :: "32 word \<Rightarrow> int \<Rightarrow> 'p ipv4_datagram \<Rightarrow> int \<Rightarrow> (int \<times> 'p ip_out list) result" where
  "fragmentAndSend ie_addr mtu d numDropped =
     (let d = (if dg_src d = 0 then d\<lparr>dg_src := ie_addr\<rparr> else d)
      in if dg_ttl d \<le> 0 then Inr (numDropped + 1, [IcmpError d (-1) ICMP_TIME_EXCEEDED 0])
         else if mtu = 0 \<or> dg_byteLength d \<le> mtu then Inr (numDropped, [ToOutput d])
         else if dg_df d then Inr (numDropped + 1, [IcmpError d (-1) ICMP_DESTINATION_UNREACHABLE ICMP_DU_FRAGMENTATION_NEEDED])
         else let headerLength = dg_headerLength d;
                  payloadLength = dg_byteLength d - headerLength;
                  fragmentLength = ((mtu - headerLength) sdiv 8) * 8
              in if fragmentLength \<le> 0 then Inl (RuntimeError ''Cannot fragment datagram: MTU too small for header size'')
                 else Inr (numDropped, fragment_loop d headerLength payloadLength fragmentLength (dg_offset d) 0))"

subsection \<open>The bytes of a raw packet\<close>

text \<open>
  \<open>ByteArray::expandData\<close> with nothing added on the right, and \<open>ByteArray::copyDataFromBuffer\<close>: a byte that was never written
  is \<open>None\<close>. The latter does not update the recorded size.
\<close>

definition expandData :: "nat \<Rightarrow> byte_array \<Rightarrow> byte_array" where
  "expandData addleft ba =
     (if addleft = 0 then ba else \<lparr>ba_data = replicate addleft None @ take (ba_size ba) (ba_data ba), ba_size = ba_size ba + addleft\<rparr>)"

definition copyDataFromBuffer :: "nat \<Rightarrow> 8 word option list \<Rightarrow> byte_array \<Rightarrow> byte_array" where
  "copyDataFromBuffer destOffset bytes ba =
     (let nlength = destOffset + length bytes;
          ndata = (if ba_size ba < nlength then take (ba_size ba) (ba_data ba) @ replicate (nlength - ba_size ba) None else ba_data ba)
      in ba\<lparr>ba_data := take destOffset ndata @ bytes @ drop nlength ndata\<rparr>)"

text \<open>The bytes that a reader of the array sees.\<close>

definition visible :: "byte_array \<Rightarrow> 8 word option list" where
  "visible ba = take (ba_size ba) (ba_data ba)"

subsection \<open>The reassembly buffers\<close>

type_synonym frag_key = "16 word \<times> 32 word \<times> 32 word"

record 'p datagram_buffer =
  db_buf :: reassembly_buffer
  db_datagram :: "'p ipv4_datagram option"
  db_lastupdate :: simtime

type_synonym 'p frag_buf = "(frag_key, 'p datagram_buffer) mapping"

definition frag_key :: "'p ipv4_datagram \<Rightarrow> frag_key" where
  "frag_key d = (word_of_int (dg_id d), dg_src d, dg_dest d)"

fun is_raw :: "'p encapsulated option \<Rightarrow> bool" where
  "is_raw (Some (RawPkt _)) = True"
| "is_raw _ = False"

text \<open>The first fragment of a datagram is stored, its raw bytes moved to their offset.\<close>

definition store_first :: "'p ipv4_datagram \<Rightarrow> 'p ipv4_datagram" where
  "store_first d =
     (case dg_payload d of
        Some (RawPkt rp) \<Rightarrow>
          (if dg_offset d \<noteq> 0
           then d\<lparr>dg_payload := Some (RawPkt \<lparr>rp_byteArray = expandData (nat (dg_offset d)) (rp_byteArray rp),
                                               rp_byteLength = rp_byteLength rp + dg_offset d\<rparr>)\<rparr>
           else d)
      | _ \<Rightarrow> d)"

definition store_instead :: "'p ipv4_datagram \<Rightarrow> 'p ipv4_datagram" where
  "store_instead d =
     (case dg_payload d of
        Some (RawPkt rp) \<Rightarrow>
          (if dg_offset d \<noteq> 0
           then let ba = expandData (nat (dg_offset d)) (rp_byteArray rp)
                in d\<lparr>dg_payload := Some (RawPkt \<lparr>rp_byteArray = ba, rp_byteLength = int (ba_size ba)\<rparr>)\<rparr>
           else d)
      | _ \<Rightarrow> d)"

definition merge_raw :: "'p ipv4_datagram \<Rightarrow> 'p ipv4_datagram \<Rightarrow> 'p ipv4_datagram" where
  "merge_raw stored d =
     (case (dg_payload stored, dg_payload d) of
        (Some (RawPkt brp), Some (RawPkt rp)) \<Rightarrow>
          stored\<lparr>dg_payload := Some (RawPkt
            \<lparr>rp_byteArray = copyDataFromBuffer (nat (dg_offset d)) (visible (rp_byteArray rp)) (rp_byteArray brp),
             rp_byteLength = int (ba_size (rp_byteArray rp))\<rparr>)\<rparr>
      | _ \<Rightarrow> stored)"

definition store_fragment :: "'p ipv4_datagram option \<Rightarrow> 'p ipv4_datagram \<Rightarrow> 'p ipv4_datagram" where
  "store_fragment stored d =
     (case stored of
        None \<Rightarrow> store_first d
      | Some s \<Rightarrow> if dg_payload s = None \<and> dg_payload d \<noteq> None then store_instead d else merge_raw s d)"

text \<open>
  The complete datagram. Raw bytes are given to a deserialiser, which is a registry of the simulation (a parameter): from the
  visible bytes, the addresses and the protocol it makes a packet with a byte length, or nothing. Taking the raw packet out
  and putting the new one in moves the length of the datagram as \<open>cPacket\<close> does: by what they say their lengths are.
\<close>

type_synonym 'p deserializer = "8 word option list \<Rightarrow> 32 word \<Rightarrow> 32 word \<Rightarrow> int \<Rightarrow> ('p \<times> int) option"

definition replace_payload :: "raw_packet \<Rightarrow> 'p \<times> int \<Rightarrow> 'p ipv4_datagram \<Rightarrow> 'p ipv4_datagram result" where
  "replace_payload rp enc d =
     (let len = (if 0 < dg_byteLength d then dg_byteLength d - rp_byteLength rp else dg_byteLength d)
      in if len < 0 then Inl (RuntimeError ''decapsulate(): Packet length is smaller than encapsulated packet'')
         else Inr (d\<lparr>dg_payload := Some (Pkt (fst enc)), dg_byteLength := len + snd enc\<rparr>))"

definition finish_datagram :: "'p deserializer \<Rightarrow> reassembly_buffer \<Rightarrow> 'p ipv4_datagram \<Rightarrow> 'p ipv4_datagram result" where
  "finish_datagram deser b d =
     (let ret = d\<lparr>dg_byteLength := dg_headerLength d + uint (getTotalLength b), dg_offset := 0, dg_mf := False\<rparr>
      in case dg_payload ret of
           Some (RawPkt rp) \<Rightarrow>
             (case deser (visible (rp_byteArray rp)) (dg_src ret) (dg_dest ret) (dg_protocol ret) of
                Some enc \<Rightarrow> replace_payload rp enc ret
              | None \<Rightarrow> Inr ret)
         | _ \<Rightarrow> Inr ret)"

text \<open>
  \<open>addFragment\<close>. The iterator to erase was found before the buffer was created: completing a datagram with its first fragment
  would erase the end iterator.
\<close>

definition addFragment :: "'p deserializer \<Rightarrow> 'p ipv4_datagram \<Rightarrow> simtime \<Rightarrow> 'p frag_buf \<Rightarrow> ('p ipv4_datagram option \<times> 'p frag_buf) result" where
  "addFragment deser d now bufs =
     (let key = frag_key d;
          found = Mapping.lookup bufs key;
          buf = (case found of None \<Rightarrow> \<lparr>db_buf = new_reassembly_buffer, db_datagram = None, db_lastupdate = 0\<rparr> | Some b \<Rightarrow> b);
          bytes = dg_byteLength d - dg_headerLength d
      in case rb_addFragment (word_of_int (dg_offset d)) (word_of_int (dg_offset d + bytes)) (\<not> dg_mf d) (db_buf buf) of
           (isComplete, b) \<Rightarrow>
             let s = store_fragment (db_datagram buf) d
             in if isComplete
                then (if found = None then Inl (UndefinedBehaviour ''IPv4FragBuf: bufs.erase(bufs.end())'')
                      else andThen (finish_datagram deser b s) (\<lambda>ret. Inr (Some ret, Mapping.delete key bufs)))
                else Inr (None, Mapping.update key \<lparr>db_buf = b, db_datagram = Some s, db_lastupdate = now\<rparr> bufs))"

definition purge_one :: "simtime \<Rightarrow> frag_key \<Rightarrow> 'p frag_buf \<times> 'p ip_out list \<Rightarrow> ('p frag_buf \<times> 'p ip_out list) result" where
  "purge_one lastupdate key st =
     (case st of (bufs, out) \<Rightarrow>
        (case Mapping.lookup bufs key of
           None \<Rightarrow> Inr (bufs, out)
         | Some b \<Rightarrow>
             if db_lastupdate b < lastupdate
             then (case db_datagram b of
                     None \<Rightarrow> Inl (UndefinedBehaviour ''IPv4FragBuf: ICMP error for a null datagram'')
                   | Some d \<Rightarrow> Inr (Mapping.delete key bufs, out @ [IcmpError d (-1) ICMP_TIME_EXCEEDED 0]))
             else Inr (bufs, out)))"

definition purgeStaleFragments :: "simtime \<Rightarrow> 'p frag_buf \<Rightarrow> ('p frag_buf \<times> 'p ip_out list) result" where
  "purgeStaleFragments lastupdate bufs = foldR (purge_one lastupdate) (Mapping.ordered_keys bufs) (bufs, [])"

subsection \<open>The local delivery of a datagram, up to the complete datagram\<close>

record 'p ip_reassembly =
  ip_fragbuf :: "'p frag_buf"
  ip_lastCheckTime :: simtime

definition new_ip_reassembly :: "'p ip_reassembly" where
  "new_ip_reassembly = \<lparr>ip_fragbuf = Mapping.empty, ip_lastCheckTime = 0\<rparr>"

definition purge_if_due :: "simtime \<Rightarrow> simtime \<Rightarrow> 'p ip_reassembly \<Rightarrow> ('p ip_reassembly \<times> 'p ip_out list) result" where
  "purge_if_due fragmentTimeoutTime now st =
     (if ip_lastCheckTime st + 10 \<le> now
      then andThen (purgeStaleFragments (now - fragmentTimeoutTime) (ip_fragbuf st))
             (\<lambda>(bufs, out). Inr (\<lparr>ip_fragbuf = bufs, ip_lastCheckTime = now\<rparr>, out))
      else Inr (st, []))"

definition reassemble :: "'p deserializer \<Rightarrow> simtime \<Rightarrow> simtime \<Rightarrow> 'p ipv4_datagram \<Rightarrow> 'p ip_reassembly
    \<Rightarrow> ('p ipv4_datagram option \<times> 'p ip_out list \<times> 'p ip_reassembly) result" where
  "reassemble deser fragmentTimeoutTime now d st =
     (if dg_offset d \<noteq> 0 \<or> dg_mf d
      then andThen (purge_if_due fragmentTimeoutTime now st)
             (\<lambda>(st, out). andThen (addFragment deser d now (ip_fragbuf st)) (\<lambda>(r, bufs). Inr (r, out, st\<lparr>ip_fragbuf := bufs\<rparr>)))
      else Inr (Some d, [], st))"

end
