(* ===== verification/IPv4Fragments.thy ===== *)
theory IPv4Fragments
  imports IPv4FragBuf
begin

text \<open>
  Fragmentation and reassembly together: what routers make of a datagram on its way is a division of it, and the receiver
  gives the datagram back exactly when the last missing fragment arrives.
\<close>

subsection \<open>What is sent divides the datagram\<close>

text \<open>A fragment of a whole datagram with \<open>n\<close> bytes of payload: only the fields of fragmentation and the hop counter differ.\<close>

definition fragment_of :: "'p ipv4_datagram \<Rightarrow> nat \<Rightarrow> nat \<times> nat \<Rightarrow> 'p ipv4_datagram \<Rightarrow> bool" where
  "fragment_of w n s f \<longleftrightarrow> fst s < snd s \<and> snd s \<le> n \<and>
     f = w\<lparr>dg_byteLength := dg_headerLength w + (int (snd s) - int (fst s)), dg_ttl := dg_ttl f, dg_mf := (snd s \<noteq> n), dg_offset := int (fst s)\<rparr>"

lemma fragment_of_fields:
  "fragment_of w n (a, b) f \<longleftrightarrow> a < b \<and> b \<le> n \<and> dg_src f = dg_src w \<and> dg_dest f = dg_dest w \<and> dg_id f = dg_id w
     \<and> dg_headerLength f = dg_headerLength w \<and> dg_offset f = int a \<and> dg_byteLength f = dg_headerLength w + (int b - int a)
     \<and> dg_mf f = (b \<noteq> n) \<and> dg_payload f = dg_payload w \<and> dg_protocol f = dg_protocol w \<and> dg_df f = dg_df w"
proof
  assume "fragment_of w n (a, b) f"
  then have ab: "a < b" "b \<le> n" and f: "f = w\<lparr>dg_byteLength := dg_headerLength w + (int b - int a), dg_ttl := dg_ttl f, dg_mf := (b \<noteq> n), dg_offset := int a\<rparr>"
    by (simp_all add: fragment_of_def)
  show "a < b \<and> b \<le> n \<and> dg_src f = dg_src w \<and> dg_dest f = dg_dest w \<and> dg_id f = dg_id w
     \<and> dg_headerLength f = dg_headerLength w \<and> dg_offset f = int a \<and> dg_byteLength f = dg_headerLength w + (int b - int a)
     \<and> dg_mf f = (b \<noteq> n) \<and> dg_payload f = dg_payload w \<and> dg_protocol f = dg_protocol w \<and> dg_df f = dg_df w"
    by (subst (1 2 3 4 5 6 7 8 9 10) f) (simp add: ab)
qed (auto simp: fragment_of_def intro: ipv4_datagram.equality)

lemma fragment_of_sel:
  assumes "fragment_of w n (a, b) f"
  shows "dg_src f = dg_src w" "dg_dest f = dg_dest w" "dg_id f = dg_id w" "dg_headerLength f = dg_headerLength w" "dg_offset f = int a"
    "dg_byteLength f = dg_headerLength w + (int b - int a)" "dg_mf f = (b \<noteq> n)" "dg_payload f = dg_payload w" "a < b" "b \<le> n"
  using assms by (auto simp: fragment_of_fields)

fun chain :: "nat \<Rightarrow> nat \<Rightarrow> (nat \<times> nat) list \<Rightarrow> bool" where
  "chain a b [] \<longleftrightarrow> a = b"
| "chain a b ((x, y) # rs) \<longleftrightarrow> x = a \<and> x < y \<and> chain y b rs"

lemma chain_le: "chain a b rs \<Longrightarrow> a \<le> b"
  by (induction rs arbitrary: a) (fastforce)+

lemma chain_range: "chain a b rs \<Longrightarrow> (x, y) \<in> set rs \<Longrightarrow> a \<le> x \<and> x < y \<and> y \<le> b"
proof (induction rs arbitrary: a)
  case (Cons r rs)
  obtain u v where r: "r = (u, v)" by force
  then have c: "u = a" "u < v" "chain v b rs" using Cons.prems(1) by auto
  show ?case
  proof (cases "(x, y) = r")
    case True
    then show ?thesis using c chain_le [OF c(3)] r by auto
  next
    case False
    then show ?thesis using Cons.IH [OF c(3)] Cons.prems(2) c by fastforce
  qed
qed simp

lemma chain_apart: "chain a b rs \<Longrightarrow> (x, y) \<in> set rs \<Longrightarrow> (u, v) \<in> set rs \<Longrightarrow> (x, y) = (u, v) \<or> y \<le> u \<or> v \<le> x"
proof (induction rs arbitrary: a)
  case (Cons r rs)
  obtain p q where r: "r = (p, q)" by force
  then have c: "chain q b rs" using Cons.prems(1) by auto
  show ?case using Cons.IH [OF c] Cons.prems(2,3) chain_range [OF c] unfolding r by fastforce
qed simp

lemma chain_covers: "chain a b rs \<Longrightarrow> a \<le> x \<Longrightarrow> x < b \<Longrightarrow> \<exists>(u, v)\<in>set rs. u \<le> x \<and> x < v"
proof (induction rs arbitrary: a)
  case (Cons r rs)
  obtain p q where r: "r = (p, q)" by force
  then have c: "p = a" "chain q b rs" using Cons.prems(1) by auto
  show ?case
  proof (cases "x < q")
    case True
    then show ?thesis using c Cons.prems r by auto
  next
    case False
    then show ?thesis using Cons.IH [OF c(2)] Cons.prems(3) by auto
  qed
qed simp

lemma chain_division: "chain 0 n rs \<Longrightarrow> 0 < n \<Longrightarrow> n < 65536 \<Longrightarrow> division n (set rs)"
  unfolding division_def using chain_range [of 0 n rs] chain_apart [of 0 n rs] chain_covers [of 0 n rs] by fast

lemma chain_append: "chain a b xs \<Longrightarrow> chain b c ys \<Longrightarrow> chain a c (xs @ ys)"
  by (induction xs arbitrary: a) auto

lemma chain_appendD: "chain a c (xs @ ys) \<Longrightarrow> \<exists>b. chain a b xs \<and> chain b c ys"
  by (induction xs arbitrary: a) fastforce+

lemma fragment_loop_chain:
  assumes f: "fragment_of w n (a, b) d" and l: "0 < fragmentLength" and x: "x \<le> b - a"
  shows "\<exists>rs fs. fragment_loop d (dg_headerLength w) (int b - int a) (int fragmentLength) (int a) (int x) = map ToOutput fs
    \<and> chain (a + x) b rs \<and> list_all2 (fragment_of w n) rs fs"
  using x
proof (induction "b - a - x" arbitrary: x rule: less_induct)
  case less
  have ab: "a < b" "b \<le> n" using f by (auto simp: fragment_of_def)
  let ?loop = "\<lambda>x. fragment_loop d (dg_headerLength w) (int b - int a) (int fragmentLength) (int a) (int x)"
  consider "x = b - a" | "x < b - a" "b - a \<le> x + fragmentLength" | "x + fragmentLength < b - a" using less.prems by linarith
  then show ?case
  proof cases
    case 1
    then have "?loop x = map ToOutput []" using ab by (subst fragment_loop.simps) (simp add: of_nat_diff)
    moreover have "chain (a + x) b []" using 1 ab by simp
    ultimately show ?thesis by blast
  next
    case 2
    let ?f = "d\<lparr>dg_byteLength := dg_headerLength w + (int b - int a - int x), dg_offset := int a + int x\<rparr>"
    have "int b - int a \<le> int x + int fragmentLength" "int x < int b - int a" using 2 by linarith+
    then have "?loop x = map ToOutput [?f]"
      using l by (subst fragment_loop.simps, simp add: Let_def) (subst fragment_loop.simps, simp)
    moreover have "fragment_of w n (a + x, b) ?f"
      using 2 ab f by (simp add: fragment_of_fields)
    moreover have "chain (a + x) b [(a + x, b)]" using 2 by simp
    ultimately show ?thesis by (blast intro: list_all2_Nil list_all2_Cons [THEN iffD2])
  next
    case 3
    let ?f = "d\<lparr>dg_mf := True, dg_byteLength := dg_headerLength w + int fragmentLength, dg_offset := int a + int x\<rparr>"
    have m: "b - a - (x + fragmentLength) < b - a - x" "x + fragmentLength \<le> b - a" using 3 l by linarith+
    obtain rs fs where IH: "?loop (x + fragmentLength) = map ToOutput fs" "chain (a + (x + fragmentLength)) b rs" "list_all2 (fragment_of w n) rs fs"
      using less.hyps [OF m] by blast
    have "\<not> int b - int a \<le> int x + int fragmentLength" "int x < int b - int a" using 3 by linarith+
    then have "?loop x = map ToOutput (?f # fs)"
      using l IH(1) by (subst fragment_loop.simps) (simp add: Let_def add.commute)
    moreover have "a + (x + fragmentLength) < n" using 3 ab by linarith
    then have "fragment_of w n (a + x, a + (x + fragmentLength)) ?f"
      using l f by (simp add: fragment_of_fields)
    moreover have "chain (a + x) b ((a + x, a + (x + fragmentLength)) # rs)" using IH(2) l by simp
    ultimately show ?thesis using IH(3) by (blast intro: list_all2_Cons [THEN iffD2])
  qed
qed

lemma fragmentAndSend_chain:
  assumes f: "fragment_of w n (a, b) d" and src: "dg_src w \<noteq> 0"
    and s: "fragmentAndSend ie_addr mtu d dropped = Inr (dropped', map ToOutput fs)"
  shows "\<exists>rs. chain a b rs \<and> list_all2 (fragment_of w n) rs fs"
proof -
  note d = fragment_of_sel [OF f]
  show ?thesis
  proof (cases "mtu = 0 \<or> dg_byteLength d \<le> mtu")
    case True
    with s src have "fs = [d]" by (cases fs) (auto simp: fragmentAndSend_def Let_def d(1) split: if_splits)
    with f d(9) show ?thesis by (intro exI [of _ "[(a, b)]"]) simp
  next
    case False
    let ?l = "((mtu - dg_headerLength w) sdiv 8) * 8"
    from s False src have l: "0 < ?l" and fs: "map ToOutput fs = fragment_loop d (dg_headerLength w) (int b - int a) ?l (int a) 0"
      by (cases fs; auto simp: fragmentAndSend_def Let_def d(1,4-6) split: if_splits)+
    obtain rs gs where "fragment_loop d (dg_headerLength w) (int b - int a) (int (nat ?l)) (int a) (int 0) = map ToOutput gs"
      "chain (a + 0) b rs" "list_all2 (fragment_of w n) rs gs"
      using fragment_loop_chain [OF f, of "nat ?l" 0] l by auto
    moreover from this(1) fs l have "map ToOutput fs = map ToOutput gs" by simp
    then have "fs = gs" by (rule map_injective) (simp add: inj_def)
    ultimately show ?thesis by auto
  qed
qed

text \<open>
  What a datagram has become on its way: sending it, or one of its fragments, out of an interface with any MTU may fragment
  it, and arriving at a router decrements the hop counter (\<open>handleIncomingDatagram\<close>).
\<close>

definition hop_counter :: "'p ipv4_datagram \<Rightarrow> 'p ipv4_datagram" where
  "hop_counter d = d\<lparr>dg_ttl := dg_ttl d - 1\<rparr>"

inductive travels :: "'p ipv4_datagram \<Rightarrow> 'p ipv4_datagram list \<Rightarrow> bool" for w where
  start: "travels w [w]"
| arrive: "travels w (xs @ f # ys) \<Longrightarrow> travels w (xs @ hop_counter f # ys)"
| send: "travels w (xs @ f # ys) \<Longrightarrow> fragmentAndSend ie_addr mtu f dropped = Inr (dropped', map ToOutput fs) \<Longrightarrow> travels w (xs @ fs @ ys)"

definition whole :: "'p ipv4_datagram \<Rightarrow> nat \<Rightarrow> bool" where
  "whole w n \<longleftrightarrow> 0 < n \<and> n < 65536 \<and> dg_byteLength w = dg_headerLength w + int n \<and> dg_offset w = 0 \<and> \<not> dg_mf w \<and> dg_src w \<noteq> 0"

lemma fragment_of_hop: "fragment_of w n s f \<Longrightarrow> fragment_of w n s (hop_counter f)"
  by (cases s) (simp add: fragment_of_fields hop_counter_def)

lemma list_all2_middle:
  assumes "list_all2 P rs (xs @ f # ys)"
  obtains r1 r r2 where "rs = r1 @ r # r2" "list_all2 P r1 xs" "P r f" "list_all2 P r2 ys"
  using assms by (auto simp: list_all2_append2 list_all2_Cons2)

lemma travels_chain:
  assumes "travels w fs" and "whole w n"
  shows "\<exists>rs. chain 0 n rs \<and> list_all2 (fragment_of w n) rs fs"
  using assms(1)
proof (induction rule: travels.induct)
  case start
  show ?case using assms(2) by (intro exI [of _ "[(0, n)]"]) (simp add: whole_def fragment_of_def)
next
  case (arrive xs f ys)
  then obtain rs where rs: "chain 0 n rs" "list_all2 (fragment_of w n) rs (xs @ f # ys)" by blast
  from rs(2) obtain r1 r r2 where r: "rs = r1 @ r # r2" "list_all2 (fragment_of w n) r1 xs" "fragment_of w n r f" "list_all2 (fragment_of w n) r2 ys"
    by (rule list_all2_middle)
  with rs(1) show ?case by (blast intro: list_all2_appendI list_all2_Cons [THEN iffD2] fragment_of_hop)
next
  case (send xs f ys ie_addr mtu dropped dropped' fs)
  then obtain rs where rs: "chain 0 n rs" "list_all2 (fragment_of w n) rs (xs @ f # ys)" by blast
  from rs(2) obtain r1 r r2 where r: "rs = r1 @ r # r2" "list_all2 (fragment_of w n) r1 xs" "fragment_of w n r f" "list_all2 (fragment_of w n) r2 ys"
    by (rule list_all2_middle)
  obtain a b where ab: "r = (a, b)" by force
  obtain u where u: "chain 0 u r1" "chain u n ((a, b) # r2)" using chain_appendD rs(1) r(1) ab by blast
  then have c: "u = a" "chain b n r2" by auto
  from fragmentAndSend_chain [of w n a b f] r(3) ab send.hyps(2) assms(2)
  obtain qs where q: "chain a b qs" "list_all2 (fragment_of w n) qs fs" unfolding whole_def by blast
  have "chain 0 n (r1 @ qs @ r2)" using u(1) c q(1) chain_append by blast
  moreover have "list_all2 (fragment_of w n) (r1 @ qs @ r2) (xs @ fs @ ys)" using r q(2) by (simp add: list_all2_appendI)
  ultimately show ?case by blast
qed

subsection \<open>Reassembly\<close>

lemma lookup_delete': "Mapping.lookup (Mapping.delete k m) k' = (if k = k' then None else Mapping.lookup m k')"
  by simp

text \<open>
  The fragments of a division are told apart by their ranges; the receiver's buffer for the datagram after some of them have
  arrived.
\<close>

definition range_of :: "'p ipv4_datagram \<Rightarrow> nat \<times> nat" where
  "range_of f = (nat (dg_offset f), nat (dg_offset f + (dg_byteLength f - dg_headerLength f)))"

lemma range_of_fragment: "fragment_of w n s f \<Longrightarrow> range_of f = s"
  by (cases s) (auto simp: fragment_of_fields range_of_def)

lemma chain_distinct: "chain a b rs \<Longrightarrow> distinct rs"
proof (induction rs arbitrary: a)
  case (Cons r rs)
  obtain p q where r: "r = (p, q)" by force
  then have c: "p < q" "chain q b rs" using Cons.prems by auto
  then show ?case using Cons.IH [OF c(2)] chain_range [OF c(2), of p q] r by auto
qed simp

lemma fragments_ranges:
  assumes "chain a b rs" and "list_all2 (fragment_of w n) rs fs"
  shows "map range_of fs = rs" and "inj_on range_of (set fs)" and "f \<in> set fs \<Longrightarrow> fragment_of w n (range_of f) f"
proof -
  show m: "map range_of fs = rs" using assms(2) by (induction rule: list_all2_induct) (simp_all add: range_of_fragment)
  show "inj_on range_of (set fs)" using chain_distinct [OF assms(1)] by (simp add: m [symmetric] distinct_map)
  show "f \<in> set fs \<Longrightarrow> fragment_of w n (range_of f) f"
    using assms(2) by (induction rule: list_all2_induct) (auto simp: range_of_fragment)
qed

definition fb_holds :: "'p ipv4_datagram \<Rightarrow> nat \<Rightarrow> (nat \<times> nat) set \<Rightarrow> simtime \<Rightarrow> 'p ipv4_datagram set \<Rightarrow> 'p frag_buf \<Rightarrow> bool" where
  "fb_holds w n S t0 A bufs \<longleftrightarrow>
     (case Mapping.lookup bufs (frag_key w) of
        None \<Rightarrow> A = {}
      | Some b \<Rightarrow> A \<noteq> {} \<and> rb_holds n S (range_of ` A) (db_buf b) \<and> t0 \<le> db_lastupdate b \<and> (\<exists>g\<in>A. db_datagram b = Some g))"

lemma frag_key_fragment: "fragment_of w n s f \<Longrightarrow> frag_key f = frag_key w"
  by (cases s) (simp add: fragment_of_fields frag_key_def)

lemma store_fragment_not_raw:
  assumes "\<not> is_raw (dg_payload d)" and "stored = None \<or> (\<exists>s. stored = Some s \<and> dg_payload s = dg_payload d)"
  shows "store_fragment stored d = (case stored of None \<Rightarrow> d | Some s \<Rightarrow> s)"
  using assms by (cases "dg_payload d" rule: is_raw.cases)
    (auto simp: store_fragment_def store_first_def store_instead_def merge_raw_def split: option.splits encapsulated.splits)

lemma addFragment_other_key:
  assumes "addFragment deser d now bufs = Inr (r, bufs')" and "frag_key d \<noteq> k"
  shows "Mapping.lookup bufs' k = Mapping.lookup bufs k"
  using assms by (auto simp: addFragment_def Let_def lookup_update' lookup_delete andThen_Inr_iff split: prod.splits if_splits option.splits)

lemma whole_again:
  assumes "whole w n" and "fragment_of w n s g"
  shows "g\<lparr>dg_byteLength := dg_headerLength g + int n, dg_offset := 0, dg_mf := False\<rparr> = w\<lparr>dg_ttl := dg_ttl g\<rparr>"
  using assms by (cases s) (auto simp: whole_def fragment_of_fields intro: ipv4_datagram.equality)

lemma finish_fragment:
  assumes "whole w n" and "fragment_of w n s g" and "\<not> is_raw (dg_payload g)" and "getTotalLength b = of_nat n"
  shows "finish_datagram deser b g = Inr (w\<lparr>dg_ttl := dg_ttl g\<rparr>)"
proof -
  have "uint (getTotalLength b) = int n" using assms(1,4) by (simp add: whole_def uint_nat unat_of_nat)
  moreover have "dg_payload w = dg_payload g" using assms(2) by (cases s) (simp add: fragment_of_fields)
  ultimately show ?thesis using whole_again [OF assms(1,2)] assms(3)
    by (cases "dg_payload g" rule: is_raw.cases) (simp_all add: finish_datagram_def Let_def)
qed

lemma addFragment_fragment:
  assumes w: "whole w n" and raw: "\<not> is_raw (dg_payload w)" and c: "chain 0 n rs" and fs: "list_all2 (fragment_of w n) rs fs"
    and two: "1 < length fs" and A: "A \<subset> set fs" and h: "fb_holds w n (set rs) t0 A bufs" and f: "f \<in> set fs" and t: "t0 \<le> now"
  shows "\<exists>r bufs'. addFragment deser f now bufs = Inr (r, bufs')
    \<and> (if insert f A = set fs then (\<exists>g\<in>set fs. r = Some (w\<lparr>dg_ttl := dg_ttl g\<rparr>)) else r = None \<and> fb_holds w n (set rs) t0 (insert f A) bufs')"
proof -
  let ?S = "set rs"
  let ?old = "case Mapping.lookup bufs (frag_key w) of None \<Rightarrow> \<lparr>db_buf = new_reassembly_buffer, db_datagram = None, db_lastupdate = 0\<rparr> | Some b \<Rightarrow> b"
  note R = fragments_ranges [OF c fs]
  have S: "?S = range_of ` set fs" using R(1) by (metis list.set_map)
  have div: "division n ?S" using chain_division [OF c] w by (simp add: whole_def)
  obtain u v where uv: "range_of f = (u, v)" by force
  with R(3) [OF f] have F: "fragment_of w n (u, v) f" by simp
  have in_S: "(u, v) \<in> ?S" using S f uv by (metis imageI)
  have iff: "insert (u, v) (range_of ` A) = ?S \<longleftrightarrow> insert f A = set fs"
    using inj_on_image_eq_iff [OF R(2), of "insert f A" "set fs"] A f uv S by auto
  have old: "rb_holds n ?S (range_of ` A) (db_buf ?old)"
    using h rb_holds_new [OF div] by (auto simp: fb_holds_def split: option.splits)
  obtain full b' where rb: "rb_addFragment (of_nat u) (of_nat v) (v = n) (db_buf ?old) = (full, b')" by force
  note B = rb_addFragment_spec [OF div old in_S rb]
  have full: "full \<longleftrightarrow> insert f A = set fs" using B(2) iff by simp
  have rb': "rb_addFragment (word_of_int (dg_offset f)) (word_of_int (dg_offset f + (dg_byteLength f - dg_headerLength f))) (\<not> dg_mf f) (db_buf ?old) = (full, b')"
    using rb fragment_of_sel [OF F] by simp
  let ?s = "case db_datagram ?old of None \<Rightarrow> f | Some s \<Rightarrow> s"
  have old_dg: "db_datagram ?old = None \<or> (\<exists>g\<in>A. db_datagram ?old = Some g)" using h by (auto simp: fb_holds_def split: option.splits)
  have s_in: "?s \<in> insert f A" using old_dg by auto
  then have s_fs: "?s \<in> set fs" using A f by auto
  have pay: "dg_payload g = dg_payload w" if "g \<in> set fs" for g
    using R(3) [OF that] by (cases "range_of g") (simp add: fragment_of_fields)
  have st: "store_fragment (db_datagram ?old) f = ?s"
    by (rule store_fragment_not_raw) (use raw pay [OF f] old_dg pay A in auto)
  show ?thesis
  proof (cases full)
    case False
    then have "addFragment deser f now bufs = Inr (None, Mapping.update (frag_key w) \<lparr>db_buf = b', db_datagram = Some ?s, db_lastupdate = now\<rparr> bufs)"
      using rb' st by (simp add: addFragment_def Let_def frag_key_fragment [OF F])
    moreover have "fb_holds w n ?S t0 (insert f A) (Mapping.update (frag_key w) \<lparr>db_buf = b', db_datagram = Some ?s, db_lastupdate = now\<rparr> bufs)"
      using B(1) uv t s_in by (auto simp: fb_holds_def lookup_update')
    ultimately show ?thesis using False full by auto
  next
    case True
    have "Mapping.lookup bufs (frag_key w) \<noteq> None"
    proof
      assume "Mapping.lookup bufs (frag_key w) = None"
      then have "A = {}" using h by (simp add: fb_holds_def)
      moreover have "distinct fs" using chain_distinct [OF c] R(1) by (metis distinct_map)
      ultimately have "card (set fs) = length fs" "set fs = {f}" using True full by (auto simp: distinct_card)
      with two show False by simp
    qed
    moreover have "finish_datagram deser b' ?s = Inr (w\<lparr>dg_ttl := dg_ttl ?s\<rparr>)"
      by (rule finish_fragment [OF w R(3) [OF s_fs]]) (use pay [OF s_fs] raw B(3) True in auto)
    ultimately have "addFragment deser f now bufs = Inr (Some (w\<lparr>dg_ttl := dg_ttl ?s\<rparr>), Mapping.delete (frag_key w) bufs)"
      using rb' st True by (auto simp: addFragment_def Let_def frag_key_fragment [OF F])
    with True full s_fs show ?thesis by auto
  qed
qed

text \<open>Every buffer has a datagram to report; purging removes stale buffers only.\<close>

definition frag_ok :: "'p frag_buf \<Rightarrow> bool" where
  "frag_ok bufs \<longleftrightarrow> (\<forall>k b. Mapping.lookup bufs k = Some b \<longrightarrow> db_datagram b \<noteq> None)"

lemma frag_ok_lookup:
  assumes "frag_ok bufs" and "Mapping.lookup bufs k = Some b"
  obtains d where "db_datagram b = Some d"
  using assms unfolding frag_ok_def by fast

lemma frag_ok_empty: "frag_ok Mapping.empty"
  by (simp add: frag_ok_def)

lemma frag_ok_update: "frag_ok bufs \<Longrightarrow> frag_ok (Mapping.update k \<lparr>db_buf = b, db_datagram = Some d, db_lastupdate = t\<rparr> bufs)"
  unfolding frag_ok_def by (metis (no_types) datagram_buffer.select_convs(2) lookup_update' option.inject option.simps(3))

lemma frag_ok_delete: "frag_ok bufs \<Longrightarrow> frag_ok (Mapping.delete k bufs)"
  unfolding frag_ok_def by (metis lookup_delete lookup_delete_neq option.simps(3))

lemma addFragment_frag_ok: "addFragment deser d now bufs = Inr (r, bufs') \<Longrightarrow> frag_ok bufs \<Longrightarrow> frag_ok bufs'"
  by (auto simp: addFragment_def Let_def andThen_Inr_iff frag_ok_update frag_ok_delete split: prod.splits if_splits)

lemma purge_one_frag_ok:
  assumes "frag_ok bufs"
  shows "\<exists>bufs' out'. purge_one lastupdate k (bufs, out) = Inr (bufs', out') \<and> frag_ok bufs'"
proof (cases "Mapping.lookup bufs k")
  case (Some b)
  with assms obtain d where "db_datagram b = Some d" by (rule frag_ok_lookup)
  with Some assms show ?thesis by (simp add: purge_one_def frag_ok_delete)
qed (use assms in \<open>simp add: purge_one_def\<close>)

lemma purge_frag_ok:
  assumes "frag_ok bufs"
  shows "\<exists>bufs' out. purgeStaleFragments lastupdate bufs = Inr (bufs', out) \<and> frag_ok bufs'"
proof -
  have "\<exists>bufs' out'. foldR (purge_one lastupdate) ks (bufs, out) = Inr (bufs', out') \<and> frag_ok bufs'"
    if "frag_ok bufs" for ks out and bufs :: "'a frag_buf"
    using that
  proof (induction ks arbitrary: bufs out)
    case (Cons k ks)
    obtain bufs1 out1 where "purge_one lastupdate k (bufs, out) = Inr (bufs1, out1)" "frag_ok bufs1"
      using purge_one_frag_ok [OF Cons.prems] by blast
    with Cons.IH [of bufs1 out1] show ?case by simp
  qed simp
  from this [OF assms] show ?thesis by (simp add: purgeStaleFragments_def)
qed

lemma purge_keeps:
  assumes "purgeStaleFragments lastupdate bufs = Inr (bufs', out)" and "case Mapping.lookup bufs k of None \<Rightarrow> True | Some b \<Rightarrow> lastupdate \<le> db_lastupdate b"
  shows "Mapping.lookup bufs' k = Mapping.lookup bufs k"
proof -
  let ?P = "\<lambda>st :: 'a frag_buf \<times> 'a ip_out list. Mapping.lookup (fst st) k = Mapping.lookup bufs k"
  have "?P (bufs', out)"
  proof (rule foldR_invariant [where P = ?P])
    show "foldR (purge_one lastupdate) (Mapping.ordered_keys bufs) (bufs, []) = Inr (bufs', out)" using assms(1) by (simp add: purgeStaleFragments_def)
    show "?P st'" if "purge_one lastupdate x st = Inr st'" "?P st" for x st st'
      using that assms(2) by (auto simp: purge_one_def lookup_delete' split: prod.splits option.splits if_splits)
  qed simp
  then show ?thesis by simp
qed

text \<open>What purging does: the stale buffers go, each with an error message for its datagram, in the order of the keys.\<close>

definition stale :: "simtime \<Rightarrow> 'p frag_buf \<Rightarrow> frag_key \<Rightarrow> bool" where
  "stale lastupdate bufs k = (case Mapping.lookup bufs k of None \<Rightarrow> False | Some b \<Rightarrow> db_lastupdate b < lastupdate)"

definition time_exceeded :: "'p frag_buf \<Rightarrow> frag_key \<Rightarrow> 'p ip_out" where
  "time_exceeded bufs k = IcmpError (the (db_datagram (the (Mapping.lookup bufs k)))) (-1) ICMP_TIME_EXCEEDED 0"

lemma purge_run:
  assumes "frag_ok bufs" and "distinct ks"
  shows "\<exists>bufs'. foldR (purge_one lastupdate) ks (bufs, out) = Inr (bufs', out @ map (time_exceeded bufs) (filter (stale lastupdate bufs) ks))
    \<and> (\<forall>k. Mapping.lookup bufs' k = (if k \<in> set ks \<and> stale lastupdate bufs k then None else Mapping.lookup bufs k))"
  using assms
proof (induction ks arbitrary: bufs out)
  case (Cons k ks)
  define m where "m = (if stale lastupdate bufs k then Mapping.delete k bufs else bufs)"
  let ?o = "if stale lastupdate bufs k then out @ [time_exceeded bufs k] else out"
  have one: "purge_one lastupdate k (bufs, out) = Inr (m, ?o)"
  proof (cases "Mapping.lookup bufs k")
    case (Some b)
    with Cons.prems(1) obtain d where "db_datagram b = Some d" by (rule frag_ok_lookup)
    with Some show ?thesis by (simp add: purge_one_def stale_def time_exceeded_def m_def)
  qed (simp add: purge_one_def stale_def m_def)
  have m: "Mapping.lookup m x = (if x = k \<and> stale lastupdate bufs k then None else Mapping.lookup bufs x)" for x by (simp add: lookup_delete' m_def)
  then have same: "Mapping.lookup m x = Mapping.lookup bufs x" if "x \<in> set ks" for x using that Cons.prems(2) by auto
  then have st: "\<forall>x\<in>set ks. stale lastupdate m x = stale lastupdate bufs x \<and> time_exceeded m x = time_exceeded bufs x"
    by (simp add: stale_def time_exceeded_def)
  have out: "map (time_exceeded m) (filter (stale lastupdate m) ks) = map (time_exceeded bufs) (filter (stale lastupdate bufs) ks)"
    using st by (auto cong: filter_cong)
  have "frag_ok m" using Cons.prems(1) frag_ok_delete [of bufs k] by (simp add: m_def)
  from Cons.IH [OF this, of ?o] Cons.prems(2) obtain bufs' where
    IH: "foldR (purge_one lastupdate) ks (m, ?o) = Inr (bufs', ?o @ map (time_exceeded m) (filter (stale lastupdate m) ks))"
      "\<And>x. Mapping.lookup bufs' x = (if x \<in> set ks \<and> stale lastupdate m x then None else Mapping.lookup m x)" by auto
  have "foldR (purge_one lastupdate) (k # ks) (bufs, out) = Inr (bufs', out @ map (time_exceeded bufs) (filter (stale lastupdate bufs) (k # ks)))"
    using one IH(1) unfolding out by simp
  moreover have "Mapping.lookup bufs' x = (if x \<in> set (k # ks) \<and> stale lastupdate bufs x then None else Mapping.lookup bufs x)" for x
    using IH(2) [of x] st m [of x] Cons.prems(2) by (cases "x = k"; cases "x \<in> set ks") simp_all
  ultimately show ?case by blast
qed simp

lemma purgeStaleFragments_exact:
  assumes "frag_ok bufs" and "finite (Mapping.keys bufs)"
  shows "\<exists>bufs'. purgeStaleFragments lastupdate bufs = Inr (bufs', map (time_exceeded bufs) (filter (stale lastupdate bufs) (Mapping.ordered_keys bufs)))
    \<and> (\<forall>k. Mapping.lookup bufs' k = (if stale lastupdate bufs k then None else Mapping.lookup bufs k))"
proof -
  have set: "set (Mapping.ordered_keys bufs) = Mapping.keys bufs" and d: "distinct (Mapping.ordered_keys bufs)"
    using assms(2) by (simp_all add: Mapping.ordered_keys_def)
  have "k \<in> Mapping.keys bufs" if "stale lastupdate bufs k" for k using that by (auto simp: stale_def keys_dom_lookup split: option.splits)
  with purge_run [OF assms(1) d, of lastupdate "[]"] show ?thesis unfolding purgeStaleFragments_def set by fastforce
qed

definition receive :: "'p deserializer \<Rightarrow> simtime \<Rightarrow> simtime \<times> 'p ipv4_datagram \<Rightarrow> 'p ip_reassembly \<Rightarrow> 'p ip_reassembly result" where
  "receive deser fragmentTimeoutTime e st =
     andThen (reassemble deser fragmentTimeoutTime (fst e) (snd e) st) (\<lambda>(_, _, st). Inr st)"

lemma purge_if_due_frag_ok:
  assumes "frag_ok (ip_fragbuf st)"
  shows "\<exists>st' out. purge_if_due tmo now st = Inr (st', out) \<and> frag_ok (ip_fragbuf st')"
  using purge_frag_ok [OF assms, of "now - tmo"] assms by (auto simp: purge_if_due_def)

lemma purge_if_due_holds:
  assumes "purge_if_due tmo t st = Inr (st', out)" and "fb_holds w n S t0 A (ip_fragbuf st)" and "t - tmo \<le> t0"
  shows "fb_holds w n S t0 A (ip_fragbuf st')"
proof (cases "ip_lastCheckTime st + 10 \<le> t")
  case True
  with assms(1) have p: "purgeStaleFragments (t - tmo) (ip_fragbuf st) = Inr (ip_fragbuf st', out)"
    by (auto simp: purge_if_due_def andThen_Inr_iff)
  have "Mapping.lookup (ip_fragbuf st') (frag_key w) = Mapping.lookup (ip_fragbuf st) (frag_key w)"
    by (rule purge_keeps [OF p]) (use assms(2,3) in \<open>auto simp: fb_holds_def split: option.splits\<close>)
  with assms(2) show ?thesis by (simp add: fb_holds_def)
qed (use assms in \<open>simp add: purge_if_due_def\<close>)

lemma chain_whole: "chain 0 n rs \<Longrightarrow> (0, n) \<in> set rs \<Longrightarrow> length rs = 1"
proof (cases rs)
  case (Cons r qs)
  assume c: "chain 0 n rs" and m: "(0, n) \<in> set rs"
  obtain y where r: "r = (0, y)" "0 < y" "chain y n qs" using c Cons by (cases r) auto
  have "(0, n) \<notin> set qs" using chain_range [OF r(3), of 0 n] r(2) by auto
  with m Cons r have "y = n" by auto
  with r(3) have "qs = []" by (cases qs) (use chain_le in \<open>fastforce\<close>)+
  with Cons show ?thesis by simp
qed simp

lemma fragment_is_fragment:
  assumes "chain 0 n rs" and "list_all2 (fragment_of w n) rs fs" and "1 < length fs" and "f \<in> set fs"
  shows "dg_offset f \<noteq> 0 \<or> dg_mf f"
proof (rule ccontr)
  assume no: "\<not> (dg_offset f \<noteq> 0 \<or> dg_mf f)"
  note R = fragments_ranges [OF assms(1,2)]
  obtain u v where uv: "range_of f = (u, v)" by force
  with R(3) [OF assms(4)] no have "u = 0" "v = n" by (auto simp: fragment_of_fields)
  then have "(0, n) \<in> set rs" using R(1) assms(4) uv by (metis image_eqI list.set_map)
  then have "length rs = 1" using chain_whole assms(1) by blast
  with assms(3) R(1) show False by (metis length_map less_irrefl)
qed

lemma receive_run:
  assumes w: "whole w n" and raw: "\<not> is_raw (dg_payload w)" and c: "chain 0 n rs" and fs: "list_all2 (fragment_of w n) rs fs"
    and two: "1 < length fs" and run: "foldR (receive deser tmo) arr st = Inr st'"
    and own: "\<forall>(t, d)\<in>set arr. t - tmo \<le> t0 \<and> (frag_key d = frag_key w \<longrightarrow> d \<in> set fs \<and> t0 \<le> t)"
    and inc: "\<not> set fs \<subseteq> A \<union> snd ` set arr" and ok: "frag_ok (ip_fragbuf st)" and h: "fb_holds w n (set rs) t0 A (ip_fragbuf st)" and A: "A \<subseteq> set fs"
  shows "frag_ok (ip_fragbuf st') \<and> fb_holds w n (set rs) t0 (A \<union> (set fs \<inter> snd ` set arr)) (ip_fragbuf st')"
  using run own inc ok h A
proof (induction arr arbitrary: st A)
  case (Cons e arr)
  obtain t d where e: "e = (t, d)" by force
  from Cons.prems(1) obtain st1 where r1: "receive deser tmo (t, d) st = Inr st1" and r2: "foldR (receive deser tmo) arr st1 = Inr st'"
    unfolding e by (auto simp: andThen_Inr_iff)
  have key: "d \<in> set fs \<longleftrightarrow> frag_key d = frag_key w"
    using Cons.prems(2) e fragments_ranges(3) [OF c fs] frag_key_fragment by fastforce
  let ?A = "A \<union> (set fs \<inter> {d})"
  have step: "frag_ok (ip_fragbuf st1) \<and> fb_holds w n (set rs) t0 ?A (ip_fragbuf st1)"
  proof (cases "dg_offset d \<noteq> 0 \<or> dg_mf d")
    case False
    then have "st1 = st" "d \<notin> set fs" using r1 fragment_is_fragment [OF c fs two] by (auto simp: receive_def reassemble_def)
    with Cons.prems(4,5) show ?thesis by simp
  next
    case True
    obtain st0 out where p: "purge_if_due tmo t st = Inr (st0, out)" "frag_ok (ip_fragbuf st0)"
      using purge_if_due_frag_ok [OF Cons.prems(4)] by blast
    have h0: "fb_holds w n (set rs) t0 A (ip_fragbuf st0)"
      using purge_if_due_holds [OF p(1) Cons.prems(5)] Cons.prems(2) e by simp
    from r1 True p(1) obtain r bufs where a: "addFragment deser d t (ip_fragbuf st0) = Inr (r, bufs)" "ip_fragbuf st1 = bufs"
      by (auto simp: receive_def reassemble_def andThen_Inr_iff)
    have "fb_holds w n (set rs) t0 ?A bufs"
    proof (cases "d \<in> set fs")
      case False
      then have "Mapping.lookup bufs (frag_key w) = Mapping.lookup (ip_fragbuf st0) (frag_key w)"
        using addFragment_other_key [OF a(1)] key by blast
      with h0 False show ?thesis by (simp add: fb_holds_def)
    next
      case True
      have "A \<subset> set fs" "insert d A \<noteq> set fs" "t0 \<le> t" using Cons.prems(2,3,6) e True key by auto
      with addFragment_fragment [OF w raw c fs two _ h0 True, of t deser] a(1) have "fb_holds w n (set rs) t0 (insert d A) bufs" by simp
      moreover have "?A = insert d A" using True by auto
      ultimately show ?thesis by (simp only:)
    qed
    with a(2) addFragment_frag_ok [OF a(1) p(2)] show ?thesis by simp
  qed
  have "frag_ok (ip_fragbuf st') \<and> fb_holds w n (set rs) t0 (?A \<union> (set fs \<inter> snd ` set arr)) (ip_fragbuf st')"
    by (rule Cons.IH [OF r2]) (use step Cons.prems(2,3,6) e in auto)
  moreover have "?A \<union> (set fs \<inter> snd ` set arr) = A \<union> (set fs \<inter> snd ` set (e # arr))" using e by auto
  ultimately show ?case by simp
qed simp

text \<open>
  C29: The round trip of fragmentation. A datagram is sent, and fragmented and fragmented again on its way by any routers with
  any MTUs; the receiver sees any of the fragments in any order, repeated, late, mixed with other datagrams, and purges its
  stale buffers when it is due. As long as a fragment is missing nothing is delivered, and the arrival of the last missing one
  gives the datagram back as it was sent, but for the hop counter, which is that of one of the fragments.
\<close>

theorem fragments_reassemble:
  assumes w: "whole w n" and raw: "\<not> is_raw (dg_payload w)" and sent: "travels w fs" and two: "1 < length fs"
    and ok: "frag_ok (ip_fragbuf st)" and fresh: "Mapping.lookup (ip_fragbuf st) (frag_key w) = None"
    and run: "foldR (receive deser tmo) arr st = Inr st'" and tmo: "0 \<le> tmo"
    and own: "\<forall>(t, d)\<in>set arr. t \<le> now \<and> (frag_key d = frag_key w \<longrightarrow> d \<in> set fs \<and> now - tmo \<le> t)"
    and inc: "\<not> set fs \<subseteq> snd ` set arr" and f: "f \<in> set fs"
  shows "\<exists>r out st''. reassemble deser tmo now f st' = Inr (r, out, st'')
    \<and> (if set fs \<subseteq> insert f (snd ` set arr) then \<exists>g\<in>set fs. r = Some (w\<lparr>dg_ttl := dg_ttl g\<rparr>) else r = None)"
proof -
  obtain rs where c: "chain 0 n rs" and fs: "list_all2 (fragment_of w n) rs fs" using travels_chain [OF sent w] by blast
  let ?A = "set fs \<inter> snd ` set arr" and ?t0 = "now - tmo"
  have run': "frag_ok (ip_fragbuf st') \<and> fb_holds w n (set rs) ?t0 ({} \<union> ?A) (ip_fragbuf st')"
    by (rule receive_run [OF w raw c fs two run _ _ ok]) (use own inc fresh in \<open>auto simp: fb_holds_def\<close>)
  then obtain st1 out where p: "purge_if_due tmo now st' = Inr (st1, out)" using purge_if_due_frag_ok by blast
  have h: "fb_holds w n (set rs) ?t0 ?A (ip_fragbuf st1)" using purge_if_due_holds [OF p] run' by simp
  have A: "?A \<subset> set fs" "insert f ?A = set fs \<longleftrightarrow> set fs \<subseteq> insert f (snd ` set arr)" using inc f by auto
  have t: "?t0 \<le> now" using tmo by simp
  obtain r bufs where a: "addFragment deser f now (ip_fragbuf st1) = Inr (r, bufs)"
    and r: "if insert f ?A = set fs then \<exists>g\<in>set fs. r = Some (w\<lparr>dg_ttl := dg_ttl g\<rparr>) else r = None \<and> fb_holds w n (set rs) ?t0 (insert f ?A) bufs"
    using addFragment_fragment [OF w raw c fs two A(1) h f t, of deser] by blast
  have "dg_offset f \<noteq> 0 \<or> dg_mf f" by (rule fragment_is_fragment [OF c fs two f])
  then have "reassemble deser tmo now f st' = Inr (r, out, st1\<lparr>ip_fragbuf := bufs\<rparr>)" using p a by (simp add: reassemble_def)
  with r show ?thesis unfolding A(2) by (auto split: if_splits)
qed

definition witness_datagram :: "nat ipv4_datagram" where
  "witness_datagram = \<lparr>dg_headerLength = 20, dg_byteLength = 1020, dg_src = 1, dg_dest = 2, dg_protocol = 17, dg_ttl = 9, dg_id = 5,
     dg_mf = False, dg_df = False, dg_offset = 0, dg_payload = Some (Pkt 7)\<rparr>"

definition witness_fragments :: "nat ipv4_datagram list" where
  "witness_fragments = [witness_datagram\<lparr>dg_byteLength := 572, dg_mf := True\<rparr>, witness_datagram\<lparr>dg_byteLength := 468, dg_offset := 552\<rparr>]"

lemma witness_travels: "travels witness_datagram witness_fragments"
proof -
  have "fragmentAndSend 1 576 witness_datagram 0 = Inr (0, map ToOutput witness_fragments)"
    by (simp add: fragmentAndSend_def Let_def witness_datagram_def witness_fragments_def fragment_loop.simps signed_divide_int_def)
  then show ?thesis using travels.send [where xs = "[]" and ys = "[]" and f = witness_datagram] travels.start by fastforce
qed

lemma fragments_reassemble_witness:
  "\<exists>r out st''. reassemble (\<lambda>_ _ _ _. None) 60 2 (hd witness_fragments) (\<lparr>ip_fragbuf = Mapping.update (frag_key witness_datagram)
      \<lparr>db_buf = rb_merge 552 1000 True new_reassembly_buffer, db_datagram = Some (witness_fragments ! 1), db_lastupdate = 1\<rparr> Mapping.empty,
      ip_lastCheckTime = 0\<rparr>) = Inr (r, out, st'') \<and> (\<exists>g\<in>set witness_fragments. r = Some (witness_datagram\<lparr>dg_ttl := dg_ttl g\<rparr>))"
proof -
  let ?arr = "[(1, witness_fragments ! 1)]"
  have run: "foldR (receive (\<lambda>_ _ _ _. None) 60) ?arr new_ip_reassembly = Inr \<lparr>ip_fragbuf = Mapping.update (frag_key witness_datagram)
      \<lparr>db_buf = rb_merge 552 1000 True new_reassembly_buffer, db_datagram = Some (witness_fragments ! 1), db_lastupdate = 1\<rparr> Mapping.empty,
      ip_lastCheckTime = 0\<rparr>"
    by (simp add: receive_def reassemble_def purge_if_due_def new_ip_reassembly_def addFragment_def Let_def witness_fragments_def witness_datagram_def
        frag_key_def rb_addFragment_def rb_merge_def new_reassembly_buffer_def store_fragment_def store_first_def)
  have "whole witness_datagram 1000" "\<not> is_raw (dg_payload witness_datagram)" by (simp_all add: whole_def witness_datagram_def)
  from fragments_reassemble [OF this witness_travels _ _ _ run, of 2 "hd witness_fragments"] show ?thesis
    by (simp add: witness_fragments_def new_ip_reassembly_def frag_ok_empty)
       (simp add: witness_datagram_def)
qed

subsection \<open>Fragments with raw bytes\<close>

text \<open>
  When a datagram arrives in two raw fragments, the deserialiser gets the bytes of the first one only: \<open>copyDataFromBuffer\<close>
  enlarges the array without updating its size. The reassembled packet is what the first fragment alone parses to.
\<close>

theorem raw_reassembly_sees_first_fragment:
  assumes fresh: "Mapping.lookup bufs (frag_key f) = None" and key: "frag_key g = frag_key f"
    and f: "dg_offset f = 0" "dg_mf f" "dg_byteLength f = dg_headerLength f + int (length A)" "0 \<le> dg_headerLength f"
      "dg_payload f = Some (RawPkt \<lparr>rp_byteArray = \<lparr>ba_data = map Some A, ba_size = length A\<rparr>, rp_byteLength = int (length A)\<rparr>)"
    and g: "dg_offset g = int (length A)" "\<not> dg_mf g" "dg_byteLength g = dg_headerLength g + int (length B)"
      "dg_payload g = Some (RawPkt \<lparr>rp_byteArray = \<lparr>ba_data = map Some B, ba_size = length B\<rparr>, rp_byteLength = int (length B)\<rparr>)"
    and len: "A \<noteq> []" "B \<noteq> []" "length A + length B < 65536"
    and deser: "deser (map Some A) (dg_src f) (dg_dest f) (dg_protocol f) = Some enc"
  shows "\<exists>bufs1 bufs2 r. addFragment deser f t bufs = Inr (None, bufs1) \<and> addFragment deser g t' bufs1 = Inr (Some r, bufs2)
    \<and> dg_payload r = Some (Pkt (fst enc)) \<and> dg_byteLength r = dg_headerLength f + int (length A) + snd enc"
proof -
  let ?a = "length A" and ?n = "length A + length B"
  have w: "(0 :: 16 word) \<noteq> of_nat ?a" "(of_nat ?a :: 16 word) \<noteq> 0" "unat (of_nat ?n :: 16 word) = ?n"
    using len word_offset(1) [of 0 ?a] by (auto simp: unat_of_nat simp del: of_nat_add)
  let ?b1 = "\<lparr>rb_main = \<lparr>r_beg = 0, r_end = of_nat ?a, r_islast = False\<rparr>, rb_fragments = None\<rparr>"
  let ?b2 = "\<lparr>rb_main = \<lparr>r_beg = 0, r_end = of_nat ?n, r_islast = True\<rparr>, rb_fragments = None\<rparr>"
  have rb1: "rb_addFragment 0 (of_nat ?a) False new_reassembly_buffer = (False, ?b1)"
    by (simp add: rb_addFragment_def rb_merge_def new_reassembly_buffer_def merge_if_any_def)
  have rb2: "rb_addFragment (of_nat ?a) (of_nat ?n) True ?b1 = (True, ?b2)"
    by (simp add: rb_addFragment_def rb_merge_def merge_if_any_def)
  have s1: "store_fragment None f = f" by (simp add: store_fragment_def store_first_def f)
  let ?db = "\<lparr>db_buf = ?b1, db_datagram = Some f, db_lastupdate = t\<rparr>"
  have 1: "addFragment deser f t bufs = Inr (None, Mapping.update (frag_key f) ?db bufs)"
    using rb1 s1 by (simp add: addFragment_def Let_def fresh f)
  let ?s = "f\<lparr>dg_payload := Some (RawPkt \<lparr>rp_byteArray = \<lparr>ba_data = map Some (A @ B), ba_size = ?a\<rparr>, rp_byteLength = int (length B)\<rparr>)\<rparr>"
  have s2: "store_fragment (Some f) g = ?s"
    using f(5) g len(2) by (simp add: store_fragment_def merge_raw_def copyDataFromBuffer_def visible_def Let_def)
  have "uint (getTotalLength ?b2) = int ?n" using w(3) by (simp add: getTotalLength_def uint_nat)
  moreover have "0 < length A" using len(1) by simp
  with f(4) have "0 < dg_headerLength f + (int (length A) + int (length B))" by linarith
  ultimately have "finish_datagram deser ?b2 ?s = Inr (f\<lparr>dg_payload := Some (Pkt (fst enc)), dg_byteLength := dg_headerLength f + int ?a + snd enc,
      dg_offset := 0, dg_mf := False\<rparr>)"
    using deser f(4) len(1,2) by (auto simp: finish_datagram_def replace_payload_def visible_def Let_def intro!: ipv4_datagram.equality)
  then obtain r where r: "finish_datagram deser ?b2 ?s = Inr r" "dg_payload r = Some (Pkt (fst enc))"
    "dg_byteLength r = dg_headerLength f + int ?a + snd enc" by simp
  have "addFragment deser g t' (Mapping.update (frag_key f) ?db bufs) = Inr (Some r, Mapping.delete (frag_key f) (Mapping.update (frag_key f) ?db bufs))"
    using rb2 s2 r(1) by (simp add: addFragment_def Let_def key g)
  with 1 r(2,3) show ?thesis by blast
qed

lemma raw_reassembly_sees_first_fragment_witness:
  "\<exists>f g :: nat ipv4_datagram. \<exists>bufs1 bufs2 r. addFragment (\<lambda>bs _ _ _. Some (length bs, 0)) f 0 Mapping.empty = Inr (None, bufs1)
    \<and> addFragment (\<lambda>bs _ _ _. Some (length bs, 0)) g 1 bufs1 = Inr (Some r, bufs2) \<and> dg_payload r = Some (Pkt 8)"
proof -
  let ?raw = "\<lambda>A :: 8 word list. Some (RawPkt \<lparr>rp_byteArray = \<lparr>ba_data = map Some A, ba_size = length A\<rparr>, rp_byteLength = int (length A)\<rparr>)"
  let ?f = "witness_datagram\<lparr>dg_byteLength := 28, dg_mf := True, dg_payload := ?raw (replicate 8 1)\<rparr>"
  let ?g = "witness_datagram\<lparr>dg_byteLength := 24, dg_offset := 8, dg_payload := ?raw (replicate 4 2)\<rparr>"
  have "\<exists>bufs1 bufs2 r. addFragment (\<lambda>bs _ _ _. Some (length bs, 0)) ?f 0 Mapping.empty = Inr (None, bufs1)
    \<and> addFragment (\<lambda>bs _ _ _. Some (length bs, 0)) ?g 1 bufs1 = Inr (Some r, bufs2) \<and> dg_payload r = Some (Pkt (fst (8 :: nat, 0 :: int)))
    \<and> dg_byteLength r = dg_headerLength ?f + int (length (replicate 8 (1 :: 8 word))) + snd (8 :: nat, 0 :: int)"
    by (rule raw_reassembly_sees_first_fragment [where A = "replicate 8 1" and B = "replicate 4 2"])
      (simp_all add: witness_datagram_def frag_key_def)
  then show ?thesis unfolding fst_conv by blast
qed

end
