(* ===== verification/IPv4Address.thy ===== *)
theory IPv4Address
  imports Prelude
begin

unbundle bit_operations_syntax

text \<open>
  \<open>networklayer/contract/ipv4/IPv4Address\<close>: IPv4 addresses and netmasks as the \<open>uint32\<close> the class holds. A valid netmask is a
  block of ones before a block of zeros; comparing valid netmasks as numbers compares the lengths of their prefixes, and two
  addresses agree under one exactly when they agree in the bits of the prefix.
\<close>

type_synonym ipv4_address = "32 word"

definition ip_isUnspecified :: "ipv4_address \<Rightarrow> bool" where
  "ip_isUnspecified a \<longleftrightarrow> a = 0"

definition ip_set :: "int \<Rightarrow> int \<Rightarrow> int \<Rightarrow> int \<Rightarrow> ipv4_address" where
  "ip_set i0 i1 i2 i3 = push_bit 24 (word_of_int i0) OR push_bit 16 (word_of_int i1) OR push_bit 8 (word_of_int i2) OR word_of_int i3"

definition getDByte :: "ipv4_address \<Rightarrow> nat \<Rightarrow> ipv4_address" where
  "getDByte a i = drop_bit ((3 - i) * 8) a AND 0xFF"

definition isLimitedBroadcastAddress :: "ipv4_address \<Rightarrow> bool" where
  "isLimitedBroadcastAddress a \<longleftrightarrow> a = 0xFFFFFFFF"

definition isMulticast :: "ipv4_address \<Rightarrow> bool" where
  "isMulticast a \<longleftrightarrow> a AND 0xF0000000 = 0xE0000000"

definition isUnicast :: "ipv4_address \<Rightarrow> bool" where
  "isUnicast a \<longleftrightarrow> \<not> isMulticast a \<and> \<not> isLimitedBroadcastAddress a"

definition isLinkLocalMulticast :: "ipv4_address \<Rightarrow> bool" where
  "isLinkLocalMulticast a \<longleftrightarrow> a AND 0xFFFFFF00 = 0xE0000000"

subsection \<open>Netmasks\<close>

definition raw_netmask :: "int \<Rightarrow> ipv4_address" where
  "raw_netmask k = (if 32 \<le> k then 0xffffffff else NOT (drop_bit (nat k) 0xffffffff))"

definition makeNetmask :: "int \<Rightarrow> ipv4_address result" where
  "makeNetmask k =
     (if k < 0 \<or> 32 < k then Inl (RuntimeError ''IPv4Address: wrong netmask length (not in 0..32)'') else Inr (raw_netmask k))"

definition getNetmaskLength :: "ipv4_address \<Rightarrow> int" where
  "getNetmaskLength a = (case List.find (\<lambda>i. a AND push_bit i 1 \<noteq> 0) [0..<32] of Some i \<Rightarrow> 32 - int i | None \<Rightarrow> 0)"

definition isValidNetmask :: "ipv4_address \<Rightarrow> bool" where
  "isValidNetmask a \<longleftrightarrow> a = raw_netmask (getNetmaskLength a)"

definition maskedAddrAreEqual :: "ipv4_address \<Rightarrow> ipv4_address \<Rightarrow> ipv4_address \<Rightarrow> bool" where
  "maskedAddrAreEqual a b netmask \<longleftrightarrow> (a XOR b) AND netmask = 0"

definition makeBroadcastAddress :: "ipv4_address \<Rightarrow> ipv4_address \<Rightarrow> ipv4_address" where
  "makeBroadcastAddress a netmask = a OR NOT netmask"

definition getPrefix :: "ipv4_address \<Rightarrow> int \<Rightarrow> ipv4_address result" where
  "getPrefix a k = andThen (makeNetmask k) (\<lambda>m. Inr (a AND m))"

definition prefixMatches :: "ipv4_address \<Rightarrow> ipv4_address \<Rightarrow> int \<Rightarrow> bool" where
  "prefixMatches a b k =
     (if k < 1 then True else if 31 < k then a = b else a AND raw_netmask k = b AND raw_netmask k)"

definition getNumMatchingPrefixBits :: "ipv4_address \<Rightarrow> ipv4_address \<Rightarrow> int" where
  "getNumMatchingPrefixBits a b =
     (case List.find (\<lambda>i. (a XOR b) AND push_bit i 1 \<noteq> 0) (rev [0..<32]) of Some i \<Rightarrow> 31 - int i | None \<Rightarrow> 32)"

lemma all_ones: "(0xffffffff :: 32 word) = - 1"
  by simp

lemma raw_netmask_bit: "0 \<le> k \<Longrightarrow> k \<le> 32 \<Longrightarrow> i < 32 \<Longrightarrow> bit (raw_netmask k) i \<longleftrightarrow> 32 - nat k \<le> i"
  unfolding raw_netmask_def all_ones by (auto simp: bit_simps)

lemma netmask_table:
  "sorted_wrt (<) (map (\<lambda>k. raw_netmask (int k)) [0..<33])" "\<forall>k\<in>set [0..<33]. getNetmaskLength (raw_netmask (int k)) = int k"
  by code_simp+

lemma getNetmaskLength_raw: "0 \<le> k \<Longrightarrow> k \<le> 32 \<Longrightarrow> getNetmaskLength (raw_netmask k) = k"
  using netmask_table(2) [rule_format, of "nat k"] by simp

lemma raw_netmask_less: "0 \<le> j \<Longrightarrow> j < k \<Longrightarrow> k \<le> 32 \<Longrightarrow> raw_netmask j < raw_netmask k"
  using sorted_wrt_nth_less [OF netmask_table(1), of "nat j" "nat k"] by (simp del: upt_rec_numeral)

lemma getNetmaskLength_range: "0 \<le> getNetmaskLength a" "getNetmaskLength a \<le> 32"
  by (auto simp: getNetmaskLength_def find_Some_iff split: option.splits)

text \<open>Comparing valid netmasks compares the lengths of their prefixes.\<close>

lemma netmask_le_iff:
  assumes "isValidNetmask a" and "isValidNetmask b"
  shows "a \<le> b \<longleftrightarrow> getNetmaskLength a \<le> getNetmaskLength b"
proof -
  have a: "a = raw_netmask (getNetmaskLength a)" and b: "b = raw_netmask (getNetmaskLength b)" using assms by (simp_all add: isValidNetmask_def)
  consider "getNetmaskLength a < getNetmaskLength b" | "getNetmaskLength a = getNetmaskLength b" | "getNetmaskLength b < getNetmaskLength a" by linarith
  then show ?thesis
  proof cases
    case 1
    with a b raw_netmask_less getNetmaskLength_range show ?thesis by (metis less_imp_le)
  next
    case 2
    with a b show ?thesis by (metis order_refl)
  next
    case 3
    with a b raw_netmask_less getNetmaskLength_range show ?thesis by (metis leD)
  qed
qed

text \<open>Two addresses agree under a valid netmask exactly when their prefixes of its length are equal.\<close>

lemma maskedAddrAreEqual_prefix:
  assumes "isValidNetmask m"
  shows "maskedAddrAreEqual a b m \<longleftrightarrow> drop_bit (32 - nat (getNetmaskLength m)) a = drop_bit (32 - nat (getNetmaskLength m)) b"
proof -
  let ?k = "getNetmaskLength m"
  have m: "bit m i \<longleftrightarrow> 32 - nat ?k \<le> i" if "i < 32" for i
    using assms raw_netmask_bit [OF getNetmaskLength_range that, of m] unfolding isValidNetmask_def by (rule ssubst)
  have "maskedAddrAreEqual a b m \<longleftrightarrow> (\<forall>i<32. 32 - nat ?k \<le> i \<longrightarrow> bit a i = bit b i)"
    by (auto simp: maskedAddrAreEqual_def bit_eq_iff bit_simps m)
  also have "\<dots> \<longleftrightarrow> (\<forall>i<32. bit a (32 - nat ?k + i) = bit b (32 - nat ?k + i))"
    (is "(\<forall>i<32. ?s \<le> i \<longrightarrow> ?P i) \<longleftrightarrow> (\<forall>i<32. ?P (?s + i))")
  proof (rule iffI; intro allI impI)
    fix i :: nat
    assume h: "\<forall>i<32. ?P (?s + i)" and i: "i < 32" "?s \<le> i"
    then have "i - ?s < 32" "?s + (i - ?s) = i" by linarith+
    then show "?P i" using h by metis
  next
    fix i :: nat
    assume h: "\<forall>i<32. ?s \<le> i \<longrightarrow> ?P i"
    show "?P (?s + i)"
    proof (cases "?s + i < 32")
      case True
      with h show ?thesis by simp
    next
      case False
      then have "\<not> bit c (?s + i)" for c :: ipv4_address using bit_imp_le_length [of c "?s + i"] by auto
      then show ?thesis by simp
    qed
  qed
  also have "\<dots> \<longleftrightarrow> drop_bit (32 - nat ?k) a = drop_bit (32 - nat ?k) b"
    by (simp add: bit_eq_iff bit_drop_bit_eq)
  finally show ?thesis .
qed

end
