(* ===== verification/IPv4RoutingTable.thy ===== *)
theory IPv4RoutingTable
  imports IPv4Address "HOL-Library.Product_Lexorder"
begin

text \<open>
  \<open>networklayer/ipv4/IPv4RoutingTable\<close>, the unicast routes: a vector of pointers to route objects, kept in the order of
  \<open>routeLessThan\<close> so that the first route that matches is the best one, and a cache of lookups. Routes are objects that their
  owners change while they are in the table; every change is reported to it. Objects live in a heap, so that a pointer to a
  deleted route is an error of the model.
\<close>

datatype route_source = MANUAL | IFACENETMASK | ROUTER_ADVERTISEMENT | OWN_ADV_PREFIX | ICMP_REDIRECT | RIP | OSPF | BGP | ZEBRA
  | MANET | MANET2 | DYMO | AODV

datatype route_field = F_DESTINATION | F_PREFIX_LENGTH | F_NEXTHOP | F_IFACE | F_SOURCE | F_TYPE | F_ADMINDIST | F_METRIC | F_EXPIRYTIME

record ipv4_route =
  rt_listed :: bool
  rt_dest :: ipv4_address
  rt_netmask :: ipv4_address
  rt_gateway :: ipv4_address
  rt_interface :: "nat option"
  rt_sourceType :: route_source
  rt_adminDist :: "32 word"
  rt_metric :: int

record interface_data =
  id_address :: ipv4_address
  id_netmask :: ipv4_address
  id_metric :: int

record interface_entry =
  ie_id :: nat
  ie_name :: string
  ie_ipv4Data :: "interface_data option"

record routing_table =
  tb_routes :: "nat list"
  tb_heap :: "nat \<Rightarrow> ipv4_route option"
  tb_next :: nat
  tb_cache :: "ipv4_address \<Rightarrow> nat option option"
  tb_localAddresses :: "ipv4_address set"
  tb_useAdminDist :: bool

definition new_routing_table :: "bool \<Rightarrow> routing_table" where
  "new_routing_table useAdminDist =
     \<lparr>tb_routes = [], tb_heap = Map.empty, tb_next = 0, tb_cache = Map.empty, tb_localAddresses = {}, tb_useAdminDist = useAdminDist\<rparr>"

definition isValid :: "ipv4_route \<Rightarrow> bool" where
  "isValid r = True"

definition routeLessThan :: "bool \<Rightarrow> ipv4_route \<Rightarrow> ipv4_route \<Rightarrow> bool" where
  "routeLessThan useAdminDist a b =
     (if rt_netmask a \<noteq> rt_netmask b then rt_netmask b < rt_netmask a
      else if rt_dest a \<noteq> rt_dest b then rt_dest a < rt_dest b
      else if useAdminDist \<and> rt_adminDist a \<noteq> rt_adminDist b then rt_adminDist a < rt_adminDist b
      else rt_metric a < rt_metric b)"

definition deref :: "routing_table \<Rightarrow> nat \<Rightarrow> ipv4_route result" where
  "deref tb i = (case tb_heap tb i of None \<Rightarrow> Inl (UndefinedBehaviour ''IPv4RoutingTable: deleted route'') | Some r \<Rightarrow> Inr r)"

definition invalidateCache :: "routing_table \<Rightarrow> routing_table" where
  "invalidateCache tb = tb\<lparr>tb_cache := Map.empty, tb_localAddresses := {}\<rparr>"

subsection \<open>Lookups\<close>

fun find_match :: "routing_table \<Rightarrow> ipv4_address \<Rightarrow> nat list \<Rightarrow> nat option result" where
  "find_match tb dest [] = Inr None"
| "find_match tb dest (i # is) =
     andThen (deref tb i) (\<lambda>r. if isValid r \<and> maskedAddrAreEqual dest (rt_dest r) (rt_netmask r) then Inr (Some i) else find_match tb dest is)"

definition search_route :: "ipv4_address \<Rightarrow> routing_table \<Rightarrow> (nat option \<times> routing_table) result" where
  "search_route dest tb =
     andThen (find_match tb dest (tb_routes tb)) (\<lambda>bestRoute. Inr (bestRoute, tb\<lparr>tb_cache := (tb_cache tb)(dest \<mapsto> bestRoute)\<rparr>))"

definition findBestMatchingRoute :: "ipv4_address \<Rightarrow> routing_table \<Rightarrow> (nat option \<times> routing_table) result" where
  "findBestMatchingRoute dest tb =
     (case tb_cache tb dest of
        Some None \<Rightarrow> Inr (None, tb)
      | Some (Some i) \<Rightarrow> andThen (deref tb i) (\<lambda>r. if isValid r then Inr (Some i, tb) else search_route dest tb)
      | None \<Rightarrow> search_route dest tb)"

definition getInterfaceForDestAddr :: "ipv4_address \<Rightarrow> routing_table \<Rightarrow> (nat option \<times> routing_table) result" where
  "getInterfaceForDestAddr dest tb =
     andThen (findBestMatchingRoute dest tb)
       (\<lambda>(e, tb). case e of None \<Rightarrow> Inr (None, tb) | Some i \<Rightarrow> andThen (deref tb i) (\<lambda>r. Inr (rt_interface r, tb)))"

definition getGatewayForDestAddr :: "ipv4_address \<Rightarrow> routing_table \<Rightarrow> (ipv4_address \<times> routing_table) result" where
  "getGatewayForDestAddr dest tb =
     andThen (findBestMatchingRoute dest tb)
       (\<lambda>(e, tb). case e of None \<Rightarrow> Inr (0, tb) | Some i \<Rightarrow> andThen (deref tb i) (\<lambda>r. Inr (rt_gateway r, tb)))"

fun find_default :: "routing_table \<Rightarrow> nat list \<Rightarrow> nat option result" where
  "find_default tb [] = Inr None"
| "find_default tb (i # is) =
     andThen (deref tb i) (\<lambda>r. if rt_netmask r \<noteq> 0 then Inr None else if isValid r then Inr (Some i) else find_default tb is)"

definition getDefaultRoute :: "routing_table \<Rightarrow> nat option result" where
  "getDefaultRoute tb = find_default tb (rev (tb_routes tb))"

definition isLocalAddress :: "interface_entry list \<Rightarrow> ipv4_address \<Rightarrow> routing_table \<Rightarrow> bool \<times> routing_table" where
  "isLocalAddress ift dest tb =
     (let addrs = (if tb_localAddresses tb = {} then set (map id_address (List.map_filter ie_ipv4Data ift)) else tb_localAddresses tb)
      in (dest \<in> addrs, tb\<lparr>tb_localAddresses := addrs\<rparr>))"

subsection \<open>Adding and removing\<close>

text \<open>
  \<open>std::upper_bound\<close> with the order of the table, and the insertion there; its result is defined when the routes are
  partitioned by the comparison.
\<close>

definition comes_after :: "routing_table \<Rightarrow> ipv4_route \<Rightarrow> nat \<Rightarrow> bool" where
  "comes_after tb r j = (case tb_heap tb j of None \<Rightarrow> False | Some s \<Rightarrow> routeLessThan (tb_useAdminDist tb) r s)"

definition insert_sorted :: "nat \<Rightarrow> ipv4_route \<Rightarrow> routing_table \<Rightarrow> routing_table result" where
  "insert_sorted i r tb =
     (let front = takeWhile (\<lambda>j. \<not> comes_after tb r j) (tb_routes tb); back = dropWhile (\<lambda>j. \<not> comes_after tb r j) (tb_routes tb)
      in if \<not> list_all (\<lambda>j. tb_heap tb j \<noteq> None) (tb_routes tb) then Inl (UndefinedBehaviour ''IPv4RoutingTable: deleted route'')
         else if \<not> list_all (comes_after tb r) back then Inl (UndefinedBehaviour ''IPv4RoutingTable: upper_bound in unsorted routes'')
         else Inr (tb\<lparr>tb_routes := front @ i # back\<rparr>))"

definition internalRemoveRoute :: "nat \<Rightarrow> routing_table \<Rightarrow> bool \<times> routing_table" where
  "internalRemoveRoute i tb = (if i \<in> set (tb_routes tb) then (True, tb\<lparr>tb_routes := remove1 i (tb_routes tb)\<rparr>) else (False, tb))"

definition set_route :: "nat \<Rightarrow> ipv4_route \<Rightarrow> routing_table \<Rightarrow> routing_table" where
  "set_route i r tb = tb\<lparr>tb_heap := (tb_heap tb)(i \<mapsto> r)\<rparr>"

definition free_route :: "nat \<Rightarrow> routing_table \<Rightarrow> routing_table" where
  "free_route i tb = tb\<lparr>tb_heap := (tb_heap tb)(i := None)\<rparr>"

definition deleteRoute :: "nat \<Rightarrow> routing_table \<Rightarrow> bool \<times> routing_table" where
  "deleteRoute i tb = (case internalRemoveRoute i tb of (found, tb) \<Rightarrow> if found then (True, free_route i (invalidateCache tb)) else (False, tb))"

definition removeRoute :: "nat \<Rightarrow> routing_table \<Rightarrow> (bool \<times> routing_table) result" where
  "removeRoute i tb =
     (case internalRemoveRoute i tb of (found, tb) \<Rightarrow>
        if found then andThen (deref tb i) (\<lambda>r. Inr (True, set_route i (r\<lparr>rt_listed := False\<rparr>) (invalidateCache tb))) else Inr (False, tb))"

definition replace_default :: "ipv4_route \<Rightarrow> routing_table \<Rightarrow> routing_table result" where
  "replace_default r tb =
     (if rt_netmask r = 0
      then andThen (getDefaultRoute tb) (\<lambda>old. case old of None \<Rightarrow> Inr tb | Some j \<Rightarrow> Inr (snd (deleteRoute j tb)))
      else Inr tb)"

definition internalAddRoute :: "nat \<Rightarrow> routing_table \<Rightarrow> routing_table result" where
  "internalAddRoute i tb =
     andThen (deref tb i) (\<lambda>r.
       if \<not> isValidNetmask (rt_netmask r) then Inl (RuntimeError ''addRoute(): wrong netmask in route'')
       else if rt_netmask r \<noteq> 0 \<and> rt_dest r AND rt_netmask r = 0
       then Inl (RuntimeError ''addRoute(): all bits of destination address is 0 inside non zero netmask'')
       else if rt_dest r AND NOT (rt_netmask r) \<noteq> 0 then Inl (RuntimeError ''addRoute(): suspicious route'')
       else if rt_interface r = None then Inl (RuntimeError ''addRoute(): interface cannot be nullptr'')
       else andThen (replace_default r tb) (\<lambda>tb.
         andThen (deref tb i) (\<lambda>r. andThen (insert_sorted i r tb) (\<lambda>tb. Inr (set_route i (r\<lparr>rt_listed := True\<rparr>) tb)))))"

definition addRoute :: "nat \<Rightarrow> routing_table \<Rightarrow> routing_table result" where
  "addRoute i tb = andThen (internalAddRoute i tb) (\<lambda>tb. Inr (invalidateCache tb))"

definition createNewRoute :: "routing_table \<Rightarrow> nat \<times> routing_table" where
  "createNewRoute tb =
     (tb_next tb, tb\<lparr>tb_next := Suc (tb_next tb), tb_heap := (tb_heap tb)(tb_next tb \<mapsto>
        \<lparr>rt_listed = False, rt_dest = 0, rt_netmask = 0, rt_gateway = 0, rt_interface = None, rt_sourceType = MANUAL, rt_adminDist = 255, rt_metric = 0\<rparr>)\<rparr>)"

subsection \<open>Changing a route\<close>

definition routeChanged :: "nat \<Rightarrow> route_field \<Rightarrow> routing_table \<Rightarrow> routing_table result" where
  "routeChanged i fieldCode tb =
     (if fieldCode = F_DESTINATION \<or> fieldCode = F_PREFIX_LENGTH \<or> fieldCode = F_METRIC
      then (case internalRemoveRoute i tb of (found, tb) \<Rightarrow>
              if \<not> found then Inl (RuntimeError ''ASSERT: entry != nullptr'') else andThen (internalAddRoute i tb) (\<lambda>tb. Inr (invalidateCache tb)))
      else Inr tb)"

text \<open>A setter: nothing when the value is the old one; else the field is written and, in a table, the change reported.\<close>

definition set_field :: "(ipv4_route \<Rightarrow> ipv4_route) \<Rightarrow> route_field \<Rightarrow> nat \<Rightarrow> routing_table \<Rightarrow> routing_table result" where
  "set_field upd fieldCode i tb =
     andThen (deref tb i) (\<lambda>r.
       if upd r = r then Inr tb
       else let tb = set_route i (upd r) tb in if rt_listed r then routeChanged i fieldCode tb else Inr tb)"

definition setDestination :: "ipv4_address \<Rightarrow> nat \<Rightarrow> routing_table \<Rightarrow> routing_table result" where
  "setDestination d = set_field (\<lambda>r. r\<lparr>rt_dest := d\<rparr>) F_DESTINATION"

definition setNetmask :: "ipv4_address \<Rightarrow> nat \<Rightarrow> routing_table \<Rightarrow> routing_table result" where
  "setNetmask m = set_field (\<lambda>r. r\<lparr>rt_netmask := m\<rparr>) F_PREFIX_LENGTH"

definition setGateway :: "ipv4_address \<Rightarrow> nat \<Rightarrow> routing_table \<Rightarrow> routing_table result" where
  "setGateway g = set_field (\<lambda>r. r\<lparr>rt_gateway := g\<rparr>) F_NEXTHOP"

definition setInterface :: "nat option \<Rightarrow> nat \<Rightarrow> routing_table \<Rightarrow> routing_table result" where
  "setInterface ie = set_field (\<lambda>r. r\<lparr>rt_interface := ie\<rparr>) F_IFACE"

definition setSourceType :: "route_source \<Rightarrow> nat \<Rightarrow> routing_table \<Rightarrow> routing_table result" where
  "setSourceType s = set_field (\<lambda>r. r\<lparr>rt_sourceType := s\<rparr>) F_SOURCE"

definition setAdminDist :: "32 word \<Rightarrow> nat \<Rightarrow> routing_table \<Rightarrow> routing_table result" where
  "setAdminDist a = set_field (\<lambda>r. r\<lparr>rt_adminDist := a\<rparr>) F_ADMINDIST"

definition setMetric :: "int \<Rightarrow> nat \<Rightarrow> routing_table \<Rightarrow> routing_table result" where
  "setMetric m = set_field (\<lambda>r. r\<lparr>rt_metric := m\<rparr>) F_METRIC"

subsection \<open>Routes of interfaces\<close>

text \<open>A loop over the vector that erases and deletes the routes with a property.\<close>

fun erase_routes :: "(ipv4_route \<Rightarrow> bool) \<Rightarrow> nat list \<Rightarrow> routing_table \<Rightarrow> (bool \<times> routing_table) result" where
  "erase_routes P [] tb = Inr (False, tb)"
| "erase_routes P (i # is) tb =
     andThen (deref tb i) (\<lambda>r.
       if P r then andThen (erase_routes P is (free_route i (tb\<lparr>tb_routes := remove1 i (tb_routes tb)\<rparr>))) (\<lambda>(_, tb). Inr (True, tb))
       else erase_routes P is tb)"

definition deleteInterfaceRoutes :: "nat \<Rightarrow> routing_table \<Rightarrow> routing_table result" where
  "deleteInterfaceRoutes ie tb =
     andThen (erase_routes (\<lambda>r. rt_interface r = Some ie) (tb_routes tb) tb) (\<lambda>(changed, tb). Inr (if changed then invalidateCache tb else tb))"

definition purge_routes :: "routing_table \<Rightarrow> routing_table result" where
  "purge_routes tb =
     andThen (erase_routes (\<lambda>r. \<not> isValid r) (tb_routes tb) tb) (\<lambda>(deleted, tb). Inr (if deleted then invalidateCache tb else tb))"

definition add_netmask_route :: "(string \<Rightarrow> bool) \<Rightarrow> interface_entry \<Rightarrow> routing_table \<Rightarrow> routing_table result" where
  "add_netmask_route matches ie tb =
     (case ie_ipv4Data ie of
        None \<Rightarrow> Inr tb
      | Some d \<Rightarrow>
          if matches (ie_name ie) \<and> id_netmask d \<noteq> 0xFFFFFFFF
          then (case createNewRoute tb of (i, tb) \<Rightarrow>
                  let r = \<lparr>rt_listed = True, rt_dest = id_address d AND id_netmask d, rt_netmask = id_netmask d, rt_gateway = 0,
                           rt_interface = Some (ie_id ie), rt_sourceType = IFACENETMASK, rt_adminDist = 0, rt_metric = id_metric d\<rparr>
                  in insert_sorted i r (set_route i r tb))
          else Inr tb)"

definition updateNetmaskRoutes :: "(string \<Rightarrow> bool) \<Rightarrow> interface_entry list \<Rightarrow> routing_table \<Rightarrow> routing_table result" where
  "updateNetmaskRoutes matches ift tb =
     andThen (erase_routes (\<lambda>r. rt_sourceType r = IFACENETMASK) (tb_routes tb) tb)
       (\<lambda>(_, tb). andThen (foldR (add_netmask_route matches) ift tb) (\<lambda>tb. Inr (invalidateCache tb)))"

datatype table_signal = NF_INTERFACE_CREATED | NF_INTERFACE_DELETED nat | NF_INTERFACE_STATE_CHANGED | NF_INTERFACE_CONFIG_CHANGED
  | NF_INTERFACE_IPv4CONFIG_CHANGED

fun receiveSignal :: "(string \<Rightarrow> bool) \<Rightarrow> interface_entry list \<Rightarrow> table_signal \<Rightarrow> routing_table \<Rightarrow> routing_table result" where
  "receiveSignal matches ift NF_INTERFACE_CREATED tb = updateNetmaskRoutes matches ift tb"
| "receiveSignal matches ift (NF_INTERFACE_DELETED entry) tb = deleteInterfaceRoutes entry tb"
| "receiveSignal matches ift NF_INTERFACE_STATE_CHANGED tb = Inr (invalidateCache tb)"
| "receiveSignal matches ift NF_INTERFACE_CONFIG_CHANGED tb = Inr (invalidateCache tb)"
| "receiveSignal matches ift NF_INTERFACE_IPv4CONFIG_CHANGED tb = updateNetmaskRoutes matches ift tb"

text \<open>When its node stops, the table deletes its routes from the front.\<close>

fun delete_all :: "nat list \<Rightarrow> routing_table \<Rightarrow> routing_table result" where
  "delete_all [] tb = Inr tb"
| "delete_all (i # is) tb = andThen (removeRoute i tb) (\<lambda>(_, tb). delete_all is (free_route i tb))"

definition stop_table :: "routing_table \<Rightarrow> routing_table result" where
  "stop_table tb = delete_all (tb_routes tb) tb"

end
