(* ===== verification/IPv4RouteLookup.thy ===== *)
theory IPv4RouteLookup
  imports IPv4RoutingTable
begin

text \<open>
  Longest prefix matching: in every table that its operations can reach, a lookup never meets a deleted route and gives the
  best of the routes that match, from the cache or not.
\<close>

subsection \<open>The order of the routes\<close>

definition route_key :: "bool \<Rightarrow> ipv4_route \<Rightarrow> int \<times> int \<times> int \<times> int" where
  "route_key u r = (- uint (rt_netmask r), uint (rt_dest r), if u then uint (rt_adminDist r) else 0, rt_metric r)"

lemma routeLessThan_key: "routeLessThan u a b \<longleftrightarrow> route_key u a < route_key u b"
  by (auto simp: routeLessThan_def route_key_def word_less_def word_uint_eq_iff)

definition rt_at :: "routing_table \<Rightarrow> nat \<Rightarrow> ipv4_route" where
  "rt_at tb i = the (tb_heap tb i)"

abbreviation key_at :: "routing_table \<Rightarrow> nat \<Rightarrow> int \<times> int \<times> int \<times> int" where
  "key_at tb i \<equiv> route_key (tb_useAdminDist tb) (rt_at tb i)"

definition route_matches :: "ipv4_address \<Rightarrow> ipv4_route \<Rightarrow> bool" where
  "route_matches dest r \<longleftrightarrow> isValid r \<and> maskedAddrAreEqual dest (rt_dest r) (rt_netmask r)"

subsection \<open>The invariant\<close>

text \<open>
  The routes in the vector are live, marked as listed, normalised, and in order; the routes marked as listed are in it, but
  for those of a set \<open>S\<close> which an operation has taken out.
\<close>

definition tb_core :: "nat set \<Rightarrow> routing_table \<Rightarrow> bool" where
  "tb_core S tb \<longleftrightarrow> distinct (tb_routes tb)
     \<and> (\<forall>i\<in>set (tb_routes tb). \<exists>r. tb_heap tb i = Some r \<and> rt_listed r \<and> rt_dest r AND NOT (rt_netmask r) = 0)
     \<and> sorted (map (key_at tb) (tb_routes tb))
     \<and> (\<forall>i r. tb_heap tb i = Some r \<longrightarrow> i < tb_next tb \<and> (rt_listed r \<longrightarrow> i \<in> set (tb_routes tb) \<or> i \<in> S))"

definition cache_ok :: "routing_table \<Rightarrow> bool" where
  "cache_ok tb \<longleftrightarrow> (\<forall>d x. tb_cache tb d = Some x \<longrightarrow> find_match tb d (tb_routes tb) = Inr x)"

definition tb_ok :: "routing_table \<Rightarrow> bool" where
  "tb_ok tb \<longleftrightarrow> tb_core {} tb \<and> cache_ok tb"

lemma tb_coreD:
  assumes "tb_core S tb"
  shows "distinct (tb_routes tb)" and "sorted (map (key_at tb) (tb_routes tb))"
    and "i \<in> set (tb_routes tb) \<Longrightarrow> tb_heap tb i = Some (rt_at tb i)" and "i \<in> set (tb_routes tb) \<Longrightarrow> rt_listed (rt_at tb i)"
    and "i \<in> set (tb_routes tb) \<Longrightarrow> rt_dest (rt_at tb i) AND NOT (rt_netmask (rt_at tb i)) = 0"
    and "tb_heap tb i = Some r \<Longrightarrow> i < tb_next tb" and "tb_heap tb i = Some r \<Longrightarrow> rt_listed r \<Longrightarrow> i \<notin> S \<Longrightarrow> i \<in> set (tb_routes tb)"
  using assms unfolding tb_core_def rt_at_def by (blast, blast, force+)

lemma tb_core_fields [simp]:
  "tb_core S (tb\<lparr>tb_cache := c\<rparr>) = tb_core S tb" "tb_core S (tb\<lparr>tb_localAddresses := l\<rparr>) = tb_core S tb"
  "tb_core S (invalidateCache tb) = tb_core S tb"
  by (simp_all add: tb_core_def rt_at_def invalidateCache_def)

lemma cache_ok_invalid [simp]: "cache_ok (invalidateCache tb)"
  by (simp add: cache_ok_def invalidateCache_def)

lemma tb_ok_invalidate: "tb_core {} tb \<Longrightarrow> tb_ok (invalidateCache tb)"
  by (simp add: tb_ok_def)

lemma find_match_cong:
  assumes "\<And>i. i \<in> set is \<Longrightarrow> map_option (\<lambda>r. (rt_dest r, rt_netmask r)) (tb_heap tb i) = map_option (\<lambda>r. (rt_dest r, rt_netmask r)) (tb_heap tb' i)"
  shows "find_match tb d is = find_match tb' d is"
  using assms
proof (induction "is")
  case (Cons i js)
  have "find_match tb d js = find_match tb' d js" using Cons by simp
  moreover have "map_option (\<lambda>r. (rt_dest r, rt_netmask r)) (tb_heap tb i) = map_option (\<lambda>r. (rt_dest r, rt_netmask r)) (tb_heap tb' i)"
    by (rule Cons.prems) simp
  ultimately show ?case by (cases "tb_heap tb i"; cases "tb_heap tb' i") (simp_all add: deref_def isValid_def)
qed simp

lemma find_match_live:
  assumes "\<And>i. i \<in> set is \<Longrightarrow> tb_heap tb i = Some (rt_at tb i)"
  shows "find_match tb d is = Inr (List.find (\<lambda>i. route_matches d (rt_at tb i)) is)"
  using assms by (induction "is") (auto simp: deref_def route_matches_def)

subsection \<open>What the operations keep\<close>

lemma core_remove:
  assumes "tb_core S tb"
  shows "tb_core (insert i S) (tb\<lparr>tb_routes := remove1 i (tb_routes tb)\<rparr>)"
proof -
  note c = tb_coreD [OF assms]
  have s: "set (remove1 i (tb_routes tb)) = set (tb_routes tb) - {i}" using c(1) by simp
  have "sorted (map (key_at tb) (remove1 i (tb_routes tb)))" using c(1,2) by (simp add: sorted_filter distinct_remove1_removeAll removeAll_filter_not_eq)
  moreover have "distinct (remove1 i (tb_routes tb))" using c(1) by simp
  ultimately show ?thesis using assms unfolding tb_core_def by (simp add: s rt_at_def cong: map_cong) blast
qed

text \<open>An object that is not in the vector may be written, or freed.\<close>

lemma core_write:
  assumes "tb_core S tb" and "i \<notin> set (tb_routes tb)" and "i < tb_next tb" and "rt_listed r \<Longrightarrow> i \<in> S"
  shows "tb_core S (set_route i r tb)"
proof -
  have e: "map (key_at (set_route i r tb)) (tb_routes tb) = map (key_at tb) (tb_routes tb)"
    using assms(2) by (auto simp: set_route_def rt_at_def)
  have "sorted (map (key_at (set_route i r tb)) (tb_routes tb))" unfolding e by (rule tb_coreD(2) [OF assms(1)])
  then show ?thesis using assms unfolding tb_core_def set_route_def by auto
qed

lemma core_free:
  assumes "tb_core S tb" and "i \<notin> set (tb_routes tb)"
  shows "tb_core (S - {i}) (free_route i tb)"
proof -
  have e: "map (key_at (free_route i tb)) (tb_routes tb) = map (key_at tb) (tb_routes tb)"
    using assms(2) by (auto simp: free_route_def rt_at_def)
  have "sorted (map (key_at (free_route i tb)) (tb_routes tb))" unfolding e by (rule tb_coreD(2) [OF assms(1)])
  then show ?thesis using assms unfolding tb_core_def free_route_def by auto
qed

lemma core_delete:
  assumes "tb_core S tb"
  shows "tb_core (S - {i}) (free_route i (tb\<lparr>tb_routes := remove1 i (tb_routes tb)\<rparr>))"
  using core_free [OF core_remove [OF assms, of i], of i] tb_coreD(1) [OF assms] by simp

lemma core_mono: "tb_core S tb \<Longrightarrow> S \<subseteq> T \<Longrightarrow> tb_core T tb"
  unfolding tb_core_def by blast

lemma deleteRoute_core:
  assumes "tb_core S tb"
  shows "tb_core S (snd (deleteRoute i tb))" and "set (tb_routes (snd (deleteRoute i tb))) = set (tb_routes tb) - {i}"
    and "j \<noteq> i \<Longrightarrow> tb_heap (snd (deleteRoute i tb)) j = tb_heap tb j"
proof -
  have e: "free_route i (invalidateCache (tb\<lparr>tb_routes := rs\<rparr>)) = invalidateCache (free_route i (tb\<lparr>tb_routes := rs\<rparr>))" for rs
    by (simp add: free_route_def invalidateCache_def)
  show "tb_core S (snd (deleteRoute i tb))"
    using core_mono [OF core_delete [OF assms, of i], of S] assms by (auto simp: deleteRoute_def internalRemoveRoute_def e)
  show "set (tb_routes (snd (deleteRoute i tb))) = set (tb_routes tb) - {i}"
    using tb_coreD(1) [OF assms] by (simp add: deleteRoute_def internalRemoveRoute_def free_route_def invalidateCache_def)
  show "j \<noteq> i \<Longrightarrow> tb_heap (snd (deleteRoute i tb)) j = tb_heap tb j"
    by (simp add: deleteRoute_def internalRemoveRoute_def free_route_def invalidateCache_def)
qed

text \<open>Insertion at the upper bound keeps the order.\<close>

lemma distinct_middle: "distinct (xs @ ys) \<Longrightarrow> i \<notin> set (xs @ ys) \<Longrightarrow> distinct (xs @ i # ys)"
  by auto

lemma sorted_middle: "sorted (xs @ ys) \<Longrightarrow> \<forall>x\<in>set xs. x \<le> k \<Longrightarrow> \<forall>y\<in>set ys. k \<le> y \<Longrightarrow> sorted (xs @ k # ys)"
  by (auto simp: sorted_append)

lemma core_list:
  assumes "tb_core S tb" and "tb_heap tb i = Some r" and "rt_dest r AND NOT (rt_netmask r) = 0" and "distinct qs"
    and "set qs = insert i (set (tb_routes tb))" and "sorted (map (\<lambda>j. if j = i then route_key (tb_useAdminDist tb) r else key_at tb j) qs)"
  shows "tb_core (S - {i}) (set_route i (r\<lparr>rt_listed := True\<rparr>) (tb\<lparr>tb_routes := qs\<rparr>))" (is "tb_core _ ?tb")
proof -
  have "key_at ?tb = (\<lambda>j. if j = i then route_key (tb_useAdminDist tb) r else key_at tb j)"
    by (rule ext) (simp add: set_route_def rt_at_def route_key_def)
  then have "sorted (map (key_at ?tb) qs)" using assms(6) by (simp only:)
  then show ?thesis using assms(1-5) unfolding tb_core_def by (auto simp: set_route_def)
qed

lemma insert_sorted_core:
  assumes c: "tb_core S tb" and i: "i \<notin> set (tb_routes tb)" "tb_heap tb i = Some r" and n: "rt_dest r AND NOT (rt_netmask r) = 0"
  shows "\<exists>rs. insert_sorted i r tb = Inr (tb\<lparr>tb_routes := rs\<rparr>) \<and> set rs = insert i (set (tb_routes tb))
    \<and> tb_core (S - {i}) (set_route i (r\<lparr>rt_listed := True\<rparr>) (tb\<lparr>tb_routes := rs\<rparr>))"
proof -
  note C = tb_coreD [OF c]
  let ?u = "tb_useAdminDist tb" and ?rs = "tb_routes tb"
  let ?P = "\<lambda>j. \<not> comes_after tb r j"
  have after: "comes_after tb r j \<longleftrightarrow> route_key ?u r < key_at tb j" if "j \<in> set ?rs" for j
    using C(3) [OF that] by (simp add: comes_after_def routeLessThan_key)
  let ?f = "takeWhile ?P ?rs" and ?b = "dropWhile ?P ?rs"
  have fb: "?f @ ?b = ?rs" by simp
  have sub: "set ?f \<subseteq> set ?rs" "set ?b \<subseteq> set ?rs" by (auto dest: set_takeWhileD set_dropWhileD)
  have sorted: "sorted (map (key_at tb) (?f @ ?b))" using C(2) by (simp only: fb)
  have F: "key_at tb j \<le> route_key ?u r" if "j \<in> set ?f" for j
    using set_takeWhileD [OF that] after by (auto simp: not_less)
  have B: "route_key ?u r < key_at tb j" if "j \<in> set ?b" for j
  proof -
    from that obtain k ks where b: "?b = k # ks" by (cases ?b) auto
    then have "comes_after tb r k" using hd_dropWhile [of ?P ?rs] by simp
    moreover have "k \<in> set ?rs" using b sub(2) by auto
    moreover have "key_at tb k \<le> key_at tb j" using sorted that unfolding b by (auto simp: sorted_append)
    ultimately show ?thesis using after by force
  qed
  have live: "list_all (\<lambda>j. tb_heap tb j \<noteq> None) ?rs" using C(3) by (auto simp: list_all_iff)
  have part: "list_all (comes_after tb r) ?b" using B after sub(2) by (auto simp: list_all_iff)
  let ?new = "?f @ i # ?b"
  have ins: "insert_sorted i r tb = Inr (tb\<lparr>tb_routes := ?new\<rparr>)" using live part by (simp add: insert_sorted_def Let_def)
  have set: "set ?new = insert i (set ?rs)" using fb by (metis Un_insert_right list.simps(15) set_append)
  have dis: "distinct ?new"
  proof -
    have "distinct (?f @ ?b)" "i \<notin> set (?f @ ?b)" unfolding fb using C(1) i(1) by simp_all
    then show ?thesis by (rule distinct_middle)
  qed
  have "map (\<lambda>j. if j = i then route_key ?u r else key_at tb j) ?new = map (key_at tb) ?f @ route_key ?u r # map (key_at tb) ?b"
    using sub i(1) by auto
  moreover have "sorted (map (key_at tb) ?f @ route_key ?u r # map (key_at tb) ?b)"
    by (rule sorted_middle) (use sorted F B in \<open>auto simp del: takeWhile_dropWhile_id simp: less_imp_le\<close>)
  ultimately have "sorted (map (\<lambda>j. if j = i then route_key ?u r else key_at tb j) ?new)" by (simp only:)
  then have "tb_core (S - {i}) (set_route i (r\<lparr>rt_listed := True\<rparr>) (tb\<lparr>tb_routes := ?new\<rparr>))"
    by (rule core_list [OF c i(2) n dis set])
  with ins set show ?thesis by blast
qed

lemma find_default_member: "find_default tb js = Inr (Some i) \<Longrightarrow> i \<in> set js"
  by (induction js) (auto simp: andThen_Inr_iff split: if_splits)

lemma replace_default_core:
  assumes "tb_core S tb" and "i \<notin> set (tb_routes tb)" and "replace_default r tb = Inr tb'"
  shows "tb_core S tb' \<and> i \<notin> set (tb_routes tb') \<and> tb_heap tb' i = tb_heap tb i"
proof (cases "rt_netmask r = 0")
  case True
  with assms(3) obtain old where old: "getDefaultRoute tb = Inr old" "tb' = (case old of None \<Rightarrow> tb | Some j \<Rightarrow> snd (deleteRoute j tb))"
    by (auto simp: replace_default_def andThen_Inr_iff split: option.splits)
  show ?thesis
  proof (cases old)
    case (Some j)
    then have "j \<in> set (tb_routes tb)" using old(1) find_default_member [of tb "rev (tb_routes tb)" j] by (simp add: getDefaultRoute_def)
    with assms(2) have "i \<noteq> j" by auto
    then show ?thesis using deleteRoute_core(1,2) [OF assms(1), of j] deleteRoute_core(3) [OF assms(1), of i j] assms(2) old(2) Some by simp
  qed (use old assms in simp)
qed (use assms in \<open>simp add: replace_default_def\<close>)

lemma internalAddRoute_core:
  assumes c: "tb_core S tb" and i: "i \<notin> set (tb_routes tb)" and a: "internalAddRoute i tb = Inr tb'"
  shows "tb_core (S - {i}) tb'"
proof -
  from a obtain r tb1 where r: "tb_heap tb i = Some r" "rt_dest r AND NOT (rt_netmask r) = 0" "replace_default r tb = Inr tb1"
    and b: "andThen (deref tb1 i) (\<lambda>r. andThen (insert_sorted i r tb1) (\<lambda>tb. Inr (set_route i (r\<lparr>rt_listed := True\<rparr>) tb))) = Inr tb'"
    by (auto simp: internalAddRoute_def deref_def andThen_Inr_iff split: option.splits if_splits)
  have c1: "tb_core S tb1" "i \<notin> set (tb_routes tb1)" "tb_heap tb1 i = Some r" using replace_default_core [OF c i r(3)] r(1) by auto
  from insert_sorted_core [OF c1 r(2)] b c1(3) show ?thesis by (auto simp: deref_def)
qed

lemma addRoute_ok: "tb_ok tb \<Longrightarrow> i \<notin> set (tb_routes tb) \<Longrightarrow> addRoute i tb = Inr tb' \<Longrightarrow> tb_ok tb'"
  using internalAddRoute_core [of "{}" tb i] by (auto simp: tb_ok_def addRoute_def andThen_Inr_iff)

lemma removeRoute_ok:
  assumes "tb_ok tb" and "removeRoute i tb = Inr (found, tb')"
  shows "tb_ok tb' \<and> i \<notin> set (tb_routes tb') \<and> set (tb_routes tb') \<subseteq> set (tb_routes tb)"
proof (cases "i \<in> set (tb_routes tb)")
  case False
  with assms show ?thesis by (simp add: removeRoute_def internalRemoveRoute_def)
next
  case True
  have c: "tb_core {} tb" using assms(1) by (simp add: tb_ok_def)
  note C = tb_coreD [OF c]
  let ?tb = "invalidateCache (tb\<lparr>tb_routes := remove1 i (tb_routes tb)\<rparr>)" and ?r = "(rt_at tb i)\<lparr>rt_listed := False\<rparr>"
  have tb': "tb' = set_route i ?r ?tb"
    using assms(2) True C(3) [OF True] by (simp add: removeRoute_def internalRemoveRoute_def deref_def)
  have r: "tb_routes ?tb = remove1 i (tb_routes tb)" "tb_next ?tb = tb_next tb" by (simp_all add: invalidateCache_def)
  have "tb_core {i} ?tb" using core_remove [OF c, of i] by simp
  then have "tb_core {i} (set_route i ?r ?tb)"
    by (rule core_write) (use C(1) C(6) [OF C(3) [OF True]] in \<open>auto simp: r\<close>)
  then have "tb_core {} (set_route i ?r ?tb)" unfolding tb_core_def by (auto simp: set_route_def split: if_splits)
  moreover have "cache_ok (set_route i ?r ?tb)" by (simp add: cache_ok_def set_route_def invalidateCache_def)
  moreover have "tb_routes (set_route i ?r ?tb) = remove1 i (tb_routes tb)" by (simp add: set_route_def r)
  ultimately show ?thesis using tb' C(1) by (simp add: tb_ok_def)
qed

lemma cache_ok_same:
  assumes "cache_ok tb" and "tb_routes tb' = tb_routes tb" and "tb_cache tb' = tb_cache tb"
    and "\<And>i. i \<in> set (tb_routes tb) \<Longrightarrow> map_option (\<lambda>r. (rt_dest r, rt_netmask r)) (tb_heap tb' i) = map_option (\<lambda>r. (rt_dest r, rt_netmask r)) (tb_heap tb i)"
  shows "cache_ok tb'"
  using assms(1) find_match_cong [of "tb_routes tb" tb' tb] assms(4) by (simp add: cache_ok_def assms(2,3))

lemma free_ok:
  assumes "tb_ok tb" and "i \<notin> set (tb_routes tb)"
  shows "tb_ok (free_route i tb)"
proof -
  have "cache_ok (free_route i tb)" by (rule cache_ok_same [of tb]) (use assms in \<open>auto simp: free_route_def tb_ok_def\<close>)
  then show ?thesis using core_free [of "{}" tb i] assms by (simp add: tb_ok_def)
qed

lemma delete_all_ok: "tb_ok tb \<Longrightarrow> delete_all is tb = Inr tb' \<Longrightarrow> tb_ok tb'"
proof (induction "is" arbitrary: tb)
  case (Cons i js)
  then obtain found tb1 where r: "removeRoute i tb = Inr (found, tb1)" "delete_all js (free_route i tb1) = Inr tb'"
    by (auto simp: andThen_Inr_iff)
  show ?case by (rule Cons.IH [OF _ r(2)]) (use removeRoute_ok [OF Cons.prems(1) r(1)] free_ok in blast)
qed simp

text \<open>A setter, of a route in the table or not.\<close>

lemma set_field_ok:
  assumes ok: "tb_ok tb" and s: "set_field upd fieldCode i tb = Inr tb'" and l: "\<And>r. rt_listed (upd r) = rt_listed r"
    and same: "fieldCode \<noteq> F_DESTINATION \<Longrightarrow> fieldCode \<noteq> F_PREFIX_LENGTH \<Longrightarrow> fieldCode \<noteq> F_METRIC \<Longrightarrow>
      rt_dest (upd (rt_at tb i)) = rt_dest (rt_at tb i) \<and> rt_netmask (upd (rt_at tb i)) = rt_netmask (rt_at tb i)
      \<and> (i \<in> set (tb_routes tb) \<longrightarrow> route_key (tb_useAdminDist tb) (upd (rt_at tb i)) = key_at tb i)"
  shows "tb_ok tb'"
proof -
  have c: "tb_core {} tb" and k: "cache_ok tb" using ok by (simp_all add: tb_ok_def)
  note C = tb_coreD [OF c]
  from s obtain r where r: "tb_heap tb i = Some r" "rt_at tb i = r" by (auto simp: set_field_def deref_def rt_at_def split: option.splits)
  show ?thesis
  proof (cases "upd r = r")
    case True
    with s r ok show ?thesis by (simp add: set_field_def deref_def)
  next
    case ch: False
    let ?tb = "set_route i (upd r) tb"
    show ?thesis
    proof (cases "rt_listed r")
      case False
      then have i: "i \<notin> set (tb_routes tb)" using C(4) r(2) by metis
      have "tb' = ?tb" using s r ch False by (simp add: set_field_def deref_def)
      moreover have "tb_core {} ?tb" using core_write [OF c i C(6) [OF r(1)], of "upd r"] l [of r] False by simp
      moreover have "cache_ok ?tb" by (rule cache_ok_same [OF k]) (use i in \<open>auto simp: set_route_def\<close>)
      ultimately show ?thesis by (simp add: tb_ok_def)
    next
      case True
      then have i: "i \<in> set (tb_routes tb)" using C(7) [OF r(1)] by simp
      have e: "routeChanged i fieldCode ?tb = Inr tb'" using s r ch True by (simp add: set_field_def deref_def)
      show ?thesis
      proof (cases "fieldCode = F_DESTINATION \<or> fieldCode = F_PREFIX_LENGTH \<or> fieldCode = F_METRIC")
        case f: True
        let ?rm = "tb\<lparr>tb_routes := remove1 i (tb_routes tb)\<rparr>"
        have "internalRemoveRoute i ?tb = (True, set_route i (upd r) ?rm)" using i by (simp add: internalRemoveRoute_def set_route_def)
        with e f obtain tb1 where a: "internalAddRoute i (set_route i (upd r) ?rm) = Inr tb1" "tb' = invalidateCache tb1"
          by (auto simp: routeChanged_def andThen_Inr_iff)
        have "tb_core {i} (set_route i (upd r) ?rm)"
          by (rule core_write [OF core_remove [OF c, of i, simplified]]) (use C(1) C(6) [OF r(1)] in auto)
        from internalAddRoute_core [OF this _ a(1)] C(1) have "tb_core {} tb1" by (simp add: set_route_def)
        with a(2) show ?thesis by (simp add: tb_ok_invalidate)
      next
        case f: False
        then have t: "tb' = ?tb" using e by (simp add: routeChanged_def)
        have sm: "rt_dest (upd r) = rt_dest r" "rt_netmask (upd r) = rt_netmask r" "route_key (tb_useAdminDist tb) (upd r) = key_at tb i"
          using same f i r(2) by auto
        have key: "map (key_at ?tb) (tb_routes tb) = map (key_at tb) (tb_routes tb)" using sm(3) by (simp add: set_route_def rt_at_def)
        have "sorted (map (key_at ?tb) (tb_routes tb))" unfolding key by (rule C(2))
        then have "tb_core {} ?tb" using c sm l r i unfolding tb_core_def set_route_def by auto
        moreover have "cache_ok ?tb" by (rule cache_ok_same [OF k]) (use sm r in \<open>auto simp: set_route_def\<close>)
        ultimately show ?thesis by (simp add: t tb_ok_def)
      qed
    qed
  qed
qed

lemma erase_routes_core:
  assumes "tb_core {} tb" and "set is \<subseteq> set (tb_routes tb)" and "distinct is" and "erase_routes P is tb = Inr (changed, tb')"
  shows "tb_core {} tb' \<and> (\<not> changed \<longrightarrow> tb' = tb)"
  using assms
proof (induction "is" arbitrary: tb changed)
  case (Cons i js)
  have h: "tb_heap tb i = Some (rt_at tb i)" using tb_coreD(3) [OF Cons.prems(1)] Cons.prems(2) by simp
  show ?case
  proof (cases "P (rt_at tb i)")
    case True
    let ?tb = "free_route i (tb\<lparr>tb_routes := remove1 i (tb_routes tb)\<rparr>)"
    from Cons.prems(4) True h obtain ch where e: "erase_routes P js ?tb = Inr (ch, tb')" "changed"
      by (auto simp: deref_def andThen_Inr_iff)
    have "tb_core {} ?tb" using core_delete [OF Cons.prems(1), of i] by simp
    moreover have "set js \<subseteq> set (tb_routes ?tb)" using Cons.prems(2,3) tb_coreD(1) [OF Cons.prems(1)] by (auto simp: free_route_def)
    ultimately show ?thesis using Cons.IH [OF _ _ _ e(1)] Cons.prems(3) e(2) by simp
  next
    case False
    with Cons.prems(4) h have e: "erase_routes P js tb = Inr (changed, tb')" by (simp add: deref_def)
    show ?thesis by (rule Cons.IH [OF Cons.prems(1) _ _ e]) (use Cons.prems(2,3) in auto)
  qed
qed simp

lemma erase_all_ok:
  assumes ok: "tb_ok tb" and e: "andThen (erase_routes P (tb_routes tb) tb) (\<lambda>(changed, tb). Inr (if changed then invalidateCache tb else tb)) = Inr tb'"
  shows "tb_ok tb'"
proof -
  have c: "tb_core {} tb" using ok by (simp add: tb_ok_def)
  from e obtain ch tb1 where r: "erase_routes P (tb_routes tb) tb = Inr (ch, tb1)" "tb' = (if ch then invalidateCache tb1 else tb1)"
    by (auto simp: andThen_Inr_iff)
  have "tb_core {} tb1 \<and> (\<not> ch \<longrightarrow> tb1 = tb)" by (rule erase_routes_core [OF c order_refl tb_coreD(1) [OF c] r(1)])
  with r(2) ok show ?thesis by (auto simp: tb_ok_invalidate)
qed

text \<open>A new object, at an address that was never used.\<close>

lemma core_create:
  assumes "tb_core S tb" and "createNewRoute tb = (i, tb')"
  shows "tb_core S tb'" and "i \<notin> set (tb_routes tb')" and "i < tb_next tb'" and "tb_routes tb' = tb_routes tb" and "tb_cache tb' = tb_cache tb"
    and "j \<noteq> i \<Longrightarrow> tb_heap tb' j = tb_heap tb j"
proof -
  note C = tb_coreD [OF assms(1)]
  let ?tb = "tb\<lparr>tb_next := Suc (tb_next tb)\<rparr>"
  have i: "i = tb_next tb" "i \<notin> set (tb_routes tb)" using assms(2) C(3,6) by (fastforce simp: createNewRoute_def)+
  have c: "tb_core S ?tb" using assms(1) unfolding tb_core_def by (auto simp: rt_at_def less_Suc_eq)
  obtain r where r: "tb' = set_route i r ?tb" "\<not> rt_listed r" using assms(2) by (auto simp: createNewRoute_def set_route_def)
  show "tb_core S tb'" unfolding r(1) by (rule core_write [OF c]) (use i r(2) in auto)
  show "i \<notin> set (tb_routes tb')" "i < tb_next tb'" "tb_routes tb' = tb_routes tb" "tb_cache tb' = tb_cache tb" "j \<noteq> i \<Longrightarrow> tb_heap tb' j = tb_heap tb j"
    using i by (simp_all add: r(1) set_route_def)
qed

lemma create_ok: "tb_ok tb \<Longrightarrow> createNewRoute tb = (i, tb') \<Longrightarrow> tb_ok tb'"
proof -
  assume ok: "tb_ok tb" and c: "createNewRoute tb = (i, tb')"
  note K = core_create [OF conjunct1 [OF ok [unfolded tb_ok_def]] c]
  have "tb_heap tb' j = tb_heap tb j" if "j \<in> set (tb_routes tb)" for j by (rule K(6)) (use that K(2,4) in auto)
  then have "cache_ok tb'" using cache_ok_same [of tb tb'] ok K(4,5) by (simp add: tb_ok_def)
  with K(1) show ?thesis by (simp add: tb_ok_def)
qed

lemma add_netmask_route_core:
  assumes c: "tb_core {} tb" and a: "add_netmask_route matches ie tb = Inr tb'"
  shows "tb_core {} tb'"
proof (cases "ie_ipv4Data ie")
  case (Some d)
  show ?thesis
  proof (cases "matches (ie_name ie) \<and> id_netmask d \<noteq> 0xFFFFFFFF")
    case True
    obtain i tb1 where n: "createNewRoute tb = (i, tb1)" by force
    let ?r = "\<lparr>rt_listed = True, rt_dest = id_address d AND id_netmask d, rt_netmask = id_netmask d, rt_gateway = 0,
      rt_interface = Some (ie_id ie), rt_sourceType = IFACENETMASK, rt_adminDist = 0, rt_metric = id_metric d\<rparr>"
    note K = core_create [OF c n]
    have w: "tb_core {i} (set_route i ?r tb1)" by (rule core_write [OF core_mono [OF K(1)] K(2,3)]) auto
    have z: "rt_dest ?r AND NOT (rt_netmask ?r) = 0" by (simp add: bit_eq_iff bit_simps)
    have "insert_sorted i ?r (set_route i ?r tb1) = Inr tb'" using a Some True n by (simp add: add_netmask_route_def Let_def)
    with insert_sorted_core [OF w _ _ z] K(2) obtain rs where
      "tb' = (set_route i ?r tb1)\<lparr>tb_routes := rs\<rparr>" "tb_core ({i} - {i}) (set_route i (?r\<lparr>rt_listed := True\<rparr>) ((set_route i ?r tb1)\<lparr>tb_routes := rs\<rparr>))"
      by (fastforce simp: set_route_def)
    moreover from this(1) have "tb' = set_route i (?r\<lparr>rt_listed := True\<rparr>) ((set_route i ?r tb1)\<lparr>tb_routes := rs\<rparr>)"
      by (intro routing_table.equality) (simp_all add: set_route_def)
    ultimately show ?thesis by simp
  qed (use assms Some in \<open>auto simp: add_netmask_route_def\<close>)
qed (use assms in \<open>simp add: add_netmask_route_def\<close>)

lemma updateNetmaskRoutes_ok:
  assumes ok: "tb_ok tb" and u: "updateNetmaskRoutes matches ift tb = Inr tb'"
  shows "tb_ok tb'"
proof -
  have c: "tb_core {} tb" using ok by (simp add: tb_ok_def)
  from u obtain ch tb1 tb2 where r: "erase_routes (\<lambda>r. rt_sourceType r = IFACENETMASK) (tb_routes tb) tb = Inr (ch, tb1)"
    "foldR (add_netmask_route matches) ift tb1 = Inr tb2" "tb' = invalidateCache tb2"
    by (auto simp: updateNetmaskRoutes_def andThen_Inr_iff)
  have c1: "tb_core {} tb1" using erase_routes_core [OF c order_refl tb_coreD(1) [OF c] r(1)] by simp
  have "tb_core {} tb2" by (rule foldR_invariant [OF _ r(2), where P = "tb_core {}"]) (use add_netmask_route_core c1 in blast)+
  with r(3) show ?thesis by (simp add: tb_ok_invalidate)
qed

lemma receiveSignal_ok:
  assumes "tb_ok tb" and "receiveSignal matches ift sig tb = Inr tb'"
  shows "tb_ok tb'"
proof -
  have inv: "tb_ok (invalidateCache tb)" using assms(1) by (simp add: tb_ok_def)
  show ?thesis
  proof (cases sig)
    case (NF_INTERFACE_DELETED entry)
    with assms(2) have "deleteInterfaceRoutes entry tb = Inr tb'" by simp
    then show ?thesis unfolding deleteInterfaceRoutes_def by (rule erase_all_ok [OF assms(1)])
  next
    case NF_INTERFACE_CREATED
    with assms(2) show ?thesis by (simp add: updateNetmaskRoutes_ok [OF assms(1)])
  next
    case NF_INTERFACE_IPv4CONFIG_CHANGED
    with assms(2) show ?thesis by (simp add: updateNetmaskRoutes_ok [OF assms(1)])
  qed (use assms(2) inv in simp_all)
qed

lemma purge_routes_ok: "tb_ok tb \<Longrightarrow> purge_routes tb = Inr tb' \<Longrightarrow> tb_ok tb'"
  unfolding purge_routes_def by (rule erase_all_ok)

subsection \<open>Lookups in reachable tables\<close>

lemma findBestMatchingRoute_ok:
  assumes "tb_ok tb"
  shows "\<exists>tb'. findBestMatchingRoute dest tb = Inr (List.find (\<lambda>i. route_matches dest (rt_at tb i)) (tb_routes tb), tb') \<and> tb_ok tb'
    \<and> tb_routes tb' = tb_routes tb \<and> tb_heap tb' = tb_heap tb"
proof -
  have c: "tb_core {} tb" and k: "cache_ok tb" using assms by (simp_all add: tb_ok_def)
  let ?x = "List.find (\<lambda>i. route_matches dest (rt_at tb i)) (tb_routes tb)"
  have m: "find_match tb dest (tb_routes tb) = Inr ?x" by (rule find_match_live) (rule tb_coreD(3) [OF c])
  let ?tb = "tb\<lparr>tb_cache := (tb_cache tb)(dest \<mapsto> ?x)\<rparr>"
  have fm: "find_match ?tb d is = find_match tb d is" for d "is" by (rule find_match_cong) simp
  have s: "search_route dest tb = Inr (?x, ?tb)" using m by (simp add: search_route_def)
  have ok: "tb_ok ?tb" using c k m by (auto simp: tb_ok_def cache_ok_def fm)
  show ?thesis
  proof (cases "tb_cache tb dest")
    case None
    with s ok show ?thesis by (simp add: findBestMatchingRoute_def)
  next
    case (Some y)
    with k m have y: "y = ?x" by (auto simp: cache_ok_def)
    have "\<exists>r. tb_heap tb i = Some r" if "?x = Some i" for i
      using that tb_coreD(3) [OF c, of i] by (auto simp: find_Some_iff)
    then show ?thesis using Some y assms by (cases ?x) (auto simp: findBestMatchingRoute_def deref_def isValid_def)
  qed
qed

lemma isLocalAddress_ok: "tb_ok tb \<Longrightarrow> tb_ok (snd (isLocalAddress ift d tb))"
proof -
  assume ok: "tb_ok tb"
  have "cache_ok (snd (isLocalAddress ift d tb))"
    by (rule cache_ok_same [of tb]) (use ok in \<open>auto simp: tb_ok_def isLocalAddress_def Let_def\<close>)
  with ok show ?thesis by (simp add: tb_ok_def isLocalAddress_def Let_def)
qed

text \<open>
  The tables that the operations reach. A route is added when it is not in the table; the administrative distance of a route
  in a table that uses it is not changed there: \<open>routeChanged\<close> ignores that field.
\<close>

inductive table_reachable :: "bool \<Rightarrow> routing_table \<Rightarrow> bool" for u where
  new: "table_reachable u (new_routing_table u)"
| create: "table_reachable u tb \<Longrightarrow> createNewRoute tb = (i, tb') \<Longrightarrow> table_reachable u tb'"
| add: "table_reachable u tb \<Longrightarrow> i \<notin> set (tb_routes tb) \<Longrightarrow> addRoute i tb = Inr tb' \<Longrightarrow> table_reachable u tb'"
| remove: "table_reachable u tb \<Longrightarrow> removeRoute i tb = Inr (found, tb') \<Longrightarrow> table_reachable u tb'"
| delete: "table_reachable u tb \<Longrightarrow> table_reachable u (snd (deleteRoute i tb))"
| free: "table_reachable u tb \<Longrightarrow> i \<notin> set (tb_routes tb) \<Longrightarrow> table_reachable u (free_route i tb)"
| destination: "table_reachable u tb \<Longrightarrow> setDestination d i tb = Inr tb' \<Longrightarrow> table_reachable u tb'"
| netmask: "table_reachable u tb \<Longrightarrow> setNetmask m i tb = Inr tb' \<Longrightarrow> table_reachable u tb'"
| gateway: "table_reachable u tb \<Longrightarrow> setGateway g i tb = Inr tb' \<Longrightarrow> table_reachable u tb'"
| interface: "table_reachable u tb \<Longrightarrow> setInterface ie i tb = Inr tb' \<Longrightarrow> table_reachable u tb'"
| sourceType: "table_reachable u tb \<Longrightarrow> setSourceType s i tb = Inr tb' \<Longrightarrow> table_reachable u tb'"
| metric: "table_reachable u tb \<Longrightarrow> setMetric c i tb = Inr tb' \<Longrightarrow> table_reachable u tb'"
| adminDist: "table_reachable u tb \<Longrightarrow> u \<longrightarrow> i \<notin> set (tb_routes tb) \<Longrightarrow> setAdminDist a i tb = Inr tb' \<Longrightarrow> table_reachable u tb'"
| signal: "table_reachable u tb \<Longrightarrow> receiveSignal matches ift sig tb = Inr tb' \<Longrightarrow> table_reachable u tb'"
| purge: "table_reachable u tb \<Longrightarrow> purge_routes tb = Inr tb' \<Longrightarrow> table_reachable u tb'"
| stop: "table_reachable u tb \<Longrightarrow> stop_table tb = Inr tb' \<Longrightarrow> table_reachable u tb'"
| lookup: "table_reachable u tb \<Longrightarrow> findBestMatchingRoute d tb = Inr (x, tb') \<Longrightarrow> table_reachable u tb'"
| isLocal: "table_reachable u tb \<Longrightarrow> table_reachable u (snd (isLocalAddress ift d tb))"

lemma new_table_ok: "tb_ok (new_routing_table u)"
  by (simp add: tb_ok_def tb_core_def cache_ok_def new_routing_table_def)

lemma deleteRoute_ok: "tb_ok tb \<Longrightarrow> tb_ok (snd (deleteRoute i tb))"
  using deleteRoute_core(1) [of "{}" tb i]
  by (auto simp: tb_ok_def deleteRoute_def internalRemoveRoute_def cache_ok_def free_route_def invalidateCache_def)

text \<open>The configuration flag stays.\<close>

lemma flag_simps [simp]:
  "tb_useAdminDist (invalidateCache tb) = tb_useAdminDist tb" "tb_useAdminDist (set_route i r tb) = tb_useAdminDist tb"
  "tb_useAdminDist (free_route i tb) = tb_useAdminDist tb" "tb_useAdminDist (snd (deleteRoute i tb)) = tb_useAdminDist tb"
  "tb_useAdminDist (snd (internalRemoveRoute i tb)) = tb_useAdminDist tb" "tb_useAdminDist (snd (createNewRoute tb)) = tb_useAdminDist tb"
  "tb_useAdminDist (snd (isLocalAddress ift d tb)) = tb_useAdminDist tb"
  by (simp_all add: invalidateCache_def set_route_def free_route_def deleteRoute_def internalRemoveRoute_def createNewRoute_def isLocalAddress_def Let_def)

lemma insert_sorted_flag: "insert_sorted i r tb = Inr tb' \<Longrightarrow> tb_useAdminDist tb' = tb_useAdminDist tb"
  by (auto simp: insert_sorted_def Let_def split: if_splits)

lemma replace_default_flag: "replace_default r tb = Inr tb' \<Longrightarrow> tb_useAdminDist tb' = tb_useAdminDist tb"
  by (auto simp: replace_default_def andThen_Inr_iff split: if_splits option.splits)

lemma internalAddRoute_flag: "internalAddRoute i tb = Inr tb' \<Longrightarrow> tb_useAdminDist tb' = tb_useAdminDist tb"
  by (auto simp: internalAddRoute_def andThen_Inr_iff dest!: replace_default_flag insert_sorted_flag split: if_splits)

lemma removeRoute_flag: "removeRoute i tb = Inr (f, tb') \<Longrightarrow> tb_useAdminDist tb' = tb_useAdminDist tb"
  by (auto simp: removeRoute_def internalRemoveRoute_def andThen_Inr_iff split: if_splits)

lemma set_field_flag: "set_field upd fc i tb = Inr tb' \<Longrightarrow> tb_useAdminDist tb' = tb_useAdminDist tb"
  by (auto simp: set_field_def routeChanged_def Let_def internalRemoveRoute_def andThen_Inr_iff dest!: internalAddRoute_flag split: if_splits)

lemma erase_routes_flag: "erase_routes P is tb = Inr (f, tb') \<Longrightarrow> tb_useAdminDist tb' = tb_useAdminDist tb"
  by (induction "is" arbitrary: tb f) (fastforce simp: andThen_Inr_iff split: if_splits)+

lemma delete_all_flag: "delete_all is tb = Inr tb' \<Longrightarrow> tb_useAdminDist tb' = tb_useAdminDist tb"
  by (induction "is" arbitrary: tb) (fastforce simp: andThen_Inr_iff dest: removeRoute_flag)+

lemma add_netmask_route_flag: "add_netmask_route matches ie tb = Inr tb' \<Longrightarrow> tb_useAdminDist tb' = tb_useAdminDist tb"
  by (auto simp: add_netmask_route_def createNewRoute_def Let_def dest!: insert_sorted_flag split: option.splits if_splits)

lemma updateNetmaskRoutes_flag:
  assumes "updateNetmaskRoutes matches ift tb = Inr tb'"
  shows "tb_useAdminDist tb' = tb_useAdminDist tb"
proof -
  from assms obtain ch tb1 tb2 where r: "erase_routes (\<lambda>r. rt_sourceType r = IFACENETMASK) (tb_routes tb) tb = Inr (ch, tb1)"
    "foldR (add_netmask_route matches) ift tb1 = Inr tb2" "tb' = invalidateCache tb2"
    by (auto simp: updateNetmaskRoutes_def andThen_Inr_iff)
  have "tb_useAdminDist tb2 = tb_useAdminDist tb1"
    by (rule foldR_invariant [OF _ r(2), where P = "\<lambda>t. tb_useAdminDist t = tb_useAdminDist tb1"]) (simp_all add: add_netmask_route_flag)
  with r(3) erase_routes_flag [OF r(1)] show ?thesis by simp
qed

lemma receiveSignal_flag: "receiveSignal matches ift sig tb = Inr tb' \<Longrightarrow> tb_useAdminDist tb' = tb_useAdminDist tb"
  by (cases sig) (auto simp: updateNetmaskRoutes_flag deleteInterfaceRoutes_def andThen_Inr_iff split: if_splits dest!: erase_routes_flag)

lemma purge_routes_flag: "purge_routes tb = Inr tb' \<Longrightarrow> tb_useAdminDist tb' = tb_useAdminDist tb"
  by (auto simp: purge_routes_def andThen_Inr_iff split: if_splits dest!: erase_routes_flag)
lemma findBestMatchingRoute_flag: "findBestMatchingRoute d tb = Inr (x, tb') \<Longrightarrow> tb_useAdminDist tb' = tb_useAdminDist tb"
  by (auto simp: findBestMatchingRoute_def search_route_def andThen_Inr_iff split: option.splits if_splits)

lemma table_reachable_ok: "table_reachable u tb \<Longrightarrow> tb_ok tb \<and> tb_useAdminDist tb = u"
proof (induction rule: table_reachable.induct)
  case new
  show ?case by (simp add: new_table_ok) (simp add: new_routing_table_def)
next
  case (create tb i tb')
  then show ?case using create_ok flag_simps(6) [of tb] by (metis snd_conv)
next
  case (add tb i tb')
  then show ?case using addRoute_ok by (auto simp: addRoute_def andThen_Inr_iff dest: internalAddRoute_flag)
next
  case (remove tb i found tb')
  then show ?case using removeRoute_ok removeRoute_flag by blast
next
  case (delete tb i)
  then show ?case by (simp add: deleteRoute_ok)
next
  case (free tb i)
  then show ?case by (simp add: free_ok)
next
  case (destination tb d i tb')
  then show ?case using set_field_ok [OF _ destination.hyps(2) [unfolded setDestination_def]] set_field_flag by (fastforce simp: setDestination_def)
next
  case (netmask tb m i tb')
  then show ?case using set_field_ok [OF _ netmask.hyps(2) [unfolded setNetmask_def]] set_field_flag by (fastforce simp: setNetmask_def)
next
  case (gateway tb g i tb')
  then show ?case using set_field_ok [OF _ gateway.hyps(2) [unfolded setGateway_def]] set_field_flag by (fastforce simp: setGateway_def route_key_def)
next
  case (interface tb ie i tb')
  then show ?case using set_field_ok [OF _ interface.hyps(2) [unfolded setInterface_def]] set_field_flag by (fastforce simp: setInterface_def route_key_def)
next
  case (sourceType tb s i tb')
  then show ?case using set_field_ok [OF _ sourceType.hyps(2) [unfolded setSourceType_def]] set_field_flag by (fastforce simp: setSourceType_def route_key_def)
next
  case (metric tb c i tb')
  then show ?case using set_field_ok [OF _ metric.hyps(2) [unfolded setMetric_def]] set_field_flag by (fastforce simp: setMetric_def)
next
  case (adminDist tb i a tb')
  then show ?case using set_field_ok [OF _ adminDist.hyps(3) [unfolded setAdminDist_def]] set_field_flag by (fastforce simp: setAdminDist_def route_key_def)
next
  case (signal tb matches ift sig tb')
  then show ?case using receiveSignal_ok receiveSignal_flag by blast
next
  case (purge tb tb')
  then show ?case using purge_routes_ok purge_routes_flag by blast
next
  case (stop tb tb')
  then show ?case using delete_all_ok delete_all_flag unfolding stop_table_def by blast
next
  case (lookup tb d x tb')
  moreover from this obtain x2 tb2 where "findBestMatchingRoute d tb = Inr (x2, tb2)" "tb_ok tb2" using findBestMatchingRoute_ok [of tb d] by blast
  ultimately show ?case using findBestMatchingRoute_flag by fastforce
next
  case (isLocal tb ift d)
  then show ?case by (simp add: isLocalAddress_ok)
qed

text \<open>What best means: a longer netmask; for the same one the smaller administrative distance, if it is used; then the smaller metric.\<close>

definition at_least_as_good :: "bool \<Rightarrow> ipv4_route \<Rightarrow> ipv4_route \<Rightarrow> bool" where
  "at_least_as_good u a b \<longleftrightarrow> rt_netmask b < rt_netmask a \<or>
     rt_netmask b = rt_netmask a \<and> (u \<and> rt_adminDist a < rt_adminDist b \<or> (u \<longrightarrow> rt_adminDist a = rt_adminDist b) \<and> rt_metric a \<le> rt_metric b)"

lemma same_network:
  assumes "route_matches d a" and "route_matches d b" and "rt_netmask a = rt_netmask b"
    and "rt_dest a AND NOT (rt_netmask a) = 0" and "rt_dest b AND NOT (rt_netmask b) = 0"
  shows "rt_dest a = rt_dest b"
proof (rule bit_word_eqI)
  fix i assume "i < LENGTH(32)"
  with assms show "bit (rt_dest a) i = bit (rt_dest b) i"
    unfolding route_matches_def maskedAddrAreEqual_def bit_eq_iff by (simp add: bit_simps) blast
qed

lemma key_best:
  assumes "route_key u a \<le> route_key u b" and "rt_netmask a = rt_netmask b \<longrightarrow> rt_dest a = rt_dest b"
  shows "at_least_as_good u a b"
  using assms by (auto simp: route_key_def at_least_as_good_def word_less_def word_uint_eq_iff split: if_splits)

text \<open>
  C36: In every table the operations reach, a lookup meets no deleted route and, with or without the cache, gives a route that
  matches and is at least as good as every other that does; with valid netmasks its prefix is the longest. It gives none only
  when no route matches.
\<close>

theorem longest_prefix_match:
  assumes "table_reachable u tb"
  shows "\<exists>x tb'. findBestMatchingRoute dest tb = Inr (x, tb') \<and>
    (case x of
       None \<Rightarrow> \<forall>j\<in>set (tb_routes tb). \<not> maskedAddrAreEqual dest (rt_dest (rt_at tb j)) (rt_netmask (rt_at tb j))
     | Some i \<Rightarrow> i \<in> set (tb_routes tb) \<and> maskedAddrAreEqual dest (rt_dest (rt_at tb i)) (rt_netmask (rt_at tb i))
         \<and> (\<forall>j\<in>set (tb_routes tb). maskedAddrAreEqual dest (rt_dest (rt_at tb j)) (rt_netmask (rt_at tb j)) \<longrightarrow>
              at_least_as_good u (rt_at tb i) (rt_at tb j)
              \<and> (isValidNetmask (rt_netmask (rt_at tb i)) \<and> isValidNetmask (rt_netmask (rt_at tb j)) \<longrightarrow>
                   getNetmaskLength (rt_netmask (rt_at tb j)) \<le> getNetmaskLength (rt_netmask (rt_at tb i)))))"
proof -
  have ok: "tb_ok tb" and u: "tb_useAdminDist tb = u" using table_reachable_ok [OF assms] by auto
  have c: "tb_core {} tb" using ok by (simp add: tb_ok_def)
  note C = tb_coreD [OF c]
  let ?m = "\<lambda>i. route_matches dest (rt_at tb i)" and ?rs = "tb_routes tb"
  have m: "?m i \<longleftrightarrow> maskedAddrAreEqual dest (rt_dest (rt_at tb i)) (rt_netmask (rt_at tb i))" for i by (simp add: route_matches_def isValid_def)
  obtain tb' where f: "findBestMatchingRoute dest tb = Inr (List.find ?m ?rs, tb')" using findBestMatchingRoute_ok [OF ok, of dest] by blast
  show ?thesis
  proof (cases "List.find ?m ?rs")
    case None
    then have "\<forall>j\<in>set ?rs. \<not> ?m j" by (auto simp: find_None_iff)
    moreover from None f have "findBestMatchingRoute dest tb = Inr (None, tb')" by simp
    ultimately show ?thesis by (simp add: m)
  next
    case (Some i)
    then obtain p where p: "p < length ?rs" "?m (?rs ! p)" "i = ?rs ! p" "\<And>q. q < p \<Longrightarrow> \<not> ?m (?rs ! q)" by (auto simp: find_Some_iff)
    have i: "i \<in> set ?rs" "?m i" using p by auto
    have good: "at_least_as_good u (rt_at tb i) (rt_at tb j)" if j: "j \<in> set ?rs" "?m j" for j
    proof (rule key_best)
      obtain q where q: "q < length ?rs" "j = ?rs ! q" using j(1) by (auto simp: in_set_conv_nth)
      then have "p \<le> q" using p(4) j(2) by (metis not_less)
      then show "route_key u (rt_at tb i) \<le> route_key u (rt_at tb j)"
        using sorted_nth_mono [OF C(2), of p q] q p(1,3) u by simp
      show "rt_netmask (rt_at tb i) = rt_netmask (rt_at tb j) \<longrightarrow> rt_dest (rt_at tb i) = rt_dest (rt_at tb j)"
        by (intro impI same_network [OF i(2) j(2) _ C(5) [OF i(1)] C(5) [OF j(1)]])
    qed
    moreover have "getNetmaskLength (rt_netmask b) \<le> getNetmaskLength (rt_netmask a)"
      if "at_least_as_good u a b" "isValidNetmask (rt_netmask a)" "isValidNetmask (rt_netmask b)" for a b
      using that netmask_le_iff [of "rt_netmask b" "rt_netmask a"] by (auto simp: at_least_as_good_def)
    moreover from Some f have "findBestMatchingRoute dest tb = Inr (Some i, tb')" by simp
    ultimately show ?thesis using i by (auto simp: m)
  qed
qed

text \<open>A table with a default route and a route to \<open>10.0.0.0/8\<close>.\<close>

definition witness_route :: "ipv4_address \<Rightarrow> ipv4_address \<Rightarrow> nat \<Rightarrow> ipv4_route" where
  "witness_route d m ie = \<lparr>rt_listed = True, rt_dest = d, rt_netmask = m, rt_gateway = 0, rt_interface = Some ie,
     rt_sourceType = MANUAL, rt_adminDist = 255, rt_metric = 0\<rparr>"

definition witness_table :: routing_table where
  "witness_table = \<lparr>tb_routes = [1, 0], tb_heap = [0 \<mapsto> witness_route 0 0 7, 1 \<mapsto> witness_route 0x0A000000 0xFF000000 8], tb_next = 2,
     tb_cache = Map.empty, tb_localAddresses = {}, tb_useAdminDist = False\<rparr>"

lemma witness_netmasks: "isValidNetmask 0" "isValidNetmask 0xFF000000"
  by code_simp+

lemma witness_table_reachable: "table_reachable False witness_table"
proof -
  let ?t0 = "new_routing_table False"
  let ?b = "\<lparr>rt_listed = False, rt_dest = 0, rt_netmask = 0, rt_gateway = 0, rt_interface = None, rt_sourceType = MANUAL, rt_adminDist = 255, rt_metric = 0\<rparr>"
  let ?t1 = "?t0\<lparr>tb_next := 1, tb_heap := [0 \<mapsto> ?b]\<rparr>"
  let ?t2 = "?t0\<lparr>tb_next := 1, tb_heap := [0 \<mapsto> ?b\<lparr>rt_interface := Some 7\<rparr>]\<rparr>"
  let ?t3 = "?t0\<lparr>tb_next := 1, tb_heap := [0 \<mapsto> witness_route 0 0 7], tb_routes := [0]\<rparr>"
  let ?h = "\<lambda>r. ?t0\<lparr>tb_next := 2, tb_heap := [0 \<mapsto> witness_route 0 0 7, 1 \<mapsto> r], tb_routes := [0]\<rparr>"
  let ?r = "?b\<lparr>rt_dest := 0x0A000000, rt_netmask := 0xFF000000\<rparr>"
  have "createNewRoute ?t0 = (0, ?t1)" by (simp add: createNewRoute_def new_routing_table_def)
  then have 1: "table_reachable False ?t1" by (rule table_reachable.create [OF table_reachable.new])
  have "setInterface (Some 7) 0 ?t1 = Inr ?t2" by (simp add: setInterface_def set_field_def deref_def Let_def set_route_def)
  then have 2: "table_reachable False ?t2" by (rule table_reachable.interface [OF 1])
  have "addRoute 0 ?t2 = Inr ?t3"
    by (simp add: addRoute_def internalAddRoute_def deref_def witness_netmasks replace_default_def getDefaultRoute_def new_routing_table_def
        insert_sorted_def Let_def set_route_def invalidateCache_def witness_route_def)
  then have 3: "table_reachable False ?t3" by (rule table_reachable.add [OF 2, rotated]) (simp add: new_routing_table_def)
  have "createNewRoute ?t3 = (1, ?h ?b)" by (simp add: createNewRoute_def new_routing_table_def)
  then have 4: "table_reachable False (?h ?b)" by (rule table_reachable.create [OF 3])
  have "setDestination 0x0A000000 1 (?h ?b) = Inr (?h (?b\<lparr>rt_dest := 0x0A000000\<rparr>))"
    by (simp add: setDestination_def set_field_def deref_def Let_def set_route_def)
  then have 5: "table_reachable False (?h (?b\<lparr>rt_dest := 0x0A000000\<rparr>))" by (rule table_reachable.destination [OF 4])
  have "setNetmask 0xFF000000 1 (?h (?b\<lparr>rt_dest := 0x0A000000\<rparr>)) = Inr (?h ?r)"
    by (simp add: setNetmask_def set_field_def deref_def Let_def set_route_def)
  then have 6: "table_reachable False (?h ?r)" by (rule table_reachable.netmask [OF 5])
  have "setInterface (Some 8) 1 (?h ?r) = Inr (?h (?r\<lparr>rt_interface := Some 8\<rparr>))"
    by (simp add: setInterface_def set_field_def deref_def Let_def set_route_def)
  then have 7: "table_reachable False (?h (?r\<lparr>rt_interface := Some 8\<rparr>))" by (rule table_reachable.interface [OF 6])
  have "addRoute 1 (?h (?r\<lparr>rt_interface := Some 8\<rparr>)) = Inr witness_table"
    by (simp add: addRoute_def internalAddRoute_def deref_def witness_netmasks replace_default_def new_routing_table_def
        insert_sorted_def comes_after_def routeLessThan_def Let_def set_route_def invalidateCache_def witness_route_def witness_table_def)
  then show ?thesis by (rule table_reachable.add [OF 7, rotated]) (simp add: new_routing_table_def)
qed

lemma longest_prefix_match_witness:
  "findBestMatchingRoute 0x0A000001 witness_table = Inr (Some 1, witness_table\<lparr>tb_cache := [0x0A000001 \<mapsto> Some 1]\<rparr>)
   \<and> at_least_as_good False (rt_at witness_table 1) (rt_at witness_table 0)"
proof -
  have f: "findBestMatchingRoute 0x0A000001 witness_table = Inr (Some 1, witness_table\<lparr>tb_cache := [0x0A000001 \<mapsto> Some 1]\<rparr>)"
    by (simp add: findBestMatchingRoute_def search_route_def witness_table_def deref_def witness_route_def isValid_def maskedAddrAreEqual_def)
  have "maskedAddrAreEqual 0x0A000001 (rt_dest (rt_at witness_table 0)) (rt_netmask (rt_at witness_table 0))" "0 \<in> set (tb_routes witness_table)"
    by (simp_all add: rt_at_def witness_table_def witness_route_def maskedAddrAreEqual_def)
  with f longest_prefix_match [OF witness_table_reachable, of "0x0A000001"] show ?thesis by auto
qed

subsection \<open>A case the order does not survive\<close>

text \<open>
  In a table that uses administrative distances, the change of one in the table leaves the order as it was: the lookup then
  gives a route although another one is better.
\<close>

lemma admin_distance_change_not_reordered:
  "\<exists>tb tb' tb''. tb_core {} tb \<and> setAdminDist 3 0 tb = Inr tb' \<and> findBestMatchingRoute 0x0A000001 tb' = Inr (Some 0, tb'')
     \<and> \<not> at_least_as_good True (rt_at tb' 0) (rt_at tb' 1)"
proof -
  let ?r = "\<lambda>a. (witness_route 0x0A000000 0xFF000000 8)\<lparr>rt_adminDist := a\<rparr>"
  let ?tb = "\<lambda>a. \<lparr>tb_routes = [0, 1], tb_heap = [0 \<mapsto> ?r a, 1 \<mapsto> ?r 2], tb_next = 2, tb_cache = Map.empty, tb_localAddresses = {}, tb_useAdminDist = True\<rparr>"
  have "tb_core {} (?tb 1)" by (auto simp: tb_core_def rt_at_def witness_route_def route_key_def)
  moreover have "setAdminDist 3 0 (?tb 1) = Inr (?tb 3)"
    by (simp add: setAdminDist_def set_field_def deref_def witness_route_def Let_def set_route_def routeChanged_def fun_upd_twist)
  moreover have "findBestMatchingRoute 0x0A000001 (?tb 3) = Inr (Some 0, (?tb 3)\<lparr>tb_cache := [0x0A000001 \<mapsto> Some 0]\<rparr>)"
    by (simp add: findBestMatchingRoute_def search_route_def deref_def witness_route_def isValid_def maskedAddrAreEqual_def)
  moreover have "\<not> at_least_as_good True (rt_at (?tb 3) 0) (rt_at (?tb 3) 1)"
    by (simp add: at_least_as_good_def rt_at_def witness_route_def)
  ultimately show ?thesis by blast
qed

end
