(* ===== verification/SimpleLoRaApp.thy ===== *)
theory SimpleLoRaApp
  imports LoRaTypes
begin

text \<open>
  The end device's application, \<open>LoRaApp/SimpleLoRaApp.cc\<close>: it sends a measurement at random intervals,
  takes the transmission parameters the network server sends back, and raises its spreading factor when the
  server stays silent. The values that a random module parameter yields are a list, in the order they are
  drawn; a loop that draws again until a bound is passed takes them one by one, and gives \<open>None\<close> when it
  would still be drawing. \<open>app_sent\<close> and \<open>app_emitted\<close> record what \<open>send\<close> and \<open>emit\<close> put out. The kind of a
  packet, which nothing reads, is left out: the code sets it instead of \<open>msgType\<close>, which stays unset.
\<close>

record simple_lora_app = sim +
  app_warmup :: simtime
  numberOfPacketsToSend :: int
  sentPackets :: int
  receivedADRCommands :: int
  lastSentMeasurement :: int
  sendMeasurements :: "simtime option"
  evaluateADRinNode :: bool
  ADR_ACK_CNT :: int
  ADR_ACK_LIMIT :: int
  ADR_ACK_DELAY :: int
  sendNextPacketWithADRACKReq :: bool
  app_loRaTP :: real
  app_loRaCF :: real
  app_loRaSF :: int
  app_loRaBW :: real
  app_loRaCR :: int
  app_loRaUseHeader :: bool
  app_sent :: "(lora_app_packet \<times> lora_mac_control_info) list"
  app_emitted :: "int list"

fun draw_beyond :: "real \<Rightarrow> real list \<Rightarrow> real option" where
  "draw_beyond bound [] = None"
| "draw_beyond bound (x # draws) = (if x \<le> bound then draw_beyond bound draws else Some x)"

definition generateUniformCircleCoordinates :: "real \<Rightarrow> real \<Rightarrow> real \<Rightarrow> real \<Rightarrow> real \<Rightarrow> real \<times> real" where
  "generateUniformCircleCoordinates gatewayX gatewayY radius randomValueRadius randomTheta =
     (let x = sqrt randomValueRadius * cos randomTheta;
          y = sqrt randomValueRadius * sin randomTheta
      in (x + gatewayX, gatewayY - y))"

text \<open>\<open>initialize\<close>, stage \<open>INITSTAGE_APPLICATION_LAYER\<close>, of an operational node; \<open>a\<close> holds the parameters.\<close>

definition app_initialize :: "bool \<Rightarrow> real list \<Rightarrow> simple_lora_app \<Rightarrow> simple_lora_app result option" where
  "app_initialize isOperational draws a =
     (if \<not> isOperational then Some (Inl (RuntimeError ''This module doesn't support starting in node DOWN state''))
      else map_option (\<lambda>timeToFirstPacket.
             Inr (a\<lparr>sendMeasurements := Some (simTime a + timeToFirstPacket), sentPackets := 0, receivedADRCommands := 0,
                    ADR_ACK_CNT := 0, ADR_ACK_LIMIT := 64, ADR_ACK_DELAY := 32, sendNextPacketWithADRACKReq := False,
                    app_sent := [], app_emitted := []\<rparr>))
           (draw_beyond 5 draws))"

definition increaseSFIfPossible :: "simple_lora_app \<Rightarrow> simple_lora_app" where
  "increaseSFIfPossible a = (if app_loRaSF a < 12 then a\<lparr>app_loRaSF := app_loRaSF a + 1\<rparr> else a)"

definition sendJoinRequest :: "int \<Rightarrow> simple_lora_app \<Rightarrow> simple_lora_app" where
  "sendJoinRequest random a =
     (let a = a\<lparr>lastSentMeasurement := random\<rparr>;
          request = \<lparr>msgType = MSGTYPE_UNSET, sampleMeasurement = random, options = default_options\<rparr>;
          (request, a) =
            (if evaluateADRinNode a \<and> sendNextPacketWithADRACKReq a
             then (request\<lparr>options := (options request)\<lparr>opt_ADRACKReq := True\<rparr>\<rparr>, a\<lparr>sendNextPacketWithADRACKReq := False\<rparr>)
             else (request, a));
          cInfo = \<lparr>ci_src = UNSPECIFIED_ADDRESS, ci_dest = UNSPECIFIED_ADDRESS, ci_LoRaTP = app_loRaTP a,
                   ci_LoRaCF = app_loRaCF a, ci_LoRaSF = app_loRaSF a, ci_LoRaBW = app_loRaBW a,
                   ci_LoRaCR = app_loRaCR a, ci_LoRaUseHeader = False\<rparr>;
          a = a\<lparr>app_sent := app_sent a @ [(request, cInfo)]\<rparr>;
          a = (if evaluateADRinNode a
               then let a = a\<lparr>ADR_ACK_CNT := ADR_ACK_CNT a + 1\<rparr>;
                        a = (if ADR_ACK_CNT a = ADR_ACK_LIMIT a then a\<lparr>sendNextPacketWithADRACKReq := True\<rparr> else a)
                    in if ADR_ACK_LIMIT a + ADR_ACK_DELAY a \<le> ADR_ACK_CNT a
                       then increaseSFIfPossible (a\<lparr>ADR_ACK_CNT := 0\<rparr>) else a
               else a)
      in a\<lparr>app_emitted := app_emitted a @ [app_loRaSF a]\<rparr>)"

definition app_handleMessageFromLowerLayer :: "lora_app_packet \<Rightarrow> simple_lora_app \<Rightarrow> simple_lora_app" where
  "app_handleMessageFromLowerLayer packet a =
     (let a = (if app_warmup a \<le> simTime a then a\<lparr>receivedADRCommands := receivedADRCommands a + 1\<rparr> else a)
      in if evaluateADRinNode a
         then let a = a\<lparr>ADR_ACK_CNT := 0\<rparr>
              in if msgType packet = TXCONFIG
                 then let a = (if opt_LoRaTP (options packet) \<noteq> -1 then a\<lparr>app_loRaTP := opt_LoRaTP (options packet)\<rparr> else a)
                      in if opt_LoRaSF (options packet) \<noteq> -1 then a\<lparr>app_loRaSF := opt_LoRaSF (options packet)\<rparr> else a
                 else a
         else a)"

text \<open>The least interval of the duty cycle; for any other spreading factor \<open>time\<close> is read uninitialised.\<close>

definition app_time :: "int \<Rightarrow> simtime option" where
  "app_time sf =
     (if sf = 7 then Some 7.808 else if sf = 8 then Some 13.9776 else if sf = 9 then Some 24.6784
      else if sf = 10 then Some 49.3568 else if sf = 11 then Some 85.6064 else if sf = 12 then Some 171.2128 else None)"

definition app_handleSelfMessage :: "int \<Rightarrow> real list \<Rightarrow> simple_lora_app \<Rightarrow> simple_lora_app result option" where
  "app_handleSelfMessage random draws a =
     (let a = sendJoinRequest random a;
          a = (if app_warmup a \<le> simTime a then a\<lparr>sentPackets := sentPackets a + 1\<rparr> else a)
      in if numberOfPacketsToSend a = 0 \<or> sentPackets a < numberOfPacketsToSend a
         then case app_time (app_loRaSF a) of
                None \<Rightarrow> Some (Inl (UndefinedBehaviour ''time''))
              | Some time \<Rightarrow>
                  map_option (\<lambda>timeToNextPacket. Inr (a\<lparr>sendMeasurements := Some (simTime a + timeToNextPacket)\<rparr>))
                    (draw_beyond time draws)
         else Some (Inr a))"

text \<open>What can happen to the application: its timer expires at its time, or a packet comes from below.\<close>

datatype app_event =
    AppTimer int "real list"
  | AppPacket simtime lora_app_packet

definition app_step :: "app_event \<Rightarrow> simple_lora_app \<Rightarrow> simple_lora_app result option" where
  "app_step ev a =
     (case ev of
        AppTimer random draws \<Rightarrow>
          (case sendMeasurements a of
             None \<Rightarrow> None
           | Some t \<Rightarrow> app_handleSelfMessage random draws (a\<lparr>simTime := t, sendMeasurements := None\<rparr>))
      | AppPacket t packet \<Rightarrow>
          (if simTime a \<le> t \<and> (\<forall>t'\<in>set_option (sendMeasurements a). t \<le> t')
           then Some (Inr (app_handleMessageFromLowerLayer packet (a\<lparr>simTime := t\<rparr>))) else None))"

subsection \<open>Placement\<close>

text \<open>
  The random position of a node lies in the circle of the given radius around the gateway, at the
  distance that the first draw prescribes.
\<close>

theorem generateUniformCircleCoordinates_in_circle:
  assumes "0 \<le> randomValueRadius" and "randomValueRadius \<le> radius * radius" and "0 \<le> radius"
  shows "(case generateUniformCircleCoordinates gatewayX gatewayY radius randomValueRadius randomTheta of
            (x, y) \<Rightarrow> sqrt ((x - gatewayX)\<^sup>2 + (y - gatewayY)\<^sup>2) = sqrt randomValueRadius
                    \<and> sqrt ((x - gatewayX)\<^sup>2 + (y - gatewayY)\<^sup>2) \<le> radius)"
proof -
  have "(sqrt randomValueRadius * cos randomTheta)\<^sup>2 + (sqrt randomValueRadius * sin randomTheta)\<^sup>2
      = randomValueRadius * ((cos randomTheta)\<^sup>2 + (sin randomTheta)\<^sup>2)"
    using assms(1) by (simp only: power_mult_distrib real_sqrt_pow2 distrib_left)
  then have "(sqrt randomValueRadius * cos randomTheta)\<^sup>2 + (sqrt randomValueRadius * sin randomTheta)\<^sup>2 = randomValueRadius"
    by simp
  moreover have "sqrt randomValueRadius \<le> radius" using assms by (simp add: real_le_lsqrt power2_eq_square)
  ultimately show ?thesis by (simp add: generateUniformCircleCoordinates_def Let_def)
qed

lemma generateUniformCircleCoordinates_in_circle_witness:
  "case generateUniformCircleCoordinates 500 500 10 36 2 of (x, y) \<Rightarrow> sqrt ((x - 500)\<^sup>2 + (y - 500)\<^sup>2) \<le> 10"
  using generateUniformCircleCoordinates_in_circle [of 36 10 500 500 2] by auto

subsection \<open>The adaptive data rate of the node\<close>

lemma funpow_Suc: "(f ^^ Suc n) x = f ((f ^^ n) x)"
  by simp

text \<open>
  C24: The back-off of a node that hears nothing: after \<open>n\<close> uplinks in a row the counter is \<open>n\<close> modulo 96, the
  spreading factor has grown by one for each full 96 uplinks up to 12, and of the packets sent exactly the
  65th of each 96 asked the server for an acknowledgement.
\<close>

theorem adr_backoff:
  assumes "evaluateADRinNode a" and "ADR_ACK_LIMIT a = 64" and "ADR_ACK_DELAY a = 32"
    and "ADR_ACK_CNT a = 0" and "\<not> sendNextPacketWithADRACKReq a" and "app_loRaSF a \<le> 12" and "app_sent a = []"
  shows "ADR_ACK_CNT ((sendJoinRequest random ^^ n) a) = int (n mod 96)
       \<and> app_loRaSF ((sendJoinRequest random ^^ n) a) = min 12 (app_loRaSF a + int (n div 96))
       \<and> map (\<lambda>(p, c). opt_ADRACKReq (options p)) (app_sent ((sendJoinRequest random ^^ n) a)) = map (\<lambda>i. i mod 96 = 64) [0..<n]"
proof -
  let ?a = "\<lambda>n. (sendJoinRequest random ^^ n) a"
  have "evaluateADRinNode (?a n) \<and> ADR_ACK_LIMIT (?a n) = 64 \<and> ADR_ACK_DELAY (?a n) = 32
      \<and> ADR_ACK_CNT (?a n) = int (n mod 96) \<and> sendNextPacketWithADRACKReq (?a n) = (n mod 96 = 64)
      \<and> app_loRaSF (?a n) = min 12 (app_loRaSF a + int (n div 96))
      \<and> map (\<lambda>(p, c). opt_ADRACKReq (options p)) (app_sent (?a n)) = map (\<lambda>i. i mod 96 = 64) [0..<n]"
  proof (induction n)
    case 0
    show ?case using assms by simp
  next
    case (Suc n)
    have wrap: "(Suc n mod 96, Suc n div 96) = (if n mod 96 = 95 then (0, Suc (n div 96)) else (Suc (n mod 96), n div 96))"
      by (simp add: mod_Suc div_Suc)
    show ?case
    proof (cases "n mod 96 = 95")
      case True
      then show ?thesis using Suc wrap
        by (simp add: sendJoinRequest_def increaseSFIfPossible_def Let_def default_options_def)
    next
      case False
      moreover have "n mod 96 < 95" using False mod_less_divisor [of 96 n] by linarith
      ultimately show ?thesis using Suc wrap
        by (simp add: sendJoinRequest_def increaseSFIfPossible_def Let_def default_options_def)
    qed
  qed
  then show ?thesis by simp
qed

definition sample_app :: simple_lora_app where
  "sample_app = \<lparr>simTime = 0, app_warmup = 0, numberOfPacketsToSend = 2, sentPackets = 0, receivedADRCommands = 0,
     lastSentMeasurement = 0, sendMeasurements = None, evaluateADRinNode = True, ADR_ACK_CNT = 0, ADR_ACK_LIMIT = 64,
     ADR_ACK_DELAY = 32, sendNextPacketWithADRACKReq = False, app_loRaTP = 14, app_loRaCF = 868, app_loRaSF = 11,
     app_loRaBW = 125, app_loRaCR = 4, app_loRaUseHeader = True, app_sent = [], app_emitted = []\<rparr>"

lemma adr_backoff_witness:
  "app_loRaSF ((sendJoinRequest 1 ^^ 200) sample_app) = 12 \<and> ADR_ACK_CNT ((sendJoinRequest 1 ^^ 200) sample_app) = 8"
proof -
  have "evaluateADRinNode sample_app" "ADR_ACK_LIMIT sample_app = 64" "ADR_ACK_DELAY sample_app = 32"
    "ADR_ACK_CNT sample_app = 0" "\<not> sendNextPacketWithADRACKReq sample_app" "app_loRaSF sample_app \<le> 12" "app_sent sample_app = []"
    by (simp_all add: sample_app_def)
  from adr_backoff [OF this, of 200 1] have
    "ADR_ACK_CNT ((sendJoinRequest 1 ^^ 200) sample_app) = int (200 mod 96)"
    "app_loRaSF ((sendJoinRequest 1 ^^ 200) sample_app) = min 12 (app_loRaSF sample_app + int (200 div 96))"
    by (simp_all only: simp_thms)
  then show ?thesis by (simp add: sample_app_def)
qed

subsection \<open>Running the application\<close>

fun app_run :: "app_event list \<Rightarrow> simple_lora_app \<Rightarrow> simple_lora_app result option" where
  "app_run [] a = Some (Inr a)"
| "app_run (ev # evs) a =
     (case app_step ev a of Some (Inr a') \<Rightarrow> app_run evs a' | r \<Rightarrow> r)"

lemma draw_beyond_bound: "draw_beyond b xs = Some x \<Longrightarrow> b < x"
  by (induction b xs rule: draw_beyond.induct) (auto split: if_splits)

lemma sendJoinRequest_keeps [simp]:
  "simTime (sendJoinRequest r a) = simTime a"
  "app_warmup (sendJoinRequest r a) = app_warmup a"
  "numberOfPacketsToSend (sendJoinRequest r a) = numberOfPacketsToSend a"
  "sentPackets (sendJoinRequest r a) = sentPackets a"
  "sendMeasurements (sendJoinRequest r a) = sendMeasurements a"
  "length (app_sent (sendJoinRequest r a)) = Suc (length (app_sent a))"
  by (simp_all add: sendJoinRequest_def increaseSFIfPossible_def Let_def)

lemma handleMessageFromLowerLayer_keeps [simp]:
  "simTime (app_handleMessageFromLowerLayer p a) = simTime a"
  "app_warmup (app_handleMessageFromLowerLayer p a) = app_warmup a"
  "numberOfPacketsToSend (app_handleMessageFromLowerLayer p a) = numberOfPacketsToSend a"
  "sentPackets (app_handleMessageFromLowerLayer p a) = sentPackets a"
  "sendMeasurements (app_handleMessageFromLowerLayer p a) = sendMeasurements a"
  "app_sent (app_handleMessageFromLowerLayer p a) = app_sent a"
  by (simp_all add: app_handleMessageFromLowerLayer_def Let_def)

text \<open>The times at which the timer of a run expires, each with a packet sent.\<close>

fun sent_at :: "app_event list \<Rightarrow> simple_lora_app \<Rightarrow> simtime list" where
  "sent_at [] a = []"
| "sent_at (ev # evs) a =
     (case app_step ev a of
        Some (Inr a') \<Rightarrow> (case ev of AppTimer random draws \<Rightarrow> [simTime a'] | AppPacket t packet \<Rightarrow> []) @ sent_at evs a'
      | _ \<Rightarrow> [])"

text \<open>The timer runs as long as packets are left to be sent: \<open>N\<close> that count, any number for 0, one below 0.\<close>

definition timer_runs_for :: "int \<Rightarrow> simple_lora_app \<Rightarrow> bool" where
  "timer_runs_for N a \<longleftrightarrow> numberOfPacketsToSend a = N \<and> (\<forall>t. sendMeasurements a = Some t \<longrightarrow> simTime a \<le> t)
     \<and> (0 < N \<longrightarrow> sentPackets a \<le> N \<and> (sendMeasurements a = None \<longleftrightarrow> sentPackets a = N))
     \<and> (N = 0 \<longrightarrow> sendMeasurements a \<noteq> None)
     \<and> (N < 0 \<longrightarrow> length (app_sent a) = (if sendMeasurements a = None then 1 else 0) \<and> 0 \<le> sentPackets a)"

lemma app_time_pos: "app_time sf = Some time \<Longrightarrow> 0 < time"
  by (auto simp: app_time_def split: if_splits)

lemma app_timer_step:
  assumes "app_step (AppTimer random draws) a = Some (Inr a')"
  obtains t where "sendMeasurements a = Some t" and "simTime a' = t" and "app_warmup a' = app_warmup a"
    and "numberOfPacketsToSend a' = numberOfPacketsToSend a" and "length (app_sent a') = Suc (length (app_sent a))"
    and "sentPackets a' = sentPackets a + (if app_warmup a \<le> t then 1 else 0)"
    and "sendMeasurements a' = None \<longleftrightarrow> numberOfPacketsToSend a \<noteq> 0 \<and> numberOfPacketsToSend a \<le> sentPackets a'"
    and "\<And>t'. sendMeasurements a' = Some t' \<Longrightarrow> t \<le> t'"
proof -
  from assms obtain t where t: "sendMeasurements a = Some t"
    "app_handleSelfMessage random draws (a\<lparr>simTime := t, sendMeasurements := None\<rparr>) = Some (Inr a')"
    by (auto simp: app_step_def split: option.splits)
  then show thesis
    using app_time_pos draw_beyond_bound
    by (intro that [of t]) (fastforce simp: app_handleSelfMessage_def Let_def split: option.splits if_splits)+
qed

lemma app_packet_step:
  assumes "app_step (AppPacket t packet) a = Some (Inr a')"
  shows "app_warmup a' = app_warmup a" and "numberOfPacketsToSend a' = numberOfPacketsToSend a" and "app_sent a' = app_sent a"
    and "sentPackets a' = sentPackets a" and "sendMeasurements a' = sendMeasurements a" and "simTime a \<le> simTime a'"
    and "sendMeasurements a = Some t' \<Longrightarrow> simTime a' \<le> t'"
  using assms by (auto simp: app_step_def split: if_splits)

lemma timer_runs_for_step:
  assumes r: "timer_runs_for N a" and s: "app_step ev a = Some (Inr a')"
  shows "timer_runs_for N a' \<and> simTime a \<le> simTime a' \<and> app_warmup a' = app_warmup a"
proof (cases ev)
  case (AppTimer random draws)
  from s show ?thesis unfolding AppTimer by (rule app_timer_step) (use r in \<open>auto simp: timer_runs_for_def split: if_splits\<close>)
next
  case (AppPacket t p)
  note st = app_packet_step [OF s [unfolded AppPacket]]
  from r st(7) show ?thesis by (auto simp: timer_runs_for_def st(1-5) intro: st(6))
qed

lemma app_run_counts:
  assumes "app_run evs a = Some (Inr a')" and "timer_runs_for N a"
  shows "timer_runs_for N a' \<and> length (app_sent a') = length (app_sent a) + length (sent_at evs a)
    \<and> sentPackets a' = sentPackets a + int (length (filter (\<lambda>t. app_warmup a \<le> t) (sent_at evs a))) \<and> sorted (simTime a # sent_at evs a)"
  using assms
proof (induction evs arbitrary: a)
  case Nil
  then show ?case by simp
next
  case (Cons ev evs)
  then obtain a1 where s: "app_step ev a = Some (Inr a1)" "app_run evs a1 = Some (Inr a')"
    by (auto split: option.splits sum.splits)
  note k = timer_runs_for_step [OF Cons.prems(2) s(1)]
  note IH = Cons.IH [OF s(2) conjunct1 [OF k]]
  show ?case
  proof (cases ev)
    case (AppTimer random draws)
    from s(1) show ?thesis
      unfolding AppTimer by (rule app_timer_step) (use IH k s(1) in \<open>auto simp: AppTimer\<close>)
  next
    case (AppPacket t packet)
    from app_packet_step [OF s(1) [unfolded AppPacket]] IH k s(1) show ?thesis by (auto simp: AppPacket)
  qed
qed

lemma app_initialize_runs:
  assumes "app_initialize isOperational draws a = Some (Inr a0)"
  shows "timer_runs_for (numberOfPacketsToSend a) a0 \<and> sentPackets a0 = 0 \<and> app_sent a0 = [] \<and> simTime a0 = simTime a
    \<and> app_warmup a0 = app_warmup a"
proof -
  obtain x where "draw_beyond 5 draws = Some x" and a0: "a0 = a\<lparr>sendMeasurements := Some (simTime a + x), sentPackets := 0,
      receivedADRCommands := 0, ADR_ACK_CNT := 0, ADR_ACK_LIMIT := 64, ADR_ACK_DELAY := 32,
      sendNextPacketWithADRACKReq := False, app_sent := [], app_emitted := []\<rparr>"
    using assms by (auto simp: app_initialize_def split: if_splits)
  then have "0 < x" using draw_beyond_bound by fastforce
  with a0 show ?thesis by (simp add: timer_runs_for_def)
qed

text \<open>
  C25: How many packets an application sends that is told to send \<open>N\<close>, whatever the downlinks it receives. A packet counts
  when the warm-up period is over at the time it is sent; in the warm-up any number is sent and none counts. With
  \<open>N > 0\<close>, never more than \<open>N\<close> packets count, and the timer is stopped exactly when the \<open>N\<close>-th that counts has been
  sent. With \<open>N = 0\<close> the timer never stops; with a negative \<open>N\<close> it stops at the first packet.
\<close>

theorem app_sends_at_most:
  assumes "app_initialize isOperational draws a = Some (Inr a0)" and "app_run evs a0 = Some (Inr a')"
  defines "N \<equiv> numberOfPacketsToSend a" and "counted \<equiv> filter (\<lambda>t. app_warmup a \<le> t) (sent_at evs a0)"
  shows "length (app_sent a') = length (sent_at evs a0) \<and> sorted (simTime a # sent_at evs a0) \<and> sentPackets a' = int (length counted)
    \<and> (0 < N \<longrightarrow> int (length counted) \<le> N \<and> (sendMeasurements a' = None \<longleftrightarrow> int (length counted) = N))
    \<and> (N = 0 \<longrightarrow> sendMeasurements a' \<noteq> None)
    \<and> (N < 0 \<longrightarrow> length (app_sent a') \<le> 1 \<and> (sendMeasurements a' = None \<longleftrightarrow> length (app_sent a') = 1))"
proof -
  note i = app_initialize_runs [OF assms(1), folded N_def]
  note c = app_run_counts [OF assms(2) conjunct1 [OF i]]
  then have "sentPackets a' = int (length counted)" "sorted (simTime a # sent_at evs a0)" using i by (simp_all add: counted_def)
  with c i show ?thesis by (auto simp: timer_runs_for_def split: if_splits)
qed

text \<open>Two packets to send, with the first timer in the warm-up: three are sent, and the timer stops.\<close>

lemma app_sends_at_most_witness:
  "\<exists>a'. app_run [AppTimer 3 [1, 90, 5], AppTimer 4 [100], AppTimer 4 []] (sample_app\<lparr>app_warmup := 7, sendMeasurements := Some 6\<rparr>)
       = Some (Inr a') \<and> sendMeasurements a' = None \<and> length (app_sent a') = 3"
proof -
  let ?a = "sample_app\<lparr>app_warmup := 7\<rparr>" and ?evs = "[AppTimer 3 [1, 90, 5], AppTimer 4 [100], AppTimer 4 []]"
  have i: "app_initialize True [2, 6] ?a = Some (Inr (?a\<lparr>sendMeasurements := Some 6\<rparr>))"
    by (simp add: app_initialize_def sample_app_def)
  obtain a' where r: "app_run ?evs (?a\<lparr>sendMeasurements := Some 6\<rparr>) = Some (Inr a')"
    and t: "sent_at ?evs (?a\<lparr>sendMeasurements := Some 6\<rparr>) = [6, 96, 196]"
    by (simp add: sample_app_def app_step_def app_handleSelfMessage_def sendJoinRequest_def app_time_def Let_def)
  from app_sends_at_most [OF i r, unfolded t] r show ?thesis by (auto simp: sample_app_def)
qed

text \<open>
  C26: The duty cycle of the device: whenever a packet has been sent and another is due, it is due later than
  the least interval of the spreading factor then in use, which is at least 7.808 s and grows with it.
\<close>

theorem app_duty_cycle:
  assumes "app_handleSelfMessage random draws a = Some (Inr a')" and "sendMeasurements a = None"
    and "sendMeasurements a' = Some t"
  shows "\<exists>time. app_time (app_loRaSF a') = Some time \<and> simTime a + time < t \<and> 7.808 * (3 / 2) ^ nat (app_loRaSF a' - 7) \<le> time
       \<and> 7 \<le> app_loRaSF a' \<and> app_loRaSF a' \<le> 12"
proof -
  let ?a = "sendJoinRequest random a"
  obtain time next' where t: "app_time (app_loRaSF ?a) = Some time" "draw_beyond time draws = Some next'"
    "app_loRaSF a' = app_loRaSF ?a" "t = simTime a + next'"
    using assms by (auto simp: app_handleSelfMessage_def Let_def split: option.splits if_splits)
  have "7.808 * (3 / 2) ^ nat (app_loRaSF ?a - 7) \<le> time \<and> 7 \<le> app_loRaSF ?a \<and> app_loRaSF ?a \<le> 12"
    using t(1) by (auto simp: app_time_def power_def eval_nat_numeral split: if_splits)
  then show ?thesis using t draw_beyond_bound [OF t(2)] by auto
qed

lemma app_duty_cycle_witness:
  "\<exists>a' time. app_handleSelfMessage 3 [1, 90, 5] sample_app = Some (Inr a') \<and> sendMeasurements a' = Some 90
     \<and> app_time (app_loRaSF a') = Some time \<and> time < 90"
proof -
  obtain a' where r: "app_handleSelfMessage 3 [1, 90, 5] sample_app = Some (Inr a')" "sendMeasurements a' = Some 90"
    by (simp add: sample_app_def app_handleSelfMessage_def sendJoinRequest_def app_time_def Let_def)
  have "sendMeasurements sample_app = None" by (simp add: sample_app_def)
  from app_duty_cycle [OF r(1) this r(2)] r show ?thesis by (auto simp: sample_app_def)
qed

text \<open>
  What a downlink does to the node: it counts (after the warm-up), resets the back-off counter, and a
  \<open>TXCONFIG\<close> overwrites exactly the parameters it carries; a node that does not evaluate the adaptive data
  rate ignores it.
\<close>

theorem app_downlink_effect:
  "app_handleMessageFromLowerLayer packet a =
     a\<lparr>receivedADRCommands := receivedADRCommands a + (if app_warmup a \<le> simTime a then 1 else 0),
       ADR_ACK_CNT := (if evaluateADRinNode a then 0 else ADR_ACK_CNT a),
       app_loRaTP := (if evaluateADRinNode a \<and> msgType packet = TXCONFIG \<and> opt_LoRaTP (options packet) \<noteq> -1
                      then opt_LoRaTP (options packet) else app_loRaTP a),
       app_loRaSF := (if evaluateADRinNode a \<and> msgType packet = TXCONFIG \<and> opt_LoRaSF (options packet) \<noteq> -1
                      then opt_LoRaSF (options packet) else app_loRaSF a)\<rparr>"
  by (simp add: app_handleMessageFromLowerLayer_def Let_def)

end
