(* ===== verification/NetworkServerApp.thy ===== *)
theory NetworkServerApp
  imports LoRaTypes
begin

text \<open>
  The network server, \<open>LoRa/NetworkServerApp.cc\<close>: it merges the copies of an uplink that several gateways
  forward within 1.2 s, counts what it received, and computes the adaptive data rate commands. Gateways are
  their addresses (numbers). The pending \<open>endOfWaiting\<close> messages are a list, each
  with its time and the frame in its context pointer, in the order they were scheduled. What the output vectors record and \<open>finish\<close> writes is left out; the scalars it derives from are the counters.
\<close>

record known_node =
  srcAddr :: devaddr
  framesFromLastADRCommand :: int
  lastSeqNoProcessed :: int
  numberOfSentADRPackets :: int
  adrListSNIR :: "real list"

record received_packet =
  rcvdPacket :: lora_mac_frame
  possibleGateways :: "(nat \<times> real \<times> real) list"

datatype adr_method = ADR_max | ADR_avg | ADR_other

record network_server = sim +
  ns_warmup :: simtime
  evaluateADRinServer :: bool
  adrMethod :: adr_method
  adrDeviceMargin :: real
  knownNodes :: "known_node list"
  receivedPackets :: "received_packet list"
  endOfWaiting :: "(simtime \<times> lora_mac_frame) list"
  numReceivedPerNode :: "int \<rightharpoonup> int"
  totalReceivedPackets :: int
  counterOfSentPacketsFromNodes :: int
  counterOfSentPacketsFromNodesPerSF :: "int list"
  counterUniqueReceivedPackets :: int
  counterUniqueReceivedPacketsPerSF :: "int list"
  ns_sent :: "(lora_mac_frame \<times> nat option) list"

definition measuring :: "network_server \<Rightarrow> bool" where
  "measuring ns \<longleftrightarrow> ns_warmup ns \<le> simTime ns"

text \<open>\<open>counter[sf - 7]++\<close>; outside the six spreading factors the array is indexed out of bounds.\<close>

definition count_sf :: "int \<Rightarrow> int list \<Rightarrow> int list result" where
  "count_sf sf counters =
     (if 0 \<le> sf - 7 \<and> sf - 7 < int (length counters)
      then Inr (counters[nat (sf - 7) := counters ! nat (sf - 7) + 1])
      else Inl (UndefinedBehaviour ''counter per SF''))"

definition ns_initialize :: "network_server \<Rightarrow> network_server" where
  "ns_initialize ns = ns\<lparr>knownNodes := [], receivedPackets := [], endOfWaiting := [], numReceivedPerNode := Map.empty,
     totalReceivedPackets := 0, counterOfSentPacketsFromNodes := 0, counterUniqueReceivedPackets := 0,
     counterUniqueReceivedPacketsPerSF := replicate 6 0, counterOfSentPacketsFromNodesPerSF := replicate 6 0, ns_sent := []\<rparr>"

definition isPacketProcessed :: "lora_mac_frame \<Rightarrow> network_server \<Rightarrow> bool" where
  "isPacketProcessed pkt ns \<longleftrightarrow>
     list_ex (\<lambda>n. srcAddr n = transmitterAddress pkt \<and> frameSequenceNumber pkt < lastSeqNoProcessed n) (knownNodes ns)"

definition updateKnownNodes :: "lora_mac_frame \<Rightarrow> network_server \<Rightarrow> network_server" where
  "updateKnownNodes pkt ns =
     (case find_index (\<lambda>n. srcAddr n = transmitterAddress pkt) (knownNodes ns) of
        Some i \<Rightarrow>
          (if lastSeqNoProcessed (knownNodes ns ! i) < frameSequenceNumber pkt
           then ns\<lparr>knownNodes := (knownNodes ns)[i := (knownNodes ns ! i)\<lparr>lastSeqNoProcessed := frameSequenceNumber pkt\<rparr>]\<rparr>
           else ns)
      | None \<Rightarrow>
          ns\<lparr>knownNodes := knownNodes ns @
                [\<lparr>srcAddr = transmitterAddress pkt, framesFromLastADRCommand = 0, lastSeqNoProcessed = frameSequenceNumber pkt,
                  numberOfSentADRPackets = 0, adrListSNIR = []\<rparr>]\<rparr>)"

definition same_uplink :: "lora_mac_frame \<Rightarrow> received_packet \<Rightarrow> bool" where
  "same_uplink pkt r \<longleftrightarrow> transmitterAddress (rcvdPacket r) = transmitterAddress pkt
     \<and> frameSequenceNumber (rcvdPacket r) = frameSequenceNumber pkt"

definition addPktToProcessingTable :: "lora_mac_frame \<Rightarrow> nat \<Rightarrow> network_server \<Rightarrow> network_server" where
  "addPktToProcessingTable pkt gateway ns =
     (let entry = (gateway, fraction2dB (frameSNIR pkt), frameRSSI pkt)
      in case find_index (same_uplink pkt) (receivedPackets ns) of
           Some i \<Rightarrow>
             ns\<lparr>receivedPackets := (receivedPackets ns)
                  [i := (receivedPackets ns ! i)\<lparr>possibleGateways := possibleGateways (receivedPackets ns ! i) @ [entry]\<rparr>]\<rparr>
         | None \<Rightarrow>
             ns\<lparr>endOfWaiting := endOfWaiting ns @ [(simTime ns + 1.2, pkt)],
                receivedPackets := receivedPackets ns @ [\<lparr>rcvdPacket = pkt, possibleGateways = [entry]\<rparr>]\<rparr>)"

definition ns_processLoraMACPacket :: "lora_mac_frame \<Rightarrow> nat \<Rightarrow> network_server \<Rightarrow> network_server" where
  "ns_processLoraMACPacket frame gateway ns =
     (if isPacketProcessed frame ns then ns else addPktToProcessingTable frame gateway ns)"

subsection \<open>The adaptive data rate\<close>

text \<open>The three loops over \<open>Nstep\<close>, which go in opposite directions and each end by a bound.\<close>

function decreaseSF :: "int \<Rightarrow> int \<Rightarrow> int \<times> int" where
  "decreaseSF Nstep sf = (if 0 < Nstep \<and> 7 < sf then decreaseSF (Nstep - 1) (sf - 1) else (Nstep, sf))"
  by pat_completeness auto

termination
  by (relation "measure (\<lambda>(Nstep, sf). nat Nstep)") auto

function decreaseTP :: "int \<Rightarrow> real \<Rightarrow> int \<times> real" where
  "decreaseTP Nstep tp = (if 0 < Nstep \<and> 2 < tp then decreaseTP (Nstep - 1) (tp - 3) else (Nstep, tp))"
  by pat_completeness auto

termination
  by (relation "measure (\<lambda>(Nstep, tp). nat Nstep)") auto

function increaseTP :: "int \<Rightarrow> real \<Rightarrow> int \<times> real" where
  "increaseTP Nstep tp = (if Nstep < 0 \<and> tp < 14 then increaseTP (Nstep + 1) (tp + 3) else (Nstep, tp))"
  by pat_completeness auto

termination
  by (relation "measure (\<lambda>(Nstep, tp). nat (- Nstep))") auto

declare decreaseSF.simps [simp del] decreaseTP.simps [simp del] increaseTP.simps [simp del]

definition adr_settings :: "int \<Rightarrow> int \<Rightarrow> real \<Rightarrow> int \<times> real" where
  "adr_settings Nstep loRaSF loRaTP =
     (let (Nstep, calculatedSF) = decreaseSF Nstep loRaSF;
          (Nstep, calculatedPowerdBm) = decreaseTP Nstep loRaTP;
          calculatedPowerdBm = (if calculatedPowerdBm < 2 then 2 else calculatedPowerdBm);
          (Nstep, calculatedPowerdBm) = increaseTP Nstep calculatedPowerdBm;
          calculatedPowerdBm = (if 14 < calculatedPowerdBm then 14 else calculatedPowerdBm)
      in (calculatedSF, calculatedPowerdBm))"

definition requiredSNR :: "int \<Rightarrow> real option" where
  "requiredSNR sf = (if sf = 7 then Some (-7.5) else if sf = 8 then Some (-10) else if sf = 9 then Some (-12.5)
     else if sf = 10 then Some (-15) else if sf = 11 then Some (-17.5) else if sf = 12 then Some (-20) else None)"

text \<open>\<open>round\<close>, half away from zero, then the conversion to \<open>int\<close>.\<close>

definition c_iround :: "real \<Rightarrow> int" where
  "c_iround x = (if 0 \<le> x then \<lfloor>x + 1 / 2\<rfloor> else - \<lfloor>- x + 1 / 2\<rfloor>)"

text \<open>The margin's signal to noise ratio; with a method the code does not know \<open>SNRm\<close> stays uninitialised.\<close>

definition adr_SNRm :: "adr_method \<Rightarrow> real list \<Rightarrow> real option" where
  "adr_SNRm method snirs =
     (case method of
        ADR_max \<Rightarrow> Some (Max (set snirs))
      | ADR_avg \<Rightarrow> Some (sum_list snirs / real (length snirs))
      | ADR_other \<Rightarrow> None)"

text \<open>The body of the loop over the known nodes, for a node whose address matches.\<close>

definition adr_node :: "adr_method \<Rightarrow> real \<Rightarrow> known_node \<Rightarrow> known_node \<times> real option option" where
  "adr_node method SNIRinGW n =
     (let n = n\<lparr>adrListSNIR := adrListSNIR n @ [SNIRinGW]\<rparr>;
          n = (if length (adrListSNIR n) = 20 then n\<lparr>adrListSNIR := tl (adrListSNIR n)\<rparr> else n);
          n = n\<lparr>framesFromLastADRCommand := framesFromLastADRCommand n + 1\<rparr>
      in if framesFromLastADRCommand n = 20
         then (n\<lparr>framesFromLastADRCommand := 0\<rparr>, Some (adr_SNRm method (adrListSNIR n)))
         else (n, None))"

text \<open>
  The loop itself: \<open>due\<close> holds \<open>nodeIndex\<close> and \<open>SNRm\<close> once \<open>sendADR\<close> is set.
\<close>

fun adr_nodes :: "adr_method \<Rightarrow> devaddr \<Rightarrow> real \<Rightarrow> nat \<Rightarrow> known_node list \<Rightarrow> (nat \<times> real option) option \<Rightarrow>
    known_node list \<times> (nat \<times> real option) option" where
  "adr_nodes method addr SNIRinGW i [] due = ([], due)"
| "adr_nodes method addr SNIRinGW i (n # ns) due =
     (let (n', d) = (if srcAddr n = addr then adr_node method SNIRinGW n else (n, None));
          due = (case d of Some SNRm \<Rightarrow> Some (i, SNRm) | None \<Rightarrow> due);
          (ns', due') = adr_nodes method addr SNIRinGW (Suc i) ns due
      in (n' # ns', due'))"

definition adr_options :: "network_server \<Rightarrow> lora_mac_frame \<Rightarrow> (nat \<times> real option) option \<Rightarrow> lora_options result" where
  "adr_options ns pkt due =
     (case due of
        None \<Rightarrow> Inr default_options
      | Some (nodeIndex, SNRm) \<Rightarrow>
          (case (SNRm, requiredSNR (frameLoRaSF pkt)) of
             (Some SNRm, Some required) \<Rightarrow>
               (let SNRmargin = SNRm - required - adrDeviceMargin ns;
                    Nstep = c_iround (SNRmargin / 3);
                    (calculatedSF, calculatedPowerdBm) = adr_settings Nstep (frameLoRaSF pkt) (frameLoRaTP pkt)
                in Inr (default_options\<lparr>opt_LoRaSF := calculatedSF, opt_LoRaTP := calculatedPowerdBm\<rparr>))
           | _ \<Rightarrow> Inl (UndefinedBehaviour ''SNRm or requiredSNR'')))"

definition evaluateADR :: "lora_mac_frame \<Rightarrow> nat option \<Rightarrow> real \<Rightarrow> network_server \<Rightarrow> network_server result" where
  "evaluateADR pkt pickedGateway SNIRinGW ns =
     (case encapsulated pkt of
        None \<Rightarrow> Inl (RuntimeError ''check_and_cast'')
      | Some rcvAppPacket \<Rightarrow>
          (let sendADRAckRep = opt_ADRACKReq (options rcvAppPacket);
               (nodes, due) = adr_nodes (adrMethod ns) (transmitterAddress pkt) SNIRinGW 0 (knownNodes ns) None;
               ns = ns\<lparr>knownNodes := nodes\<rparr>
           in if due \<noteq> None \<or> sendADRAckRep
              then andThen (adr_options ns pkt due)
                (\<lambda>newOptions.
                   andThen (if measuring ns
                            then case due of
                                   Some (nodeIndex, _) \<Rightarrow>
                                     Inr (ns\<lparr>knownNodes := nodes[nodeIndex := (nodes ! nodeIndex)
                                            \<lparr>numberOfSentADRPackets := numberOfSentADRPackets (nodes ! nodeIndex) + 1\<rparr>]\<rparr>)
                                 | None \<Rightarrow> Inl (UndefinedBehaviour ''nodeIndex'')
                            else Inr ns)
                     (\<lambda>ns. let mgmtPacket = \<lparr>msgType = TXCONFIG, sampleMeasurement = 0, options = newOptions\<rparr>;
                               frameToSend = new_mac_frame\<lparr>encapsulated := Some mgmtPacket,
                                  receiverAddress := transmitterAddress pkt, frameLoRaTP := 14, frameLoRaCF := frameLoRaCF pkt,
                                  frameLoRaSF := frameLoRaSF pkt, frameLoRaBW := frameLoRaBW pkt\<rparr>
                           in Inr (ns\<lparr>ns_sent := ns_sent ns @ [(frameToSend, pickedGateway)]\<rparr>)))
              else Inr ns))"

subsection \<open>The end of a waiting window\<close>

definition better_gateway ::
  "nat \<times> real \<times> real \<Rightarrow> nat option \<times> real \<times> real \<Rightarrow> nat option \<times> real \<times> real" where
  "better_gateway g best =
     (case (g, best) of ((gw, snir, rssi), (_, SNIRinGW, _)) \<Rightarrow>
        if SNIRinGW < snir then (Some gw, snir, rssi) else best)"

text \<open>The loop over the received packets, without a \<open>break\<close>: the last matching index wins.\<close>

definition pickGateway :: "lora_mac_frame \<Rightarrow> received_packet list \<Rightarrow> nat option \<times> real \<times> real" where
  "pickGateway frame rs =
     fold (\<lambda>r best. if same_uplink frame r then fold better_gateway (possibleGateways r) best else best) rs
       (None, -99999999999, -99999999999)"

definition count_node :: "lora_mac_frame \<Rightarrow> received_packet list \<Rightarrow> (int \<rightharpoonup> int) \<Rightarrow> (int \<rightharpoonup> int)" where
  "count_node frame rs m =
     fold (\<lambda>r m. if same_uplink frame r
                 then let k = sint (transmitterAddress frame) - 1
                      in m(k \<mapsto> (case m k of Some c \<Rightarrow> c + 1 | None \<Rightarrow> 1))
                 else m) rs m"

text \<open>\<open>processScheduledPacket\<close> in the order of its statements: count the uplink, answer it, remove its window.\<close>

definition countUniquePerSF :: "lora_mac_frame \<Rightarrow> network_server \<Rightarrow> network_server result" where
  "countUniquePerSF frame ns =
     (if measuring ns
      then andThen (count_sf (frameLoRaSF frame) (counterUniqueReceivedPacketsPerSF ns))
             (\<lambda>c. Inr (ns\<lparr>counterUniqueReceivedPacketsPerSF := c\<rparr>))
      else Inr ns)"

definition countUnique :: "lora_mac_frame \<Rightarrow> network_server \<Rightarrow> network_server" where
  "countUnique frame ns =
     ns\<lparr>numReceivedPerNode := count_node frame (receivedPackets ns) (numReceivedPerNode ns),
        counterUniqueReceivedPackets := counterUniqueReceivedPackets ns + (if measuring ns then 1 else 0)\<rparr>"

definition answerUplink :: "lora_mac_frame \<Rightarrow> network_server \<Rightarrow> network_server result" where
  "answerUplink frame ns =
     (case pickGateway frame (receivedPackets ns) of
        (pickedGateway, SNIRinGW, RSSIinGW) \<Rightarrow>
          if evaluateADRinServer ns then evaluateADR frame pickedGateway SNIRinGW (countUnique frame ns)
          else Inr (countUnique frame ns))"

definition removeWindow :: "lora_mac_frame \<Rightarrow> network_server \<Rightarrow> network_server result" where
  "removeWindow frame ns =
     (case find_last_index (same_uplink frame) (receivedPackets ns) of
        Some packetNumber \<Rightarrow> Inr (ns\<lparr>receivedPackets := remove_nth packetNumber (receivedPackets ns)\<rparr>)
      | None \<Rightarrow> Inl (UndefinedBehaviour ''packetNumber''))"

definition processScheduledPacket :: "lora_mac_frame \<Rightarrow> network_server \<Rightarrow> network_server result" where
  "processScheduledPacket frame ns =
     andThen (countUniquePerSF frame ns) (\<lambda>ns. andThen (answerUplink frame ns) (removeWindow frame))"

definition ns_receiveSignal :: "int \<Rightarrow> network_server \<Rightarrow> network_server result" where
  "ns_receiveSignal sf ns =
     (if measuring ns
      then andThen (count_sf sf (counterOfSentPacketsFromNodesPerSF ns))
             (\<lambda>c. Inr (ns\<lparr>counterOfSentPacketsFromNodes := counterOfSentPacketsFromNodes ns + 1,
                           counterOfSentPacketsFromNodesPerSF := c\<rparr>))
      else Inr ns)"

datatype ns_event =
    NsUplink lora_mac_frame nat
  | NsTimer
  | NsPacketSent int

text \<open>\<open>handleMessage\<close> and the signal, at the time \<open>t\<close>; the next timer is the first one scheduled.\<close>

definition ns_step :: "simtime \<Rightarrow> ns_event \<Rightarrow> network_server \<Rightarrow> network_server result" where
  "ns_step t ev ns =
     (let ns = ns\<lparr>simTime := t\<rparr> in
      case ev of
        NsUplink frame gateway \<Rightarrow>
          (let ns = (if measuring ns then ns\<lparr>totalReceivedPackets := totalReceivedPackets ns + 1\<rparr> else ns)
           in Inr (ns_processLoraMACPacket frame gateway (updateKnownNodes frame ns)))
      | NsTimer \<Rightarrow>
          (case endOfWaiting ns of
             [] \<Rightarrow> Inr ns
           | (_, frame) # pending \<Rightarrow> processScheduledPacket frame (ns\<lparr>endOfWaiting := pending\<rparr>))
      | NsPacketSent sf \<Rightarrow> ns_receiveSignal sf ns)"

subsection \<open>The settings an ADR command carries\<close>

lemma decreaseSF_eq:
  "decreaseSF Nstep sf = (let k = min (max 0 Nstep) (max 0 (sf - 7)) in (Nstep - k, sf - k))"
proof (induction Nstep sf rule: decreaseSF.induct)
  case (1 Nstep sf)
  then show ?case by (subst decreaseSF.simps) (auto simp: Let_def min_def max_def)
qed

lemma decreaseTP_spec:
  assumes "decreaseTP Nstep tp = (Nstep', tp')"
  shows "max 2 tp' = (if tp \<le> 2 then 2 else max 2 (tp - 3 * of_int (max 0 Nstep)))
       \<and> (Nstep \<le> 0 \<longrightarrow> Nstep' = Nstep \<and> tp' = tp) \<and> (0 < Nstep \<longrightarrow> 0 \<le> Nstep') \<and> tp' \<le> tp"
  using assms
proof (induction Nstep tp rule: decreaseTP.induct)
  case (1 Nstep tp)
  show ?case
  proof (cases "0 < Nstep \<and> 2 < tp")
    case True
    with 1 have "decreaseTP (Nstep - 1) (tp - 3) = (Nstep', tp')" by (simp add: decreaseTP.simps [of Nstep tp])
    from 1(1) [OF True this] True show ?thesis by (auto simp: max_def algebra_simps split: if_splits)
  next
    case False
    with 1(2) show ?thesis by (auto simp: decreaseTP.simps [of Nstep tp] max_def not_less)
  qed
qed

lemma increaseTP_spec:
  assumes "increaseTP Nstep tp = (Nstep', tp')"
  shows "min 14 tp' = min 14 (tp + 3 * of_int (max 0 (- Nstep))) \<and> (0 \<le> Nstep \<longrightarrow> tp' = tp) \<and> tp \<le> tp'"
  using assms
proof (induction Nstep tp rule: increaseTP.induct)
  case (1 Nstep tp)
  show ?case
  proof (cases "Nstep < 0 \<and> tp < 14")
    case True
    with 1 have "increaseTP (Nstep + 1) (tp + 3) = (Nstep', tp')" by (simp add: increaseTP.simps [of Nstep tp])
    from 1(1) [OF True this] True show ?thesis by (auto simp: max_def algebra_simps split: if_splits)
  next
    case False
    with 1(2) show ?thesis by (auto simp: increaseTP.simps [of Nstep tp] max_def min_def not_less split: if_splits)
  qed
qed

lemma adr_settings_closed:
  assumes "7 \<le> sf" and "sf \<le> 12" and "2 \<le> tp" and "tp \<le> 14"
  shows "adr_settings n sf tp =
      (if 0 \<le> n then (max 7 (sf - n), max 2 (tp - 3 * of_int (max 0 (n - (sf - 7))))) else (sf, min 14 (tp - 3 * of_int n)))
    \<and> 7 \<le> fst (adr_settings n sf tp) \<and> fst (adr_settings n sf tp) \<le> 12
    \<and> 2 \<le> snd (adr_settings n sf tp) \<and> snd (adr_settings n sf tp) \<le> 14"
proof -
  let ?k = "min (max 0 n) (sf - 7)"
  have k: "decreaseSF n sf = (n - ?k, sf - ?k)" using assms(1) by (simp add: decreaseSF_eq Let_def)
  obtain n2 tp2 where d: "decreaseTP (n - ?k) tp = (n2, tp2)" by force
  obtain n3 tp3 where i: "increaseTP n2 (max 2 tp2) = (n3, tp3)" by force
  have m: "(if x < 2 then 2 else x) = max 2 x" "(if 14 < x then 14 else x) = min 14 x" for x :: real
    by (simp_all add: max_def min_def)
  have a: "adr_settings n sf tp = (sf - ?k, min 14 tp3)"
    unfolding adr_settings_def k d Let_def prod.case m i by (rule refl)
  note D = decreaseTP_spec [OF d] and I = increaseTP_spec [OF i]
  show ?thesis
  proof (cases "0 \<le> n")
    case True
    obtain n1 where n1: "n - ?k = n1" "0 \<le> n1" using True by auto
    have D': "max 2 tp2 = (if tp \<le> 2 then 2 else max 2 (tp - 3 * of_int (max 0 n1)))"
      "n1 \<le> 0 \<Longrightarrow> n2 = n1 \<and> tp2 = tp" "0 < n1 \<Longrightarrow> 0 \<le> n2"
      using D n1(1) by simp_all
    have "0 \<le> n2" using D'(2,3) n1(2) by linarith
    then have "tp3 = max 2 tp2" using I by simp
    also have "\<dots> = max 2 (tp - 3 * of_int (max 0 n1))" using D'(1) assms(3) n1(2) by auto
    also have "max 0 n1 = max 0 (n - (sf - 7))" using n1 True assms(1) by (simp add: min_def max_def split: if_splits)
    finally have tp3: "tp3 = max 2 (tp - 3 * of_int (max 0 (n - (sf - 7))))" .
    have sfk: "sf - ?k = max 7 (sf - n)" using True assms(1) by (simp add: min_def max_def)
    have "(0::real) \<le> of_int (max 0 (n - (sf - 7)))" by simp
    moreover have "tp - 3 * z \<le> 14" if "0 \<le> z" for z using that assms(4) by linarith
    ultimately have "tp - 3 * of_int (max 0 (n - (sf - 7))) \<le> 14" by blast
    then have "tp3 \<le> 14" "2 \<le> tp3" using tp3 by simp_all
    then show ?thesis using a assms(1,2) True tp3 sfk by simp
  next
    case False
    then have k0: "?k = 0" using assms(1) by simp
    have "n2 = n" "tp2 = tp" using D False k0 by simp_all
    moreover from this have "min 14 tp3 = min 14 (tp - 3 * of_int n)" using I False assms(3) by (simp add: max_def)
    moreover have "(of_int n :: real) < 0" using False by simp
    ultimately show ?thesis using a assms False k0 by (simp add: min_def)
  qed
qed

text \<open>
  C12: The new settings in closed form, for a device within its limits: \<open>n\<close> positive steps first lower the
  spreading factor down to 7 and spend what is left on lowering the power by 3 dB each down to 2 dBm; negative
  steps raise the power by 3 dB each up to 14 dBm and leave the spreading factor. So the settings stay within
  the limits.
\<close>

theorem adr_settings_closed_form:
  assumes "7 \<le> sf" and "sf \<le> 12" and "2 \<le> tp" and "tp \<le> 14"
  shows "adr_settings n sf tp =
      (if 0 \<le> n then (max 7 (sf - n), max 2 (tp - 3 * of_int (max 0 (n - (sf - 7))))) else (sf, min 14 (tp - 3 * of_int n)))
    \<and> 7 \<le> fst (adr_settings n sf tp) \<and> fst (adr_settings n sf tp) \<le> 12
    \<and> 2 \<le> snd (adr_settings n sf tp) \<and> snd (adr_settings n sf tp) \<le> 14"
  using assms by (rule adr_settings_closed)

lemma adr_settings_closed_form_witness: "adr_settings 4 9 14 = (7, 8) \<and> adr_settings (-3) 9 8 = (9, 14)"
  using adr_settings_closed_form [of 9 14 4] adr_settings_closed_form [of 9 8 "-3"] by simp

text \<open>
  C13: What a command costs the link: when the margin is not negative, the signal to noise ratio that remains
  after the power is lowered exceeds what the new spreading factor requires plus the device margin, up to the
  1.5 dB lost by rounding the number of steps.
\<close>

theorem adr_keeps_margin:
  assumes "requiredSNR sf = Some required" and "2 \<le> tp" and "tp \<le> 14"
    and "0 \<le> SNRm - required - margin" and "adr_settings (c_iround ((SNRm - required - margin) / 3)) sf tp = (sf', tp')"
  shows "\<exists>required'. requiredSNR sf' = Some required' \<and> required' + margin - 3 / 2 \<le> SNRm - (tp - tp')"
proof -
  let ?n = "c_iround ((SNRm - required - margin) / 3)"
  have sf: "7 \<le> sf" "sf \<le> 12" using assms(1) by (auto simp: requiredSNR_def split: if_splits)
  have req: "requiredSNR s = Some (10 - 5 / 2 * of_int s)" if "7 \<le> s" "s \<le> 12" for s
  proof -
    have "s = 7 \<or> s = 8 \<or> s = 9 \<or> s = 10 \<or> s = 11 \<or> s = 12" using that by presburger
    then show ?thesis by (auto simp: requiredSNR_def)
  qed
  have n: "0 \<le> ?n" "of_int ?n \<le> (SNRm - required - margin) / 3 + 1 / 2"
    using assms(4) by (auto simp: c_iround_def)
  note c = adr_settings_closed [OF sf assms(2,3), of ?n, unfolded assms(5) fst_conv snd_conv]
  have sf': "sf' = max 7 (sf - ?n)" "tp' = max 2 (tp - 3 * of_int (max 0 (?n - (sf - 7))))" "7 \<le> sf'" "sf' \<le> 12"
    using c n(1) by (simp, simp, linarith, linarith)
  have r: "required = 10 - 5 / 2 * of_int sf" using assms(1) req [OF sf] by simp
  have "tp - tp' \<le> 3 * of_int (max 0 (?n - (sf - 7)))" using sf'(2) by simp
  moreover have "5 / 2 * of_int (sf - sf') + 3 * of_int (max 0 (?n - (sf - 7))) \<le> (3 * of_int ?n :: real)"
  proof -
    have "sf - sf' + max 0 (?n - (sf - 7)) \<le> ?n" "0 \<le> sf - sf'" using sf'(1) n(1) sf by auto
    then have "of_int (sf - sf') + of_int (max 0 (?n - (sf - 7))) \<le> (of_int ?n :: real)" "0 \<le> (of_int (sf - sf') :: real)"
      by (simp_all only: of_int_add [symmetric] of_int_le_iff of_int_0_le_iff)
    then show ?thesis by argo
  qed
  ultimately have "10 - 5 / 2 * of_int sf' + margin - 3 / 2 \<le> SNRm - (tp - tp')" using n(2) r by (simp add: field_simps)
  then show ?thesis using req [OF sf'(3,4)] by blast
qed

lemma adr_keeps_margin_witness:
  "\<exists>required'. requiredSNR 7 = Some required' \<and> required' + 10 - 3 / 2 \<le> 10 - (14 - 8)"
proof -
  have "c_iround ((10 - (-12.5) - 10) / 3) = 4" by (simp add: c_iround_def floor_eq_iff)
  then have s: "adr_settings (c_iround ((10 - (-12.5) - 10) / 3)) 9 14 = (7, 8)"
    using adr_settings_closed [of 9 14 4] by simp
  show ?thesis by (rule adr_keeps_margin [OF _ _ _ _ s]) (simp_all add: requiredSNR_def)
qed

subsection \<open>The cadence of the commands\<close>

lemma adr_node_eq:
  "adr_node method snir n =
     (let l = adrListSNIR n @ [snir]; l = (if length l = 20 then tl l else l); c = framesFromLastADRCommand n + 1
      in if c = 20 then (n\<lparr>adrListSNIR := l, framesFromLastADRCommand := 0\<rparr>, Some (adr_SNRm method l))
         else (n\<lparr>adrListSNIR := l, framesFromLastADRCommand := c\<rparr>, None))"
  by (simp add: adr_node_def Let_def)

text \<open>
  C14: How often a device gets a command and from which samples: after \<open>n\<close> uplinks with the signal to noise
  ratios \<open>snirs\<close> the server keeps the last nineteen of them (the list is cut when it reaches twenty), and a
  command falls due exactly at every twentieth uplink.
\<close>

theorem adr_every_twentieth_uplink:
  assumes "framesFromLastADRCommand n = 0" and "adrListSNIR n = []"
  shows "(let (n', dues) = foldl (\<lambda>(n, dues) snir. let (n', d) = adr_node method snir n in (n', dues @ [d])) (n, []) snirs
          in framesFromLastADRCommand n' = int (length snirs mod 20)
           \<and> adrListSNIR n' = drop (length snirs - 19) snirs
           \<and> dues = map (\<lambda>k. if k mod 20 = 19 then Some (adr_SNRm method (drop (k - 18) (take (Suc k) snirs))) else None)
                         [0..<length snirs])"
proof (induction snirs rule: rev_induct)
  case Nil
  show ?case using assms by simp
next
  case (snoc x xs)
  let ?step = "\<lambda>(n, dues) snir. let (n', d) = adr_node method snir n in (n', dues @ [d])"
  obtain m ds where m: "foldl ?step (n, []) xs = (m, ds)" by force
  from snoc m have IH: "framesFromLastADRCommand m = int (length xs mod 20)" "adrListSNIR m = drop (length xs - 19) xs"
    "ds = map (\<lambda>k. if k mod 20 = 19 then Some (adr_SNRm method (drop (k - 18) (take (Suc k) xs))) else None) [0..<length xs]"
    by simp_all
  let ?l = "drop (Suc (length xs) - 19) (xs @ [x])"
  have l: "(if length (drop (length xs - 19) xs @ [x]) = 20 then tl (drop (length xs - 19) xs @ [x])
      else drop (length xs - 19) xs @ [x]) = ?l"
  proof (cases "19 \<le> length xs")
    case True
    then obtain k where k: "length xs = k + 19" using le_Suc_ex add.commute by metis
    then show ?thesis by (simp add: drop_Suc [of k] tl_append split: list.split) (metis list.sel(3) tl_drop)
  qed simp
  have cut: "drop (length xs - 18) (xs @ [x]) = ?l" by simp
  have old: "map (\<lambda>k. if k mod 20 = 19 then Some (adr_SNRm method (drop (k - 18) (take (Suc k) xs))) else None) [0..<length xs]
      = map (\<lambda>k. if k mod 20 = 19 then Some (adr_SNRm method (drop (k - 18) (take (Suc k) (xs @ [x])))) else None) [0..<length xs]"
    by (rule map_cong) auto
  have due: "adr_node method x m = (if length xs mod 20 = 19
       then (m\<lparr>adrListSNIR := ?l, framesFromLastADRCommand := 0\<rparr>, Some (adr_SNRm method ?l))
       else (m\<lparr>adrListSNIR := ?l, framesFromLastADRCommand := int (length xs mod 20) + 1\<rparr>, None))"
    unfolding adr_node_eq IH(1,2) l Let_def by auto
  show ?case
    using m IH(3) old cut by (simp add: due mod_Suc)
qed

definition new_node :: known_node where
  "new_node = \<lparr>srcAddr = 5, framesFromLastADRCommand = 0, lastSeqNoProcessed = 1, numberOfSentADRPackets = 0, adrListSNIR = []\<rparr>"

lemma adr_every_twentieth_uplink_witness:
  "framesFromLastADRCommand (fst (foldl (\<lambda>(n, dues) snir. let (n', d) = adr_node ADR_max snir n in (n', dues @ [d]))
     (new_node, []) (replicate 45 3))) = 5"
  using adr_every_twentieth_uplink [of new_node ADR_max "replicate 45 3"]
  by (simp add: new_node_def Let_def split: prod.splits)

subsection \<open>Windows\<close>

inductive ns_reachable :: "network_server \<Rightarrow> bool" where
  init: "ns_reachable (ns_initialize ns)"
| step: "ns_reachable ns \<Longrightarrow> simTime ns \<le> t \<Longrightarrow> ns_step t ev ns = Inr ns' \<Longrightarrow> ns_reachable ns'"

definition uplink_key :: "lora_mac_frame \<Rightarrow> devaddr \<times> int" where
  "uplink_key f = (transmitterAddress f, frameSequenceNumber f)"

text \<open>
  The windows and their timers go together, one per uplink; every sender in a window is a known node whose
  last sequence number is no smaller; there is one node per address.
\<close>

definition ns_windows :: "network_server \<Rightarrow> bool" where
  "ns_windows ns \<longleftrightarrow> map rcvdPacket (receivedPackets ns) = map snd (endOfWaiting ns)
     \<and> distinct (map (uplink_key \<circ> rcvdPacket) (receivedPackets ns))
     \<and> list_all (\<lambda>r. possibleGateways r \<noteq> []) (receivedPackets ns)
     \<and> distinct (map srcAddr (knownNodes ns))
     \<and> length (counterUniqueReceivedPacketsPerSF ns) = 6 \<and> length (counterOfSentPacketsFromNodesPerSF ns) = 6"

lemma same_uplink_key: "same_uplink pkt r \<longleftrightarrow> uplink_key (rcvdPacket r) = uplink_key pkt"
  by (auto simp: same_uplink_def uplink_key_def)

lemma count_sf_length: "count_sf sf c = Inr c' \<Longrightarrow> length c' = length c"
  by (auto simp: count_sf_def split: if_splits)

lemma map_update_same: "i < length xs \<Longrightarrow> f y = f (xs ! i) \<Longrightarrow> map f (xs[i := y]) = map f xs"
  by (simp add: map_update list_update_same_conv)

lemma updateKnownNodes_keeps [simp]:
  "receivedPackets (updateKnownNodes pkt ns) = receivedPackets ns"
  "endOfWaiting (updateKnownNodes pkt ns) = endOfWaiting ns"
  "counterUniqueReceivedPacketsPerSF (updateKnownNodes pkt ns) = counterUniqueReceivedPacketsPerSF ns"
  "counterOfSentPacketsFromNodesPerSF (updateKnownNodes pkt ns) = counterOfSentPacketsFromNodesPerSF ns"
  "simTime (updateKnownNodes pkt ns) = simTime ns"
  by (simp_all add: updateKnownNodes_def split: option.split)

lemma updateKnownNodes_distinct:
  "distinct (map srcAddr (knownNodes ns)) \<Longrightarrow> distinct (map srcAddr (knownNodes (updateKnownNodes pkt ns)))"
  by (auto simp: updateKnownNodes_def map_update_same find_index_None_iff dest: find_index_SomeD split: option.split)

lemma addPkt_windows:
  assumes "ns_windows ns"
  shows "ns_windows (addPktToProcessingTable pkt g ns)"
proof (cases "find_index (same_uplink pkt) (receivedPackets ns)")
  case None
  then have "uplink_key pkt \<notin> set (map (uplink_key \<circ> rcvdPacket) (receivedPackets ns))"
    by (auto simp: find_index_None_iff same_uplink_key)
  with assms None show ?thesis by (simp add: addPktToProcessingTable_def ns_windows_def)
next
  case (Some i)
  let ?r = "receivedPackets ns ! i"
  let ?r' = "?r\<lparr>possibleGateways := possibleGateways ?r @ [(g, fraction2dB (frameSNIR pkt), frameRSSI pkt)]\<rparr>"
  have i: "i < length (receivedPackets ns)" using find_index_SomeD [OF Some] by simp
  have keep: "map rcvdPacket ((receivedPackets ns)[i := ?r']) = map rcvdPacket (receivedPackets ns)"
    "map (uplink_key \<circ> rcvdPacket) ((receivedPackets ns)[i := ?r']) = map (uplink_key \<circ> rcvdPacket) (receivedPackets ns)"
    using i by (simp_all add: map_update_same)
  have "list_all (\<lambda>r. possibleGateways r \<noteq> []) ((receivedPackets ns)[i := ?r'])"
    using assms by (auto simp: ns_windows_def list_all_iff dest: set_update_subset_insert [THEN subsetD])
  then show ?thesis using assms keep Some by (simp add: addPktToProcessingTable_def Let_def ns_windows_def del: map_update)
qed

lemma adr_node_srcAddr: "srcAddr (fst (adr_node m s n)) = srcAddr n"
  by (simp add: adr_node_def Let_def)

lemma adr_nodes_srcAddr: "map srcAddr (fst (adr_nodes m a s i ns due)) = map srcAddr ns"
proof (induction ns arbitrary: i due)
  case Nil
  show ?case by simp
next
  case (Cons n ns)
  then show ?case by (auto simp: Let_def adr_node_srcAddr [symmetric] split: prod.split) (metis adr_node_srcAddr fst_conv)+
qed

lemma evaluateADR_keeps:
  assumes "evaluateADR pkt g s ns = Inr ns'"
  shows "receivedPackets ns' = receivedPackets ns" and "endOfWaiting ns' = endOfWaiting ns"
    and "counterUniqueReceivedPacketsPerSF ns' = counterUniqueReceivedPacketsPerSF ns"
    and "counterOfSentPacketsFromNodesPerSF ns' = counterOfSentPacketsFromNodesPerSF ns"
    and "counterUniqueReceivedPackets ns' = counterUniqueReceivedPackets ns"
    and "map srcAddr (knownNodes ns') = map srcAddr (knownNodes ns)"
    and "simTime ns' = simTime ns" and "totalReceivedPackets ns' = totalReceivedPackets ns"
proof -
  obtain nodes due where d: "adr_nodes (adrMethod ns) (transmitterAddress pkt) s 0 (knownNodes ns) None = (nodes, due)" by force
  have n: "map srcAddr nodes = map srcAddr (knownNodes ns)" using adr_nodes_srcAddr d by (metis fst_conv)
  have upd: "map srcAddr (nodes[i := (nodes ! i)\<lparr>numberOfSentADRPackets := c\<rparr>]) = map srcAddr nodes" for i c
    by (cases "i < length nodes") (simp_all add: map_update_same list_update_beyond)
  show "receivedPackets ns' = receivedPackets ns" and "endOfWaiting ns' = endOfWaiting ns"
    and "counterUniqueReceivedPacketsPerSF ns' = counterUniqueReceivedPacketsPerSF ns"
    and "counterOfSentPacketsFromNodesPerSF ns' = counterOfSentPacketsFromNodesPerSF ns"
    and "counterUniqueReceivedPackets ns' = counterUniqueReceivedPackets ns"
    and "map srcAddr (knownNodes ns') = map srcAddr (knownNodes ns)"
    and "simTime ns' = simTime ns" and "totalReceivedPackets ns' = totalReceivedPackets ns"
    using assms n upd by (auto simp: evaluateADR_def d Let_def simp del: map_update elim!: andThen_InrE split: option.splits if_splits)
qed

text \<open>The packet of the oldest window is the only one its timer finds.\<close>

lemma head_only:
  assumes "distinct (map (uplink_key \<circ> rcvdPacket) (r # rs))"
  shows "find_last_index (same_uplink (rcvdPacket r)) (r # rs) = Some 0"
    and "pickGateway (rcvdPacket r) (r # rs) = fold better_gateway (possibleGateways r) (None, -99999999999, -99999999999)"
    and "count_node (rcvdPacket r) (r # rs) m =
           (let k = sint (transmitterAddress (rcvdPacket r)) - 1 in m(k \<mapsto> (case m k of Some c \<Rightarrow> c + 1 | None \<Rightarrow> 1)))"
proof -
  have no: "\<not> same_uplink (rcvdPacket r) r'" if "r' \<in> set rs" for r'
    using assms that by (auto simp: same_uplink_key image_iff)
  have skip: "fold (\<lambda>r' b. if same_uplink (rcvdPacket r) r' then f r' b else b) rs b = b" for f :: "_ \<Rightarrow> 'z \<Rightarrow> 'z" and b
    using no by (induction rs arbitrary: b) auto
  have "find_last_index (same_uplink (rcvdPacket r)) rs = None" using no by (simp add: find_last_index_None_iff)
  then show "find_last_index (same_uplink (rcvdPacket r)) (r # rs) = Some 0" by (simp add: same_uplink_key)
  show "pickGateway (rcvdPacket r) (r # rs) = fold better_gateway (possibleGateways r) (None, -99999999999, -99999999999)"
    by (simp add: pickGateway_def same_uplink_key [of _ r] skip)
  show "count_node (rcvdPacket r) (r # rs) m =
           (let k = sint (transmitterAddress (rcvdPacket r)) - 1 in m(k \<mapsto> (case m k of Some c \<Rightarrow> c + 1 | None \<Rightarrow> 1)))"
    unfolding count_node_def fold.simps comp_apply same_uplink_key [of _ r] simp_thms if_True by (simp only: skip)
qed

lemma pickGateway_unique:
  assumes "distinct (map (uplink_key \<circ> rcvdPacket) rs)" and "r \<in> set rs"
  shows "pickGateway (rcvdPacket r) rs = fold better_gateway (possibleGateways r) (None, -99999999999, -99999999999)"
proof -
  let ?f = "\<lambda>r' best. if same_uplink (rcvdPacket r) r' then fold better_gateway (possibleGateways r') best else best"
  from assms(2) obtain xs ys where rs: "rs = xs @ r # ys" by (meson split_list)
  have no: "\<not> same_uplink (rcvdPacket r) r'" if "r' \<in> set xs \<union> set ys" for r'
    using assms(1) that by (auto simp: rs same_uplink_key image_iff)
  have "fold ?f zs b = b" if "set zs \<subseteq> set xs \<union> set ys" for zs b
    using that no by (induction zs arbitrary: b) auto
  then show ?thesis by (simp add: pickGateway_def rs same_uplink_key [of _ r])
qed

lemma processScheduledPacket_windows:
  assumes "distinct (map (uplink_key \<circ> rcvdPacket) (receivedPackets ns))" and "receivedPackets ns = r # rs"
    and "processScheduledPacket (rcvdPacket r) ns = Inr ns'"
  shows "receivedPackets ns' = rs" and "endOfWaiting ns' = endOfWaiting ns"
    and "map srcAddr (knownNodes ns') = map srcAddr (knownNodes ns)"
    and "counterOfSentPacketsFromNodesPerSF ns' = counterOfSentPacketsFromNodesPerSF ns"
    and "if measuring ns then count_sf (frameLoRaSF (rcvdPacket r)) (counterUniqueReceivedPacketsPerSF ns)
            = Inr (counterUniqueReceivedPacketsPerSF ns')
         else counterUniqueReceivedPacketsPerSF ns' = counterUniqueReceivedPacketsPerSF ns"
    and "counterUniqueReceivedPackets ns' = counterUniqueReceivedPackets ns + (if measuring ns then 1 else 0)"
proof -
  note h = head_only [OF assms(1) [unfolded assms(2)]]
  obtain ns1 ns3 where s: "countUniquePerSF (rcvdPacket r) ns = Inr ns1" "answerUplink (rcvdPacket r) ns1 = Inr ns3"
    "removeWindow (rcvdPacket r) ns3 = Inr ns'"
    using assms(3) by (auto simp: processScheduledPacket_def elim!: andThen_InrE)
  obtain c where c: "ns1 = ns\<lparr>counterUniqueReceivedPacketsPerSF := c\<rparr>"
    "if measuring ns then count_sf (frameLoRaSF (rcvdPacket r)) (counterUniqueReceivedPacketsPerSF ns) = Inr c
     else c = counterUniqueReceivedPacketsPerSF ns"
    using s(1) by (cases "measuring ns") (auto simp: countUniquePerSF_def elim!: andThen_InrE)
  obtain g snir where "ns3 = countUnique (rcvdPacket r) ns1 \<or> evaluateADR (rcvdPacket r) g snir (countUnique (rcvdPacket r) ns1) = Inr ns3"
    using s(2) by (auto simp: answerUplink_def split: prod.splits if_splits)
  then have k: "receivedPackets ns3 = receivedPackets ns" "endOfWaiting ns3 = endOfWaiting ns"
    "counterUniqueReceivedPacketsPerSF ns3 = c"
    "counterOfSentPacketsFromNodesPerSF ns3 = counterOfSentPacketsFromNodesPerSF ns"
    "counterUniqueReceivedPackets ns3 = counterUniqueReceivedPackets ns + (if measuring ns then 1 else 0)"
    "map srcAddr (knownNodes ns3) = map srcAddr (knownNodes ns)"
    using evaluateADR_keeps [of "rcvdPacket r" g snir "countUnique (rcvdPacket r) ns1" ns3]
    by (auto simp: countUnique_def c(1) measuring_def)
  have ns': "ns' = ns3\<lparr>receivedPackets := rs\<rparr>" using s(3) h(1) k(1) assms(2) by (simp add: removeWindow_def remove_nth_def)
  show "receivedPackets ns' = rs" and "endOfWaiting ns' = endOfWaiting ns"
    and "map srcAddr (knownNodes ns') = map srcAddr (knownNodes ns)"
    and "counterOfSentPacketsFromNodesPerSF ns' = counterOfSentPacketsFromNodesPerSF ns"
    and "if measuring ns then count_sf (frameLoRaSF (rcvdPacket r)) (counterUniqueReceivedPacketsPerSF ns)
            = Inr (counterUniqueReceivedPacketsPerSF ns')
         else counterUniqueReceivedPacketsPerSF ns' = counterUniqueReceivedPacketsPerSF ns"
    and "counterUniqueReceivedPackets ns' = counterUniqueReceivedPackets ns + (if measuring ns then 1 else 0)"
    using k(2-) c(2) by (simp_all add: ns')
qed

lemma ns_windows_step:
  assumes "ns_windows ns" and "ns_step t ev ns = Inr ns'"
  shows "ns_windows ns'"
proof (cases ev)
  case (NsUplink frame g)
  let ?ns = "ns\<lparr>simTime := t\<rparr>"
  have "ns_windows (updateKnownNodes frame (?ns\<lparr>totalReceivedPackets := c\<rparr>))" "ns_windows (updateKnownNodes frame ?ns)" for c
    using assms(1) by (simp_all add: ns_windows_def updateKnownNodes_distinct)
  then show ?thesis
    using assms(2) NsUplink addPkt_windows
    by (auto simp: ns_step_def ns_processLoraMACPacket_def Let_def split: if_splits)
next
  case NsTimer
  show ?thesis
  proof (cases "endOfWaiting ns")
    case Nil
    with assms NsTimer show ?thesis by (auto simp: ns_step_def ns_windows_def)
  next
    case (Cons tf pending)
    then obtain r rs where r: "receivedPackets ns = r # rs" "rcvdPacket r = snd tf" "map rcvdPacket rs = map snd pending"
      using assms(1) by (auto simp: ns_windows_def)
    let ?ns = "ns\<lparr>simTime := t, endOfWaiting := pending\<rparr>"
    have d: "distinct (map (uplink_key \<circ> rcvdPacket) (receivedPackets ?ns))" "receivedPackets ?ns = r # rs"
      using assms(1) r by (simp_all add: ns_windows_def)
    have run: "processScheduledPacket (rcvdPacket r) ?ns = Inr ns'"
      using assms(2) NsTimer Cons r by (auto simp: ns_step_def split: prod.splits)
    note P = processScheduledPacket_windows [OF d run]
    have "length (counterUniqueReceivedPacketsPerSF ns') = 6"
      using P(5) assms(1) count_sf_length by (fastforce simp: ns_windows_def split: if_splits)
    then show ?thesis using P(1-4) assms(1) r by (simp add: ns_windows_def)
  qed
next
  case (NsPacketSent sf)
  from assms(2) NsPacketSent consider "ns' = ns\<lparr>simTime := t\<rparr>"
    | c where "count_sf sf (counterOfSentPacketsFromNodesPerSF ns) = Inr c"
        "ns' = ns\<lparr>simTime := t, counterOfSentPacketsFromNodes := counterOfSentPacketsFromNodes ns + 1,
                 counterOfSentPacketsFromNodesPerSF := c\<rparr>"
    by (auto simp: ns_step_def ns_receiveSignal_def Let_def elim!: andThen_InrE split: if_splits)
  then show ?thesis using assms(1) by cases (simp_all add: ns_windows_def count_sf_length)
qed

lemma ns_reachable_windows: "ns_reachable ns \<Longrightarrow> ns_windows ns"
proof (induction rule: ns_reachable.induct)
  case (init ns)
  show ?case by (simp add: ns_windows_def ns_initialize_def)
next
  case (step ns t ev ns')
  then show ?case by (blast intro: ns_windows_step)
qed

text \<open>Raising the last sequence number to the frame's own does not make the frame look old.\<close>

lemma isPacketProcessed_update:
  assumes "distinct (map srcAddr (knownNodes ns))"
  shows "isPacketProcessed f (updateKnownNodes f ns) \<longleftrightarrow>
     (\<exists>n\<in>set (knownNodes ns). srcAddr n = transmitterAddress f \<and> frameSequenceNumber f < lastSeqNoProcessed n)"
proof (cases "find_index (\<lambda>n. srcAddr n = transmitterAddress f) (knownNodes ns)")
  case None
  then have "\<forall>n\<in>set (knownNodes ns). srcAddr n \<noteq> transmitterAddress f" by (simp add: find_index_None_iff)
  with None show ?thesis by (auto simp: updateKnownNodes_def isPacketProcessed_def list_ex_iff)
next
  case (Some i)
  let ?ns = "knownNodes ns"
  have i: "i < length ?ns" "srcAddr (?ns ! i) = transmitterAddress f" using find_index_SomeD [OF Some] by simp_all
  have only: "j = i" if "j < length ?ns" "srcAddr (?ns ! j) = transmitterAddress f" for j
    using assms i that by (metis length_map nth_eq_iff_index_eq nth_map)
  show ?thesis
  proof (cases "lastSeqNoProcessed (?ns ! i) < frameSequenceNumber f")
    case True
    let ?P = "\<lambda>n. srcAddr n = transmitterAddress f \<and> frameSequenceNumber f < lastSeqNoProcessed n"
    let ?ns' = "?ns[i := (?ns ! i)\<lparr>lastSeqNoProcessed := frameSequenceNumber f\<rparr>]"
    have "\<not> ?P (?ns ! j) \<and> \<not> ?P (?ns' ! j)" if "j < length ?ns" for j
    proof (cases "j = i")
      case True
      then show ?thesis using \<open>lastSeqNoProcessed (?ns ! i) < frameSequenceNumber f\<close> i(1) by simp
    next
      case False
      then have "srcAddr (?ns ! j) \<noteq> transmitterAddress f" using only [OF that] by blast
      with False show ?thesis by simp
    qed
    then have "list_ex ?P ?ns = False" "list_ex ?P ?ns' = False"
      unfolding list_ex_length by auto
    then show ?thesis
      using Some True unfolding isPacketProcessed_def list_ex_iff [symmetric] by (simp add: updateKnownNodes_def)
  next
    case False
    with Some show ?thesis by (simp add: updateKnownNodes_def isPacketProcessed_def list_ex_iff)
  qed
qed

text \<open>
  C8: In every reachable state of the server the open windows and the pending timers belong to the same
  uplinks, in the same order; no two windows are for the same device and sequence number, each has at least
  one gateway, and no device is known twice.
\<close>

theorem ns_windows_invariant:
  assumes "ns_reachable ns"
  shows "map rcvdPacket (receivedPackets ns) = map snd (endOfWaiting ns)
       \<and> distinct (map (uplink_key \<circ> rcvdPacket) (receivedPackets ns))
       \<and> list_all (\<lambda>r. possibleGateways r \<noteq> []) (receivedPackets ns)
       \<and> distinct (map srcAddr (knownNodes ns))"
  using ns_reachable_windows [OF assms] by (simp add: ns_windows_def)

definition sample_server :: network_server where
  "sample_server = \<lparr>simTime = 0, ns_warmup = 0, evaluateADRinServer = False, adrMethod = ADR_max, adrDeviceMargin = 10,
     knownNodes = [], receivedPackets = [], endOfWaiting = [], numReceivedPerNode = Map.empty, totalReceivedPackets = 0,
     counterOfSentPacketsFromNodes = 0, counterOfSentPacketsFromNodesPerSF = replicate 6 0,
     counterUniqueReceivedPackets = 0, counterUniqueReceivedPacketsPerSF = replicate 6 0, ns_sent = []\<rparr>"

definition sample_uplink_frame :: "int \<Rightarrow> real \<Rightarrow> lora_mac_frame" where
  "sample_uplink_frame seq snir = new_mac_frame\<lparr>transmitterAddress := 5, frameSequenceNumber := seq, frameLoRaSF := 9,
     frameSNIR := snir, encapsulated := Some \<lparr>msgType = MSGTYPE_UNSET, sampleMeasurement = 1,
       options = default_options\<lparr>opt_ADRACKReq := True\<rparr>\<rparr>\<rparr>"

definition sample_window :: network_server where
  "sample_window = addPktToProcessingTable (sample_uplink_frame 3 1) 77
     ((updateKnownNodes (sample_uplink_frame 3 1) sample_server)\<lparr>totalReceivedPackets := 1\<rparr>)"

lemma sample_window_step: "ns_step 0 (NsUplink (sample_uplink_frame 3 1) 77) sample_server = Inr sample_window"
  by (simp add: ns_step_def sample_server_def measuring_def ns_processLoraMACPacket_def isPacketProcessed_def
      updateKnownNodes_def sample_window_def sample_uplink_frame_def Let_def addPktToProcessingTable_def)

lemma sample_window_reachable: "ns_reachable sample_window"
proof (rule ns_reachable.step [OF _ _ sample_window_step])
  have "ns_initialize sample_server = sample_server" by (simp add: ns_initialize_def sample_server_def)
  then show "ns_reachable sample_server" using ns_reachable.init [of sample_server] by simp
qed (simp add: sample_server_def)

lemma ns_windows_invariant_witness: "distinct (map srcAddr (knownNodes sample_window))"
  using ns_windows_invariant [OF sample_window_reachable] by simp

text \<open>
  The table of devices after an uplink: the sender's entry remembers the highest sequence number,
  the other entries are as they were, and an unknown sender gets an entry of its own at the end.
\<close>

definition nodes_after :: "lora_mac_frame \<Rightarrow> known_node list \<Rightarrow> known_node list" where
  "nodes_after f nodes =
     (if transmitterAddress f \<in> srcAddr ` set nodes
      then map (\<lambda>n. if srcAddr n = transmitterAddress f
                     then n\<lparr>lastSeqNoProcessed := max (lastSeqNoProcessed n) (frameSequenceNumber f)\<rparr> else n) nodes
      else nodes @ [\<lparr>srcAddr = transmitterAddress f, framesFromLastADRCommand = 0,
                      lastSeqNoProcessed = frameSequenceNumber f, numberOfSentADRPackets = 0, adrListSNIR = []\<rparr>])"

lemma map_unmatched: "a \<notin> key ` set xs \<Longrightarrow> map (\<lambda>x. if key x = a then g x else x) xs = xs"
  by (rule map_idI) auto

lemma update_at_key:
  "distinct (map key xs) \<Longrightarrow> find_index (\<lambda>x. key x = a) xs = Some i \<Longrightarrow>
     xs[i := g (xs ! i)] = map (\<lambda>x. if key x = a then g x else x) xs"
proof (induction xs arbitrary: i)
  case Nil
  then show ?case by simp
next
  case (Cons x xs)
  show ?case
  proof (cases "key x = a")
    case True
    with Cons.prems have "i = 0" "a \<notin> key ` set xs" by auto
    with True map_unmatched [of a key xs g] show ?thesis by simp
  next
    case False
    with Cons.prems obtain k where "find_index (\<lambda>x. key x = a) xs = Some k" "i = Suc k" by auto
    with Cons.IH [of k] Cons.prems(1) False show ?thesis by simp
  qed
qed

lemma updateKnownNodes_nodes_after:
  assumes "distinct (map srcAddr (knownNodes ns))"
  shows "updateKnownNodes f ns = ns\<lparr>knownNodes := nodes_after f (knownNodes ns)\<rparr>"
proof (cases "find_index (\<lambda>n. srcAddr n = transmitterAddress f) (knownNodes ns)")
  case None
  then have "transmitterAddress f \<notin> srcAddr ` set (knownNodes ns)" by (auto simp: find_index_None_iff)
  with None show ?thesis by (simp add: updateKnownNodes_def nodes_after_def)
next
  case (Some i)
  let ?n = "knownNodes ns ! i"
  let ?g = "\<lambda>n. n\<lparr>lastSeqNoProcessed := max (lastSeqNoProcessed n) (frameSequenceNumber f)\<rparr>"
  have i: "i < length (knownNodes ns)" "srcAddr ?n = transmitterAddress f" using find_index_SomeD [OF Some] by simp_all
  then have known: "transmitterAddress f \<in> srcAddr ` set (knownNodes ns)" by (metis image_eqI nth_mem)
  have "?g ?n = ?n" if "\<not> lastSeqNoProcessed ?n < frameSequenceNumber f"
    using that by (intro known_node.equality) simp_all
  then have "updateKnownNodes f ns = ns\<lparr>knownNodes := (knownNodes ns)[i := ?g ?n]\<rparr>"
    using Some i by (auto simp: updateKnownNodes_def max_def)
  then show ?thesis using update_at_key [OF assms Some, of ?g] known by (simp add: nodes_after_def)
qed

text \<open>
  C9: What an arriving copy of an uplink does, in every case. The sender's entry in the table of devices is
  created or its last sequence number is raised, never lowered, and no other entry changes. A copy older than
  the device's last sequence number is dropped. A copy whose window is open joins its gateways. Any other copy
  opens a window of 1.2 s: also one of the last sequence number that comes after its window has closed, which
  is then counted again.
\<close>

theorem ns_uplink_cases:
  fixes f :: lora_mac_frame and g :: nat
  assumes "ns_reachable ns" and "simTime ns \<le> t"
  defines "received \<equiv> (if ns_warmup ns \<le> t then totalReceivedPackets ns + 1 else totalReceivedPackets ns)"
  defines "entry \<equiv> (g, fraction2dB (frameSNIR f), frameRSSI f)"
  defines "nodes \<equiv> nodes_after f (knownNodes ns)"
  shows "ns_step t (NsUplink f g) ns = Inr (
     if \<exists>n\<in>set (knownNodes ns). srcAddr n = transmitterAddress f \<and> frameSequenceNumber f < lastSeqNoProcessed n
     then ns\<lparr>simTime := t, totalReceivedPackets := received, knownNodes := nodes\<rparr>
     else case find_index (same_uplink f) (receivedPackets ns) of
            Some i \<Rightarrow> ns\<lparr>simTime := t, totalReceivedPackets := received, knownNodes := nodes,
                        receivedPackets := (receivedPackets ns)[i := (receivedPackets ns ! i)
                          \<lparr>possibleGateways := possibleGateways (receivedPackets ns ! i) @ [entry]\<rparr>]\<rparr>
          | None \<Rightarrow> ns\<lparr>simTime := t, totalReceivedPackets := received, knownNodes := nodes,
                      endOfWaiting := endOfWaiting ns @ [(t + 1.2, f)],
                      receivedPackets := receivedPackets ns @ [\<lparr>rcvdPacket = f, possibleGateways = [entry]\<rparr>]\<rparr>)"
proof -
  let ?old = "\<exists>n\<in>set (knownNodes ns). srcAddr n = transmitterAddress f \<and> frameSequenceNumber f < lastSeqNoProcessed n"
  let ?ns = "ns\<lparr>simTime := t, totalReceivedPackets := received\<rparr>"
  have nodes: "updateKnownNodes f ?ns = ?ns\<lparr>knownNodes := nodes\<rparr>"
    using updateKnownNodes_nodes_after [of ?ns f] ns_reachable_windows [OF assms(1)]
    by (simp add: ns_windows_def nodes_def)
  have "isPacketProcessed f (updateKnownNodes f ?ns) \<longleftrightarrow> ?old"
    using isPacketProcessed_update [of ?ns f] ns_reachable_windows [OF assms(1)] by (simp add: ns_windows_def)
  moreover have "ns_step t (NsUplink f g) ns = Inr (ns_processLoraMACPacket f g (updateKnownNodes f ?ns))"
    by (simp add: ns_step_def measuring_def received_def Let_def)
  ultimately have "ns_step t (NsUplink f g) ns
      = Inr (if ?old then ?ns\<lparr>knownNodes := nodes\<rparr> else addPktToProcessingTable f g (?ns\<lparr>knownNodes := nodes\<rparr>))"
    unfolding nodes ns_processLoraMACPacket_def by simp
  moreover have "addPktToProcessingTable f g (?ns\<lparr>knownNodes := nodes\<rparr>) =
      (case find_index (same_uplink f) (receivedPackets ns) of
         Some i \<Rightarrow> ns\<lparr>simTime := t, totalReceivedPackets := received, knownNodes := nodes,
                     receivedPackets := (receivedPackets ns)[i := (receivedPackets ns ! i)
                       \<lparr>possibleGateways := possibleGateways (receivedPackets ns ! i) @ [entry]\<rparr>]\<rparr>
       | None \<Rightarrow> ns\<lparr>simTime := t, totalReceivedPackets := received, knownNodes := nodes,
                   endOfWaiting := endOfWaiting ns @ [(t + 1.2, f)],
                   receivedPackets := receivedPackets ns @ [\<lparr>rcvdPacket = f, possibleGateways = [entry]\<rparr>]\<rparr>)"
    by (simp add: addPktToProcessingTable_def entry_def split: option.split)
  ultimately show ?thesis by (simp only:)
qed

lemma ns_uplink_cases_witness:
  "ns_step 1 (NsUplink (sample_uplink_frame 3 1) 78) sample_window = Inr (sample_window\<lparr>simTime := 1,
     totalReceivedPackets := 2, receivedPackets := [\<lparr>rcvdPacket = sample_uplink_frame 3 1,
       possibleGateways = [(77, fraction2dB 1, 0), (78, fraction2dB 1, 0)]\<rparr>]\<rparr>)"
proof -
  have w: "sample_window = sample_server\<lparr>knownNodes := [\<lparr>srcAddr = 5, framesFromLastADRCommand = 0, lastSeqNoProcessed = 3,
      numberOfSentADRPackets = 0, adrListSNIR = []\<rparr>], totalReceivedPackets := 1,
      endOfWaiting := [(1.2, sample_uplink_frame 3 1)],
      receivedPackets := [\<lparr>rcvdPacket = sample_uplink_frame 3 1, possibleGateways = [(77, fraction2dB 1, 0)]\<rparr>]\<rparr>"
    by (simp add: sample_window_def sample_server_def updateKnownNodes_def addPktToProcessingTable_def
        sample_uplink_frame_def new_mac_frame_def)
  have s: "simTime sample_window \<le> 1" by (simp add: w sample_server_def)
  show ?thesis
    using ns_uplink_cases [OF sample_window_reachable s, of "sample_uplink_frame 3 1" 78]
    by (simp add: w nodes_after_def sample_server_def sample_uplink_frame_def new_mac_frame_def same_uplink_def)
qed

text \<open>
  C10: What the end of a window does, the adaptive data rate apart: it closes the oldest window and no other,
  and counts its uplink once, in total, for its spreading factor and (after the warm-up or not) for its device.
\<close>

theorem ns_window_closes:
  assumes "ns_reachable ns" and "simTime ns \<le> t" and "receivedPackets ns = r # rs"
    and "\<not> evaluateADRinServer ns" and "7 \<le> frameLoRaSF (rcvdPacket r)" and "frameLoRaSF (rcvdPacket r) \<le> 12"
  defines "i \<equiv> nat (frameLoRaSF (rcvdPacket r) - 7)" and "k \<equiv> sint (transmitterAddress (rcvdPacket r)) - 1"
  defines "c \<equiv> (if ns_warmup ns \<le> t then 1 else 0 :: int)"
  shows "ns_step t NsTimer ns = Inr (ns\<lparr>simTime := t, endOfWaiting := tl (endOfWaiting ns), receivedPackets := rs,
     numReceivedPerNode := (numReceivedPerNode ns)(k \<mapsto> (case numReceivedPerNode ns k of Some m \<Rightarrow> m + 1 | None \<Rightarrow> 1)),
     counterUniqueReceivedPackets := counterUniqueReceivedPackets ns + c,
     counterUniqueReceivedPacketsPerSF :=
       (counterUniqueReceivedPacketsPerSF ns)[i := counterUniqueReceivedPacketsPerSF ns ! i + c]\<rparr>)"
proof -
  have W: "map rcvdPacket (receivedPackets ns) = map snd (endOfWaiting ns)"
    "distinct (map (uplink_key \<circ> rcvdPacket) (r # rs))" "length (counterUniqueReceivedPacketsPerSF ns) = 6"
    using ns_reachable_windows [OF assms(1)] assms(3) by (simp_all add: ns_windows_def)
  then obtain tm pending where p: "endOfWaiting ns = (tm, rcvdPacket r) # pending"
    using assms(3) by (cases "endOfWaiting ns") auto
  note h = head_only [OF W(2)]
  have sf: "count_sf (frameLoRaSF (rcvdPacket r)) (counterUniqueReceivedPacketsPerSF ns)
      = Inr ((counterUniqueReceivedPacketsPerSF ns)[i := counterUniqueReceivedPacketsPerSF ns ! i + 1])"
    using assms(5,6) W(3) by (simp add: count_sf_def i_def)
  show ?thesis
    using sf assms(3,4) p h(1,3)
    by (simp add: ns_step_def processScheduledPacket_def countUniquePerSF_def answerUplink_def countUnique_def removeWindow_def
        measuring_def c_def k_def Let_def remove_nth_def split: prod.split)
qed

lemma ns_window_closes_witness:
  "\<exists>ns'. ns_step 2 NsTimer sample_window = Inr ns' \<and> counterUniqueReceivedPackets ns' = 1 \<and> receivedPackets ns' = []
     \<and> counterUniqueReceivedPacketsPerSF ns' = [0, 0, 1, 0, 0, 0] \<and> numReceivedPerNode ns' 4 = Some 1"
proof -
  have w: "sample_window = sample_server\<lparr>knownNodes := knownNodes sample_window, totalReceivedPackets := 1,
      endOfWaiting := [(1.2, sample_uplink_frame 3 1)],
      receivedPackets := [\<lparr>rcvdPacket = sample_uplink_frame 3 1, possibleGateways = [(77, fraction2dB 1, 0)]\<rparr>]\<rparr>"
    by (simp add: sample_window_def sample_server_def updateKnownNodes_def addPktToProcessingTable_def
        sample_uplink_frame_def new_mac_frame_def)
  let ?r = "\<lparr>rcvdPacket = sample_uplink_frame 3 1, possibleGateways = [(77, fraction2dB 1, 0)]\<rparr>"
  have h: "simTime sample_window \<le> 2" "receivedPackets sample_window = ?r # []" "\<not> evaluateADRinServer sample_window"
    by (subst w, simp add: sample_server_def)+
  have sf: "frameLoRaSF (rcvdPacket ?r) = 9" "transmitterAddress (rcvdPacket ?r) = 5" by (simp_all add: sample_uplink_frame_def)
  have e: "numReceivedPerNode sample_window = Map.empty" "counterUniqueReceivedPackets sample_window = 0"
    "counterUniqueReceivedPacketsPerSF sample_window = [0, 0, 0, 0, 0, 0]" "ns_warmup sample_window = 0"
    by (subst w, simp add: sample_server_def eval_nat_numeral)+
  show ?thesis
    using ns_window_closes [OF sample_window_reachable h] sf e by (simp add: eval_nat_numeral)
qed

subsection \<open>The gateway that answers\<close>

lemma better_gateway_fold:
  assumes "fold better_gateway gws (g0, s0, r0) = (g, s, r)"
  shows "(\<forall>(gw, snir, rssi)\<in>set gws. snir \<le> s) \<and> s0 \<le> s
       \<and> ((g, s, r) = (g0, s0, r0) \<or> (\<exists>gw. g = Some gw \<and> (gw, s, r) \<in> set gws))"
  using assms
proof (induction gws arbitrary: g0 s0 r0)
  case Nil
  then show ?case by simp
next
  case (Cons x gws)
  obtain gw sn rs where x: "x = (gw, sn, rs)" by (cases x)
  show ?case
  proof (cases "s0 < sn")
    case True
    then have "better_gateway x (g0, s0, r0) = (Some gw, sn, rs)" by (simp add: x better_gateway_def)
    with Cons.prems have "fold better_gateway gws (Some gw, sn, rs) = (g, s, r)" by simp
    from Cons.IH [OF this] True show ?thesis by (auto simp: x)
  next
    case False
    then have "better_gateway x (g0, s0, r0) = (g0, s0, r0)" by (simp add: x better_gateway_def)
    with Cons.prems have "fold better_gateway gws (g0, s0, r0) = (g, s, r)" by simp
    from Cons.IH [OF this] False show ?thesis by (auto simp: x)
  qed
qed

text \<open>
  C11: The answer goes through the best gateway: when a window of a reachable state closes, the gateway picked
  is one that forwarded the uplink, with the signal to noise ratio it reported, and no other reported a better one.
\<close>

theorem ns_best_gateway:
  assumes "ns_reachable ns" and "r \<in> set (receivedPackets ns)"
    and "\<forall>(gw, snir, rssi)\<in>set (possibleGateways r). -99999999999 < snir"
  shows "\<exists>gw snir rssi. pickGateway (rcvdPacket r) (receivedPackets ns) = (Some gw, snir, rssi)
     \<and> (gw, snir, rssi) \<in> set (possibleGateways r) \<and> (\<forall>(gw', snir', rssi')\<in>set (possibleGateways r). snir' \<le> snir)"
proof -
  have W: "distinct (map (uplink_key \<circ> rcvdPacket) (receivedPackets ns))" "possibleGateways r \<noteq> []"
    using ns_reachable_windows [OF assms(1)] assms(2) by (auto simp: ns_windows_def list_all_iff)
  obtain g s q where g: "fold better_gateway (possibleGateways r) (None, -99999999999, -99999999999) = (g, s, q)"
    by (cases "fold better_gateway (possibleGateways r) (None, -99999999999, -99999999999)")
  have "pickGateway (rcvdPacket r) (receivedPackets ns) = (g, s, q)"
    using pickGateway_unique [OF W(1) assms(2)] g by simp
  moreover obtain x where "x \<in> set (possibleGateways r)" using W(2) by (cases "possibleGateways r") auto
  ultimately show ?thesis
    using better_gateway_fold [OF g] assms(3) by (cases x) fastforce
qed

lemma ns_best_gateway_witness:
  "\<exists>snir rssi. pickGateway (sample_uplink_frame 3 1) (receivedPackets sample_window) = (Some 77, snir, rssi)"
proof -
  let ?r = "\<lparr>rcvdPacket = sample_uplink_frame 3 1, possibleGateways = [(77, fraction2dB 1, 0)]\<rparr>"
  have "?r \<in> set (receivedPackets sample_window)"
    by (simp add: sample_window_def sample_server_def updateKnownNodes_def addPktToProcessingTable_def
        sample_uplink_frame_def new_mac_frame_def)
  moreover have "\<forall>(gw, snir, rssi)\<in>set (possibleGateways ?r). -99999999999 < snir" by (simp add: fraction2dB_def)
  ultimately show ?thesis using ns_best_gateway [OF sample_window_reachable, of ?r] by auto
qed

subsection \<open>An answer to an acknowledgement request\<close>

lemma adr_nodes_not_due:
  "\<forall>n\<in>set ns. srcAddr n = a \<longrightarrow> framesFromLastADRCommand n \<noteq> 19 \<Longrightarrow>
   adr_nodes m a s i ns due = (map (\<lambda>n. if srcAddr n = a then fst (adr_node m s n) else n) ns, due)"
proof (induction ns arbitrary: i due)
  case Nil
  show ?case by simp
next
  case (Cons n ns)
  have "snd (adr_node m s n) = None" if "srcAddr n = a" using Cons.prems that by (simp add: adr_node_eq Let_def)
  then show ?case using Cons by (cases "adr_node m s n") (auto simp: Let_def)
qed

text \<open>
  C15: The request of a device that no command is due for. Once the warm-up is over, the server counts the
  answer under an index it never set, which is undefined behaviour; before, it answers with a command that
  carries no parameter at all.
\<close>

theorem adr_ack_without_command:
  assumes "encapsulated pkt = Some app" and "opt_ADRACKReq (options app)"
    and "\<forall>n\<in>set (knownNodes ns). srcAddr n = transmitterAddress pkt \<longrightarrow> framesFromLastADRCommand n \<noteq> 19"
  shows "evaluateADR pkt g snir ns =
    (if ns_warmup ns \<le> simTime ns then Inl (UndefinedBehaviour ''nodeIndex'')
     else Inr (ns\<lparr>knownNodes := map (\<lambda>n. if srcAddr n = transmitterAddress pkt then fst (adr_node (adrMethod ns) snir n) else n)
                                 (knownNodes ns),
                 ns_sent := ns_sent ns @ [(new_mac_frame\<lparr>
                   encapsulated := Some \<lparr>msgType = TXCONFIG, sampleMeasurement = 0, options = default_options\<rparr>,
                   receiverAddress := transmitterAddress pkt, frameLoRaTP := 14, frameLoRaCF := frameLoRaCF pkt,
                   frameLoRaSF := frameLoRaSF pkt, frameLoRaBW := frameLoRaBW pkt\<rparr>, g)]\<rparr>))"
  using assms(1,2) by (simp add: evaluateADR_def adr_nodes_not_due [OF assms(3)] adr_options_def measuring_def Let_def)

lemma adr_ack_without_command_witness:
  "evaluateADR (sample_uplink_frame 3 1) (Some 77) 0 sample_window = Inl (UndefinedBehaviour ''nodeIndex'')"
proof -
  have n: "knownNodes sample_window = [\<lparr>srcAddr = 5, framesFromLastADRCommand = 0, lastSeqNoProcessed = 3,
      numberOfSentADRPackets = 0, adrListSNIR = []\<rparr>]" "ns_warmup sample_window \<le> simTime sample_window"
    by (simp_all add: sample_window_def sample_server_def updateKnownNodes_def addPktToProcessingTable_def
        sample_uplink_frame_def new_mac_frame_def)
  have "encapsulated (sample_uplink_frame 3 1) = Some \<lparr>msgType = MSGTYPE_UNSET, sampleMeasurement = 1,
       options = default_options\<lparr>opt_ADRACKReq := True\<rparr>\<rparr>" by (simp add: sample_uplink_frame_def)
  from adr_ack_without_command [OF this, of sample_window "Some 77" 0] n show ?thesis by simp
qed

end
