(* ===== verification/Spec2Isabelle.thy ===== *)
theory Spec2Isabelle
  imports FSMA LoRaDownlink LoRaClassA LoRaEnergyConsumer LoRaGateway LoRaGWRadio CacheRefinement LoRaMediumDecisions IntervalStore
    IPv4Fragments IPv4RouteLookup
    SimpleLoRaApp NetworkServerApp
begin

text \<open>
  This development verifies the LoRa extension of INET in this repository: the simulation models of a
  LoRaWAN network under \<open>src/inet/src/inet/LoRa\<close>, \<open>LoRaApp\<close>, \<open>LoRaPhy\<close>, \<open>LoRaEnergyModules\<close> and
  \<open>misc\<close>, with those parts of INET that they are written on. Paths below are relative to
  \<open>src/inet/src/inet\<close>.

  The program. An end device is a stack of three modules. \<open>LoRaApp/SimpleLoRaApp\<close> sends measurements with a
  spreading factor and a power it chooses; \<open>LoRa/LoRaMac\<close> sends one frame at a time and opens the two
  receive windows of class A after it; \<open>LoRa/LoRaRadio\<close> switches modes, transmits, and attempts at most one
  reception. \<open>LoRaEnergyModules/LoRaEnergyConsumer\<close> listens to the radio's signals. The medium
  (\<open>LoRaPhy/LoRaMedium\<close>) sends a frame to the radios that may hear it (neighbor cache, limit cache, path loss),
  computes how strong it is and with how much noise (analog model) and asks the radio's receiver whether it is
  received (sensitivity, capture and collision); it keeps what it has computed in a communication cache. A gateway has
  \<open>LoRa/LoRaGWRadio\<close>, which receives many frames at a time, \<open>LoRa/LoRaGWMac\<close>, which keeps the duty cycle of
  the downlink, and \<open>LoRa/PacketForwarder\<close>, which carries frames to and from \<open>LoRa/NetworkServerApp\<close>. The
  server merges the copies of an uplink, picks the gateway that answers, and computes the adaptive data rate.

  The theories, each on the files it translates:
    \<^item> \<open>Prelude\<close>: errors, chaining of fallible operations, decibels, the theorem collections.
    \<^item> \<open>DevAddr\<close>: \<open>misc/DevAddr\<close>, addresses as 32 bit words. Round trip of the text form, automatic numbering.
    \<^item> \<open>FSMA\<close>: the state machine macros of \<open>common/FSMA.h\<close> as an interpreter. Termination of the scan,
      preservation of invariants, both used for the MAC.
    \<^item> \<open>LoRaTypes\<close>: the messages and the enumerations of the radio interface.
    \<^item> \<open>LoRaRadio\<close>: the end device's radio. The locale \<open>radio_listener\<close> is the contract of whoever runs inside
      \<open>emit\<close>; the invariant of the transceiver is proved under it. \<open>radio_framed\<close> carries predicates the radio
      does not touch.
    \<^item> \<open>LoRaMac\<close>: the MAC over any radio. The locale \<open>mac_radio\<close> is what it relies on in
      \<open>setRadioMode\<close>; the invariant of its timers is proved under it.
    \<^item> \<open>LoRaNic\<close>: the two together (\<open>LoRa/LoRaNic.ned\<close>). Both locales are interpreted on the composition;
      reachable states satisfy both invariants.
    \<^item> \<open>LoRaClassA\<close>, \<open>LoRaDownlink\<close>: the locale \<open>radio_service\<close> says what a mode switch of a ready interface
      does; on it rest the class A cycle without a downlink, with its times and the states of the radio in each window, and
      the one with a downlink.
    \<^item> \<open>LoRaEnergyConsumer\<close>: another listener of the radio. The locale \<open>metered_radio\<close> carries its invariant through a
      run, in which other listeners may switch the mode; the energy is the integral of the power that the states of the radio call for.
    \<^item> \<open>LoRaGateway\<close>, \<open>LoRaGWRadio\<close>: the gateway. Duty cycle; half duplex and concurrent receptions.
    \<^item> \<open>LoRaReceiver\<close>: time on air, sensitivity, collisions, the reception decision of a gateway.
    \<^item> \<open>LoRaChannel\<close>: received power, noise over time, signal to noise ratio (\<open>LoRaPhy/LoRaAnalogModel\<close>,
      \<open>ScalarNoise.cc\<close>, \<open>ScalarSNIR.cc\<close> of \<open>physicallayer/analogmodel/packetlevel\<close>).
    \<^item> \<open>LoRaPathLoss\<close>: eight path loss models behind the locale \<open>path_loss\<close>, ranges, and the bit error rate.
    \<^item> \<open>LoRaNeighborCache\<close>: who is sent a frame; exact after a refill, complete between refills, and where not.
    \<^item> \<open>LoRaMediumCache\<close>: the largest powers and ranges over all radios; which radios a frame must be offered to.
    \<^item> \<open>CommunicationCache\<close>: the two caches of computed results (\<open>physicallayer/communicationcache\<close>) and the
      accessors they share (\<open>physicallayer/base/packetlevel/CommunicationCacheBase\<close>). The locale \<open>comm_cache\<close>
      is the contract of the virtual functions, \<open>shaped_cache\<close> adds that no access to a known transmission changes the
      extent of the cache; both are interpreted on both implementations. \<open>CacheRefinement\<close>: the locale \<open>cache_pair\<close>
      compares two caches on the calls of the base class, \<open>cache_kept\<close> says what a call leaves as it is; with the operations in
      which the two differ, they answer alike.
    \<^item> \<open>IntervalTree\<close>: the red-black tree of intervals of \<open>common/IntervalTree\<close>, node by node on a heap with parent
      pointers. \<open>IntervalShape\<close>: the trees the heap stands for, and what insertion, deletion and query do to them.
      \<open>IntervalHeap\<close>, \<open>IntervalRepair\<close>, \<open>IntervalOps\<close>, \<open>IntervalDelete\<close>, \<open>IntervalQuery\<close>: each loop and operation
      on the heap implements the one on shapes, and returns. \<open>IntervalStore\<close>: the locale \<open>interval_store\<close> is what the
      communication cache needs of the intervals of a radio; it is interpreted on the list of \<open>CommunicationCache\<close>
      and on the tree, and \<open>two_stores\<close> shows that they give the same answers.
    \<^item> \<open>LoRaMedium\<close>: the medium, over any communication cache. \<open>LoRaMediumResults\<close>: what its queries change.
      \<open>LoRaMediumHistory\<close>, \<open>LoRaMediumReach\<close>: which transmissions the cache of a running medium holds, which of
      them interfere, and when they are forgotten. \<open>LoRaMediumDecisions\<close>: in a running medium a reception is decided once.
    \<^item> \<open>SimpleLoRaApp\<close>: sending, the device's half of the adaptive data rate, duty cycle.
    \<^item> \<open>NetworkServerApp\<close>: windows, duplicates, choice of the gateway, the server's half of the data rate.
    \<^item> \<open>ReassemblyBuffer\<close>, \<open>IPv4FragBuf\<close>, \<open>IPv4Fragments\<close>: between gateways and server the frames travel over IPv4.
      \<open>IPv4::fragmentAndSend\<close>, \<open>IPv4FragBuf\<close> and \<open>common/ReassemblyBuffer\<close>. The specification of the buffer is a
      division of the payload into byte ranges; fragmentation makes one, and the buffer is complete when all of it is there.
    \<^item> \<open>IPv4Address\<close>, \<open>IPv4RoutingTable\<close>, \<open>IPv4RouteLookup\<close>: netmasks and prefixes; the unicast routes of
      \<open>networklayer/ipv4/IPv4RoutingTable\<close> as objects on a heap, their order, the lookup cache, and longest prefix matching
      in every table that the operations reach.
    \<^item> this theory: the adaptive data rate across device, MAC and server.

  State and calls. A C++ class is a \<open>record\<close> with the fields its code reads and writes; an operation is a
  function on that record, or on the sum type \<open>sim_error + 'a\<close> where the code can throw or can run into undefined
  behaviour (an index out of range, a past-the-end iterator, a variable never written). Self messages are
  the times they are scheduled for. Modules that call each other synchronously share one record, each
  extending the one below, and a callback is an argument: the MAC takes \<open>setMode\<close>, the radio takes \<open>emit\<close>.
  What a module sends out of a gate is a list in its state. Module parameters, positions and random draws are
  arguments; a shadowing model draws anew each time the code asks it, so the draw is part of the argument of each
  call (C34 and C40 compare calls with different draws; C33 is about the model without shadowing). Simulation times and doubles are
  real numbers. Integers whose
  width matters (addresses) are words; spreading factors, counters and sequence numbers are \<open>int\<close>.

  Bounds. The recursion of MAC and radio through signals is unrolled to a depth \<open>n\<close> (theory \<open>LoRaNic\<close>);
  reaching it is an error value, and the cycle theorems show that the calls return at every depth above the
  small one they state. \<open>FSM_MAXT\<close>, the scan bound of the state machine macros, is an argument; two scans are
  enough for a machine without eventless transitions (theory \<open>FSMA\<close>). The loop of \<open>n_choose_k\<close> has the fuel
  \<open>nat iK\<close>, one more than its iterations. A loop that draws random numbers until a bound is passed
  returns \<open>None\<close> when the list of draws ends first.

  The loops of the interval tree have no bound: they are \<open>option\<close> values, \<open>None\<close> for a loop that does not return, and
  C21 shows that on the trees the class builds all of them return.

  What the properties show, by their claim ids: the class A cycle and its downlink (C1, C3) and the
  invariant they rest on (C2); the gateway's duty cycle (C4) and its reception decision (C5, C6, C28); the
  adaptive data rate, as a loop (C7), on the server (C12 to C15) and on the device (C24); windows and
  duplicates on the server (C8 to C11); the interferers that the medium reports, and what its purge forgets: the transmissions that
  cannot interfere with receptions no longer than \<open>maxTransmissionDuration\<close>, which the code does not make sure of, and all of
  them in the end (C16 to C18); the communication caches (C19), the interval tree they use (C20, C21) and
  the decisions that are cached (C22); energy (C23); the application (C25, C26); termination of the
  state machines (C27); the gateway's radio (C28, C30); IPv4 fragments (C29) and routes (C36); noise (C31); time on
  air (C32); path loss, ranges and bit errors (C33 to C35); neighbor lists (C37, C38); addresses (C39); the ranges of the
  medium (C40).

  What modelling showed. A copy of an uplink that arrives after its window has closed is counted again (C9);
  an acknowledgement request with no command due writes through an index that was never set (C15); a
  reception that ends while the gateway transmits leaves a dangling pointer (C30); the number of payload
  symbols is rounded down before \<open>ceil\<close> sees it (C32); removing a radio changes a copy of the neighbor lists
  (C38); commands are computed from 19 ratios, not 20 (C14); the communication range of the medium is assigned from
  itself and never set, so that its filter lets every frame through, and the range that the neighbor cache gets leaves out shadowing,
  gains and senders that exceed their declared power (C40); the purge can forget a transmission that a long reception still needs
  (C17); the energy since the last signal of the radio is not recorded (C23); a datagram that arrives in raw fragments is
  parsed from its first fragment only, and a change of an administrative distance leaves a routing table out of order
  (theories \<open>IPv4Fragments\<close>, \<open>IPv4RouteLookup\<close>). Smaller ones are in the text of their theories.

  Not modelled. The ray tracing medium (\<open>LoRaPhy/OpalLoRaRadioMedium\<close>, \<open>OpalLoRaAnalogModel\<close>), which is glue to a
  library outside the repository. The destructors and the printing of \<open>common/IntervalTree\<close>, and the lookups of it that
  nothing calls. Of IPv4, what is around fragmentation, reassembly and unicast routes: multicast routes and forwarding,
  ARP, the netfilter hooks, the text form of addresses. The rest of INET (transport and routing protocols, other link
  layers, mobility, visualisation), which this project includes and does not change. What \<open>finish\<close>
  writes, output vectors, watches, display strings and logging. The rounding of floating point numbers and of
  simulation times, and their infinities: the logarithm of 0 in \<open>rssi_dBm\<close> and the quotient of \<open>calculateBER\<close> at bit rate 0
  are 0 in HOL and -inf and NaN in C++. Switching times of the radio other than 0 in the initial state of \<open>nic_initialize\<close>, where
  the radio's own operations take any. The reuse of an address by a new object, in the caches that are keyed by pointers. The scheduler itself: an event is delivered when its time is due, in any order among events
  of the same time. The statistics of the error model in the radio. Antennas, obstacles and mobility are
  arguments.
\<close>

subsection \<open>The adaptive data rate loop\<close>

text \<open>Device, MAC and server together: the device sends an uplink, the server answers, the device obeys.\<close>

lemma adr_options_in_range:
  assumes "adr_options ns pkt due = Inr opts" and "7 \<le> frameLoRaSF pkt" and "frameLoRaSF pkt \<le> 12"
    and "2 \<le> frameLoRaTP pkt" and "frameLoRaTP pkt \<le> 14"
  shows "opts = default_options \<or> (7 \<le> opt_LoRaSF opts \<and> opt_LoRaSF opts \<le> 12 \<and> 2 \<le> opt_LoRaTP opts \<and> opt_LoRaTP opts \<le> 14)"
proof (cases due)
  case None
  with assms(1) show ?thesis by (simp add: adr_options_def)
next
  case (Some d)
  then obtain n sf tp where s: "adr_settings n (frameLoRaSF pkt) (frameLoRaTP pkt) = (sf, tp)"
    "opts = default_options\<lparr>opt_LoRaSF := sf, opt_LoRaTP := tp\<rparr>"
    using assms(1) by (auto simp: adr_options_def Let_def split: option.splits prod.splits)
  note c = adr_settings_closed [OF assms(2-5), of n, unfolded s(1) fst_conv snd_conv]
  then show ?thesis by (simp add: s(2))
qed

lemma evaluateADR_reply:
  assumes "evaluateADR pkt g snir ns = Inr ns'"
  shows "ns_sent ns' = ns_sent ns \<or> (\<exists>reply opts due ns0. ns_sent ns' = ns_sent ns @ [(reply, g)]
     \<and> adr_options ns0 pkt due = Inr opts
     \<and> encapsulated reply = Some \<lparr>msgType = TXCONFIG, sampleMeasurement = 0, options = opts\<rparr>
     \<and> receiverAddress reply = transmitterAddress pkt)"
  using assms
  by (auto simp: evaluateADR_def Let_def elim!: andThen_InrE split: option.splits prod.splits if_splits)


text \<open>
  C7: The loop keeps a device within its limits. A device whose spreading factor is between 7 and 12 and
  whose power is between 2 and 14 dBm sends an uplink, which its MAC frames; whatever the server answers to
  that frame, if it answers at all, goes to the device, and leaves it within these limits.
\<close>

theorem adr_loop_in_range:
  assumes "7 \<le> app_loRaSF a" and "app_loRaSF a \<le> 12" and "2 \<le> app_loRaTP a" and "app_loRaTP a \<le> 14"
    and "app_sent (sendJoinRequest random a) = app_sent a @ [(packet, cInfo)]"
    and "evaluateADR (upper_frame w packet cInfo) g snir ns = Inr ns'"
    and "ns_sent ns' = ns_sent ns @ [(reply, g')]" and "encapsulated reply = Some command"
  defines "a' \<equiv> app_handleMessageFromLowerLayer command (sendJoinRequest random a)"
  shows "receiverAddress reply = address w
       \<and> 7 \<le> app_loRaSF a' \<and> app_loRaSF a' \<le> 12 \<and> 2 \<le> app_loRaTP a' \<and> app_loRaTP a' \<le> 14"
proof -
  let ?f = "upper_frame w packet cInfo"
  have c: "ci_LoRaSF cInfo = app_loRaSF a" "ci_LoRaTP cInfo = app_loRaTP a"
    using assms(5) by (auto simp: sendJoinRequest_def increaseSFIfPossible_def Let_def split: if_splits)
  have s: "7 \<le> app_loRaSF (sendJoinRequest random a)" "app_loRaSF (sendJoinRequest random a) \<le> 12"
    "app_loRaTP (sendJoinRequest random a) = app_loRaTP a"
    using assms(1,2) by (simp_all add: sendJoinRequest_def increaseSFIfPossible_def Let_def)
  from evaluateADR_reply [OF assms(6)] assms(7,8) obtain opts due ns0 where
    o: "adr_options ns0 ?f due = Inr opts" "command = \<lparr>msgType = TXCONFIG, sampleMeasurement = 0, options = opts\<rparr>"
      "receiverAddress reply = transmitterAddress ?f"
    by auto
  have "opts = default_options \<or> (7 \<le> opt_LoRaSF opts \<and> opt_LoRaSF opts \<le> 12 \<and> 2 \<le> opt_LoRaTP opts \<and> opt_LoRaTP opts \<le> 14)"
    by (rule adr_options_in_range [OF o(1)]) (use c assms(1-4) in \<open>simp_all add: upper_frame_def\<close>)
  then show ?thesis
    using o(2,3) s assms(3,4)
    by (auto simp: a'_def app_handleMessageFromLowerLayer_def Let_def default_options_def upper_frame_def encapsulate_def)
qed

lemma adr_loop_in_range_witness:
  "\<exists>ns' reply command. evaluateADR (upper_frame sample_device (fst (hd (app_sent (sendJoinRequest 7 sample_app))))
        (snd (hd (app_sent (sendJoinRequest 7 sample_app))))) (Some 3) (-5)
        (sample_server\<lparr>knownNodes := [new_node\<lparr>srcAddr := address sample_device, framesFromLastADRCommand := 19\<rparr>]\<rparr>) = Inr ns'
     \<and> ns_sent ns' = [(reply, Some 3)] \<and> encapsulated reply = Some command
     \<and> app_loRaSF (app_handleMessageFromLowerLayer command (sendJoinRequest 7 sample_app)) \<le> 12"
proof -
  let ?ns = "sample_server\<lparr>knownNodes := [new_node\<lparr>srcAddr := address sample_device, framesFromLastADRCommand := 19\<rparr>]\<rparr>"
  obtain p c where s: "app_sent (sendJoinRequest 7 sample_app) = [(p, c)]" "ci_LoRaSF c = 11" "ci_LoRaTP c = 14"
    by (simp add: sendJoinRequest_def sample_app_def increaseSFIfPossible_def Let_def)
  let ?f = "upper_frame sample_device p c"
  have f: "frameLoRaSF ?f = 11" "frameLoRaTP ?f = 14" "transmitterAddress ?f = address sample_device" "encapsulated ?f = Some p"
    using s by (simp_all add: upper_frame_def encapsulate_def)
  obtain nodes d where due: "adr_nodes (adrMethod ?ns) (transmitterAddress ?f) (-5) 0 (knownNodes ?ns) None = (nodes, Some (0, Some d))"
    by (simp add: f sample_server_def adr_node_eq adr_SNRm_def new_node_def)
  obtain sf tp where "adr_settings (c_iround ((d - (-17.5) - 10) / 3)) 11 14 = (sf, tp)" by force
  then obtain opts where o: "adr_options (?ns\<lparr>knownNodes := nodes\<rparr>) ?f (Some (0, Some d)) = Inr opts"
    by (simp add: adr_options_def f(1,2) requiredSNR_def sample_server_def)
  obtain ns' reply command where e: "evaluateADR ?f (Some 3) (-5) ?ns = Inr ns'"
    "ns_sent ns' = ns_sent ?ns @ [(reply, Some 3)]" "encapsulated reply = Some command"
  proof -
    have "measuring (?ns\<lparr>knownNodes := nodes\<rparr>)" by (simp add: measuring_def sample_server_def)
    then have "\<exists>ns' reply command. evaluateADR ?f (Some 3) (-5) ?ns = Inr ns'
        \<and> ns_sent ns' = ns_sent ?ns @ [(reply, Some 3)] \<and> encapsulated reply = Some command"
      unfolding evaluateADR_def f(4) option.case Let_def due prod.case o by simp
    then show thesis using that by blast
  qed
  have "app_loRaSF (app_handleMessageFromLowerLayer command (sendJoinRequest 7 sample_app)) \<le> 12"
    using adr_loop_in_range [OF _ _ _ _ _ e(1), of sample_app 7] e(2,3) s by (simp add: sample_app_def)
  with e s show ?thesis by (auto simp: sample_server_def)
qed

end
